(* ===== verification/Prelude.thy ===== *)
theory Prelude
  imports Main "HOL-Library.Word"
begin

text \<open>
  Shared vocabulary of the development: the way a C function can end, the return codes of
  \<^verbatim>\<open>src/Include/common.h\<close>, and generic facts on lists, strings and options.

  A C function is modelled by a HOL function into \<open>fault + 'a\<close>: \<open>Inr\<close> is a normal return,
  \<open>Inl\<close> an execution that runs into undefined behaviour or an abort (a NULL or dangling
  pointer, an access outside a buffer, a failed \<^verbatim>\<open>assert\<close>). A function that contains a
  loop over pointers may also fail to return: it has the type \<open>'a run\<close>, whose \<open>None\<close> is
  divergence.
\<close>

section \<open>Outcomes of C code\<close>

datatype fault = NullDeref | BadPointer | OutOfBounds | AssertFailed | Uninitialised | DivByZero

type_synonym 'a run = "(fault + 'a) option"

definition rbind :: "fault + 'a \<Rightarrow> ('a \<Rightarrow> fault + 'b) \<Rightarrow> fault + 'b" where
  "rbind m f = (case m of Inl e \<Rightarrow> Inl e | Inr x \<Rightarrow> f x)"

definition run_bind :: "'a run \<Rightarrow> ('a \<Rightarrow> 'b run) \<Rightarrow> 'b run" where
  "run_bind m f = (case m of None \<Rightarrow> None | Some (Inl e) \<Rightarrow> Some (Inl e) | Some (Inr x) \<Rightarrow> f x)"

lemma rbind_simps [simp]:
  "rbind (Inl e) f = Inl e"
  "rbind (Inr x) f = f x"
  by (simp_all add: rbind_def)

lemma run_bind_simps [simp]:
  "run_bind None f = None"
  "run_bind (Some (Inl e)) f = Some (Inl e)"
  "run_bind (Some (Inr x)) f = f x"
  by (simp_all add: run_bind_def)

named_theorems outcome_iff \<open>inversion of the outcome binds\<close>

lemma rbind_Inr_iff [outcome_iff]:
  "rbind m f = Inr y \<longleftrightarrow> (\<exists>x. m = Inr x \<and> f x = Inr y)"
  by (cases m) auto

lemma run_bind_Inr_iff [outcome_iff]:
  "run_bind m f = Some (Inr y) \<longleftrightarrow> (\<exists>x. m = Some (Inr x) \<and> f x = Some (Inr y))"
  by (cases m) (auto simp: run_bind_def split: sum.splits)

lemma rbind_Inr_iff' [outcome_iff]:
  "Inr y = rbind m f \<longleftrightarrow> (\<exists>x. m = Inr x \<and> f x = Inr y)"
  by (cases m) auto

lemma run_bind_Inr_iff' [outcome_iff]:
  "Some (Inr y) = run_bind m f \<longleftrightarrow> (\<exists>x. m = Some (Inr x) \<and> f x = Some (Inr y))"
  by (cases m) (auto simp: run_bind_def split: sum.splits)

section \<open>Return codes\<close>

abbreviation (input) KEY_TRUE :: int where "KEY_TRUE \<equiv> 0"
abbreviation (input) KEY_FALSE :: int where "KEY_FALSE \<equiv> - 1"
abbreviation (input) KEY_OK :: int where "KEY_OK \<equiv> 200"
abbreviation (input) KEY_ERROR :: int where "KEY_ERROR \<equiv> 400"
abbreviation (input) KEY_UNAUTHORIZED :: int where "KEY_UNAUTHORIZED \<equiv> 401"
abbreviation (input) KEY_USERREPEATLOGIN :: int where "KEY_USERREPEATLOGIN \<equiv> 402"
abbreviation (input) KEY_FORBIDDEN :: int where "KEY_FORBIDDEN \<equiv> 403"
abbreviation (input) KEY_NOTFOUND :: int where "KEY_NOTFOUND \<equiv> 404"
abbreviation (input) KEY_METHODNOTALLOWED :: int where "KEY_METHODNOTALLOWED \<equiv> 405"
abbreviation (input) KEY_TIMEOUT :: int where "KEY_TIMEOUT \<equiv> 406"
abbreviation (input) KEY_USERREPEAT :: int where "KEY_USERREPEAT \<equiv> 407"

section \<open>Lists\<close>

lemma find_append:
  "find P (xs @ ys) = (case find P xs of None \<Rightarrow> find P ys | Some x \<Rightarrow> Some x)"
  by (induction xs) auto

lemma find_eq_NoneI: "(\<And>x. x \<in> set xs \<Longrightarrow> \<not> P x) \<Longrightarrow> find P xs = None"
  by (auto simp: find_None_iff)

lemma find_SomeD: "find P xs = Some x \<Longrightarrow> x \<in> set xs \<and> P x"
  by (auto simp: find_Some_iff)

lemma remove1_snoc_notin: "x \<notin> set xs \<Longrightarrow> remove1 x (xs @ [x]) = xs"
  by (induction xs) auto


section \<open>Bytes and buffers\<close>

type_synonym byte = "8 word"

text \<open>Conversion to a 32-bit \<^verbatim>\<open>int\<close> (two's complement wrap-around).\<close>

definition to_i32 :: "int \<Rightarrow> int" where
  "to_i32 x = (x + 2 ^ 31) mod 2 ^ 32 - 2 ^ 31"

lemma to_i32_id: "- (2 ^ 31) \<le> x \<Longrightarrow> x < 2 ^ 31 \<Longrightarrow> to_i32 x = x"
  by (simp add: to_i32_def)

text \<open>A little-endian 32-bit \<^verbatim>\<open>int\<close> in memory (the build target is x86).\<close>

definition rd_i32 :: "byte list \<Rightarrow> nat \<Rightarrow> int" where
  "rd_i32 bs k = to_i32 (uint (bs ! k) + 2 ^ 8 * uint (bs ! (k + 1)) +
                         2 ^ 16 * uint (bs ! (k + 2)) + 2 ^ 24 * uint (bs ! (k + 3)))"

definition wr_i32 :: "int \<Rightarrow> byte list" where
  "wr_i32 v = [word_of_int v, word_of_int (v div 2 ^ 8), word_of_int (v div 2 ^ 16),
               word_of_int (v div 2 ^ 24)]"

lemma length_wr_i32 [simp]: "length (wr_i32 v) = 4"
  by (simp add: wr_i32_def)

lemma bytes_of_int:
  fixes v :: int
  shows "v mod 256 + 256 * (v div 256 mod 256) + 65536 * (v div 65536 mod 256) +
         16777216 * (v div 16777216 mod 256) = v mod 4294967296"
proof -
  have 1: "v div 65536 = v div 256 div 256" "v div 16777216 = v div 256 div 256 div 256"
    using zdiv_zmult2_eq [of 256 v 256] zdiv_zmult2_eq [of 256 "v div 256" 256]
      zdiv_zmult2_eq [of 65536 v 256] by simp_all
  have "v mod 4294967296 = v mod (256 * 16777216)" by simp
  also have "\<dots> = 256 * (v div 256 mod 16777216) + v mod 256"
    by (rule zmod_zmult2_eq) simp
  also have "v div 256 mod 16777216 = v div 256 mod (256 * 65536)" by simp
  also have "\<dots> = 256 * (v div 256 div 256 mod 65536) + v div 256 mod 256"
    by (rule zmod_zmult2_eq) simp
  also have "v div 256 div 256 mod 65536 = v div 256 div 256 mod (256 * 256)" by simp
  also have "\<dots> = 256 * (v div 256 div 256 div 256 mod 256) + v div 256 div 256 mod 256"
    by (rule zmod_zmult2_eq) simp
  finally show ?thesis unfolding 1 by (simp add: algebra_simps)
qed

lemma to_i32_mod: "to_i32 (v mod 4294967296) = to_i32 v"
  by (simp add: to_i32_def mod_add_left_eq)

lemma rd_wr_i32:
  assumes "length as = k"
  shows "rd_i32 (as @ wr_i32 v @ bs) k = to_i32 v"
proof -
  let ?l = "as @ wr_i32 v @ bs"
  have n: "?l ! k = word_of_int v" "?l ! (k + 1) = word_of_int (v div 2 ^ 8)"
    "?l ! (k + 2) = word_of_int (v div 2 ^ 16)" "?l ! (k + 3) = word_of_int (v div 2 ^ 24)"
    using assms by (simp_all add: wr_i32_def nth_append)
  have u: "uint (word_of_int x :: byte) = x mod 256" for x
    by (simp add: uint_word_of_int)
  have p: "(2::int) ^ 8 = 256" "(2::int) ^ 16 = 65536" "(2::int) ^ 24 = 16777216" by simp_all
  show ?thesis
    unfolding rd_i32_def n u p by (simp only: bytes_of_int to_i32_mod)
qed

text \<open>\<^verbatim>\<open>memcpy\<close> out of and into a heap block; a block access outside the block is a fault.\<close>

definition mem_read :: "byte list \<Rightarrow> int \<Rightarrow> int \<Rightarrow> fault + byte list" where
  "mem_read buf off n = (if n < 0 \<or> off < 0 \<or> off + n > int (length buf) then Inl OutOfBounds
                         else Inr (take (nat n) (drop (nat off) buf)))"

definition mem_write :: "byte list \<Rightarrow> int \<Rightarrow> byte list \<Rightarrow> fault + byte list" where
  "mem_write buf off d = (if off < 0 \<or> off + int (length d) > int (length buf) then Inl OutOfBounds
     else Inr (take (nat off) buf @ d @ drop (nat off + length d) buf))"

section \<open>C strings\<close>

text \<open>
  \<^verbatim>\<open>atoi\<close>: leading white space, an optional sign, decimal digits up to the first other
  character. The result is not defined by C when it does not fit an \<^verbatim>\<open>int\<close>.
\<close>

definition c_isspace :: "char \<Rightarrow> bool" where
  "c_isspace c \<longleftrightarrow> c = CHR '' '' \<or> (9 \<le> (of_char c :: nat) \<and> (of_char c :: nat) \<le> 13)"

definition c_isdigit :: "char \<Rightarrow> bool" where
  "c_isdigit c \<longleftrightarrow> 48 \<le> (of_char c :: nat) \<and> (of_char c :: nat) \<le> 57"

definition digits_val :: "string \<Rightarrow> int" where
  "digits_val ds = fold (\<lambda>c n. 10 * n + (of_char c - 48)) ds 0"

definition atoi :: "string \<Rightarrow> int" where
  "atoi s = (case dropWhile c_isspace s of [] \<Rightarrow> 0
     | c # cs \<Rightarrow> if c = CHR ''-'' then - digits_val (takeWhile c_isdigit cs)
                 else if c = CHR ''+'' then digits_val (takeWhile c_isdigit cs)
                 else digits_val (takeWhile c_isdigit (c # cs)))"

section \<open>Fresh addresses\<close>

lemma fresh_address:
  assumes "finite (dom h)"
  shows "h (Suc (Max (insert 0 (dom h)))) = None"
proof (rule ccontr)
  assume "h (Suc (Max (insert 0 (dom h)))) \<noteq> None"
  then have "Suc (Max (insert 0 (dom h))) \<le> Max (insert 0 (dom h))"
    using assms by (intro Max_ge) auto
  then show False by simp
qed

end
