(* ===== verification/RingBuffer.thy ===== *)
theory RingBuffer
  imports Prelude
begin

text \<open>
  Generic facts about a ring buffer of \<open>sz\<close> bytes addressed by offsets: the bytes between a
  read offset and the write offset, how they change when the read offset advances, and when a
  block is written at the write offset. A read offset may be \<open>sz\<close> itself (the end of the block,
  the same place as offset 0); the write offset is always below \<open>sz\<close>.
\<close>

definition avail :: "int \<Rightarrow> int \<Rightarrow> int \<Rightarrow> nat" where
  "avail sz r w = nat (if r \<le> w then w - r else sz + w - r)"

definition ringrd :: "int \<Rightarrow> byte list \<Rightarrow> int \<Rightarrow> nat \<Rightarrow> byte list" where
  "ringrd sz buf r n = map (\<lambda>k. buf ! nat ((r + int k) mod sz)) [0..<n]"

text \<open>\<open>written sz buf w d buf'\<close>: \<open>buf'\<close> is \<open>buf\<close> with \<open>d\<close> laid down from \<open>w\<close>, around the end.\<close>

definition written :: "int \<Rightarrow> byte list \<Rightarrow> int \<Rightarrow> byte list \<Rightarrow> byte list \<Rightarrow> bool" where
  "written sz buf w d buf' \<longleftrightarrow> length buf' = length buf \<and>
     (\<forall>j < length d. buf' ! nat ((w + int j) mod sz) = d ! j) \<and>
     (\<forall>j. length d \<le> j \<and> int j < sz \<longrightarrow>
          buf' ! nat ((w + int j) mod sz) = buf ! nat ((w + int j) mod sz))"

lemma length_ringrd [simp]: "length (ringrd sz buf r n) = n"
  by (simp add: ringrd_def)

lemma mod_wrap:
  fixes x sz :: int
  assumes "0 \<le> x" "x < 2 * sz"
  shows "x mod sz = (if x < sz then x else x - sz)"
proof (cases "x < sz")
  case False
  then have "x mod sz = (x - sz) mod sz" by (simp add: mod_diff_right_eq [symmetric])
  also have "\<dots> = x - sz" using False assms by (intro mod_pos_pos_trivial) auto
  finally show ?thesis using False by simp
qed (use assms in simp)

lemma avail_less: "0 < sz \<Longrightarrow> 0 \<le> r \<Longrightarrow> r \<le> sz \<Longrightarrow> 0 \<le> w \<Longrightarrow> w < sz \<Longrightarrow> int (avail sz r w) < sz"
  by (simp add: avail_def)

lemma avail_cong:
  assumes "0 \<le> r" "r \<le> sz" "0 \<le> w" "w < sz"
  shows "(r + x) mod sz = (w - int (avail sz r w) + x) mod sz"
proof (cases "r \<le> w")
  case True
  then show ?thesis by (simp add: avail_def)
next
  case False
  then have "w - int (avail sz r w) + x = r + x - sz" using assms by (simp add: avail_def)
  then show ?thesis by (simp only: minus_mod_self2)
qed

lemma nth_append_drop:
  "length xs = n \<Longrightarrow> n \<le> i \<Longrightarrow> n \<le> length ys \<Longrightarrow> (xs @ drop n ys) ! i = ys ! i"
  by (simp add: nth_append)

lemma ringrd_contig:
  assumes "length buf = nat sz" "0 \<le> r" "r + int n \<le> sz"
  shows "take n (drop (nat r) buf) = ringrd sz buf r n"
proof (rule nth_equalityI)
  show "length (take n (drop (nat r) buf)) = length (ringrd sz buf r n)"
    using assms by simp
  fix k assume "k < length (take n (drop (nat r) buf))"
  then have k: "k < n" "int k + r < sz" using assms by auto
  then have "(r + int k) mod sz = r + int k" using assms by (intro mod_pos_pos_trivial) auto
  then show "take n (drop (nat r) buf) ! k = ringrd sz buf r n ! k"
    using k assms by (simp add: ringrd_def nat_add_distrib)
qed

lemma ringrd_append: "ringrd sz buf r (m + n) = ringrd sz buf r m @ ringrd sz buf (r + int m) n"
  by (rule nth_equalityI) (auto simp: ringrd_def nth_append algebra_simps)

lemma ringrd_cong: "r mod sz = r' mod sz \<Longrightarrow> ringrd sz buf r n = ringrd sz buf r' n"
  unfolding ringrd_def by (metis mod_add_cong)

lemma take_ringrd: "m \<le> n \<Longrightarrow> take m (ringrd sz buf r n) = ringrd sz buf r m"
  by (auto simp: ringrd_def take_map)

lemma drop_ringrd: "m \<le> n \<Longrightarrow> drop m (ringrd sz buf r n) = ringrd sz buf (r + int m) (n - m)"
  using ringrd_append [of sz buf r m "n - m"] by simp

lemma ringrd_split:
  assumes "length buf = nat sz" "0 \<le> r" "r \<le> sz" "sz - r \<le> int n" "int n - (sz - r) \<le> sz"
  shows "take (nat (sz - r)) (drop (nat r) buf) @ take (nat (int n - (sz - r))) (drop 0 buf) = ringrd sz buf r n"
proof -
  have "ringrd sz buf r n = ringrd sz buf r (nat (sz - r) + nat (int n - (sz - r)))"
    using assms by (simp flip: nat_add_distrib)
  also have "\<dots> = ringrd sz buf r (nat (sz - r)) @ ringrd sz buf (r + int (nat (sz - r))) (nat (int n - (sz - r)))"
    by (rule ringrd_append)
  also have "ringrd sz buf (r + int (nat (sz - r))) (nat (int n - (sz - r))) = ringrd sz buf 0 (nat (int n - (sz - r)))"
    using assms by (intro ringrd_cong) simp
  finally show ?thesis
    using ringrd_contig [of buf sz r "nat (sz - r)"] ringrd_contig [of buf sz 0 "nat (int n - (sz - r))"] assms
    by simp
qed

section \<open>Laying a block down\<close>

lemma written_contig:
  assumes "length buf = nat sz" "0 \<le> w" "w < sz" "w + int (length d) \<le> sz"
  shows "\<exists>buf'. mem_write buf w d = Inr buf' \<and> written sz buf w d buf'"
proof -
  let ?b = "take (nat w) buf @ d @ drop (nat w + length d) buf"
  have m: "(w + int j) mod sz = (if w + int j < sz then w + int j else w + int j - sz)" if "int j < sz" for j
    using assms that by (intro mod_wrap) auto
  have "?b ! nat ((w + int j) mod sz) = d ! j" if "j < length d" for j
    using assms that m [of j] by (auto simp: nth_append nat_add_distrib)
  moreover have "?b ! nat ((w + int j) mod sz) = buf ! nat ((w + int j) mod sz)"
    if "length d \<le> j" "int j < sz" for j
  proof (cases "w + int j < sz")
    case True
    then show ?thesis using assms that m [of j] by (auto simp: nth_append nat_add_distrib)
  next
    case False
    then have "nat ((w + int j) mod sz) < nat w" using m [of j] that assms by auto
    then show ?thesis using assms by (auto simp: nth_append)
  qed
  ultimately have "written sz buf w d ?b" using assms by (simp add: written_def)
  moreover have "mem_write buf w d = Inr ?b" using assms by (simp add: mem_write_def)
  ultimately show ?thesis by blast
qed

lemma written_wrap:
  assumes "length buf = nat sz" "0 \<le> w" "w < sz" "sz < w + int (length d)" "int (length d) < sz"
  shows "\<exists>b1 b2. mem_write buf w (take (nat (sz - w)) d) = Inr b1 \<and>
                 mem_write b1 0 (drop (nat (sz - w)) d) = Inr b2 \<and> written sz buf w d b2"
proof -
  let ?k = "nat (sz - w)"
  let ?b1 = "take (nat w) buf @ take ?k d"
  have l1: "length ?b1 = nat sz" using assms by auto
  have 1: "mem_write buf w (take ?k d) = Inr ?b1" using assms by (auto simp: mem_write_def min_def)
  let ?b2 = "drop ?k d @ drop (length d - ?k) ?b1"
  have 2: "mem_write ?b1 0 (drop ?k d) = Inr ?b2" using assms l1 by (auto simp: mem_write_def)
  have m: "(w + int j) mod sz = (if w + int j < sz then w + int j else w + int j - sz)" if "int j < sz" for j
    using assms that by (intro mod_wrap) auto
  have l2: "length ?b2 = nat sz" using l1 assms by auto
  have "?b2 ! nat ((w + int j) mod sz) = d ! j" if j: "j < length d" for j
  proof (cases "w + int j < sz")
    case True
    then have p: "nat ((w + int j) mod sz) = nat w + j" using m [of j] assms j by (simp add: nat_add_distrib)
    have "length d - ?k \<le> nat w" using assms by auto
    then have "?b2 ! (nat w + j) = ?b1 ! (nat w + j)"
      using assms l1 by (intro nth_append_drop) auto
    also have "\<dots> = d ! j" using True assms by (simp add: nth_append)
    finally show ?thesis unfolding p .
  next
    case False
    then have p: "nat ((w + int j) mod sz) = j - ?k" "?k \<le> j" using m [of j] assms j by auto
    then show ?thesis unfolding p(1) using assms j by (auto simp: nth_append)
  qed
  moreover have "?b2 ! nat ((w + int j) mod sz) = buf ! nat ((w + int j) mod sz)"
    if "length d \<le> j" "int j < sz" for j
  proof -
    have p: "nat ((w + int j) mod sz) = j - ?k" "?k \<le> j" "j - ?k < nat w" using m [of j] assms that by auto
    have "?b2 ! (j - ?k) = ?b1 ! (j - ?k)"
    proof (rule nth_append_drop)
      show "length d - ?k \<le> j - ?k" using that(1) by (rule diff_le_mono)
      show "length d - ?k \<le> length ?b1" unfolding l1 using assms(5) by linarith
    qed simp
    also have "\<dots> = buf ! (j - ?k)" using p assms by (simp add: nth_append)
    finally show ?thesis unfolding p(1) .
  qed
  ultimately have "written sz buf w d ?b2" using l2 assms by (simp add: written_def)
  with 1 2 show ?thesis by blast
qed

lemma avail_write:
  assumes "0 < sz" "0 \<le> r" "r \<le> sz" "0 \<le> w" "w < sz" "int (avail sz r w) + int n < sz"
  shows "avail sz r ((w + int n) mod sz) = avail sz r w + n"
proof -
  have n: "int n < sz" using assms by simp
  have "(w + int n) mod sz = (if w + int n < sz then w + int n else w + int n - sz)"
    using assms n by (intro mod_wrap) auto
  then show ?thesis using assms by (auto simp: avail_def split: if_splits)
qed

lemma ringrd_written:
  assumes "0 < sz" "length buf = nat sz" "0 \<le> r" "r \<le> sz" "0 \<le> w" "w < sz"
    and "int (avail sz r w) + int (length d) < sz" and wr: "written sz buf w d buf'"
  shows "ringrd sz buf' r (avail sz r w + length d) = ringrd sz buf r (avail sz r w) @ d"
proof (rule nth_equalityI)
  show "length (ringrd sz buf' r (avail sz r w + length d)) = length (ringrd sz buf r (avail sz r w) @ d)"
    by simp
  fix k assume "k < length (ringrd sz buf' r (avail sz r w + length d))"
  then have k: "k < avail sz r w + length d" by simp
  let ?a = "avail sz r w"
  have e: "(r + int k) mod sz = (w - int ?a + int k) mod sz"
    using assms by (intro avail_cong) auto
  show "ringrd sz buf' r (?a + length d) ! k = (ringrd sz buf r ?a @ d) ! k"
  proof (cases "k < ?a")
    case True
    have "(w - int ?a + int k) mod sz = (w + int (nat (sz - int ?a + int k))) mod sz"
    proof -
      have "w + int (nat (sz - int ?a + int k)) = w - int ?a + int k + sz" using assms by auto
      then show ?thesis by (simp only: mod_add_self2)
    qed
    moreover have "length d \<le> nat (sz - int ?a + int k)" "int (nat (sz - int ?a + int k)) < sz"
      using assms True by auto
    ultimately have "buf' ! nat ((r + int k) mod sz) = buf ! nat ((r + int k) mod sz)"
      using wr e unfolding written_def by metis
    then show ?thesis using k True by (simp add: ringrd_def nth_append)
  next
    case False
    then have "(w - int ?a + int k) mod sz = (w + int (k - ?a)) mod sz" by (simp add: algebra_simps)
    then have "buf' ! nat ((r + int k) mod sz) = d ! (k - ?a)"
      using wr e k False unfolding written_def by (metis add_less_imp_less_left le_add_diff_inverse not_less)
    then show ?thesis using k False by (simp add: ringrd_def nth_append)
  qed
qed

end
