(* ===== verification/MediaQueue.thy ===== *)
theory MediaQueue
  imports RingBuffer "HOL-Library.Sublist"
begin

text \<open>
  \<^verbatim>\<open>src/Modules/MediaQueue/mediaqueue.c\<close>: the ring buffers that carry video and audio frames
  from the camera callbacks (writer) to the RTMP senders (up to four readers per queue).

  Pointers into a queue's block are offsets from \<^verbatim>\<open>dataBuff\<close> (\<open>None\<close> is NULL). The block is
  a list of bytes and the frame headers are read from and written to it byte by byte, with the
  layout of \<^verbatim>\<open>MeidaVideo_T\<close> and \<^verbatim>\<open>MeidaAudio_T\<close> (\<^verbatim>\<open>src/Include/mediaqueueout.h\<close>, 32 bytes each).
  A copy outside a block, a negative copy length, the failed \<^verbatim>\<open>assert(0)\<close> and the use of the
  uninitialised \<^verbatim>\<open>len\<close> are faults; the two \<^verbatim>\<open>while\<close>/\<^verbatim>\<open>for(;;)\<close> loops are
  \<^theory_text>\<open>partial_function (option)\<close>, with \<open>None\<close> for a loop that never ends. Diagnostic output
  (\<^verbatim>\<open>printfBuff\<close>, \<^verbatim>\<open>DF_ERROR\<close>) has no counterpart. Every operation holds the queue's mutex
  from its first to its last access, so it is one atomic step.

  The lemmas show that a queue implements, for each reader, a first-in first-out list of
  whole frames, from which a write that would overrun the reader drops frames up to a later
  key frame.
\<close>

section \<open>State\<close>

abbreviation QUEUE_USE_MAX :: nat where "QUEUE_USE_MAX \<equiv> 4"
abbreviation QUEUE_CHN_MAX :: nat where "QUEUE_CHN_MAX \<equiv> 201"

record QueueHandle_T =
  queueID :: int
  enabled :: bool
  pWrite :: "int option"
  pRead :: "int option list"
  dataBuff :: "byte list option"
  dataBuffSize :: int

section \<open>Reading from the ring\<close>

text \<open>The result is the copied bytes, or \<open>None\<close> for KEY_FALSE.\<close>

definition CopyDataOnQueue ::
    "byte list \<Rightarrow> int \<Rightarrow> int \<Rightarrow> int \<Rightarrow> int \<Rightarrow> int \<Rightarrow> fault + byte list option" where
  "CopyDataOnQueue buf sz pW pR readLen bufflen =
     (if readLen > bufflen then Inr None
      else let rw = pW - pR; rwlen = (if rw < 0 then sz + rw else rw) in
        if rwlen < readLen then Inr None
        else let cplen = sz - pR in
          if cplen \<ge> readLen then rbind (mem_read buf pR readLen) (\<lambda>d. Inr (Some d))
          else rbind (mem_read buf pR cplen) (\<lambda>d1.
               rbind (mem_read buf 0 (readLen - cplen)) (\<lambda>d2. Inr (Some (d1 @ d2)))))"

text \<open>Fields of the frame header: \<^verbatim>\<open>sysncHead0/1\<close>, \<^verbatim>\<open>mediaType\<close>, \<^verbatim>\<open>info.frametype\<close>, \<^verbatim>\<open>datalen\<close>.\<close>

definition head_ok :: "byte list \<Rightarrow> bool" where
  "head_ok hdr \<longleftrightarrow> hdr ! 0 = 0x77 \<and> hdr ! 1 = 0x17"

definition is_video :: "byte list \<Rightarrow> bool" where
  "is_video hdr \<longleftrightarrow> hdr ! 3 = 0x01 \<or> hdr ! 3 = 0x02"

definition is_audio :: "byte list \<Rightarrow> bool" where
  "is_audio hdr \<longleftrightarrow> hdr ! 3 = 0x21"

definition not_P_frame :: "byte list \<Rightarrow> bool" where
  "not_P_frame v \<longleftrightarrow> v ! 6 \<noteq> 0x61"

definition hdr_len :: "byte list \<Rightarrow> int" where
  "hdr_len v = to_i32 (rd_i32 v 28 + 32)"

text \<open>
  The first half of the loop body of \<open>FindNextIframe\<close>: the length of the frame at \<^verbatim>\<open>pCur\<close>, or
  \<open>None\<close> where the function returns NULL. For a media type that is neither video nor G711A
  the source goes on with \<^verbatim>\<open>len\<close> unset.
\<close>

definition cur_frame_len :: "byte list \<Rightarrow> int \<Rightarrow> int \<Rightarrow> int \<Rightarrow> fault + int option" where
  "cur_frame_len buf sz curW pCur =
     rbind (CopyDataOnQueue buf sz curW pCur 4 512) (\<lambda>r. case r of None \<Rightarrow> Inr None
     | Some hdr \<Rightarrow>
        if \<not> head_ok hdr then Inr None
        else if is_video hdr \<or> is_audio hdr then
          rbind (CopyDataOnQueue buf sz curW pCur 32 512) (\<lambda>r. case r of None \<Rightarrow> Inr None
          | Some v \<Rightarrow> Inr (Some (hdr_len v)))
        else Inl Uninitialised)"

text \<open>The second half: whether the frame now at \<^verbatim>\<open>pCur\<close> ends the search.\<close>

definition cur_frame_key :: "byte list \<Rightarrow> int \<Rightarrow> int \<Rightarrow> int \<Rightarrow> fault + bool option" where
  "cur_frame_key buf sz curW pCur =
     rbind (CopyDataOnQueue buf sz curW pCur 4 512) (\<lambda>r. case r of None \<Rightarrow> Inr None
     | Some hdr \<Rightarrow>
        if \<not> head_ok hdr then Inr None
        else if is_video hdr then
          rbind (CopyDataOnQueue buf sz curW pCur 32 512) (\<lambda>r. case r of None \<Rightarrow> Inr None
          | Some v \<Rightarrow> Inr (Some (not_P_frame v)))
        else Inr (Some False))"

text \<open>\<^verbatim>\<open>if(pCur + len > buffEnd) pCur = buff + (len - (buffEnd - pCur)); else pCur += len;\<close>\<close>

definition move_ptr :: "int \<Rightarrow> int \<Rightarrow> int \<Rightarrow> int" where
  "move_ptr sz p len = (if p + len > sz then len - (sz - p) else p + len)"

partial_function (option) find_loop :: "byte list \<Rightarrow> int \<Rightarrow> int \<Rightarrow> int \<Rightarrow> int option run" where
  "find_loop buf sz curW pCur =
     (case cur_frame_len buf sz curW pCur of
        Inl e \<Rightarrow> Some (Inl e)
      | Inr None \<Rightarrow> Some (Inr None)
      | Inr (Some len) \<Rightarrow>
          (case cur_frame_key buf sz curW (move_ptr sz pCur len) of
             Inl e \<Rightarrow> Some (Inl e)
           | Inr None \<Rightarrow> Some (Inr None)
           | Inr (Some key) \<Rightarrow>
               if key then Some (Inr (Some (move_ptr sz pCur len)))
               else find_loop buf sz curW (move_ptr sz pCur len)))"

definition FindNextIframe ::
    "int \<Rightarrow> int option \<Rightarrow> byte list option \<Rightarrow> int \<Rightarrow> int option run" where
  "FindNextIframe curW pCur buff buffSize =
     (case (pCur, buff) of
        (Some p, Some b) \<Rightarrow> find_loop b buffSize curW p
      | _ \<Rightarrow> Some (Inr None))"

partial_function (option) move_loop ::
    "(int \<Rightarrow> bool) \<Rightarrow> byte list \<Rightarrow> int \<Rightarrow> int \<Rightarrow> int \<Rightarrow> int option run" where
  "move_loop again buf sz curW curR =
     (case FindNextIframe curW (Some curR) (Some buf) sz of
        None \<Rightarrow> None
      | Some (Inl e) \<Rightarrow> Some (Inl e)
      | Some (Inr None) \<Rightarrow> Some (Inr None)
      | Some (Inr (Some pR)) \<Rightarrow>
          if again pR then move_loop again buf sz curW pR else Some (Inr (Some pR)))"

definition MoveReadPoint :: "int \<Rightarrow> int \<Rightarrow> int \<Rightarrow> byte list \<Rightarrow> int \<Rightarrow> int run" where
  "MoveReadPoint curR curW writeLen buf buffSize =
     run_bind
       (if curW + writeLen \<le> buffSize then
          move_loop (\<lambda>pR. pR > curW \<and> pR \<le> curW + writeLen) buf buffSize curW curR
        else let dis = curW + writeLen - buffSize in
          move_loop (\<lambda>pR. (pR > curW \<and> pR \<le> buffSize) \<or> pR \<le> dis) buf buffSize curW curR)
       (\<lambda>r. case r of None \<Rightarrow> Some (Inl AssertFailed) | Some pR \<Rightarrow> Some (Inr pR))"

section \<open>Writing to the ring\<close>

text \<open>The loop over \<^verbatim>\<open>pRead[i]\<close>: a read pointer that \<open>hit\<close> selects is moved.\<close>

fun move_readers :: "(int \<Rightarrow> bool) \<Rightarrow> (int \<Rightarrow> int run) \<Rightarrow> int option list \<Rightarrow> int option list run" where
  "move_readers hit mv [] = Some (Inr [])"
| "move_readers hit mv (r # rs) =
     run_bind (case r of None \<Rightarrow> Some (Inr None)
               | Some p \<Rightarrow> if hit p then run_bind (mv p) (\<lambda>p'. Some (Inr (Some p')))
                          else Some (Inr (Some p)))
       (\<lambda>r'. run_bind (move_readers hit mv rs) (\<lambda>rs'. Some (Inr (r' # rs'))))"

text \<open>The body of \<open>WriteData\<close> on the selected queue.\<close>

definition write_queue :: "QueueHandle_T \<Rightarrow> byte list \<Rightarrow> (QueueHandle_T \<times> int) run" where
  "write_queue q d =
     (if \<not> enabled q then Some (Inr (q, KEY_FALSE))
      else case pWrite q of None \<Rightarrow> Some (Inr (q, KEY_FALSE))
      | Some w \<Rightarrow> (case dataBuff q of None \<Rightarrow> Some (Inl NullDeref)
      | Some buf \<Rightarrow>
          let sz = dataBuffSize q; len = int (length d); writeLen = sz - w;
              mv = (\<lambda>p. MoveReadPoint p w len buf sz) in
          run_bind
            (if writeLen \<ge> len then
               run_bind (move_readers (\<lambda>p. p > w \<and> p < w + len) mv (pRead q)) (\<lambda>rs.
               run_bind (Some (mem_write buf w d)) (\<lambda>buf'. Some (Inr (rs, buf'))))
             else
               run_bind (move_readers (\<lambda>p. p > w \<and> p \<le> sz) mv (pRead q)) (\<lambda>rs.
               run_bind (move_readers (\<lambda>p. p \<ge> 0 \<and> p \<le> len - writeLen) mv rs) (\<lambda>rs.
               run_bind (Some (mem_write buf w (take (nat writeLen) d))) (\<lambda>buf.
               run_bind (Some (mem_write buf 0 (drop (nat writeLen) d))) (\<lambda>buf.
               Some (Inr (rs, buf)))))))
            (\<lambda>(rs, buf').
               if sz = 0 then Some (Inl DivByZero)
               else Some (Inr (q\<lparr>pRead := rs, dataBuff := Some buf',
                                 pWrite := Some ((w + len) mod sz)\<rparr>, KEY_TRUE)))))"

definition queue_at :: "QueueHandle_T list \<Rightarrow> int \<Rightarrow> fault + QueueHandle_T" where
  "queue_at qs i = (if 0 \<le> i \<and> i < int (length qs) then Inr (qs ! nat i) else Inl OutOfBounds)"

definition WriteData ::
    "QueueHandle_T list \<Rightarrow> int \<Rightarrow> byte list \<Rightarrow> (QueueHandle_T list \<times> int) run" where
  "WriteData qs qid d =
     run_bind (Some (queue_at qs qid)) (\<lambda>q.
     run_bind (write_queue q d) (\<lambda>(q', r). Some (Inr (qs[nat qid := q'], r))))"

section \<open>ReadData\<close>

text \<open>
  The length \<open>ReadData\<close> will copy; \<open>None\<close> where it returns KEY_FALSE. Here \<^verbatim>\<open>len\<close> starts at 0.
\<close>

definition read_frame_len :: "byte list \<Rightarrow> int \<Rightarrow> int \<Rightarrow> int \<Rightarrow> fault + int option" where
  "read_frame_len buf sz w p =
     rbind (CopyDataOnQueue buf sz w p 4 512) (\<lambda>r. case r of None \<Rightarrow> Inr None
     | Some hdr \<Rightarrow>
        if \<not> head_ok hdr then Inr None
        else if is_video hdr \<or> is_audio hdr then
          rbind (CopyDataOnQueue buf sz w p 32 512) (\<lambda>r. case r of None \<Rightarrow> Inr None
          | Some v \<Rightarrow> Inr (Some (hdr_len v)))
        else Inr (Some 0))"

text \<open>
  On success the result carries the bytes copied to \<^verbatim>\<open>buff\<close> (their number is \<^verbatim>\<open>*datalen\<close>); for
  KEY_FALSE it is \<open>None\<close> and the queue is unchanged.
\<close>

definition read_queue ::
    "QueueHandle_T \<Rightarrow> int \<Rightarrow> int \<Rightarrow> fault + (QueueHandle_T \<times> byte list option)" where
  "read_queue q rid bufflen =
     (if \<not> (0 \<le> rid \<and> rid < int (length (pRead q))) then Inl OutOfBounds
      else if \<not> enabled q then Inr (q, None)
      else case pRead q ! nat rid of None \<Rightarrow> Inr (q, None)
      | Some p \<Rightarrow> (case (dataBuff q, pWrite q) of
          (Some buf, Some w) \<Rightarrow>
            let sz = dataBuffSize q in
            rbind (read_frame_len buf sz w p) (\<lambda>r. case r of None \<Rightarrow> Inr (q, None)
            | Some len \<Rightarrow>
                rbind (CopyDataOnQueue buf sz w p len bufflen) (\<lambda>r. case r of
                  None \<Rightarrow> Inr (q, None)
                | Some d \<Rightarrow>
                    Inr (q\<lparr>pRead := (pRead q)[nat rid := Some (move_ptr sz p len)]\<rparr>, Some d)))
        | _ \<Rightarrow> Inl NullDeref))"

definition ReadData ::
    "QueueHandle_T list \<Rightarrow> int \<Rightarrow> int \<Rightarrow> int \<Rightarrow> fault + (QueueHandle_T list \<times> byte list option)"
  where
  "ReadData qs rid qid bufflen =
     rbind (queue_at qs qid) (\<lambda>q.
     rbind (read_queue q rid bufflen) (\<lambda>(q', r). Inr (qs[nat qid := q'], r)))"

section \<open>Creating and destroying queues\<close>

definition GetQueueID :: "QueueHandle_T list \<Rightarrow> int" where
  "GetQueueID qs =
     (case find (\<lambda>i. \<not> enabled (qs ! i)) [1..<QUEUE_CHN_MAX] of None \<Rightarrow> - 1 | Some i \<Rightarrow> int i)"

text \<open>\<open>malloc_ok\<close>: whether \<^verbatim>\<open>malloc(queueSize)\<close> returned memory.\<close>

definition CreateQueue ::
    "QueueHandle_T list \<Rightarrow> int \<Rightarrow> bool \<Rightarrow> fault + (QueueHandle_T list \<times> int)" where
  "CreateQueue qs queueSize malloc_ok =
     (let i = GetQueueID qs in
      if i = - 1 then Inr (qs, - 1)
      else rbind (queue_at qs i) (\<lambda>q.
        if enabled q then Inr (qs, - 1)
        else if \<not> malloc_ok \<or> queueSize < 0 then Inr (qs[nat i := q\<lparr>dataBuff := None\<rparr>], - 1)
        else Inr (qs[nat i := q\<lparr>dataBuff := Some (replicate (nat queueSize) 0), enabled := True,
                  dataBuffSize := queueSize, pWrite := Some 0,
                  pRead := replicate QUEUE_USE_MAX None\<rparr>], i)))"

definition DisdroyQueue :: "QueueHandle_T list \<Rightarrow> int \<Rightarrow> fault + (QueueHandle_T list \<times> int)" where
  "DisdroyQueue qs qid =
     rbind (queue_at qs qid) (\<lambda>q.
       if \<not> enabled q then Inr (qs, KEY_FALSE)
       else Inr (qs[nat qid := q\<lparr>enabled := False, pWrite := None,
                 pRead := replicate QUEUE_USE_MAX None, dataBuff := None, dataBuffSize := 0\<rparr>],
                KEY_TRUE))"

section \<open>Frames\<close>

record QueueVideoInputInfo_T =
  v_fps :: byte
  v_rcmode :: byte
  v_frametype :: byte
  v_staty0 :: byte
  v_width :: int
  v_height :: int
  v_bitrate :: int
  v_highPts :: int
  v_lowPts :: int

record QueueAudioInputInfo_T =
  a_samplerate :: int
  a_prenum :: int
  a_bitwidth :: int
  a_soundmode :: int
  a_highPts :: int
  a_lowPts :: int

definition media_head :: "int \<Rightarrow> byte list" where
  "media_head mediaType = [0x77, 0x17, 0, word_of_int mediaType]"

definition video_frame :: "QueueVideoInputInfo_T \<Rightarrow> int \<Rightarrow> byte list \<Rightarrow> byte list" where
  "video_frame param mediaType d =
     (media_head mediaType @ [v_fps param, v_rcmode param, v_frametype param, v_staty0 param] @
      wr_i32 (v_width param) @ wr_i32 (v_height param) @ wr_i32 (v_bitrate param) @
      wr_i32 (v_highPts param) @ wr_i32 (v_lowPts param)) @ wr_i32 (int (length d)) @ d"

definition audio_frame :: "QueueAudioInputInfo_T \<Rightarrow> int \<Rightarrow> byte list \<Rightarrow> byte list" where
  "audio_frame param mediaType d =
     (media_head mediaType @ wr_i32 (a_samplerate param) @ wr_i32 (a_prenum param) @
      wr_i32 (a_bitwidth param) @ wr_i32 (a_soundmode param) @
      wr_i32 (a_highPts param) @ wr_i32 (a_lowPts param)) @ wr_i32 (int (length d)) @ d"

text \<open>
  The frame is assembled in a per-queue staging block of 400*1024 (video) or 320 (audio) bytes,
  which is cleared first; the result of \<open>WriteData\<close> is ignored.
\<close>

definition WriteVideoRawData ::
    "QueueHandle_T list \<Rightarrow> int \<Rightarrow> byte list \<Rightarrow> QueueVideoInputInfo_T \<Rightarrow> int \<Rightarrow>
     (QueueHandle_T list \<times> int) run" where
  "WriteVideoRawData qs qid d param mediaType =
     (if \<not> (0 \<le> qid \<and> qid < int QUEUE_CHN_MAX) \<or> 32 + length d > 400 * 1024
      then Some (Inl OutOfBounds)
      else run_bind (WriteData qs qid (video_frame param mediaType d))
             (\<lambda>(qs', _). Some (Inr (qs', KEY_TRUE))))"

definition WriteAudioRawData ::
    "QueueHandle_T list \<Rightarrow> int \<Rightarrow> byte list \<Rightarrow> QueueAudioInputInfo_T \<Rightarrow> int \<Rightarrow>
     (QueueHandle_T list \<times> int) run" where
  "WriteAudioRawData qs qid d param mediaType =
     (if \<not> (0 \<le> qid \<and> qid < int QUEUE_CHN_MAX) \<or> 32 + length d > 320
      then Some (Inl OutOfBounds)
      else run_bind (WriteData qs qid (audio_frame param mediaType d))
             (\<lambda>(qs', _). Some (Inr (qs', KEY_TRUE))))"

section \<open>Readers\<close>

definition first_free :: "int option list \<Rightarrow> int" where
  "first_free rs = (case find (\<lambda>i. rs ! i = None) [0..<QUEUE_USE_MAX] of
                      None \<Rightarrow> KEY_FALSE | Some i \<Rightarrow> int i)"

record MediaQueueRegistHandle_T =
  rh_readData :: bool
  rh_registerID :: int
  rh_queueID :: int

text \<open>
  The caller's handle is \<open>None\<close> for NULL and is returned updated; \<open>rh_readData\<close> says whether its
  function pointer is set. When no slot is free \<^verbatim>\<open>registerID\<close> stays KEY_FALSE and \<^verbatim>\<open>pRead[-1]\<close> is
  written.
\<close>

definition MediaQueueRegistReadHandle ::
    "QueueHandle_T list \<Rightarrow> MediaQueueRegistHandle_T option \<Rightarrow>
     fault + (QueueHandle_T list \<times> MediaQueueRegistHandle_T option \<times> int)" where
  "MediaQueueRegistReadHandle qs handle =
     (case handle of None \<Rightarrow> Inr (qs, None, - 1)
      | Some h \<Rightarrow>
        if rh_queueID h < 0 \<or> rh_queueID h > int QUEUE_CHN_MAX then Inr (qs, Some h, - 1)
        else rbind (queue_at qs (rh_queueID h)) (\<lambda>q.
          if \<not> enabled q then Inr (qs, Some h, KEY_FALSE)
          else let rid = first_free (pRead q) in
            if rid < 0 then Inl OutOfBounds
            else Inr (qs[nat (rh_queueID h) := q\<lparr>pRead := (pRead q)[nat rid := pWrite q]\<rparr>],
                      Some (h\<lparr>rh_registerID := rid, rh_readData := True\<rparr>), rid)))"

definition MediaQueueUnRegistReadHandle ::
    "QueueHandle_T list \<Rightarrow> MediaQueueRegistHandle_T option \<Rightarrow>
     fault + (QueueHandle_T list \<times> MediaQueueRegistHandle_T option \<times> int)" where
  "MediaQueueUnRegistReadHandle qs handle =
     (case handle of None \<Rightarrow> Inr (qs, None, - 1)
      | Some h \<Rightarrow>
        if rh_queueID h < 0 \<or> rh_queueID h > int QUEUE_CHN_MAX then Inr (qs, Some h, - 1)
        else rbind (queue_at qs (rh_queueID h)) (\<lambda>q.
          let rid = rh_registerID h in
          if \<not> (0 \<le> rid \<and> rid < int (length (pRead q))) then Inl OutOfBounds
          else Inr (qs[nat (rh_queueID h) := q\<lparr>pRead := (pRead q)[nat rid := None]\<rparr>],
                    Some (h\<lparr>rh_readData := False\<rparr>), KEY_TRUE)))"

section \<open>Module start and stop\<close>

text \<open>
  \<^verbatim>\<open>MediaQueueHandle_T\<close> is the table of the four operations the module exports;
  \<open>installed\<close> says whether its pointers are set (they always are or are not together). The
  caller's table is \<open>None\<close> for NULL.
\<close>

record MediaQueueHandle_T =
  installed :: bool

definition MediaQueueInit ::
    "QueueHandle_T list \<Rightarrow> MediaQueueHandle_T option \<Rightarrow> QueueHandle_T list \<times> MediaQueueHandle_T option \<times> int"
  where
  "MediaQueueInit qs handle =
     (case handle of None \<Rightarrow> (qs, None, KEY_FALSE)
      | Some h \<Rightarrow>
         (map (\<lambda>i. \<lparr>queueID = int i, enabled = False, pWrite = None,
              pRead = replicate QUEUE_USE_MAX None, dataBuff = None, dataBuffSize = 0\<rparr>) [0..<QUEUE_CHN_MAX],
          Some (h\<lparr>installed := True\<rparr>), KEY_TRUE))"

definition MediaQueueUnInit ::
    "QueueHandle_T list \<Rightarrow> MediaQueueHandle_T option \<Rightarrow>
     fault + (QueueHandle_T list \<times> MediaQueueHandle_T option \<times> int)" where
  "MediaQueueUnInit qs handle =
     rbind (fold (\<lambda>i m. rbind m (\<lambda>qs. rbind (DisdroyQueue qs (int i)) (\<lambda>(qs, _). Inr qs)))
              [0..<QUEUE_CHN_MAX] (Inr qs))
       (\<lambda>qs. case handle of None \<Rightarrow> Inl NullDeref
          | Some h \<Rightarrow> Inr (qs, Some (h\<lparr>installed := False\<rparr>), KEY_TRUE))"

section \<open>Frames in the ring\<close>

definition wf_frame :: "byte list \<Rightarrow> bool" where
  "wf_frame f \<longleftrightarrow> 32 \<le> length f \<and> head_ok f \<and> (is_video f \<or> is_audio f) \<and>
                hdr_len f = int (length f)"

definition is_key :: "byte list \<Rightarrow> bool" where
  "is_key f \<longleftrightarrow> is_video f \<and> not_P_frame f"

definition bytes :: "byte list list \<Rightarrow> int" where
  "bytes fs = int (length (concat fs))"

text \<open>A reader at offset \<open>r\<close> has exactly the frames \<open>fs\<close> still to read.\<close>

definition reader_at :: "byte list \<Rightarrow> int \<Rightarrow> int \<Rightarrow> int \<Rightarrow> byte list list \<Rightarrow> bool" where
  "reader_at buf sz w r fs \<longleftrightarrow> 0 \<le> r \<and> r \<le> sz \<and> list_all wf_frame fs \<and>
     ringrd sz buf r (avail sz r w) = concat fs"

definition ring_ok :: "byte list \<Rightarrow> int \<Rightarrow> int \<Rightarrow> bool" where
  "ring_ok buf sz w \<longleftrightarrow> 0 < sz \<and> length buf = nat sz \<and> 0 \<le> w \<and> w < sz"

text \<open>
  The specification of a write for one reader. If the frame does not fit behind the unread
  frames, the reader is moved to the first later key frame from which it does fit.
\<close>

fun evict :: "int \<Rightarrow> int \<Rightarrow> byte list list \<Rightarrow> byte list list option" where
  "evict sz len [] = None"
| "evict sz len (f # fs) =
     (if is_key f \<and> bytes (f # fs) + len < sz then Some (f # fs) else evict sz len fs)"

definition fq_room :: "int \<Rightarrow> int \<Rightarrow> byte list list \<Rightarrow> byte list list option" where
  "fq_room sz len fs = (if bytes fs + len < sz then Some fs else evict sz len (tl fs))"

fun fq_rooms :: "int \<Rightarrow> int \<Rightarrow> byte list list option list \<Rightarrow> byte list list option list option" where
  "fq_rooms sz len [] = Some []"
| "fq_rooms sz len (None # F) = map_option ((#) None) (fq_rooms sz len F)"
| "fq_rooms sz len (Some fs # F) =
     (case fq_room sz len fs of None \<Rightarrow> None
      | Some gs \<Rightarrow> map_option ((#) (Some gs)) (fq_rooms sz len F))"

definition fq_write ::
    "int \<Rightarrow> byte list \<Rightarrow> byte list list option list \<Rightarrow> byte list list option list option" where
  "fq_write sz f F =
     map_option (map (map_option (\<lambda>gs. gs @ [f]))) (fq_rooms sz (int (length f)) F)"

text \<open>
  The one case in which the code departs from it: the frame fills the ring to the last byte, so
  that the full ring cannot be told from an empty one.
\<close>

definition no_exact_fill :: "int \<Rightarrow> int \<Rightarrow> byte list list \<Rightarrow> bool" where
  "no_exact_fill sz len fs \<longleftrightarrow> list_all (\<lambda>gs. bytes gs + len \<noteq> sz) (suffixes fs)"

section \<open>Reading one frame\<close>

lemma copy_ok:
  assumes "ring_ok buf sz w" "0 \<le> r" "r \<le> sz" "0 \<le> n" "n \<le> bufflen"
  shows "CopyDataOnQueue buf sz w r n bufflen =
           Inr (if n \<le> int (avail sz r w) then Some (ringrd sz buf r (nat n)) else None)"
proof -
  have rw: "(if w - r < 0 then sz + (w - r) else w - r) = int (avail sz r w)"
    using assms by (auto simp: avail_def ring_ok_def)
  have l: "int (avail sz r w) < sz" using assms by (intro avail_less) (auto simp: ring_ok_def)
  show ?thesis
  proof (cases "n \<le> int (avail sz r w)")
    case True
    show ?thesis
    proof (cases "sz - r \<ge> n")
      case c: True
      then show ?thesis using assms True rw ringrd_contig [of buf sz r "nat n"]
        by (auto simp: CopyDataOnQueue_def Let_def mem_read_def ring_ok_def)
    next
      case False
      then show ?thesis using assms True rw l ringrd_split [of buf sz r "nat n"]
        by (auto simp: CopyDataOnQueue_def Let_def mem_read_def ring_ok_def)
    qed
  next
    case False
    then show ?thesis using assms rw by (auto simp: CopyDataOnQueue_def Let_def)
  qed
qed

lemma avail_bytes: "reader_at buf sz w r fs \<Longrightarrow> int (avail sz r w) = bytes fs"
  unfolding reader_at_def bytes_def by (metis length_ringrd)

lemma bytes_simps [simp]:
  "bytes [] = 0"
  "bytes (f # fs) = int (length f) + bytes fs"
  "bytes (fs @ gs) = bytes fs + bytes gs"
  by (simp_all add: bytes_def)

lemma bytes_nonneg: "0 \<le> bytes fs"
  by (simp add: bytes_def)

lemma move_ptr_facts:
  assumes "ring_ok buf sz w" "0 \<le> r" "r \<le> sz" "n \<le> avail sz r w"
  shows "0 \<le> move_ptr sz r (int n)" "move_ptr sz r (int n) \<le> sz"
    "avail sz (move_ptr sz r (int n)) w = avail sz r w - n"
    "move_ptr sz r (int n) mod sz = (r + int n) mod sz"
proof -
  show "0 \<le> move_ptr sz r (int n)" "move_ptr sz r (int n) \<le> sz"
    using assms by (auto simp: move_ptr_def avail_def ring_ok_def split: if_splits)
  show "avail sz (move_ptr sz r (int n)) w = avail sz r w - n"
    using assms by (auto simp: move_ptr_def avail_def ring_ok_def split: if_splits)
  have "int n - (sz - r) = r + int n - sz" by simp
  then show "move_ptr sz r (int n) mod sz = (r + int n) mod sz"
    by (simp only: move_ptr_def minus_mod_self2 split: if_split) simp
qed

lemma reader_at_step:
  assumes "ring_ok buf sz w" "reader_at buf sz w r (f # fs)"
  shows "reader_at buf sz w (move_ptr sz r (int (length f))) fs"
proof -
  let ?p = "move_ptr sz r (int (length f))"
  have le: "length f \<le> avail sz r w" using avail_bytes [OF assms(2)] bytes_nonneg [of fs] by simp
  have r: "0 \<le> r" "r \<le> sz" using assms(2) by (auto simp: reader_at_def)
  note p = move_ptr_facts [OF assms(1) r le]
  have "ringrd sz buf ?p (avail sz ?p w) = ringrd sz buf (r + int (length f)) (avail sz r w - length f)"
    unfolding p(3) by (rule ringrd_cong [OF p(4)])
  also have "\<dots> = drop (length f) (f @ concat fs)"
    using assms(2) drop_ringrd [OF le, of sz buf r] by (auto simp: reader_at_def)
  finally show ?thesis using p(1,2) assms(2) by (simp add: reader_at_def)
qed

lemma header_take:
  assumes "32 \<le> length f" "4 \<le> n"
  shows "head_ok (take n (f @ xs)) = head_ok f" "is_video (take n (f @ xs)) = is_video f"
    "is_audio (take n (f @ xs)) = is_audio f"
  using assms by (auto simp: head_ok_def is_video_def is_audio_def nth_append)

lemma header_take32:
  assumes "32 \<le> length f"
  shows "not_P_frame (take 32 (f @ xs)) = not_P_frame f" "hdr_len (take 32 (f @ xs)) = hdr_len f"
  using assms by (simp_all add: not_P_frame_def hdr_len_def rd_i32_def nth_append)

lemma copy_header:
  assumes "ring_ok buf sz w" "reader_at buf sz w r (f # fs)" "0 \<le> n" "n \<le> 32"
  shows "CopyDataOnQueue buf sz w r n 512 = Inr (Some (take (nat n) (f @ concat fs)))"
proof -
  have r: "0 \<le> r" "r \<le> sz" and f: "32 \<le> length f" using assms(2) by (auto simp: reader_at_def wf_frame_def)
  have le: "n \<le> int (avail sz r w)" using avail_bytes [OF assms(2)] f assms(4) bytes_nonneg [of fs] by simp
  have "ringrd sz buf r (nat n) = take (nat n) (ringrd sz buf r (avail sz r w))"
    using le by (subst take_ringrd) auto
  also have "\<dots> = take (nat n) (f @ concat fs)" using assms(2) by (simp add: reader_at_def)
  finally show ?thesis using copy_ok [OF assms(1) r assms(3), of 512] assms(4) le by simp
qed

lemma copy_nothing:
  assumes "ring_ok buf sz w" "reader_at buf sz w r []" "0 < n" "n \<le> bufflen"
  shows "CopyDataOnQueue buf sz w r n bufflen = Inr None"
proof -
  have "0 \<le> r" "r \<le> sz" using assms(2) by (auto simp: reader_at_def)
  then show ?thesis using copy_ok [OF assms(1), of r n bufflen] assms(3,4) avail_bytes [OF assms(2)] by simp
qed

lemma frame_len_ok:
  assumes "ring_ok buf sz w" "reader_at buf sz w r (f # fs)"
  shows "cur_frame_len buf sz w r = Inr (Some (int (length f)))"
    "read_frame_len buf sz w r = Inr (Some (int (length f)))"
    "cur_frame_key buf sz w r = Inr (Some (is_key f))"
proof -
  have f: "wf_frame f" using assms(2) by (simp add: reader_at_def)
  then have l: "32 \<le> length f" by (simp add: wf_frame_def)
  note c = copy_header [OF assms, of 4] copy_header [OF assms, of 32]
    header_take [OF l] header_take32 [OF l]
  show "cur_frame_len buf sz w r = Inr (Some (int (length f)))"
    "read_frame_len buf sz w r = Inr (Some (int (length f)))"
    "cur_frame_key buf sz w r = Inr (Some (is_key f))"
    using f c by (auto simp: cur_frame_len_def read_frame_len_def cur_frame_key_def wf_frame_def is_key_def
        simp del: take_append)
qed

lemma frame_len_empty:
  assumes "ring_ok buf sz w" "reader_at buf sz w r []"
  shows "cur_frame_key buf sz w r = Inr None" "read_frame_len buf sz w r = Inr None"
  using copy_nothing [OF assms, of 4] by (simp_all add: cur_frame_key_def read_frame_len_def)


section \<open>Finding the next key frame\<close>

lemma find_loop_ok:
  assumes "ring_ok buf sz w"
  shows "reader_at buf sz w r (f # fs) \<Longrightarrow>
    (case dropWhile (\<lambda>g. \<not> is_key g) fs of
       [] \<Rightarrow> find_loop buf sz w r = Some (Inr None)
     | g # gs \<Rightarrow> \<exists>p. find_loop buf sz w r = Some (Inr (Some p)) \<and> reader_at buf sz w p (g # gs))"
proof (induction fs arbitrary: r f)
  case Nil
  have "reader_at buf sz w (move_ptr sz r (int (length f))) []"
    using reader_at_step [OF assms Nil.prems] .
  then show ?case
    using frame_len_ok [OF assms Nil.prems] frame_len_empty [OF assms]
    by (simp add: find_loop.simps [of buf sz w r])
next
  case (Cons g gs)
  have s: "reader_at buf sz w (move_ptr sz r (int (length f))) (g # gs)"
    using reader_at_step [OF assms Cons.prems] .
  have l: "find_loop buf sz w r =
      (if is_key g then Some (Inr (Some (move_ptr sz r (int (length f)))))
       else find_loop buf sz w (move_ptr sz r (int (length f))))"
    using frame_len_ok(1) [OF assms Cons.prems] frame_len_ok(3) [OF assms s]
    by (simp add: find_loop.simps [of buf sz w r])
  show ?case using s Cons.IH [OF s] unfolding l by (cases "is_key g") auto
qed

lemma evict_dropWhile: "evict sz len fs = evict sz len (dropWhile (\<lambda>g. \<not> is_key g) fs)"
  by (induction fs) auto

lemma suffix_dropWhile: "suffix (dropWhile P fs) fs"
  by (induction fs) (auto simp: suffix_ConsI)

lemma move_loop_ok:
  assumes "ring_ok buf sz w"
    and again: "\<And>p gs. reader_at buf sz w p gs \<Longrightarrow> gs \<noteq> [] \<Longrightarrow> suffix gs fs \<Longrightarrow>
                  again p = (\<not> bytes gs + len < sz)"
    and "reader_at buf sz w r (f # fs)"
  shows "case evict sz len fs of
           None \<Rightarrow> move_loop again buf sz w r = Some (Inr None)
         | Some gs \<Rightarrow> \<exists>p. move_loop again buf sz w r = Some (Inr (Some p)) \<and> reader_at buf sz w p gs"
  using again assms(3)
proof (induction fs arbitrary: r f rule: length_induct)
  case (1 fs)
  let ?ds = "dropWhile (\<lambda>g. \<not> is_key g) fs"
  note fl = find_loop_ok [OF assms(1) 1(3)]
  show ?case
  proof (cases ?ds)
    case Nil
    have "evict sz len fs = None" using evict_dropWhile [of sz len fs] unfolding Nil by simp
    moreover have "find_loop buf sz w r = Some (Inr None)" using fl unfolding Nil by simp
    ultimately show ?thesis by (simp add: move_loop.simps [of again buf sz w r] FindNextIframe_def)
  next
    case (Cons g gs)
    from fl obtain p where p: "find_loop buf sz w r = Some (Inr (Some p))"
        "reader_at buf sz w p (g # gs)" unfolding Cons by auto
    have suf: "suffix (g # gs) fs" using suffix_dropWhile [of "\<lambda>g. \<not> is_key g" fs] unfolding Cons .
    have key: "is_key g" using Cons by (metis dropWhile_eq_Cons_conv)
    have ag: "again p = (\<not> bytes (g # gs) + len < sz)" using 1(2) p(2) suf by blast
    have ev: "evict sz len fs = evict sz len (g # gs)" using evict_dropWhile [of sz len fs] unfolding Cons .
    have rec: "case evict sz len gs of
           None \<Rightarrow> move_loop again buf sz w p = Some (Inr None)
         | Some hs \<Rightarrow> \<exists>q. move_loop again buf sz w p = Some (Inr (Some q)) \<and> reader_at buf sz w q hs"
    proof (rule 1(1) [rule_format, OF _ _ p(2)])
      show "length gs < length fs" using suffix_length_le [OF suf] by simp
      show "again q = (\<not> bytes hs + len < sz)"
        if "reader_at buf sz w q hs" "hs \<noteq> []" "suffix hs gs" for q hs
        using 1(2) that suf by (meson suffix_ConsI suffix_order.trans)
    qed
    have l: "move_loop again buf sz w r =
        (if again p then move_loop again buf sz w p else Some (Inr (Some p)))"
      using p(1) by (simp add: move_loop.simps [of again buf sz w r] FindNextIframe_def)
    show ?thesis using ag key p(2) rec unfolding l ev by (cases "again p") auto
  qed
qed

text \<open>The loop conditions of \<open>MoveReadPoint\<close> and the tests of \<open>WriteData\<close>, as byte counts.\<close>

lemma again_normal:
  assumes "ring_ok buf sz w" "reader_at buf sz w p gs" "w + len \<le> sz" "0 < len" "bytes gs + len \<noteq> sz"
  shows "(p > w \<and> p \<le> w + len) = (\<not> bytes gs + len < sz)"
  using assms avail_bytes [OF assms(2)]
  by (auto simp: avail_def reader_at_def ring_ok_def split: if_splits)

lemma again_wrapped:
  assumes "ring_ok buf sz w" "reader_at buf sz w p gs" "w + len > sz" "len < sz"
  shows "((p > w \<and> p \<le> sz) \<or> p \<le> w + len - sz) = (\<not> bytes gs + len < sz)"
  using assms avail_bytes [OF assms(2)]
  by (auto simp: avail_def reader_at_def ring_ok_def split: if_splits)

lemma hit_normal:
  assumes "ring_ok buf sz w" "reader_at buf sz w p gs" "w + len \<le> sz" "0 < len" "bytes gs + len \<noteq> sz"
  shows "(p > w \<and> p < w + len) = (\<not> bytes gs + len < sz)"
  using assms avail_bytes [OF assms(2)]
  by (auto simp: avail_def reader_at_def ring_ok_def split: if_splits)

lemma no_exact_fillD: "no_exact_fill sz len fs \<Longrightarrow> suffix gs fs \<Longrightarrow> bytes gs + len \<noteq> sz"
  by (auto simp: no_exact_fill_def list_all_iff)

lemma MoveReadPoint_ok:
  assumes ring: "ring_ok buf sz w" and rd: "reader_at buf sz w r (f # fs)"
    and len: "0 < len" "len < sz" and ex: "no_exact_fill sz len (f # fs)"
  shows "case evict sz len fs of
           None \<Rightarrow> MoveReadPoint r w len buf sz = Some (Inl AssertFailed)
         | Some gs \<Rightarrow> \<exists>p. MoveReadPoint r w len buf sz = Some (Inr p) \<and> reader_at buf sz w p gs"
proof (cases "w + len \<le> sz")
  case True
  have "case evict sz len fs of
           None \<Rightarrow> move_loop (\<lambda>pR. pR > w \<and> pR \<le> w + len) buf sz w r = Some (Inr None)
         | Some gs \<Rightarrow> \<exists>p. move_loop (\<lambda>pR. pR > w \<and> pR \<le> w + len) buf sz w r = Some (Inr (Some p)) \<and>
                        reader_at buf sz w p gs"
  proof (rule move_loop_ok [OF ring _ rd])
    show "(p > w \<and> p \<le> w + len) = (\<not> bytes gs + len < sz)"
      if "reader_at buf sz w p gs" "gs \<noteq> []" "suffix gs fs" for p gs
      using again_normal [OF ring that(1) True len(1)] no_exact_fillD [OF ex] that(3)
      by (simp add: suffix_ConsI)
  qed
  then show ?thesis using True by (auto simp: MoveReadPoint_def split: option.splits)
next
  case False
  have "case evict sz len fs of
           None \<Rightarrow> move_loop (\<lambda>pR. (pR > w \<and> pR \<le> sz) \<or> pR \<le> w + len - sz) buf sz w r = Some (Inr None)
         | Some gs \<Rightarrow> \<exists>p. move_loop (\<lambda>pR. (pR > w \<and> pR \<le> sz) \<or> pR \<le> w + len - sz) buf sz w r =
                          Some (Inr (Some p)) \<and> reader_at buf sz w p gs"
    by (rule move_loop_ok [OF ring _ rd]) (use again_wrapped [OF ring] False len(2) in auto)
  then show ?thesis using False by (auto simp: MoveReadPoint_def Let_def split: option.splits)
qed


section \<open>A write refines the frame queues\<close>

fun reader_ok :: "byte list \<Rightarrow> int \<Rightarrow> int \<Rightarrow> int option \<Rightarrow> byte list list option \<Rightarrow> bool" where
  "reader_ok buf sz w None None = True"
| "reader_ok buf sz w (Some p) (Some fs) = reader_at buf sz w p fs"
| "reader_ok buf sz w _ _ = False"

text \<open>The queue is open and its four read slots hold the frame lists \<open>F\<close> (\<open>None\<close>: unused slot).\<close>

definition queue_holds :: "QueueHandle_T \<Rightarrow> byte list list option list \<Rightarrow> bool" where
  "queue_holds q F \<longleftrightarrow> enabled q \<and> length (pRead q) = QUEUE_USE_MAX \<and>
     (case (dataBuff q, pWrite q) of
        (Some buf, Some w) \<Rightarrow> ring_ok buf (dataBuffSize q) w \<and>
                              list_all2 (reader_ok buf (dataBuffSize q) w) (pRead q) F
      | _ \<Rightarrow> False)"

lemma move_readers_spec:
  assumes "list_all2 (reader_ok buf sz w) rs F"
    and "\<And>p fs. Some p \<in> set rs \<Longrightarrow> Some fs \<in> set F \<Longrightarrow> reader_at buf sz w p fs \<Longrightarrow>
           hit p = (\<not> bytes fs + len < sz)"
    and "\<And>p fs. Some p \<in> set rs \<Longrightarrow> Some fs \<in> set F \<Longrightarrow> reader_at buf sz w p fs \<Longrightarrow> hit p \<Longrightarrow>
           case evict sz len (tl fs) of
             None \<Rightarrow> mv p = Some (Inl AssertFailed)
           | Some gs \<Rightarrow> \<exists>p'. mv p = Some (Inr p') \<and> reader_at buf sz w p' gs"
  shows "case fq_rooms sz len F of
           None \<Rightarrow> move_readers hit mv rs = Some (Inl AssertFailed)
         | Some G \<Rightarrow> \<exists>rs'. move_readers hit mv rs = Some (Inr rs') \<and>
                          list_all2 (reader_ok buf sz w) rs' G"
  using assms
proof (induction rs F rule: list_all2_induct)
  case Nil
  then show ?case by simp
next
  case (Cons r rs fo F)
  have IH: "case fq_rooms sz len F of
           None \<Rightarrow> move_readers hit mv rs = Some (Inl AssertFailed)
         | Some G \<Rightarrow> \<exists>rs'. move_readers hit mv rs = Some (Inr rs') \<and>
                          list_all2 (reader_ok buf sz w) rs' G"
    using Cons.prems by (intro Cons.IH) auto
  show ?case
  proof (cases r)
    case None
    then have "fo = None" using Cons.hyps(1) by (cases fo) auto
    then show ?thesis using IH None by (auto split: option.splits)
  next
    case (Some p)
    then obtain fs where fo: "fo = Some fs" and rd: "reader_at buf sz w p fs"
      using Cons.hyps(1) by (cases fo) auto
    have h: "hit p = (\<not> bytes fs + len < sz)" using Cons.prems(1) Some fo rd by auto
    show ?thesis
    proof (cases "hit p")
      case True
      have m: "case evict sz len (tl fs) of
             None \<Rightarrow> mv p = Some (Inl AssertFailed)
           | Some gs \<Rightarrow> \<exists>p'. mv p = Some (Inr p') \<and> reader_at buf sz w p' gs"
        using Cons.prems(2) Some fo rd True by auto
      show ?thesis using m IH True h Some fo
        by (auto simp: fq_room_def split: option.splits)
    next
      case False
      then show ?thesis using IH h Some fo rd
        by (auto simp: fq_room_def split: option.splits)
    qed
  qed
qed

lemma move_readers_outcome:
  assumes "\<And>p. Some p \<in> set rs \<Longrightarrow> h p \<Longrightarrow> mv p = Some (Inl e) \<or> (\<exists>p'. mv p = Some (Inr p'))"
  shows "move_readers h mv rs = Some (Inl e) \<or> (\<exists>rs'. move_readers h mv rs = Some (Inr rs'))"
  using assms
proof (induction rs)
  case (Cons r rs)
  have IH: "move_readers h mv rs = Some (Inl e) \<or> (\<exists>rs'. move_readers h mv rs = Some (Inr rs'))"
    using Cons.prems by (intro Cons.IH) auto
  show ?case
  proof (cases "\<exists>p. r = Some p \<and> h p")
    case True
    then obtain p where "r = Some p" "h p" by blast
    then show ?thesis using Cons.prems [of p] IH by auto
  next
    case False
    then show ?thesis using IH by (cases r) auto
  qed
qed simp

text \<open>The two passes of the wrapping branch act like one pass over both tests.\<close>

lemma move_readers_twice:
  assumes "\<And>p. Some p \<in> set rs \<Longrightarrow> h1 p \<or> h2 p \<Longrightarrow>
             mv p = Some (Inl e) \<or> (\<exists>p'. mv p = Some (Inr p') \<and> \<not> h2 p')"
  shows "run_bind (move_readers h1 mv rs) (move_readers h2 mv) =
         move_readers (\<lambda>p. h1 p \<or> h2 p) mv rs"
  using assms
proof (induction rs)
  case (Cons r rs)
  have IH: "run_bind (move_readers h1 mv rs) (move_readers h2 mv) =
            move_readers (\<lambda>p. h1 p \<or> h2 p) mv rs"
    using Cons.prems by (intro Cons.IH) auto
  have o1: "move_readers h1 mv rs = Some (Inl e) \<or> (\<exists>rs'. move_readers h1 mv rs = Some (Inr rs'))"
    using Cons.prems by (intro move_readers_outcome) force
  show ?case
  proof (cases "\<exists>p. r = Some p \<and> (h1 p \<or> h2 p)")
    case True
    then obtain p where p: "r = Some p" "h1 p \<or> h2 p" by blast
    show ?thesis using Cons.prems [of p] p o1 IH [symmetric] by (cases "h1 p") auto
  next
    case False
    then show ?thesis using o1 IH [symmetric] by (cases r) auto
  qed
qed simp

lemma reader_at_write:
  assumes "ring_ok buf sz w" "reader_at buf sz w p gs" "bytes gs + int (length f) < sz"
    and "written sz buf w f buf'" "wf_frame f"
  shows "reader_at buf' sz ((w + int (length f)) mod sz) p (gs @ [f])"
proof -
  have a: "int (avail sz p w) + int (length f) < sz" using avail_bytes [OF assms(2)] assms(3) by simp
  have r: "0 < sz" "length buf = nat sz" "0 \<le> p" "p \<le> sz" "0 \<le> w" "w < sz"
    using assms(1,2) by (auto simp: ring_ok_def reader_at_def)
  show ?thesis
    using assms(2,5) ringrd_written [OF r a assms(4)] avail_write [OF r(1,3,4,5,6) a] r
    by (simp add: reader_at_def)
qed

lemma evict_fits: "evict sz len fs = Some gs \<Longrightarrow> bytes gs + len < sz"
  by (induction fs) (auto split: if_splits)

lemma fq_rooms_fits: "fq_rooms sz len F = Some G \<Longrightarrow> Some gs \<in> set G \<Longrightarrow> bytes gs + len < sz"
proof (induction F arbitrary: G)
  case (Cons fo F)
  then show ?case
    by (cases fo) (auto simp: fq_room_def dest: evict_fits split: option.splits if_splits)
qed simp

lemma fq_rooms_length: "fq_rooms sz len F = Some G \<Longrightarrow> length G = length F"
  by (induction sz len F arbitrary: G rule: fq_rooms.induct) (auto split: option.splits)

lemma readers_write:
  assumes "list_all2 (reader_ok buf sz w) rs G" "ring_ok buf sz w"
    and "\<And>gs. Some gs \<in> set G \<Longrightarrow> bytes gs + int (length f) < sz"
    and "written sz buf w f buf'" "wf_frame f"
  shows "list_all2 (reader_ok buf' sz ((w + int (length f)) mod sz)) rs
           (map (map_option (\<lambda>gs. gs @ [f])) G)"
  using assms(1,3)
proof (induction rs G rule: list_all2_induct)
  case (Cons r rs go G)
  then show ?case
    by (cases r; cases go) (auto intro: reader_at_write [OF assms(2) _ _ assms(4,5)])
qed simp


lemma MoveReadPoint_lagging:
  assumes "ring_ok buf sz w" "reader_at buf sz w p fs" "\<not> bytes fs + len < sz"
    and "0 < len" "len < sz" "no_exact_fill sz len fs"
  shows "case evict sz len (tl fs) of
           None \<Rightarrow> MoveReadPoint p w len buf sz = Some (Inl AssertFailed)
         | Some gs \<Rightarrow> \<exists>p'. MoveReadPoint p w len buf sz = Some (Inr p') \<and> reader_at buf sz w p' gs"
proof (cases fs)
  case Nil
  then show ?thesis using assms by simp
next
  case (Cons f fs')
  then show ?thesis using MoveReadPoint_ok [of buf sz w p f fs' len] assms by simp
qed

lemma move_phase_normal:
  assumes "ring_ok buf sz w" "list_all2 (reader_ok buf sz w) rs F"
    and "0 < len" "len < sz" "w + len \<le> sz" "\<And>fs. Some fs \<in> set F \<Longrightarrow> no_exact_fill sz len fs"
  shows "case fq_rooms sz len F of
           None \<Rightarrow> move_readers (\<lambda>p. p > w \<and> p < w + len) (\<lambda>p. MoveReadPoint p w len buf sz) rs =
                     Some (Inl AssertFailed)
         | Some G \<Rightarrow> \<exists>rs'. move_readers (\<lambda>p. p > w \<and> p < w + len) (\<lambda>p. MoveReadPoint p w len buf sz) rs =
                     Some (Inr rs') \<and> list_all2 (reader_ok buf sz w) rs' G"
proof (rule move_readers_spec [OF assms(2)])
  fix p fs assume a: "Some fs \<in> set F" "reader_at buf sz w p fs"
  show h: "(p > w \<and> p < w + len) = (\<not> bytes fs + len < sz)"
    using hit_normal [OF assms(1) a(2) assms(5,3)] no_exact_fillD [OF assms(6) [OF a(1)]] by simp
  show "case evict sz len (tl fs) of
             None \<Rightarrow> MoveReadPoint p w len buf sz = Some (Inl AssertFailed)
           | Some gs \<Rightarrow> \<exists>p'. MoveReadPoint p w len buf sz = Some (Inr p') \<and> reader_at buf sz w p' gs"
    if "p > w \<and> p < w + len"
    using MoveReadPoint_lagging [OF assms(1) a(2) _ assms(3,4) assms(6) [OF a(1)]] h that by blast
qed

lemma move_phase_wrapped:
  assumes "ring_ok buf sz w" "list_all2 (reader_ok buf sz w) rs F"
    and "0 < len" "len < sz" "sz < w + len" "\<And>fs. Some fs \<in> set F \<Longrightarrow> no_exact_fill sz len fs"
  defines "h1 \<equiv> (\<lambda>p. p > w \<and> p \<le> sz)" and "h2 \<equiv> (\<lambda>p. p \<ge> 0 \<and> p \<le> len - (sz - w))"
    and "mv \<equiv> (\<lambda>p. MoveReadPoint p w len buf sz)"
  shows "case fq_rooms sz len F of
           None \<Rightarrow> run_bind (move_readers h1 mv rs) (move_readers h2 mv) = Some (Inl AssertFailed)
         | Some G \<Rightarrow> \<exists>rs'. run_bind (move_readers h1 mv rs) (move_readers h2 mv) = Some (Inr rs') \<and>
                     list_all2 (reader_ok buf sz w) rs' G"
proof -
  have hit: "(h1 p \<or> h2 p) = (\<not> bytes fs + len < sz)" if "reader_at buf sz w p fs" for p fs
    using again_wrapped [OF assms(1) that assms(5,4)] that
    by (auto simp: h1_def h2_def reader_at_def)
  have mvo: "case evict sz len (tl fs) of None \<Rightarrow> mv p = Some (Inl AssertFailed)
             | Some gs \<Rightarrow> \<exists>p'. mv p = Some (Inr p') \<and> reader_at buf sz w p' gs"
    if "Some fs \<in> set F" "reader_at buf sz w p fs" "h1 p \<or> h2 p" for p fs
    unfolding mv_def
    using MoveReadPoint_lagging [OF assms(1) that(2) _ assms(3,4) assms(6) [OF that(1)]] hit that by blast
  have tw: "run_bind (move_readers h1 mv rs) (move_readers h2 mv) = move_readers (\<lambda>p. h1 p \<or> h2 p) mv rs"
  proof (rule move_readers_twice [where e = AssertFailed])
    fix p assume p: "Some p \<in> set rs" "h1 p \<or> h2 p"
    then obtain fo where "fo \<in> set F" "reader_ok buf sz w (Some p) fo"
      using assms(2) by (metis in_set_conv_nth list_all2_conv_all_nth)
    then obtain fs where fs: "Some fs \<in> set F" "reader_at buf sz w p fs"
      by (metis not_None_eq reader_ok.simps)
    show "mv p = Some (Inl AssertFailed) \<or> (\<exists>p'. mv p = Some (Inr p') \<and> \<not> h2 p')"
      using mvo [OF fs p(2)] hit by (force split: option.splits dest: evict_fits)
  qed
  show ?thesis
    unfolding tw by (rule move_readers_spec [OF assms(2) hit]) (use mvo in blast)+
qed

lemma run_bind_assoc: "run_bind (run_bind m f) g = run_bind m (\<lambda>x. run_bind (f x) g)"
  by (simp add: run_bind_def split: option.splits sum.splits)

lemma write_queue_refines_aux:
  assumes "queue_holds q F" "wf_frame f" "int (length f) < dataBuffSize q"
    and "\<And>fs. Some fs \<in> set F \<Longrightarrow> no_exact_fill (dataBuffSize q) (int (length f)) fs"
  shows "case fq_write (dataBuffSize q) f F of
           None \<Rightarrow> write_queue q f = Some (Inl AssertFailed)
         | Some G \<Rightarrow> \<exists>q'. write_queue q f = Some (Inr (q', KEY_TRUE)) \<and> queue_holds q' G \<and>
                         dataBuffSize q' = dataBuffSize q"
proof -
  let ?sz = "dataBuffSize q" and ?len = "int (length f)"
  obtain buf w where b: "dataBuff q = Some buf" "pWrite q = Some w" "enabled q"
      and ring: "ring_ok buf ?sz w" and rs: "list_all2 (reader_ok buf ?sz w) (pRead q) F"
      and l4: "length (pRead q) = QUEUE_USE_MAX"
    using assms(1) by (auto simp: queue_holds_def split: option.splits)
  have len: "0 < ?len" using assms(2) by (auto simp: wf_frame_def)
  have szp: "?sz > 0" "length buf = nat ?sz" "0 \<le> w" "w < ?sz" using ring by (auto simp: ring_ok_def)
  have closed: "queue_holds (q\<lparr>pRead := rs', dataBuff := Some buf', pWrite := Some ((w + ?len) mod ?sz)\<rparr>)
                (map (map_option (\<lambda>gs. gs @ [f])) G)"
    if G: "fq_rooms ?sz ?len F = Some G" "list_all2 (reader_ok buf ?sz w) rs' G" "written ?sz buf w f buf'"
    for rs' buf' G
    using readers_write [OF G(2) ring fq_rooms_fits [OF G(1)] G(3) assms(2)] G szp b l4 rs
      fq_rooms_length [OF G(1)] list_all2_lengthD [OF G(2)] list_all2_lengthD [OF rs]
    by (simp add: queue_holds_def ring_ok_def written_def)
  show ?thesis
  proof (cases "w + ?len \<le> ?sz")
    case True
    then have w: "(?sz - w \<ge> ?len) = True" by simp
    obtain buf' where buf': "mem_write buf w f = Inr buf'" "written ?sz buf w f buf'"
      using written_contig [of buf ?sz w f] szp True by auto
    show ?thesis
      using move_phase_normal [OF ring rs len assms(3) True assms(4)] buf' closed szp(1) b
      by (auto simp: write_queue_def fq_write_def Let_def w split: option.splits)
  next
    case False
    then have w: "(?sz - w \<ge> ?len) = False" "?sz < w + ?len" by simp_all
    obtain b1 b2 where b2: "mem_write buf w (take (nat (?sz - w)) f) = Inr b1"
        "mem_write b1 0 (drop (nat (?sz - w)) f) = Inr b2" "written ?sz buf w f b2"
      using written_wrap [of buf ?sz w f] szp w(2) assms(3) by auto
    show ?thesis
      using move_phase_wrapped [OF ring rs len assms(3) w(2) assms(4)] b2 closed szp(1) b
      by (auto simp: write_queue_def fq_write_def Let_def w(1) outcome_iff run_bind_assoc [symmetric]
          split: option.splits)
  qed
qed


section \<open>A read takes the oldest frame\<close>

lemma queue_holdsE:
  assumes "queue_holds q F"
  obtains buf w where "dataBuff q = Some buf" "pWrite q = Some w" "enabled q"
    "ring_ok buf (dataBuffSize q) w" "list_all2 (reader_ok buf (dataBuffSize q) w) (pRead q) F"
    "length (pRead q) = QUEUE_USE_MAX" "length F = QUEUE_USE_MAX"
proof -
  obtain buf w where q: "dataBuff q = Some buf" "pWrite q = Some w" "enabled q"
      "ring_ok buf (dataBuffSize q) w" "list_all2 (reader_ok buf (dataBuffSize q) w) (pRead q) F"
      "length (pRead q) = QUEUE_USE_MAX"
    using assms by (auto simp: queue_holds_def split: option.splits)
  show thesis using that [OF q] list_all2_lengthD [OF q(5)] q(6) by simp
qed

lemma reader_slot:
  assumes "list_all2 (reader_ok buf sz w) rs F" "i < length F" "F ! i = Some fs"
  obtains p where "rs ! i = Some p" "reader_at buf sz w p fs"
proof -
  have "reader_ok buf sz w (rs ! i) (Some fs)" using assms by (metis list_all2_conv_all_nth)
  then show thesis using that by (cases "rs ! i") auto
qed

lemma read_queue_empty:
  assumes "queue_holds q F" "i < length F" "F ! i = Some []"
  shows "read_queue q (int i) bufflen = Inr (q, None)"
proof -
  obtain buf w where b: "dataBuff q = Some buf" "pWrite q = Some w" "enabled q"
    and ring: "ring_ok buf (dataBuffSize q) w" and rs: "list_all2 (reader_ok buf (dataBuffSize q) w) (pRead q) F"
    and l: "length (pRead q) = QUEUE_USE_MAX" "length F = QUEUE_USE_MAX"
    using assms(1) by (rule queue_holdsE)
  obtain p where p: "pRead q ! i = Some p" "reader_at buf (dataBuffSize q) w p []"
    using rs assms(2,3) by (rule reader_slot)
  show ?thesis using b p l assms(2) frame_len_empty [OF ring p(2)] by (simp add: read_queue_def)
qed

lemma read_queue_frame:
  assumes "queue_holds q F" "i < length F" "F ! i = Some (f # fs)"
  shows "if int (length f) \<le> bufflen
         then \<exists>q'. read_queue q (int i) bufflen = Inr (q', Some f) \<and> queue_holds q' (F[i := Some fs]) \<and>
                   dataBuffSize q' = dataBuffSize q
         else read_queue q (int i) bufflen = Inr (q, None)"
proof -
  let ?sz = "dataBuffSize q"
  obtain buf w where b: "dataBuff q = Some buf" "pWrite q = Some w" "enabled q"
    and ring: "ring_ok buf ?sz w" and rs: "list_all2 (reader_ok buf ?sz w) (pRead q) F"
    and l: "length (pRead q) = QUEUE_USE_MAX" "length F = QUEUE_USE_MAX"
    using assms(1) by (rule queue_holdsE)
  obtain p where p: "pRead q ! i = Some p" "reader_at buf ?sz w p (f # fs)"
    using rs assms(2,3) by (rule reader_slot)
  have pr: "0 \<le> p" "p \<le> ?sz" using p(2) by (auto simp: reader_at_def)
  have fl: "read_frame_len buf ?sz w p = Inr (Some (int (length f)))" by (rule frame_len_ok(2) [OF ring p(2)])
  have le: "length f \<le> avail ?sz p w" using avail_bytes [OF p(2)] bytes_nonneg [of fs] by simp
  have "ringrd ?sz buf p (length f) = take (length f) (f @ concat fs)"
    using p(2) take_ringrd [OF le, of ?sz buf p] by (auto simp: reader_at_def)
  then have c: "CopyDataOnQueue buf ?sz w p (int (length f)) bufflen =
      Inr (if int (length f) \<le> bufflen then Some f else None)"
    using copy_ok [OF ring pr, of "int (length f)" bufflen] le
    by (auto simp: CopyDataOnQueue_def)
  let ?p' = "move_ptr ?sz p (int (length f))"
  have "list_all2 (reader_ok buf ?sz w) ((pRead q)[i := Some ?p']) (F[i := Some fs])"
    using rs reader_at_step [OF ring p(2)] by (simp add: list_all2_update_cong)
  then show ?thesis using b p(1) fl c l ring assms(2)
    by (auto simp: read_queue_def queue_holds_def Let_def)
qed

section \<open>The contract of a frame queue\<close>

text \<open>
  What the senders rely on: a write that has room appends to every reader, a read takes the
  reader's oldest frame and leaves the other readers alone.
\<close>

fun reads :: "('q \<Rightarrow> nat \<Rightarrow> fault + ('q \<times> 'f option)) \<Rightarrow> 'q \<Rightarrow> nat \<Rightarrow> nat \<Rightarrow> fault + ('q \<times> 'f option list)"
where
  "reads rd q i 0 = Inr (q, [])"
| "reads rd q i (Suc n) =
     rbind (rd q i) (\<lambda>(q, r). rbind (reads rd q i n) (\<lambda>(q, rs). Inr (q, r # rs)))"

fun writes :: "('q \<Rightarrow> 'f \<Rightarrow> ('q \<times> int) run) \<Rightarrow> 'q \<Rightarrow> 'f list \<Rightarrow> ('q \<times> int list) run" where
  "writes wr q [] = Some (Inr (q, []))"
| "writes wr q (f # fs) =
     run_bind (wr q f) (\<lambda>(q, r). run_bind (writes wr q fs) (\<lambda>(q, rs). Some (Inr (q, r # rs))))"

locale frame_queue =
  fixes holds :: "'q \<Rightarrow> 'f list option list \<Rightarrow> bool"
    and room :: "'q \<Rightarrow> 'f list option list \<Rightarrow> 'f list \<Rightarrow> bool"
    and wr :: "'q \<Rightarrow> 'f \<Rightarrow> ('q \<times> int) run"
    and rd :: "'q \<Rightarrow> nat \<Rightarrow> fault + ('q \<times> 'f option)"
  assumes write_room: "holds q F \<Longrightarrow> room q F (f # gs) \<Longrightarrow>
      \<exists>q'. wr q f = Some (Inr (q', KEY_TRUE)) \<and> holds q' (map (map_option (\<lambda>fs. fs @ [f])) F) \<and>
           room q' (map (map_option (\<lambda>fs. fs @ [f])) F) gs"
    and read_frame: "holds q F \<Longrightarrow> i < length F \<Longrightarrow> F ! i = Some (f # fs) \<Longrightarrow>
      \<exists>q'. rd q i = Inr (q', Some f) \<and> holds q' (F[i := Some fs])"
    and read_empty: "holds q F \<Longrightarrow> i < length F \<Longrightarrow> F ! i = Some [] \<Longrightarrow> rd q i = Inr (q, None)"
begin

lemma writes_room:
  "holds q F \<Longrightarrow> room q F gs \<Longrightarrow>
   \<exists>q'. writes wr q gs = Some (Inr (q', replicate (length gs) KEY_TRUE)) \<and>
        holds q' (map (map_option (\<lambda>fs. fs @ gs)) F)"
proof (induction gs arbitrary: q F)
  case Nil
  then show ?case by (simp add: map_option.identity id_def)
next
  case (Cons g gs)
  obtain q1 where q1: "wr q g = Some (Inr (q1, KEY_TRUE))" "holds q1 (map (map_option (\<lambda>fs. fs @ [g])) F)"
      "room q1 (map (map_option (\<lambda>fs. fs @ [g])) F) gs"
    using write_room [OF Cons.prems] by blast
  from Cons.IH [OF q1(2,3)] q1(1) show ?case by (auto simp: o_def option.map_comp)
qed

lemma reads_all:
  "holds q F \<Longrightarrow> i < length F \<Longrightarrow> F ! i = Some fs \<Longrightarrow>
   \<exists>q'. reads rd q i (Suc (length fs)) = Inr (q', map Some fs @ [None]) \<and> holds q' (F[i := Some []])"
proof (induction fs arbitrary: q F)
  case Nil
  then show ?case by (auto simp: read_empty) (metis list_update_id)
next
  case (Cons f fs)
  obtain q1 where q1: "rd q i = Inr (q1, Some f)" "holds q1 (F[i := Some fs])"
    using read_frame [OF Cons.prems] by blast
  from Cons.IH [OF q1(2)] Cons.prems(2) q1(1) show ?case by auto
qed

text \<open>What is written comes out, in order, and then the queue is empty again.\<close>

lemma fifo:
  assumes "holds q F" "room q F gs" "i < length F" "F ! i = Some fs"
  shows "\<exists>q1 q2. writes wr q gs = Some (Inr (q1, replicate (length gs) KEY_TRUE)) \<and>
           reads rd q1 i (Suc (length (fs @ gs))) = Inr (q2, map Some (fs @ gs) @ [None])"
proof -
  obtain q1 where q1: "writes wr q gs = Some (Inr (q1, replicate (length gs) KEY_TRUE))"
      "holds q1 (map (map_option (\<lambda>fs. fs @ gs)) F)"
    using writes_room [OF assms(1,2)] by blast
  have "(map (map_option (\<lambda>fs. fs @ gs)) F) ! i = Some (fs @ gs)" using assms(3,4) by simp
  then show ?thesis using reads_all [OF q1(2), of i "fs @ gs"] q1(1) assms(3) by auto
qed

end

text \<open>
  \<open>mq_room\<close>: the frames \<open>gs\<close> fit behind what every reader still has to read, with at least one
  byte of the ring left, and fit the readers' buffer of \<open>bufflen\<close> bytes.
\<close>

definition mq_room :: "int \<Rightarrow> QueueHandle_T \<Rightarrow> byte list list option list \<Rightarrow> byte list list \<Rightarrow> bool" where
  "mq_room bufflen q F gs \<longleftrightarrow> list_all (\<lambda>f. wf_frame f \<and> int (length f) \<le> bufflen) gs \<and>
     bytes gs < dataBuffSize q \<and>
     list_all (\<lambda>fo. case fo of None \<Rightarrow> True | Some fs \<Rightarrow> bytes fs + bytes gs < dataBuffSize q) F"

definition mq_holds :: "int \<Rightarrow> QueueHandle_T \<Rightarrow> byte list list option list \<Rightarrow> bool" where
  "mq_holds bufflen q F \<longleftrightarrow> queue_holds q F \<and>
     list_all (\<lambda>fo. case fo of None \<Rightarrow> True | Some fs \<Rightarrow> list_all (\<lambda>f. int (length f) \<le> bufflen) fs) F"

lemma suffix_bytes_le: "suffix gs fs \<Longrightarrow> bytes gs \<le> bytes fs"
  by (auto simp: suffix_def bytes_nonneg)

lemma fq_rooms_fit:
  "(\<And>fs. Some fs \<in> set F \<Longrightarrow> bytes fs + len < sz) \<Longrightarrow> fq_rooms sz len F = Some F"
  by (induction sz len F rule: fq_rooms.induct) (auto simp: fq_room_def)

lemma list_all_slots:
  "list_all (\<lambda>fo. case fo of None \<Rightarrow> True | Some fs \<Rightarrow> P fs) F \<longleftrightarrow> (\<forall>fs. Some fs \<in> set F \<longrightarrow> P fs)"
  by (auto simp: list_all_iff split: option.splits)

lemma slots_map: "Some hs \<in> map_option g ` A \<longleftrightarrow> (\<exists>fs. Some fs \<in> A \<and> hs = g fs)"
  unfolding image_iff eq_commute [of "Some hs"] map_option_eq_Some by auto

lemma write_queue_room:
  assumes "mq_holds bufflen q F" "mq_room bufflen q F (f # gs)"
  shows "\<exists>q'. write_queue q f = Some (Inr (q', KEY_TRUE)) \<and>
              mq_holds bufflen q' (map (map_option (\<lambda>fs. fs @ [f])) F) \<and>
              mq_room bufflen q' (map (map_option (\<lambda>fs. fs @ [f])) F) gs"
proof -
  let ?sz = "dataBuffSize q"
  have f: "wf_frame f" "int (length f) \<le> bufflen" "int (length f) < ?sz"
    and b: "\<And>fs. Some fs \<in> set F \<Longrightarrow> bytes fs + int (length f) + bytes gs < ?sz"
    using assms(2) bytes_nonneg [of gs] by (auto simp: mq_room_def list_all_slots algebra_simps)
  have ex: "no_exact_fill ?sz (int (length f)) fs" if "Some fs \<in> set F" for fs
    using b [OF that] suffix_bytes_le [of _ fs] bytes_nonneg [of gs]
    by (force simp: no_exact_fill_def list_all_iff)
  have "fq_rooms ?sz (int (length f)) F = Some F"
    by (rule fq_rooms_fit) (use b bytes_nonneg [of gs] in force)
  then obtain q' where q': "write_queue q f = Some (Inr (q', KEY_TRUE))" "dataBuffSize q' = ?sz"
      "queue_holds q' (map (map_option (\<lambda>fs. fs @ [f])) F)"
    using write_queue_refines_aux [OF _ f(1,3) ex, of F] assms(1)
    by (auto simp: fq_write_def mq_holds_def)
  moreover have "mq_holds bufflen q' (map (map_option (\<lambda>fs. fs @ [f])) F)"
    using assms(1) f(2) q'(3) by (auto simp: mq_holds_def list_all_slots slots_map)
  moreover have "mq_room bufflen q' (map (map_option (\<lambda>fs. fs @ [f])) F) gs"
    using assms(2) b q'(2) by (auto simp: mq_room_def list_all_slots slots_map algebra_simps)
  ultimately show ?thesis by blast
qed

interpretation mq: frame_queue "mq_holds bufflen" "mq_room bufflen" write_queue
  "\<lambda>q i. read_queue q (int i) bufflen" for bufflen
proof (unfold_locales, goal_cases)
  case (1 q F f gs)
  then show ?case by (rule write_queue_room)
next
  case (2 q F i f fs)
  then have f: "int (length f) \<le> bufflen" "list_all (\<lambda>f. int (length f) \<le> bufflen) fs"
    by (force simp: mq_holds_def list_all_slots in_set_conv_nth)+
  with 2 read_queue_frame [of q F i f fs bufflen] obtain q' where
      "read_queue q (int i) bufflen = Inr (q', Some f)" "queue_holds q' (F[i := Some fs])"
    by (auto simp: mq_holds_def)
  moreover have "\<And>hs. Some hs \<in> set (F[i := Some fs]) \<Longrightarrow> list_all (\<lambda>f. int (length f) \<le> bufflen) hs"
    using 2 f(2) set_update_subset_insert [of F i "Some fs"] by (fastforce simp: mq_holds_def list_all_slots)
  ultimately show ?case by (auto simp: mq_holds_def list_all_slots)
next
  case (3 q F i)
  then show ?case by (intro read_queue_empty) (auto simp: mq_holds_def)
qed

text \<open>
  C2. A write refines the frame queues. On an open queue whose readers hold the frame lists
  \<open>F\<close>, \<open>WriteData\<close> of a well-formed frame that is shorter than the ring either returns KEY_TRUE and
  appends the frame to every reader's list, after dropping from each reader that would be
  overrun everything before its first later key frame that leaves room; or, when some reader that
  would be overrun has no such key frame, ends in the failed assertion of \<open>MoveReadPoint\<close>. The
  search loops always end. The frame must not fill the ring to the last byte.
\<close>

theorem write_queue_refines:
  assumes "queue_holds q F" "wf_frame f" "int (length f) < dataBuffSize q"
    and "\<And>fs. Some fs \<in> set F \<Longrightarrow> no_exact_fill (dataBuffSize q) (int (length f)) fs"
  shows "case fq_write (dataBuffSize q) f F of
           None \<Rightarrow> write_queue q f = Some (Inl AssertFailed)
         | Some G \<Rightarrow> \<exists>q'. write_queue q f = Some (Inr (q', KEY_TRUE)) \<and> queue_holds q' G \<and>
                         dataBuffSize q' = dataBuffSize q"
  by (rule write_queue_refines_aux [OF assms])


definition demo_queue :: QueueHandle_T where
  "demo_queue = \<lparr>queueID = 1, enabled = True, pWrite = Some 0, pRead = [Some 0, None, None, None],
     dataBuff = Some (replicate 100 0), dataBuffSize = 100\<rparr>"

definition demo_video :: QueueVideoInputInfo_T where
  "demo_video = \<lparr>v_fps = 25, v_rcmode = 0, v_frametype = 0x65, v_staty0 = 0, v_width = 1920,
     v_height = 1080, v_bitrate = 4096, v_highPts = 0, v_lowPts = 40\<rparr>"

lemma length_video_frame [simp]: "length (video_frame prm mt d) = 32 + length d"
  by (simp add: video_frame_def media_head_def)

lemma length_audio_frame [simp]: "length (audio_frame prm mt d) = 32 + length d"
  by (simp add: audio_frame_def media_head_def)

lemma hdr_len_payload:
  assumes "length as = 28" "32 + int (length d) < 2 ^ 31"
  shows "hdr_len (as @ wr_i32 (int (length d)) @ d) = 32 + int (length d)"
  using rd_wr_i32 [OF assms(1), of "int (length d)" d] assms(2)
  by (simp add: hdr_len_def to_i32_id)

lemma wf_video_frame:
  assumes "mt = 1 \<or> mt = 2" "32 + int (length d) < 2 ^ 31"
  shows "wf_frame (video_frame prm mt d)"
    "is_key (video_frame prm mt d) \<longleftrightarrow> v_frametype prm \<noteq> 0x61"
proof -
  have "hdr_len (video_frame prm mt d) = 32 + int (length d)"
    unfolding video_frame_def using assms(2) by (intro hdr_len_payload) (simp_all add: media_head_def)
  moreover have "head_ok (video_frame prm mt d)" "is_video (video_frame prm mt d)"
    using assms(1) by (auto simp: video_frame_def media_head_def head_ok_def is_video_def)
  moreover have "not_P_frame (video_frame prm mt d) \<longleftrightarrow> v_frametype prm \<noteq> 0x61"
    by (simp add: video_frame_def media_head_def not_P_frame_def nth_append)
  ultimately show "wf_frame (video_frame prm mt d)"
      "is_key (video_frame prm mt d) \<longleftrightarrow> v_frametype prm \<noteq> 0x61"
    by (auto simp: wf_frame_def is_key_def)
qed

lemma wf_audio_frame:
  assumes "32 + int (length d) < 2 ^ 31"
  shows "wf_frame (audio_frame prm 0x21 d)" "\<not> is_key (audio_frame prm 0x21 d)"
proof -
  have "hdr_len (audio_frame prm 0x21 d) = 32 + int (length d)"
    unfolding audio_frame_def using assms by (intro hdr_len_payload) (simp_all add: media_head_def)
  then show "wf_frame (audio_frame prm 0x21 d)" "\<not> is_key (audio_frame prm 0x21 d)"
    by (auto simp: wf_frame_def is_key_def audio_frame_def media_head_def head_ok_def is_video_def
        is_audio_def)
qed

lemma demo_queue_holds: "queue_holds demo_queue [Some [], None, None, None]"
  by (simp add: demo_queue_def queue_holds_def ring_ok_def reader_at_def avail_def ringrd_def)

theorem write_queue_refines_witness:
  "\<exists>q'. write_queue demo_queue (video_frame demo_video 1 [7]) = Some (Inr (q', KEY_TRUE)) \<and>
        queue_holds q' [Some [video_frame demo_video 1 [7]], None, None, None]"
proof -
  have "no_exact_fill (dataBuffSize demo_queue) (int (length (video_frame demo_video 1 [7]))) fs"
    if "Some fs \<in> set [Some [], None, None, None]" for fs
    using that by (auto simp: no_exact_fill_def demo_queue_def)
  from write_queue_refines [OF demo_queue_holds wf_video_frame(1) _ this] show ?thesis
    by (auto simp: fq_write_def fq_room_def demo_queue_def)
qed

text \<open>
  C3. A read refines the frame queue: from an open queue, \<open>ReadData\<close> on a registered reader
  returns KEY_FALSE and changes nothing when the reader has read everything; otherwise it copies
  exactly the oldest unread frame (header and payload), advances that reader past it and leaves
  the other readers untouched, provided the frame fits the caller's buffer. A frame longer than
  the buffer is refused and the reader stays where it is.
\<close>

theorem read_queue_refines:
  assumes "queue_holds q F" "i < length F" "F ! i = Some fs"
  shows "case fs of
           [] \<Rightarrow> read_queue q (int i) bufflen = Inr (q, None)
         | f # gs \<Rightarrow>
             if int (length f) \<le> bufflen
             then \<exists>q'. read_queue q (int i) bufflen = Inr (q', Some f) \<and> queue_holds q' (F[i := Some gs])
             else read_queue q (int i) bufflen = Inr (q, None)"
proof (cases fs)
  case Nil
  then show ?thesis using read_queue_empty assms by simp
next
  case (Cons f gs)
  then show ?thesis using read_queue_frame [of q F i f gs bufflen] assms by auto
qed

theorem read_queue_refines_witness:
  "read_queue demo_queue 0 1024 = Inr (demo_queue, None)"
  using read_queue_refines [OF demo_queue_holds, of 0 "[]" 1024] by simp

text \<open>
  C4. First in, first out: if the frames \<open>gs\<close> fit behind what every reader still has to read
  (less than the ring size in total), then writing them all succeeds, and a reader that had
  \<open>fs\<close> left reads exactly \<open>fs\<close> followed by \<open>gs\<close>, in order, and then KEY_FALSE.
\<close>

theorem media_queue_fifo:
  assumes "mq_holds bufflen q F" "mq_room bufflen q F gs" "i < length F" "F ! i = Some fs"
  shows "\<exists>q1 q2. writes write_queue q gs = Some (Inr (q1, replicate (length gs) KEY_TRUE)) \<and>
           reads (\<lambda>q i. read_queue q (int i) bufflen) q1 i (Suc (length (fs @ gs))) =
             Inr (q2, map Some (fs @ gs) @ [None])"
  by (rule mq.fifo [OF assms])

theorem media_queue_fifo_witness:
  "\<exists>q1 q2. writes write_queue demo_queue [video_frame demo_video 1 [7], video_frame demo_video 2 [8, 9]] =
             Some (Inr (q1, [KEY_TRUE, KEY_TRUE])) \<and>
           reads (\<lambda>q i. read_queue q (int i) 1024) q1 0 3 =
             Inr (q2, [Some (video_frame demo_video 1 [7]), Some (video_frame demo_video 2 [8, 9]), None])"
proof -
  have h: "mq_holds 1024 demo_queue [Some [], None, None, None]"
    using demo_queue_holds by (simp add: mq_holds_def)
  have r: "mq_room 1024 demo_queue [Some [], None, None, None]
             [video_frame demo_video 1 [7], video_frame demo_video 2 [8, 9]]"
    by (simp add: mq_room_def wf_video_frame demo_queue_def)
  show ?thesis using media_queue_fifo [OF h r, of 0 "[]"] by (simp add: numeral_eq_Suc)
qed

text \<open>
  The full ring looks empty (a defect of the code): if a frame fills the ring to the last
  byte without wrapping, \<open>WriteData\<close> returns KEY_TRUE, but the write pointer lands on the read
  pointer, so the reader loses every unread frame and the new one.
\<close>

theorem exact_fill_loses_frames:
  assumes "queue_holds q [Some fs, None, None, None]" "pWrite q = Some w" "wf_frame f"
    and "int (length f) < dataBuffSize q" "bytes fs + int (length f) = dataBuffSize q"
    and "w + int (length f) \<le> dataBuffSize q"
  shows "\<exists>q'. write_queue q f = Some (Inr (q', KEY_TRUE)) \<and>
              queue_holds q' [Some [], None, None, None] \<and> fs \<noteq> []"
proof -
  let ?sz = "dataBuffSize q" and ?len = "int (length f)"
  obtain buf where b: "dataBuff q = Some buf" "enabled q" and ring: "ring_ok buf ?sz w"
    and rs: "list_all2 (reader_ok buf ?sz w) (pRead q) [Some fs, None, None, None]"
    using assms(1,2) by (rule_tac queue_holdsE) auto
  obtain p where p: "pRead q = [Some p, None, None, None]" "reader_at buf ?sz w p fs"
    using rs by (auto simp: list_all2_Cons2 elim!: reader_ok.elims)
  have szp: "?sz > 0" "length buf = nat ?sz" "0 \<le> w" "w < ?sz" "0 \<le> p" "p \<le> ?sz"
    using ring p(2) by (auto simp: ring_ok_def reader_at_def)
  obtain buf' where buf': "mem_write buf w f = Inr buf'" "length buf' = nat ?sz"
    using written_contig [of buf ?sz w f] szp assms(6) by (auto simp: written_def)
  have a: "int (avail ?sz p w) + ?len = ?sz" using avail_bytes [OF p(2)] assms(5) by simp
  have nohit: "\<not> (p > w \<and> p < w + ?len)" using a assms(6) szp by (auto simp: avail_def split: if_splits)
  have m: "(w + ?len) mod ?sz = (if w + ?len < ?sz then w + ?len else w + ?len - ?sz)"
    using szp assms(4) by (intro mod_wrap) auto
  have "avail ?sz p ((w + ?len) mod ?sz) = 0"
    using a assms(6) szp m by (auto simp: avail_def split: if_splits)
  then have "reader_at buf' ?sz ((w + ?len) mod ?sz) p []"
    using szp by (simp add: reader_at_def ringrd_def)
  then show ?thesis using b p(1) assms(2,4,5,6) buf' nohit szp
    by (auto simp: write_queue_def Let_def queue_holds_def ring_ok_def)
qed

theorem exact_fill_loses_frames_witness:
  "\<exists>q q'. queue_holds q [Some [video_frame demo_video 1 [7]], None, None, None] \<and>
          write_queue q (video_frame demo_video 1 (replicate 35 0)) = Some (Inr (q', KEY_TRUE)) \<and>
          queue_holds q' [Some [], None, None, None]"
proof -
  let ?f = "video_frame demo_video 1 [7]" and ?g = "video_frame demo_video 1 (replicate 35 0)"
  let ?q = "demo_queue\<lparr>dataBuff := Some (?f @ replicate 67 0), pWrite := Some 33\<rparr>"
  have rr: "ringrd 100 (?f @ replicate 67 0) 0 33 = ?f"
    using ringrd_contig [of "?f @ replicate 67 0" 100 0 33] by simp
  then have h: "queue_holds ?q [Some [?f], None, None, None]"
    using wf_video_frame(1) [of 1 "[7]" demo_video]
    by (simp add: demo_queue_def queue_holds_def ring_ok_def reader_at_def avail_def)
  have "wf_frame ?g" by (intro wf_video_frame) simp_all
  from exact_fill_loses_frames [OF h _ this] h show ?thesis
    by (auto simp: demo_queue_def)
qed

section \<open>From the module interface\<close>

lemma writes_array:
  assumes "0 \<le> qid" "qid < int QUEUE_CHN_MAX" "length qs = QUEUE_CHN_MAX"
    and "\<And>d. d \<in> set ds \<Longrightarrow> 32 + length d \<le> 400 * 1024"
    and "writes write_queue (qs ! nat qid) (map (video_frame prm mt) ds) = Some (Inr (q', rs))"
  shows "writes (\<lambda>qs d. WriteVideoRawData qs qid d prm mt) qs ds =
           Some (Inr (qs[nat qid := q'], replicate (length ds) KEY_TRUE))"
  using assms
proof (induction ds arbitrary: qs rs)
  case (Cons d ds)
  obtain q1 r1 where w: "write_queue (qs ! nat qid) (video_frame prm mt d) = Some (Inr (q1, r1))"
    using Cons.prems(5) by (auto simp: outcome_iff)
  with Cons.prems obtain rs1 where
      "writes write_queue q1 (map (video_frame prm mt) ds) = Some (Inr (q', rs1))"
    by (auto simp: outcome_iff)
  with Cons.IH [of "qs[nat qid := q1]" rs1] Cons.prems(1-4) w show ?case
    by (auto simp: WriteVideoRawData_def WriteData_def queue_at_def not_less)
qed auto

lemma reads_array:
  assumes "0 \<le> qid" "qid < int QUEUE_CHN_MAX" "length qs = QUEUE_CHN_MAX"
    and "reads (\<lambda>q i. read_queue q (int i) bufflen) (qs ! nat qid) rid n = Inr (q', rs)"
  shows "reads (\<lambda>qs i. ReadData qs (int i) qid bufflen) qs rid n = Inr (qs[nat qid := q'], rs)"
  using assms
proof (induction n arbitrary: qs rs)
  case (Suc n)
  obtain q1 r1 where w: "read_queue (qs ! nat qid) (int rid) bufflen = Inr (q1, r1)"
    using Suc.prems(4) by (auto simp: outcome_iff)
  with Suc.prems obtain rs1 where
      "reads (\<lambda>q i. read_queue q (int i) bufflen) q1 rid n = Inr (q', rs1)" "rs = r1 # rs1"
    by (auto simp: outcome_iff)
  with Suc.IH [of "qs[nat qid := q1]" rs1] Suc.prems(1-3) w show ?case
    by (auto simp: ReadData_def queue_at_def)
qed auto

lemma GetQueueID_free:
  assumes "GetQueueID qs \<noteq> - 1"
  shows "1 \<le> GetQueueID qs" "GetQueueID qs < int QUEUE_CHN_MAX" "\<not> enabled (qs ! nat (GetQueueID qs))"
proof -
  obtain i where "find (\<lambda>i. \<not> enabled (qs ! i)) [1..<QUEUE_CHN_MAX] = Some i" "GetQueueID qs = int i"
    using assms by (auto simp: GetQueueID_def split: option.splits)
  then show "1 \<le> GetQueueID qs" "GetQueueID qs < int QUEUE_CHN_MAX" "\<not> enabled (qs ! nat (GetQueueID qs))"
    using find_SomeD [of "\<lambda>i. \<not> enabled (qs ! i)" "[1..<QUEUE_CHN_MAX]" i] by auto
qed

lemma first_free_all [simp]: "first_free (replicate QUEUE_USE_MAX None) = 0"
  by (simp add: first_free_def upt_conv_Cons numeral_eq_Suc)

text \<open>Opening a queue and registering its first reader.\<close>

lemma open_register:
  assumes "length qs = QUEUE_CHN_MAX" "GetQueueID qs \<noteq> - 1" "0 < sz"
  shows "\<exists>qs1 q. CreateQueue qs sz True = Inr (qs1, GetQueueID qs) \<and>
           MediaQueueRegistReadHandle qs1 (Some (h\<lparr>rh_queueID := GetQueueID qs\<rparr>)) =
             Inr (qs[nat (GetQueueID qs) := q],
                  Some (h\<lparr>rh_queueID := GetQueueID qs, rh_registerID := 0, rh_readData := True\<rparr>), 0) \<and>
           dataBuffSize q = sz \<and> mq_holds bufflen q [Some [], None, None, None]"
proof -
  note g = GetQueueID_free [OF assms(2)]
  let ?q = "(qs ! nat (GetQueueID qs))\<lparr>dataBuff := Some (replicate (nat sz) 0), enabled := True,
                  dataBuffSize := sz, pWrite := Some 0, pRead := replicate QUEUE_USE_MAX None\<rparr>"
  have c: "CreateQueue qs sz True = Inr (qs[nat (GetQueueID qs) := ?q], GetQueueID qs)"
    using g assms by (simp add: CreateQueue_def queue_at_def Let_def)
  have "reader_at (replicate (nat sz) 0) sz 0 0 []"
    using assms(3) by (simp add: reader_at_def avail_def ringrd_def)
  then have "mq_holds bufflen (?q\<lparr>pRead := [Some 0, None, None, None]\<rparr>) [Some [], None, None, None]"
    using assms(3) by (simp add: mq_holds_def queue_holds_def ring_ok_def)
  moreover have "MediaQueueRegistReadHandle (qs[nat (GetQueueID qs) := ?q]) (Some (h\<lparr>rh_queueID := GetQueueID qs\<rparr>)) =
             Inr (qs[nat (GetQueueID qs) := ?q\<lparr>pRead := [Some 0, None, None, None]\<rparr>],
                  Some (h\<lparr>rh_queueID := GetQueueID qs, rh_registerID := 0, rh_readData := True\<rparr>), 0)"
    using g(1,2) assms(1)
    by (simp add: MediaQueueRegistReadHandle_def queue_at_def del: replicate.simps)
       (simp add: numeral_eq_Suc)
  moreover have "dataBuffSize (?q\<lparr>pRead := [Some 0, None, None, None]\<rparr>) = sz" by simp
  ultimately show ?thesis using c by blast
qed

lemma bytes_map_video: "bytes (map (video_frame prm mt) ds) = int (\<Sum>d\<leftarrow>ds. 32 + length d)"
  by (induction ds) (simp_all add: bytes_def)

text \<open>
  The life of a stream at the module's interface: if a queue id is free, \<open>CreateQueue\<close> (with
  \<^verbatim>\<open>malloc\<close> succeeding) opens it, the first registered reader gets slot 0, and video payloads \<open>ds\<close>
  that together with their headers are smaller than the ring, written by
  \<open>WriteVideoRawData\<close>, are read by \<open>ReadData\<close> as exactly these frames, in order; then the reader gets
  KEY_FALSE. No other queue of the table changes.
\<close>

theorem video_stream_roundtrip:
  assumes "length qs = QUEUE_CHN_MAX" "GetQueueID qs \<noteq> - 1" "mt = 1 \<or> mt = 2"
    and "\<And>d. d \<in> set ds \<Longrightarrow> 32 + length d \<le> 400 * 1024 \<and> 32 + int (length d) \<le> bufflen"
    and "int (\<Sum>d\<leftarrow>ds. 32 + length d) < sz"
  shows "\<exists>qs1 qs2 qs3 qs4 qid h'. CreateQueue qs sz True = Inr (qs1, qid) \<and>
           MediaQueueRegistReadHandle qs1 (Some (h\<lparr>rh_queueID := qid\<rparr>)) = Inr (qs2, Some h', 0) \<and>
           rh_registerID h' = 0 \<and>
           writes (\<lambda>qs d. WriteVideoRawData qs qid d prm mt) qs2 ds =
             Some (Inr (qs3, replicate (length ds) KEY_TRUE)) \<and>
           reads (\<lambda>qs i. ReadData qs (int i) qid bufflen) qs3 0 (Suc (length ds)) =
             Inr (qs4, map (\<lambda>d. Some (video_frame prm mt d)) ds @ [None]) \<and>
           (\<forall>j. j \<noteq> nat qid \<longrightarrow> qs4 ! j = qs ! j)"
proof -
  let ?i = "GetQueueID qs" and ?fs = "map (video_frame prm mt) ds"
  note g = GetQueueID_free [OF assms(2)]
  have "0 < sz" using assms(5) by (smt (verit) of_nat_0_le_iff)
  from open_register [OF assms(1,2) this, of h bufflen] obtain qs1 q where
      c: "CreateQueue qs sz True = Inr (qs1, ?i)"
         "MediaQueueRegistReadHandle qs1 (Some (h\<lparr>rh_queueID := ?i\<rparr>)) =
           Inr (qs[nat ?i := q], Some (h\<lparr>rh_queueID := ?i, rh_registerID := 0, rh_readData := True\<rparr>), 0)"
      and q: "dataBuffSize q = sz" "mq_holds bufflen q [Some [], None, None, None]" by blast
  have "mq_room bufflen q [Some [], None, None, None] ?fs"
    using assms(3,5) q(1) assms(4) by (fastforce simp: mq_room_def bytes_map_video list_all_iff intro!: wf_video_frame)
  from mq.fifo [OF q(2) this, of 0 "[]"] obtain q1 q2 rs where
      w: "writes write_queue q ?fs = Some (Inr (q1, rs))"
      and r: "reads (\<lambda>q i. read_queue q (int i) bufflen) q1 0 (Suc (length ds)) =
              Inr (q2, map Some ?fs @ [None])" by auto
  have qi: "0 \<le> ?i" "(qs[nat ?i := q]) ! nat ?i = q" "(qs[nat ?i := q1]) ! nat ?i = q1"
    using g(1,2) assms(1) by auto
  have w': "writes (\<lambda>qs d. WriteVideoRawData qs ?i d prm mt) (qs[nat ?i := q]) ds =
      Some (Inr ((qs[nat ?i := q])[nat ?i := q1], replicate (length ds) KEY_TRUE))"
    by (rule writes_array [OF qi(1) g(2)]) (use assms(1,4) qi(2) w in auto)
  have r': "reads (\<lambda>qs i. ReadData qs (int i) ?i bufflen) (qs[nat ?i := q1]) 0 (Suc (length ds)) =
      Inr ((qs[nat ?i := q1])[nat ?i := q2], map Some ?fs @ [None])"
    by (rule reads_array [OF qi(1) g(2)]) (use assms(1) qi(3) r in auto)
  show ?thesis
    by (rule exI [of _ qs1], rule exI [of _ "qs[nat ?i := q]"], rule exI [of _ "qs[nat ?i := q1]"],
        rule exI [of _ "qs[nat ?i := q2]"], rule exI [of _ ?i]) (use c w' r' in auto)
qed

definition demo_reader :: MediaQueueRegistHandle_T where
  "demo_reader = \<lparr>rh_readData = False, rh_registerID = - 1, rh_queueID = 0\<rparr>"

theorem video_stream_roundtrip_witness:
  "\<exists>qs1 qs2 qs3 qs4 qid h'.
     CreateQueue (fst (MediaQueueInit [] (Some \<lparr>installed = False\<rparr>))) 100 True = Inr (qs1, qid) \<and>
     MediaQueueRegistReadHandle qs1 (Some (demo_reader\<lparr>rh_queueID := qid\<rparr>)) = Inr (qs2, Some h', 0) \<and>
     writes (\<lambda>qs d. WriteVideoRawData qs qid d demo_video 1) qs2 [[7], [8, 9]] =
       Some (Inr (qs3, [KEY_TRUE, KEY_TRUE])) \<and>
     reads (\<lambda>qs i. ReadData qs (int i) qid 1024) qs3 0 3 =
       Inr (qs4, [Some (video_frame demo_video 1 [7]), Some (video_frame demo_video 1 [8, 9]), None])"
proof -
  let ?qs = "fst (MediaQueueInit [] (Some \<lparr>installed = False\<rparr>))"
  have l: "length ?qs = QUEUE_CHN_MAX" by (simp add: MediaQueueInit_def)
  have "[1..<QUEUE_CHN_MAX] = 1 # [Suc 1..<QUEUE_CHN_MAX]" by (rule upt_conv_Cons) simp
  then have "GetQueueID ?qs = 1" by (simp add: GetQueueID_def MediaQueueInit_def del: upt_Suc One_nat_def upt_rec_numeral)
  then have i: "GetQueueID ?qs \<noteq> - 1" by simp
  have n: "Suc (length [[7], [8, 9 :: byte]]) = 3"
      "replicate (length [[7], [8, 9 :: byte]]) KEY_TRUE = [KEY_TRUE, KEY_TRUE]"
      "map (\<lambda>d. Some (video_frame demo_video 1 d)) [[7], [8, 9]] @ [None] =
       [Some (video_frame demo_video 1 [7]), Some (video_frame demo_video 1 [8, 9]), None]"
    by simp_all
  have "\<And>d. d \<in> set [[7], [8, 9 :: byte]] \<Longrightarrow> 32 + length d \<le> 400 * 1024 \<and> 32 + int (length d) \<le> 1024"
      "int (\<Sum>d\<leftarrow>[[7], [8, 9 :: byte]]. 32 + length d) < 100"
    by auto
  from video_stream_roundtrip [OF l i _ this, of 1 demo_reader demo_video]
  show ?thesis unfolding n by blast
qed

end
