(* ===== verification/HandleManage.thy ===== *)
theory HandleManage
  imports Prelude
begin

text \<open>
  \<^verbatim>\<open>src/Modules/HandleManage/handlemanage.c\<close>: the doubly linked handle list that the user,
  device, alarm, adapter, vehicle and web-server modules keep their records in.

  The nodes live in an explicit store from addresses to nodes (address 0 is NULL), every
  assignment through a pointer is a store update, and \<^verbatim>\<open>free\<close> removes the cell, so that a
  use after free is a \<open>BadPointer\<close> fault. \<^verbatim>\<open>malloc\<close> is the argument \<open>newNode\<close>, the
  address it returned. Each operation holds \<^verbatim>\<open>selfMutex\<close> from its first to its last access,
  so an operation is one atomic step and an interleaving of callers is a sequence of
  operations.

  The lemmas show that every operation implements the corresponding list operation on
  \<open>dll\<close>, the list of (node, handle) pairs the store holds. The locale \<open>handle_list\<close> is the
  contract the other modules rely on, and it is interpreted on these definitions.
\<close>

section \<open>Nodes and the store\<close>

record HandleManage_T =
  hm_handle :: nat
  hm_next :: nat
  hm_pre :: nat

type_synonym hm_heap = "nat \<rightharpoonup> HandleManage_T"

definition hm_load :: "hm_heap \<Rightarrow> nat \<Rightarrow> fault + HandleManage_T" where
  "hm_load h p = (if p = 0 then Inl NullDeref
                  else case h p of None \<Rightarrow> Inl BadPointer | Some n \<Rightarrow> Inr n)"

definition hm_set_next :: "hm_heap \<Rightarrow> nat \<Rightarrow> nat \<Rightarrow> fault + hm_heap" where
  "hm_set_next h p q = rbind (hm_load h p) (\<lambda>n. Inr (h(p \<mapsto> n\<lparr>hm_next := q\<rparr>)))"

definition hm_set_pre :: "hm_heap \<Rightarrow> nat \<Rightarrow> nat \<Rightarrow> fault + hm_heap" where
  "hm_set_pre h p q = rbind (hm_load h p) (\<lambda>n. Inr (h(p \<mapsto> n\<lparr>hm_pre := q\<rparr>)))"

text \<open>The three assignments to a fresh node, \<^verbatim>\<open>newNode->pre/next/handle\<close>.\<close>

definition hm_fill :: "hm_heap \<Rightarrow> nat \<Rightarrow> nat \<Rightarrow> nat \<Rightarrow> nat \<Rightarrow> fault + hm_heap" where
  "hm_fill h p pr nx v = (if p = 0 then Inl NullDeref
     else Inr (h(p \<mapsto> \<lparr>hm_handle = v, hm_next = nx, hm_pre = pr\<rparr>)))"

section \<open>The operations\<close>

definition HandleManageInitHead :: "hm_heap \<Rightarrow> nat \<Rightarrow> fault + (hm_heap \<times> int)" where
  "HandleManageInitHead h head =
     (if head = 0 then Inr (h, KEY_FALSE)
      else rbind (hm_fill h head 0 0 0) (\<lambda>h. Inr (h, KEY_TRUE)))"

text \<open>The search loop of \<open>HandleManageDelHandle\<close>: the first node with the handle, or NULL.\<close>

partial_function (option) hm_find :: "hm_heap \<Rightarrow> nat \<Rightarrow> nat \<Rightarrow> nat run" where
  "hm_find h hdl cur =
     (if cur = 0 then Some (Inr 0)
      else case hm_load h cur of
        Inl e \<Rightarrow> Some (Inl e)
      | Inr n \<Rightarrow> if hdl = hm_handle n then Some (Inr cur) else hm_find h hdl (hm_next n))"

text \<open>The body of its \<^verbatim>\<open>if\<close>: unlink the node, clear it and free it.\<close>

definition hm_unlink :: "hm_heap \<Rightarrow> nat \<Rightarrow> fault + hm_heap" where
  "hm_unlink h cur =
     rbind (hm_load h cur) (\<lambda>n.
     rbind (hm_set_next h (hm_pre n) (hm_next n)) (\<lambda>h.
     rbind (if hm_next n \<noteq> 0 then hm_set_pre h (hm_next n) (hm_pre n) else Inr h) (\<lambda>h.
     rbind (hm_set_next h cur 0) (\<lambda>h.
     rbind (hm_set_pre h cur 0) (\<lambda>h.
     Inr (h(cur := None)))))))"

definition HandleManageDelHandle :: "hm_heap \<Rightarrow> nat \<Rightarrow> nat \<Rightarrow> (hm_heap \<times> int) run" where
  "HandleManageDelHandle h head hdl =
     (if head = 0 \<or> hdl = 0 then Some (Inr (h, KEY_FALSE))
      else run_bind (Some (hm_load h head)) (\<lambda>hd.
           run_bind (hm_find h hdl (hm_next hd)) (\<lambda>cur.
             if cur = 0 then Some (Inr (h, KEY_FALSE))
             else Some (rbind (hm_unlink h cur) (\<lambda>h. Inr (h, KEY_TRUE))))))"

text \<open>\<^verbatim>\<open>for(cur = head;cur->next!= NULL;cur = cur->next);\<close>\<close>

partial_function (option) hm_last :: "hm_heap \<Rightarrow> nat \<Rightarrow> nat run" where
  "hm_last h cur =
     (case hm_load h cur of
        Inl e \<Rightarrow> Some (Inl e)
      | Inr n \<Rightarrow> if hm_next n = 0 then Some (Inr cur) else hm_last h (hm_next n))"

definition HandleManageAddHandle :: "hm_heap \<Rightarrow> nat \<Rightarrow> nat \<Rightarrow> nat \<Rightarrow> (hm_heap \<times> int) run" where
  "HandleManageAddHandle h head hdl newNode =
     (if head = 0 \<or> hdl = 0 then Some (Inr (h, KEY_FALSE))
      else run_bind (hm_last h head) (\<lambda>cur.
             Some (rbind (hm_set_next h cur newNode) (\<lambda>h.
                   rbind (hm_fill h newNode cur 0 hdl) (\<lambda>h. Inr (h, KEY_TRUE))))))"

definition HandleManageAddHandle1 ::
    "hm_heap \<Rightarrow> nat \<Rightarrow> nat \<Rightarrow> nat \<Rightarrow> fault + (hm_heap \<times> int)" where
  "HandleManageAddHandle1 h head hdl newNode =
     (if head = 0 \<or> hdl = 0 then Inr (h, KEY_FALSE)
      else rbind (hm_load h head) (\<lambda>hd.
        if hm_next hd \<noteq> 0 then
          rbind (hm_fill h newNode head (hm_next hd) hdl) (\<lambda>h.
          rbind (hm_set_next h head newNode) (\<lambda>h.
          rbind (hm_set_pre h (hm_next hd) newNode) (\<lambda>h. Inr (h, KEY_TRUE))))
        else
          rbind (hm_fill h newNode head 0 hdl) (\<lambda>h.
          rbind (hm_set_next h head newNode) (\<lambda>h. Inr (h, KEY_TRUE)))))"

definition HandleManageGetNextHandle :: "hm_heap \<Rightarrow> nat \<Rightarrow> fault + nat" where
  "HandleManageGetNextHandle h head =
     (if head = 0 then Inr 0
      else rbind (hm_load h head) (\<lambda>hd.
        if hm_next hd = 0 then Inr 0
        else rbind (hm_load h (hm_next hd)) (\<lambda>n. Inr (hm_handle n))))"

partial_function (option) hm_count :: "hm_heap \<Rightarrow> nat \<Rightarrow> int \<Rightarrow> int run" where
  "hm_count h cur count =
     (case hm_load h cur of
        Inl e \<Rightarrow> Some (Inl e)
      | Inr n \<Rightarrow> if hm_next n = 0 then Some (Inr count) else hm_count h (hm_next n) (count + 1))"

definition HandleManageGetUsrCount :: "hm_heap \<Rightarrow> nat \<Rightarrow> int run" where
  "HandleManageGetUsrCount h head =
     (if head = 0 then Some (Inr KEY_FALSE) else hm_count h head 0)"

text \<open>
  The callback of \<open>HandleManagePostLoop\<close> works on the caller's memory, a state \<open>'s\<close> that the
  loop threads through; it does not touch the list's own nodes.
\<close>

partial_function (option) hm_loop :: "hm_heap \<Rightarrow> (nat \<Rightarrow> 's \<Rightarrow> 's) \<Rightarrow> nat \<Rightarrow> 's \<Rightarrow> 's run" where
  "hm_loop h f cur s =
     (if cur = 0 then Some (Inr s)
      else case hm_load h cur of
        Inl e \<Rightarrow> Some (Inl e)
      | Inr n \<Rightarrow> hm_loop h f (hm_next n) (f (hm_handle n) s))"

definition HandleManagePostLoop ::
    "hm_heap \<Rightarrow> nat \<Rightarrow> (nat \<Rightarrow> 's \<Rightarrow> 's) option \<Rightarrow> 's \<Rightarrow> ('s \<times> int) run" where
  "HandleManagePostLoop h head fo s =
     (if head = 0 then Some (Inr (s, KEY_FALSE))
      else case fo of
        None \<Rightarrow> Some (Inr (s, KEY_FALSE))
      | Some f \<Rightarrow>
          run_bind (Some (hm_load h head)) (\<lambda>hd.
          run_bind (hm_loop h f (hm_next hd) s) (\<lambda>s. Some (Inr (s, KEY_TRUE)))))"

text \<open>
  The lookup macros \<open>HandleManageGetHandleByInt\<close> and \<open>HandleManageGetHandleByStr\<close> compare a
  member of the record behind each handle with a value; \<open>P\<close> is that comparison.
\<close>

partial_function (option) hm_lookup :: "hm_heap \<Rightarrow> (nat \<Rightarrow> bool) \<Rightarrow> nat \<Rightarrow> nat run" where
  "hm_lookup h P cur =
     (if cur = 0 then Some (Inr 0)
      else case hm_load h cur of
        Inl e \<Rightarrow> Some (Inl e)
      | Inr n \<Rightarrow> if P (hm_handle n) then Some (Inr (hm_handle n)) else hm_lookup h P (hm_next n))"

definition HandleManageGetHandleBy :: "hm_heap \<Rightarrow> nat \<Rightarrow> (nat \<Rightarrow> bool) \<Rightarrow> nat run" where
  "HandleManageGetHandleBy h head P =
     (if head = 0 then Some (Inr 0)
      else run_bind (Some (hm_load h head)) (\<lambda>hd. hm_lookup h P (hm_next hd)))"

section \<open>The list a store holds\<close>

text \<open>
  \<open>seg h q p xs\<close>: starting at \<open>p\<close>, whose predecessor is \<open>q\<close>, the store holds exactly the nodes
  of \<open>xs\<close>, each with its address and handle, the last one with a NULL successor.
\<close>

fun seg :: "hm_heap \<Rightarrow> nat \<Rightarrow> nat \<Rightarrow> (nat \<times> nat) list \<Rightarrow> bool" where
  "seg h q p [] = (p = 0)"
| "seg h q p (x # xs) =
     (p = fst x \<and> p \<noteq> 0 \<and> snd x \<noteq> 0 \<and>
      (case h p of None \<Rightarrow> False
       | Some n \<Rightarrow> hm_handle n = snd x \<and> hm_pre n = q \<and> seg h p (hm_next n) xs))"

definition dll :: "hm_heap \<Rightarrow> nat \<Rightarrow> (nat \<times> nat) list \<Rightarrow> bool" where
  "dll h head xs \<longleftrightarrow> head \<noteq> 0 \<and> distinct (head # map fst xs) \<and>
     (case h head of None \<Rightarrow> False | Some n \<Rightarrow> seg h head (hm_next n) xs)"


lemma hm_load_simps [simp]:
  "hm_load h 0 = Inl NullDeref"
  "p \<noteq> 0 \<Longrightarrow> h p = Some n \<Longrightarrow> hm_load h p = Inr n"
  by (simp_all add: hm_load_def)

lemma seg_nonnull: "seg h q p xs \<Longrightarrow> 0 \<notin> fst ` set xs \<and> 0 \<notin> snd ` set xs"
  by (induction xs arbitrary: q p) (auto split: option.splits)

lemma seg_cell: "seg h q p xs \<Longrightarrow> a \<in> fst ` set xs \<Longrightarrow> \<exists>n. h a = Some n"
  by (induction xs arbitrary: q p) (auto split: option.splits)

lemma seg_frame:
  "seg h q p xs \<Longrightarrow> (\<And>a. a \<in> fst ` set xs \<Longrightarrow> h' a = h a) \<Longrightarrow> seg h' q p xs"
  by (induction xs arbitrary: q p) (auto split: option.splits)

lemma seg_pre_change:
  assumes "seg h q p (x # xs)" and "distinct (map fst (x # xs))" and "h p = Some n"
  shows "seg (h(p \<mapsto> n\<lparr>hm_pre := r\<rparr>)) r p (x # xs)"
proof -
  have s: "seg h p (hm_next n) xs" and p: "p = fst x" "p \<noteq> 0" "snd x \<noteq> 0" "hm_handle n = snd x"
    using assms(1,3) by auto
  have "seg (h(p \<mapsto> n\<lparr>hm_pre := r\<rparr>)) p (hm_next n) xs"
    using assms(2) p(1) by (intro seg_frame [OF s]) (metis distinct.simps(2) fun_upd_other list.map(2) list.set_map)
  then show ?thesis using p by simp
qed

section \<open>Each loop returns what the list says\<close>

lemma hm_find_seg:
  "seg h q p xs \<Longrightarrow>
   hm_find h v p = Some (Inr (case find (\<lambda>x. snd x = v) xs of None \<Rightarrow> 0 | Some x \<Rightarrow> fst x))"
proof (induction xs arbitrary: q p)
  case Nil
  then show ?case by (simp add: hm_find.simps)
next
  case (Cons x xs)
  then obtain n where "p = fst x" "p \<noteq> 0" "h p = Some n" "hm_handle n = snd x"
      and s: "seg h p (hm_next n) xs"
    by (auto split: option.splits)
  then show ?case using Cons.IH [OF s] by (simp add: hm_find.simps [of h v "fst x"])
qed

lemma hm_lookup_seg:
  "seg h q p xs \<Longrightarrow>
   hm_lookup h P p = Some (Inr (case find P (map snd xs) of None \<Rightarrow> 0 | Some v \<Rightarrow> v))"
proof (induction xs arbitrary: q p)
  case Nil
  then show ?case by (simp add: hm_lookup.simps)
next
  case (Cons x xs)
  then obtain n where "p = fst x" "p \<noteq> 0" "h p = Some n" "hm_handle n = snd x"
      and s: "seg h p (hm_next n) xs"
    by (auto split: option.splits)
  then show ?case using Cons.IH [OF s] by (simp add: hm_lookup.simps [of h P "fst x"])
qed

lemma hm_loop_seg: "seg h q p xs \<Longrightarrow> hm_loop h f p s = Some (Inr (fold f (map snd xs) s))"
proof (induction xs arbitrary: q p s)
  case Nil
  then show ?case by (simp add: hm_loop.simps)
next
  case (Cons x xs)
  then obtain n where "p = fst x" "p \<noteq> 0" "h p = Some n" "hm_handle n = snd x"
      and s: "seg h p (hm_next n) xs"
    by (auto split: option.splits)
  then show ?case using Cons.IH [OF s] by (simp add: hm_loop.simps [of h f "fst x"])
qed

lemma hm_last_seg:
  "q \<noteq> 0 \<Longrightarrow> h q = Some n \<Longrightarrow> seg h q (hm_next n) xs \<Longrightarrow>
   hm_last h q = Some (Inr (last (q # map fst xs)))"
proof (induction xs arbitrary: q n)
  case Nil
  then show ?case by (simp add: hm_last.simps)
next
  case (Cons x xs)
  then obtain m where m: "hm_next n = fst x" "hm_next n \<noteq> 0" "h (hm_next n) = Some m"
      and s: "seg h (hm_next n) (hm_next m) xs"
    by (auto split: option.splits)
  show ?case
    using Cons.IH [OF m(2,3) s] Cons.prems(1,2) m(1,2) by (simp add: hm_last.simps [of h q])
qed

lemma hm_count_seg:
  "q \<noteq> 0 \<Longrightarrow> h q = Some n \<Longrightarrow> seg h q (hm_next n) xs \<Longrightarrow>
   hm_count h q c = Some (Inr (c + int (length xs)))"
proof (induction xs arbitrary: q n c)
  case Nil
  then show ?case by (simp add: hm_count.simps)
next
  case (Cons x xs)
  then obtain m where m: "hm_next n = fst x" "hm_next n \<noteq> 0" "h (hm_next n) = Some m"
      and s: "seg h (hm_next n) (hm_next m) xs"
    by (auto split: option.splits)
  show ?case
    using Cons.IH [OF m(2,3) s, of "c + 1"] Cons.prems(1,2) m(1,2)
    by (simp add: hm_count.simps [of h q])
qed

section \<open>Appending and unlinking a node\<close>

lemma seg_snoc:
  assumes "h q = Some n" "seg h q (hm_next n) xs" "distinct (q # map fst xs)"
    and "a \<noteq> 0" "v \<noteq> 0" "a \<notin> insert q (fst ` set xs)"
    and "z = last (q # map fst xs)" "h z = Some m"
    and "h' = h(z \<mapsto> m\<lparr>hm_next := a\<rparr>, a \<mapsto> \<lparr>hm_handle = v, hm_next = 0, hm_pre = z\<rparr>)"
  shows "\<exists>n'. h' q = Some n' \<and> hm_handle n' = hm_handle n \<and> hm_pre n' = hm_pre n \<and>
              seg h' q (hm_next n') (xs @ [(a, v)])"
  using assms
proof (induction xs arbitrary: q n)
  case Nil
  then show ?case by simp
next
  case (Cons x xs)
  then obtain k where k: "hm_next n = fst x" "hm_next n \<noteq> 0" "snd x \<noteq> 0"
      "h (hm_next n) = Some k" "hm_handle k = snd x" "hm_pre k = q"
      and s: "seg h (hm_next n) (hm_next k) xs"
    by (auto split: option.splits)
  have "\<exists>n'. h' (hm_next n) = Some n' \<and> hm_handle n' = hm_handle k \<and> hm_pre n' = hm_pre k \<and>
             seg h' (hm_next n) (hm_next n') (xs @ [(a, v)])"
    using Cons.prems k by (intro Cons.IH [OF k(4) s]) auto
  moreover have "z \<noteq> q"
    using Cons.prems by (metis distinct.simps(2) last.simps last_in_set list.map(2) list.simps(3))
  then have "h' q = Some n" using Cons.prems by auto
  ultimately show ?case using k by auto
qed

lemma seg_unlink:
  assumes "q \<noteq> 0" "h q = Some n" "seg h q (hm_next n) xs" "distinct (q # map fst xs)"
    and "x \<in> set xs"
  shows "\<exists>h' p'. hm_unlink h (fst x) = Inr h' \<and> h' q = Some (n\<lparr>hm_next := p'\<rparr>) \<and>
           seg h' q p' (remove1 x xs) \<and> h' (fst x) = None \<and>
           (\<forall>r. r \<notin> insert q (fst ` set xs) \<longrightarrow> h' r = h r)"
  using assms
proof (induction xs arbitrary: q n)
  case Nil
  then show ?case by simp
next
  case (Cons y xs)
  then obtain k where k: "hm_next n = fst y" "hm_next n \<noteq> 0" "snd y \<noteq> 0"
      "h (hm_next n) = Some k" "hm_handle k = snd y" "hm_pre k = q"
      and s: "seg h (fst y) (hm_next k) xs"
    by (auto split: option.splits)
  show ?case
  proof (cases "x = y")
    case True
    define h1 where "h1 = h(q \<mapsto> n\<lparr>hm_next := hm_next k\<rparr>)"
    have s1: "seg h1 (fst y) (hm_next k) xs"
      using s Cons.prems(4) by (intro seg_frame [OF s]) (auto simp: h1_def)
    show ?thesis
    proof (cases xs)
      case Nil
      with s have "hm_next k = 0" by simp
      then show ?thesis using True Nil k Cons.prems
        by (auto simp: hm_unlink_def hm_set_next_def hm_set_pre_def)
    next
      case (Cons w ws)
      with s obtain l where l: "hm_next k = fst w" "fst w \<noteq> 0" "h (fst w) = Some l"
        by (auto split: option.splits)
      have d: "distinct (map fst (w # ws))" "fst w \<noteq> q" "fst y \<notin> fst ` set (w # ws)" "fst y \<noteq> q"
        "fst w \<noteq> fst y" "q \<notin> fst ` set (w # ws)"
        using Cons.prems(4) \<open>xs = w # ws\<close> by auto
      have l1: "h1 (fst w) = Some l" using l d by (simp add: h1_def)
      define h2 where "h2 = h1(fst w \<mapsto> l\<lparr>hm_pre := q\<rparr>)"
      have s2: "seg h2 q (fst w) (w # ws)"
        using seg_pre_change [of h1 "fst y" "fst w" w ws l q] s1 d(1) l l1 \<open>xs = w # ws\<close>
        by (simp add: h2_def)
      have "seg (h2(fst y := None)) q (fst w) (w # ws)"
        using d(3) by (intro seg_frame [OF s2]) auto
      then show ?thesis using True k Cons.prems \<open>xs = w # ws\<close> l d l1
        by (auto simp: hm_unlink_def hm_set_next_def hm_set_pre_def h1_def h2_def fun_upd_twist)
    qed
  next
    case False
    have ky: "h (fst y) = Some k" using k by simp
    from False Cons.prems have "\<exists>h' p'. hm_unlink h (fst x) = Inr h' \<and>
           h' (fst y) = Some (k\<lparr>hm_next := p'\<rparr>) \<and>
           seg h' (fst y) p' (remove1 x xs) \<and> h' (fst x) = None \<and>
           (\<forall>r. r \<notin> insert (fst y) (fst ` set xs) \<longrightarrow> h' r = h r)"
      using k ky s by (intro Cons.IH) auto
    then obtain h' p' where h': "hm_unlink h (fst x) = Inr h'"
        "h' (fst y) = Some (k\<lparr>hm_next := p'\<rparr>)" "seg h' (fst y) p' (remove1 x xs)"
        "h' (fst x) = None" "\<forall>r. r \<notin> insert (fst y) (fst ` set xs) \<longrightarrow> h' r = h r"
      by blast
    then have "h' q = Some n" using Cons.prems by auto
    then show ?thesis using h' k False Cons.prems by (auto intro!: exI [of _ h'] exI [of _ "fst y"])
  qed
qed


section \<open>The operations implement a list\<close>

definition hm_rep :: "hm_heap \<times> nat \<Rightarrow> nat list \<Rightarrow> bool" where
  "hm_rep s vs \<longleftrightarrow> (\<exists>xs. dll (fst s) (snd s) xs \<and> map snd xs = vs)"

definition hm_fresh :: "hm_heap \<times> nat \<Rightarrow> nat \<Rightarrow> bool" where
  "hm_fresh s a \<longleftrightarrow> a \<noteq> 0 \<and> fst s a = None"

lemma dllE:
  assumes "dll h head xs"
  obtains n where "head \<noteq> 0" "h head = Some n" "seg h head (hm_next n) xs" "distinct (head # map fst xs)"
  using assms by (auto simp: dll_def split: option.splits)

lemma dll_fresh: "dll h head xs \<Longrightarrow> h a = None \<Longrightarrow> a \<notin> insert head (fst ` set xs)"
  by (metis dllE insert_iff option.distinct(1) seg_cell)

lemma HandleManageInitHead_dll:
  assumes "head \<noteq> 0"
  shows "\<exists>h'. HandleManageInitHead h head = Inr (h', KEY_TRUE) \<and> dll h' head [] \<and>
              (\<forall>r. r \<noteq> head \<longrightarrow> h' r = h r)"
  using assms by (simp add: HandleManageInitHead_def hm_fill_def dll_def)

lemma HandleManageAddHandle_dll:
  assumes "dll h head xs" "a \<noteq> 0" "h a = None" "v \<noteq> 0"
  shows "\<exists>h'. HandleManageAddHandle h head v a = Some (Inr (h', KEY_TRUE)) \<and>
              dll h' head (xs @ [(a, v)]) \<and>
              (\<forall>r. r \<notin> insert a (insert head (fst ` set xs)) \<longrightarrow> h' r = h r)"
proof -
  from assms(1) obtain n where n: "head \<noteq> 0" "h head = Some n" "seg h head (hm_next n) xs"
      and d: "distinct (head # map fst xs)" by (rule dllE)
  define z where "z = last (head # map fst xs)"
  have za: "z \<in> insert head (fst ` set xs)"
    using last_in_set [of "head # map fst xs"] by (simp add: z_def)
  then obtain m where m: "h z = Some m" using n seg_cell by blast
  have z0: "z \<noteq> 0" using za n(1) seg_nonnull [OF n(3)] by (metis insertE)
  have a: "a \<notin> insert head (fst ` set xs)" using dll_fresh assms by blast
  define h' where
    "h' = h(z \<mapsto> m\<lparr>hm_next := a\<rparr>, a \<mapsto> \<lparr>hm_handle = v, hm_next = 0, hm_pre = z\<rparr>)"
  have "\<exists>n'. h' head = Some n' \<and> hm_handle n' = hm_handle n \<and> hm_pre n' = hm_pre n \<and>
          seg h' head (hm_next n') (xs @ [(a, v)])"
    by (rule seg_snoc [OF n(2,3) d assms(2,4) a z_def m h'_def])
  then have "dll h' head (xs @ [(a, v)])" using n(1) d a by (auto simp: dll_def)
  moreover have hl: "hm_last h head = Some (Inr z)" using hm_last_seg [OF n] by (simp add: z_def)
  have "HandleManageAddHandle h head v a = Some (Inr (h', KEY_TRUE))"
    using hl n(1) assms(2,4) m z0
    by (simp add: HandleManageAddHandle_def hm_set_next_def hm_fill_def h'_def)
  moreover have "\<forall>r. r \<notin> insert a (insert head (fst ` set xs)) \<longrightarrow> h' r = h r"
    using za by (auto simp: h'_def)
  ultimately show ?thesis by blast
qed

lemma HandleManageAddHandle1_dll:
  assumes "dll h head xs" "a \<noteq> 0" "h a = None" "v \<noteq> 0"
  shows "\<exists>h'. HandleManageAddHandle1 h head v a = Inr (h', KEY_TRUE) \<and>
              dll h' head ((a, v) # xs)"
proof -
  from assms(1) obtain n where n: "head \<noteq> 0" "h head = Some n" "seg h head (hm_next n) xs"
      and d: "distinct (head # map fst xs)" by (rule dllE)
  have a: "a \<notin> insert head (fst ` set xs)" using dll_fresh assms by blast
  define h1 where "h1 = h(a \<mapsto> \<lparr>hm_handle = v, hm_next = hm_next n, hm_pre = head\<rparr>,
                          head \<mapsto> n\<lparr>hm_next := a\<rparr>)"
  have s1: "seg h1 head (hm_next n) xs"
    using a d by (intro seg_frame [OF n(3)]) (auto simp: h1_def)
  show ?thesis
  proof (cases xs)
    case Nil
    with n have "hm_next n = 0" by simp
    then show ?thesis using n Nil a assms
      by (auto simp: HandleManageAddHandle1_def hm_fill_def hm_set_next_def dll_def)
  next
    case (Cons w ws)
    with n(3) obtain l where l: "hm_next n = fst w" "fst w \<noteq> 0" "h (fst w) = Some l"
      by (auto split: option.splits)
    have l1: "h1 (fst w) = Some l" using l a d Cons by (auto simp: h1_def)
    have "seg (h1(fst w \<mapsto> l\<lparr>hm_pre := a\<rparr>)) a (fst w) (w # ws)"
      using seg_pre_change [of h1 head "fst w" w ws l a] s1 d l l1 Cons by simp
    then show ?thesis using n l a d Cons assms l1
      by (auto simp: HandleManageAddHandle1_def hm_fill_def hm_set_next_def hm_set_pre_def
          dll_def h1_def)
  qed
qed

lemma HandleManageDelHandle_dll:
  assumes "dll h head xs" "find (\<lambda>x. snd x = v) xs = Some x" "v \<noteq> 0"
  shows "\<exists>h'. HandleManageDelHandle h head v = Some (Inr (h', KEY_TRUE)) \<and>
              dll h' head (remove1 x xs) \<and> h' (fst x) = None \<and>
              (\<forall>r. r \<notin> insert head (fst ` set xs) \<longrightarrow> h' r = h r)"
proof -
  from assms(1) obtain n where n: "head \<noteq> 0" "h head = Some n" "seg h head (hm_next n) xs"
      and d: "distinct (head # map fst xs)" by (rule dllE)
  have x: "x \<in> set xs" "fst x \<noteq> 0"
    using find_SomeD [OF assms(2)] seg_nonnull [OF n(3)] by force+
  obtain h' p' where h': "hm_unlink h (fst x) = Inr h'" "h' head = Some (n\<lparr>hm_next := p'\<rparr>)"
      "seg h' head p' (remove1 x xs)" "h' (fst x) = None"
      "\<forall>r. r \<notin> insert head (fst ` set xs) \<longrightarrow> h' r = h r"
    using seg_unlink [OF n d x(1)] by blast
  have "distinct (head # map fst (remove1 x xs))"
    using d by (auto simp: distinct_map intro: inj_on_subset [of fst "set xs"] dest: notin_set_remove1)
  then have "dll h' head (remove1 x xs)" using n(1) h' by (simp add: dll_def)
  moreover have "HandleManageDelHandle h head v = Some (Inr (h', KEY_TRUE))"
    using n assms(2,3) h' x hm_find_seg [OF n(3), of v] by (simp add: HandleManageDelHandle_def)
  ultimately show ?thesis using h' by blast
qed

lemma map_snd_remove1_find:
  "find (\<lambda>x. snd x = v) xs = Some x \<Longrightarrow> map snd (remove1 x xs) = remove1 v (map snd xs)"
  by (induction xs) (auto split: if_splits dest: find_SomeD)

lemma find_snd_None_iff: "find (\<lambda>x. snd x = v) xs = None \<longleftrightarrow> v \<notin> set (map snd xs)"
  by (force simp: find_None_iff)

lemma HandleManageDelHandle_none:
  assumes "dll h head xs" "v \<notin> set (map snd xs)"
  shows "HandleManageDelHandle h head v = Some (Inr (h, KEY_FALSE))"
proof -
  obtain n where n: "head \<noteq> 0" "h head = Some n" "seg h head (hm_next n) xs"
    using assms(1) by (rule dllE)
  have "find (\<lambda>x. snd x = v) xs = None" using assms(2) by (simp only: find_snd_None_iff not_False_eq_True)
  then show ?thesis using n hm_find_seg [OF n(3), of v] by (simp add: HandleManageDelHandle_def)
qed

section \<open>The contract of a handle list\<close>

text \<open>
  What the modules that keep their records in a handle list rely on: a state \<open>s\<close> represents
  the list \<open>vs\<close> of handles, in insertion order, and every operation returns and acts on
  \<open>vs\<close> as stated.
\<close>

locale handle_list =
  fixes rep :: "'s \<Rightarrow> nat list \<Rightarrow> bool"
    and fresh :: "'s \<Rightarrow> nat \<Rightarrow> bool"
    and add :: "'s \<Rightarrow> nat \<Rightarrow> nat \<Rightarrow> ('s \<times> int) run"
    and del :: "'s \<Rightarrow> nat \<Rightarrow> ('s \<times> int) run"
    and count :: "'s \<Rightarrow> int run"
    and lookup :: "'s \<Rightarrow> (nat \<Rightarrow> bool) \<Rightarrow> nat run"
  assumes rep_add: "rep s vs \<Longrightarrow> fresh s a \<Longrightarrow> v \<noteq> 0 \<Longrightarrow>
        \<exists>s'. add s v a = Some (Inr (s', KEY_TRUE)) \<and> rep s' (vs @ [v])"
    and rep_del: "rep s vs \<Longrightarrow> v \<in> set vs \<Longrightarrow>
        \<exists>s'. del s v = Some (Inr (s', KEY_TRUE)) \<and> rep s' (remove1 v vs)"
    and rep_del_none: "rep s vs \<Longrightarrow> v \<notin> set vs \<Longrightarrow> del s v = Some (Inr (s, KEY_FALSE))"
    and rep_count: "rep s vs \<Longrightarrow> count s = Some (Inr (int (length vs)))"
    and rep_lookup: "rep s vs \<Longrightarrow>
        lookup s P = Some (Inr (case find P vs of None \<Rightarrow> 0 | Some v \<Rightarrow> v))"
begin

lemma add_then_del:
  assumes "rep s vs" "fresh s a" "v \<noteq> 0" "v \<notin> set vs"
  shows "\<exists>s1 s2. add s v a = Some (Inr (s1, KEY_TRUE)) \<and>
                 del s1 v = Some (Inr (s2, KEY_TRUE)) \<and> rep s2 vs"
proof -
  obtain s1 where s1: "add s v a = Some (Inr (s1, KEY_TRUE))" "rep s1 (vs @ [v])"
    using rep_add [OF assms(1,2,3)] by blast
  obtain s2 where "del s1 v = Some (Inr (s2, KEY_TRUE))" "rep s2 (remove1 v (vs @ [v]))"
    using rep_del [OF s1(2)] by auto
  with s1 assms(4) show ?thesis by (auto simp: remove1_snoc_notin)
qed

lemma add_then_lookup:
  assumes "rep s vs" "fresh s a" "v \<noteq> 0" "P v" "\<And>w. w \<in> set vs \<Longrightarrow> \<not> P w"
  shows "\<exists>s1. add s v a = Some (Inr (s1, KEY_TRUE)) \<and> lookup s1 P = Some (Inr v) \<and>
              count s1 = Some (Inr (int (length vs) + 1))"
proof -
  obtain s1 where s1: "add s v a = Some (Inr (s1, KEY_TRUE))" "rep s1 (vs @ [v])"
    using rep_add [OF assms(1,2,3)] by blast
  have "find P (vs @ [v]) = Some v"
    using assms(4,5) by (simp add: find_append find_eq_NoneI)
  then show ?thesis using s1 rep_lookup [OF s1(2), of P] rep_count [OF s1(2)] by simp
qed

end

definition hm_lift :: "nat \<Rightarrow> (hm_heap \<times> int) run \<Rightarrow> ((hm_heap \<times> nat) \<times> int) run" where
  "hm_lift head m = run_bind m (\<lambda>(h, r). Some (Inr ((h, head), r)))"

lemma hm_lift_simps [simp]:
  "hm_lift head (Some (Inr (h, r))) = Some (Inr ((h, head), r))"
  by (simp add: hm_lift_def)

interpretation hml: handle_list hm_rep hm_fresh
  "\<lambda>(h, head) v a. hm_lift head (HandleManageAddHandle h head v a)"
  "\<lambda>(h, head) v. hm_lift head (HandleManageDelHandle h head v)"
  "\<lambda>(h, head). HandleManageGetUsrCount h head"
  "\<lambda>(h, head) P. HandleManageGetHandleBy h head P"
proof (unfold_locales, goal_cases)
  case (1 s vs a v)
  then obtain xs where "dll (fst s) (snd s) xs" "map snd xs = vs" by (auto simp: hm_rep_def)
  with 1 HandleManageAddHandle_dll [of "fst s" "snd s" xs a v] show ?case
    by (fastforce simp: hm_rep_def hm_fresh_def case_prod_beta)
next
  case (2 s vs v)
  then obtain xs where xs: "dll (fst s) (snd s) xs" "map snd xs = vs" by (auto simp: hm_rep_def)
  with 2 obtain x where x: "find (\<lambda>x. snd x = v) xs = Some x"
    by (cases "find (\<lambda>x. snd x = v) xs") (auto simp: find_snd_None_iff)
  have "v \<noteq> 0" using 2 xs by (auto simp: dll_def dest!: seg_nonnull split: option.splits)
  with HandleManageDelHandle_dll [OF xs(1) x] obtain h' where
      "HandleManageDelHandle (fst s) (snd s) v = Some (Inr (h', KEY_TRUE))"
      "dll h' (snd s) (remove1 x xs)"
    by blast
  with xs x show ?case by (fastforce simp: hm_rep_def case_prod_beta map_snd_remove1_find)
next
  case (3 s vs v)
  then obtain xs where xs: "dll (fst s) (snd s) xs" "map snd xs = vs" by (auto simp: hm_rep_def)
  then show ?case using HandleManageDelHandle_none [of "fst s" "snd s" xs v] 3
    by (cases s) auto
next
  case (4 s vs)
  then obtain xs where xs: "dll (fst s) (snd s) xs" "map snd xs = vs" by (auto simp: hm_rep_def)
  then obtain n where "snd s \<noteq> 0" "(fst s) (snd s) = Some n" "seg (fst s) (snd s) (hm_next n) xs"
    by (metis dllE)
  with hm_count_seg [of "snd s" "fst s" n xs 0] xs(2) show ?case
    by (auto simp: HandleManageGetUsrCount_def case_prod_beta)
next
  case (5 s vs P)
  then obtain xs where xs: "dll (fst s) (snd s) xs" "map snd xs = vs" by (auto simp: hm_rep_def)
  then obtain n where "snd s \<noteq> 0" "(fst s) (snd s) = Some n" "seg (fst s) (snd s) (hm_next n) xs"
    by (metis dllE)
  with hm_lookup_seg [of "fst s" "snd s" "hm_next n" xs P] xs(2) show ?case
    by (auto simp: HandleManageGetHandleBy_def case_prod_beta)
qed


section \<open>Sequences of operations\<close>

text \<open>
  Callers of different modules and threads interleave at the mutex, so the store sees a
  sequence of operations. \<open>alloc\<close> stands for \<^verbatim>\<open>malloc\<close>: it picks the address of the new node
  from the current store.
\<close>

datatype hm_op = AddHandle nat | AddHandle1 nat | DelHandle nat | GetUsrCount | GetNextHandle

definition hm_step :: "(hm_heap \<Rightarrow> nat) \<Rightarrow> nat \<Rightarrow> hm_heap \<Rightarrow> hm_op \<Rightarrow> (hm_heap \<times> int) run" where
  "hm_step alloc head h op = (case op of
      AddHandle v \<Rightarrow> HandleManageAddHandle h head v (alloc h)
    | AddHandle1 v \<Rightarrow> Some (HandleManageAddHandle1 h head v (alloc h))
    | DelHandle v \<Rightarrow> HandleManageDelHandle h head v
    | GetUsrCount \<Rightarrow> run_bind (HandleManageGetUsrCount h head) (\<lambda>c. Some (Inr (h, c)))
    | GetNextHandle \<Rightarrow> Some (rbind (HandleManageGetNextHandle h head) (\<lambda>v. Inr (h, int v))))"

fun hm_exec :: "(hm_heap \<Rightarrow> nat) \<Rightarrow> nat \<Rightarrow> hm_heap \<Rightarrow> hm_op list \<Rightarrow> (hm_heap \<times> int list) run" where
  "hm_exec alloc head h [] = Some (Inr (h, []))"
| "hm_exec alloc head h (op # ops) =
     run_bind (hm_step alloc head h op) (\<lambda>(h, r).
     run_bind (hm_exec alloc head h ops) (\<lambda>(h, rs). Some (Inr (h, r # rs))))"

text \<open>The specification: the same operations on the list of handles.\<close>

fun hl_step :: "nat list \<Rightarrow> hm_op \<Rightarrow> nat list \<times> int" where
  "hl_step vs (AddHandle v) = (if v = 0 then (vs, KEY_FALSE) else (vs @ [v], KEY_TRUE))"
| "hl_step vs (AddHandle1 v) = (if v = 0 then (vs, KEY_FALSE) else (v # vs, KEY_TRUE))"
| "hl_step vs (DelHandle v) =
     (if v \<in> set vs then (remove1 v vs, KEY_TRUE) else (vs, KEY_FALSE))"
| "hl_step vs GetUsrCount = (vs, int (length vs))"
| "hl_step vs GetNextHandle = (vs, case vs of [] \<Rightarrow> 0 | v # _ \<Rightarrow> int v)"

fun hl_exec :: "nat list \<Rightarrow> hm_op list \<Rightarrow> nat list \<times> int list" where
  "hl_exec vs [] = (vs, [])"
| "hl_exec vs (op # ops) =
     (let (vs, r) = hl_step vs op; (vs, rs) = hl_exec vs ops in (vs, r # rs))"

definition alloc_ok :: "(hm_heap \<Rightarrow> nat) \<Rightarrow> bool" where
  "alloc_ok alloc \<longleftrightarrow> (\<forall>h. finite (dom h) \<longrightarrow> alloc h \<noteq> 0 \<and> h (alloc h) = None)"

lemma HandleManageGetNextHandle_dll:
  "dll h head xs \<Longrightarrow>
   HandleManageGetNextHandle h head = Inr (case xs of [] \<Rightarrow> 0 | x # _ \<Rightarrow> snd x)"
  by (auto simp: HandleManageGetNextHandle_def hm_load_def dll_def split: option.splits list.splits)

lemma finite_dom_eq_except:
  assumes "finite (dom h)" "finite A" "\<forall>r. r \<notin> A \<longrightarrow> h' r = h r"
  shows "finite (dom h')"
proof -
  have "dom h' \<subseteq> A \<union> dom h" using assms(3) by (auto simp: dom_def)
  then show ?thesis using assms(1,2) finite_subset by blast
qed

lemma finite_dom_rbind_fill:
  "finite (dom h) \<Longrightarrow> HandleManageAddHandle1 h head v a = Inr (h', r) \<Longrightarrow> finite (dom h')"
  by (auto simp: HandleManageAddHandle1_def hm_fill_def hm_set_next_def hm_set_pre_def outcome_iff
      split: if_splits)

lemma hm_step_refines:
  assumes "dll h head xs" "finite (dom h)" "alloc_ok alloc"
  shows "\<exists>h' r ys. hm_step alloc head h op = Some (Inr (h', r)) \<and> dll h' head ys \<and>
           finite (dom h') \<and> hl_step (map snd xs) op = (map snd ys, r)"
proof -
  have a: "alloc h \<noteq> 0" "h (alloc h) = None" using assms by (auto simp: alloc_ok_def)
  have head: "head \<noteq> 0" using assms(1) by (auto simp: dll_def)
  have rep: "hm_rep (h, head) (map snd xs)" using assms(1) by (auto simp: hm_rep_def)
  show ?thesis
  proof (cases op)
    case (AddHandle v)
    show ?thesis
    proof (cases "v = 0")
      case True
      then show ?thesis using AddHandle assms
        by (auto simp: hm_step_def HandleManageAddHandle_def)
    next
      case False
      from HandleManageAddHandle_dll [OF assms(1) a False] obtain h' where
          h': "HandleManageAddHandle h head v (alloc h) = Some (Inr (h', KEY_TRUE))"
          "dll h' head (xs @ [(alloc h, v)])"
          "\<forall>r. r \<notin> insert (alloc h) (insert head (fst ` set xs)) \<longrightarrow> h' r = h r" by blast
      have "finite (dom h')" by (rule finite_dom_eq_except [OF assms(2) _ h'(3)]) simp
      with h' show ?thesis using AddHandle False
        by (auto simp: hm_step_def intro!: exI [of _ "xs @ [(alloc h, v)]"])
    qed
  next
    case (AddHandle1 v)
    show ?thesis
    proof (cases "v = 0")
      case True
      then show ?thesis using AddHandle1 assms
        by (auto simp: hm_step_def HandleManageAddHandle1_def)
    next
      case False
      then show ?thesis
        using HandleManageAddHandle1_dll [OF assms(1) a False] AddHandle1 assms(2)
        by (fastforce simp: hm_step_def intro!: exI [of _ "(alloc h, v) # xs"]
            dest: finite_dom_rbind_fill)
    qed
  next
    case (DelHandle v)
    show ?thesis
    proof (cases "find (\<lambda>x. snd x = v) xs")
      case None
      then have "v \<notin> set (map snd xs)" by (simp add: find_snd_None_iff)
      then show ?thesis using HandleManageDelHandle_none [OF assms(1)] DelHandle assms
        by (auto simp: hm_step_def)
    next
      case (Some x)
      have x: "x \<in> set xs" "snd x = v" using find_SomeD [OF Some] by auto
      then have "v \<noteq> 0" using assms(1)
        by (auto simp: dll_def dest!: seg_nonnull split: option.splits)
      with HandleManageDelHandle_dll [OF assms(1) Some] obtain h' where
          h': "HandleManageDelHandle h head v = Some (Inr (h', KEY_TRUE))"
          "dll h' head (remove1 x xs)" "\<forall>r. r \<notin> insert head (fst ` set xs) \<longrightarrow> h' r = h r"
        by blast
      have "finite (dom h')" by (rule finite_dom_eq_except [OF assms(2) _ h'(3)]) simp
      with h' x show ?thesis using DelHandle map_snd_remove1_find [OF Some]
        by (auto simp: hm_step_def intro!: exI [of _ "remove1 x xs"])
    qed
  next
    case GetUsrCount
    then show ?thesis using hml.rep_count [OF rep] assms by (auto simp: hm_step_def)
  next
    case GetNextHandle
    then show ?thesis using HandleManageGetNextHandle_dll [OF assms(1)] assms
      by (auto simp: hm_step_def split: list.splits)
  qed
qed

text \<open>
  C1. Refinement of the handle list: from a well-formed list, any sequence of add, add-at-front,
  delete, count and first-handle operations returns (no NULL or dangling dereference, no endless
  traversal), leaves a well-formed doubly linked list, and both the handles it holds and every
  return code are those of the plain list specification. \<open>alloc\<close> is the memory allocator:
  it returns a non-NULL address that is not in use.
\<close>

theorem hm_exec_refines:
  assumes "dll h head xs" "finite (dom h)" "alloc_ok alloc"
  shows "\<exists>h' rs ys. hm_exec alloc head h ops = Some (Inr (h', rs)) \<and> dll h' head ys \<and>
           hl_exec (map snd xs) ops = (map snd ys, rs)"
  using assms(1,2)
proof (induction ops arbitrary: h xs)
  case Nil
  then show ?case by auto
next
  case (Cons op ops)
  obtain h' r ys where s: "hm_step alloc head h op = Some (Inr (h', r))" "dll h' head ys"
      "finite (dom h')" "hl_step (map snd xs) op = (map snd ys, r)"
    using hm_step_refines [OF Cons.prems assms(3)] by blast
  obtain h'' rs zs where "hm_exec alloc head h' ops = Some (Inr (h'', rs))" "dll h'' head zs"
      "hl_exec (map snd ys) ops = (map snd zs, rs)"
    using Cons.IH [OF s(2,3)] by blast
  with s show ?case by auto
qed

lemma alloc_ok_example: "alloc_ok (\<lambda>h. Suc (Max (insert 0 (dom h))))"
  by (simp add: alloc_ok_def fresh_address)

theorem hm_exec_refines_witness:
  "\<exists>h' rs ys. hm_exec (\<lambda>h. Suc (Max (insert 0 (dom h)))) 1
       [1 \<mapsto> \<lparr>hm_handle = 0, hm_next = 0, hm_pre = 0\<rparr>]
       [AddHandle 7, AddHandle1 8, DelHandle 7, GetUsrCount, DelHandle 9]
       = Some (Inr (h', rs)) \<and> dll h' 1 ys \<and> map snd ys = [8] \<and>
       rs = [KEY_TRUE, KEY_TRUE, KEY_TRUE, 1, KEY_FALSE]"
proof -
  let ?h = "[1 \<mapsto> \<lparr>hm_handle = 0, hm_next = 0, hm_pre = 0\<rparr>] :: hm_heap"
  have "dll ?h 1 []" "finite (dom ?h)" by (simp_all add: dll_def)
  from hm_exec_refines [OF this alloc_ok_example,
      of "[AddHandle 7, AddHandle1 8, DelHandle 7, GetUsrCount, DelHandle 9]"]
  obtain h' rs ys where e: "hm_exec (\<lambda>h. Suc (Max (insert 0 (dom h)))) 1 ?h
       [AddHandle 7, AddHandle1 8, DelHandle 7, GetUsrCount, DelHandle 9] = Some (Inr (h', rs))"
      "dll h' 1 ys" and l: "hl_exec (map snd ([] :: (nat \<times> nat) list)) [AddHandle 7, AddHandle1 8, DelHandle 7, GetUsrCount, DelHandle 9]
         = (map snd ys, rs)"
    by blast
  from l have "map snd ys = [8]" "rs = [KEY_TRUE, KEY_TRUE, KEY_TRUE, 1, KEY_FALSE]" by simp_all
  then show ?thesis by (intro exI conjI) (rule e)+
qed

end
