(* ===== verification/Registry.thy ===== *)
theory Registry
  imports HandleManage
begin

text \<open>
  Records kept behind a handle list, the way the user, device and web-server modules keep them:
  a module has a handle list and, for each handle, a record at that address. The list is taken
  as the list of handles, with the operations of \<open>hl_step\<close>; \<open>hm_exec_refines\<close> shows that the
  linked nodes implement it. The records live in a store of their own, from which \<^verbatim>\<open>free\<close>
  removes them, so that following a freed or NULL handle is a fault.

  The locale \<open>keyed_registry\<close> is the contract these modules give: at most one record for each
  key, insertion and removal change the record of that key and no other.
\<close>

section \<open>Following handles\<close>

definition obj_load :: "(nat \<rightharpoonup> 'o) \<Rightarrow> nat \<Rightarrow> fault + 'o" where
  "obj_load m p = (if p = 0 then Inl NullDeref
                   else case m p of None \<Rightarrow> Inl BadPointer | Some x \<Rightarrow> Inr x)"

text \<open>
  The lookup macros of \<^verbatim>\<open>src/Include/handlemanage.h\<close> with the comparison of a member spelled
  out: each record on the way is read. The result is NULL (0) when none matches.
\<close>

fun reg_lookup :: "(nat \<rightharpoonup> 'o) \<Rightarrow> ('o \<Rightarrow> bool) \<Rightarrow> nat list \<Rightarrow> fault + nat" where
  "reg_lookup m P [] = Inr 0"
| "reg_lookup m P (v # vs) =
     rbind (obj_load m v) (\<lambda>x. if P x then Inr v else reg_lookup m P vs)"

text \<open>The loops that free every record of a list; a second \<^verbatim>\<open>free\<close> of a record is a fault.\<close>

fun reg_free :: "(nat \<rightharpoonup> 'o) \<Rightarrow> nat list \<Rightarrow> fault + (nat \<rightharpoonup> 'o)" where
  "reg_free m [] = Inr m"
| "reg_free m (v # vs) = rbind (obj_load m v) (\<lambda>_. reg_free (m(v := None)) vs)"

section \<open>Well-formed registries\<close>

definition reg_ok :: "(nat \<rightharpoonup> 'o) \<Rightarrow> nat list \<Rightarrow> bool" where
  "reg_ok m vs \<longleftrightarrow> distinct vs \<and> 0 \<notin> set vs \<and> set vs \<subseteq> dom m"

definition reg_recs :: "(nat \<rightharpoonup> 'o) \<Rightarrow> nat list \<Rightarrow> 'o list" where
  "reg_recs m vs = map (\<lambda>v. the (m v)) vs"

definition reg_get :: "('o \<Rightarrow> 'k) \<Rightarrow> (nat \<rightharpoonup> 'o) \<Rightarrow> nat list \<Rightarrow> 'k \<Rightarrow> 'o option" where
  "reg_get key m vs k = find (\<lambda>x. key x = k) (reg_recs m vs)"

definition reg_inv :: "('o \<Rightarrow> 'k) \<Rightarrow> (nat \<rightharpoonup> 'o) \<Rightarrow> nat list \<Rightarrow> bool" where
  "reg_inv key m vs \<longleftrightarrow> reg_ok m vs \<and> distinct (map key (reg_recs m vs))"

text \<open>\<open>malloc\<close> for the records: never NULL and never an address in use.\<close>

definition obj_alloc_ok :: "((nat \<rightharpoonup> 'o) \<Rightarrow> nat) \<Rightarrow> bool" where
  "obj_alloc_ok alloc \<longleftrightarrow> (\<forall>m. finite (dom m) \<longrightarrow> alloc m \<noteq> 0 \<and> m (alloc m) = None)"

lemma obj_alloc_ok_example: "obj_alloc_ok (\<lambda>m. Suc (Max (insert 0 (dom m))))"
  by (simp add: obj_alloc_ok_def fresh_address)

lemma obj_load_simps [simp]:
  "obj_load m 0 = Inl NullDeref"
  "p \<noteq> 0 \<Longrightarrow> m p = Some x \<Longrightarrow> obj_load m p = Inr x"
  "p \<noteq> 0 \<Longrightarrow> m p = None \<Longrightarrow> obj_load m p = Inl BadPointer"
  by (simp_all add: obj_load_def)

lemma obj_load_iff [simp]: "obj_load m p = Inr x \<longleftrightarrow> p \<noteq> 0 \<and> m p = Some x"
  by (auto simp: obj_load_def split: option.splits)

lemma reg_recs_simps [simp]:
  "reg_recs m [] = []"
  "reg_recs m (v # vs) = the (m v) # reg_recs m vs"
  "reg_recs m (us @ vs) = reg_recs m us @ reg_recs m vs"
  "length (reg_recs m vs) = length vs"
  by (simp_all add: reg_recs_def)

lemma reg_recs_upd_notin [simp]: "v \<notin> set vs \<Longrightarrow> reg_recs (m(v := y)) vs = reg_recs m vs"
  by (auto simp: reg_recs_def)

lemma reg_ok_Nil [simp]: "reg_ok m []"
  by (simp add: reg_ok_def)

lemma reg_ok_Cons: "reg_ok m (v # vs) \<longleftrightarrow> v \<noteq> 0 \<and> v \<notin> set vs \<and> (\<exists>x. m v = Some x) \<and> reg_ok m vs"
  by (auto simp: reg_ok_def)

lemma reg_ok_in: "reg_ok m vs \<Longrightarrow> v \<in> set vs \<Longrightarrow> v \<noteq> 0 \<and> (\<exists>x. m v = Some x)"
  by (auto simp: reg_ok_def intro!: gr0I)

lemma reg_lookup_find:
  "reg_ok m vs \<Longrightarrow>
   reg_lookup m P vs = Inr (case find (\<lambda>v. P (the (m v))) vs of None \<Rightarrow> 0 | Some v \<Rightarrow> v)"
  by (induction vs) (auto simp: reg_ok_Cons)

text \<open>The lookup on the linked nodes returns the same handle.\<close>

lemma hm_lookup_reg:
  assumes "hm_rep (h, head) vs" "reg_ok m vs"
  shows "HandleManageGetHandleBy h head (\<lambda>v. P (the (m v))) = Some (reg_lookup m P vs)"
  using hml.rep_lookup [OF assms(1)] reg_lookup_find [OF assms(2)] by simp

text \<open>A lookup by key either fails and no record has the key, or finds its record.\<close>

lemma reg_get_None_iff: "reg_get key m vs k = None \<longleftrightarrow> (\<forall>v \<in> set vs. key (the (m v)) \<noteq> k)"
  by (auto simp: reg_get_def find_None_iff reg_recs_def)

lemma reg_lookup_none:
  assumes "reg_ok m vs" "reg_get key m vs k = None"
  shows "reg_lookup m (\<lambda>x. key x = k) vs = Inr 0"
proof -
  have "find (\<lambda>v. key (the (m v)) = k) vs = None"
    using assms(2) by (simp add: reg_get_None_iff find_None_iff)
  then show ?thesis using reg_lookup_find [OF assms(1), of "\<lambda>x. key x = k"] by simp
qed

lemma reg_lookup_some:
  assumes "reg_ok m vs" "reg_get key m vs k = Some x"
  obtains v where "reg_lookup m (\<lambda>x. key x = k) vs = Inr v" "v \<in> set vs" "v \<noteq> 0" "m v = Some x"
    "key x = k"
proof -
  have "\<exists>v. reg_lookup m (\<lambda>x. key x = k) vs = Inr v \<and> v \<in> set vs \<and> m v = Some x \<and> key x = k \<and> v \<noteq> 0"
    using assms by (induction vs) (auto simp: reg_get_def reg_ok_Cons split: if_splits)
  then show thesis using that by blast
qed

lemma reg_lookup_total:
  "reg_ok m vs \<Longrightarrow> \<exists>v. reg_lookup m P vs = Inr v \<and> (v = 0 \<or> v \<in> set vs \<and> v \<noteq> 0)"
  by (induction vs) (auto simp: reg_ok_Cons)

section \<open>Insertion, removal and update\<close>

lemma reg_inv_ok: "reg_inv key m vs \<Longrightarrow> reg_ok m vs"
  by (simp add: reg_inv_def)

lemma reg_inv_Nil [simp]: "reg_inv key m []"
  by (simp add: reg_inv_def)

lemma reg_inv_Cons:
  "reg_inv key m (v # vs) \<longleftrightarrow> v \<noteq> 0 \<and> v \<notin> set vs \<and> (\<exists>x. m v = Some x) \<and>
     reg_get key m vs (key (the (m v))) = None \<and> reg_inv key m vs"
  by (auto simp: reg_inv_def reg_ok_Cons reg_get_None_iff reg_recs_def image_iff)

lemma reg_get_simps [simp]:
  "reg_get key m [] k = None"
  "reg_get key m (v # vs) k = (if key (the (m v)) = k then Some (the (m v)) else reg_get key m vs k)"
  by (simp_all add: reg_get_def)

lemma reg_get_append:
  "reg_get key m (us @ vs) k = (case reg_get key m us k of None \<Rightarrow> reg_get key m vs k | Some x \<Rightarrow> Some x)"
  by (induction us) auto

lemma reg_get_key: "reg_get key m vs k = Some x \<Longrightarrow> key x = k"
  by (auto simp: reg_get_def find_Some_iff)

lemma reg_get_upd_notin [simp]: "v \<notin> set vs \<Longrightarrow> reg_get key (m(v := y)) vs = reg_get key m vs"
  by (rule ext) (simp add: reg_get_def)

lemma reg_add:
  assumes "reg_inv key m vs" "v \<noteq> 0" "v \<notin> set vs" "reg_get key m vs (key x) = None"
  shows "reg_inv key (m(v \<mapsto> x)) (vs @ [v])"
    "reg_get key (m(v \<mapsto> x)) (vs @ [v]) = (reg_get key m vs)(key x \<mapsto> x)"
proof -
  show "reg_get key (m(v \<mapsto> x)) (vs @ [v]) = (reg_get key m vs)(key x \<mapsto> x)"
    using assms(3,4) by (auto simp: reg_get_append fun_eq_iff split: option.splits)
  show "reg_inv key (m(v \<mapsto> x)) (vs @ [v])"
    using assms by (auto simp: reg_inv_def reg_ok_def reg_get_None_iff) (auto simp: reg_recs_def)
qed

lemma reg_inv_upd_notin: "v \<notin> set vs \<Longrightarrow> reg_inv key (m(v := y)) vs \<longleftrightarrow> reg_inv key m vs"
  by (auto simp: reg_inv_def reg_ok_def)

lemma reg_del:
  assumes "reg_inv key m vs" "v \<in> set vs" "m v = Some x"
  shows "reg_inv key (m(v := None)) (remove1 v vs)"
    "reg_get key (m(v := None)) (remove1 v vs) = (reg_get key m vs)(key x := None)"
proof -
  have "reg_inv key (m(v := None)) (remove1 v vs) \<and>
        reg_get key (m(v := None)) (remove1 v vs) = (reg_get key m vs)(key x := None)"
    using assms
  proof (induction vs)
    case (Cons u vs)
    show ?case
    proof (cases "u = v")
      case True
      have n: "v \<notin> set vs" "reg_inv key m vs" "reg_get key m vs (key x) = None" "v \<noteq> 0"
        using Cons.prems True by (auto simp: reg_inv_Cons)
      have "reg_inv key (m(v := None)) vs" using n by (simp add: reg_inv_upd_notin)
      then show ?thesis using True n Cons.prems by (intro conjI ext) (simp_all add: reg_inv_Cons fun_upd_def [symmetric])
    next
      case False
      then have "key x \<noteq> key (the (m u))"
        using Cons.prems by (auto simp: reg_inv_Cons reg_get_None_iff)
      then show ?thesis using False Cons notin_set_remove1 [of u vs v]
        by (auto simp: reg_inv_Cons fun_eq_iff)
    qed
  qed simp
  then show "reg_inv key (m(v := None)) (remove1 v vs)"
    "reg_get key (m(v := None)) (remove1 v vs) = (reg_get key m vs)(key x := None)" by auto
qed

lemma reg_ok_del: "reg_ok m vs \<Longrightarrow> reg_ok (m(v := None)) (remove1 v vs)"
  by (auto simp: reg_ok_def dest: notin_set_remove1)

lemma reg_update:
  assumes "reg_inv key m vs" "v \<in> set vs" "m v = Some x" "key y = key x"
  shows "reg_inv key (m(v \<mapsto> y)) vs" "reg_get key (m(v \<mapsto> y)) vs = (reg_get key m vs)(key x \<mapsto> y)"
proof -
  have "reg_inv key (m(v \<mapsto> y)) vs \<and> reg_get key (m(v \<mapsto> y)) vs = (reg_get key m vs)(key x \<mapsto> y)"
    using assms
  proof (induction vs)
    case (Cons u vs)
    show ?case
    proof (cases "u = v")
      case True
      have n: "v \<notin> set vs" "reg_inv key m vs" "reg_get key m vs (key x) = None" "v \<noteq> 0"
        using Cons.prems True by (auto simp: reg_inv_Cons)
      have "reg_inv key (m(v := Some y)) vs" using n by (simp add: reg_inv_upd_notin)
      then show ?thesis using True n Cons.prems by (intro conjI ext) (simp_all add: reg_inv_Cons fun_upd_def [symmetric])
    next
      case False
      then have "key x \<noteq> key (the (m u))"
        using Cons.prems by (auto simp: reg_inv_Cons reg_get_None_iff)
      then show ?thesis using False Cons by (auto simp: reg_inv_Cons fun_eq_iff)
    qed
  qed simp
  then show "reg_inv key (m(v \<mapsto> y)) vs" "reg_get key (m(v \<mapsto> y)) vs = (reg_get key m vs)(key x \<mapsto> y)"
    by auto
qed

lemma reg_free_all:
  "reg_ok m vs \<Longrightarrow> \<exists>m'. reg_free m vs = Inr m' \<and> dom m' = dom m - set vs"
proof (induction vs arbitrary: m)
  case (Cons v vs)
  then have "reg_ok (m(v := None)) vs" by (auto simp: reg_ok_def)
  with Cons.IH Cons.prems show ?case by (fastforce simp: reg_ok_Cons)
qed auto

section \<open>The contract of a registry\<close>

locale keyed_registry =
  fixes inv :: "'s \<Rightarrow> bool"
    and get :: "'s \<Rightarrow> 'k \<Rightarrow> 'o option"
    and key :: "'o \<Rightarrow> 'k"
    and added :: "'s \<Rightarrow> 'o \<Rightarrow> 's \<Rightarrow> bool"
    and deleted :: "'s \<Rightarrow> 'k \<Rightarrow> 's \<Rightarrow> bool"
  assumes added: "inv s \<Longrightarrow> added s x s' \<Longrightarrow>
      inv s' \<and> get s (key x) = None \<and> (\<exists>y. key y = key x \<and> get s' = (get s)(key x \<mapsto> y))"
    and deleted: "inv s \<Longrightarrow> deleted s k s' \<Longrightarrow>
      inv s' \<and> get s k \<noteq> None \<and> get s' = (get s)(k := None)"
begin

lemma added_present: "inv s \<Longrightarrow> added s x s' \<Longrightarrow> get s' (key x) \<noteq> None"
  using added by fastforce

lemma no_second_add:
  assumes "inv s" "added s x s1" "added s1 y s2"
  shows "key y \<noteq> key x"
  using added [OF assms(1,2)] added [OF _ assms(3)] by auto

lemma add_del_restores:
  assumes "inv s" "added s x s1" "deleted s1 (key x) s2"
  shows "get s2 = get s" "inv s2"
  using added [OF assms(1,2)] deleted [OF _ assms(3)] by (auto simp: fun_eq_iff)

lemma del_add_again:
  assumes "inv s" "deleted s k s1" "added s1 x s2" "key x = k"
  shows "\<forall>k'. k' \<noteq> k \<longrightarrow> get s2 k' = get s k'"
  using deleted [OF assms(1,2)] added [OF _ assms(3)] assms(4) by auto

lemma no_second_del:
  assumes "inv s" "deleted s k s1" "deleted s1 k' s2"
  shows "k' \<noteq> k"
  using deleted [OF assms(1,2)] deleted [OF _ assms(3)] by auto

end

end
