(* ===== verification/AlarmManage.thy ===== *)
theory AlarmManage
  imports Registry
begin

text \<open>
  \<^verbatim>\<open>src/Modules/AlarmManage/alarmmanage.c\<close>: producers push alarms into a bounded queue, one thread
  takes them out and calls the registered receivers.

  The queue and the table of receivers are handle lists, taken as lists of handles. An alarm
  \<open>'i\<close> is only ever copied as a whole. Message blocks and receivers' tables live in stores;
  \<^verbatim>\<open>free\<close> removes a block, so that reading it later is a fault. \<open>calls\<close> records the calls of the
  receivers' functions. \<^verbatim>\<open>pushmutex\<close> makes each of \<open>AlarmMsgInput\<close>, \<open>AlarmMsgOut\<close> and \<open>AlarmMsgDel\<close>
  atomic, but is not held between them, so the delivery thread is a state machine whose steps
  interleave with producers.

  The lemmas show that the queue is first-in first-out, holds at most 201 alarms and drops the
  oldest, that undisturbed every alarm reaches every receiver once and in order, and that a
  producer can free the alarm that is being delivered.
\<close>

section \<open>State\<close>

record AlarmHandle_T =
  pPushAlarm :: bool
  AlarmFun :: bool

record 'i AlarmState =
  headlist :: "nat list"
  msgnum :: int
  msgs :: "nat \<rightharpoonup> 'i"
  listHead_AlarmCB :: "nat list"
  handles :: "nat \<rightharpoonup> AlarmHandle_T"
  g_innerExit :: bool
  calls :: "(nat \<times> 'i) list"

abbreviation (input) MAX_PUSHMSG_NUM :: int where "MAX_PUSHMSG_NUM \<equiv> 200"

section \<open>The queue\<close>

definition next_handle :: "nat list \<Rightarrow> nat" where
  "next_handle vs = nat (snd (hl_step vs GetNextHandle))"

text \<open>The first half of \<open>AlarmMsgInput\<close>: dropping the oldest alarm. \<open>None\<close> where it returns KEY_FALSE.\<close>

definition drop_oldest :: "'i AlarmState \<Rightarrow> fault + 'i AlarmState option" where
  "drop_oldest s =
     (if msgnum s > MAX_PUSHMSG_NUM then
        let p = next_handle (headlist s) in
        if p = 0 then Inr None
        else let (vs, ret) = hl_step (headlist s) (DelHandle p) in
          if ret \<noteq> 0 then Inr None
          else rbind (obj_load (msgs s) p) (\<lambda>_.
            Inr (Some (s\<lparr>headlist := vs, msgs := (msgs s)(p := None), msgnum := msgnum s - 1\<rparr>)))
      else Inr (Some s))"

text \<open>\<open>newMsg\<close> is the address \<^verbatim>\<open>malloc\<close> returned.\<close>

definition AlarmMsgInput :: "'i AlarmState \<Rightarrow> 'i \<Rightarrow> nat \<Rightarrow> fault + ('i AlarmState \<times> int)" where
  "AlarmMsgInput s info newMsg =
     rbind (drop_oldest s) (\<lambda>r. case r of None \<Rightarrow> Inr (s, KEY_FALSE)
     | Some s \<Rightarrow>
        if newMsg = 0 then Inl NullDeref
        else let (vs, ret) = hl_step (headlist s) (AddHandle newMsg) in
          if ret \<noteq> 0 then Inr (s, KEY_FALSE)
          else Inr (s\<lparr>headlist := vs, msgs := (msgs s)(newMsg \<mapsto> info), msgnum := msgnum s + 1\<rparr>, KEY_TRUE))"

definition AlarmMsgOut :: "'i AlarmState \<Rightarrow> nat" where
  "AlarmMsgOut s = next_handle (headlist s)"

definition AlarmMsgDel :: "'i AlarmState \<Rightarrow> nat \<Rightarrow> fault + ('i AlarmState \<times> int)" where
  "AlarmMsgDel s msg =
     (if msg = 0 then Inr (s, KEY_FALSE)
      else let (vs, ret) = hl_step (headlist s) (DelHandle msg) in
        if ret \<noteq> 0 then Inr (s, KEY_FALSE)
        else rbind (obj_load (msgs s) msg) (\<lambda>_.
          Inr (s\<lparr>headlist := vs, msgs := (msgs s)(msg := None), msgnum := msgnum s - 1\<rparr>, KEY_TRUE)))"

section \<open>Delivery\<close>

text \<open>\<open>AlarmFun\<close> is called with the alarm; what the receiver does with it is not modelled.\<close>

definition AlarmPushLoopDoFunc :: "nat \<Rightarrow> nat \<Rightarrow> 'i AlarmState \<Rightarrow> fault + 'i AlarmState" where
  "AlarmPushLoopDoFunc h msg s =
     (if h = 0 then Inr s
      else rbind (obj_load (handles s) h) (\<lambda>cur.
        if \<not> AlarmFun cur \<or> msg = 0 then Inr s
        else rbind (obj_load (msgs s) msg) (\<lambda>info. Inr (s\<lparr>calls := calls s @ [(h, info)]\<rparr>))))"

fun post_loop :: "nat list \<Rightarrow> nat \<Rightarrow> 'i AlarmState \<Rightarrow> fault + 'i AlarmState" where
  "post_loop [] msg s = Inr s"
| "post_loop (h # hs) msg s = rbind (AlarmPushLoopDoFunc h msg s) (post_loop hs msg)"

text \<open>
  One round of the loop of \<open>AlarmManageProc\<close>, in its three separate accesses to the queue:
  the thread sleeps when the queue is empty, delivers, and deletes the alarm.
\<close>

datatype alarm_pc = Idle | Taken nat | Delivered nat

definition proc_step :: "'i AlarmState \<times> alarm_pc \<Rightarrow> fault + ('i AlarmState \<times> alarm_pc)" where
  "proc_step c = (case c of
     (s, Idle) \<Rightarrow> let p = AlarmMsgOut s in Inr (s, if p = 0 then Idle else Taken p)
   | (s, Taken p) \<Rightarrow> rbind (post_loop (listHead_AlarmCB s) p s) (\<lambda>s. Inr (s, Delivered p))
   | (s, Delivered p) \<Rightarrow> rbind (AlarmMsgDel s p) (\<lambda>(s, _). Inr (s, Idle)))"

section \<open>Receivers\<close>

definition AlarmRegistHandle :: "'i AlarmState \<Rightarrow> nat \<Rightarrow> fault + ('i AlarmState \<times> int)" where
  "AlarmRegistHandle s h =
     (if h = 0 then Inr (s, - 1)
      else rbind (obj_load (handles s) h) (\<lambda>t.
        let (vs, ret) = hl_step (listHead_AlarmCB s) (AddHandle h);
            s = s\<lparr>handles := (handles s)(h \<mapsto> t\<lparr>pPushAlarm := True\<rparr>)\<rparr> in
        if ret = KEY_FALSE then Inr (s, KEY_FALSE)
        else Inr (s\<lparr>listHead_AlarmCB := vs\<rparr>, KEY_TRUE)))"

definition AlarmUnRegistHandle :: "'i AlarmState \<Rightarrow> nat \<Rightarrow> fault + ('i AlarmState \<times> int)" where
  "AlarmUnRegistHandle s h =
     (if h = 0 then Inr (s, - 1)
      else rbind (obj_load (handles s) h) (\<lambda>t.
        let (vs, ret) = hl_step (listHead_AlarmCB s) (DelHandle h);
            s = s\<lparr>handles := (handles s)(h \<mapsto> t\<lparr>pPushAlarm := False\<rparr>)\<rparr> in
        if ret = KEY_FALSE then Inr (s, KEY_FALSE)
        else Inr (s\<lparr>listHead_AlarmCB := vs\<rparr>, KEY_TRUE)))"

text \<open>\<open>thread_ok\<close>: whether \<^verbatim>\<open>pthread_create\<close> succeeded.\<close>

definition AlarmInit :: "'i AlarmState \<Rightarrow> nat \<Rightarrow> bool \<Rightarrow> fault + ('i AlarmState \<times> int)" where
  "AlarmInit s h thread_ok =
     rbind (AlarmRegistHandle s h) (\<lambda>(s, _).
       Inr (if thread_ok then (s\<lparr>g_innerExit := True\<rparr>, KEY_TRUE) else (s\<lparr>g_innerExit := False\<rparr>, KEY_FALSE)))"

definition AlarmUnInit :: "'i AlarmState \<Rightarrow> nat \<Rightarrow> fault + ('i AlarmState \<times> int)" where
  "AlarmUnInit s h = rbind (AlarmUnRegistHandle (s\<lparr>g_innerExit := False\<rparr>) h) (\<lambda>(s, _). Inr (s, KEY_TRUE))"

section \<open>The queue as a list of alarms\<close>

definition alarm_inv :: "'i AlarmState \<Rightarrow> bool" where
  "alarm_inv s \<longleftrightarrow> reg_ok (msgs s) (headlist s) \<and> msgnum s = int (length (headlist s)) \<and> msgnum s \<le> 201"

definition pending :: "'i AlarmState \<Rightarrow> 'i list" where
  "pending s = reg_recs (msgs s) (headlist s)"

lemma next_handle_simps [simp]: "next_handle [] = 0" "next_handle (v # vs) = v"
  by (simp_all add: next_handle_def)

lemma AlarmMsgInput_spec:
  assumes "alarm_inv s" "p \<noteq> 0" "msgs s p = None"
  shows "\<exists>s'. AlarmMsgInput s i p = Inr (s', KEY_TRUE) \<and> alarm_inv s' \<and>
           pending s' = (if length (pending s) = 201 then tl (pending s) else pending s) @ [i] \<and>
           headlist s' = (if length (pending s) = 201 then tl (headlist s) else headlist s) @ [p] \<and>
           msgs s' = (if length (pending s) = 201 then (msgs s)(hd (headlist s) := None) else msgs s)(p \<mapsto> i) \<and>
           listHead_AlarmCB s' = listHead_AlarmCB s \<and> handles s' = handles s \<and> calls s' = calls s"
proof (cases "length (headlist s) = 201")
  case True
  then obtain v vs where v: "headlist s = v # vs" by (cases "headlist s") auto
  with assms have ok: "v \<noteq> 0" "v \<notin> set vs" "reg_ok (msgs s) vs" "p \<noteq> v" "p \<notin> set vs"
    by (auto simp: alarm_inv_def reg_ok_def)
  obtain x where x: "msgs s v = Some x" using assms(1) v by (auto simp: alarm_inv_def reg_ok_Cons)
  let ?s = "s\<lparr>headlist := vs @ [p], msgs := ((msgs s)(v := None))(p \<mapsto> i), msgnum := msgnum s\<rparr>"
  have "AlarmMsgInput s i p = Inr (?s, KEY_TRUE)"
    using assms True v ok x by (simp add: AlarmMsgInput_def drop_oldest_def alarm_inv_def)
  moreover have "alarm_inv ?s" using assms(1,2) ok v by (auto simp: alarm_inv_def reg_ok_def)
  moreover have "pending ?s = tl (pending s) @ [i]" using v ok by (simp add: pending_def)
  ultimately show ?thesis using True v by (auto simp: pending_def)
next
  case False
  then have l: "length (headlist s) \<le> 200" using assms(1) by (auto simp: alarm_inv_def)
  have n: "p \<notin> set (headlist s)" using assms by (auto simp: alarm_inv_def reg_ok_def)
  let ?s = "s\<lparr>headlist := headlist s @ [p], msgs := (msgs s)(p \<mapsto> i), msgnum := msgnum s + 1\<rparr>"
  have "AlarmMsgInput s i p = Inr (?s, KEY_TRUE)"
    using assms l by (simp add: AlarmMsgInput_def drop_oldest_def alarm_inv_def)
  moreover have "alarm_inv ?s" using assms l n by (auto simp: alarm_inv_def reg_ok_def)
  moreover have "pending ?s = pending s @ [i]" using n by (simp add: pending_def)
  ultimately show ?thesis using False by (auto simp: pending_def)
qed

lemma AlarmMsgDel_spec:
  assumes "alarm_inv s" "p \<noteq> 0"
  shows "if p \<in> set (headlist s)
         then \<exists>s'. AlarmMsgDel s p = Inr (s', KEY_TRUE) \<and> alarm_inv s' \<and> headlist s' = remove1 p (headlist s) \<and>
                   msgs s' = (msgs s)(p := None) \<and>
                   listHead_AlarmCB s' = listHead_AlarmCB s \<and> handles s' = handles s \<and> calls s' = calls s
         else AlarmMsgDel s p = Inr (s, KEY_FALSE)"
proof (cases "p \<in> set (headlist s)")
  case True
  with assms obtain x where x: "msgs s p = Some x" by (auto simp: alarm_inv_def reg_ok_def)
  have "length (headlist s) > 0" using True by auto
  then have "alarm_inv (s\<lparr>headlist := remove1 p (headlist s), msgs := (msgs s)(p := None), msgnum := msgnum s - 1\<rparr>)"
    using assms True reg_ok_del [of "msgs s" "headlist s" p]
    by (auto simp: alarm_inv_def length_remove1 of_nat_diff Suc_leI)
  then show ?thesis using True assms(2) x by (auto simp: AlarmMsgDel_def)
next
  case False
  then show ?thesis using assms by (simp add: AlarmMsgDel_def)
qed

section \<open>Interleaving with producers\<close>

inductive alarm_step :: "'i AlarmState \<times> alarm_pc \<Rightarrow> 'i AlarmState \<times> alarm_pc \<Rightarrow> bool" where
  push: "p \<noteq> 0 \<Longrightarrow> msgs s p = None \<Longrightarrow> AlarmMsgInput s i p = Inr (s', r) \<Longrightarrow> alarm_step (s, pc) (s', pc)"
| proc: "proc_step c = Inr c' \<Longrightarrow> alarm_step c c'"

inductive_cases alarm_stepE: "alarm_step c c'"

definition pc_ok :: "alarm_pc \<Rightarrow> bool" where
  "pc_ok pc \<longleftrightarrow> pc \<noteq> Taken 0 \<and> pc \<noteq> Delivered 0"

lemma AlarmPushLoopDoFunc_sel:
  "AlarmPushLoopDoFunc h p s = Inr s' \<Longrightarrow> s' = s\<lparr>calls := calls s'\<rparr>"
  by (auto simp: AlarmPushLoopDoFunc_def outcome_iff split: if_splits)

lemma post_loop_sel: "post_loop hs p s = Inr s' \<Longrightarrow> s' = s\<lparr>calls := calls s'\<rparr>"
proof (induction hs arbitrary: s)
  case (Cons h hs)
  then obtain s1 where "AlarmPushLoopDoFunc h p s = Inr s1" "post_loop hs p s1 = Inr s'"
    by (auto simp: outcome_iff)
  with Cons.IH [of s1] AlarmPushLoopDoFunc_sel [of h p s s1] show ?case
    by (metis AlarmState.update_convs(7) AlarmState.surjective)
qed simp

lemma alarm_inv_calls [simp]: "alarm_inv (s\<lparr>calls := x\<rparr>) \<longleftrightarrow> alarm_inv s"
  by (simp add: alarm_inv_def)

lemma proc_step_inv:
  assumes "proc_step (s, pc) = Inr (s', pc')" "alarm_inv s" "pc_ok pc"
  shows "alarm_inv s' \<and> pc_ok pc'"
proof (cases pc)
  case Idle
  with assms show ?thesis by (auto simp: proc_step_def Let_def pc_ok_def split: if_splits)
next
  case (Taken p)
  with assms obtain "post_loop (listHead_AlarmCB s) p s = Inr s'" "pc' = Delivered p"
    by (auto simp: proc_step_def outcome_iff)
  moreover from this(1) have "s' = s\<lparr>calls := calls s'\<rparr>" by (rule post_loop_sel)
  then have "alarm_inv s'" using assms(2) by (metis alarm_inv_calls)
  ultimately show ?thesis using Taken assms(3) by (simp add: pc_ok_def)
next
  case (Delivered p)
  with assms have "p \<noteq> 0" by (auto simp: pc_ok_def)
  with AlarmMsgDel_spec [OF assms(2) this] Delivered assms(1,2) show ?thesis
    by (auto simp: proc_step_def outcome_iff pc_ok_def split: if_splits)
qed

lemma alarm_step_inv:
  assumes "alarm_step c c'" "alarm_inv (fst c)" "pc_ok (snd c)"
  shows "alarm_inv (fst c') \<and> pc_ok (snd c')"
  using assms
proof (induction rule: alarm_step.induct)
  case (push p s i s' r pc)
  then show ?case using AlarmMsgInput_spec [of s p i] by auto
next
  case (proc c c')
  then show ?case using proc_step_inv [of "fst c" "snd c" "fst c'" "snd c'"] by simp
qed

lemma alarm_steps_inv:
  assumes "alarm_step\<^sup>*\<^sup>* c c'" "alarm_inv (fst c)" "pc_ok (snd c)"
  shows "alarm_inv (fst c') \<and> pc_ok (snd c')"
  using assms by (induction rule: rtranclp_induct) (auto dest: alarm_step_inv)

section \<open>Undisturbed delivery\<close>

fun proc_run :: "nat \<Rightarrow> 'i AlarmState \<times> alarm_pc \<Rightarrow> fault + ('i AlarmState \<times> alarm_pc)" where
  "proc_run 0 c = Inr c"
| "proc_run (Suc n) c = rbind (proc_step c) (proc_run n)"

definition receivers_ok :: "'i AlarmState \<Rightarrow> bool" where
  "receivers_ok s \<longleftrightarrow> 0 \<notin> set (listHead_AlarmCB s) \<and>
     (\<forall>h \<in> set (listHead_AlarmCB s). \<exists>t. handles s h = Some t \<and> AlarmFun t)"

lemma post_loop_delivers:
  assumes "p \<noteq> 0" "msgs s p = Some i" "0 \<notin> set hs" "\<forall>h \<in> set hs. \<exists>t. handles s h = Some t \<and> AlarmFun t"
  shows "post_loop hs p s = Inr (s\<lparr>calls := calls s @ map (\<lambda>h. (h, i)) hs\<rparr>)"
  using assms
proof (induction hs arbitrary: s)
  case (Cons h hs)
  then have "AlarmPushLoopDoFunc h p s = Inr (s\<lparr>calls := calls s @ [(h, i)]\<rparr>)"
    by (auto simp: AlarmPushLoopDoFunc_def)
  with Cons show ?case by simp
qed simp

text \<open>Three steps deliver the oldest alarm and remove it.\<close>

lemma proc_round:
  assumes "alarm_inv s" "receivers_ok s" "pending s = i # is"
  shows "\<exists>s'. proc_run 3 (s, Idle) = Inr (s', Idle) \<and> alarm_inv s' \<and> receivers_ok s' \<and> pending s' = is \<and>
           calls s' = calls s @ map (\<lambda>h. (h, i)) (listHead_AlarmCB s) \<and>
           listHead_AlarmCB s' = listHead_AlarmCB s"
proof -
  obtain p ps where h: "headlist s = p # ps" using assms(3) by (cases "headlist s") (auto simp: pending_def)
  have p: "p \<noteq> 0" "msgs s p = Some i" "p \<notin> set ps"
    using assms(1,3) h by (auto simp: alarm_inv_def reg_ok_Cons pending_def)
  let ?s1 = "s\<lparr>calls := calls s @ map (\<lambda>h. (h, i)) (listHead_AlarmCB s)\<rparr>"
  have d: "post_loop (listHead_AlarmCB s) p s = Inr ?s1"
    using post_loop_delivers [OF p(1,2)] assms(2) by (simp add: receivers_ok_def)
  obtain s2 where s2: "AlarmMsgDel ?s1 p = Inr (s2, KEY_TRUE)" "alarm_inv s2" "headlist s2 = ps"
      "msgs s2 = (msgs s)(p := None)" "listHead_AlarmCB s2 = listHead_AlarmCB s" "handles s2 = handles s"
      "calls s2 = calls ?s1"
    using AlarmMsgDel_spec [of ?s1 p] assms(1) h p(1) by auto
  have "proc_run 3 (s, Idle) = Inr (s2, Idle)"
    using h p(1) d s2(1) by (simp add: numeral_3_eq_3 proc_step_def AlarmMsgOut_def)
  moreover have "pending s2 = is" using s2(3,4) p(3) h assms(3) by (simp add: pending_def)
  ultimately show ?thesis using s2 assms(2) by (auto simp: receivers_ok_def)
qed

lemma proc_run_add: "proc_run (m + n) c = rbind (proc_run m c) (proc_run n)"
  by (induction m arbitrary: c) (auto simp: rbind_def split: sum.splits)

lemma proc_run_all:
  assumes "alarm_inv s" "receivers_ok s"
  shows "\<exists>s'. proc_run (3 * length (pending s)) (s, Idle) = Inr (s', Idle) \<and> alarm_inv s' \<and> pending s' = [] \<and>
           calls s' = calls s @ concat (map (\<lambda>i. map (\<lambda>h. (h, i)) (listHead_AlarmCB s)) (pending s))"
  using assms
proof (induction "pending s" arbitrary: s)
  case Nil
  then show ?case by (simp flip: Nil.hyps)
next
  case (Cons i "is")
  from proc_round [OF Cons.prems Cons.hyps(2) [symmetric]] obtain s1 where
      s1: "proc_run 3 (s, Idle) = Inr (s1, Idle)" "alarm_inv s1" "receivers_ok s1" "pending s1 = is"
        "calls s1 = calls s @ map (\<lambda>h. (h, i)) (listHead_AlarmCB s)"
        "listHead_AlarmCB s1 = listHead_AlarmCB s" by blast
  from Cons.hyps(1) [OF s1(4) [symmetric] s1(2,3)] s1 show ?case
    by (simp add: proc_run_add flip: Cons.hyps(2))
qed

section \<open>Properties\<close>

definition demo_alarms :: "nat AlarmState" where
  "demo_alarms = \<lparr>headlist = [5, 6], msgnum = 2, msgs = [5 \<mapsto> 50, 6 \<mapsto> 60], listHead_AlarmCB = [9],
     handles = [9 \<mapsto> \<lparr>pPushAlarm = True, AlarmFun = True\<rparr>], g_innerExit = True, calls = []\<rparr>"

lemma demo_alarms_inv: "alarm_inv demo_alarms" "receivers_ok demo_alarms" "pending demo_alarms = [50, 60]"
  by (simp_all add: alarm_inv_def reg_ok_def demo_alarms_def receivers_ok_def pending_def)

text \<open>
  C8. The alarm queue under any interleaving of producers with the delivery thread: the
  counter \<^verbatim>\<open>msgnum\<close> always is the length of the list, never exceeds 201 (one more than
  \<^verbatim>\<open>MAX_PUSHMSG_NUM\<close>), and every queued block is alive.
\<close>

theorem alarm_queue_inv:
  assumes "alarm_step\<^sup>*\<^sup>* (s, Idle) (s', pc)" "alarm_inv s"
  shows "msgnum s' = int (length (headlist s')) \<and> msgnum s' \<le> 201 \<and> reg_ok (msgs s') (headlist s')"
  using alarm_steps_inv [OF assms(1)] assms(2) by (simp add: pc_ok_def alarm_inv_def)

theorem alarm_queue_inv_witness:
  "\<exists>s' pc. alarm_step\<^sup>*\<^sup>* (demo_alarms, Idle) (s', pc) \<and> msgnum s' = 3 \<and> msgnum s' \<le> 201"
proof -
  obtain s' where s': "AlarmMsgInput demo_alarms 70 7 = Inr (s', KEY_TRUE)" "headlist s' = [5, 6, 7]"
    using AlarmMsgInput_spec [OF demo_alarms_inv(1), of 7 70] demo_alarms_inv(3) by (auto simp: demo_alarms_def)
  then have r: "alarm_step\<^sup>*\<^sup>* (demo_alarms, Idle) (s', Idle)"
    by (intro r_into_rtranclp push [of 7]) (auto simp: demo_alarms_def)
  from alarm_queue_inv [OF r demo_alarms_inv(1)] r s'(2) show ?thesis by auto
qed

text \<open>
  C9. Undisturbed, the delivery thread hands every pending alarm to every registered receiver
  exactly once, alarms in the order they were pushed and receivers in the order they
  registered, and leaves the queue empty.
\<close>

theorem alarm_delivery:
  assumes "alarm_inv s" "receivers_ok s"
  shows "\<exists>s'. proc_run (3 * length (pending s)) (s, Idle) = Inr (s', Idle) \<and> pending s' = [] \<and>
           calls s' = calls s @ concat (map (\<lambda>i. map (\<lambda>h. (h, i)) (listHead_AlarmCB s)) (pending s))"
  using proc_run_all [OF assms] by blast

theorem alarm_delivery_witness:
  "\<exists>s'. proc_run 6 (demo_alarms, Idle) = Inr (s', Idle) \<and> calls s' = [(9, 50), (9, 60)]"
  using alarm_delivery [OF demo_alarms_inv(1,2)] unfolding demo_alarms_inv(3)
  by (auto simp: demo_alarms_def)

text \<open>
  C10. A defect: the delivery thread keeps the pointer it got from \<open>AlarmMsgOut\<close> without holding
  the mutex. If the queue is full, one push between taking and delivering frees the alarm, and the
  delivery then reads freed memory.
\<close>

theorem alarm_use_after_free:
  assumes "alarm_inv s" "length (pending s) = 201" "receivers_ok s" "listHead_AlarmCB s \<noteq> []"
    and "p \<noteq> 0" "msgs s p = None"
  shows "\<exists>v s1. proc_step (s, Idle) = Inr (s, Taken v) \<and> AlarmMsgInput s i p = Inr (s1, KEY_TRUE) \<and>
           proc_step (s1, Taken v) = Inl BadPointer"
proof -
  obtain v vs where v: "headlist s = v # vs" using assms(2) by (cases "headlist s") (auto simp: pending_def)
  have v0: "v \<noteq> 0" "p \<noteq> v" using assms(1,6) v by (auto simp: alarm_inv_def reg_ok_Cons)
  obtain s1 where s1: "AlarmMsgInput s i p = Inr (s1, KEY_TRUE)" "msgs s1 = ((msgs s)(v := None))(p \<mapsto> i)"
      "listHead_AlarmCB s1 = listHead_AlarmCB s" "handles s1 = handles s"
    using AlarmMsgInput_spec [OF assms(1,5,6), of i] assms(2) v by auto
  obtain h hs where "listHead_AlarmCB s = h # hs" using assms(4) by (cases "listHead_AlarmCB s") auto
  moreover from this assms(3) obtain t where "h \<noteq> 0" "handles s h = Some t" "AlarmFun t"
    by (auto simp: receivers_ok_def)
  moreover have "msgs s1 v = None" using s1(2) v0(2) by simp
  ultimately have "proc_step (s1, Taken v) = Inl BadPointer"
    using s1(3,4) v0(1) by (simp add: proc_step_def AlarmPushLoopDoFunc_def)
  moreover have "proc_step (s, Idle) = Inr (s, Taken v)" using v v0 by (simp add: proc_step_def AlarmMsgOut_def)
  ultimately show ?thesis using s1(1) by blast
qed

definition full_alarms :: "nat AlarmState" where
  "full_alarms = demo_alarms\<lparr>headlist := [1..<202], msgnum := 201, msgs := (\<lambda>p. if p \<in> {1..<202} then Some 0 else None)\<rparr>"

theorem alarm_use_after_free_witness:
  "\<exists>v s1. AlarmMsgInput full_alarms 7 300 = Inr (s1, KEY_TRUE) \<and> proc_step (s1, Taken v) = Inl BadPointer"
proof -
  have "alarm_inv full_alarms" "length (pending full_alarms) = 201"
    by (auto simp: alarm_inv_def full_alarms_def reg_ok_def pending_def dom_def split: if_splits
        simp del: upt_rec_numeral)
  moreover have "receivers_ok full_alarms" "listHead_AlarmCB full_alarms \<noteq> []" "msgs full_alarms 300 = None"
    using demo_alarms_inv(2) by (simp_all add: receivers_ok_def full_alarms_def demo_alarms_def)
  ultimately show ?thesis using alarm_use_after_free [of full_alarms 300 7] by auto
qed

end
