(* ===== verification/CString.thy ===== *)
theory CString
  imports Prelude
begin

text \<open>
  NUL-terminated strings in character buffers and the functions of the C library the code
  applies to them. A buffer is the list of all its characters, a pointer into it an offset; a
  read or write outside the buffer is a fault. The text at a pointer is what comes before the
  next NUL; a buffer in which none follows has no text there.
\<close>

section \<open>Buffers of characters\<close>

abbreviation NUL :: char where "NUL \<equiv> CHR 0x00"

definition ch :: "string \<Rightarrow> nat \<Rightarrow> fault + char" where
  "ch mem k = (if k < length mem then Inr (mem ! k) else Inl OutOfBounds)"

definition put :: "string \<Rightarrow> nat \<Rightarrow> char \<Rightarrow> fault + string" where
  "put mem k c = (if k < length mem then Inr (mem[k := c]) else Inl OutOfBounds)"

definition put_all :: "string \<Rightarrow> nat \<Rightarrow> string \<Rightarrow> fault + string" where
  "put_all mem k s = (if k + length s \<le> length mem
                      then Inr (take k mem @ s @ drop (k + length s) mem) else Inl OutOfBounds)"

definition c_str :: "string \<Rightarrow> nat \<Rightarrow> fault + string" where
  "c_str mem k = (if NUL \<in> set (drop k mem) then Inr (takeWhile (\<lambda>c. c \<noteq> NUL) (drop k mem))
                  else Inl OutOfBounds)"

text \<open>\<^verbatim>\<open>sprintf(buf, "%s", s)\<close> and \<^verbatim>\<open>snprintf(buf, n, "%s", s)\<close> for a positive \<open>n\<close>.\<close>

definition sprintf :: "string \<Rightarrow> string \<Rightarrow> fault + string" where
  "sprintf mem s = put_all mem 0 (s @ [NUL])"

definition snprintf :: "string \<Rightarrow> nat \<Rightarrow> string \<Rightarrow> fault + string" where
  "snprintf mem n s = (if n = 0 then Inr mem else put_all mem 0 (take (n - 1) s @ [NUL]))"

definition strcat :: "string \<Rightarrow> string \<Rightarrow> fault + string" where
  "strcat mem s = rbind (c_str mem 0) (\<lambda>t. put_all mem (length t) (s @ [NUL]))"

fun is_prefix :: "string \<Rightarrow> string \<Rightarrow> bool" where
  "is_prefix [] ys = True"
| "is_prefix (x # xs) [] = False"
| "is_prefix (x # xs) (y # ys) = (x = y \<and> is_prefix xs ys)"

fun strstr :: "string \<Rightarrow> string \<Rightarrow> nat option" where
  "strstr [] pat = (if pat = [] then Some 0 else None)"
| "strstr (c # cs) pat = (if is_prefix pat (c # cs) then Some 0 else map_option Suc (strstr cs pat))"

text \<open>\<^verbatim>\<open>%d\<close>.\<close>

fun print_nat :: "nat \<Rightarrow> string" where
  "print_nat n = (if n < 10 then [char_of (48 + n)] else print_nat (n div 10) @ [char_of (48 + n mod 10)])"

declare print_nat.simps [simp del]

definition print_int :: "int \<Rightarrow> string" where
  "print_int i = (if i < 0 then CHR ''-'' # print_nat (nat (- i)) else print_nat (nat i))"

section \<open>Facts on buffers\<close>

lemma ch_simps [simp]:
  "k < length mem \<Longrightarrow> ch mem k = Inr (mem ! k)"
  "\<not> k < length mem \<Longrightarrow> ch mem k = Inl OutOfBounds"
  by (simp_all add: ch_def)

lemma put_simps [simp]:
  "k < length mem \<Longrightarrow> put mem k c = Inr (mem[k := c])"
  "\<not> k < length mem \<Longrightarrow> put mem k c = Inl OutOfBounds"
  by (simp_all add: put_def)

lemma put_all_fits:
  "k + length s \<le> length mem \<Longrightarrow> put_all mem k s = Inr (take k mem @ s @ drop (k + length s) mem)"
  by (simp add: put_all_def)

lemma put_all_overflow: "k + length s > length mem \<Longrightarrow> put_all mem k s = Inl OutOfBounds"
  by (simp add: put_all_def)

lemma put_all_length: "put_all mem k s = Inr mem' \<Longrightarrow> length mem' = length mem"
  by (auto simp: put_all_def split: if_splits)

lemma takeWhile_NUL [simp]: "NUL \<notin> set s \<Longrightarrow> takeWhile (\<lambda>c. c \<noteq> NUL) (s @ NUL # r) = s"
  by (induction s) auto

lemma c_str_at [simp]:
  "NUL \<notin> set s \<Longrightarrow> c_str (s @ NUL # r) 0 = Inr s"
  by (simp add: c_str_def)

lemma c_str_at_drop:
  "NUL \<notin> set s \<Longrightarrow> drop k mem = s @ NUL # r \<Longrightarrow> c_str mem k = Inr s"
  by (simp add: c_str_def)

lemma sprintf_fits:
  "length s < length mem \<Longrightarrow> sprintf mem s = Inr (s @ NUL # drop (Suc (length s)) mem)"
  by (simp add: sprintf_def put_all_fits)

lemma sprintf_overflow: "length mem \<le> length s \<Longrightarrow> sprintf mem s = Inl OutOfBounds"
  by (simp add: sprintf_def put_all_overflow)

text \<open>What \<^verbatim>\<open>sprintf\<close> writes is the text of the buffer.\<close>

lemma sprintf_c_str:
  "sprintf mem s = Inr mem' \<Longrightarrow> NUL \<notin> set s \<Longrightarrow> c_str mem' 0 = Inr s \<and> length mem' = length mem"
  by (auto simp: sprintf_def put_all_def split: if_splits)

lemma strcat_text:
  assumes "NUL \<notin> set t" "length t + length s < length (t @ NUL # r)"
  shows "\<exists>r'. strcat (t @ NUL # r) s = Inr (t @ s @ NUL # r') \<and>
              length (t @ s @ NUL # r') = length (t @ NUL # r)"
proof -
  have "strcat (t @ NUL # r) s = put_all (t @ NUL # r) (length t) (s @ [NUL])"
    using assms by (simp add: strcat_def)
  then show ?thesis using assms by (simp add: put_all_fits)
qed

section \<open>Searching\<close>

lemma is_prefix_iff: "is_prefix p s \<longleftrightarrow> (\<exists>r. s = p @ r)"
  by (induction p s rule: is_prefix.induct) auto

lemma is_prefix_take: "is_prefix p s \<longleftrightarrow> take (length p) s = p"
  by (induction p s rule: is_prefix.induct) auto

lemma is_prefix_append [simp]: "is_prefix p (p @ r)"
  by (simp add: is_prefix_iff)

lemma strstr_Some:
  "strstr s p = Some k \<Longrightarrow> is_prefix p (drop k s) \<and> k + length p \<le> length s \<and>
     (\<forall>j < k. \<not> is_prefix p (drop j s))"
proof (induction s arbitrary: k)
  case (Cons c cs)
  show ?case
  proof (cases "is_prefix p (c # cs)")
    case True
    then have "length p \<le> length (c # cs)" by (metis is_prefix_iff le_add1 length_append)
    then show ?thesis using True Cons.prems by simp
  next
    case False
    then obtain j where "k = Suc j" "strstr cs p = Some j" using Cons.prems by auto
    then show ?thesis using False Cons.IH [of j] by (auto simp: less_Suc_eq_0_disj)
  qed
qed (auto split: if_splits)

lemma strstr_None: "strstr s p = None \<Longrightarrow> \<not> is_prefix p (drop j s)"
proof (induction s arbitrary: j)
  case (Cons c cs)
  then show ?case by (cases j) (auto split: if_splits)
qed (cases p, auto)

text \<open>The first occurrence: no occurrence starts in the part before it.\<close>

lemma strstr_first:
  "(\<forall>j < length u. \<not> is_prefix p (drop j (u @ p @ v))) \<Longrightarrow> strstr (u @ p @ v) p = Some (length u)"
proof (induction u)
  case Nil
  show ?case
  proof (cases "p @ v")
    case (Cons a list)
    then have "is_prefix p (a # list)" by (metis is_prefix_append)
    then show ?thesis by (simp add: Cons)
  qed simp
next
  case (Cons c u)
  have "\<not> is_prefix p (c # (u @ p @ v))" using Cons.prems by force
  moreover have "strstr (u @ p @ v) p = Some (length u)"
    using Cons.prems by (intro Cons.IH) force
  ultimately show ?case by simp
qed

text \<open>Searching a text piece by piece.\<close>

lemma strstr_not_starting:
  "p \<noteq> [] \<Longrightarrow> hd p \<notin> set w \<Longrightarrow> strstr (w @ v) p = map_option ((+) (length w)) (strstr v p)"
proof (induction w)
  case (Cons c w)
  then have "\<not> is_prefix p (c # w @ v)" by (cases p) auto
  then show ?case using Cons by (auto simp: option.map_comp comp_def intro!: option.map_cong)
qed (cases "strstr v p", auto)

lemma strstr_absent: "p \<noteq> [] \<Longrightarrow> hd p \<notin> set w \<Longrightarrow> strstr w p = None"
  using strstr_not_starting [of p w "[]"] by simp

lemma is_prefix_sep:
  "c \<notin> set p \<Longrightarrow> is_prefix p (u @ c # v) \<longleftrightarrow> is_prefix p u"
proof (induction p u rule: is_prefix.induct)
  case (2 x xs)
  then show ?case by auto
qed auto

lemma strstr_sep:
  assumes "p \<noteq> []" "c \<notin> set p"
  shows "strstr (u @ c # v) p =
    (case strstr u p of Some k \<Rightarrow> Some k | None \<Rightarrow> map_option ((+) (Suc (length u))) (strstr v p))"
proof (induction u)
  case Nil
  have "\<not> is_prefix p (c # v)" using assms by (cases p) auto
  then show ?case using assms by (cases "strstr v p") auto
next
  case (Cons d u)
  have "is_prefix p (d # u @ c # v) \<longleftrightarrow> is_prefix p (d # u)"
    using is_prefix_sep [OF assms(2), of "d # u" v] by simp
  then show ?case using Cons by (auto simp: option.map_comp comp_def split: option.splits intro!: option.map_cong)
qed

lemma strstr_sep_None:
  "p \<noteq> [] \<Longrightarrow> c \<notin> set p \<Longrightarrow> strstr u p = None \<Longrightarrow>
   strstr (u @ c # v) p = map_option ((+) (Suc (length u))) (strstr v p)"
  by (simp add: strstr_sep)

lemma is_prefix_take_iff: "length p \<le> k \<Longrightarrow> is_prefix p (take k s) \<longleftrightarrow> is_prefix p s"
  by (simp add: is_prefix_take min_absorb1)

text \<open>A prefix of the text contains the first occurrence when it reaches to its end.\<close>

lemma strstr_take:
  assumes "strstr s p = Some k" "p \<noteq> []"
  shows "strstr (take n s) p = (if k + length p \<le> n then Some k else None)"
  using assms
proof (induction s arbitrary: k n)
  case (Cons c cs)
  show ?case
  proof (cases n)
    case 0
    then show ?thesis using Cons.prems(2) by (cases p) auto
  next
    case (Suc m)
    show ?thesis
    proof (cases "is_prefix p (c # cs)")
      case True
      then have k: "k = 0" using Cons.prems by simp
      have "is_prefix p (take n (c # cs)) \<longleftrightarrow> length p \<le> n"
        using True by (cases "length p \<le> n") (auto simp: is_prefix_take_iff, auto simp: is_prefix_iff dest: arg_cong [where f = length])
      moreover have "strstr (take m cs) p = None" if "\<not> length p \<le> n"
      proof -
        have "length (take m cs) < length p" using that Suc by simp
        then show ?thesis by (metis add_leD2 leD strstr_Some not_None_eq)
      qed
      ultimately show ?thesis using k Suc by auto
    next
      case False
      then obtain j where j: "k = Suc j" "strstr cs p = Some j" using Cons.prems by auto
      have "\<not> is_prefix p (take n (c # cs))"
        using False by (auto simp: is_prefix_iff) (metis append_take_drop_id append.assoc)
      then show ?thesis using Cons.IH [OF j(2) Cons.prems(2), of m] j Suc by auto
    qed
  qed
qed simp

section \<open>Printing and reading integers\<close>

lemma char_digit [simp]:
  "d < 10 \<Longrightarrow> (of_char (char_of (48 + d :: nat)) :: nat) = 48 + d"
  by simp

lemma c_isdigit_digit [simp]: "d < 10 \<Longrightarrow> c_isdigit (char_of (48 + d :: nat))"
  by (simp add: c_isdigit_def)

lemma print_nat_digits: "c \<in> set (print_nat n) \<Longrightarrow> c_isdigit c"
  by (induction n rule: print_nat.induct) (subst (asm) print_nat.simps, auto split: if_splits)

lemma print_nat_nonempty [simp]: "print_nat n \<noteq> []"
  by (subst print_nat.simps) simp

lemma digits_val_snoc: "digits_val (ds @ [c]) = 10 * digits_val ds + (of_char c - 48)"
  by (simp add: digits_val_def)

lemma digits_val_print: "digits_val (print_nat n) = int n"
proof (induction n rule: print_nat.induct)
  case (1 n)
  have o: "(of_char (char_of (48 + d :: nat)) :: int) = 48 + int d" if "d < 10" for d
  proof -
    have "(of_char (char_of (48 + d)) :: int) = int (of_char (char_of (48 + d)))"
      by (rule of_nat_of_char [symmetric])
    then show ?thesis by (simp only: char_digit [OF that] of_nat_add of_nat_numeral)
  qed
  show ?case
  proof (cases "n < 10")
    case True
    then show ?thesis by (subst print_nat.simps) (simp add: digits_val_def o)
  next
    case False
    then show ?thesis using 1 by (subst print_nat.simps) (simp add: digits_val_snoc o zdiv_int zmod_int)
  qed
qed

lemma digit_not_space: "c_isdigit c \<Longrightarrow> \<not> c_isspace c \<and> c \<noteq> CHR ''-'' \<and> c \<noteq> CHR ''+'' \<and> c \<noteq> NUL"
  by (auto simp: c_isdigit_def c_isspace_def)

lemma takeWhile_digits:
  assumes "r = [] \<or> \<not> c_isdigit (hd r)"
  shows "takeWhile c_isdigit (print_nat n @ r) = print_nat n"
  using assms print_nat_digits by (cases r) (auto simp: takeWhile_append2 [of _ c_isdigit])

text \<open>\<^verbatim>\<open>atoi\<close> reads back what \<^verbatim>\<open>%d\<close> prints.\<close>

lemma atoi_print_int:
  assumes "r = [] \<or> \<not> c_isdigit (hd r)"
  shows "atoi (print_int i @ r) = i"
proof (cases "i < 0")
  case True
  have "\<not> c_isspace (CHR ''-'')" by (simp add: c_isspace_def)
  then show ?thesis using True
    by (simp add: atoi_def print_int_def takeWhile_digits [OF assms] digits_val_print)
next
  case False
  obtain c cs where c: "print_nat (nat i) = c # cs" by (cases "print_nat (nat i)") auto
  then have d: "c_isdigit c" using print_nat_digits [of c "nat i"] by simp
  have "atoi (print_nat (nat i) @ r) = digits_val (takeWhile c_isdigit (print_nat (nat i) @ r))"
    using digit_not_space [OF d] by (simp add: atoi_def c)
  then show ?thesis using False
    by (simp add: takeWhile_digits [OF assms] digits_val_print print_int_def)
qed

lemma print_int_no_NUL: "NUL \<notin> set (print_int i)"
  using print_nat_digits digit_not_space by (auto simp: print_int_def)

lemma length_print_nat: "n < 10 ^ Suc k \<Longrightarrow> length (print_nat n) \<le> Suc k"
proof (induction k arbitrary: n)
  case 0
  then show ?case by (subst print_nat.simps) simp
next
  case (Suc k)
  then have "n div 10 < 10 ^ Suc k" by (simp add: less_mult_imp_div_less)
  then show ?case using Suc.IH [of "n div 10"] by (subst print_nat.simps) auto
qed

end
