(* ===== verification/CJson.thy ===== *)
theory CJson
  imports CString Complex_Main
begin

text \<open>
  The JSON library \<^verbatim>\<open>src/ExtLibs/CJson/cjson.c\<close> through which the servers take requests apart
  and build replies: parser, printer and the operations on trees.

  An item is a node of a tree; the chain of siblings that the code links through \<^verbatim>\<open>next\<close> and
  \<^verbatim>\<open>prev\<close> is the list of children of the parent. The text to be parsed is the memory from the
  current pointer to the end of its block, so that running past the block is a fault, and
  moving the pointer is dropping characters. Parse failures (a NULL result) are \<open>None\<close> inside
  a normal return. The parser is given fuel because its functions call each other; three units
  for each character and one more are always enough (\<open>parse_value_total\<close>).

  \<^verbatim>\<open>valuedouble\<close> is a rational: numbers are computed exactly where the code computes in double
  precision, which is the same for integers below $2^{53}$. Formats other than \<^verbatim>\<open>%d\<close> are an
  argument of the printer. The error pointer \<^verbatim>\<open>ep\<close> is not modelled, nor is failure of \<^verbatim>\<open>malloc\<close>.
\<close>

section \<open>Items\<close>

abbreviation DQ :: char where "DQ \<equiv> CHR 0x22"
abbreviation BSL :: char where "BSL \<equiv> CHR 0x5C"

datatype cJSON = CJson (ctype: nat) (child: "cJSON list") (valuestring: "string option")
  (valueint: int) (valuedouble: rat) (cname: "string option")

abbreviation (input) cJSON_False :: nat where "cJSON_False \<equiv> 0"
abbreviation (input) cJSON_True :: nat where "cJSON_True \<equiv> 1"
abbreviation (input) cJSON_NULL :: nat where "cJSON_NULL \<equiv> 2"
abbreviation (input) cJSON_Number :: nat where "cJSON_Number \<equiv> 3"
abbreviation (input) cJSON_String :: nat where "cJSON_String \<equiv> 4"
abbreviation (input) cJSON_Array :: nat where "cJSON_Array \<equiv> 5"
abbreviation (input) cJSON_Object :: nat where "cJSON_Object \<equiv> 6"
abbreviation (input) cJSON_IsReference :: nat where "cJSON_IsReference \<equiv> 256"

definition cJSON_New_Item :: cJSON where
  "cJSON_New_Item = CJson 0 [] None 0 0 None"

fun set_name :: "string option \<Rightarrow> cJSON \<Rightarrow> cJSON" where
  "set_name s (CJson t c v i d _) = CJson t c v i d s"

fun set_child :: "cJSON list \<Rightarrow> cJSON \<Rightarrow> cJSON" where
  "set_child c (CJson t _ v i d s) = CJson t c v i d s"

section \<open>Reading text\<close>

type_synonym 'a parse = "('a \<times> string) option"

definition pk :: "string \<Rightarrow> fault + char" where
  "pk v = (case v of [] \<Rightarrow> Inl OutOfBounds | c # _ \<Rightarrow> Inr c)"

definition skip :: "string \<Rightarrow> fault + string" where
  "skip v = (let r = dropWhile (\<lambda>c. c \<noteq> NUL \<and> (of_char c :: nat) \<le> 32) v
             in if r = [] then Inl OutOfBounds else Inr r)"

text \<open>\<^verbatim>\<open>strncmp(value, "null", 4)\<close> and the like.\<close>

fun lit_match :: "string \<Rightarrow> string \<Rightarrow> fault + bool" where
  "lit_match [] v = Inr True"
| "lit_match (p # ps) [] = Inl OutOfBounds"
| "lit_match (p # ps) (c # cs) = (if p = c then lit_match ps cs else Inr False)"

subsection \<open>Numbers\<close>

text \<open>A loop over decimal digits: the digits and what follows them.\<close>

definition span_digits :: "string \<Rightarrow> fault + string \<times> string" where
  "span_digits v = (if dropWhile c_isdigit v = [] then Inl OutOfBounds
                    else Inr (takeWhile c_isdigit v, dropWhile c_isdigit v))"

definition pow10 :: "int \<Rightarrow> rat" where
  "pow10 k = (if k \<ge> 0 then 10 ^ nat k else 1 / 10 ^ nat (- k))"

text \<open>Conversion to \<^verbatim>\<open>int\<close>: truncation; outside its range the instruction of the target gives $-2^{31}$.\<close>

definition to_int :: "rat \<Rightarrow> int" where
  "to_int d = (let i = (if d \<ge> 0 then \<lfloor>d\<rfloor> else \<lceil>d\<rceil>) in
               if - (2 ^ 31) \<le> i \<and> i < 2 ^ 31 then i else - (2 ^ 31))"

text \<open>The three parts of a number behind its sign: digits read, and the pointer.\<close>

definition num_int :: "string \<Rightarrow> fault + string \<times> string" where
  "num_int num =
     rbind (pk num) (\<lambda>c.
     let num = (if c = CHR ''0'' then tl num else num) in
     rbind (pk num) (\<lambda>c. if c_isdigit c \<and> c \<noteq> CHR ''0'' then span_digits num else Inr ([], num)))"

definition num_frac :: "string \<Rightarrow> fault + string \<times> string" where
  "num_frac num =
     rbind (pk num) (\<lambda>c.
     if c = CHR ''.'' then rbind (pk (tl num)) (\<lambda>d. if c_isdigit d then span_digits (tl num) else Inr ([], num))
     else Inr ([], num))"

definition num_exp :: "string \<Rightarrow> fault + int \<times> string" where
  "num_exp num =
     rbind (pk num) (\<lambda>c.
     if c = CHR ''e'' \<or> c = CHR ''E'' then
       rbind (pk (tl num)) (\<lambda>s.
       let (g, num) = (if s = CHR ''+'' then (1, tl (tl num)) else if s = CHR ''-'' then (- 1, tl (tl num))
                       else (1, tl num)) in
       rbind (span_digits num) (\<lambda>(es, num). Inr (g * digits_val es, num)))
     else Inr (0, num))"

definition parse_number :: "string \<Rightarrow> fault + cJSON \<times> string" where
  "parse_number num =
     rbind (pk num) (\<lambda>c.
     let (sign, num) = (if c = CHR ''-'' then (- 1, tl num) else (1, num)) in
     rbind (num_int num) (\<lambda>(ds, num).
     rbind (num_frac num) (\<lambda>(fs, num).
     rbind (num_exp num) (\<lambda>(e, num).
     let n = sign * of_int (digits_val (ds @ fs)) * pow10 (e - int (length fs)) in
     Inr (CJson cJSON_Number [] None (to_int n) n None, num)))))"

subsection \<open>Strings\<close>

definition hex_val :: "char \<Rightarrow> nat option" where
  "hex_val c = (let k = (of_char c :: nat) in
     if 48 \<le> k \<and> k \<le> 57 then Some (k - 48)
     else if 65 \<le> k \<and> k \<le> 70 then Some (10 + k - 65)
     else if 97 \<le> k \<and> k \<le> 102 then Some (10 + k - 97) else None)"

fun hex_loop :: "nat \<Rightarrow> nat \<Rightarrow> string \<Rightarrow> fault + nat" where
  "hex_loop 0 h str = Inr h"
| "hex_loop (Suc n) h [] = Inl OutOfBounds"
| "hex_loop (Suc n) h (c # str) =
     (case hex_val c of None \<Rightarrow> Inr 0 | Some d \<Rightarrow> hex_loop n (16 * h + d) str)"

definition parse_hex4 :: "string \<Rightarrow> fault + nat" where
  "parse_hex4 str = hex_loop 4 0 str"

text \<open>The bytes of a code point, as the fall-through \<^verbatim>\<open>switch\<close> writes them from the back.\<close>

definition utf8 :: "nat \<Rightarrow> string" where
  "utf8 uc =
     (if uc < 128 then [char_of uc]
      else if uc < 2048 then [char_of (192 + uc div 64), char_of (128 + uc mod 64)]
      else if uc < 65536 then
        [char_of (224 + uc div 4096), char_of (128 + uc div 64 mod 64), char_of (128 + uc mod 64)]
      else [char_of (240 + uc div 262144), char_of (128 + uc div 4096 mod 64),
            char_of (128 + uc div 64 mod 64), char_of (128 + uc mod 64)])"

text \<open>The first pass: how many characters to allocate. An escaped character is skipped unseen.\<close>

fun string_len :: "string \<Rightarrow> fault + nat" where
  "string_len [] = Inl OutOfBounds"
| "string_len (c # ptr) =
     (if c = DQ \<or> c = NUL then Inr 0
      else if c = BSL then (case ptr of [] \<Rightarrow> Inl OutOfBounds
                            | _ # ptr \<Rightarrow> rbind (string_len ptr) (\<lambda>n. Inr (Suc n)))
      else rbind (string_len ptr) (\<lambda>n. Inr (Suc n)))"

text \<open>An escape after its backslash: what it writes and how far the pointer moves on.\<close>

definition escape_u :: "string \<Rightarrow> fault + string \<times> nat" where
  "escape_u ptr =
     rbind (parse_hex4 ptr) (\<lambda>uc.
     if (0xDC00 \<le> uc \<and> uc \<le> 0xDFFF) \<or> uc = 0 then Inr ([], 4)
     else if 0xD800 \<le> uc \<and> uc \<le> 0xDBFF then
       rbind (ch ptr 4) (\<lambda>a. rbind (if a \<noteq> BSL then Inr a else ch ptr 5) (\<lambda>b.
       if a \<noteq> BSL \<or> b \<noteq> CHR ''u'' then Inr ([], 4)
       else rbind (parse_hex4 (drop 6 ptr)) (\<lambda>uc2.
         if uc2 < 0xDC00 \<or> uc2 > 0xDFFF then Inr ([], 10)
         else Inr (utf8 (0x10000 + (uc mod 1024 * 1024 + uc2 mod 1024)), 10))))
     else Inr (utf8 uc, 4))"

definition escape :: "char \<Rightarrow> string \<Rightarrow> fault + string \<times> nat" where
  "escape e ptr =
     (if e = CHR ''b'' then Inr ([CHR 0x08], 0)
      else if e = CHR ''f'' then Inr ([CHR 0x0C], 0)
      else if e = CHR ''n'' then Inr ([CHR 0x0A], 0)
      else if e = CHR ''r'' then Inr ([CHR 0x0D], 0)
      else if e = CHR ''t'' then Inr ([CHR 0x09], 0)
      else if e = CHR ''u'' then escape_u ptr
      else Inr ([e], 0))"

text \<open>The second pass writes to a block of \<open>cap\<close> characters; \<open>out\<close> is what is written so far.\<close>

function string_copy :: "nat \<Rightarrow> string \<Rightarrow> string \<Rightarrow> fault + string \<times> string" where
  "string_copy cap out [] = Inl OutOfBounds"
| "string_copy cap out (c # ptr) =
     (if c = DQ \<or> c = NUL then Inr (out, c # ptr)
      else if c \<noteq> BSL then (if length out < cap then string_copy cap (out @ [c]) ptr else Inl OutOfBounds)
      else (case ptr of [] \<Rightarrow> Inl OutOfBounds
            | e # ptr \<Rightarrow> (case escape e ptr of Inl f \<Rightarrow> Inl f
                | Inr (w, k) \<Rightarrow> if length (out @ w) \<le> cap then string_copy cap (out @ w) (drop k ptr)
                                else Inl OutOfBounds)))"
  by pat_completeness auto
termination by (relation "measure (\<lambda>(cap, out, v). length v)") auto

definition parse_string :: "string \<Rightarrow> fault + string parse" where
  "parse_string str =
     rbind (pk str) (\<lambda>c. if c \<noteq> DQ then Inr None
     else rbind (string_len (tl str)) (\<lambda>len.
          rbind (string_copy (len + 1) [] (tl str)) (\<lambda>(out, ptr).
          if length out < len + 1
          then rbind (pk ptr) (\<lambda>c. Inr (Some (out, if c = DQ then tl ptr else ptr)))
          else Inl OutOfBounds)))"

subsection \<open>Values\<close>

fun parse_value :: "nat \<Rightarrow> string \<Rightarrow> cJSON parse run"
and parse_array :: "nat \<Rightarrow> string \<Rightarrow> cJSON parse run"
and parse_elems :: "nat \<Rightarrow> string \<Rightarrow> cJSON list parse run"
and parse_object :: "nat \<Rightarrow> string \<Rightarrow> cJSON parse run"
and parse_members :: "nat \<Rightarrow> string \<Rightarrow> cJSON list parse run" where
  "parse_value 0 v = None"
| "parse_value (Suc n) v =
     run_bind (Some (lit_match ''null'' v)) (\<lambda>b.
     if b then Some (Inr (Some (CJson cJSON_NULL [] None 0 0 None, drop 4 v))) else
     run_bind (Some (lit_match ''false'' v)) (\<lambda>b.
     if b then Some (Inr (Some (CJson cJSON_False [] None 0 0 None, drop 5 v))) else
     run_bind (Some (lit_match ''true'' v)) (\<lambda>b.
     if b then Some (Inr (Some (CJson cJSON_True [] None 1 0 None, drop 4 v))) else
     run_bind (Some (pk v)) (\<lambda>c.
     if c = DQ then Some (rbind (parse_string v) (\<lambda>r.
       Inr (map_option (\<lambda>(s, v). (CJson cJSON_String [] (Some s) 0 0 None, v)) r)))
     else if c = CHR ''-'' \<or> c_isdigit c then Some (rbind (parse_number v) (\<lambda>r. Inr (Some r)))
     else if c = CHR ''['' then parse_array n v
     else if c = CHR ''{'' then parse_object n v
     else Some (Inr None)))))"
| "parse_array 0 v = None"
| "parse_array (Suc n) v =
     run_bind (Some (skip (tl v))) (\<lambda>v.
     if hd v = CHR '']'' then Some (Inr (Some (CJson cJSON_Array [] None 0 0 None, tl v)))
     else run_bind (parse_elems n v) (\<lambda>r. case r of
         None \<Rightarrow> Some (Inr None)
       | Some (xs, v) \<Rightarrow> if hd v = CHR '']'' then Some (Inr (Some (CJson cJSON_Array xs None 0 0 None, tl v)))
                         else Some (Inr None)))"
| "parse_elems 0 v = None"
| "parse_elems (Suc n) v =
     run_bind (Some (skip v)) (\<lambda>v.
     run_bind (parse_value n v) (\<lambda>r. case r of
         None \<Rightarrow> Some (Inr None)
       | Some (x, v) \<Rightarrow>
           run_bind (Some (skip v)) (\<lambda>v.
           if hd v = CHR '','' then
             run_bind (parse_elems n (tl v)) (\<lambda>r. case r of
                 None \<Rightarrow> Some (Inr None)
               | Some (xs, v) \<Rightarrow> Some (Inr (Some (x # xs, v))))
           else Some (Inr (Some ([x], v))))))"
| "parse_object 0 v = None"
| "parse_object (Suc n) v =
     run_bind (Some (skip (tl v))) (\<lambda>v.
     if hd v = CHR ''}'' then Some (Inr (Some (CJson cJSON_Object [] None 0 0 None, tl v)))
     else run_bind (parse_members n v) (\<lambda>r. case r of
         None \<Rightarrow> Some (Inr None)
       | Some (xs, v) \<Rightarrow> if hd v = CHR ''}'' then Some (Inr (Some (CJson cJSON_Object xs None 0 0 None, tl v)))
                         else Some (Inr None)))"
| "parse_members 0 v = None"
| "parse_members (Suc n) v =
     run_bind (Some (skip v)) (\<lambda>v.
     run_bind (Some (parse_string v)) (\<lambda>r. case r of
         None \<Rightarrow> Some (Inr None)
       | Some (s, v) \<Rightarrow>
           run_bind (Some (skip v)) (\<lambda>v.
           if hd v \<noteq> CHR '':'' then Some (Inr None) else
           run_bind (Some (skip (tl v))) (\<lambda>v.
           run_bind (parse_value n v) (\<lambda>r. case r of
               None \<Rightarrow> Some (Inr None)
             | Some (x, v) \<Rightarrow>
                 run_bind (Some (skip v)) (\<lambda>v.
                 if hd v = CHR '','' then
                   run_bind (parse_members n (tl v)) (\<lambda>r. case r of
                       None \<Rightarrow> Some (Inr None)
                     | Some (xs, v) \<Rightarrow> Some (Inr (Some (set_name (Some s) x # xs, v))))
                 else Some (Inr (Some ([set_name (Some s) x], v)))))))))"

text \<open>The result has the pointer where parsing stopped, for \<^verbatim>\<open>return_parse_end\<close>.\<close>

definition cJSON_ParseWithOpts :: "string \<Rightarrow> bool \<Rightarrow> cJSON parse run" where
  "cJSON_ParseWithOpts value require_null_terminated =
     run_bind (Some (skip value)) (\<lambda>v.
     run_bind (parse_value (3 * length v + 1) v) (\<lambda>r. case r of
         None \<Rightarrow> Some (Inr None)
       | Some (c, end') \<Rightarrow>
           if require_null_terminated then
             run_bind (Some (skip end')) (\<lambda>e. if hd e \<noteq> NUL then Some (Inr None) else Some (Inr (Some (c, e))))
           else Some (Inr (Some (c, end')))))"

definition cJSON_Parse :: "string \<Rightarrow> cJSON option run" where
  "cJSON_Parse value = run_bind (cJSON_ParseWithOpts value False) (\<lambda>r. Some (Inr (map_option fst r)))"

section \<open>Printing\<close>

text \<open>A text written to a block of \<open>len\<close> characters, with its terminator.\<close>

definition block_text :: "nat \<Rightarrow> string \<Rightarrow> fault + string" where
  "block_text len t = (if length t < len then Inr t else Inl OutOfBounds)"

definition hex_digit :: "nat \<Rightarrow> char" where
  "hex_digit k = (if k < 10 then char_of (48 + k) else char_of (87 + k))"

definition special :: string where
  "special = [DQ, BSL, CHR 0x08, CHR 0x0C, CHR 0x0A, CHR 0x0D, CHR 0x09]"

text \<open>The first pass of \<open>print_string_ptr\<close> adds up the lengths, the second one writes.\<close>

definition char_len :: "char \<Rightarrow> nat" where
  "char_len c = (if c \<in> set special then 2 else if (of_char c :: nat) < 32 then 6 else 1)"

definition print_char :: "char \<Rightarrow> string" where
  "print_char c =
     (if (of_char c :: nat) > 31 \<and> c \<noteq> DQ \<and> c \<noteq> BSL then [c]
      else BSL # (if c = BSL then [BSL] else if c = DQ then [DQ] else if c = CHR 0x08 then ''b''
        else if c = CHR 0x0C then ''f'' else if c = CHR 0x0A then ''n'' else if c = CHR 0x0D then ''r''
        else if c = CHR 0x09 then ''t''
        else ''u00'' @ [hex_digit (of_char c div 16), hex_digit (of_char c mod 16)]))"

definition print_string_ptr :: "string option \<Rightarrow> fault + string" where
  "print_string_ptr str = (case str of None \<Rightarrow> Inr []
     | Some s \<Rightarrow> block_text (sum_list (map char_len s) + 3) (DQ # concat (map print_char s) @ [DQ]))"

definition DBL_EPSILON :: rat where "DBL_EPSILON = 1 / 2 ^ 52"

definition print_number :: "(rat \<Rightarrow> string) \<Rightarrow> cJSON \<Rightarrow> fault + string" where
  "print_number fmt_double item =
     (let d = valuedouble item in
      if \<bar>of_int (valueint item) - d\<bar> \<le> DBL_EPSILON \<and> d \<le> 2 ^ 31 - 1 \<and> d \<ge> - (2 ^ 31)
      then block_text 21 (print_int (valueint item)) else block_text 64 (fmt_double d))"

definition tabs :: "nat \<Rightarrow> string" where
  "tabs n = replicate n (CHR 0x09)"

fun join_array :: "bool \<Rightarrow> string list \<Rightarrow> string" where
  "join_array fmt [] = []"
| "join_array fmt [e] = e"
| "join_array fmt (e # es) = e @ (if fmt then '', '' else '','') @ join_array fmt es"

definition print_array :: "bool \<Rightarrow> string list \<Rightarrow> fault + string" where
  "print_array fmt entries =
     (if entries = [] then block_text 3 ''[]''
      else block_text (5 + sum_list (map (\<lambda>e. length e + 2 + (if fmt then 1 else 0)) entries))
             (CHR ''['' # join_array fmt entries @ '']''))"

fun join_object :: "bool \<Rightarrow> nat \<Rightarrow> (string \<times> string) list \<Rightarrow> string" where
  "join_object fmt depth [] = []"
| "join_object fmt depth ((n, e) # es) =
     (if fmt then tabs depth else []) @ n @ '':'' @ (if fmt then [CHR 0x09] else []) @ e @
     (if es \<noteq> [] then '','' else []) @ (if fmt then [CHR 0x0A] else []) @ join_object fmt depth es"

text \<open>\<open>depth\<close> is the value on entry; the code increments it after the case of an empty object.\<close>

definition print_object :: "bool \<Rightarrow> nat \<Rightarrow> (string \<times> string) list \<Rightarrow> fault + string" where
  "print_object fmt depth entries =
     (if entries = [] then block_text (if fmt then depth + 4 else 3)
        (CHR ''{'' # (if fmt then CHR 0x0A # tabs (depth - 1) else []) @ ''}'')
      else block_text (7 + (if fmt then Suc depth else 0) + sum_list (map (\<lambda>(n, e). length e + length n + 2 +
               (if fmt then 2 + Suc depth else 0)) entries))
             (CHR ''{'' # (if fmt then [CHR 0x0A] else []) @ join_object fmt (Suc depth) entries @
              (if fmt then tabs depth else []) @ ''}''))"

text \<open>
  The printed children of an item: the entry of each, and its name for an object. The result is
  NULL when one of them has a type that is not known. All entries of an object are printed
  before the result is discarded, an array stops at the first failure.
\<close>

fun print_value :: "(rat \<Rightarrow> string) \<Rightarrow> bool \<Rightarrow> nat \<Rightarrow> cJSON \<Rightarrow> fault + string option"
and print_values :: "(rat \<Rightarrow> string) \<Rightarrow> bool \<Rightarrow> nat \<Rightarrow> cJSON list \<Rightarrow> fault + string list option"
and print_members :: "(rat \<Rightarrow> string) \<Rightarrow> bool \<Rightarrow> nat \<Rightarrow> cJSON list \<Rightarrow> fault + (string \<times> string) list option" where
  "print_value fd fmt depth (CJson t cs s i d nm) =
     (let k = t mod 256 in
      if k = cJSON_NULL then Inr (Some ''null'')
      else if k = cJSON_False then Inr (Some ''false'')
      else if k = cJSON_True then Inr (Some ''true'')
      else if k = cJSON_Number then rbind (print_number fd (CJson t cs s i d nm)) (\<lambda>t. Inr (Some t))
      else if k = cJSON_String then rbind (print_string_ptr s) (\<lambda>t. Inr (Some t))
      else if k = cJSON_Array then
        rbind (print_values fd fmt (Suc depth) cs) (\<lambda>es. case es of None \<Rightarrow> Inr None
          | Some es \<Rightarrow> rbind (print_array fmt es) (\<lambda>t. Inr (Some t)))
      else if k = cJSON_Object then
        rbind (print_members fd fmt (Suc depth) cs) (\<lambda>es. case es of None \<Rightarrow> Inr None
          | Some es \<Rightarrow> rbind (print_object fmt depth es) (\<lambda>t. Inr (Some t)))
      else Inr None)"
| "print_values fd fmt depth [] = Inr (Some [])"
| "print_values fd fmt depth (c # cs) =
     rbind (print_value fd fmt depth c) (\<lambda>t. case t of None \<Rightarrow> Inr None
       | Some t \<Rightarrow> rbind (print_values fd fmt depth cs) (\<lambda>ts. Inr (map_option ((#) t) ts)))"
| "print_members fd fmt depth [] = Inr (Some [])"
| "print_members fd fmt depth (c # cs) =
     rbind (print_string_ptr (cname c)) (\<lambda>n.
     rbind (print_value fd fmt depth c) (\<lambda>t.
     rbind (print_members fd fmt depth cs) (\<lambda>ts.
     Inr (case (t, ts) of (Some t, Some ts) \<Rightarrow> Some ((n, t) # ts) | _ \<Rightarrow> None))))"

definition cJSON_Print :: "(rat \<Rightarrow> string) \<Rightarrow> cJSON \<Rightarrow> fault + string option" where
  "cJSON_Print fd item = print_value fd True 0 item"

definition cJSON_PrintUnformatted :: "(rat \<Rightarrow> string) \<Rightarrow> cJSON \<Rightarrow> fault + string option" where
  "cJSON_PrintUnformatted fd item = print_value fd False 0 item"

section \<open>Trees\<close>

definition c_tolower :: "char \<Rightarrow> char" where
  "c_tolower c = (if 65 \<le> (of_char c :: nat) \<and> (of_char c :: nat) \<le> 90 then char_of ((of_char c :: nat) + 32) else c)"

text \<open>Whether \<^verbatim>\<open>cJSON_strcasecmp\<close> returns 0.\<close>

definition cJSON_strcasecmp_eq :: "string option \<Rightarrow> string option \<Rightarrow> bool" where
  "cJSON_strcasecmp_eq s1 s2 \<longleftrightarrow> (case (s1, s2) of (None, None) \<Rightarrow> True
     | (Some a, Some b) \<Rightarrow> map c_tolower a = map c_tolower b | _ \<Rightarrow> False)"

definition cJSON_GetArraySize :: "cJSON \<Rightarrow> nat" where
  "cJSON_GetArraySize a = length (child a)"

definition cJSON_GetArrayItem :: "cJSON \<Rightarrow> int \<Rightarrow> cJSON option" where
  "cJSON_GetArrayItem a item = (if nat item < length (child a) then Some (child a ! nat item) else None)"

definition cJSON_GetObjectItem :: "cJSON \<Rightarrow> string \<Rightarrow> cJSON option" where
  "cJSON_GetObjectItem ob s = find (\<lambda>c. cJSON_strcasecmp_eq (cname c) (Some s)) (child ob)"

definition create_reference :: "cJSON \<Rightarrow> cJSON" where
  "create_reference item = (case item of CJson t c v i d _ \<Rightarrow>
     CJson (t + (if t mod 512 < 256 then cJSON_IsReference else 0)) c v i d None)"

definition cJSON_AddItemToArray :: "cJSON \<Rightarrow> cJSON option \<Rightarrow> cJSON" where
  "cJSON_AddItemToArray a item = (case item of None \<Rightarrow> a | Some x \<Rightarrow> set_child (child a @ [x]) a)"

definition cJSON_AddItemToObject :: "cJSON \<Rightarrow> string \<Rightarrow> cJSON option \<Rightarrow> cJSON" where
  "cJSON_AddItemToObject ob s item = (case item of None \<Rightarrow> ob
     | Some x \<Rightarrow> cJSON_AddItemToArray ob (Some (set_name (Some s) x)))"

definition cJSON_AddItemReferenceToArray :: "cJSON \<Rightarrow> cJSON \<Rightarrow> cJSON" where
  "cJSON_AddItemReferenceToArray a item = cJSON_AddItemToArray a (Some (create_reference item))"

definition cJSON_AddItemReferenceToObject :: "cJSON \<Rightarrow> string \<Rightarrow> cJSON \<Rightarrow> cJSON" where
  "cJSON_AddItemReferenceToObject ob s item = cJSON_AddItemToObject ob s (Some (create_reference item))"

definition cJSON_DetachItemFromArray :: "cJSON \<Rightarrow> int \<Rightarrow> cJSON \<times> cJSON option" where
  "cJSON_DetachItemFromArray a which =
     (if nat which < length (child a)
      then (set_child (take (nat which) (child a) @ drop (Suc (nat which)) (child a)) a, Some (child a ! nat which))
      else (a, None))"

definition cJSON_DeleteItemFromArray :: "cJSON \<Rightarrow> int \<Rightarrow> cJSON" where
  "cJSON_DeleteItemFromArray a which = fst (cJSON_DetachItemFromArray a which)"

text \<open>The index of the first child with a name, as the loops over the chain count it.\<close>

fun name_index :: "cJSON list \<Rightarrow> string \<Rightarrow> nat option" where
  "name_index [] s = None"
| "name_index (c # cs) s =
     (if cJSON_strcasecmp_eq (cname c) (Some s) then Some 0 else map_option Suc (name_index cs s))"

definition cJSON_DetachItemFromObject :: "cJSON \<Rightarrow> string \<Rightarrow> cJSON \<times> cJSON option" where
  "cJSON_DetachItemFromObject ob s =
     (case name_index (child ob) s of None \<Rightarrow> (ob, None) | Some i \<Rightarrow> cJSON_DetachItemFromArray ob (int i))"

definition cJSON_DeleteItemFromObject :: "cJSON \<Rightarrow> string \<Rightarrow> cJSON" where
  "cJSON_DeleteItemFromObject ob s = fst (cJSON_DetachItemFromObject ob s)"

definition cJSON_ReplaceItemInArray :: "cJSON \<Rightarrow> int \<Rightarrow> cJSON \<Rightarrow> cJSON" where
  "cJSON_ReplaceItemInArray a which newitem =
     (if nat which < length (child a) then set_child ((child a)[nat which := newitem]) a else a)"

definition cJSON_ReplaceItemInObject :: "cJSON \<Rightarrow> string \<Rightarrow> cJSON \<Rightarrow> cJSON" where
  "cJSON_ReplaceItemInObject ob s newitem =
     (case name_index (child ob) s of None \<Rightarrow> ob
      | Some i \<Rightarrow> cJSON_ReplaceItemInArray ob (int i) (set_name (Some s) newitem))"

definition cJSON_CreateNull :: cJSON where "cJSON_CreateNull = CJson cJSON_NULL [] None 0 0 None"
definition cJSON_CreateTrue :: cJSON where "cJSON_CreateTrue = CJson cJSON_True [] None 0 0 None"
definition cJSON_CreateFalse :: cJSON where "cJSON_CreateFalse = CJson cJSON_False [] None 0 0 None"
definition cJSON_CreateBool :: "int \<Rightarrow> cJSON" where
  "cJSON_CreateBool b = CJson (if b \<noteq> 0 then cJSON_True else cJSON_False) [] None 0 0 None"
definition cJSON_CreateNumber :: "rat \<Rightarrow> cJSON" where
  "cJSON_CreateNumber num = CJson cJSON_Number [] None (to_int num) num None"
definition cJSON_CreateString :: "string \<Rightarrow> cJSON" where
  "cJSON_CreateString s = CJson cJSON_String [] (Some s) 0 0 None"
definition cJSON_CreateArray :: cJSON where "cJSON_CreateArray = CJson cJSON_Array [] None 0 0 None"
definition cJSON_CreateObject :: cJSON where "cJSON_CreateObject = CJson cJSON_Object [] None 0 0 None"

definition cJSON_CreateIntArray :: "int list \<Rightarrow> cJSON" where
  "cJSON_CreateIntArray numbers = set_child (map (\<lambda>n. cJSON_CreateNumber (of_int n)) numbers) cJSON_CreateArray"

definition cJSON_CreateStringArray :: "string list \<Rightarrow> cJSON" where
  "cJSON_CreateStringArray strings = set_child (map cJSON_CreateString strings) cJSON_CreateArray"

fun cJSON_Duplicate :: "cJSON \<Rightarrow> cJSON"
and duplicate_children :: "cJSON list \<Rightarrow> cJSON list" where
  "cJSON_Duplicate (CJson t cs s i d nm) =
     CJson (if t mod 512 \<ge> 256 then t - cJSON_IsReference else t) (duplicate_children cs) s i d nm"
| "duplicate_children [] = []"
| "duplicate_children (c # cs) = cJSON_Duplicate c # duplicate_children cs"

definition cJSON_DuplicateShallow :: "cJSON \<Rightarrow> cJSON" where
  "cJSON_DuplicateShallow item = (case item of CJson t cs s i d nm \<Rightarrow>
     CJson (if t mod 512 \<ge> 256 then t - cJSON_IsReference else t) [] s i d nm)"

definition cJSON_GetObjectItemValueString :: "cJSON option \<Rightarrow> string option \<Rightarrow> string \<Rightarrow> nat \<Rightarrow> fault + string \<times> int" where
  "cJSON_GetObjectItemValueString ob nm value len =
     (case (ob, nm) of (Some ob, Some n) \<Rightarrow>
        (case cJSON_GetObjectItem ob n of None \<Rightarrow> Inr (value, - 1)
         | Some tmp \<Rightarrow> (case valuestring tmp of None \<Rightarrow> Inr (value, - 1)
             | Some s \<Rightarrow> rbind (snprintf value len s) (\<lambda>value. Inr (value, 0))))
      | _ \<Rightarrow> Inr (value, - 1))"

definition cJSON_GetObjectItemValueInt :: "cJSON option \<Rightarrow> string option \<Rightarrow> int" where
  "cJSON_GetObjectItemValueInt ob nm =
     (case (ob, nm) of (Some ob, Some n) \<Rightarrow>
        (case cJSON_GetObjectItem ob n of None \<Rightarrow> - 1 | Some tmp \<Rightarrow> valueint tmp)
      | _ \<Rightarrow> - 1)"

definition cJSON_GetObjectItemValueDouble :: "cJSON option \<Rightarrow> string option \<Rightarrow> rat" where
  "cJSON_GetObjectItemValueDouble ob nm =
     (case (ob, nm) of (Some ob, Some n) \<Rightarrow>
        (case cJSON_GetObjectItem ob n of None \<Rightarrow> - 1 | Some tmp \<Rightarrow> valuedouble tmp)
      | _ \<Rightarrow> - 1)"

section \<open>Blocks are large enough\<close>

lemma length_print_char: "length (print_char c) = char_len c"
  by (auto simp: print_char_def char_len_def special_def)

lemma print_string_ptr_fits:
  "print_string_ptr (Some s) = Inr (DQ # concat (map print_char s) @ [DQ])"
proof -
  have "length (concat (map print_char s)) = sum_list (map char_len s)"
    by (induction s) (simp_all add: length_print_char)
  then show ?thesis by (simp add: print_string_ptr_def block_text_def)
qed

lemma length_join_array:
  "length (join_array fmt es) \<le> sum_list (map (\<lambda>e. length e + 2 + (if fmt then 1 else 0)) es)"
  by (induction fmt es rule: join_array.induct) auto

lemma print_array_fits:
  "print_array fmt es = Inr (CHR ''['' # join_array fmt es @ '']'')"
  using length_join_array [of fmt es] by (auto simp: print_array_def block_text_def split: if_splits)

lemma length_join_object:
  "length (join_object fmt d es) \<le> sum_list (map (\<lambda>(n, e). length e + length n + 2 + (if fmt then 2 + d else 0)) es)"
  by (induction fmt d es rule: join_object.induct) (auto simp: tabs_def)

lemma print_object_fits:
  "print_object fmt d es =
     Inr (CHR ''{'' # (if fmt then [CHR 0x0A] else []) @ join_object fmt (Suc d) es @
          (if fmt then tabs (if es = [] then d - 1 else d) else []) @ ''}'')"
  using length_join_object [of fmt "Suc d" es]
  by (auto simp: print_object_def block_text_def tabs_def split: if_splits)

section \<open>Values and their texts\<close>

datatype json = JNull | JBool bool | JNum int | JStr string | JArr "json list" | JObj "(string \<times> json) list"

text \<open>The item the parser builds for a value, and the values whose texts can be read back.\<close>

primrec repr :: "json \<Rightarrow> cJSON" where
  "repr JNull = CJson cJSON_NULL [] None 0 0 None"
| "repr (JBool b) = (if b then CJson cJSON_True [] None 1 0 None else CJson cJSON_False [] None 0 0 None)"
| "repr (JNum i) = CJson cJSON_Number [] None i (of_int i) None"
| "repr (JStr s) = CJson cJSON_String [] (Some s) 0 0 None"
| "repr (JArr js) = CJson cJSON_Array (map repr js) None 0 0 None"
| "repr (JObj ms) = CJson cJSON_Object (map (\<lambda>(s, c). set_name (Some s) c) (map (map_prod id repr) ms)) None 0 0 None"

primrec json_ok :: "json \<Rightarrow> bool" where
  "json_ok JNull = True"
| "json_ok (JBool b) = True"
| "json_ok (JNum i) = (- (2 ^ 31) \<le> i \<and> i < 2 ^ 31)"
| "json_ok (JStr s) = (NUL \<notin> set s)"
| "json_ok (JArr js) = list_all id (map json_ok js)"
| "json_ok (JObj ms) = list_all (\<lambda>(s, b). NUL \<notin> set s \<and> b) (map (map_prod id json_ok) ms)"

definition quoted :: "string \<Rightarrow> string" where
  "quoted s = DQ # concat (map print_char s) @ [DQ]"

primrec json_text :: "json \<Rightarrow> bool \<Rightarrow> nat \<Rightarrow> string" where
  "json_text JNull fmt d = ''null''"
| "json_text (JBool b) fmt d = (if b then ''true'' else ''false'')"
| "json_text (JNum i) fmt d = print_int i"
| "json_text (JStr s) fmt d = quoted s"
| "json_text (JArr js) fmt d = CHR ''['' # join_array fmt (map (\<lambda>f. f fmt (Suc d)) (map json_text js)) @ '']''"
| "json_text (JObj ms) fmt d = CHR ''{'' # (if fmt then [CHR 0x0A] else []) @
     join_object fmt (Suc d) (map (\<lambda>(s, f). (quoted s, f fmt (Suc d))) (map (map_prod id json_text) ms)) @
     (if fmt then tabs (if ms = [] then d - 1 else d) else []) @ ''}''"

lemma length_quoted: "length (quoted s) \<le> 2 + 6 * length s"
proof -
  have "length (print_char c) \<le> 6" for c by (simp add: length_print_char char_len_def)
  then have "length (concat (map print_char s)) \<le> 6 * length s" by (induction s) (auto intro: order_trans add_mono)
  then show ?thesis by (simp add: quoted_def)
qed

lemma print_value_set_name [simp]: "print_value fd fmt d (set_name s c) = print_value fd fmt d c"
  by (cases c) (simp add: print_number_def Let_def)

lemma cname_set_name [simp]: "cname (set_name s c) = s"
  by (cases c) simp

lemma print_int_length: "- (2 ^ 31) \<le> i \<Longrightarrow> i < 2 ^ 31 \<Longrightarrow> length (print_int i) < 21"
proof -
  assume i: "- (2 ^ 31) \<le> i" "i < 2 ^ 31"
  then have "nat i < 10 ^ Suc 9" "nat (- i) < 10 ^ Suc 9" by simp_all
  from this [THEN length_print_nat] show ?thesis by (simp add: print_int_def)
qed

lemma print_values_map:
  "(\<And>j. j \<in> set js \<Longrightarrow> print_value fd fmt d (f j) = Inr (Some (g j))) \<Longrightarrow>
   print_values fd fmt d (map f js) = Inr (Some (map g js))"
  by (induction js) auto

lemma print_members_map:
  "(\<And>s j. (s, j) \<in> set ms \<Longrightarrow> print_value fd fmt d (f j) = Inr (Some (g j))) \<Longrightarrow>
   print_members fd fmt d (map (\<lambda>(s, j). set_name (Some s) (f j)) ms) = Inr (Some (map (\<lambda>(s, j). (quoted s, g j)) ms))"
proof (induction ms)
  case (Cons m ms)
  obtain s j where m: "m = (s, j)" by (cases m)
  have "print_value fd fmt d (f j) = Inr (Some (g j))" by (rule Cons.prems [of s]) (simp add: m)
  moreover have "print_members fd fmt d (map (\<lambda>(s, j). set_name (Some s) (f j)) ms) =
      Inr (Some (map (\<lambda>(s, j). (quoted s, g j)) ms))"
    using Cons.prems by (intro Cons.IH) auto
  ultimately show ?case by (simp add: m print_string_ptr_fits quoted_def)
qed simp

text \<open>The printer writes the text of the value and stays inside its blocks.\<close>

lemma print_value_repr:
  "json_ok j \<Longrightarrow> print_value fd fmt d (repr j) = Inr (Some (json_text j fmt d))"
proof (induction j arbitrary: d)
  case (JNum i)
  have "(of_int i :: rat) \<le> of_int (2 ^ 31 - 1)" "(of_int (- (2 ^ 31)) :: rat) \<le> of_int i"
    using JNum unfolding of_int_le_iff by simp_all
  then have "(of_int i :: rat) \<le> 2 ^ 31 - 1" "- (2 ^ 31) \<le> (of_int i :: rat)" by simp_all
  then show ?case using JNum print_int_length [of i]
    by (simp add: print_number_def block_text_def DBL_EPSILON_def)
next
  case (JStr s)
  then show ?case by (simp add: print_string_ptr_fits quoted_def)
next
  case (JArr js)
  then have "print_values fd fmt (Suc d) (map repr js) = Inr (Some (map (\<lambda>j. json_text j fmt (Suc d)) js))"
    by (intro print_values_map) (auto simp: list_all_iff)
  then show ?case by (simp add: print_array_fits comp_def)
next
  case (JObj ms)
  have "print_value fd fmt (Suc d) (repr j) = Inr (Some (json_text j fmt (Suc d)))" if "(s, j) \<in> set ms" for s j
    using that JObj.prems by (intro JObj.IH [of "(s, j)"]) (auto simp: list_all_iff snds.simps)
  then have "print_members fd fmt (Suc d) (map (\<lambda>(s, j). set_name (Some s) (repr j)) ms) =
      Inr (Some (map (\<lambda>(s, j). (quoted s, json_text j fmt (Suc d))) ms))"
    by (intro print_members_map) auto
  moreover have "map (\<lambda>(s, c). set_name (Some s) c) (map (map_prod id repr) ms) =
      map (\<lambda>(s, j). set_name (Some s) (repr j)) ms"
    "map (\<lambda>(s, f). (quoted s, f fmt (Suc d))) (map (map_prod id json_text) ms) =
      map (\<lambda>(s, j). (quoted s, json_text j fmt (Suc d))) ms"
    by (simp_all add: comp_def case_prod_beta)
  ultimately show ?case by (simp only: repr.simps json_text.simps) (simp add: print_object_fits)
qed simp_all

section \<open>Strings are read back\<close>

lemma pk_Cons [simp]: "pk (c # v) = Inr c"
  by (simp add: pk_def)

lemma hex_val_digit: "k < 16 \<Longrightarrow> hex_val (hex_digit k) = Some k"
proof -
  assume "k < 16"
  then consider "k < 10" | "10 \<le> k" "k < 16" by linarith
  then show ?thesis by cases (auto simp: hex_val_def hex_digit_def Let_def)
qed

lemma hex_digit_plain: "hex_digit k \<noteq> DQ \<and> hex_digit k \<noteq> BSL \<and> hex_digit k \<noteq> NUL" if "k < 16"
  using hex_val_digit [OF that] by (auto simp: hex_val_def)

lemma parse_hex4_digits:
  assumes "hex_val a = Some w" "hex_val b = Some x" "hex_val c = Some y" "hex_val d = Some z"
  shows "parse_hex4 (a # b # c # d # r) = Inr (4096 * w + 256 * x + 16 * y + z)"
proof -
  have four: "4 = Suc (Suc (Suc (Suc 0)))" by simp
  show ?thesis unfolding parse_hex4_def four by (simp add: assms)
qed

lemma escape_u_control:
  assumes "(of_char c :: nat) < 32" "c \<noteq> NUL"
  shows "escape_u (CHR ''0'' # CHR ''0'' # hex_digit (of_char c div 16) # hex_digit (of_char c mod 16) # r) =
         Inr ([c], 4)"
proof -
  have h: "(of_char c :: nat) div 16 < 16" "(of_char c :: nat) mod 16 < 16" using assms by auto
  have z: "hex_val (CHR ''0'') = Some 0" by (simp add: hex_val_def)
  have "parse_hex4 (CHR ''0'' # CHR ''0'' # hex_digit (of_char c div 16) # hex_digit (of_char c mod 16) # r) =
      Inr (of_char c)"
    using parse_hex4_digits [OF z z hex_val_digit [OF h(1)] hex_val_digit [OF h(2)]] by simp
  moreover have "(of_char c :: nat) \<noteq> of_char NUL" using assms(2) by (simp only: of_char_eq_iff) simp
  ultimately show ?thesis using assms(1) by (simp add: escape_u_def utf8_def)
qed

text \<open>The three forms in which a character is printed.\<close>

lemma print_char_cases:
  assumes "c \<noteq> NUL"
  obtains (plain) "print_char c = [c]" "c \<noteq> DQ" "c \<noteq> BSL"
  | (short) e where "print_char c = [BSL, e]" "e \<noteq> CHR ''u''" "escape e r = Inr ([c], 0)"
  | (hex) "print_char c = [BSL, CHR ''u'', CHR ''0'', CHR ''0'', hex_digit (of_char c div 16), hex_digit (of_char c mod 16)]"
      "(of_char c :: nat) < 32"
proof -
  consider "(of_char c :: nat) > 31" "c \<noteq> DQ" "c \<noteq> BSL" | "c \<in> set special"
    | "(of_char c :: nat) < 32" "c \<notin> set special"
    by (auto simp: special_def) linarith
  then show thesis
  proof cases
    case 1
    then show thesis by (intro plain) (auto simp: print_char_def)
  next
    case 2
    then show thesis using short by (auto simp: special_def print_char_def escape_def)
  next
    case 3
    then show thesis by (intro hex) (auto simp: print_char_def special_def)
  qed
qed

lemma string_len_print:
  "NUL \<notin> set s \<Longrightarrow> \<exists>n. string_len (concat (map print_char s) @ DQ # r) = Inr n \<and> length s \<le> n"
proof (induction s)
  case (Cons c s)
  then obtain n where n: "string_len (concat (map print_char s) @ DQ # r) = Inr n" "length s \<le> n" by auto
  have "c \<noteq> NUL" using Cons.prems by auto
  then show ?case
  proof (cases rule: print_char_cases [where r = "[]"])
    case hex
    have "(of_char c :: nat) div 16 < 16" "(of_char c :: nat) mod 16 < 16" using hex(2) by auto
    then show ?thesis using n hex hex_digit_plain [of "of_char c div 16"] hex_digit_plain [of "of_char c mod 16"]
      by simp
  qed (use n Cons.prems in auto)
qed simp

lemma string_copy_print:
  "NUL \<notin> set s \<Longrightarrow> length out + length s \<le> cap \<Longrightarrow>
   string_copy cap out (concat (map print_char s) @ DQ # r) = Inr (out @ s, DQ # r)"
proof (induction s arbitrary: out)
  case (Cons c s)
  let ?r = "concat (map print_char s) @ DQ # r"
  have IH: "string_copy cap (out @ [c]) ?r = Inr (out @ c # s, DQ # r)"
    using Cons by simp
  have "c \<noteq> NUL" using Cons.prems by auto
  then show ?case
  proof (cases rule: print_char_cases [where r = ?r])
    case hex
    have "escape (CHR ''u'') (CHR ''0'' # CHR ''0'' # hex_digit (of_char c div 16) # hex_digit (of_char c mod 16) # ?r) =
        Inr ([c], 4)"
      using escape_u_control [OF hex(2) \<open>c \<noteq> NUL\<close>] by (simp add: escape_def)
    then show ?thesis using IH hex Cons.prems by simp
  qed (use IH Cons.prems in auto)
qed simp

lemma parse_string_quoted:
  assumes "NUL \<notin> set s"
  shows "parse_string (quoted s @ r) = Inr (Some (s, r))"
proof -
  obtain n where n: "string_len (concat (map print_char s) @ DQ # r) = Inr n" "length s \<le> n"
    using string_len_print [OF assms] by blast
  have "string_copy (n + 1) [] (concat (map print_char s) @ DQ # r) = Inr (s, DQ # r)"
    using string_copy_print [OF assms, of "[]" "n + 1" r] n(2) by simp
  then show ?thesis using n by (simp add: parse_string_def quoted_def)
qed

section \<open>Numbers are read back\<close>

text \<open>What may follow a value: a character that cannot continue a number.\<close>

definition delim :: "string \<Rightarrow> bool" where
  "delim r \<longleftrightarrow> r \<noteq> [] \<and> \<not> c_isdigit (hd r) \<and> hd r \<noteq> CHR ''.'' \<and> hd r \<noteq> CHR ''e'' \<and> hd r \<noteq> CHR ''E''"

lemma span_digits_print:
  "delim r \<Longrightarrow> span_digits (print_nat n @ r) = Inr (print_nat n, r)"
  using print_nat_digits [of _ n]
  by (cases r) (auto simp: span_digits_def delim_def takeWhile_append2 [of _ c_isdigit] dropWhile_append2 [of _ c_isdigit])

lemma hd_print_nat: "0 < n \<Longrightarrow> hd (print_nat n) \<noteq> CHR ''0''"
proof (induction n rule: print_nat.induct)
  case (1 n)
  show ?case
  proof (cases "n < 10")
    case True
    have "(of_char (char_of (48 + n :: nat)) :: nat) \<noteq> of_char (CHR ''0'')" using True 1(2) by simp
    then have "char_of (48 + n) \<noteq> CHR ''0''" by metis
    then show ?thesis using True by (subst print_nat.simps) simp
  next
    case False
    then show ?thesis using 1 by (subst print_nat.simps) (simp add: hd_append)
  qed
qed

lemma to_int_of_int: "- (2 ^ 31) \<le> i \<Longrightarrow> i < 2 ^ 31 \<Longrightarrow> to_int (of_int i) = i"
  by (simp add: to_int_def)

text \<open>The part of \<open>parse_number\<close> behind the sign, on a printed number.\<close>

lemma parse_number_print:
  assumes "delim r" "- (2 ^ 31) \<le> i" "i < 2 ^ 31"
  shows "parse_number (print_int i @ r) = Inr (CJson cJSON_Number [] None i (of_int i) None, r)"
proof -
  obtain c r' where r: "r = c # r'" using assms(1) by (cases r) (auto simp: delim_def)
  have nd: "\<not> c_isdigit c" "c \<noteq> CHR ''.''" "c \<noteq> CHR ''e''" "c \<noteq> CHR ''E''"
    using assms(1) r by (auto simp: delim_def)
  then have "c \<noteq> CHR ''0''" by (auto simp: c_isdigit_def)
  then have z: "num_int (CHR ''0'' # r) = Inr ([], r)" using nd(1) by (simp add: num_int_def r)
  have fe: "num_frac r = Inr ([], r)" "num_exp r = Inr (0, r)" using nd by (simp_all add: num_frac_def num_exp_def r)
  have p: "pow10 0 = 1" by (simp add: pow10_def)
  show ?thesis
  proof (cases "i = 0")
    case True
    have "print_int 0 = ''0''" by code_simp
    moreover have "digits_val [] = 0" "to_int 0 = 0" by (simp_all add: digits_val_def to_int_def)
    ultimately show ?thesis using True z fe p by (simp add: parse_number_def)
  next
    case False
    define n where "n = nat \<bar>i\<bar>"
    then have n: "0 < n" using False by simp
    obtain d ds where d: "print_nat n = d # ds" by (cases "print_nat n") auto
    have dd: "c_isdigit d" "d \<noteq> CHR ''0''" "d \<noteq> CHR ''-''"
      using print_nat_digits [of d n] hd_print_nat [OF n] d digit_not_space [of d] by auto
    have s: "num_int (d # ds @ r) = Inr (d # ds, r)"
      using span_digits_print [OF assms(1), of n] d dd by (simp add: num_int_def)
    have v: "digits_val (d # ds) = int n" using digits_val_print [of n] d by simp
    have t: "print_int i = (if i < 0 then CHR ''-'' # d # ds else d # ds)"
      using d by (auto simp: print_int_def n_def abs_if split: if_splits)
    have e: "(if i < 0 then - of_nat n else of_nat n) = (of_int i :: rat)" by (auto simp: n_def abs_if)
    show ?thesis using e to_int_of_int [OF assms(2,3)]
      by (cases "i < 0") (simp_all add: t parse_number_def dd s fe v p)
  qed
qed

section \<open>Enough fuel\<close>

lemma run_bind_None_iff: "run_bind m f = None \<longleftrightarrow> m = None \<or> (\<exists>x. m = Some (Inr x) \<and> f x = None)"
  by (cases m) (auto simp: run_bind_def split: sum.splits)

lemma skip_length: "skip v = Inr v' \<Longrightarrow> v' \<noteq> [] \<and> length v' \<le> length v"
  by (auto simp: skip_def Let_def length_dropWhile_le split: if_splits)

lemma string_copy_length: "string_copy cap out v = Inr (s, v') \<Longrightarrow> length v' \<le> length v"
proof (induction cap out v rule: string_copy.induct)
  case (2 cap out c ptr)
  then show ?case
    by (fastforce split: if_splits list.splits sum.splits prod.splits)
qed simp

lemma parse_string_length: "parse_string v = Inr (Some (s, v')) \<Longrightarrow> length v' < length v"
  by (cases v) (auto simp: parse_string_def outcome_iff split: if_splits dest!: string_copy_length)

lemma span_digits_length: "span_digits v = Inr (ds, v') \<Longrightarrow> length v' + length ds = length v"
  by (auto simp: span_digits_def split: if_splits)
    (metis add.commute length_append takeWhile_dropWhile_id)

lemma num_part_length:
  "num_int v = Inr (ds, v') \<Longrightarrow> length v' \<le> length v"
  "num_frac v = Inr (fs, v') \<Longrightarrow> length v' \<le> length v"
  "num_exp v = Inr (e, v') \<Longrightarrow> length v' \<le> length v"
  by (fastforce simp: num_int_def num_frac_def num_exp_def outcome_iff Let_def split: if_splits
      dest: span_digits_length)+

lemma num_int_consumes:
  assumes "num_int (c # w) = Inr (ds, v')" "c_isdigit c"
  shows "length v' \<le> length w"
proof (cases "c = CHR ''0''")
  case True
  then show ?thesis using assms
    by (auto simp: num_int_def outcome_iff split: if_splits dest: span_digits_length)
next
  case False
  then have "span_digits (c # w) = Inr (ds, v')" using assms by (simp add: num_int_def)
  moreover from this have "ds \<noteq> []" using assms(2) by (auto simp: span_digits_def split: if_splits)
  ultimately show ?thesis by (cases ds) (auto dest: span_digits_length)
qed

lemma parse_number_length:
  assumes "parse_number (c # w) = Inr (x, v')" "c = CHR ''-'' \<or> c_isdigit c"
  shows "length v' \<le> length w"
proof -
  obtain u ds u1 fs u2 e where "num_int u = Inr (ds, u1)" "num_frac u1 = Inr (fs, u2)" "num_exp u2 = Inr (e, v')"
    "u = (if c = CHR ''-'' then w else c # w)"
    using assms(1) by (auto simp: parse_number_def outcome_iff Let_def split: if_splits)
  moreover from this have "length u1 \<le> length w"
    using assms(2) num_int_consumes num_part_length(1) by (auto split: if_splits)
  ultimately show ?thesis using num_part_length(2,3) by (meson order_trans)
qed

lemma lit_match_length: "lit_match p v = Inr True \<Longrightarrow> length p \<le> length v"
  by (induction p v rule: lit_match.induct) (auto split: if_splits)

lemma skip_tl_length: "skip (tl v) = Inr v' \<Longrightarrow> v' \<noteq> [] \<and> length v' < length v"
  using skip_length [of "tl v" v'] by (cases v) (auto simp: skip_def)

text \<open>Inversion of the parsers that loop.\<close>

lemma parse_value_SomeE:
  assumes "parse_value (Suc n) v = Some (Inr (Some (x, v')))"
  obtains (lit) k where "v' = drop k v" "0 < k" "k \<le> length v"
  | (str) s where "parse_string v = Inr (Some (s, v'))"
  | (num) c w where "v = c # w" "parse_number v = Inr (x, v')" "c = CHR ''-'' \<or> c_isdigit c"
  | (arr) "parse_array n v = Some (Inr (Some (x, v')))"
  | (obj) "parse_object n v = Some (Inr (Some (x, v')))"
proof (cases v)
  case Nil
  then show thesis using assms by simp
next
  case (Cons c w)
  have "lit_match ''null'' v = Inr True \<Longrightarrow> 4 \<le> length v" "lit_match ''false'' v = Inr True \<Longrightarrow> 5 \<le> length v"
    "lit_match ''true'' v = Inr True \<Longrightarrow> 4 \<le> length v"
    by (auto dest: lit_match_length)
  moreover have "pk v = Inr c" using Cons by simp
  ultimately show thesis using assms lit [of 4] lit [of 5] num [OF Cons] str arr obj
    by (auto simp: outcome_iff split: if_splits)
qed

lemma parse_elems_SomeE:
  assumes "parse_elems (Suc n) v = Some (Inr (Some (xs, v')))"
  obtains v1 y v2 v3 where "skip v = Inr v1" "parse_value n v1 = Some (Inr (Some (y, v2)))" "skip v2 = Inr v3"
    "v' = v3 \<or> (\<exists>ys. parse_elems n (tl v3) = Some (Inr (Some (ys, v'))))"
  using assms by (auto simp: outcome_iff split: if_splits option.splits)

lemma parse_members_SomeE:
  assumes "parse_members (Suc n) v = Some (Inr (Some (xs, v')))"
  obtains v1 s v2 v3 v4 y v5 v6 where "skip v = Inr v1" "parse_string v1 = Inr (Some (s, v2))" "skip v2 = Inr v3"
    "skip (tl v3) = Inr v4" "parse_value n v4 = Some (Inr (Some (y, v5)))" "skip v5 = Inr v6"
    "v' = v6 \<or> (\<exists>ys. parse_members n (tl v6) = Some (Inr (Some (ys, v'))))"
  using assms by (auto simp: outcome_iff split: if_splits option.splits)

text \<open>Every successful parse consumes text.\<close>

lemma parse_consumes:
  "parse_value n v = Some (Inr (Some (x, v'))) \<Longrightarrow> length v' < length v"
  "parse_array n v = Some (Inr (Some (x, v'))) \<Longrightarrow> length v' < length v"
  "parse_elems n v = Some (Inr (Some (xs, v'))) \<Longrightarrow> length v' < length v"
  "parse_object n v = Some (Inr (Some (x, v'))) \<Longrightarrow> length v' < length v"
  "parse_members n v = Some (Inr (Some (xs, v'))) \<Longrightarrow> length v' < length v"
proof (induction n arbitrary: v x xs v')
  case (Suc n)
  {
    case 1
    then show ?case
      by (cases rule: parse_value_SomeE)
        (use Suc.IH(2,4) in \<open>auto dest: parse_string_length parse_number_length simp: less_Suc_eq_le\<close>)
  next
    case 2
    then obtain v1 where "skip (tl v) = Inr v1" "v' = tl v1 \<or> (\<exists>ys v2. parse_elems n v1 = Some (Inr (Some (ys, v2))) \<and> v' = tl v2)"
      by (auto simp: outcome_iff split: if_splits option.splits)
    then show ?case using skip_tl_length [of v v1] Suc.IH(3) [of v1] by (auto simp: less_imp_diff_less)
  next
    case 3
    then obtain v1 y v2 v3 where s: "skip v = Inr v1" "parse_value n v1 = Some (Inr (Some (y, v2)))" "skip v2 = Inr v3"
      "v' = v3 \<or> (\<exists>ys. parse_elems n (tl v3) = Some (Inr (Some (ys, v'))))"
      by (rule parse_elems_SomeE)
    then have "length v' \<le> length v3" using Suc.IH(3) [of "tl v3" _ v'] by auto
    then show ?case using skip_length [OF s(1)] Suc.IH(1) [OF s(2)] skip_length [OF s(3)] by linarith
  next
    case 4
    then obtain v1 where "skip (tl v) = Inr v1" "v' = tl v1 \<or> (\<exists>ys v2. parse_members n v1 = Some (Inr (Some (ys, v2))) \<and> v' = tl v2)"
      by (auto simp: outcome_iff split: if_splits option.splits)
    then show ?case using skip_tl_length [of v v1] Suc.IH(5) [of v1] by (auto simp: less_imp_diff_less)
  next
    case 5
    then obtain v1 s v2 v3 v4 y v5 v6 where s: "skip v = Inr v1" "parse_string v1 = Inr (Some (s, v2))" "skip v2 = Inr v3"
      "skip (tl v3) = Inr v4" "parse_value n v4 = Some (Inr (Some (y, v5)))" "skip v5 = Inr v6"
      "v' = v6 \<or> (\<exists>ys. parse_members n (tl v6) = Some (Inr (Some (ys, v'))))"
      by (rule parse_members_SomeE)
    then have "length v' \<le> length v6" using Suc.IH(5) [of "tl v6" _ v'] by auto
    then show ?case using skip_length [OF s(1)] parse_string_length [OF s(2)] skip_length [OF s(3)]
        skip_tl_length [OF s(4)] Suc.IH(1) [OF s(5)] skip_length [OF s(6)] by linarith
  }
qed simp_all

text \<open>Three units of fuel for each character are enough, whatever the text is.\<close>

lemma parse_total:
  "3 * length v + 1 \<le> n \<Longrightarrow> parse_value n v \<noteq> None"
  "3 * length v \<le> n \<Longrightarrow> v \<noteq> [] \<Longrightarrow> parse_array n v \<noteq> None"
  "3 * length v + 2 \<le> n \<Longrightarrow> parse_elems n v \<noteq> None"
  "3 * length v \<le> n \<Longrightarrow> v \<noteq> [] \<Longrightarrow> parse_object n v \<noteq> None"
  "3 * length v + 2 \<le> n \<Longrightarrow> parse_members n v \<noteq> None"
proof (induction n arbitrary: v)
  case 0
  {
    case 2
    then show ?case by simp
  next
    case 4
    then show ?case by simp
  }
next
  case (Suc n)
  {
    case 1
    have "pk v = Inr c \<Longrightarrow> v \<noteq> []" for c by (auto simp: pk_def)
    then show ?case using 1 Suc.IH(2,4) [of v] unfolding parse_value.simps
      by (intro notI) (auto simp: run_bind_None_iff split: if_splits simp del: not_None_eq)
  next
    case 2
    have "parse_elems n w \<noteq> None" if "skip (tl v) = Inr w" for w
      using Suc.IH(3) [of w] skip_tl_length [OF that] 2(1) by auto
    then show ?case unfolding parse_array.simps
      by (intro notI) (auto simp: run_bind_None_iff split: option.splits if_splits simp del: not_None_eq)
  next
    case 3
    have "parse_value n w \<noteq> None" if "skip v = Inr w" for w
      using Suc.IH(1) [of w] skip_length [OF that] 3 by auto
    moreover have "parse_elems n (tl w3) \<noteq> None"
      if "skip v = Inr w" "parse_value n w = Some (Inr (Some (x, w2)))" "skip w2 = Inr w3" for w x w2 w3
      using Suc.IH(3) [of "tl w3"] skip_length [OF that(1)] parse_consumes(1) [OF that(2)] skip_length [OF that(3)] 3
      by auto
    ultimately show ?case unfolding parse_elems.simps
      by (intro notI) (auto simp: run_bind_None_iff split: option.splits if_splits simp del: not_None_eq)
  next
    case 4
    have "parse_members n w \<noteq> None" if "skip (tl v) = Inr w" for w
      using Suc.IH(5) [of w] skip_tl_length [OF that] 4(1) by auto
    then show ?case unfolding parse_object.simps
      by (intro notI) (auto simp: run_bind_None_iff split: option.splits if_splits simp del: not_None_eq)
  next
    case 5
    have len: "length w4 < length v" if "skip v = Inr w" "parse_string w = Inr (Some (s, w2))" "skip w2 = Inr w3"
      "skip (tl w3) = Inr w4" for w s w2 w3 w4
      using skip_length [OF that(1)] parse_string_length [OF that(2)] skip_length [OF that(3)] skip_tl_length [OF that(4)]
      by linarith
    have "parse_value n w4 \<noteq> None" if "skip v = Inr w" "parse_string w = Inr (Some (s, w2))" "skip w2 = Inr w3"
      "skip (tl w3) = Inr w4" for w s w2 w3 w4
      using Suc.IH(1) [of w4] len [OF that] 5 by auto
    moreover have "parse_members n (tl w6) \<noteq> None" if "skip v = Inr w" "parse_string w = Inr (Some (s, w2))" "skip w2 = Inr w3"
      "skip (tl w3) = Inr w4" "parse_value n w4 = Some (Inr (Some (x, w5)))" "skip w5 = Inr w6" for w s w2 w3 w4 x w5 w6
      using Suc.IH(5) [of "tl w6"] len [OF that(1-4)] parse_consumes(1) [OF that(5)] skip_length [OF that(6)] 5
      by auto
    ultimately show ?case unfolding parse_members.simps
      by (intro notI) (auto simp: run_bind_None_iff split: option.splits if_splits simp del: not_None_eq)
  }
qed auto


lemma run_bind_mono:
  assumes "run_bind m f = Some r" "\<And>x. m = Some x \<Longrightarrow> m' = Some x" "\<And>x y. f x = Some y \<Longrightarrow> f' x = Some y"
  shows "run_bind m' f' = Some r"
  using assms by (cases m) (auto simp: run_bind_def split: sum.splits)

text \<open>More fuel does not change a result.\<close>

lemma parse_mono:
  "parse_value n v = Some r \<Longrightarrow> parse_value (Suc n) v = Some r"
  "parse_array n v = Some r \<Longrightarrow> parse_array (Suc n) v = Some r"
  "parse_elems n v = Some rs \<Longrightarrow> parse_elems (Suc n) v = Some rs"
  "parse_object n v = Some r \<Longrightarrow> parse_object (Suc n) v = Some r"
  "parse_members n v = Some rs \<Longrightarrow> parse_members (Suc n) v = Some rs"
proof (induction n arbitrary: v r rs)
  case (Suc n)
  {
    case 1
    then show ?case using Suc.IH(2,4)
      unfolding parse_value.simps by (elim run_bind_mono) (auto split: if_splits elim!: run_bind_mono)
  next
    case 2
    then show ?case using Suc.IH(3)
      by (subst parse_array.simps, subst (asm) parse_array.simps)
        (elim run_bind_mono, simp, auto split: if_splits elim!: run_bind_mono)
  next
    case 3
    then show ?case using Suc.IH(1,3)
      by (subst parse_elems.simps, subst (asm) parse_elems.simps)
        (elim run_bind_mono, simp, auto split: if_splits option.splits elim!: run_bind_mono)
  next
    case 4
    then show ?case using Suc.IH(5)
      by (subst parse_object.simps, subst (asm) parse_object.simps)
        (elim run_bind_mono, simp, auto split: if_splits elim!: run_bind_mono)
  next
    case 5
    then show ?case using Suc.IH(1,5)
      by (subst parse_members.simps, subst (asm) parse_members.simps)
        (elim run_bind_mono, simp, auto split: if_splits option.splits elim!: run_bind_mono)
  }
qed simp_all


lemma parse_value_more: "parse_value n v = Some r \<Longrightarrow> n \<le> m \<Longrightarrow> parse_value m v = Some r"
  by (induction m) (auto simp: le_Suc_eq simp del: parse_value.simps intro: parse_mono(1))

section \<open>Texts are read back\<close>

definition spaces :: "string \<Rightarrow> bool" where
  "spaces w \<longleftrightarrow> list_all (\<lambda>c. c \<noteq> NUL \<and> (of_char c :: nat) \<le> 32) w"

lemma skip_spaces:
  "spaces w \<Longrightarrow> 32 < (of_char c :: nat) \<Longrightarrow> skip (w @ c # r) = Inr (c # r)"
  unfolding skip_def spaces_def list_all_iff by (auto simp: dropWhile_append2)

lemma skip_self [simp]: "32 < (of_char c :: nat) \<Longrightarrow> skip (c # r) = Inr (c # r)"
  using skip_spaces [of "[]" c r] by (simp add: spaces_def)

lemma spaces_simps [simp]: "spaces []" "spaces (tabs n)" "spaces (c # w) \<longleftrightarrow> c \<noteq> NUL \<and> (of_char c :: nat) \<le> 32 \<and> spaces w"
    "spaces (v @ w) \<longleftrightarrow> spaces v \<and> spaces w"
  by (auto simp: spaces_def tabs_def list_all_iff)

lemma delim_spaces: "spaces w \<Longrightarrow> c \<in> {CHR '','', CHR '']'', CHR ''}''} \<Longrightarrow> delim (w @ c # r)"
  by (cases w) (auto simp: delim_def c_isdigit_def)

text \<open>A text starts with a character that is not skipped.\<close>

lemma print_int_start: "\<exists>c t. print_int i = c # t \<and> (c = CHR ''-'' \<or> c_isdigit c)"
proof -
  obtain c t where "print_nat (nat i) = c # t" by (cases "print_nat (nat i)") auto
  then show ?thesis using print_nat_digits [of c "nat i"] by (simp add: print_int_def)
qed

lemma json_text_start:
  "\<exists>c t. json_text j fmt d = c # t \<and> 32 < (of_char c :: nat) \<and> c \<noteq> CHR '']''"
proof (cases j)
  case (JNum i)
  then show ?thesis using print_int_start [of i] by (auto simp: c_isdigit_def)
qed (auto simp: quoted_def)

lemma skip_text: "spaces w \<Longrightarrow> skip (w @ json_text j fmt d @ r) = Inr (json_text j fmt d @ r)"
  using json_text_start [of j fmt d] skip_spaces [of w] by auto

definition reads :: "bool \<Rightarrow> nat \<Rightarrow> json \<Rightarrow> bool" where
  "reads fmt d j \<longleftrightarrow> (\<forall>r. delim r \<longrightarrow>
     (\<exists>N. \<forall>n \<ge> N. parse_value n (json_text j fmt d @ r) = Some (Inr (Some (repr j, r)))))"

lemma ex_fuel:
  assumes "\<And>n. N \<le> n \<Longrightarrow> f (Suc n) = y"
  shows "\<exists>N. \<forall>n \<ge> N. f n = y"
proof (intro exI allI impI)
  fix n
  assume "Suc N \<le> n"
  then show "f n = y" using assms by (cases n) auto
qed

lemma parse_elems_text:
  assumes "js \<noteq> []" "\<And>j. j \<in> set js \<Longrightarrow> reads fmt d j" "spaces w"
  shows "\<exists>N. \<forall>n \<ge> N. parse_elems n (w @ join_array fmt (map (\<lambda>j. json_text j fmt d) js) @ CHR '']'' # r) =
    Some (Inr (Some (map repr js, CHR '']'' # r)))"
  using assms
proof (induction js arbitrary: w)
  case (Cons j js)
  show ?case
  proof (cases js)
    case Nil
    obtain N where N: "\<forall>n \<ge> N. parse_value n (json_text j fmt d @ CHR '']'' # r) = Some (Inr (Some (repr j, CHR '']'' # r)))"
      using Cons.prems(2) [of j] delim_spaces [of "[]" "CHR '']''" r] by (auto simp: reads_def)
    have "parse_elems n (w @ json_text j fmt d @ CHR '']'' # r) = Some (Inr (Some ([repr j], CHR '']'' # r)))" if "Suc N \<le> n" for n
      using that N skip_text [OF Cons.prems(3)] by (cases n) auto
    then show ?thesis using Nil by auto
  next
    case (Cons j' js')
    let ?s = "if fmt then '' '' else []"
    let ?r = "?s @ join_array fmt (map (\<lambda>j. json_text j fmt d) js) @ CHR '']'' # r"
    obtain N where N: "\<forall>n \<ge> N. parse_value n (json_text j fmt d @ CHR '','' # ?r) = Some (Inr (Some (repr j, CHR '','' # ?r)))"
      using Cons.prems(2) [of j] delim_spaces [of "[]" "CHR '',''" ?r] by (fastforce simp: reads_def)
    obtain M where M: "\<forall>n \<ge> M. parse_elems n ?r = Some (Inr (Some (map repr js, CHR '']'' # r)))"
    proof -
      have "spaces ?s" by simp
      then show thesis using Cons.IH [of ?s] Cons.prems(2) Cons that by auto
    qed
    have t: "join_array fmt (map (\<lambda>j. json_text j fmt d) (j # js)) @ CHR '']'' # r = json_text j fmt d @ CHR '','' # ?r"
      using Cons by simp
    have "parse_elems n (w @ json_text j fmt d @ CHR '','' # ?r) = Some (Inr (Some (map repr (j # js), CHR '']'' # r)))"
      if "Suc (max N M) \<le> n" for n
      using that N M skip_text [OF Cons.prems(3)] by (cases n) auto
    then show ?thesis unfolding t by blast
  qed
qed simp

lemma parse_members_step:
  assumes "skip v = Inr (quoted s @ CHR '':'' # v2)" "NUL \<notin> set s" "skip v2 = Inr v3"
    "parse_value n v3 = Some (Inr (Some (x, v4)))" "skip v4 = Inr v5"
  shows "parse_members (Suc n) v =
    (if hd v5 = CHR '','' then run_bind (parse_members n (tl v5)) (\<lambda>r. case r of
        None \<Rightarrow> Some (Inr None) | Some (xs, v) \<Rightarrow> Some (Inr (Some (set_name (Some s) x # xs, v))))
     else Some (Inr (Some ([set_name (Some s) x], v5))))"
  using assms by (simp add: parse_string_quoted)

lemma parse_members_text:
  assumes "ms \<noteq> []" "\<And>s j. (s, j) \<in> set ms \<Longrightarrow> NUL \<notin> set s \<and> reads fmt d j" "spaces w" "spaces wt"
  shows "\<exists>N. \<forall>n \<ge> N. parse_members n
      (w @ join_object fmt d (map (\<lambda>(s, j). (quoted s, json_text j fmt d)) ms) @ wt @ CHR ''}'' # r) =
    Some (Inr (Some (map (\<lambda>(s, j). set_name (Some s) (repr j)) ms, CHR ''}'' # r)))"
  using assms
proof (induction ms arbitrary: w)
  case (Cons m ms)
  obtain s j where m: "m = (s, j)" by (cases m)
  have sj: "NUL \<notin> set s" "reads fmt d j" using Cons.prems(2) [of s j] by (auto simp: m)
  let ?t1 = "if fmt then tabs d else []" and ?t2 = "if fmt then [CHR 0x09] else []" and ?nl = "if fmt then [CHR 0x0A] else []"
  let ?es = "map (\<lambda>(s, j). (quoted s, json_text j fmt d)) ms"
  have sp: "spaces (w @ ?t1)" "spaces ?t2" "spaces ?nl" using Cons.prems(3) by auto
  define r1 where "r1 = (if ms = [] then (?nl @ wt) @ CHR ''}'' # r else CHR '','' # ?nl @ join_object fmt d ?es @ wt @ CHR ''}'' # r)"
  have t: "w @ join_object fmt d (map (\<lambda>(s, j). (quoted s, json_text j fmt d)) (m # ms)) @ wt @ CHR ''}'' # r =
      (w @ ?t1) @ quoted s @ CHR '':'' # ?t2 @ json_text j fmt d @ r1"
    by (simp add: m r1_def)
  have "delim r1"
    using delim_spaces [of "?nl @ wt" "CHR ''}''" r] delim_spaces [of "[]" "CHR '',''"] sp(3) Cons.prems(4) by (auto simp: r1_def)
  then obtain N where N: "\<forall>n \<ge> N. parse_value n (json_text j fmt d @ r1) = Some (Inr (Some (repr j, r1)))"
    using sj(2) by (auto simp: reads_def)
  have q: "skip ((w @ ?t1) @ quoted s @ v) = Inr (quoted s @ v)" for v
    using skip_spaces [OF sp(1), of DQ "concat (map print_char s) @ DQ # v"] by (simp add: quoted_def)
  have step: "parse_members (Suc n) ((w @ ?t1) @ quoted s @ CHR '':'' # ?t2 @ json_text j fmt d @ r1) =
    (if hd r2 = CHR '','' then run_bind (parse_members n (tl r2)) (\<lambda>r. case r of
        None \<Rightarrow> Some (Inr None) | Some (xs, v) \<Rightarrow> Some (Inr (Some (set_name (Some s) (repr j) # xs, v))))
     else Some (Inr (Some ([set_name (Some s) (repr j)], r2))))" if "skip r1 = Inr r2" "N \<le> n" for r2 n
    using parse_members_step [OF q sj(1) skip_text [OF sp(2)] _ that(1)] N that(2) by blast
  show ?case
  proof (cases "ms = []")
    case True
    then have "skip r1 = Inr (CHR ''}'' # r)"
      using skip_spaces [of "?nl @ wt" "CHR ''}''" r] sp(3) Cons.prems(4) by (simp add: r1_def)
    from step [OF this] have "parse_members (Suc n) ((w @ ?t1) @ quoted s @ CHR '':'' # ?t2 @ json_text j fmt d @ r1) =
        Some (Inr (Some (map (\<lambda>(s, j). set_name (Some s) (repr j)) (m # ms), CHR ''}'' # r)))" if "N \<le> n" for n
      using that True by (simp add: m)
    then show ?thesis unfolding t by (rule ex_fuel)
  next
    case False
    obtain M where M: "\<forall>n \<ge> M. parse_members n (?nl @ join_object fmt d ?es @ wt @ CHR ''}'' # r) =
        Some (Inr (Some (map (\<lambda>(s, j). set_name (Some s) (repr j)) ms, CHR ''}'' # r)))"
      using Cons.IH [OF False _ sp(3) Cons.prems(4)] Cons.prems(2) by fastforce
    have r1: "skip r1 = Inr r1" "hd r1 = CHR '',''" "tl r1 = ?nl @ join_object fmt d ?es @ wt @ CHR ''}'' # r"
      using False by (simp_all add: r1_def)
    have "parse_members (Suc n) ((w @ ?t1) @ quoted s @ CHR '':'' # ?t2 @ json_text j fmt d @ r1) =
        Some (Inr (Some (map (\<lambda>(s, j). set_name (Some s) (repr j)) (m # ms), CHR ''}'' # r)))" if "max N M \<le> n" for n
    proof -
      have "parse_members n (tl r1) = Some (Inr (Some (map (\<lambda>(s, j). set_name (Some s) (repr j)) ms, CHR ''}'' # r)))"
        using M that unfolding r1(3) by simp
      moreover have "N \<le> n" using that by simp
      ultimately show ?thesis unfolding step [OF r1(1) \<open>N \<le> n\<close>] by (simp add: r1(2) m)
    qed
    then show ?thesis unfolding t by (rule ex_fuel)
  qed
qed simp

lemma skip_idem: "skip v = Inr v' \<Longrightarrow> skip v' = Inr v'"
proof -
  let ?P = "\<lambda>c. c \<noteq> NUL \<and> (of_char c :: nat) \<le> 32"
  assume "skip v = Inr v'"
  then have "v' = dropWhile ?P v" "v' \<noteq> []" unfolding skip_def Let_def by (auto split: if_split_asm)
  then show ?thesis unfolding skip_def Let_def by (simp only: dropWhile_idem) simp
qed

lemma parse_skipped:
  assumes "skip v = Inr v'"
  shows "parse_elems n v' = parse_elems n v" "parse_members n v' = parse_members n v"
proof -
  show "parse_elems n v' = parse_elems n v"
  proof (cases n)
    case (Suc k)
    show ?thesis unfolding Suc parse_elems.simps assms skip_idem [OF assms] by (rule refl)
  qed simp
  show "parse_members n v' = parse_members n v"
  proof (cases n)
    case (Suc k)
    show ?thesis unfolding Suc parse_members.simps assms skip_idem [OF assms] by (rule refl)
  qed simp
qed

lemma parse_array_text:
  assumes "\<And>j. j \<in> set js \<Longrightarrow> reads fmt d j"
  shows "\<exists>N. \<forall>n \<ge> N. parse_array n (CHR ''['' # join_array fmt (map (\<lambda>j. json_text j fmt d) js) @ CHR '']'' # r) =
    Some (Inr (Some (CJson cJSON_Array (map repr js) None 0 0 None, r)))"
proof (cases js)
  case Nil
  show ?thesis by (rule ex_fuel [of 0]) (simp add: Nil)
next
  case (Cons j js')
  let ?t = "join_array fmt (map (\<lambda>j. json_text j fmt d) js) @ CHR '']'' # r"
  obtain N where N: "\<forall>n \<ge> N. parse_elems n ?t = Some (Inr (Some (map repr js, CHR '']'' # r)))"
    using parse_elems_text [of js fmt d "[]" r] assms Cons by auto
  obtain c t where c: "json_text j fmt d = c # t" "32 < (of_char c :: nat)" "c \<noteq> CHR '']''"
    using json_text_start [of j fmt d] by blast
  then obtain t' where t': "?t = c # t'" using Cons by (cases js') auto
  have "parse_array (Suc n) (CHR ''['' # ?t) = Some (Inr (Some (CJson cJSON_Array (map repr js) None 0 0 None, r)))"
    if "N \<le> n" for n
    using N that c(2,3) unfolding t' by simp
  then show ?thesis by (rule ex_fuel)
qed

lemma parse_object_text:
  assumes "\<And>s j. (s, j) \<in> set ms \<Longrightarrow> NUL \<notin> set s \<and> reads fmt d j" "spaces w" "spaces wt"
  shows "\<exists>N. \<forall>n \<ge> N. parse_object n
      (CHR ''{'' # w @ join_object fmt d (map (\<lambda>(s, j). (quoted s, json_text j fmt d)) ms) @ wt @ CHR ''}'' # r) =
    Some (Inr (Some (CJson cJSON_Object (map (\<lambda>(s, j). set_name (Some s) (repr j)) ms) None 0 0 None, r)))"
proof (cases ms)
  case Nil
  have "skip ((w @ wt) @ CHR ''}'' # r) = Inr (CHR ''}'' # r)" using assms(2,3) by (intro skip_spaces) simp_all
  then show ?thesis by (intro ex_fuel [of 0]) (simp add: Nil)
next
  case (Cons m ms')
  obtain s j where m: "m = (s, j)" by (cases m)
  let ?t = "w @ join_object fmt d (map (\<lambda>(s, j). (quoted s, json_text j fmt d)) ms) @ wt @ CHR ''}'' # r"
  obtain N where N: "\<forall>n \<ge> N. parse_members n ?t =
      Some (Inr (Some (map (\<lambda>(s, j). set_name (Some s) (repr j)) ms, CHR ''}'' # r)))"
    using parse_members_text [of ms fmt d w wt r] assms Cons by auto
  obtain t' where "?t = (w @ (if fmt then tabs d else [])) @ DQ # t'" by (simp add: Cons m quoted_def)
  then have sk: "skip ?t = Inr (DQ # t')" using assms(2) by (simp only:) (rule skip_spaces, auto)
  have "parse_object (Suc n) (CHR ''{'' # ?t) =
      Some (Inr (Some (CJson cJSON_Object (map (\<lambda>(s, j). set_name (Some s) (repr j)) ms) None 0 0 None, r)))"
    if "N \<le> n" for n
    using N that parse_skipped(2) [OF sk, of n] sk by simp
  then show ?thesis by (rule ex_fuel)
qed

lemma json_reads: "json_ok j \<Longrightarrow> reads fmt d j"
proof (induction j arbitrary: d)
  case (JNum i)
  obtain c t where t: "print_int i = c # t" "c = CHR ''-'' \<or> c_isdigit c"
    using print_int_start [of i] by blast
  then have c: "c \<noteq> CHR ''n''" "c \<noteq> CHR ''f''" "c \<noteq> CHR ''t''" "c \<noteq> DQ" by (auto simp: c_isdigit_def)
  have "parse_value (Suc n) (print_int i @ r) = Some (Inr (Some (repr (JNum i), r)))" if "delim r" for n r
    using parse_number_print [OF that, of i] JNum c t by simp
  then show ?case unfolding reads_def by (auto intro!: ex_fuel [of 0])
next
  case (JStr s)
  then have "parse_string (DQ # (concat (map print_char s) @ DQ # r)) = Inr (Some (s, r))" for r
    using parse_string_quoted [of s r] by (simp add: quoted_def)
  then show ?case unfolding reads_def by (auto intro!: ex_fuel [of 0] simp: quoted_def)
next
  case (JArr js)
  then have "\<And>j. j \<in> set js \<Longrightarrow> reads fmt (Suc d) j" by (simp add: list_all_iff)
  from parse_array_text [OF this] have "\<exists>N. \<forall>n \<ge> N. parse_array n (json_text (JArr js) fmt d @ r) =
      Some (Inr (Some (repr (JArr js), r)))" for r by (simp add: comp_def)
  then show ?case unfolding reads_def
  proof (intro allI impI)
    fix r
    obtain N where "\<forall>n \<ge> N. parse_array n (json_text (JArr js) fmt d @ r) = Some (Inr (Some (repr (JArr js), r)))"
      using \<open>\<And>r. \<exists>N. \<forall>n \<ge> N. parse_array n (json_text (JArr js) fmt d @ r) = Some (Inr (Some (repr (JArr js), r)))\<close> by blast
    then show "\<exists>N. \<forall>n \<ge> N. parse_value n (json_text (JArr js) fmt d @ r) = Some (Inr (Some (repr (JArr js), r)))"
      by (intro ex_fuel [of N]) (simp add: c_isdigit_def)
  qed
next
  case (JObj ms)
  have "NUL \<notin> set s \<and> reads fmt (Suc d) j" if "(s, j) \<in> set ms" for s j
    using that JObj.prems JObj.IH [of "(s, j)" j "Suc d"] by (auto simp: list_all_iff snds.simps)
  note obj = parse_object_text [OF this, of ms "if fmt then [CHR 0x0A] else []" "if fmt then tabs (if ms = [] then d - 1 else d) else []"]
  show ?case unfolding reads_def
  proof (intro allI impI)
    fix r
    have e: "json_text (JObj ms) fmt d @ r = CHR ''{'' # (if fmt then [CHR 0x0A] else []) @ join_object fmt (Suc d)
        (map (\<lambda>(s, j). (quoted s, json_text j fmt (Suc d))) ms) @
        (if fmt then tabs (if ms = [] then d - 1 else d) else []) @ CHR ''}'' # r"
      by (simp add: comp_def map_prod_def case_prod_beta')
    have p: "repr (JObj ms) = CJson cJSON_Object (map (\<lambda>(s, j). set_name (Some s) (repr j)) ms) None 0 0 None"
      by (simp add: comp_def case_prod_beta)
    obtain N where "\<forall>n \<ge> N. parse_object n (json_text (JObj ms) fmt d @ r) = Some (Inr (Some (repr (JObj ms), r)))"
    proof -
      have "spaces (if fmt then [CHR 0x0A] else [])" "spaces (if fmt then tabs (if ms = [] then d - 1 else d) else [])"
        by simp_all
      from obj [OF _ this, of r] show thesis using that unfolding e p by blast
    qed
    then show "\<exists>N. \<forall>n \<ge> N. parse_value n (json_text (JObj ms) fmt d @ r) = Some (Inr (Some (repr (JObj ms), r)))"
      unfolding e by (intro ex_fuel [of N]) (simp add: c_isdigit_def)
  qed
qed (auto simp: reads_def intro!: ex_fuel [of 0])

section \<open>The contract of the library\<close>

text \<open>
  What the rest of the program relies on: a printer that gives every value a text and a parser that
  gives the value back. The printer with and without layout are two instances.
\<close>

locale text_format =
  fixes show_text :: "'v \<Rightarrow> string option"
    and read_text :: "string \<Rightarrow> 'v option"
    and good :: "'v \<Rightarrow> bool"
  assumes read_show: "good v \<Longrightarrow> \<exists>t. show_text v = Some t \<and> read_text t = Some v"
begin

lemma show_total: "good v \<Longrightarrow> show_text v \<noteq> None"
  using read_show by fastforce

lemma show_inj:
  assumes "good v" "good w" "show_text v = show_text w"
  shows "v = w"
  using read_show [OF assms(1)] read_show [OF assms(2)] assms(3) by auto

end

definition show_item :: "(rat \<Rightarrow> string) \<Rightarrow> bool \<Rightarrow> cJSON \<Rightarrow> string option" where
  "show_item fd fmt c = (case print_value fd fmt 0 c of Inr t \<Rightarrow> t | Inl _ \<Rightarrow> None)"

definition read_item :: "string \<Rightarrow> cJSON option" where
  "read_item t = (case cJSON_Parse (t @ [NUL]) of Some (Inr c) \<Rightarrow> c | _ \<Rightarrow> None)"

lemma parse_text:
  assumes "json_ok j"
  shows "cJSON_ParseWithOpts (json_text j fmt d @ NUL # r) b = Some (Inr (Some (repr j, NUL # r)))"
proof -
  let ?v = "json_text j fmt d @ NUL # r"
  have "delim (NUL # r)" by (simp add: delim_def c_isdigit_def)
  then obtain N where N: "\<forall>n \<ge> N. parse_value n ?v = Some (Inr (Some (repr j, NUL # r)))"
    using json_reads [OF assms, of fmt d] by (auto simp: reads_def)
  obtain x where x: "parse_value (3 * length ?v + 1) ?v = Some x"
    using parse_total(1) [of ?v "3 * length ?v + 1"] by blast
  then have "parse_value (max N (3 * length ?v + 1)) ?v = Some x" by (rule parse_value_more) simp
  then have "x = Inr (Some (repr j, NUL # r))" using N by simp
  moreover have "skip ?v = Inr ?v" using skip_text [of "[]" j fmt d "NUL # r"] by simp
  moreover have "skip (NUL # r) = Inr (NUL # r)" by (simp add: skip_def)
  ultimately show ?thesis using x by (simp add: cJSON_ParseWithOpts_def del: parse_value.simps)
qed

interpretation formatted: text_format "show_item fd True" read_item "\<lambda>c. \<exists>j. json_ok j \<and> c = repr j" for fd
proof
  show "\<exists>t. show_item fd True c = Some t \<and> read_item t = Some c" if "\<exists>j. json_ok j \<and> c = repr j" for c
    using that by (auto simp: show_item_def read_item_def print_value_repr cJSON_Parse_def parse_text)
qed

interpretation unformatted: text_format "show_item fd False" read_item "\<lambda>c. \<exists>j. json_ok j \<and> c = repr j" for fd
proof
  show "\<exists>t. show_item fd False c = Some t \<and> read_item t = Some c" if "\<exists>j. json_ok j \<and> c = repr j" for c
    using that by (auto simp: show_item_def read_item_def print_value_repr cJSON_Parse_def parse_text)
qed

text \<open>
  C14. Round trip: for every JSON value with integer numbers of 32 bits and strings without NUL,
  \<^verbatim>\<open>cJSON_Print\<close> and \<^verbatim>\<open>cJSON_PrintUnformatted\<close> return a text without running over a block, and
  \<^verbatim>\<open>cJSON_Parse\<close> of either text, whatever lies behind it in memory, returns the item again and
  stops at the terminator.
\<close>

theorem json_roundtrip:
  assumes "json_ok j"
  shows "\<exists>t u. cJSON_Print fd (repr j) = Inr (Some t) \<and> cJSON_PrintUnformatted fd (repr j) = Inr (Some u) \<and>
    cJSON_Parse (t @ NUL # r) = Some (Inr (Some (repr j))) \<and>
    cJSON_Parse (u @ NUL # r) = Some (Inr (Some (repr j))) \<and>
    cJSON_ParseWithOpts (u @ NUL # r) True = Some (Inr (Some (repr j, NUL # r)))"
  using assms
  by (simp add: cJSON_Print_def cJSON_PrintUnformatted_def print_value_repr cJSON_Parse_def parse_text)

theorem json_roundtrip_witness:
  "\<exists>t u. cJSON_Print (\<lambda>_. []) (repr (JObj [(''cmd'', JStr ''get''), (''data'', JArr [JNum (- 5), JNull])])) = Inr (Some t) \<and>
    cJSON_PrintUnformatted (\<lambda>_. []) (repr (JObj [(''cmd'', JStr ''get''), (''data'', JArr [JNum (- 5), JNull])])) = Inr (Some u) \<and>
    cJSON_Parse (t @ NUL # []) = Some (Inr (Some (repr (JObj [(''cmd'', JStr ''get''), (''data'', JArr [JNum (- 5), JNull])])))) \<and>
    cJSON_Parse (u @ NUL # []) = Some (Inr (Some (repr (JObj [(''cmd'', JStr ''get''), (''data'', JArr [JNum (- 5), JNull])]))))"
proof -
  have "json_ok (JObj [(''cmd'', JStr ''get''), (''data'', JArr [JNum (- 5), JNull])])" by simp
  from json_roundtrip [OF this, of "\<lambda>_. []" "[]"] show ?thesis by blast
qed

text \<open>
  C15. The parser returns for every text: no input makes it loop, and the fuel of the model is never
  exhausted. It ends with an item, a parse failure, or an access outside the text's block.
\<close>

theorem json_parse_terminates:
  "\<exists>res. cJSON_Parse value = Some res"
proof -
  have "parse_value (3 * length v + 1) v \<noteq> None" for v by (rule parse_total(1)) simp
  then have "cJSON_Parse value \<noteq> None"
    unfolding cJSON_Parse_def cJSON_ParseWithOpts_def
    by (auto simp: run_bind_None_iff split: option.splits simp del: parse_value.simps not_None_eq)
  then show ?thesis by blast
qed

section \<open>Escapes that overrun the block\<close>

definition plain :: "string \<Rightarrow> bool" where
  "plain s \<longleftrightarrow> list_all (\<lambda>c. c \<noteq> DQ \<and> c \<noteq> BSL \<and> c \<noteq> NUL) s"

lemma string_len_plain: "plain s \<Longrightarrow> string_len (s @ v) = rbind (string_len v) (\<lambda>n. Inr (length s + n))"
  by (induction s) (cases "string_len v"; auto simp: plain_def)+

lemma string_copy_plain:
  "plain s \<Longrightarrow> length out + length s \<le> cap \<Longrightarrow> string_copy cap out (s @ v) = string_copy cap (out @ s) v"
  by (induction s arbitrary: out) (auto simp: plain_def)

lemma string_copy_overflow:
  "plain s \<Longrightarrow> length out \<le> cap \<Longrightarrow> cap < length out + length s \<Longrightarrow> string_copy cap out (s @ v) = Inl OutOfBounds"
  by (induction s arbitrary: out) (auto simp: plain_def)

text \<open>
  A \<^verbatim>\<open>\u\<close> escape that is cut short by the closing quote writes outside the heap block: the first
  pass stops at the quote and sizes the block by it, the second one jumps four characters
  ahead, over the quote, and goes on copying what the sender put behind it. Six characters
  behind the string are enough, and the text is properly terminated.
\<close>

theorem short_escape_overruns:
  assumes "plain s" "plain x" "6 \<le> length x"
  shows "cJSON_Parse (DQ # s @ [BSL, CHR ''u'', DQ] @ x @ NUL # r) = Some (Inl OutOfBounds)"
proof -
  let ?v = "BSL # CHR ''u'' # DQ # x @ NUL # r"
  have "length (drop 3 x) = length x - 3" by simp
  then have x: "plain (drop 3 x)" "3 \<le> length (drop 3 x)"
    using assms(2,3) by (auto simp: plain_def list_all_iff dest: in_set_dropD)
  have "hex_val DQ = None" by (simp add: hex_val_def)
  then have "parse_hex4 (DQ # x @ NUL # r) = Inr 0"
  proof -
    have four: "4 = Suc 3" by simp
    show "hex_val DQ = None \<Longrightarrow> ?thesis" unfolding parse_hex4_def four hex_loop.simps by simp
  qed
  then have e: "escape (CHR ''u'') (DQ # x @ NUL # r) = Inr ([], 4)" by (simp add: escape_def escape_u_def)
  have "drop 4 (DQ # x @ NUL # r) = drop 3 x @ NUL # r" using assms(3) by simp
  then have "string_copy (length s + 2) s ?v = string_copy (length s + 2) s (drop 3 x @ NUL # r)"
    using e by simp
  also have "\<dots> = Inl OutOfBounds" using x by (intro string_copy_overflow) auto
  finally have "string_copy (length s + 2) [] (s @ ?v) = Inl OutOfBounds"
    using string_copy_plain [OF assms(1), of "[]" "length s + 2" ?v] by simp
  moreover have "string_len (s @ ?v) = Inr (length s + 1)" using string_len_plain [OF assms(1), of ?v] by simp
  ultimately have "parse_string (DQ # s @ ?v) = Inl OutOfBounds" by (simp add: parse_string_def)
  then show ?thesis by (simp add: cJSON_Parse_def cJSON_ParseWithOpts_def)
qed

theorem short_escape_overruns_witness:
  "cJSON_Parse (DQ # ''id'' @ [BSL, CHR ''u'', DQ] @ ''AAAAAA'' @ NUL # []) = Some (Inl OutOfBounds)"
  by (rule short_escape_overruns) (simp_all add: plain_def)

section \<open>Objects as finite maps\<close>

text \<open>
  Items are looked up by name without regard to case, and the first one with the name is found.
  Adding appends, so a name that is already there keeps its old value.
\<close>

lemma child_set_child [simp]: "child (set_child cs c) = cs"
  by (cases c) simp

lemma get_after_add:
  "cJSON_GetObjectItem (cJSON_AddItemToObject ob s (Some x)) s' =
    (case cJSON_GetObjectItem ob s' of Some y \<Rightarrow> Some y
     | None \<Rightarrow> if cJSON_strcasecmp_eq (Some s) (Some s') then Some (set_name (Some s) x) else None)"
  by (auto simp: cJSON_GetObjectItem_def cJSON_AddItemToObject_def cJSON_AddItemToArray_def find_append split: option.splits)

lemma name_index_find:
  "cJSON_GetObjectItem ob s = map_option (\<lambda>i. child ob ! i) (name_index (child ob) s)"
proof -
  have "find (\<lambda>c. cJSON_strcasecmp_eq (cname c) (Some s)) cs = map_option (\<lambda>i. cs ! i) (name_index cs s)" for cs
    by (induction cs) (auto simp: option.map_comp comp_def)
  then show ?thesis by (simp add: cJSON_GetObjectItem_def)
qed

lemma name_index_bound: "name_index cs s = Some i \<Longrightarrow> i < length cs"
  by (induction cs arbitrary: i) (auto split: if_splits)

lemma get_after_replace:
  assumes "cJSON_GetObjectItem ob s \<noteq> None"
  shows "cJSON_GetObjectItem (cJSON_ReplaceItemInObject ob s x) s = Some (set_name (Some s) x)"
proof -
  obtain i where i: "name_index (child ob) s = Some i" using assms by (auto simp: name_index_find)
  have "name_index (cs[j := set_name (Some s) x]) s = Some j" if "name_index cs s = Some j" for cs j
    using that by (induction cs arbitrary: j) (auto simp: cJSON_strcasecmp_eq_def split: if_splits)
  then show ?thesis using i name_index_bound [OF i]
    by (simp add: name_index_find cJSON_ReplaceItemInObject_def cJSON_ReplaceItemInArray_def)
qed

lemma detach_returns_get:
  "snd (cJSON_DetachItemFromObject ob s) = cJSON_GetObjectItem ob s"
  by (auto simp: name_index_find cJSON_DetachItemFromObject_def cJSON_DetachItemFromArray_def
      dest: name_index_bound split: option.splits)

end
