(* ===== verification/UsrString.thy ===== *)
theory UsrString
  imports CString
begin

text \<open>
  The string helpers of \<^verbatim>\<open>src/ExtLibs/UsrString/userdefine.c\<close>: searching between two pointers,
  comparing without regard to case, and copying the value between white space that the HTTP and
  WebSocket servers use to read header fields. Pointers into one buffer \<open>mem\<close> are offsets, NULL
  is \<open>None\<close>. Buffers are shorter than \<^verbatim>\<open>INT_MAX\<close>, so the \<^verbatim>\<open>int\<close> counters of the code do not
  wrap.
\<close>

section \<open>Searching forwards\<close>

text \<open>
  The inner loop of \<open>usr_str_btweenpoint\<close> at one position: it succeeds on the last character of
  the pattern. With an empty pattern it compares the terminator and then runs past it.
\<close>

fun str_match :: "string \<Rightarrow> nat \<Rightarrow> string \<Rightarrow> fault + bool" where
  "str_match mem k [] = rbind (ch mem k) (\<lambda>d. if d = NUL then Inl OutOfBounds else Inr False)"
| "str_match mem k [c] = rbind (ch mem k) (\<lambda>d. Inr (c = d))"
| "str_match mem k (c # c' # cs) =
     rbind (ch mem k) (\<lambda>d. if c = d then str_match mem (Suc k) (c' # cs) else Inr False)"

fun str_search :: "string \<Rightarrow> nat \<Rightarrow> nat \<Rightarrow> string \<Rightarrow> fault + nat option" where
  "str_search mem k 0 str = Inr None"
| "str_search mem k (Suc n) str =
     rbind (str_match mem k str) (\<lambda>b. if b then Inr (Some k) else str_search mem (Suc k) n str)"

definition usr_str_btweenpoint ::
  "string \<Rightarrow> nat option \<Rightarrow> nat option \<Rightarrow> string option \<Rightarrow> fault + nat option" where
  "usr_str_btweenpoint mem pfont pbehind str =
     (case (str, pfont, pbehind) of
        (Some s, Some f, Some b) \<Rightarrow>
          if f \<le> b \<and> length s > b - f \<or> b \<le> f then Inr None
          else str_search mem f (b - f - length s + 1) s
      | _ \<Rightarrow> Inr None)"

definition usr_struntilstr ::
  "string \<Rightarrow> nat \<Rightarrow> string \<Rightarrow> string option \<Rightarrow> fault + nat option" where
  "usr_struntilstr mem pfont pbehind str =
     rbind (c_str mem pfont) (\<lambda>t.
     case strstr t pbehind of None \<Rightarrow> Inr None
     | Some k \<Rightarrow> usr_str_btweenpoint mem (Some pfont) (Some (pfont + k)) str)"

text \<open>The result of a search lies in the range, with room for the pattern.\<close>

lemma str_search_bounds:
  "str_search mem k n str = Inr (Some p) \<Longrightarrow> k \<le> p \<and> p < k + n \<and> str \<noteq> []"
proof (induction n arbitrary: k)
  case (Suc n)
  have "str_match mem k str = Inr True \<Longrightarrow> str \<noteq> []"
    by (cases str) (auto simp: ch_def split: if_splits)
  then show ?case using Suc by (fastforce simp: outcome_iff split: if_splits)
qed simp

lemma usr_str_btweenpoint_bounds:
  assumes "usr_str_btweenpoint mem (Some f) (Some b) (Some s) = Inr (Some p)"
  shows "f \<le> p \<and> p + length s \<le> b \<and> s \<noteq> []"
proof -
  have "\<not> (f \<le> b \<and> length s > b - f)" "\<not> b \<le> f"
    and s: "str_search mem f (b - f - length s + 1) s = Inr (Some p)"
    using assms by (auto simp: usr_str_btweenpoint_def split: if_splits)
  then show ?thesis using str_search_bounds [OF s] by auto
qed

text \<open>The counting loop ends: every round moves the front pointer forward.\<close>

function strnum_loop :: "string \<Rightarrow> nat \<Rightarrow> nat \<Rightarrow> string \<Rightarrow> nat \<Rightarrow> fault + nat" where
  "strnum_loop mem pf pbehind str count =
     (case usr_str_btweenpoint mem (Some pf) (Some pbehind) (Some str) of
        Inl e \<Rightarrow> Inl e
      | Inr None \<Rightarrow> Inr count
      | Inr (Some p) \<Rightarrow> strnum_loop mem (p + length str) pbehind str (Suc count))"
  by pat_completeness auto
termination
proof (relation "measure (\<lambda>(mem, pf, pbehind, str, count). pbehind - pf)")
  fix mem pf pbehind str count z p
  assume "usr_str_btweenpoint mem (Some pf) (Some pbehind) (Some str) = Inr z" "z = Some p"
  then have "pf \<le> p \<and> p + length str \<le> pbehind \<and> str \<noteq> []"
    using usr_str_btweenpoint_bounds by blast
  then show "((mem, p + length str, pbehind, str, Suc count), mem, pf, pbehind, str, count)
             \<in> measure (\<lambda>(mem, pf, pbehind, str, count). pbehind - pf)"
    by (cases str) auto
qed simp

declare strnum_loop.simps [simp del]

definition usr_strnum_btweenpoint :: "string \<Rightarrow> nat \<Rightarrow> nat \<Rightarrow> string \<Rightarrow> fault + nat" where
  "usr_strnum_btweenpoint mem pfont pbehind str = strnum_loop mem pfont pbehind str 0"

section \<open>Comparing and searching without regard to case\<close>

definition upper_c :: "char \<Rightarrow> bool" where
  "upper_c c \<longleftrightarrow> 65 \<le> (of_char c :: nat) \<and> (of_char c :: nat) \<le> 90"

definition lower_c :: "char \<Rightarrow> bool" where
  "lower_c c \<longleftrightarrow> 97 \<le> (of_char c :: nat) \<and> (of_char c :: nat) \<le> 122"

fun casecmp_loop :: "nat \<Rightarrow> string \<Rightarrow> string \<Rightarrow> int" where
  "casecmp_loop (Suc n) (a # as) (b # bs) =
     (if a = b then casecmp_loop n as bs
      else if upper_c a \<and> lower_c b then
        (if of_char a + 32 = (of_char b :: nat) then casecmp_loop n as bs else - 1)
      else if upper_c b \<and> lower_c a then
        (if of_char b + 32 = (of_char a :: nat) then casecmp_loop n as bs else - 1)
      else - 1)"
| "casecmp_loop n as bs = (if n = 0 then 0 else - 1)"

definition usr_strncasecmp :: "string option \<Rightarrow> string option \<Rightarrow> int \<Rightarrow> int" where
  "usr_strncasecmp str1 str2 len =
     (case (str1, str2) of
        (Some s1, Some s2) \<Rightarrow>
          if int (length s1) < len \<or> int (length s2) < len then - 1
          else casecmp_loop (nat len) s1 s2
      | _ \<Rightarrow> - 1)"

definition usr_strcasecmp :: "string \<Rightarrow> string \<Rightarrow> int" where
  "usr_strcasecmp str1 str2 =
     (if length str1 \<noteq> length str2 then - 1
      else usr_strncasecmp (Some str1) (Some str2) (int (length str1)))"

text \<open>The test both backward searches make at a position.\<close>

definition case_match_at :: "string \<Rightarrow> nat \<Rightarrow> string \<Rightarrow> fault + bool" where
  "case_match_at mem p str =
     rbind (ch mem p) (\<lambda>c. if c = hd (str @ [NUL])
       then rbind (c_str mem p) (\<lambda>t. Inr (usr_strncasecmp (Some t) (Some str) (int (length str)) = 0))
       else Inr False)"

text \<open>With no head to stop at, the search leaves the buffer when the pattern is not there.\<close>

fun strrstr_nohead_loop :: "string \<Rightarrow> nat \<Rightarrow> string \<Rightarrow> fault + nat option" where
  "strrstr_nohead_loop mem 0 str =
     rbind (case_match_at mem 0 str) (\<lambda>b. if b then Inr (Some 0) else Inl OutOfBounds)"
| "strrstr_nohead_loop mem (Suc p) str =
     rbind (case_match_at mem (Suc p) str) (\<lambda>b. if b then Inr (Some (Suc p)) else strrstr_nohead_loop mem p str)"

definition usr_strrstr_nohead :: "string \<Rightarrow> nat option \<Rightarrow> string option \<Rightarrow> fault + nat option" where
  "usr_strrstr_nohead mem p str =
     (case (p, str) of (Some p, Some s) \<Rightarrow> strrstr_nohead_loop mem p s | _ \<Rightarrow> Inr None)"

fun strrstr_loop :: "string \<Rightarrow> nat \<Rightarrow> nat \<Rightarrow> string \<Rightarrow> fault + nat option" where
  "strrstr_loop mem phead 0 str =
     rbind (case_match_at mem phead str) (\<lambda>b. if b then Inr (Some phead) else Inr None)"
| "strrstr_loop mem phead (Suc n) str =
     rbind (case_match_at mem (phead + Suc n) str) (\<lambda>b.
       if b then Inr (Some (phead + Suc n)) else strrstr_loop mem phead n str)"

definition usr_strrstr_btweenpoint ::
  "string \<Rightarrow> nat option \<Rightarrow> nat option \<Rightarrow> string option \<Rightarrow> fault + nat option" where
  "usr_strrstr_btweenpoint mem phead pend str =
     (case (pend, str, phead) of
        (Some e, Some s, Some h) \<Rightarrow> if e \<le> h then Inr None else strrstr_loop mem h (e - h) s
      | _ \<Rightarrow> Inr None)"

section \<open>The value between white space\<close>

definition ws :: "char \<Rightarrow> bool" where
  "ws c \<longleftrightarrow> c = CHR '' '' \<or> c = CHR 0x09 \<or> c = CHR 0x0D \<or> c = CHR 0x0A"

text \<open>The loop that skips white space returns the position it stops at.\<close>

fun skip_ws :: "string \<Rightarrow> nat \<Rightarrow> nat \<Rightarrow> fault + nat" where
  "skip_ws mem phead 0 = Inr phead"
| "skip_ws mem phead (Suc n) =
     rbind (ch mem phead) (\<lambda>c. if \<not> ws c then Inr phead else skip_ws mem (Suc phead) n)"

text \<open>The copying loop has no bound on \<open>out\<close> and writes no terminator.\<close>

fun copy_val :: "string \<Rightarrow> nat \<Rightarrow> nat \<Rightarrow> nat \<Rightarrow> string \<Rightarrow> fault + string" where
  "copy_val mem p 0 i out = Inr out"
| "copy_val mem p (Suc n) i out =
     rbind (ch mem p) (\<lambda>c. if ws c then Inr out
       else rbind (put out i c) (\<lambda>out. copy_val mem (Suc p) n (Suc i) out))"

definition usr_getvalue_btweenpoint ::
  "string \<Rightarrow> nat option \<Rightarrow> nat option \<Rightarrow> string option \<Rightarrow> fault + string option \<times> int" where
  "usr_getvalue_btweenpoint mem phead pend out =
     (case (phead, pend, out) of
        (Some h, Some e, Some o') \<Rightarrow>
          if h > e then Inr (out, - 1)
          else rbind (if h = e then ch mem h else Inr (CHR '' '')) (\<lambda>c.
            if h = e \<and> \<not> ws c then rbind (put o' 0 c) (\<lambda>o'. Inr (Some o', 0))
            else rbind (skip_ws mem h (e - h)) (\<lambda>p.
                 rbind (copy_val mem p (e - p) 0 o') (\<lambda>o'. Inr (Some o', 0))))
      | _ \<Rightarrow> Inr (out, - 1))"

section \<open>What the searches find\<close>

lemma str_match_iff:
  "s \<noteq> [] \<Longrightarrow> k + length s \<le> length mem \<Longrightarrow> str_match mem k s = Inr (take (length s) (drop k mem) = s)"
proof (induction mem k s rule: str_match.induct)
  case (2 mem k c)
  then show ?case by (auto simp: take_Suc_conv_app_nth Cons_nth_drop_Suc [symmetric])
next
  case (3 mem k c c' cs)
  then have "drop k mem = mem ! k # drop (Suc k) mem" by (simp add: Cons_nth_drop_Suc)
  then show ?case using 3 by auto
qed simp

lemma str_search_find:
  assumes "s \<noteq> []"
  shows "k + n + length s \<le> Suc (length mem) \<Longrightarrow>
    str_search mem k n s = Inr (find (\<lambda>j. take (length s) (drop j mem) = s) [k..<k + n])"
proof (induction n arbitrary: k)
  case (Suc n)
  have "[k..<k + Suc n] = k # [Suc k..<Suc k + n]" by (simp add: upt_conv_Cons)
  then show ?case using Suc.IH [of "Suc k"] Suc.prems by (simp add: str_match_iff [OF assms])
qed simp

text \<open>The search between two pointers is the search for the first occurrence.\<close>

lemma usr_str_btweenpoint_find:
  assumes "s \<noteq> []" "b \<le> length mem"
  shows "usr_str_btweenpoint mem (Some f) (Some b) (Some s) =
         Inr (find (\<lambda>j. take (length s) (drop j mem) = s) [f..<b + 1 - length s])"
proof (cases "f \<le> b \<and> length s > b - f \<or> b \<le> f")
  case True
  then have "b + 1 - length s \<le> f" using assms(1) by (cases s) auto
  then show ?thesis using True by (simp add: usr_str_btweenpoint_def)
next
  case False
  then have f: "length s \<le> b - f" "f < b" by linarith+
  then have e: "f + (b - f - length s + 1) = b + 1 - length s" by linarith
  then have l: "f + (b - f - length s + 1) + length s \<le> Suc (length mem)" using assms f by linarith
  have "usr_str_btweenpoint mem (Some f) (Some b) (Some s) = str_search mem f (b - f - length s + 1) s"
    using f by (simp add: usr_str_btweenpoint_def)
  also have "\<dots> = Inr (find (\<lambda>j. take (length s) (drop j mem) = s) [f..<f + (b - f - length s + 1)])"
    by (rule str_search_find [OF assms(1) l])
  finally show ?thesis unfolding e .
qed

text \<open>Occurrences that do not overlap, from left to right.\<close>

function occurrences :: "string \<Rightarrow> string \<Rightarrow> nat" where
  "occurrences s xs = (if s = [] \<or> xs = [] then 0
     else if is_prefix s xs then Suc (occurrences s (drop (length s) xs))
     else occurrences s (tl xs))"
  by pat_completeness auto
termination by (relation "measure (\<lambda>(s, xs). length xs)") auto

declare occurrences.simps [simp del]

lemma occurrences_short: "length xs < length s \<Longrightarrow> occurrences s xs = 0"
proof (induction xs)
  case (Cons x xs)
  then have "\<not> is_prefix s (x # xs)" by (auto simp: is_prefix_iff dest!: arg_cong [where f = length])
  then show ?case using Cons by (subst occurrences.simps) auto
qed (subst occurrences.simps, simp)

lemma occurrences_skip:
  "s \<noteq> [] \<Longrightarrow> (\<forall>j < k. \<not> is_prefix s (drop j xs)) \<Longrightarrow> occurrences s xs = occurrences s (drop k xs)"
proof (induction k arbitrary: xs)
  case (Suc k)
  show ?case
  proof (cases xs)
    case (Cons y ys)
    have "occurrences s xs = occurrences s ys"
      using Suc.prems Cons by (subst occurrences.simps) force
    moreover have "occurrences s ys = occurrences s (drop k ys)"
      using Suc.prems Cons by (intro Suc.IH) force+
    ultimately show ?thesis using Cons by simp
  qed simp
qed simp

lemma strnum_loop_occurrences:
  assumes "str \<noteq> []" "pbehind \<le> length mem"
  shows "strnum_loop mem pf pbehind str count =
         Inr (count + occurrences str (take (pbehind - pf) (drop pf mem)))"
  using assms
proof (induction mem pf pbehind str count rule: strnum_loop.induct)
  case (1 mem pf b str count)
  let ?sl = "take (b - pf) (drop pf mem)"
  let ?P = "\<lambda>j. take (length str) (drop j mem) = str"
  have at: "is_prefix str (drop j ?sl) \<longleftrightarrow> ?P (pf + j)" if "pf + j < b + 1 - length str" for j
    using that by (simp add: is_prefix_take drop_take min_absorb1 add.commute)
  have pos: "0 < length str" using "1.prems"(1) by simp
  note find = usr_str_btweenpoint_find [OF "1.prems", of pf]
  show ?case
  proof (cases "find ?P [pf..<b + 1 - length str]")
    case None
    have "occurrences str ?sl = occurrences str (drop (b + 1 - length str - pf) ?sl)"
      using None at by (intro occurrences_skip) (auto simp: "1.prems" find_None_iff)
    moreover have "length (drop (b + 1 - length str - pf) ?sl) < length str"
    proof -
      have "length ?sl \<le> b - pf" by simp
      then show ?thesis using pos unfolding length_drop by linarith
    qed
    ultimately have "occurrences str ?sl = 0" by (simp add: occurrences_short)
    then show ?thesis using find None by (subst strnum_loop.simps) simp
  next
    case (Some p)
    then obtain i where i: "i < b + 1 - length str - pf" "p = pf + i" "?P p" "\<forall>j < i. \<not> ?P (pf + j)"
      by (auto simp: find_Some_iff)
    have u: "usr_str_btweenpoint mem (Some pf) (Some b) (Some str) = Inr (Some p)"
      using find Some by simp
    have "occurrences str ?sl = occurrences str (drop i ?sl)"
      using i at by (intro occurrences_skip) (auto simp: "1.prems")
    also have "\<dots> = Suc (occurrences str (drop (length str) (drop i ?sl)))"
    proof -
      have "is_prefix str (drop i ?sl)" using i at [of i] by auto
      moreover from this have "drop i ?sl \<noteq> []" using "1.prems"(1) by (cases str) auto
      ultimately show ?thesis using "1.prems"(1) by (subst occurrences.simps) simp
    qed
    also have "drop (length str) (drop i ?sl) = take (b - (p + length str)) (drop (p + length str) mem)"
      using i by (simp add: drop_take ac_simps)
    finally have o: "occurrences str ?sl =
      Suc (occurrences str (take (b - (p + length str)) (drop (p + length str) mem)))" .
    have "strnum_loop mem pf b str count = strnum_loop mem (p + length str) b str (Suc count)"
      by (subst strnum_loop.simps) (simp add: u)
    then show ?thesis using "1.IH" [OF u refl] "1.prems" o by simp
  qed
qed

text \<open>
  \<^verbatim>\<open>usr_strnum_btweenpoint\<close> ends for every input and counts the occurrences of a non-empty
  pattern between the two pointers, from left to right and without overlap; it touches nothing
  outside the range.
\<close>

lemma strnum_counts:
  assumes "str \<noteq> []" "pbehind \<le> length mem"
  shows "usr_strnum_btweenpoint mem pfont pbehind str =
         Inr (occurrences str (take (pbehind - pfont) (drop pfont mem)))"
  using strnum_loop_occurrences [OF assms] by (simp add: usr_strnum_btweenpoint_def)

section \<open>Comparison without regard to case\<close>

definition to_lower :: "char \<Rightarrow> char" where
  "to_lower c = (if upper_c c then char_of ((of_char c :: nat) + 32) else c)"

lemma char_of_add32: "upper_c a \<Longrightarrow> char_of ((of_char a :: nat) + 32) = c \<longleftrightarrow> of_char a + 32 = (of_char c :: nat)"
  by (simp add: upper_c_def char_of_eq_iff take_bit_eq_mod)

lemma to_lower_eq_iff:
  "to_lower a = to_lower b \<longleftrightarrow> a = b \<or> upper_c a \<and> of_char a + 32 = (of_char b :: nat)
     \<or> upper_c b \<and> of_char b + 32 = (of_char a :: nat)"
proof (cases "upper_c a")
  case a: True
  show ?thesis
  proof (cases "upper_c b")
    case True
    then have "to_lower b = char_of ((of_char b :: nat) + 32)" by (simp add: to_lower_def)
    moreover have "(of_char (char_of ((of_char b :: nat) + 32)) :: nat) = of_char b + 32"
      using True by (simp add: upper_c_def)
    ultimately show ?thesis using a True
      by (auto simp: to_lower_def char_of_add32 upper_c_def)
  qed (use a in \<open>auto simp: to_lower_def char_of_add32\<close>)
next
  case False
  then show ?thesis using char_of_add32 [of b a] by (auto simp: to_lower_def)
qed

lemma casecmp_loop_iff:
  "length as = n \<Longrightarrow> length bs = n \<Longrightarrow> casecmp_loop n as bs = 0 \<longleftrightarrow> map to_lower as = map to_lower bs"
  by (induction n as bs rule: casecmp_loop.induct)
    (auto simp: to_lower_eq_iff upper_c_def lower_c_def)

lemma strcasecmp_iff: "usr_strcasecmp a b = 0 \<longleftrightarrow> map to_lower a = map to_lower b"
  using casecmp_loop_iff [of a "length a" b]
  by (auto simp: usr_strcasecmp_def usr_strncasecmp_def dest: map_eq_imp_length_eq)

section \<open>What is copied\<close>

lemma skip_ws_spec:
  "h + n \<le> length mem \<Longrightarrow>
   skip_ws mem h n = Inr (h + length (takeWhile ws (take n (drop h mem))))"
proof (induction n arbitrary: h)
  case (Suc n)
  then have "drop h mem = mem ! h # drop (Suc h) mem" by (simp add: Cons_nth_drop_Suc)
  then show ?case using Suc by auto
qed simp

lemma copy_val_spec:
  "p + n \<le> length mem \<Longrightarrow> i \<le> length out \<Longrightarrow>
   copy_val mem p n i out = put_all out i (takeWhile (\<lambda>c. \<not> ws c) (take n (drop p mem)))"
proof (induction n arbitrary: p i out)
  case (Suc n)
  have d: "drop p mem = mem ! p # drop (Suc p) mem" using Suc.prems by (simp add: Cons_nth_drop_Suc)
  let ?v = "takeWhile (\<lambda>c. \<not> ws c) (take n (drop (Suc p) mem))"
  show ?case
  proof (cases "ws (mem ! p)")
    case False
    show ?thesis
    proof (cases "i < length out")
      case True
      have "copy_val mem p (Suc n) i out = put_all (out[i := mem ! p]) (Suc i) ?v"
        using False True Suc.prems Suc.IH [of "Suc p" "Suc i" "out[i := mem ! p]"] by simp
      also have "\<dots> = put_all out i (mem ! p # ?v)"
        using True
        by (auto simp add: put_all_def upd_conv_take_nth_drop take_Suc_conv_app_nth add.commute)
      finally show ?thesis using False d by simp
    next
      case False
      then show ?thesis using \<open>\<not> ws (mem ! p)\<close> Suc.prems d by (simp add: put_all_def)
    qed
  qed (use Suc.prems d in \<open>simp add: put_all_def\<close>)
qed (simp add: put_all_def)

lemma take_takeWhile_split:
  "drop (length (takeWhile P xs)) xs = dropWhile P xs"
  by (induction xs) auto

text \<open>
  The value is the first run of characters that are not white space; it is written over the front
  of \<open>out\<close>, which must have room for it.
\<close>

lemma getvalue_spec:
  assumes "h < e" "e \<le> length mem"
  shows "usr_getvalue_btweenpoint mem (Some h) (Some e) (Some out) =
    rbind (put_all out 0 (takeWhile (\<lambda>c. \<not> ws c) (dropWhile ws (take (e - h) (drop h mem)))))
      (\<lambda>out. Inr (Some out, 0))"
proof -
  let ?sl = "take (e - h) (drop h mem)"
  let ?n = "length (takeWhile ws ?sl)"
  have n: "?n \<le> e - h" using assms length_takeWhile_le [of ws ?sl] by simp
  have d: "take (e - (h + ?n)) (drop (h + ?n) mem) = dropWhile ws ?sl"
    using n take_takeWhile_split [of ws ?sl] by (simp add: drop_take add.commute)
  have "skip_ws mem h (e - h) = Inr (h + ?n)" using assms by (intro skip_ws_spec) simp
  moreover have "copy_val mem (h + ?n) (e - (h + ?n)) 0 out =
      put_all out 0 (takeWhile (\<lambda>c. \<not> ws c) (dropWhile ws ?sl))"
    using assms n copy_val_spec [of "h + ?n" "e - (h + ?n)" mem 0 out] unfolding d by simp
  ultimately show ?thesis using assms by (simp add: usr_getvalue_btweenpoint_def)
qed

end
