(* ===== verification/WebSocket.thy ===== *)
theory WebSocket
  imports CJson UsrString Registry
begin

text \<open>
  The WebSocket server \<^verbatim>\<open>src/App/WebServer/webserver.c\<close>: frames, the opening handshake, and the
  list of links to which frames of a camera are sent.

  Frames are lists of bytes in their buffers. The mask of a frame, drawn with \<^verbatim>\<open>rand\<close>, and the
  functions \<^verbatim>\<open>sha1\<close> and \<^verbatim>\<open>base64_encode\<close> of the SSL library are arguments. What the server
  writes to sockets is kept in the list \<open>sent\<close>.
\<close>

unbundle bit_operations_syntax

section \<open>Data\<close>

record FramHead_T =
  fin :: bool
  opcode :: byte
  mask_bit :: bool
  headLen :: int
  payload_length :: "32 word"
  masking_key :: "byte list"

definition fram_head0 :: FramHead_T where
  "fram_head0 = \<lparr>fin = False, opcode = 0, mask_bit = False, headLen = 0, payload_length = 0, masking_key = [0, 0, 0, 0]\<rparr>"

record LinkInfo_T =
  lsocket :: int
  lchannel :: int
  lenable :: int
  SerialNumber :: string

definition link0 :: LinkInfo_T where
  "link0 = \<lparr>lsocket = 0, lchannel = 0, lenable = 0, SerialNumber = replicate 64 NUL\<rparr>"

datatype Websocket_CommunicationType =
  WCT_MINDATA | WCT_TXTDATA | WCT_BINDATA | WCT_DISCONN | WCT_PING | WCT_PONG | WCT_ERR | WCT_NULL

record WebServer =
  links :: "nat list"
  link_objs :: "nat \<rightharpoonup> LinkInfo_T"
  sent :: "(int \<times> byte list) list"
  serverport :: "int option"

section \<open>Frames\<close>

text \<open>The memory of an \<^verbatim>\<open>unsigned int\<close> on the target, lowest byte first.\<close>

definition le32 :: "byte list \<Rightarrow> 32 word" where
  "le32 bs = ucast (bs ! 0) OR push_bit 8 (ucast (bs ! 1)) OR push_bit 16 (ucast (bs ! 2)) OR push_bit 24 (ucast (bs ! 3))"

text \<open>The loop that exchanges byte \<open>i\<close> and byte \<open>7 - i\<close> of the long length.\<close>

definition swap8 :: "byte list \<Rightarrow> byte list" where
  "swap8 ext = fold (\<lambda>i xs. xs[i := xs ! (7 - i), 7 - i := xs ! i]) [0..<4] ext"

text \<open>
  The length field: the length, the buffer and the position behind it. For the long form the
  bytes are reversed in the receive buffer and eight of them copied over \<^verbatim>\<open>payload_length\<close> and
  the \<^verbatim>\<open>masking_key\<close> behind it, which is overwritten afterwards.
\<close>

definition frame_length :: "byte list \<Rightarrow> byte \<Rightarrow> fault + 32 word \<times> byte list \<times> int" where
  "frame_length recvMsg b =
     (let len = ucast (b AND 0x7F) in
      if len = 126 then rbind (mem_read recvMsg 2 2) (\<lambda>ext.
        Inr (push_bit 8 (ucast (ext ! 0)) OR ucast (ext ! 1), recvMsg, 4))
      else if len = 127 then rbind (mem_read recvMsg 2 8) (\<lambda>ext.
        rbind (mem_write recvMsg 2 (swap8 ext)) (\<lambda>recvMsg. Inr (le32 (swap8 ext), recvMsg, 10)))
      else Inr (len, recvMsg, 2))"

definition ParsingFrameHeader :: "byte list \<Rightarrow> int \<Rightarrow> FramHead_T \<Rightarrow> fault + byte list \<times> FramHead_T \<times> int" where
  "ParsingFrameHeader recvMsg recvLen head =
     (if recvLen \<le> 0 then Inr (recvMsg, head, - 1)
      else rbind (mem_read recvMsg 0 2) (\<lambda>b.
        let head = head\<lparr>fin := (b ! 0 AND 0x80 = 0x80), opcode := b ! 0 AND 0x0F, mask_bit := (b ! 1 AND 0x80 = 0x80)\<rparr> in
        rbind (frame_length recvMsg (b ! 1)) (\<lambda>(len, recvMsg, readCount).
        rbind (mem_read recvMsg readCount 4) (\<lambda>key.
        Inr (recvMsg, head\<lparr>payload_length := len, masking_key := key, headLen := readCount + 4\<rparr>, 0)))))"

text \<open>\<^verbatim>\<open>webSocket_getRandomString\<close> replaces zero bytes; \<open>rnd\<close> are the values of \<^verbatim>\<open>rand() % 256\<close>.\<close>

definition webSocket_getRandomString :: "byte list \<Rightarrow> byte list" where
  "webSocket_getRandomString rnd = map (\<lambda>t. if t = 0 then 128 else t) rnd"

definition frame_op :: "Websocket_CommunicationType \<Rightarrow> byte option" where
  "frame_op type = (case type of WCT_MINDATA \<Rightarrow> Some 0x00 | WCT_TXTDATA \<Rightarrow> Some 0x81 | WCT_BINDATA \<Rightarrow> Some 0x82
     | WCT_DISCONN \<Rightarrow> Some 0x88 | WCT_PING \<Rightarrow> Some 0x89 | WCT_PONG \<Rightarrow> Some 0x8A | _ \<Rightarrow> None)"

text \<open>
  The length field of a frame to be sent: \<open>None\<close> when the announced size of the package is too
  small, otherwise how many bytes the frame has so far. The second byte is not set but combined
  with what is in the buffer.
\<close>

definition put_length :: "byte list \<Rightarrow> 32 word \<Rightarrow> 32 word \<Rightarrow> fault + (byte list \<times> 32 word) option" where
  "put_length package packageMaxLen dataLen =
     (let put = (\<lambda>x bs. rbind (mem_read package 1 1) (\<lambda>b. mem_write package 1 ((b ! 0 OR x) # bs))) in
      if dataLen < 126 then rbind (put (ucast dataLen AND 0x7F) []) (\<lambda>p. Inr (Some (p, 2)))
      else if dataLen < 65536 then
        (if packageMaxLen < 4 then Inr None
         else rbind (put 0x7E [ucast (drop_bit 8 dataLen), ucast dataLen]) (\<lambda>p. Inr (Some (p, 4))))
      else if dataLen < 0xFFFFFFFF then
        (if packageMaxLen < 10 then Inr None
         else rbind (put 0x7F [0, 0, 0, 0, ucast (drop_bit 24 dataLen), ucast (drop_bit 16 dataLen),
                               ucast (drop_bit 8 dataLen), ucast dataLen]) (\<lambda>p. Inr (Some (p, 10))))
      else Inr (Some (package, 1)))"

text \<open>The masking loop: \<open>count\<close> runs through the four bytes of the key.\<close>

fun mask_loop :: "byte list \<Rightarrow> nat \<Rightarrow> byte list \<Rightarrow> byte list" where
  "mask_loop key count [] = []"
| "mask_loop key count (d # ds) =
     ((NOT (key ! count) AND d) OR (key ! count AND NOT d)) #
     mask_loop key (if count + 1 \<ge> 4 then 0 else count + 1) ds"

definition webSocket_enPackage ::
  "byte list \<Rightarrow> byte list \<Rightarrow> 32 word \<Rightarrow> byte list \<Rightarrow> 32 word \<Rightarrow> bool \<Rightarrow> Websocket_CommunicationType \<Rightarrow> fault + byte list \<times> int" where
  "webSocket_enPackage rnd data dataLen package packageMaxLen isMask type =
     (if packageMaxLen < 2 then Inr (package, - 1)
      else case frame_op type of None \<Rightarrow> Inr (package, - 1)
      | Some op \<Rightarrow>
        rbind (mem_write package 0 [op]) (\<lambda>package.
        rbind (if isMask then mem_write package 1 [0x80] else Inr package) (\<lambda>package.
        rbind (put_length package packageMaxLen dataLen) (\<lambda>r. case r of
          None \<Rightarrow> Inr (package, - 1)
        | Some (package, len) \<Rightarrow>
          if isMask then
            (if packageMaxLen < len + dataLen + 4 then Inr (package, - 1)
             else let maskKey = webSocket_getRandomString rnd in
               rbind (mem_write package (uint len) maskKey) (\<lambda>package.
               rbind (mem_read data 0 (uint dataLen)) (\<lambda>d.
               rbind (mem_write package (uint len + 4) (mask_loop maskKey 0 d @ [0])) (\<lambda>package.
               Inr (package, to_i32 (uint (len + 4 + dataLen)))))))
          else
            (if packageMaxLen < len + dataLen then Inr (package, - 1)
             else rbind (mem_read data 0 (uint dataLen)) (\<lambda>d.
               rbind (mem_write package (uint len) (d @ [0])) (\<lambda>package.
               Inr (package, to_i32 (uint (len + dataLen))))))))))"

fun umask_loop :: "byte list \<Rightarrow> nat \<Rightarrow> byte list \<Rightarrow> byte list" where
  "umask_loop key i [] = []"
| "umask_loop key i (d # ds) = (d XOR key ! (i mod 4)) # umask_loop key (Suc i) ds"

definition Webumask :: "byte list \<Rightarrow> int \<Rightarrow> int \<Rightarrow> byte list \<Rightarrow> fault + byte list" where
  "Webumask buf off len key =
     (if len \<le> 0 then Inr buf
      else rbind (mem_read buf off len) (\<lambda>d. mem_write buf off (umask_loop key 0 d)))"

section \<open>Requests\<close>

definition chars :: "byte list \<Rightarrow> string" where
  "chars bs = map (\<lambda>b. char_of (unat b)) bs"

definition ParasingFrameRequest :: "string option \<Rightarrow> LinkInfo_T \<Rightarrow> (LinkInfo_T \<times> int) run" where
  "ParasingFrameRequest msg linkInfo = (case msg of None \<Rightarrow> Some (Inr (linkInfo, - 1))
     | Some m \<Rightarrow> run_bind (cJSON_Parse m) (\<lambda>json.
         if json \<noteq> None then
           let linkInfo = linkInfo\<lparr>lenable := cJSON_GetObjectItemValueInt json (Some ''enable''),
                                  lchannel := cJSON_GetObjectItemValueInt json (Some ''channel'')\<rparr> in
           run_bind (Some (cJSON_GetObjectItemValueString json (Some ''SerialNumber'') (SerialNumber linkInfo) 64)) (\<lambda>(sn, _).
           Some (Inr (linkInfo\<lparr>SerialNumber := sn\<rparr>, 0)))
         else Some (Inr (linkInfo, 0))))"

definition GetHttpWebSocketKey :: "string option \<Rightarrow> string option \<Rightarrow> fault + string option \<times> int" where
  "GetHttpWebSocketKey str host = (case (str, host) of
       (Some m, Some h) \<Rightarrow> rbind (c_str m 0) (\<lambda>t. case strstr t ''Sec-WebSocket-Key'' of
           None \<Rightarrow> Inr (host, KEY_FALSE)
         | Some pHead \<Rightarrow> rbind (usr_getvalue_btweenpoint m (Some (pHead + length ''Sec-WebSocket-Key'' + 1)) (Some (length t)) host)
             (\<lambda>(h, _). Inr (h, KEY_TRUE)))
     | _ \<Rightarrow> Inr (host, KEY_FALSE))"

definition MAGIC :: string where "MAGIC = ''258EAFA5-E914-47DA-95CA-C5AB0DC85B11''"

definition CRNL :: string where "CRNL = [CHR 0x0D, CHR 0x0A]"

text \<open>
  \<open>sha1 text\<close> are the 20 bytes of the digest as characters. \<^verbatim>\<open>strlen(sha1Data)\<close> counts them up to the
  first zero byte, and so much of the digest would be encoded. \<open>base64_encode n data\<close> is what the function of the SSL library
  writes into a buffer whose size it is told to be \<open>n\<close>; here that is \<^verbatim>\<open>wsAcceptLen\<close>, which is 0. (It is an \<^verbatim>\<open>int\<close> that is read
  through a pointer to \<^verbatim>\<open>size_t\<close>; the model has the two of the same width.)
\<close>

definition WebSocketAuthentication ::
  "(string \<Rightarrow> string) \<Rightarrow> (nat \<Rightarrow> string \<Rightarrow> string) \<Rightarrow> int \<Rightarrow> string \<Rightarrow> fault + (int \<times> string)" where
  "WebSocketAuthentication sha1 base64_encode socket webSocketKey =
     rbind (snprintf (replicate 1024 NUL) 1024 (webSocketKey @ MAGIC)) (\<lambda>wsKeyAndMagic.
     rbind (c_str wsKeyAndMagic 0) (\<lambda>km.
     rbind (c_str (sha1 km @ [NUL]) 0) (\<lambda>digest.
     rbind (sprintf (replicate 32 NUL) (base64_encode 0 digest)) (\<lambda>wsAccept.
     rbind (c_str wsAccept 0) (\<lambda>a.
     rbind (sprintf (replicate 1024 NUL) (''HTTP/1.1 101 Switching Protocols'' @ CRNL @ ''Upgrade: websocket'' @ CRNL @
        ''Connection: Upgrade'' @ CRNL @ ''Sec-WebSocket-Accept: '' @ a @ CRNL @ CRNL)) (\<lambda>response.
     rbind (c_str response 0) (\<lambda>t. Inr (socket, t))))))))"

section \<open>Links\<close>

definition link_find :: "WebServer \<Rightarrow> int \<Rightarrow> fault + nat" where
  "link_find s sock = reg_lookup (link_objs s) (\<lambda>l. lsocket l = sock) (links s)"

definition AddNodeToLink :: "((nat \<rightharpoonup> LinkInfo_T) \<Rightarrow> nat) \<Rightarrow> LinkInfo_T \<Rightarrow> WebServer \<Rightarrow> fault + WebServer \<times> int" where
  "AddNodeToLink alloc info s =
     rbind (link_find s (lsocket info)) (\<lambda>result.
     if result \<noteq> 0 then Inr (s, - 1)
     else let p = alloc (link_objs s) in
       Inr (s\<lparr>link_objs := (link_objs s)(p \<mapsto> info), links := links s @ [p]\<rparr>, KEY_TRUE))"

definition DelNodeToLink :: "LinkInfo_T \<Rightarrow> WebServer \<Rightarrow> fault + WebServer \<times> int" where
  "DelNodeToLink info s =
     rbind (link_find s (lsocket info)) (\<lambda>result.
     if result = 0 then Inr (s, - 1)
     else Inr (s\<lparr>links := remove1 result (links s), link_objs := (link_objs s)(result := None)\<rparr>, KEY_TRUE))"

text \<open>Encoding for one link and sending: the buffer has 128 bytes more than the message.\<close>

definition send_frame :: "byte list \<Rightarrow> int \<Rightarrow> LinkInfo_T \<Rightarrow> fault + int \<times> byte list" where
  "send_frame sendMsg sendLen l =
     rbind (webSocket_enPackage [] sendMsg (word_of_int sendLen) (replicate (nat (sendLen + 128)) 0)
              (word_of_int (sendLen + 1024)) False WCT_BINDATA) (\<lambda>(buff, buffLen).
     rbind (mem_read buff 0 buffLen) (\<lambda>d. Inr (lsocket l, d)))"

definition WebSocketSendList :: "nat \<Rightarrow> int \<Rightarrow> byte list \<Rightarrow> string \<Rightarrow> WebServer \<Rightarrow> fault + WebServer \<times> int" where
  "WebSocketSendList handle sendLen sendMsg sn s =
     rbind (obj_load (link_objs s) handle) (\<lambda>l.
     rbind (send_frame sendMsg sendLen l) (\<lambda>d. Inr (s\<lparr>sent := sent s @ [d]\<rparr>, KEY_TRUE)))"

fun send_links :: "(nat \<rightharpoonup> LinkInfo_T) \<Rightarrow> byte list \<Rightarrow> int \<Rightarrow> string \<Rightarrow> int \<Rightarrow> nat list \<Rightarrow> fault + (int \<times> byte list) list" where
  "send_links m sendMsg sendLen sn channel [] = Inr []"
| "send_links m sendMsg sendLen sn channel (p # ps) =
     rbind (obj_load m p) (\<lambda>l.
     rbind (c_str (SerialNumber l) 0) (\<lambda>t.
     if t = sn \<and> lchannel l = channel then rbind (send_frame sendMsg sendLen l) (\<lambda>d. Inr [d])
     else send_links m sendMsg sendLen sn channel ps))"

definition WebSocketSend :: "byte list \<Rightarrow> int \<Rightarrow> string \<Rightarrow> int \<Rightarrow> WebServer \<Rightarrow> fault + WebServer \<times> int" where
  "WebSocketSend sendMsg sendLen sn channel s =
     rbind (send_links (link_objs s) sendMsg sendLen sn channel (links s)) (\<lambda>ds.
     Inr (s\<lparr>sent := sent s @ ds\<rparr>, KEY_TRUE))"

section \<open>The server\<close>

record WebCli =
  recvSocket :: int
  recvLen :: int
  recvmsg :: "byte list"

text \<open>
  A request is either the opening handshake or a frame. What a frame asks for is decoded into a
  local variable and then dropped: nothing calls \<open>AddNodeToLink\<close>.
\<close>

definition WebRequst ::
  "(string \<Rightarrow> string) \<Rightarrow> (nat \<Rightarrow> string \<Rightarrow> string) \<Rightarrow> WebCli \<Rightarrow> WebServer \<Rightarrow> (WebServer \<times> int) run" where
  "WebRequst sha1 base64_encode cli s =
     run_bind (Some (GetHttpWebSocketKey (Some (chars (recvmsg cli))) (Some (replicate 512 NUL)))) (\<lambda>(k, _).
     run_bind (Some (c_str (the k) 0)) (\<lambda>key.
     if key \<noteq> [] then
       run_bind (Some (WebSocketAuthentication sha1 base64_encode (recvSocket cli) key)) (\<lambda>(sock, t).
       Some (Inr (s\<lparr>sent := sent s @ [(sock, map (\<lambda>c. of_nat (of_char c)) t)]\<rparr>, KEY_TRUE)))
     else
       run_bind (Some (ParsingFrameHeader (recvmsg cli) (recvLen cli) fram_head0)) (\<lambda>(msg, head, _).
       run_bind (Some (Webumask msg (headLen head) (to_i32 (uint (payload_length head))) (masking_key head))) (\<lambda>msg.
       run_bind (ParasingFrameRequest (Some (drop (nat (headLen head)) (chars msg))) (link0\<lparr>lsocket := recvSocket cli\<rparr>)) (\<lambda>_.
       Some (Inr (s, KEY_TRUE)))))))"

definition WebHttpClose :: "int \<Rightarrow> WebServer \<Rightarrow> fault + WebServer \<times> int" where
  "WebHttpClose sockfd s = rbind (DelNodeToLink (link0\<lparr>lsocket := sockfd\<rparr>) s) (\<lambda>(s, _). Inr (s, KEY_TRUE))"

text \<open>The records are freed and the handles stay in the list.\<close>

definition UnInitHandleList :: "WebServer \<Rightarrow> fault + WebServer \<times> int" where
  "UnInitHandleList s = rbind (reg_free (link_objs s) (links s)) (\<lambda>m. Inr (s\<lparr>link_objs := m\<rparr>, KEY_TRUE))"

definition WebServerHttpInit :: "int \<Rightarrow> WebServer \<Rightarrow> WebServer \<times> int" where
  "WebServerHttpInit port s = (s\<lparr>serverport := Some port, links := []\<rparr>, KEY_TRUE)"

definition WebServerHttpUnInit :: "WebServer \<Rightarrow> fault + WebServer \<times> int" where
  "WebServerHttpUnInit s = rbind (UnInitHandleList s) (\<lambda>(s, _). Inr (s, KEY_TRUE))"

section \<open>Words and buffers\<close>

lemma take_bit_small: "uint (w :: 'a::len word) < 2 ^ n \<Longrightarrow> take_bit n w = w"
  by (rule word_uint_eqI) (simp add: unsigned_take_bit_eq take_bit_int_eq_self)

lemma byte_low7: "uint (w :: byte) < 128 \<Longrightarrow> w AND 0x7F = w"
  using take_bit_small [of w 7] take_bit_eq_mask [of 7 w] by (simp add: mask_eq_exp_minus_1)

lemma mask_bit_simps:
  "((0x80 :: byte) OR (w AND 0x7F)) AND 0x80 = 0x80"
  "((0x80 :: byte) OR (w AND 0x7F)) AND 0x7F = w AND 0x7F"
  by (simp_all add: bit.conj_disj_distrib2 and.assoc)

lemma be16:
  assumes "uint (w :: 32 word) < 65536"
  shows "push_bit 8 (ucast (ucast (drop_bit 8 w) :: byte)) OR ucast (ucast w :: byte) = w"
proof -
  have "take_bit 16 w = w" using assms by (intro take_bit_small) simp
  then have b: "bit w k \<Longrightarrow> k < 16" for k by (metis bit_take_bit_iff)
  show ?thesis by (rule bit_word_eqI) (auto simp: bit_simps not_less dest: b)
qed

lemma le32_bytes:
  "le32 (ucast w # ucast (drop_bit 8 w) # ucast (drop_bit 16 w) # ucast (drop_bit 24 w) # r) = (w :: 32 word)"
proof (rule bit_word_eqI)
  fix n assume "n < LENGTH(32)"
  then consider "n < 8" | "8 \<le> n" "n < 16" | "16 \<le> n" "n < 24" | "24 \<le> n" "n < 32" by fastforce
  then show "bit (le32 (ucast w # ucast (drop_bit 8 w) # ucast (drop_bit 16 w) # ucast (drop_bit 24 w) # r)) n = bit w n"
    by cases (auto simp: le32_def bit_simps)
qed

lemma xor_as_code: "(NOT a AND b) OR (a AND NOT b) = (a XOR b :: byte)"
  by (rule bit_word_eqI) (auto simp: bit_simps)

lemma mem_write_at:
  "int (length a) = off \<Longrightarrow> length b = length d \<Longrightarrow> mem_write (a @ b @ c) off d = Inr (a @ d @ c)"
  by (auto simp: mem_write_def)

lemma mem_read_at:
  "int (length a) = off \<Longrightarrow> int (length b) = n \<Longrightarrow> mem_read (a @ b @ c) off n = Inr b"
  by (auto simp: mem_read_def)

lemma split_at: "k \<le> length xs \<Longrightarrow> \<exists>a b. xs = a @ b \<and> length a = k"
  by (rule exI [of _ "take k xs"], rule exI [of _ "drop k xs"]) simp

section \<open>Frames are read back\<close>

text \<open>The second byte and the extended length of a frame.\<close>

definition len_field :: "32 word \<Rightarrow> byte \<times> byte list" where
  "len_field w =
     (if uint w < 126 then (ucast w AND 0x7F, [])
      else if uint w < 65536 then (0x7E, [ucast (drop_bit 8 w), ucast w])
      else (0x7F, [0, 0, 0, 0, ucast (drop_bit 24 w), ucast (drop_bit 16 w), ucast (drop_bit 8 w), ucast w]))"

lemma word_less_uint:
  "(w :: 32 word) < 126 \<longleftrightarrow> uint w < 126" "w < 65536 \<longleftrightarrow> uint w < 65536"
  "w < 0xFFFFFFFF \<longleftrightarrow> uint w < 0xFFFFFFFF" "w < 2 \<longleftrightarrow> uint w < 2" "w < 4 \<longleftrightarrow> uint w < 4" "w < 10 \<longleftrightarrow> uint w < 10"
  by (simp_all add: word_less_def)

lemma put_length_ok:
  assumes "uint w < 0xFFFFFFFF" "uint mx \<ge> 10" "length e = length (snd (len_field w))"
  shows "put_length ([op, b] @ e @ c) mx w =
    Inr (Some ([op, b OR fst (len_field w)] @ snd (len_field w) @ c, of_nat (2 + length (snd (len_field w)))))"
proof -
  have r: "mem_read ([op, b] @ e @ c) 1 1 = Inr [b]" using mem_read_at [of "[op]" 1 "[b]" 1 "e @ c"] by simp
  have m: "mem_write (op # b # e @ c) 1 (y # bs) = Inr (op # y # bs @ c)" if "length bs = length e" for y bs
    using mem_write_at [of "[op]" 1 "b # e" "y # bs" c] that by simp
  have m0: "mem_write (op # b # c) 1 [y] = Inr (op # y # c)" for y
    using mem_write_at [of "[op]" 1 "[b]" "[y]" c] by simp
  show ?thesis
    using assms unfolding put_length_def Let_def r rbind_simps word_less_uint
    by (auto simp: len_field_def m m0)
qed

lemma swap8_rev: "swap8 [a, b, c, d, e, f, g, h] = [h, g, f, e, d, c, b, a]"
proof -
  have "[0..<4] = [0, 1, 2, 3 :: nat]" by (simp add: upt_rec)
  then show ?thesis by (simp add: swap8_def)
qed

lemma frame_length_ok:
  "\<exists>bs'. frame_length ([op, 0x80 OR fst (len_field w)] @ snd (len_field w) @ c) (0x80 OR fst (len_field w)) =
      Inr (w, [op, 0x80 OR fst (len_field w)] @ bs' @ c, 2 + int (length (snd (len_field w)))) \<and>
    length bs' = length (snd (len_field w))"
proof -
  consider "uint w < 126" | "126 \<le> uint w" "uint w < 65536" | "65536 \<le> uint w" by linarith
  then show ?thesis
  proof cases
    case 1
    then have u: "uint (ucast w :: byte) = uint w" by (simp add: unsigned_ucast_eq take_bit_int_eq_self)
    then have m: "ucast w AND 0x7F = (ucast w :: byte)" using 1 by (intro byte_low7) simp
    have "(ucast (ucast w :: byte) :: 32 word) = w"
      using 1 u take_bit_small [of w 8] by (intro word_uint_eqI) (simp add: unsigned_ucast_eq take_bit_int_eq_self)
    moreover have "w \<noteq> 126" "w \<noteq> 127" using 1 by auto
    moreover have "(0x80 OR ucast w) AND 0x7F = (ucast w :: byte)" using mask_bit_simps(2) [of "ucast w"] m by simp
    ultimately show ?thesis using 1 m by (simp add: len_field_def frame_length_def)
  next
    case 2
    have "mem_read ([op, 0xFE] @ [x, y] @ c) 2 2 = Inr [x, y]" for x y
      by (rule mem_read_at) simp_all
    then show ?thesis using 2 be16 [of w] by (simp add: len_field_def frame_length_def)
  next
    case 3
    have "mem_read ([op, 0xFF] @ snd (len_field w) @ c) 2 8 = Inr (snd (len_field w))"
      using 3 by (intro mem_read_at) (simp_all add: len_field_def)
    moreover have "mem_write ([op, 0xFF] @ snd (len_field w) @ c) 2 (rev (snd (len_field w))) =
        Inr ([op, 0xFF] @ rev (snd (len_field w)) @ c)"
      by (intro mem_write_at) simp_all
    ultimately show ?thesis using 3 le32_bytes [of w] by (simp add: len_field_def frame_length_def swap8_rev)
  qed
qed

lemma length_mask_loop [simp]: "length (mask_loop key k ds) = length ds"
  by (induction ds arbitrary: k) auto

lemma length_umask_loop [simp]: "length (umask_loop key k ds) = length ds"
  by (induction ds arbitrary: k) auto

lemma umask_mask: "umask_loop key i (mask_loop key (i mod 4) ds) = ds"
proof (induction ds arbitrary: i)
  case (Cons d ds)
  have "(if i mod 4 + 1 \<ge> 4 then 0 else i mod 4 + 1) = Suc i mod 4" by (simp add: mod_Suc) presburger
  moreover have "(k XOR d) XOR k = (d :: byte)" for k by (simp add: xor.commute [of k] xor.assoc)
  ultimately show ?case using Cons [of "Suc i"] by (simp only: mask_loop.simps umask_loop.simps xor_as_code)
qed simp

lemma len_field_length: "length (snd (len_field w)) \<le> 8"
  by (simp add: len_field_def)

text \<open>The frame of a masked message.\<close>

definition masked_frame :: "byte \<Rightarrow> byte list \<Rightarrow> byte list \<Rightarrow> byte list" where
  "masked_frame op key data =
     [op, 0x80 OR fst (len_field (of_nat (length data)))] @ snd (len_field (of_nat (length data))) @ key @ mask_loop key 0 data"

lemma uint_of_nat_small: "n < 2 ^ 32 \<Longrightarrow> uint (of_nat n :: 32 word) = int n"
  by (simp add: unsigned_of_nat take_bit_nat_eq_self)

lemma enPackage_masked:
  assumes op: "frame_op type = Some op" and n: "length data < 2 ^ 31 - 16" and key: "length rnd = 4"
    and room: "length data + 15 \<le> length package" "int (length data) + 14 \<le> uint packageMaxLen"
  shows "\<exists>r. webSocket_enPackage rnd data (of_nat (length data)) package packageMaxLen True type =
    Inr (masked_frame op (webSocket_getRandomString rnd) data @ 0 # r,
      int (length (masked_frame op (webSocket_getRandomString rnd) data)))"
proof -
  let ?w = "of_nat (length data) :: 32 word" and ?key = "webSocket_getRandomString rnd"
  let ?bs = "snd (len_field ?w)" and ?x = "0x80 OR fst (len_field ?w)"
  let ?h = "length ?bs"
  have w: "uint ?w = int (length data)" using n by (intro uint_of_nat_small) simp
  have h: "?h \<le> 8" by (rule len_field_length)
  obtain p0 p1 e k b r where p: "package = [p0, p1] @ e @ k @ b @ r" "length e = ?h" "length k = 4" "length b = length data + 1"
  proof -
    obtain a q where 1: "package = a @ q" "length a = 2" using split_at [of 2 package] room(1) by auto
    obtain e q1 where 2: "q = e @ q1" "length e = ?h" using split_at [of ?h q] 1 room(1) h by auto
    obtain k q2 where 3: "q1 = k @ q2" "length k = 4" using split_at [of 4 q1] 1 2 room(1) h by auto
    obtain b r where 4: "q2 = b @ r" "length b = length data + 1" using split_at [of "length data + 1" q2] 1 2 3 room(1) h by auto
    obtain p0 p1 where "a = [p0, p1]" using 1(2) by (auto simp: length_Suc_conv numeral_2_eq_2)
    then show thesis using that 1 2 3 4 by auto
  qed
  have lk: "length ?key = 4" using key by (simp add: webSocket_getRandomString_def)
  have s1: "mem_write ([p0, p1] @ e @ k @ b @ r) 0 [op] = Inr ([op, p1] @ e @ k @ b @ r)"
    using mem_write_at [of "[]" 0 "[p0]" "[op]" "p1 # e @ k @ b @ r"] by simp
  have s2: "mem_write ([op, p1] @ e @ k @ b @ r) 1 [0x80] = Inr ([op, 0x80] @ e @ k @ b @ r)"
    using mem_write_at [of "[op]" 1 "[p1]" "[0x80]" "e @ k @ b @ r"] by simp
  have s3: "put_length ([op, 0x80] @ e @ k @ b @ r) packageMaxLen ?w = Inr (Some ([op, ?x] @ ?bs @ k @ b @ r, of_nat (2 + ?h)))"
    using n w room(2) p(2) by (intro put_length_ok) simp_all
  have l: "uint (of_nat (2 + ?h) :: 32 word) = 2 + int ?h" using uint_of_nat_small [of "2 + ?h"] h by simp
  have s4: "mem_write ([op, ?x] @ ?bs @ k @ b @ r) (2 + int ?h) ?key = Inr ([op, ?x] @ ?bs @ ?key @ b @ r)"
    using mem_write_at [of "[op, ?x] @ ?bs" "2 + int ?h" k ?key "b @ r"] p(3) lk by simp
  have s5: "mem_read data 0 (int (length data)) = Inr data" by (simp add: mem_read_def)
  have s6: "mem_write ([op, ?x] @ ?bs @ ?key @ b @ r) (2 + int ?h + 4) (mask_loop ?key 0 data @ [0]) =
      Inr ([op, ?x] @ ?bs @ ?key @ (mask_loop ?key 0 data @ [0]) @ r)"
    using mem_write_at [of "[op, ?x] @ ?bs @ ?key" "2 + int ?h + 4" b "mask_loop ?key 0 data @ [0]" r] p(4) lk by simp
  have tot: "(of_nat (2 + ?h) + 4 + ?w :: 32 word) = of_nat (2 + ?h + 4 + length data)"
    "of_nat (2 + ?h) + ?w + 4 = (of_nat (2 + ?h + 4 + length data) :: 32 word)" by (simp_all add: ac_simps)
  have u: "uint (of_nat (2 + ?h + 4 + length data) :: 32 word) = int (2 + ?h + 4 + length data)"
    using n h by (intro uint_of_nat_small) simp
  have i: "to_i32 (int (2 + ?h + 4 + length data)) = int (2 + ?h + 4 + length data)"
    using n h by (intro to_i32_id) simp_all
  have c: "\<not> packageMaxLen < of_nat (2 + ?h + 4 + length data)" "\<not> packageMaxLen < 2"
    using room(2) h u by (simp_all add: word_less_def)
  have "webSocket_enPackage rnd data ?w package packageMaxLen True type =
      Inr ([op, ?x] @ ?bs @ ?key @ (mask_loop ?key 0 data @ [0]) @ r, int (2 + ?h + 4 + length data))"
    unfolding webSocket_enPackage_def op p(1) Let_def
    by (simp only: c(2) if_False if_True option.case s1 s2 s3 s4 s5 s6 rbind_simps prod.case l w tot c(1) u i)
  then show ?thesis using lk by (simp add: masked_frame_def)
qed

lemma frame_parsed:
  assumes n: "length data < 2 ^ 31" and key: "length key = 4" and recv: "0 < rl"
  shows "\<exists>msg head. ParsingFrameHeader (masked_frame op key data @ r) rl h0 = Inr (msg, head, 0) \<and>
    payload_length head = of_nat (length data) \<and> masking_key head = key \<and> fin head = (op AND 0x80 = 0x80) \<and>
    opcode head = op AND 0x0F \<and> mask_bit head \<and>
    (\<exists>p. msg = p @ mask_loop key 0 data @ r \<and> int (length p) = headLen head \<and>
      length p + length data = length (masked_frame op key data))"
proof -
  let ?w = "of_nat (length data) :: 32 word"
  let ?bs = "snd (len_field ?w)" and ?x = "0x80 OR fst (len_field ?w)"
  let ?c = "key @ mask_loop key 0 data @ r"
  have f: "masked_frame op key data @ r = [op, ?x] @ ?bs @ ?c" by (simp add: masked_frame_def)
  have s1: "mem_read ([op, ?x] @ ?bs @ ?c) 0 2 = Inr [op, ?x]"
    using mem_read_at [of "[]" 0 "[op, ?x]" 2 "?bs @ ?c"] by simp
  obtain bs' where s2: "frame_length ([op, ?x] @ ?bs @ ?c) ?x = Inr (?w, [op, ?x] @ bs' @ ?c, 2 + int (length ?bs))"
    "length bs' = length ?bs" using frame_length_ok [of op ?w ?c] by blast
  have s3: "mem_read ([op, ?x] @ bs' @ ?c) (2 + int (length ?bs)) 4 = Inr key"
    using mem_read_at [of "[op, ?x] @ bs'" "2 + int (length ?bs)" key 4 "mask_loop key 0 data @ r"] s2(2) key by simp
  have m: "?x AND 0x80 = 0x80"
    using mask_bit_simps(1) [of "ucast ?w"] by (auto simp: len_field_def)
  have "ParsingFrameHeader (masked_frame op key data @ r) rl h0 =
      Inr ([op, ?x] @ bs' @ ?c, h0\<lparr>fin := (op AND 0x80 = 0x80), opcode := op AND 0x0F, mask_bit := True,
        payload_length := ?w, masking_key := key, headLen := 2 + int (length ?bs) + 4\<rparr>, 0)"
    using recv s1 s2(1) s3 m unfolding ParsingFrameHeader_def f by simp
  moreover have "length ([op, ?x] @ bs' @ key) + length data = length (masked_frame op key data)"
    using s2(2) by (simp add: masked_frame_def)
  moreover have "[op, ?x] @ bs' @ ?c = ([op, ?x] @ bs' @ key) @ mask_loop key 0 data @ r" by simp
  moreover have "int (length ([op, ?x] @ bs' @ key)) = 2 + int (length ?bs) + 4" using s2(2) key by simp
  ultimately show ?thesis by (intro exI conjI) (assumption | simp)+
qed

text \<open>
  C16. Round trip of a masked frame: what \<^verbatim>\<open>webSocket_enPackage\<close> writes for a message of any length
  below $2^{31} - 16$, with any mask and type, \<^verbatim>\<open>ParsingFrameHeader\<close> recognises with its type, length and
  mask, and \<^verbatim>\<open>Webumask\<close> turns the payload back into the message. All three length formats and the
  byte reversal of the long one are covered.
\<close>

theorem frame_roundtrip:
  assumes "frame_op type = Some op" "length data < 2 ^ 31 - 16" "length rnd = 4"
    and "length data + 15 \<le> length package" "int (length data) + 14 \<le> uint packageMaxLen"
  shows "\<exists>pkg len msg head msg'.
    webSocket_enPackage rnd data (of_nat (length data)) package packageMaxLen True type = Inr (pkg, len) \<and>
    0 < len \<and> ParsingFrameHeader pkg len fram_head0 = Inr (msg, head, 0) \<and>
    fin head = (op AND 0x80 = 0x80) \<and> opcode head = op AND 0x0F \<and> mask_bit head \<and>
    payload_length head = of_nat (length data) \<and> masking_key head = webSocket_getRandomString rnd \<and>
    len = headLen head + int (length data) \<and>
    Webumask msg (headLen head) (to_i32 (uint (payload_length head))) (masking_key head) = Inr msg' \<and>
    take (length data) (drop (nat (headLen head)) msg') = data"
proof -
  let ?key = "webSocket_getRandomString rnd"
  obtain r where e: "webSocket_enPackage rnd data (of_nat (length data)) package packageMaxLen True type =
      Inr (masked_frame op ?key data @ 0 # r, int (length (masked_frame op ?key data)))"
    using enPackage_masked [OF assms] by blast
  have k: "length ?key = 4" using assms(3) by (simp add: webSocket_getRandomString_def)
  have pos: "0 < int (length (masked_frame op ?key data))" by (simp add: masked_frame_def)
  obtain msg head p where h: "ParsingFrameHeader (masked_frame op ?key data @ 0 # r) (int (length (masked_frame op ?key data))) fram_head0 =
      Inr (msg, head, 0)" "payload_length head = of_nat (length data)" "masking_key head = ?key"
    "fin head = (op AND 0x80 = 0x80)" "opcode head = op AND 0x0F" "mask_bit head"
    "msg = p @ mask_loop ?key 0 data @ 0 # r" "int (length p) = headLen head"
    "length p + length data = length (masked_frame op ?key data)"
    using frame_parsed [OF _ k pos, of data op "0 # r" fram_head0] assms(2) by auto
  have w: "to_i32 (uint (of_nat (length data) :: 32 word)) = int (length data)"
    using assms(2) uint_of_nat_small [of "length data"] to_i32_id [of "int (length data)"] by simp
  have "Webumask msg (headLen head) (int (length data)) ?key = Inr (p @ data @ 0 # r)"
  proof (cases "data = []")
    case False
    have "mem_read msg (headLen head) (int (length data)) = Inr (mask_loop ?key 0 data)"
      unfolding h(7) using h(8) by (intro mem_read_at) simp_all
    moreover have "mem_write msg (headLen head) data = Inr (p @ data @ 0 # r)"
      unfolding h(7) using h(8) by (intro mem_write_at) simp_all
    ultimately show ?thesis using False umask_mask [of ?key 0 data] by (simp add: Webumask_def)
  qed (simp add: Webumask_def h(7))
  moreover have "take (length data) (drop (nat (headLen head)) (p @ data @ 0 # r)) = data" using h(8) by auto
  moreover have "int (length (masked_frame op ?key data)) = headLen head + int (length data)" using h(8,9) by simp
  ultimately show ?thesis using e pos h(1-6) w by (intro exI conjI) (assumption | simp only:)+
qed

theorem frame_roundtrip_witness:
  "\<exists>pkg len msg head msg'.
    webSocket_enPackage [1, 0, 3, 4] [104, 105] 2 (replicate 32 0) 32 True WCT_TXTDATA = Inr (pkg, len) \<and>
    0 < len \<and> ParsingFrameHeader pkg len fram_head0 = Inr (msg, head, 0) \<and>
    fin head = ((0x81 :: byte) AND 0x80 = 0x80) \<and> opcode head = 0x81 AND 0x0F \<and> mask_bit head \<and>
    payload_length head = 2 \<and> masking_key head = webSocket_getRandomString [1, 0, 3, 4] \<and>
    len = headLen head + 2 \<and>
    Webumask msg (headLen head) (to_i32 (uint (payload_length head))) (masking_key head) = Inr msg' \<and>
    take 2 (drop (nat (headLen head)) msg') = [104, 105]"
  using frame_roundtrip [where data = "[104, 105]" and type = WCT_TXTDATA and op = "0x81"
    and rnd = "[1, 0, 3, 4]" and package = "replicate 32 0" and packageMaxLen = 32]
  by (simp add: frame_op_def numeral_2_eq_2 [symmetric])

section \<open>Sending to a link\<close>

text \<open>A frame without mask.\<close>

definition plain_frame :: "byte \<Rightarrow> byte list \<Rightarrow> byte list" where
  "plain_frame op data =
     [op, fst (len_field (of_nat (length data)))] @ snd (len_field (of_nat (length data))) @ data"

lemma enPackage_plain:
  assumes op: "frame_op type = Some op" and n: "n < 2 ^ 31 - 16" "n \<le> length data"
    and room: "n + 11 \<le> k" "int n + 10 \<le> uint packageMaxLen"
  shows "\<exists>r. webSocket_enPackage rnd data (of_nat n) (replicate k 0) packageMaxLen False type =
    Inr (plain_frame op (take n data) @ 0 # r, int (length (plain_frame op (take n data))))"
proof -
  let ?w = "of_nat n :: 32 word"
  let ?bs = "snd (len_field ?w)" and ?x = "fst (len_field ?w)" and ?d = "take n data"
  let ?h = "length ?bs"
  have w: "uint ?w = int n" using n by (intro uint_of_nat_small) simp
  have h: "?h \<le> 8" by (rule len_field_length)
  define e b r where "e = replicate ?h (0 :: byte)" and "b = replicate (n + 1) (0 :: byte)"
    and "r = replicate (k - n - ?h - 3) (0 :: byte)"
  have p: "replicate k 0 = [0, 0] @ e @ b @ r"
    using room(1) h unfolding e_def b_def r_def by (simp add: replicate_add [symmetric] flip: replicate_Suc)
  have l: "length e = ?h" "length b = n + 1" "length ?d = n" using n(2) by (simp_all add: e_def b_def)
  have s1: "mem_write ([0, 0] @ e @ b @ r) 0 [op] = Inr ([op, 0] @ e @ b @ r)"
    using mem_write_at [of "[]" 0 "[0]" "[op]" "0 # e @ b @ r"] by simp
  have s3: "put_length ([op, 0] @ e @ b @ r) packageMaxLen ?w = Inr (Some ([op, ?x] @ ?bs @ b @ r, of_nat (2 + ?h)))"
    using put_length_ok [of ?w packageMaxLen e op 0 "b @ r"] n w room(2) l by simp
  have u2: "uint (of_nat (2 + ?h) :: 32 word) = 2 + int ?h" using uint_of_nat_small [of "2 + ?h"] h by simp
  have s5: "mem_read data 0 (int n) = Inr ?d" using n(2) by (simp add: mem_read_def)
  have s6: "mem_write ([op, ?x] @ ?bs @ b @ r) (2 + int ?h) (?d @ [0]) = Inr ([op, ?x] @ ?bs @ (?d @ [0]) @ r)"
    using mem_write_at [of "[op, ?x] @ ?bs" "2 + int ?h" b "?d @ [0]" r] l by simp
  have tot: "of_nat (2 + ?h) + ?w = (of_nat (2 + ?h + n) :: 32 word)" by simp
  have u: "uint (of_nat (2 + ?h + n) :: 32 word) = int (2 + ?h + n)" using n h by (intro uint_of_nat_small) simp
  have i: "to_i32 (int (2 + ?h + n)) = int (2 + ?h + n)" using n h by (intro to_i32_id) simp_all
  have c: "\<not> packageMaxLen < of_nat (2 + ?h + n)" "\<not> packageMaxLen < 2"
    using room(2) h u by (simp_all add: word_less_def)
  have "webSocket_enPackage rnd data ?w (replicate k 0) packageMaxLen False type =
      Inr ([op, ?x] @ ?bs @ (?d @ [0]) @ r, int (2 + ?h + n))"
    unfolding webSocket_enPackage_def op p Let_def
    by (simp only: c(2) if_False if_True option.case s1 s3 s5 s6 rbind_simps prod.case u2 w tot c(1) u i)
  then show ?thesis using l(3) by (simp add: plain_frame_def)
qed

lemma send_frame_ok:
  assumes "0 \<le> sendLen" "sendLen < 2 ^ 31 - 1024" "sendLen \<le> int (length sendMsg)"
  shows "send_frame sendMsg sendLen l = Inr (lsocket l, plain_frame 0x82 (take (nat sendLen) sendMsg))"
proof -
  let ?f = "plain_frame 0x82 (take (nat sendLen) sendMsg)"
  have u: "uint (word_of_int (sendLen + 1024) :: 32 word) = sendLen + 1024"
    using assms take_bit_int_eq_self [of "sendLen + 1024" 32] by (simp del: of_int_add add: unsigned_of_int)
  have w: "(word_of_int sendLen :: 32 word) = of_nat (nat sendLen)" using assms(1) by simp
  have "\<exists>r. webSocket_enPackage [] sendMsg (of_nat (nat sendLen)) (replicate (nat (sendLen + 128)) 0)
      (word_of_int (sendLen + 1024)) False WCT_BINDATA = Inr (?f @ 0 # r, int (length ?f))"
    using assms u by (intro enPackage_plain) (simp_all only: frame_op_def, simp_all)
  then obtain r where "webSocket_enPackage [] sendMsg (word_of_int sendLen) (replicate (nat (sendLen + 128)) 0)
      (word_of_int (sendLen + 1024)) False WCT_BINDATA = Inr (?f @ 0 # r, int (length ?f))"
    unfolding w by blast
  then show ?thesis using mem_read_at [of "[]" 0 ?f "int (length ?f)" "0 # r"] by (simp add: send_frame_def)
qed

definition link_matches :: "string \<Rightarrow> int \<Rightarrow> LinkInfo_T \<Rightarrow> bool" where
  "link_matches sn channel l \<longleftrightarrow> takeWhile (\<lambda>c. c \<noteq> NUL) (SerialNumber l) = sn \<and> lchannel l = channel"

lemma send_links_first:
  assumes "0 \<le> sendLen" "sendLen < 2 ^ 31 - 1024" "sendLen \<le> int (length sendMsg)"
    and "reg_ok m ps" "\<forall>l \<in> set (reg_recs m ps). NUL \<in> set (SerialNumber l)"
  shows "send_links m sendMsg sendLen sn channel ps =
    Inr (case find (link_matches sn channel) (reg_recs m ps) of None \<Rightarrow> []
       | Some l \<Rightarrow> [(lsocket l, plain_frame 0x82 (take (nat sendLen) sendMsg))])"
  using assms(4,5)
  by (induction ps) (auto simp: reg_ok_Cons link_matches_def c_str_def send_frame_ok [OF assms(1-3)])

text \<open>
  Sending camera data: \<^verbatim>\<open>WebSocketSend\<close> sends exactly one frame, binary, unmasked, with the right
  length field in front of the first \<open>sendLen\<close> bytes, to the first link registered for the serial
  number and channel, and nothing when there is none. No write leaves the buffer of
  \<open>sendLen + 128\<close> bytes although \<^verbatim>\<open>webSocket_enPackage\<close> is told that it has \<open>sendLen + 1024\<close>.
\<close>

theorem websocket_send:
  assumes "0 \<le> sendLen" "sendLen < 2 ^ 31 - 1024" "sendLen \<le> int (length sendMsg)"
    and "reg_ok (link_objs s) (links s)" "\<forall>l \<in> set (reg_recs (link_objs s) (links s)). NUL \<in> set (SerialNumber l)"
  shows "WebSocketSend sendMsg sendLen sn channel s =
    Inr (s\<lparr>sent := sent s @
      (case find (link_matches sn channel) (reg_recs (link_objs s) (links s)) of None \<Rightarrow> []
       | Some l \<Rightarrow> [(lsocket l, plain_frame 0x82 (take (nat sendLen) sendMsg))])\<rparr>, KEY_TRUE)"
  using send_links_first [OF assms] by (simp add: WebSocketSend_def)

definition demo_server :: WebServer where
  "demo_server = \<lparr>links = [8, 16], link_objs = [8 \<mapsto> link0\<lparr>lsocket := 4\<rparr>, 16 \<mapsto> link0\<lparr>lsocket := 5, lchannel := 2\<rparr>],
     sent = [], serverport = Some 8080\<rparr>"

theorem websocket_send_witness:
  "WebSocketSend [7, 7, 7] 2 [] 2 demo_server = Inr (demo_server\<lparr>sent := [(5, [0x82, 2, 7, 7])]\<rparr>, KEY_TRUE)"
  using websocket_send [of 2 "[7, 7, 7]" demo_server "[]" 2]
  by (simp add: demo_server_def reg_ok_def link_matches_def link0_def plain_frame_def len_field_def)

section \<open>The links as a registry\<close>

definition ws_inv :: "WebServer \<Rightarrow> bool" where
  "ws_inv s \<longleftrightarrow> reg_inv lsocket (link_objs s) (links s)"

definition ws_get :: "WebServer \<Rightarrow> int \<Rightarrow> LinkInfo_T option" where
  "ws_get s = reg_get lsocket (link_objs s) (links s)"

definition link_added :: "WebServer \<Rightarrow> LinkInfo_T \<Rightarrow> WebServer \<Rightarrow> bool" where
  "link_added s l s' \<longleftrightarrow> (\<exists>alloc r. alloc (link_objs s) \<noteq> 0 \<and> link_objs s (alloc (link_objs s)) = None \<and>
     AddNodeToLink alloc l s = Inr (s', r) \<and> links s' \<noteq> links s)"

definition link_deleted :: "WebServer \<Rightarrow> int \<Rightarrow> WebServer \<Rightarrow> bool" where
  "link_deleted s k s' \<longleftrightarrow> (\<exists>r. WebHttpClose k s = Inr (s', r) \<and> links s' \<noteq> links s)"

lemma link_find_none: "ws_inv s \<Longrightarrow> ws_get s k = None \<Longrightarrow> link_find s k = Inr 0"
  unfolding ws_inv_def ws_get_def link_find_def by (rule reg_lookup_none [OF reg_inv_ok])

lemma link_find_some:
  assumes "ws_inv s" "ws_get s k = Some l"
  obtains p where "link_find s k = Inr p" "p \<in> set (links s)" "p \<noteq> 0" "link_objs s p = Some l" "lsocket l = k"
  using reg_lookup_some [OF reg_inv_ok assms(2) [unfolded ws_get_def]] assms(1)
  unfolding ws_inv_def link_find_def by blast

lemma AddNodeToLink_done:
  assumes "ws_inv s" "ws_get s (lsocket l) = None" "alloc (link_objs s) \<noteq> 0" "link_objs s (alloc (link_objs s)) = None"
  shows "\<exists>s'. AddNodeToLink alloc l s = Inr (s', KEY_TRUE) \<and> ws_inv s' \<and> ws_get s' = (ws_get s)(lsocket l \<mapsto> l)"
proof -
  have "alloc (link_objs s) \<notin> set (links s)"
    using assms(1,4) by (auto simp: ws_inv_def reg_inv_def reg_ok_def)
  from reg_add [OF assms(1) [unfolded ws_inv_def] assms(3) this, of l] assms(2)
  show ?thesis using link_find_none [OF assms(1,2)]
    by (simp add: AddNodeToLink_def Let_def ws_inv_def ws_get_def)
qed

lemma AddNodeToLink_present:
  assumes "ws_inv s" "ws_get s (lsocket l) \<noteq> None"
  shows "AddNodeToLink alloc l s = Inr (s, - 1)"
  using assms link_find_some [OF assms(1)] by (fastforce simp: AddNodeToLink_def)

lemma WebHttpClose_done:
  assumes "ws_inv s" "ws_get s k = Some l"
  shows "\<exists>s'. WebHttpClose k s = Inr (s', KEY_TRUE) \<and> ws_inv s' \<and> ws_get s' = (ws_get s)(k := None)"
proof -
  from link_find_some [OF assms] obtain p where p: "link_find s k = Inr p" "p \<in> set (links s)" "p \<noteq> 0"
    "link_objs s p = Some l" "lsocket l = k" .
  from reg_del [OF assms(1) [unfolded ws_inv_def] p(2,4)] p
  show ?thesis by (simp add: WebHttpClose_def DelNodeToLink_def ws_inv_def ws_get_def)
qed

lemma WebHttpClose_absent: "ws_inv s \<Longrightarrow> ws_get s k = None \<Longrightarrow> WebHttpClose k s = Inr (s, KEY_TRUE)"
  using link_find_none [of s k] by (simp add: WebHttpClose_def DelNodeToLink_def)

interpretation web: keyed_registry ws_inv ws_get lsocket link_added link_deleted
proof (unfold_locales, goal_cases)
  case (1 s l s')
  then obtain alloc r where a: "alloc (link_objs s) \<noteq> 0" "link_objs s (alloc (link_objs s)) = None"
      "AddNodeToLink alloc l s = Inr (s', r)" "links s' \<noteq> links s" by (auto simp: link_added_def)
  have n: "ws_get s (lsocket l) = None" using AddNodeToLink_present [OF 1(1), of l alloc] a(3,4) by fastforce
  from AddNodeToLink_done [OF 1(1) n, of alloc] a n show ?case by auto
next
  case (2 s k s')
  then obtain r where d: "WebHttpClose k s = Inr (s', r)" "links s' \<noteq> links s" by (auto simp: link_deleted_def)
  then obtain l where l: "ws_get s k = Some l" using WebHttpClose_absent [OF 2(1), of k] by fastforce
  from WebHttpClose_done [OF 2(1) l] d(1) l show ?case by auto
qed

section \<open>The opening handshake\<close>

text \<open>
  An encoder that writes nothing where there is no room leaves the accept key of every handshake empty.
\<close>

lemma handshake_key_empty:
  assumes "\<And>d. base64_encode 0 d = []" "length key + length MAGIC < 1024" "NUL \<notin> set key"
  shows "WebSocketAuthentication sha1 base64_encode sock key =
    Inr (sock, ''HTTP/1.1 101 Switching Protocols'' @ CRNL @ ''Upgrade: websocket'' @ CRNL @ ''Connection: Upgrade'' @ CRNL @
      ''Sec-WebSocket-Accept: '' @ CRNL @ CRNL)"
proof -
  let ?t = "''HTTP/1.1 101 Switching Protocols'' @ CRNL @ ''Upgrade: websocket'' @ CRNL @ ''Connection: Upgrade'' @ CRNL @
      ''Sec-WebSocket-Accept: '' @ CRNL @ CRNL"
  have m: "NUL \<notin> set (key @ MAGIC)" using assms(3) by (simp add: MAGIC_def)
  have 1: "snprintf (replicate 1024 NUL) 1024 (key @ MAGIC) = Inr ((key @ MAGIC) @ NUL # drop (Suc (length (key @ MAGIC))) (replicate 1024 NUL))"
    using assms(2) put_all_fits [of 0 "(key @ MAGIC) @ [NUL]" "replicate 1024 NUL"] by (simp add: snprintf_def)
  obtain digest where 2: "c_str (sha1 (key @ MAGIC) @ [NUL]) 0 = Inr digest" by (auto simp: c_str_def)
  have 3: "sprintf (replicate 32 NUL) [] = Inr (replicate 32 NUL)" "c_str (replicate 32 NUL) 0 = Inr []"
    by (simp_all add: sprintf_def put_all_def c_str_def numeral_eq_Suc)
  have t: "length ?t < 1024" "NUL \<notin> set ?t" by (simp_all add: CRNL_def)
  from sprintf_fits [of ?t "replicate 1024 NUL"] t(1) obtain r where 4: "sprintf (replicate 1024 NUL) ?t = Inr (?t @ NUL # r)" by auto
  show ?thesis unfolding WebSocketAuthentication_def
    using 1 2 3 4 assms(1) c_str_at [OF m] c_str_at [OF t(2)] by (simp del: append_assoc)
qed

text \<open>
  What a client asks for is decoded and dropped: serving a request registers no link.
\<close>

lemma WebRequst_links: "WebRequst sha1 base64_encode cli s = Some (Inr (s', r)) \<Longrightarrow> links s' = links s"
  by (auto simp: WebRequst_def outcome_iff split: prod.splits if_splits)

definition idle_server :: WebServer where
  "idle_server = \<lparr>links = [], link_objs = Map.empty, sent = [], serverport = None\<rparr>"

section \<open>The length of a received frame\<close>

lemma no_key_in_frame:
  "GetHttpWebSocketKey (Some (chars (0x81 # 0xFF # 0 # m))) (Some h) = Inr (Some h, KEY_FALSE)"
proof -
  have "chars (0x81 # 0xFF # 0 # m) = [CHR 0x81, CHR 0xFF] @ NUL # chars m"
    by (simp add: chars_def) code_simp
  moreover have "strstr [CHR 0x81, CHR 0xFF] ''Sec-WebSocket-Key'' = None" by simp
  ultimately show ?thesis using c_str_at [of "[CHR 0x81, CHR 0xFF]" "chars m"] by (simp add: GetHttpWebSocketKey_def)
qed

lemma long_header:
  assumes "0 < rl" "length key = 4"
  shows "ParsingFrameHeader ([0x81, 0xFF, 0, 0, 0, 0, a, b, c, d] @ key @ r) rl fram_head0 =
    Inr ([0x81, 0xFF, d, c, b, a, 0, 0, 0, 0] @ key @ r,
      \<lparr>fin = True, opcode = 1, mask_bit = True, headLen = 14, payload_length = le32 [d, c, b, a], masking_key = key\<rparr>, 0)"
proof -
  let ?m = "[0x81, 0xFF, 0, 0, 0, 0, a, b, c, d] @ key @ r" and ?m' = "[0x81, 0xFF, d, c, b, a, 0, 0, 0, 0] @ key @ r"
  have 1: "mem_read ?m 0 2 = Inr [0x81, 0xFF]" using mem_read_at [of "[]" 0 "[0x81, 0xFF]" 2] by simp
  have 2: "mem_read ?m 2 8 = Inr [0, 0, 0, 0, a, b, c, d]"
    using mem_read_at [of "[0x81, 0xFF]" 2 "[0, 0, 0, 0, a, b, c, d]" 8] by simp
  have 3: "mem_write ?m 2 [d, c, b, a, 0, 0, 0, 0] = Inr ?m'"
    using mem_write_at [of "[0x81, 0xFF]" 2 "[0, 0, 0, 0, a, b, c, d]" "[d, c, b, a, 0, 0, 0, 0]"] by simp
  have 4: "mem_read ?m' 10 4 = Inr key"
    using mem_read_at [of "[0x81, 0xFF, d, c, b, a, 0, 0, 0, 0]" 10 key 4] assms(2) by simp
  have "frame_length ?m 0xFF = Inr (le32 [d, c, b, a], ?m', 10)"
    unfolding frame_length_def by (simp add: 2 3 swap8_rev del: append.simps) (simp add: le32_def)
  then show ?thesis using assms(1) 1 4 by (simp add: ParsingFrameHeader_def fram_head0_def del: append.simps)
qed

text \<open>
  C17. The length announced by a client is not checked: on a frame with the long length format
  \<^verbatim>\<open>WebRequst\<close> runs \<^verbatim>\<open>Webumask\<close> over as many bytes as the client says, and every length that exceeds the
  rest of the receive buffer and is below $2^{31}$ makes it write behind the buffer.
\<close>

theorem unchecked_payload_length:
  assumes "recvmsg cli = [0x81, 0xFF, 0, 0, 0, 0, a, b, c, d] @ rest" "0 < recvLen cli" "4 \<le> length rest"
    and "uint (le32 [d, c, b, a]) < 2 ^ 31" "int (length rest) - 4 < uint (le32 [d, c, b, a])"
  shows "WebRequst sha1 base64_encode cli s = Some (Inl OutOfBounds)"
proof -
  obtain key r where r: "rest = key @ r" "length key = 4" using split_at [OF assms(3)] by blast
  have i: "to_i32 (uint (le32 [d, c, b, a])) = uint (le32 [d, c, b, a])"
    using assms(4) order_trans [of "- (2 ^ 31)" 0 "uint (le32 [d, c, b, a])"] by (intro to_i32_id) simp_all
  have k: "GetHttpWebSocketKey (Some (chars (recvmsg cli))) (Some (replicate 512 NUL)) = Inr (Some (replicate 512 NUL), KEY_FALSE)"
    unfolding assms(1) using no_key_in_frame by simp
  have z: "c_str (replicate 512 NUL) 0 = Inr []" by (simp add: c_str_def numeral_eq_Suc)
  have "Webumask ([0x81, 0xFF, d, c, b, a, 0, 0, 0, 0] @ key @ r) 14 (uint (le32 [d, c, b, a])) key = Inl OutOfBounds"
    using assms(5) r by (simp add: Webumask_def mem_read_def)
  then show ?thesis using k z long_header [OF assms(2) r(2), of a b c d r] i
    by (simp add: WebRequst_def assms(1) r(1) del: append.simps)
qed

theorem unchecked_payload_length_witness:
  "WebRequst (\<lambda>t. t) (\<lambda>_ t. t)
     \<lparr>recvSocket = 4, recvLen = 14, recvmsg = [0x81, 0xFF, 0, 0, 0, 0, 0x7F, 0, 0, 0] @ replicate 100 0\<rparr> idle_server =
   Some (Inl OutOfBounds)"
  by (rule unchecked_payload_length [of _ "0x7F" 0 0 0 "replicate 100 0"]) (simp_all add: le32_def)

end
