(* ===== verification/Base64.thy ===== *)
theory Base64
  imports CString
begin

text \<open>
  The two pairs of Base64 routines of \<^verbatim>\<open>src/ExtLibs/Base64/base64.c\<close>. Data are lists of bytes, texts
  buffers of characters with a terminating NUL. The code computes in \<^verbatim>\<open>int\<close> and stores or masks the low
  bits, so the shifts of bytes agree with it.

  The lemmas show that the two encoders write the same text and that both decoders read the data back, the
  second one with the padding still in it.
\<close>

unbundle bit_operations_syntax

section \<open>Encoding\<close>

definition BASE64_CHARS :: string where
  "BASE64_CHARS = ''ABCDEFGHIJKLMNOPQRSTUVWXYZabcdefghijklmnopqrstuvwxyz0123456789+/''"

text \<open>The index is below 64 wherever the code uses it.\<close>

definition b64_char :: "byte \<Rightarrow> char" where
  "b64_char w = BASE64_CHARS ! unat w"

text \<open>The first encoder moves two pointers along the data and the text.\<close>

fun bits_to_64_loop :: "byte list \<Rightarrow> string" where
  "bits_to_64_loop (a # b # c # r) =
     [b64_char (drop_bit 2 a), b64_char ((push_bit 4 a AND 0x30) OR drop_bit 4 b),
      b64_char ((push_bit 2 b AND 0x3C) OR drop_bit 6 c), b64_char (c AND 0x3F)] @ bits_to_64_loop r"
| "bits_to_64_loop [a, b] =
     [b64_char (drop_bit 2 a), b64_char ((push_bit 4 a AND 0x30) OR drop_bit 4 b), b64_char (push_bit 2 b AND 0x3C), CHR ''='']"
| "bits_to_64_loop [a] = [b64_char (drop_bit 2 a), b64_char (push_bit 4 a AND 0x30), CHR ''='', CHR ''='']"
| "bits_to_64_loop [] = []"

definition base64_bits_to_64 :: "string \<Rightarrow> byte list \<Rightarrow> int \<Rightarrow> fault + string" where
  "base64_bits_to_64 out inp inlen =
     (if inlen \<le> 0 then put out 0 NUL
      else rbind (mem_read inp 0 inlen) (\<lambda>d. sprintf out (bits_to_64_loop d)))"

text \<open>The second encoder computes the positions from the number of the group.\<close>

definition byte_at :: "byte list \<Rightarrow> nat \<Rightarrow> fault + byte" where
  "byte_at m k = (if k < length m then Inr (m ! k) else Inl OutOfBounds)"

definition encode_group :: "byte list \<Rightarrow> nat \<Rightarrow> fault + string" where
  "encode_group orig i =
     rbind (byte_at orig (3 * i)) (\<lambda>a. rbind (byte_at orig (3 * i + 1)) (\<lambda>b. rbind (byte_at orig (3 * i + 2)) (\<lambda>c.
     Inr [b64_char (drop_bit 2 a AND 0x3F), b64_char ((push_bit 4 (a AND 0x3) OR drop_bit 4 b) AND 0x3F),
          b64_char ((push_bit 2 b OR drop_bit 6 c) AND 0x3F), b64_char (c AND 0x3F)])))"

fun encode_loop :: "byte list \<Rightarrow> nat list \<Rightarrow> string \<Rightarrow> fault + string" where
  "encode_loop orig [] result = Inr result"
| "encode_loop orig (i # is) result =
     rbind (encode_group orig i) (\<lambda>t. rbind (put_all result (4 * i) t) (encode_loop orig is))"

definition encode_rest :: "byte list \<Rightarrow> nat \<Rightarrow> bool \<Rightarrow> fault + string" where
  "encode_rest orig i havePadding2 =
     rbind (byte_at orig (3 * i)) (\<lambda>a.
     if havePadding2 then rbind (byte_at orig (3 * i + 1)) (\<lambda>b.
       Inr [b64_char (drop_bit 2 a AND 0x3F), b64_char ((push_bit 4 (a AND 0x3) OR drop_bit 4 b) AND 0x3F),
            b64_char (push_bit 2 b AND 0x3F), CHR ''=''])
     else Inr [b64_char (drop_bit 2 a AND 0x3F), b64_char (push_bit 4 (a AND 0x3) AND 0x3F), CHR ''='', CHR ''=''])"

definition base64Encode :: "string \<Rightarrow> byte list option \<Rightarrow> nat \<Rightarrow> fault + string \<times> int" where
  "base64Encode result origSigned origLength = (case origSigned of None \<Rightarrow> Inr (result, - 1)
     | Some orig \<Rightarrow>
       let n = origLength div 3; havePadding = origLength > n * 3; havePadding2 = (origLength = n * 3 + 2);
           numResultBytes = 4 * (n + (if havePadding then 1 else 0)) in
       rbind (encode_loop orig [0..<n] result) (\<lambda>result.
       rbind (if havePadding then rbind (encode_rest orig n havePadding2) (put_all result (4 * n)) else Inr result) (\<lambda>result.
       rbind (put result numResultBytes NUL) (\<lambda>result. Inr (result, 0)))))"

section \<open>Decoding\<close>

text \<open>\<^verbatim>\<open>DECODE64\<close>: the entry of the table \<^verbatim>\<open>base64val\<close>, \<open>None\<close> for \<^verbatim>\<open>BAD\<close>.\<close>

definition DECODE64 :: "char \<Rightarrow> byte option" where
  "DECODE64 c = (let k = of_char c :: nat in
     if 65 \<le> k \<and> k \<le> 90 then Some (of_nat (k - 65))
     else if 97 \<le> k \<and> k \<le> 122 then Some (of_nat (k - 71))
     else if 48 \<le> k \<and> k \<le> 57 then Some (of_nat (k + 4))
     else if k = 43 then Some 62 else if k = 47 then Some 63 else None)"

abbreviation (input) CR :: char where "CR \<equiv> CHR 0x0D"

text \<open>
  One turn of the first decoder's loop: \<open>inp\<close> is the text from the pointer on, \<open>len\<close> bytes have been written.
  The result is \<open>None\<close> for a bad digit, otherwise the last digit with the new output.
\<close>

definition decode_turn :: "string \<Rightarrow> byte list \<Rightarrow> int \<Rightarrow> fault + (byte list \<times> int \<times> char) option" where
  "decode_turn inp out len =
     rbind (ch inp 0) (\<lambda>dg1. case DECODE64 dg1 of None \<Rightarrow> Inr None | Some v1 \<Rightarrow>
     rbind (ch inp 1) (\<lambda>dg2. case DECODE64 dg2 of None \<Rightarrow> Inr None | Some v2 \<Rightarrow>
     rbind (ch inp 2) (\<lambda>dg3. if dg3 \<noteq> CHR ''='' \<and> DECODE64 dg3 = None then Inr None else
     rbind (ch inp 3) (\<lambda>dg4. if dg4 \<noteq> CHR ''='' \<and> DECODE64 dg4 = None then Inr None else
     rbind (mem_write out len [push_bit 2 v1 OR drop_bit 4 v2]) (\<lambda>out.
     if dg3 = CHR ''='' then Inr (Some (out, len + 1, dg4))
     else let v3 = the (DECODE64 dg3) in
       rbind (mem_write out (len + 1) [(push_bit 4 v2 AND 0xF0) OR drop_bit 2 v3]) (\<lambda>out.
       if dg4 = CHR ''='' then Inr (Some (out, len + 2, dg4))
       else rbind (mem_write out (len + 2) [(push_bit 6 v3 AND 0xC0) OR the (DECODE64 dg4)]) (\<lambda>out.
         Inr (Some (out, len + 3, dg4)))))))))"

function decode_loop :: "string \<Rightarrow> byte list \<Rightarrow> int \<Rightarrow> fault + byte list \<times> int" where
  "decode_loop inp out len = (case decode_turn inp out len of
       Inl e \<Rightarrow> Inl e
     | Inr None \<Rightarrow> Inr (out, - 1)
     | Inr (Some (out, len, dg4)) \<Rightarrow> (case ch inp 4 of
           Inl e \<Rightarrow> Inl e
         | Inr c \<Rightarrow> if c \<notin> {NUL, CR} \<and> dg4 \<noteq> CHR ''='' then decode_loop (drop 4 inp) out len else Inr (out, len)))"
  by auto
termination
  by (relation "measure (\<lambda>(inp, _). length inp)") (auto simp: ch_def split: if_splits)

declare decode_loop.simps [simp del]

text \<open>A text that begins with \<open>+\<close> and a blank is read from behind the blank.\<close>

definition base64_64_to_bits :: "byte list \<Rightarrow> string \<Rightarrow> fault + byte list \<times> int" where
  "base64_64_to_bits out inp =
     rbind (ch inp 0) (\<lambda>c0.
     rbind (if c0 = CHR ''+'' then rbind (ch inp 1) (\<lambda>c1. Inr (if c1 = CHR '' '' then drop 2 inp else inp)) else Inr inp) (\<lambda>inp.
     rbind (ch inp 0) (\<lambda>c. if c = CR then Inr (out, 0) else decode_loop inp out 0)))"

text \<open>The second decoder: a byte that is no digit counts as 0, and so does the padding.\<close>

definition table_entry :: "char \<Rightarrow> byte" where
  "table_entry c = (case DECODE64 c of None \<Rightarrow> 0 | Some v \<Rightarrow> v)"

fun decode2_loop :: "string \<Rightarrow> byte list \<Rightarrow> int \<Rightarrow> nat list \<Rightarrow> fault + byte list \<times> int" where
  "decode2_loop inp out k [] = Inr (out, k)"
| "decode2_loop inp out k (j # js) =
     rbind (ch inp j) (\<lambda>c0. rbind (ch inp (j + 1)) (\<lambda>c1. rbind (ch inp (j + 2)) (\<lambda>c2. rbind (ch inp (j + 3)) (\<lambda>c3.
     let t0 = table_entry c0; t1 = table_entry c1; t2 = table_entry c2; t3 = table_entry c3 in
     rbind (mem_write out k [push_bit 2 t0 OR drop_bit 4 t1, push_bit 4 t1 OR drop_bit 2 t2, push_bit 6 t2 OR t3]) (\<lambda>out.
     decode2_loop inp out (k + 3) js)))))"

text \<open>\<open>j\<close> runs through the multiples of 4 below \<^verbatim>\<open>strlen(in) - 3\<close>.\<close>

definition base64Decode :: "string \<Rightarrow> byte list \<Rightarrow> fault + byte list \<times> int" where
  "base64Decode inp out =
     rbind (c_str inp 0) (\<lambda>t. decode2_loop inp out 0 (map (\<lambda>i. 4 * i) [0..<length t div 4]))"

section \<open>Bytes in groups of six bits\<close>

lemma mask_bytes:
  "(0x30::byte) = push_bit 4 (mask 2)" "(0x3C::byte) = push_bit 2 (mask 4)" "(0x3F::byte) = mask 6" "(0xF0::byte) = push_bit 4 (mask 4)"
  "(0xC0::byte) = push_bit 6 (mask 2)" "(3::byte) = mask 2" "(0xF::byte) = mask 4"
  by (simp_all add: mask_eq_exp_minus_1)
lemma byte_eq_iff:
  fixes a b :: byte
  shows "a = b \<longleftrightarrow> (bit a 0 = bit b 0 \<and> bit a 1 = bit b 1 \<and> bit a 2 = bit b 2 \<and> bit a 3 = bit b 3 \<and> 
    bit a 4 = bit b 4 \<and> bit a 5 = bit b 5 \<and> bit a 6 = bit b 6 \<and> bit a 7 = bit b 7)" (is "_ = ?R")
proof
  assume r: ?R
  show "a = b"
  proof (rule bit_word_eqI)
    fix n assume "n < LENGTH(8)"
    then consider "n = 0" | "n = 1" | "n = 2" | "n = 3" | "n = 4" | "n = 5" | "n = 6" | "n = 7" by fastforce
    then show "bit a n = bit b n" using r by cases simp_all
  qed
qed simp
lemma bit_byte:
  fixes a :: byte
  shows "bit (push_bit k a) n \<longleftrightarrow> k \<le> n \<and> n < 8 \<and> bit a (n - k)"
   "bit (drop_bit k a) n \<longleftrightarrow> bit a (k + n)" "bit (mask m :: byte) n \<longleftrightarrow> n < 8 \<and> n < m"
   "bit (a AND b) n \<longleftrightarrow> bit a n \<and> bit b n" "bit (a OR b) n \<longleftrightarrow> bit a n \<or> bit b n" 
  by (auto simp: bit_simps)
lemma byte_high: "8 \<le> n \<Longrightarrow> \<not> bit (a :: byte) n"
  using bit_imp_le_length by fastforce
lemma group_bytes:
  fixes a b c :: byte
  shows "push_bit 2 (drop_bit 2 a) OR drop_bit 4 ((push_bit 4 a AND 0x30) OR drop_bit 4 b) = a"
  "push_bit 4 ((push_bit 4 a AND 0x30) OR drop_bit 4 b) OR drop_bit 2 ((push_bit 2 b AND 0x3C) OR drop_bit 6 c) = b"
  "push_bit 6 ((push_bit 2 b AND 0x3C) OR drop_bit 6 c) OR (c AND 0x3F) = c"
  by (simp only: byte_eq_iff mask_bytes bit_byte; simp add: byte_high)+
lemma second_encoder_bytes:
  fixes a b c :: byte
  shows "drop_bit 2 a AND 0x3F = drop_bit 2 a"
    "(push_bit 4 (a AND 0x3) OR drop_bit 4 b) AND 0x3F = (push_bit 4 a AND 0x30) OR drop_bit 4 b"
    "(push_bit 2 b OR drop_bit 6 c) AND 0x3F = (push_bit 2 b AND 0x3C) OR drop_bit 6 c"
    "((push_bit 4 a AND 0x30) OR drop_bit 4 b) AND 0x3F = (push_bit 4 a AND 0x30) OR drop_bit 4 b"
    "push_bit 4 (a AND 0x3) AND 0x3F = push_bit 4 a AND 0x30" "(push_bit 4 a AND 0x30) AND 0x3F = push_bit 4 a AND 0x30"
    "push_bit 2 b AND 0x3F = push_bit 2 b AND 0x3C"
  by (simp only: byte_eq_iff mask_bytes bit_byte; simp add: byte_high)+

lemma last_group_bytes:
  fixes a b :: byte
  shows "push_bit 2 (drop_bit 2 a) OR drop_bit 4 (push_bit 4 a AND 0x30) = a"
    "push_bit 2 (drop_bit 2 a) OR (drop_bit 4 (push_bit 4 a) AND 3) = a"
    "push_bit 6 (drop_bit 6 a) OR (a AND 0x3F) = a"
    "push_bit 4 (drop_bit 4 b) OR (drop_bit 2 (push_bit 2 b) AND 0xF) = b"
    "push_bit 4 (push_bit 4 a AND 0x30) = 0"
    "push_bit 4 ((push_bit 4 a AND 0x30) OR drop_bit 4 b) OR drop_bit 2 (push_bit 2 b AND 0x3C) = b"
    "push_bit 6 (push_bit 2 b AND 0x3C) = 0"
  by (simp only: byte_eq_iff mask_bytes bit_byte; simp add: byte_high)+

lemma masked_bytes:
  fixes b x y :: byte
  shows "push_bit 4 x AND 0xF0 = push_bit 4 x" "push_bit 6 x AND 0xC0 = push_bit 6 x"
  by (simp only: byte_eq_iff mask_bytes bit_byte; simp add: byte_high)+

text \<open>Six bits are a position of the alphabet.\<close>

lemma sextet: "x AND 0x3F = x \<Longrightarrow> unat (x :: byte) < 64"
proof -
  assume x: "x AND 0x3F = x"
  have "x AND mask 6 < 2 ^ 6" by (rule and_mask_less_size) (simp add: word_size)
  then have "x < 64" using x by (simp add: mask_bytes(3))
  then show ?thesis by (simp add: word_less_nat_alt)
qed

lemma sextets [simp]:
  fixes a b c :: byte
  shows "unat (drop_bit 2 a) < 64" "unat ((push_bit 4 a AND 0x30) OR drop_bit 4 b) < 64"
    "unat ((push_bit 2 b AND 0x3C) OR drop_bit 6 c) < 64" "unat (c AND 0x3F) < 64"
    "unat (push_bit 2 b AND 0x3C) < 64" "unat (push_bit 4 a AND 0x30) < 64"
  by (rule sextet; simp only: byte_eq_iff mask_bytes bit_byte; simp add: byte_high)+

lemma decode_char_all: "list_all (\<lambda>n. DECODE64 (BASE64_CHARS ! n) = Some (of_nat n)) [0..<64]"
  by (simp add: BASE64_CHARS_def DECODE64_def upt_rec [of _ 64] Let_def)

lemma decode_char [simp]: "unat w < 64 \<Longrightarrow> DECODE64 (b64_char w) = Some w"
  using decode_char_all by (simp add: b64_char_def list_all_iff)

lemma decode_special: "DECODE64 CHR ''='' = None" "DECODE64 NUL = None" "DECODE64 CR = None" "DECODE64 CHR '' '' = None"
  by code_simp+

lemma b64_char_not_special [simp]:
  assumes "unat w < 64"
  shows "b64_char w \<noteq> CHR ''=''" "b64_char w \<noteq> NUL" "NUL \<noteq> b64_char w" "b64_char w \<noteq> CR" "b64_char w \<noteq> CHR '' ''"
  using decode_char [OF assms] decode_special by (metis option.distinct(1))+

section \<open>The two encoders\<close>

text \<open>The length of a text and its parts.\<close>

lemma length_bits_to_64_loop: "length (bits_to_64_loop d) = 4 * ((length d + 2) div 3)"
  by (induction d rule: bits_to_64_loop.induct) (simp_all, arith)

lemma bits_to_64_loop_no_NUL [simp]: "NUL \<notin> set (bits_to_64_loop d)"
  by (induction d rule: bits_to_64_loop.induct) simp_all

lemma bits_to_64_loop_append: "length p = 3 * n \<Longrightarrow> bits_to_64_loop (p @ d) = bits_to_64_loop p @ bits_to_64_loop d"
proof (induction n arbitrary: p)
  case (Suc n)
  then obtain a b c q where "p = a # b # c # q" "length q = 3 * n"
    by (auto simp: length_Suc_conv numeral_3_eq_3)
  then show ?case using Suc.IH [of q] by simp
qed simp

text \<open>The loop of the second encoder, in front of it the data and the text that are done.\<close>

lemma encode_loop_text:
  assumes "length p = 3 * i" "length q = 3 * k" "length pre = 4 * i" "4 * k \<le> length rest"
  shows "encode_loop (p @ q @ r) [i..<i + k] (pre @ rest) = Inr (pre @ bits_to_64_loop q @ drop (4 * k) rest)"
  using assms
proof (induction k arbitrary: p q i pre rest)
  case (Suc k)
  obtain a b c q' where q: "q = a # b # c # q'" "length q' = 3 * k"
    using Suc.prems(2) by (auto simp: length_Suc_conv numeral_3_eq_3)
  let ?t = "bits_to_64_loop [a, b, c]"
  have g: "encode_group (p @ q @ r) i = Inr ?t"
    using Suc.prems(1) q by (simp add: encode_group_def byte_at_def nth_append second_encoder_bytes)
  have w: "put_all (pre @ rest) (4 * i) ?t = Inr ((pre @ ?t) @ drop 4 rest)"
    using Suc.prems(3,4) by (simp add: put_all_fits)
  have "encode_loop ((p @ [a, b, c]) @ q' @ r) [Suc i..<Suc i + k] ((pre @ ?t) @ drop 4 rest)
      = Inr ((pre @ ?t) @ bits_to_64_loop q' @ drop (4 * k) (drop 4 rest))"
    by (rule Suc.IH) (use Suc.prems q in auto)
  moreover have "[i..<i + Suc k] = i # [Suc i..<Suc i + k]" by (simp add: upt_conv_Cons)
  ultimately show ?case using g w q(1) by (simp add: add.commute)
qed simp

text \<open>Three ways the data can end.\<close>

lemma encode_rest_text:
  assumes "length p = 3 * n" "r = [a] \<or> r = [a, b]"
  shows "encode_rest (p @ r) n (length r = 2) = Inr (bits_to_64_loop r)"
  using assms by (auto simp: encode_rest_def byte_at_def nth_append second_encoder_bytes)

lemma base64Encode_text:
  assumes "length (bits_to_64_loop d) < length result"
  shows "base64Encode result (Some d) (length d) =
         Inr (bits_to_64_loop d @ NUL # drop (Suc (length (bits_to_64_loop d))) result, 0)"
proof -
  let ?n = "length d div 3" and ?q = "take (3 * (length d div 3)) d" and ?r = "drop (3 * (length d div 3)) d"
  have q: "length ?q = 3 * ?n" by simp
  have r: "length ?r = length d mod 3" by (simp add: minus_mult_div_eq_mod [symmetric])
  have split: "bits_to_64_loop d = bits_to_64_loop ?q @ bits_to_64_loop ?r"
    using bits_to_64_loop_append [OF q, of ?r] by simp
  have lq: "length (bits_to_64_loop ?q) = 4 * ?n" by (simp add: length_bits_to_64_loop)
  have loop: "encode_loop d [0..<?n] result = Inr (bits_to_64_loop ?q @ drop (4 * ?n) result)"
    using encode_loop_text [of "[]" 0 ?q ?n "[]" result ?r] assms q lq split by simp
  have d3: "length d = 3 * ?n + length ?r" by simp
  show ?thesis
  proof (cases "?r = []")
    case True
    then have "length d = 3 * ?n" using d3 by simp
    moreover have "bits_to_64_loop d = bits_to_64_loop ?q" using split True by simp
    ultimately show ?thesis using loop lq assms
      by (simp add: base64Encode_def Let_def list_update_append Cons_nth_drop_Suc [symmetric])
  next
    case False
    have "length ?r < 3" using r by simp
    with False have "\<exists>a b. ?r = [a] \<or> ?r = [a, b]" by (cases ?r rule: bits_to_64_loop.cases) simp_all
    then obtain a b where ab: "?r = [a] \<or> ?r = [a, b]" by blast
    have rest: "encode_rest d ?n (length ?r = 2) = Inr (bits_to_64_loop ?r)"
      using encode_rest_text [OF q ab] by simp
    have lr: "length (bits_to_64_loop ?r) = 4" using ab by auto
    have pad: "length d > ?n * 3" "(length d = ?n * 3 + 2) = (length ?r = 2)" using False d3 by auto
    have room: "4 * ?n + 4 < length result" using assms split lq lr by simp
    have "put_all (bits_to_64_loop ?q @ drop (4 * ?n) result) (4 * ?n) (bits_to_64_loop ?r)
        = Inr (bits_to_64_loop d @ drop (4 * ?n + 4) result)"
      using room lq lr split by (simp add: put_all_fits add.commute)
    moreover have "put (bits_to_64_loop d @ drop (4 * ?n + 4) result) (4 * (?n + 1)) NUL
        = Inr (bits_to_64_loop d @ NUL # drop (Suc (length (bits_to_64_loop d))) result)"
      using room lq lr split by (simp add: list_update_append Cons_nth_drop_Suc [symmetric])
    ultimately show ?thesis using loop rest pad unfolding base64Encode_def Let_def by simp
  qed
qed

lemma base64_bits_to_64_text:
  assumes "length (bits_to_64_loop d) < length out"
  shows "base64_bits_to_64 out d (int (length d)) =
         Inr (bits_to_64_loop d @ NUL # drop (Suc (length (bits_to_64_loop d))) out)"
proof (cases "d = []")
  case True
  then show ?thesis using assms by (cases out) (simp_all add: base64_bits_to_64_def)
next
  case False
  then show ?thesis using assms by (simp add: base64_bits_to_64_def mem_read_def sprintf_fits)
qed
section \<open>The two decoders\<close>

lemma drop_small: "drop 2 xs = drop (Suc (Suc 0)) xs" "drop 3 xs = drop (Suc (Suc (Suc 0))) xs"
  by (simp_all add: numeral_2_eq_2 numeral_3_eq_3)

lemma mem_write_over:
  "k = int (length pre) \<Longrightarrow> length w \<le> length rest \<Longrightarrow>
     mem_write (pre @ rest) k w = Inr (pre @ w @ drop (length w) rest)"
  by (simp add: mem_write_def nat_add_distrib)

text \<open>One turn on the text of a group writes the bytes of the group.\<close>

lemma decode_turn_group:
  assumes "d = [a] \<or> d = [a, b] \<or> d = [a, b, c]" "length d \<le> length rest"
  shows "decode_turn (bits_to_64_loop d @ t) (pre @ rest) (int (length pre)) =
         Inr (Some (pre @ d @ drop (length d) rest, int (length pre + length d), bits_to_64_loop d ! 3))"
  using assms(1)
proof (elim disjE)
  assume d: "d = [a]"
  have "mem_write (pre @ rest) (int (length pre)) [a] = Inr (pre @ [a] @ drop 1 rest)"
    using assms(2) d by (subst mem_write_over) auto
  then show ?thesis using d by (simp add: decode_turn_def decode_special last_group_bytes)
next
  assume d: "d = [a, b]"
  have "mem_write (pre @ rest) (int (length pre)) [a] = Inr ((pre @ [a]) @ drop 1 rest)"
    using assms(2) d by (subst mem_write_over) auto
  moreover have "mem_write ((pre @ [a]) @ drop 1 rest) (int (length pre) + 1) [b] = Inr ((pre @ [a]) @ [b] @ drop 1 (drop 1 rest))"
    using assms(2) d by (subst mem_write_over) auto
  ultimately show ?thesis using d
    by (simp add: decode_turn_def decode_special last_group_bytes masked_bytes group_bytes Let_def drop_small)
next
  assume d: "d = [a, b, c]"
  have "mem_write (pre @ rest) (int (length pre)) [a] = Inr ((pre @ [a]) @ drop 1 rest)"
    using assms(2) d by (subst mem_write_over) auto
  moreover have "mem_write ((pre @ [a]) @ drop 1 rest) (int (length pre) + 1) [b] = Inr ((pre @ [a, b]) @ drop 2 rest)"
    using assms(2) d by (subst mem_write_over) (auto simp: drop_small)
  moreover have "mem_write ((pre @ [a, b]) @ drop 2 rest) (int (length pre) + 2) [c] = Inr ((pre @ [a, b]) @ [c] @ drop 1 (drop 2 rest))"
    using assms(2) d by (subst mem_write_over) auto
  ultimately show ?thesis using d
    by (simp add: decode_turn_def decode_special last_group_bytes masked_bytes group_bytes Let_def drop_small)
qed

lemma decode_loop_text:
  assumes "d \<noteq> []" "length d \<le> length rest"
  shows "decode_loop (bits_to_64_loop d @ NUL # z) (pre @ rest) (int (length pre)) =
         Inr (pre @ d @ drop (length d) rest, int (length pre + length d))"
  using assms
proof (induction d arbitrary: pre rest rule: bits_to_64_loop.induct)
  case (1 a b c r)
  let ?g = "[a, b, c]"
  have turn: "decode_turn (bits_to_64_loop (?g @ r) @ NUL # z) (pre @ rest) (int (length pre)) =
      Inr (Some ((pre @ ?g) @ drop 3 rest, int (length (pre @ ?g)), b64_char (c AND 0x3F)))"
    using decode_turn_group [of ?g a b c rest "bits_to_64_loop r @ NUL # z" pre] "1.prems" by (simp add: drop_small)
  show ?case
  proof (cases "r = []")
    case True
    then show ?thesis using turn by (simp add: decode_loop.simps numeral_3_eq_3)
  next
    case False
    have next_c: "ch (bits_to_64_loop (?g @ r) @ NUL # z) 4 = Inr (hd (bits_to_64_loop r))" "hd (bits_to_64_loop r) \<notin> {NUL, CR}"
      using False by (cases r rule: bits_to_64_loop.cases, simp_all)+
    have "decode_loop (bits_to_64_loop (?g @ r) @ NUL # z) (pre @ rest) (int (length pre)) =
        decode_loop (bits_to_64_loop r @ NUL # z) ((pre @ ?g) @ drop 3 rest) (int (length (pre @ ?g)))"
      by (subst decode_loop.simps) (use turn next_c in simp)
    also have "\<dots> = Inr ((pre @ ?g) @ r @ drop (length r) (drop 3 rest), int (length (pre @ ?g) + length r))"
      by (rule "1.IH") (use False "1.prems" in auto)
    finally show ?thesis by (simp add: add.commute numeral_3_eq_3)
  qed
next
  case (2 a b)
  have "decode_turn (bits_to_64_loop [a, b] @ NUL # z) (pre @ rest) (int (length pre)) =
      Inr (Some (pre @ [a, b] @ drop 2 rest, int (length pre + 2), CHR ''=''))"
    using decode_turn_group [of "[a, b]" a b a rest "NUL # z" pre] 2 by (simp add: numeral_2_eq_2)
  then show ?case by (simp add: decode_loop.simps drop_small)
next
  case (3 a)
  have "decode_turn (bits_to_64_loop [a] @ NUL # z) (pre @ rest) (int (length pre)) =
      Inr (Some (pre @ [a] @ drop 1 rest, int (length pre + 1), CHR ''=''))"
    using decode_turn_group [of "[a]" a a a rest "NUL # z" pre] 3 by simp
  then show ?case by (simp add: decode_loop.simps)
qed simp

text \<open>The second decoder takes one group of the text in each turn.\<close>

lemma table_entry_simps [simp]: "unat w < 64 \<Longrightarrow> table_entry (b64_char w) = w" "table_entry CHR ''='' = 0"
  by (simp_all add: table_entry_def decode_special)

lemma decode2_turn:
  assumes "length p = 4 * i"
    "mem_write out k [push_bit 2 (table_entry x0) OR drop_bit 4 (table_entry x1),
       push_bit 4 (table_entry x1) OR drop_bit 2 (table_entry x2), push_bit 6 (table_entry x2) OR table_entry x3] = Inr out'"
  shows "decode2_loop (p @ x0 # x1 # x2 # x3 # z) out k (4 * i # js) = decode2_loop (p @ x0 # x1 # x2 # x3 # z) out' (k + 3) js"
  using assms by (simp add: nth_append Let_def)

lemma decode2_loop_text:
  assumes "length p = 4 * i" "3 * ((length d + 2) div 3) \<le> length rest"
  shows "decode2_loop (p @ bits_to_64_loop d @ z) (pre @ rest) (int (length pre)) (map (\<lambda>i. 4 * i) [i..<i + (length d + 2) div 3]) =
         Inr (pre @ d @ replicate (3 * ((length d + 2) div 3) - length d) 0 @ drop (3 * ((length d + 2) div 3)) rest,
              int (length pre + 3 * ((length d + 2) div 3)))"
  using assms
proof (induction d arbitrary: p i pre rest rule: bits_to_64_loop.induct)
  case (1 a b c r)
  let ?g = "[a, b, c]" and ?m = "(length r + 2) div 3"
  have m: "(length (a # b # c # r) + 2) div 3 = Suc ?m" by simp
  have js: "map (\<lambda>i. 4 * i) [i..<i + Suc ?m] = 4 * i # map (\<lambda>i. 4 * i) [Suc i..<Suc i + ?m]"
    by (simp add: upt_conv_Cons)
  have room: "3 \<le> length rest" using "1.prems"(2) unfolding m by simp
  have w: "mem_write (pre @ rest) (int (length pre)) ?g = Inr ((pre @ ?g) @ drop 3 rest)"
    by (subst mem_write_over) (use room in \<open>auto simp: drop_small\<close>)
  have "decode2_loop ((p @ bits_to_64_loop ?g) @ bits_to_64_loop r @ z) ((pre @ ?g) @ drop 3 rest) (int (length (pre @ ?g)))
        (map (\<lambda>i. 4 * i) [Suc i..<Suc i + ?m])
      = Inr ((pre @ ?g) @ r @ replicate (3 * ?m - length r) 0 @ drop (3 * ?m) (drop 3 rest), int (length (pre @ ?g) + 3 * ?m))"
    by (rule "1.IH") (use "1.prems" m in auto)
  then have "decode2_loop (p @ bits_to_64_loop ?g @ bits_to_64_loop r @ z) ((pre @ ?g) @ drop 3 rest) (int (length pre) + 3)
        (map (\<lambda>i. 4 * i) [Suc i..<Suc i + ?m])
      = Inr (pre @ ?g @ r @ replicate (3 * ?m - length r) 0 @ drop (3 * Suc ?m) rest, int (length pre + 3 * Suc ?m))"
    by (simp add: algebra_simps)
  moreover have "decode2_loop (p @ bits_to_64_loop ?g @ bits_to_64_loop r @ z) (pre @ rest) (int (length pre))
        (4 * i # map (\<lambda>i. 4 * i) [Suc i..<Suc i + ?m])
      = decode2_loop (p @ bits_to_64_loop ?g @ bits_to_64_loop r @ z) ((pre @ ?g) @ drop 3 rest) (int (length pre) + 3)
        (map (\<lambda>i. 4 * i) [Suc i..<Suc i + ?m])"
    unfolding bits_to_64_loop.simps append.simps
    by (rule decode2_turn) (use "1.prems"(1) w in \<open>simp_all only: table_entry_simps sextets group_bytes append.simps\<close>)
  ultimately show ?case unfolding m js by simp
next
  case (2 a b)
  have "mem_write (pre @ rest) (int (length pre)) [a, b, 0] = Inr (pre @ [a, b, 0] @ drop 3 rest)"
    using 2 by (subst mem_write_over) (auto simp: drop_small)
  then have "decode2_loop (p @ bits_to_64_loop [a, b] @ z) (pre @ rest) (int (length pre)) [4 * i]
      = Inr (pre @ [a, b, 0] @ drop 3 rest, int (length pre) + 3)"
    unfolding bits_to_64_loop.simps append.simps
    by (subst decode2_turn [OF 2(1)]) (simp_all only: table_entry_simps sextets group_bytes last_group_bytes or.right_neutral decode2_loop.simps append.simps)
  then show ?case by simp
next
  case (3 a)
  have "mem_write (pre @ rest) (int (length pre)) [a, 0, 0] = Inr (pre @ [a, 0, 0] @ drop 3 rest)"
    using 3 by (subst mem_write_over) (auto simp: drop_small)
  then have "decode2_loop (p @ bits_to_64_loop [a] @ z) (pre @ rest) (int (length pre)) [4 * i]
      = Inr (pre @ [a, 0, 0] @ drop 3 rest, int (length pre) + 3)"
    unfolding bits_to_64_loop.simps append.simps
    by (subst decode2_turn [OF 3(1)])
      (simp_all only: table_entry_simps sextets group_bytes last_group_bytes or.right_neutral push_bit_of_0 drop_bit_of_0 decode2_loop.simps append.simps)
  then show ?case by (simp add: numeral_2_eq_2)
qed simp
section \<open>The properties\<close>

lemma decode_text:
  assumes "length d \<le> length out"
  shows "base64_64_to_bits out (bits_to_64_loop d @ NUL # z) =
         Inr (if d = [] then (out, - 1) else (d @ drop (length d) out, int (length d)))"
proof (cases "d = []")
  case True
  then show ?thesis by (simp add: base64_64_to_bits_def decode_loop.simps decode_turn_def decode_special)
next
  case False
  then have t: "hd (bits_to_64_loop d) \<noteq> CR" "bits_to_64_loop d ! 1 \<noteq> CHR '' ''"
    "bits_to_64_loop d = hd (bits_to_64_loop d) # bits_to_64_loop d ! 1 # drop 2 (bits_to_64_loop d)"
    by (cases d rule: bits_to_64_loop.cases, simp_all)+
  have start: "ch (bits_to_64_loop d @ NUL # z) 0 = Inr (hd (bits_to_64_loop d))" "ch (bits_to_64_loop d @ NUL # z) 1 = Inr (bits_to_64_loop d ! 1)"
    by (subst t(3), simp)+
  show ?thesis using start t(1,2) False decode_loop_text [OF False assms, of z "[]"] by (simp add: base64_64_to_bits_def)
qed

lemma decode2_text:
  assumes "3 * ((length d + 2) div 3) \<le> length out"
  shows "base64Decode (bits_to_64_loop d @ NUL # z) out =
         Inr (d @ replicate (3 * ((length d + 2) div 3) - length d) 0 @ drop (3 * ((length d + 2) div 3)) out,
              int (3 * ((length d + 2) div 3)))"
  using decode2_loop_text [of "[]" 0 d out "NUL # z" "[]"] assms
  by (simp add: base64Decode_def length_bits_to_64_loop)

text \<open>
  C22. The two encoders of the file are equivalent: with room for the text and its NUL they leave the same
  buffer, for data of every length.
\<close>

theorem encoders_agree:
  assumes "4 * ((length d + 2) div 3) < length out"
  shows "\<exists>t. base64_bits_to_64 out d (int (length d)) = Inr t \<and> base64Encode out (Some d) (length d) = Inr (t, 0)"
  using assms by (simp add: base64_bits_to_64_text base64Encode_text length_bits_to_64_loop)

theorem encoders_agree_witness:
  "\<exists>t. base64_bits_to_64 (replicate 10 NUL) [1, 2, 0xFF, 7] 4 = Inr t \<and>
       base64Encode (replicate 10 NUL) (Some [1, 2, 0xFF, 7]) 4 = Inr (t, 0)"
proof -
  have "length [1, 2, 0xFF, 7 :: byte] = 4" by simp
  then show ?thesis using encoders_agree [of "[1, 2, 0xFF, 7]" "replicate 10 NUL"] by (simp only:) simp
qed

text \<open>
  C23. What the encoder writes is decoded to the data by the first decoder, which returns their number; empty
  data alone are not read back, their text is refused with \<open>- 1\<close>. The second decoder also writes the data,
  and behind them a zero byte for each padding character, which it counts.
\<close>

theorem base64_roundtrip:
  assumes "4 * ((length d + 2) div 3) < length txt" "3 * ((length d + 2) div 3) \<le> length out"
  shows "\<exists>t. base64_bits_to_64 txt d (int (length d)) = Inr t \<and>
           base64_64_to_bits out t = Inr (if d = [] then (out, - 1) else (d @ drop (length d) out, int (length d))) \<and>
           base64Decode t out =
             Inr (d @ replicate (3 * ((length d + 2) div 3) - length d) 0 @ drop (3 * ((length d + 2) div 3)) out,
                  int (3 * ((length d + 2) div 3)))"
proof -
  have "length d \<le> length out" using assms(2) by simp
  then show ?thesis using assms by (simp add: base64_bits_to_64_text length_bits_to_64_loop decode_text decode2_text)
qed

theorem base64_roundtrip_witness:
  "\<exists>t. base64_bits_to_64 (replicate 10 NUL) [1, 2, 0xFF, 7] 4 = Inr t \<and>
       base64_64_to_bits (replicate 8 9) t = Inr ([1, 2, 0xFF, 7] @ replicate 4 9, 4) \<and>
       base64Decode t (replicate 8 9) = Inr ([1, 2, 0xFF, 7] @ replicate 2 0 @ replicate 2 9, 6)"
proof -
  have "length [1, 2, 0xFF, 7 :: byte] = 4" "[1, 2, 0xFF, 7 :: byte] \<noteq> []" by simp_all
  then show ?thesis using base64_roundtrip [of "[1, 2, 0xFF, 7]" "replicate 10 NUL" "replicate 8 9"]
    by (simp only: if_False) simp
qed

end
