(* ===== verification/Author.thy ===== *)
theory Author
  imports CString "HOL-Library.Signed_Division" "HOL-Library.Multiset"
begin

text \<open>
  Licences, topics and stored keys of \<^verbatim>\<open>src/ExtLibs/MyAuthor/author.c\<close>: a text and its check sum are
  written with the letters exchanged according to a book of 64 characters, which the number of a device
  shuffles.

  The lemmas show that every shuffled book still holds the 64 characters once each, so that decoding inverts
  encoding on every text, and that a key comes back.
\<close>

section \<open>The books\<close>

record AuthorBook_T =
  book_c :: char
  book_x :: nat
  book_y :: nat

definition g_book :: "AuthorBook_T list" where
  "g_book = map (\<lambda>j. \<lparr>book_c = ''0123456789abcdefghijklmnopqrstuvwxyzABCDEFGHIJKLMNOPQRSTUVWXYZ_-'' ! j,
     book_x = j div 8, book_y = j mod 8\<rparr>) [0..<64]"

text \<open>\<^verbatim>\<open>char book[8][9]\<close>, as both functions initialise it: eight rows, each with its NUL.\<close>

definition book_init :: "string list" where
  "book_init = map (\<lambda>r. r @ [NUL])
     [''01234567'', ''89abcdef'', ''ghijklmn'', ''opqrtsuv'', ''wxyzABCD'', ''EFGHIJKL'', ''MNOPQRST'', ''UVWXYZ_-'']"

definition set_cell :: "string list \<Rightarrow> nat \<Rightarrow> nat \<Rightarrow> char \<Rightarrow> string list" where
  "set_cell book x y c = book[x := (book ! x)[y := c]]"

definition swap_cells :: "nat \<Rightarrow> nat \<Rightarrow> nat \<Rightarrow> nat \<Rightarrow> string list \<Rightarrow> string list" where
  "swap_cells x y x' y' book = (let c = book ! x ! y; book = set_cell book x y (book ! x' ! y') in set_cell book x' y' c)"

definition ExchangeBookX :: "string list \<Rightarrow> int \<Rightarrow> fault + string list" where
  "ExchangeBookX book x = (if x < 0 \<or> x \<ge> 8 then Inl OutOfBounds
     else Inr (fold (\<lambda>i. swap_cells (nat x) i 0 i) [0..<8] book))"

definition ExchangeBookY :: "string list \<Rightarrow> int \<Rightarrow> fault + string list" where
  "ExchangeBookY book y = (if y < 0 \<or> y \<ge> 8 then Inl OutOfBounds
     else Inr (fold (\<lambda>i. swap_cells i (nat y) i 0) [0..<8] book))"

text \<open>\<^verbatim>\<open>port\<close> is an \<^verbatim>\<open>int\<close>, divided towards zero.\<close>

definition book_index :: "int \<Rightarrow> int \<Rightarrow> int" where
  "book_index port k = (port sdiv k) smod 6 + 1"

definition ExBook2Port :: "string list \<Rightarrow> int \<Rightarrow> fault + string list" where
  "ExBook2Port book port =
     rbind (ExchangeBookX book (book_index port 1000)) (\<lambda>book.
     rbind (ExchangeBookY book (book_index port 100)) (\<lambda>book.
     rbind (ExchangeBookX book (book_index port 10)) (\<lambda>book.
     rbind (ExchangeBookY book (book_index port 1)) (\<lambda>book.
     rbind (ExchangeBookX book (book_index port 7)) (\<lambda>book.
     rbind (ExchangeBookY book (book_index port 13)) (\<lambda>book.
     rbind (ExchangeBookX book 1) (\<lambda>book.
     rbind (ExchangeBookY book 2) (\<lambda>book.
     rbind (ExchangeBookX book 3) (\<lambda>book.
     rbind (ExchangeBookY book 4) (\<lambda>book.
     rbind (ExchangeBookX book 5) (\<lambda>book.
     rbind (ExchangeBookY book 6) (\<lambda>book.
     rbind (ExchangeBookX book 7) (\<lambda>book.
     rbind (ExchangeBookY book (book_index port 1000)) (\<lambda>book.
     rbind (ExchangeBookX book (book_index port 100)) (\<lambda>book.
     rbind (ExchangeBookY book (book_index port 10)) (\<lambda>book.
     rbind (ExchangeBookX book (book_index port 1)) (\<lambda>book.
     rbind (ExchangeBookY book (book_index port 7)) (\<lambda>book.
     ExchangeBookX book (book_index port 13)))))))))))))))))))"

section \<open>Texts\<close>

definition encry_char :: "string list \<Rightarrow> char \<Rightarrow> char" where
  "encry_char book c = (case find (\<lambda>e. c = book_c e) g_book of None \<Rightarrow> c | Some e \<Rightarrow> book ! book_x e ! book_y e)"

definition decry_char :: "string list \<Rightarrow> char \<Rightarrow> char" where
  "decry_char book c = (case find (\<lambda>j. c = book ! (j div 8) ! (j mod 8)) [0..<64] of None \<Rightarrow> c | Some j \<Rightarrow> book_c (g_book ! j))"

text \<open>
  The loops run while the position is below \<^verbatim>\<open>strlen\<close>; no cell they read is NUL, so that it does not change.
\<close>

definition encryoptionstring :: "string \<Rightarrow> string list \<Rightarrow> fault + string" where
  "encryoptionstring name book = rbind (c_str name 0) (\<lambda>t. put_all name 0 (map (encry_char book) t))"

definition decodeoptionstring :: "string \<Rightarrow> string list \<Rightarrow> fault + string" where
  "decodeoptionstring name book = rbind (c_str name 0) (\<lambda>t. put_all name 0 (map (decry_char book) t))"

text \<open>The check sum adds the characters as the signed type \<^verbatim>\<open>char\<close>.\<close>

definition schar :: "char \<Rightarrow> int" where
  "schar c = (let k = of_char c in if k \<ge> 128 then k - 256 else k)"

definition crc_sum :: "string \<Rightarrow> int" where
  "crc_sum t = sum_list (map schar t)"

definition author :: "string \<Rightarrow> int \<Rightarrow> string \<Rightarrow> fault + string" where
  "author name port out =
     rbind (c_str name 0) (\<lambda>t.
     rbind (sprintf out (t @ ''_crc_'' @ print_int (crc_sum t))) (\<lambda>out.
     rbind (ExBook2Port book_init port) (\<lambda>book. encryoptionstring out book)))"

text \<open>\<^verbatim>\<open>paresAuthor\<close> returns the buffer \<open>name\<close> and its result; it writes no NUL behind the name.\<close>

definition paresAuthor :: "string \<Rightarrow> int \<Rightarrow> string \<Rightarrow> fault + string \<times> int" where
  "paresAuthor authorstr port name =
     rbind (ExBook2Port book_init port) (\<lambda>book.
     rbind (c_str authorstr 0) (\<lambda>a.
     rbind (sprintf (replicate 256 NUL) a) (\<lambda>out.
     rbind (decodeoptionstring out book) (\<lambda>out.
     rbind (c_str out 0) (\<lambda>t. case strstr t ''_crc_'' of None \<Rightarrow> Inr (name, - 1)
       | Some p \<Rightarrow> rbind (put_all name 0 (take p t)) (\<lambda>name.
           rbind (c_str name 0) (\<lambda>n. Inr (name, if crc_sum n \<noteq> atoi (drop (p + 5) t) then - 1 else 0))))))))"

section \<open>The callers\<close>

text \<open>Without the first \<open>-\<close> the pointer is 1, without the second one the length to copy is not one of a buffer.\<close>

definition GetUUIDNonce :: "string \<Rightarrow> fault + int" where
  "GetUUIDNonce uuid = rbind (c_str uuid 0) (\<lambda>u. case strstr u ''-'' of None \<Rightarrow> Inl BadPointer
     | Some k \<Rightarrow> let ps = drop (k + 1) u in case strstr ps ''-'' of None \<Rightarrow> Inl BadPointer
         | Some e \<Rightarrow> rbind (put_all (replicate 8 NUL) 0 (take e ps)) (\<lambda>m. rbind (c_str m 0) (\<lambda>t. Inr (atoi t))))"

definition GetLicense :: "string \<Rightarrow> string \<Rightarrow> fault + string \<times> int" where
  "GetLicense uuid license = rbind (GetUUIDNonce uuid) (\<lambda>n. rbind (author uuid (n * 2) license) (\<lambda>l. Inr (l, 0)))"

text \<open>\<^verbatim>\<open>GetTopic\<close> falls off its end, its result is not defined.\<close>

definition GetTopic :: "string \<Rightarrow> string \<Rightarrow> fault + string" where
  "GetTopic uuid topic = rbind (GetUUIDNonce uuid) (\<lambda>n. author uuid (n * 4) topic)"

definition GetEcryPublicKey :: "string \<Rightarrow> string \<Rightarrow> string \<Rightarrow> fault + string \<times> int" where
  "GetEcryPublicKey key uuid eryKey = rbind (GetUUIDNonce uuid) (\<lambda>n. rbind (author key (n * 2) eryKey) (\<lambda>k. Inr (k, 0)))"

definition GetDeCodePublicKey :: "string \<Rightarrow> string \<Rightarrow> string \<Rightarrow> fault + string \<times> int" where
  "GetDeCodePublicKey eryKey uuid key =
     rbind (GetUUIDNonce uuid) (\<lambda>n. rbind (paresAuthor eryKey (n * 2) key) (\<lambda>(k, _). Inr (k, 0)))"

text \<open>\<open>rnd k\<close> is what the \<open>k\<close>-th call of \<^verbatim>\<open>rand\<close> returns.\<close>

definition randstr :: string where
  "randstr = ''abcdefghijklmnopqrstuvwxyz0123456789ABCDEFGHIJKLMNOPQRSTUVWXYZ''"

fun rand_chars :: "(nat \<Rightarrow> nat) \<Rightarrow> nat \<Rightarrow> nat list \<Rightarrow> string \<Rightarrow> fault + string" where
  "rand_chars rnd k [] uuid = Inr uuid"
| "rand_chars rnd k (i # is) uuid = rbind (put_all uuid i [randstr ! (rnd k mod 62), NUL]) (rand_chars rnd (k + 1) is)"

fun rand_strings :: "(nat \<Rightarrow> nat) \<Rightarrow> nat \<Rightarrow> nat \<Rightarrow> nat list \<Rightarrow> string \<Rightarrow> string list \<Rightarrow> fault + string list" where
  "rand_strings rnd k uuidLen [] uuid outUuid = Inr outUuid"
| "rand_strings rnd k uuidLen (j # js) uuid outUuid =
     rbind (rand_chars rnd k [0..<uuidLen] uuid) (\<lambda>uuid. rbind (c_str uuid 0) (\<lambda>t.
     if j < length outUuid then rbind (snprintf (outUuid ! j) 64 t) (\<lambda>o'.
       rand_strings rnd (k + uuidLen) uuidLen js uuid (outUuid[j := o']))
     else Inl OutOfBounds))"

definition GetRandString :: "(nat \<Rightarrow> nat) \<Rightarrow> int \<Rightarrow> int \<Rightarrow> string list \<Rightarrow> fault + string list" where
  "GetRandString rnd uuidcont uuidLen outUuid = rand_strings rnd 0 (nat uuidLen) [0..<nat uuidcont] (replicate 64 NUL) outUuid"

section \<open>Shuffled books\<close>

definition cells :: "string list \<Rightarrow> string" where
  "cells book = map (\<lambda>j. book ! (j div 8) ! (j mod 8)) [0..<64]"

definition book_ok :: "string list \<Rightarrow> bool" where
  "book_ok book \<longleftrightarrow> length book = 8 \<and> (\<forall>r \<in> set book. length r = 9) \<and> mset (cells book) = mset (map book_c g_book)"

lemma g_book_distinct: "distinct (map book_c g_book)"
  by code_simp

lemma book_init_ok: "book_ok book_init"
  unfolding book_ok_def by (intro conjI) code_simp+

lemma length_cells [simp]: "length (cells book) = 64"
  by (simp add: cells_def)

lemma cells_nth: "x < 8 \<Longrightarrow> y < 8 \<Longrightarrow> cells book ! (8 * x + y) = book ! x ! y"
  by (simp add: cells_def)

lemma cell_position: "y < 8 \<Longrightarrow> 8 * x + y = j \<longleftrightarrow> x = j div 8 \<and> y = j mod (8 :: nat)"
  by auto

lemma cells_set_cell:
  assumes "length book = 8" "\<forall>r \<in> set book. length r = 9" "x < 8" "y < 8"
  shows "cells (set_cell book x y c) = (cells book)[8 * x + y := c]"
proof (rule nth_equalityI)
  fix j assume "j < length (cells (set_cell book x y c))"
  then have j: "j < 64" "j = 8 * (j div 8) + j mod 8" "j div 8 < 8" by auto
  have "length (book ! x) = 9" using assms by simp
  then show "cells (set_cell book x y c) ! j = (cells book)[8 * x + y := c] ! j"
    using j assms by (cases "j div 8 = x \<and> j mod 8 = y") (auto simp: cells_def set_cell_def nth_list_update cell_position)
qed simp

lemma set_cell_shape:
  assumes "length book = 8" "\<forall>r \<in> set book. length r = 9" "x < 8"
  shows "length (set_cell book x y c) = 8" "\<forall>r \<in> set (set_cell book x y c). length r = 9"
proof -
  show "length (set_cell book x y c) = 8" using assms by (simp add: set_cell_def)
  have "length ((book ! x)[y := c]) = 9" using assms by simp
  then show "\<forall>r \<in> set (set_cell book x y c). length r = 9"
    using assms set_update_subset_insert [of book x "(book ! x)[y := c]"] by (auto simp: set_cell_def)
qed

lemma swap_cells_ok:
  assumes "book_ok book" "x < 8" "y < 8" "x' < 8" "y' < 8"
  shows "book_ok (swap_cells x y x' y' book)"
proof -
  let ?b = "set_cell book x y (book ! x' ! y')"
  have b: "length book = 8" "\<forall>r \<in> set book. length r = 9" using assms(1) by (auto simp: book_ok_def)
  have "cells (swap_cells x y x' y' book) = (cells book)[8 * x + y := cells book ! (8 * x' + y'), 8 * x' + y' := cells book ! (8 * x + y)]"
    using assms b by (simp add: swap_cells_def Let_def cells_set_cell set_cell_shape cells_nth)
  moreover have "mset ((cells book)[8 * x + y := cells book ! (8 * x' + y'), 8 * x' + y' := cells book ! (8 * x + y)]) = mset (cells book)"
    using assms by (intro mset_swap) auto
  ultimately show ?thesis using assms b set_cell_shape(1,2) [OF set_cell_shape(1,2) [OF b]]
    by (simp add: book_ok_def swap_cells_def Let_def)
qed

lemma fold_swap_ok:
  assumes "\<And>i b. i \<in> set is \<Longrightarrow> book_ok b \<Longrightarrow> book_ok (f i b)"
  shows "book_ok book \<Longrightarrow> book_ok (fold f is book)"
  using assms by (induction "is" arbitrary: book) auto

lemma Exchange_ok:
  assumes "book_ok book" "0 \<le> k" "k < 8"
  shows "\<exists>b. ExchangeBookX book k = Inr b \<and> book_ok b" "\<exists>b. ExchangeBookY book k = Inr b \<and> book_ok b"
  using assms by (auto simp: ExchangeBookX_def ExchangeBookY_def intro!: fold_swap_ok swap_cells_ok)

lemma book_index_range: "0 \<le> port \<Longrightarrow> 0 < k \<Longrightarrow> 0 \<le> book_index port k \<and> book_index port k < 8"
  by (simp add: book_index_def signed_divide_int_eq_divide_int smod_mod_positive pos_imp_zdiv_nonneg_iff)

text \<open>One exchange in a chain of them.\<close>

lemma Exchange_step:
  assumes "book_ok book" "0 \<le> k" "k < 8" "\<And>b. book_ok b \<Longrightarrow> \<exists>c. f b = Inr c \<and> book_ok c"
  shows "\<exists>c. rbind (ExchangeBookX book k) f = Inr c \<and> book_ok c" "\<exists>c. rbind (ExchangeBookY book k) f = Inr c \<and> book_ok c"
  using assms(4) Exchange_ok [OF assms(1-3)] by auto

lemma ExBook2Port_ok:
  assumes "0 \<le> port" "book_ok book"
  shows "\<exists>b. ExBook2Port book port = Inr b \<and> book_ok b"
  unfolding ExBook2Port_def using assms(2)
  by (intro Exchange_step Exchange_ok; (assumption | simp add: book_index_range assms(1)))

section \<open>Decoding inverts encoding\<close>

lemma find_upt:
  assumes "P j" "j < n" "\<And>i. i < n \<Longrightarrow> P i \<Longrightarrow> i = j"
  shows "find P [0..<n] = Some (j :: nat)"
proof (cases "find P [0..<n]")
  case None
  then show ?thesis using assms(1,2) by (auto simp: find_None_iff)
next
  case (Some i)
  then show ?thesis using assms(3) [of i] by (auto dest!: find_SomeD)
qed

lemma find_nth: "distinct xs \<Longrightarrow> j < length xs \<Longrightarrow> find (\<lambda>i. xs ! j = xs ! i) [0..<length xs] = Some j"
  by (rule find_upt) (auto simp: nth_eq_iff_index_eq)

lemma find_upt_None: "c \<notin> set xs \<Longrightarrow> find (\<lambda>i. c = xs ! i) [0..<length xs] = None"
  by (auto simp: find_None_iff)

lemma find_map_upt: "find P (map f xs) = map_option f (find (\<lambda>j. P (f j)) xs)"
  by (induction xs) auto

text \<open>The tables as lists of 64 characters.\<close>

lemma length_g_book [simp]: "length g_book = 64"
  by (simp add: g_book_def)

lemma find_less_cong: "(\<And>j. j < n \<Longrightarrow> P j = Q j) \<Longrightarrow> find P [0..<n] = find Q [0..<n]"
  by (rule find_cong) auto

lemma g_book_nth: "j < 64 \<Longrightarrow> book_x (g_book ! j) = j div 8 \<and> book_y (g_book ! j) = j mod 8"
  by (simp add: g_book_def)

lemma encry_char_cells:
  "encry_char book c = (case find (\<lambda>j. c = map book_c g_book ! j) [0..<64] of None \<Rightarrow> c | Some j \<Rightarrow> cells book ! j)"
proof -
  have "find (\<lambda>e. c = book_c e) (map ((!) g_book) [0..<64]) =
      map_option ((!) g_book) (find (\<lambda>j. c = map book_c g_book ! j) [0..<64])"
    unfolding find_map_upt by (rule arg_cong [where f = "map_option _"], rule find_less_cong) simp
  moreover have "map ((!) g_book) [0..<64] = g_book" using map_nth [of g_book] by simp
  ultimately show ?thesis
    by (cases "find (\<lambda>j. c = map book_c g_book ! j) [0..<64]")
      (auto simp: encry_char_def cells_def g_book_nth dest!: find_SomeD)
qed

lemma decry_char_cells:
  "decry_char book c = (case find (\<lambda>j. c = cells book ! j) [0..<64] of None \<Rightarrow> c | Some j \<Rightarrow> map book_c g_book ! j)"
proof -
  let ?B = "\<lambda>j. c = book ! (j div 8) ! (j mod 8)"
  have e: "find (\<lambda>j. c = cells book ! j) [0..<64] = find ?B [0..<64]"
    by (rule find_less_cong) (simp add: cells_def)
  show ?thesis
  proof (cases "find ?B [0..<64]")
    case None
    then show ?thesis unfolding decry_char_def e by simp
  next
    case (Some j)
    then have "j < 64" using find_SomeD [OF Some] by simp
    then show ?thesis unfolding decry_char_def e Some by simp
  qed
qed

lemma book_letters:
  assumes "book_ok book"
  shows "distinct (cells book)" "set (cells book) = set (map book_c g_book)"
  using assms g_book_distinct unfolding book_ok_def by (metis mset_eq_imp_distinct_iff, metis mset_eq_setD)

lemma decry_encry:
  assumes "book_ok book"
  shows "decry_char book (encry_char book c) = c"
proof (cases "c \<in> set (map book_c g_book)")
  case True
  then obtain j where j: "j < 64" "c = map book_c g_book ! j" by (auto simp: in_set_conv_nth)
  have "encry_char book c = cells book ! j"
    using find_nth [OF g_book_distinct, of j] j by (simp add: encry_char_cells)
  then show ?thesis
    using find_nth [OF book_letters(1) [OF assms], of j] j by (simp add: decry_char_cells)
next
  case False
  then show ?thesis
    using find_upt_None [OF False] find_upt_None [of c "cells book"] book_letters(2) [OF assms]
    by (simp add: encry_char_cells decry_char_cells)
qed

lemma letters_not_NUL: "NUL \<notin> set (map book_c g_book)"
  by code_simp

lemma encry_not_NUL:
  assumes "book_ok book" "c \<noteq> NUL"
  shows "encry_char book c \<noteq> NUL"
  using assms letters_not_NUL book_letters(2) [OF assms(1)]
  by (cases "find (\<lambda>j. c = map book_c g_book ! j) [0..<64]")
    (auto simp: encry_char_cells dest!: find_SomeD, metis length_cells nth_mem)

lemma map_decry_encry: "book_ok book \<Longrightarrow> map (decry_char book) (map (encry_char book) t) = t"
  by (simp add: decry_encry map_idI)

text \<open>Both loops on a buffer that begins with a text.\<close>

lemma encryoptionstring_text:
  "NUL \<notin> set t \<Longrightarrow> encryoptionstring (t @ NUL # z) book = Inr (map (encry_char book) t @ NUL # z)"
  by (simp add: encryoptionstring_def put_all_fits)

lemma decodeoptionstring_text:
  "NUL \<notin> set t \<Longrightarrow> decodeoptionstring (t @ NUL # z) book = Inr (map (decry_char book) t @ NUL # z)"
  by (simp add: decodeoptionstring_def put_all_fits)

lemma encry_text_no_NUL: "book_ok book \<Longrightarrow> NUL \<notin> set t \<Longrightarrow> NUL \<notin> set (map (encry_char book) t)"
  by (simp add: image_iff) (metis encry_not_NUL)

text \<open>What precedes the separator when it does not begin earlier.\<close>

lemma strstr_extend:
  assumes "strstr (t @ p) p = Some (length t)"
  shows "strstr (t @ p @ d) p = Some (length t)"
proof (rule strstr_first, intro allI impI)
  fix j assume j: "j < length t"
  then have "\<not> is_prefix p (drop j (t @ p))" using strstr_Some [OF assms] by blast
  then show "\<not> is_prefix p (drop j (t @ p @ d))"
    using j by (simp add: is_prefix_take)
qed

definition author_text :: "string \<Rightarrow> string" where
  "author_text t = t @ ''_crc_'' @ print_int (crc_sum t)"

lemma author_text_no_NUL: "NUL \<notin> set t \<Longrightarrow> NUL \<notin> set (author_text t)"
  using print_int_no_NUL by (auto simp: author_text_def)

lemma author_text_written:
  "author name port out = rbind (c_str name 0) (\<lambda>t. rbind (sprintf out (author_text t)) (\<lambda>out.
     rbind (ExBook2Port book_init port) (encryoptionstring out)))"
  by (simp only: author_def author_text_def)

lemma author_writes:
  assumes "c_str name 0 = Inr t" "length (author_text t) < length out" "0 \<le> port" "NUL \<notin> set t"
  shows "\<exists>book z. ExBook2Port book_init port = Inr book \<and> book_ok book \<and>
           author name port out = Inr (map (encry_char book) (author_text t) @ NUL # z)"
proof -
  obtain book where b: "ExBook2Port book_init port = Inr book" "book_ok book"
    using ExBook2Port_ok [OF assms(3) book_init_ok] by blast
  have "author name port out = encryoptionstring (author_text t @ NUL # drop (Suc (length (author_text t))) out) book"
    using assms b by (simp add: author_text_written sprintf_fits)
  then show ?thesis using b encryoptionstring_text [OF author_text_no_NUL [OF assms(4)]] by auto
qed

lemma c_str_no_NUL: "c_str m k = Inr t \<Longrightarrow> NUL \<notin> set t"
  by (auto simp: c_str_def split: if_splits dest: set_takeWhileD)

lemma paresAuthor_reads:
  assumes "ExBook2Port book_init port = Inr book" "book_ok book" "NUL \<notin> set t" "length (author_text t) < 256"
    "strstr (t @ ''_crc_'') ''_crc_'' = Some (length t)" "length t < length name" "name ! length t = NUL"
  shows "paresAuthor (map (encry_char book) (author_text t) @ NUL # z) port name = Inr (t @ drop (length t) name, 0)"
proof -
  let ?a = "author_text t" and ?r = "drop (Suc (length t)) name"
  have n: "drop (length t) name = NUL # ?r" using assms(6,7) by (metis Cons_nth_drop_Suc)
  have "sprintf (replicate 256 NUL) (map (encry_char book) ?a) = Inr (map (encry_char book) ?a @ NUL # replicate (255 - length ?a) NUL)"
    using assms(4) by (subst sprintf_fits) simp_all
  moreover have "decodeoptionstring (map (encry_char book) ?a @ NUL # replicate (255 - length ?a) NUL) book
      = Inr (?a @ NUL # replicate (255 - length ?a) NUL)"
    using decodeoptionstring_text [OF encry_text_no_NUL [OF assms(2) author_text_no_NUL [OF assms(3)]]] map_decry_encry [OF assms(2)]
    by simp
  moreover have "strstr ?a ''_crc_'' = Some (length t)"
    unfolding author_text_def by (rule strstr_extend [OF assms(5)])
  moreover have "put_all name 0 (take (length t) ?a) = Inr (t @ NUL # ?r)"
    using assms(6) n by (simp add: put_all_fits author_text_def)
  moreover have "atoi (drop (length t + 5) ?a) = crc_sum t"
    using atoi_print_int [of "[]" "crc_sum t"] by (simp add: author_text_def)
  ultimately show ?thesis
    using assms(1,3) encry_text_no_NUL [OF assms(2) author_text_no_NUL [OF assms(3)]] author_text_no_NUL [OF assms(3)] n
    by (simp add: paresAuthor_def)
qed

section \<open>The key comes back\<close>

lemma c_isdigit_ge: "c_isdigit c \<Longrightarrow> 48 \<le> (of_char c :: int)"
  by (metis c_isdigit_def of_nat_of_char of_nat_le_iff of_nat_numeral)

lemma fold_digits_nonneg: "\<forall>c \<in> set ds. 0 \<le> g c \<Longrightarrow> 0 \<le> n \<Longrightarrow> 0 \<le> fold (\<lambda>c n. 10 * n + g c) ds (n :: int)"
  by (induction ds arbitrary: n) simp_all

lemma digits_val_nonneg: "0 \<le> digits_val (takeWhile c_isdigit t)"
  unfolding digits_val_def by (rule fold_digits_nonneg) (use c_isdigit_ge in \<open>auto dest!: set_takeWhileD\<close>)

lemma atoi_nonneg: "CHR ''-'' \<notin> set t \<Longrightarrow> 0 \<le> atoi t"
proof -
  assume "CHR ''-'' \<notin> set t"
  then have m: "CHR ''-'' \<notin> set (dropWhile c_isspace t)" using set_dropWhileD by fast
  show ?thesis
  proof (cases "dropWhile c_isspace t")
    case (Cons c cs)
    then have "c \<noteq> CHR ''-''" using m by auto
    then show ?thesis using Cons digits_val_nonneg [of cs] digits_val_nonneg [of "c # cs"] by (simp add: atoi_def del: takeWhile.simps)
  next
    case Nil
    then show ?thesis unfolding atoi_def Nil by simp
  qed
qed

lemma strstr_one_absent: "strstr s [c] = Some k \<Longrightarrow> c \<notin> set (take k s)"
  by (induction s arbitrary: k) (auto split: if_splits)

lemma GetUUIDNonce_nonneg:
  assumes "GetUUIDNonce uuid = Inr n"
  shows "0 \<le> n"
proof -
  obtain u where u: "c_str uuid 0 = Inr u" using assms by (auto simp: GetUUIDNonce_def outcome_iff)
  with assms obtain k where k: "strstr u ''-'' = Some k" by (cases "strstr u ''-''") (auto simp: GetUUIDNonce_def)
  with assms u obtain e where e: "strstr (drop (k + 1) u) ''-'' = Some e"
    by (cases "strstr (drop (k + 1) u) ''-''") (auto simp: GetUUIDNonce_def)
  with assms u k obtain m t where m: "put_all (replicate 8 NUL) 0 (take e (drop (k + 1) u)) = Inr m" "c_str m 0 = Inr t" "n = atoi t"
    by (auto simp: GetUUIDNonce_def outcome_iff)
  have "CHR ''-'' \<notin> set m" using m(1) strstr_one_absent [OF e] by (auto simp: put_all_def split: if_splits)
  then have "CHR ''-'' \<notin> set t" using m(2) by (auto simp: c_str_def split: if_splits dest: set_takeWhileD)
  then show ?thesis using m(3) by (simp add: atoi_nonneg)
qed

text \<open>
  C24. The keys stored by \<^verbatim>\<open>GetEcryPublicKey\<close> come back: with room in the three buffers, \<^verbatim>\<open>GetDeCodePublicKey\<close>
  with the same device number returns the key, whatever its characters, provided the separator first occurs
  behind it and a NUL stands behind its place in the receiving buffer.
\<close>

theorem public_key_roundtrip:
  assumes "GetUUIDNonce uuid = Inr n" "c_str key 0 = Inr t" "strstr (t @ ''_crc_'') ''_crc_'' = Some (length t)"
    "length (t @ ''_crc_'' @ print_int (crc_sum t)) < 256" "length (t @ ''_crc_'' @ print_int (crc_sum t)) < length eryKey"
    "length t < length out" "out ! length t = NUL"
  shows "\<exists>e k. GetEcryPublicKey key uuid eryKey = Inr (e, 0) \<and> GetDeCodePublicKey e uuid out = Inr (k, 0) \<and> c_str k 0 = Inr t"
proof -
  have t: "NUL \<notin> set t" by (rule c_str_no_NUL [OF assms(2)])
  have p: "0 \<le> n * 2" using GetUUIDNonce_nonneg [OF assms(1)] by simp
  obtain book z where b: "ExBook2Port book_init (n * 2) = Inr book" "book_ok book"
    "author key (n * 2) eryKey = Inr (map (encry_char book) (author_text t) @ NUL # z)"
    using author_writes [OF assms(2) assms(5) [folded author_text_def] p t] by blast
  have "paresAuthor (map (encry_char book) (author_text t) @ NUL # z) (n * 2) out = Inr (t @ drop (length t) out, 0)"
    by (rule paresAuthor_reads [OF b(1,2) t assms(4) [folded author_text_def] assms(3,6,7)])
  moreover have "c_str (t @ drop (length t) out) 0 = Inr t"
    using t assms(6,7) by (metis Cons_nth_drop_Suc c_str_at)
  ultimately show ?thesis using assms(1) b(3) by (simp add: GetEcryPublicKey_def GetDeCodePublicKey_def)
qed

theorem public_key_roundtrip_witness:
  "\<exists>e k. GetEcryPublicKey (''Key_9'' @ [NUL]) (''INEW-001234-UUYTG'' @ [NUL]) (replicate 64 NUL) = Inr (e, 0) \<and>
         GetDeCodePublicKey e (''INEW-001234-UUYTG'' @ [NUL]) (replicate 16 NUL) = Inr (k, 0) \<and> c_str k 0 = Inr ''Key_9''"
proof (rule public_key_roundtrip)
  show "GetUUIDNonce (''INEW-001234-UUYTG'' @ [NUL]) = Inr 1234" by code_simp
  show "c_str (''Key_9'' @ [NUL]) 0 = Inr ''Key_9''" by code_simp
  show "strstr (''Key_9'' @ ''_crc_'') ''_crc_'' = Some (length ''Key_9'')" by code_simp
  show "length (''Key_9'' @ ''_crc_'' @ print_int (crc_sum ''Key_9'')) < 256" by code_simp
  show "length (''Key_9'' @ ''_crc_'' @ print_int (crc_sum ''Key_9'')) < length (replicate 64 NUL)" by code_simp
  show "length ''Key_9'' < length (replicate 16 NUL)" by code_simp
  show "replicate 16 NUL ! length ''Key_9'' = NUL" by code_simp
qed

end
