(* ===== verification/UsrMem.thy ===== *)
theory UsrMem
  imports CString Registry
begin

text \<open>
  Memory arenas: the circular lists of \<^verbatim>\<open>src/ExtLibs/List/list.c\<close> and the allocations of
  \<^verbatim>\<open>src/ExtLibs/UsrMem/usrmem.c\<close>, which hang every block on such a list and free them together.

  Nodes and blocks live in two stores; a node is named by the address of its container, which
  \<^verbatim>\<open>node_to_item\<close> computes. The addresses that \<^verbatim>\<open>malloc\<close> returns are arguments.

  The lemmas show that the pointers implement the list \<open>cdl\<close>, and that an arena gives back exactly what
  was allocated in it.
\<close>

section \<open>Circular lists\<close>

record MemHandle_T =
  mem_addr :: nat
  nextp :: nat
  prevp :: nat

type_synonym nodes = "nat \<rightharpoonup> MemHandle_T"

definition set_nextp :: "nodes \<Rightarrow> nat \<Rightarrow> nat \<Rightarrow> fault + nodes" where
  "set_nextp h p q = rbind (obj_load h p) (\<lambda>n. Inr (h(p \<mapsto> n\<lparr>nextp := q\<rparr>)))"

definition set_prevp :: "nodes \<Rightarrow> nat \<Rightarrow> nat \<Rightarrow> fault + nodes" where
  "set_prevp h p q = rbind (obj_load h p) (\<lambda>n. Inr (h(p \<mapsto> n\<lparr>prevp := q\<rparr>)))"

definition list_init :: "nodes \<Rightarrow> nat \<Rightarrow> fault + nodes" where
  "list_init h node = rbind (set_nextp h node node) (\<lambda>h. set_prevp h node node)"

definition list_add_tail :: "nodes \<Rightarrow> nat \<Rightarrow> nat \<Rightarrow> fault + nodes" where
  "list_add_tail h head item =
     rbind (set_nextp h item head) (\<lambda>h.
     rbind (obj_load h head) (\<lambda>hd.
     rbind (set_prevp h item (prevp hd)) (\<lambda>h.
     rbind (obj_load h head) (\<lambda>hd.
     rbind (set_nextp h (prevp hd) item) (\<lambda>h.
     set_prevp h head item)))))"

definition list_remove :: "nodes \<Rightarrow> nat \<Rightarrow> fault + nodes" where
  "list_remove h item =
     rbind (obj_load h item) (\<lambda>i.
     rbind (set_prevp h (nextp i) (prevp i)) (\<lambda>h.
     rbind (obj_load h item) (\<lambda>i.
     set_nextp h (prevp i) (nextp i))))"

section \<open>Arenas\<close>

record UsrMem_S =
  nodes :: nodes
  blocks :: "nat \<rightharpoonup> string"

text \<open>\<open>np\<close> and \<open>bp\<close> are the addresses of the node and the block. \<^verbatim>\<open>memset\<close> of NULL is a fault.\<close>

definition CreateMemHandle :: "UsrMem_S \<Rightarrow> nat \<Rightarrow> fault + UsrMem_S \<times> nat" where
  "CreateMemHandle s np =
     (if np = 0 then Inl NullDeref
      else rbind (list_init ((nodes s)(np \<mapsto> \<lparr>mem_addr = 0, nextp = 0, prevp = 0\<rparr>)) np) (\<lambda>h.
        Inr (s\<lparr>nodes := h\<rparr>, np)))"

definition usr_malloc :: "UsrMem_S \<Rightarrow> nat \<Rightarrow> nat \<Rightarrow> nat \<Rightarrow> int \<Rightarrow> fault + UsrMem_S \<times> nat" where
  "usr_malloc s np bp handle len =
     rbind (CreateMemHandle s np) (\<lambda>(s, newHandle).
     rbind (if bp = 0 \<and> len \<noteq> 0 then Inl NullDeref
            else Inr (if bp = 0 then s else s\<lparr>blocks := (blocks s)(bp \<mapsto> replicate (nat len) NUL)\<rparr>)) (\<lambda>s.
     rbind (obj_load (nodes s) newHandle) (\<lambda>n.
     rbind (list_add_tail ((nodes s)(newHandle \<mapsto> n\<lparr>mem_addr := bp\<rparr>)) handle newHandle) (\<lambda>h.
     Inr (s\<lparr>nodes := h\<rparr>, bp)))))"

text \<open>One turn of the loop that frees: the next node is read after the current one has been taken off.\<close>

definition usr_free_turn :: "UsrMem_S \<Rightarrow> nat \<Rightarrow> fault + UsrMem_S \<times> nat" where
  "usr_free_turn s node =
     rbind (obj_load (nodes s) node) (\<lambda>tmpHandle.
     rbind (if mem_addr tmpHandle \<noteq> 0
            then rbind (obj_load (blocks s) (mem_addr tmpHandle)) (\<lambda>_.
                   Inr (s\<lparr>blocks := (blocks s)(mem_addr tmpHandle := None)\<rparr>))
            else Inr s) (\<lambda>s.
     rbind (list_remove (nodes s) node) (\<lambda>h.
     rbind (obj_load h node) (\<lambda>n. Inr (s\<lparr>nodes := h(node := None)\<rparr>, nextp n)))))"

partial_function (option) usr_free_loop :: "UsrMem_S \<Rightarrow> nat \<Rightarrow> nat \<Rightarrow> UsrMem_S run" where
  "usr_free_loop s handle node =
     (if node = handle then Some (Inr s)
      else case usr_free_turn s node of
        Inl e \<Rightarrow> Some (Inl e)
      | Inr (s, node) \<Rightarrow> usr_free_loop s handle node)"

definition usr_free :: "UsrMem_S \<Rightarrow> nat \<Rightarrow> (UsrMem_S \<times> nat) run" where
  "usr_free s handle =
     run_bind (Some (obj_load (nodes s) handle)) (\<lambda>hd.
     run_bind (usr_free_loop s handle (nextp hd)) (\<lambda>s.
     run_bind (Some (obj_load (nodes s) handle)) (\<lambda>_.
     Some (Inr (s\<lparr>nodes := (nodes s)(handle := None)\<rparr>, 0)))))"

text \<open>The text is written into the new block. \<^verbatim>\<open>snprintf\<close> gets the size of the block.\<close>

definition block_printf :: "UsrMem_S \<Rightarrow> nat \<Rightarrow> nat \<Rightarrow> string \<Rightarrow> fault + UsrMem_S \<times> nat" where
  "block_printf s p n t =
     rbind (obj_load (blocks s) p) (\<lambda>b. rbind (snprintf b n t) (\<lambda>b. Inr (s\<lparr>blocks := (blocks s)(p \<mapsto> b)\<rparr>, p)))"

definition usr_strdup :: "UsrMem_S \<Rightarrow> nat \<Rightarrow> nat \<Rightarrow> nat \<Rightarrow> string \<Rightarrow> fault + UsrMem_S \<times> nat" where
  "usr_strdup s np bp handle str =
     rbind (c_str str 0) (\<lambda>t.
     rbind (usr_malloc s np bp handle (int (length t) + 1)) (\<lambda>(s, p).
     if p = 0 then Inr (s, 0) else block_printf s p (length t + 1) t))"

definition usr_inttostr :: "UsrMem_S \<Rightarrow> nat \<Rightarrow> nat \<Rightarrow> nat \<Rightarrow> int \<Rightarrow> fault + UsrMem_S \<times> nat" where
  "usr_inttostr s np bp handle value =
     rbind (usr_malloc s np bp handle 32) (\<lambda>(s, p).
     if p = 0 then Inr (s, 0) else block_printf s p 32 (print_int value))"

text \<open>\<open>fmt\<close> is what \<^verbatim>\<open>str1\<close> makes of \<^verbatim>\<open>str2\<close>, and of a number for \<^verbatim>\<open>%lf\<close>.\<close>

definition usr_addstr_intostr :: "UsrMem_S \<Rightarrow> nat \<Rightarrow> nat \<Rightarrow> nat \<Rightarrow> nat \<Rightarrow> (string \<Rightarrow> string) \<Rightarrow> string \<Rightarrow> fault + UsrMem_S \<times> nat" where
  "usr_addstr_intostr s np bp handle sz str1 str2 =
     rbind (usr_malloc s np bp handle (int sz)) (\<lambda>(s, p).
     if p = 0 then Inr (s, 0) else block_printf s p sz (str1 str2))"

definition usr_floattostr :: "UsrMem_S \<Rightarrow> nat \<Rightarrow> nat \<Rightarrow> nat \<Rightarrow> ('v \<Rightarrow> string) \<Rightarrow> 'v \<Rightarrow> fault + UsrMem_S \<times> nat" where
  "usr_floattostr s np bp handle print_lf value =
     rbind (usr_malloc s np bp handle 32) (\<lambda>(s, p).
     if p = 0 then Inr (s, 0) else block_printf s p 32 (print_lf value))"

section \<open>The list behind the pointers\<close>

text \<open>\<open>lseg h a ps z\<close>: from \<open>a\<close> the links lead through \<open>ps\<close> to \<open>z\<close>, and back.\<close>

fun lseg :: "nodes \<Rightarrow> nat \<Rightarrow> nat list \<Rightarrow> nat \<Rightarrow> bool" where
  "lseg h a [] z \<longleftrightarrow> nextp (the (h a)) = z \<and> prevp (the (h z)) = a"
| "lseg h a (p # ps) z \<longleftrightarrow> nextp (the (h a)) = p \<and> prevp (the (h p)) = a \<and> lseg h p ps z"

definition cdl :: "nodes \<Rightarrow> nat \<Rightarrow> nat list \<Rightarrow> bool" where
  "cdl h head ps \<longleftrightarrow> lseg h head ps head \<and> distinct (head # ps) \<and> 0 \<notin> set (head # ps) \<and> set (head # ps) \<subseteq> dom h"

lemma lseg_snoc: "lseg h a (ps @ [q]) z \<longleftrightarrow> lseg h a ps q \<and> nextp (the (h q)) = z \<and> prevp (the (h z)) = q"
  by (induction ps arbitrary: a) auto

lemma lseg_last: "lseg h a ps z \<Longrightarrow> nextp (the (h (last (a # ps)))) = z \<and> prevp (the (h z)) = last (a # ps)"
  by (induction ps arbitrary: a) auto

text \<open>What a segment depends on.\<close>

lemma lseg_retarget:
  assumes "lseg h a ps z" "\<forall>p \<in> set (butlast (a # ps)). nextp (the (h' p)) = nextp (the (h p))"
    "\<forall>p \<in> set ps. prevp (the (h' p)) = prevp (the (h p))"
    "nextp (the (h' (last (a # ps)))) = q" "prevp (the (h' q)) = last (a # ps)"
  shows "lseg h' a ps q"
  using assms by (induction ps arbitrary: a) auto

lemma lseg_cong:
  "(\<forall>p \<in> set (a # ps). h p = h' p) \<Longrightarrow> h z = h' z \<Longrightarrow> lseg h a ps z \<longleftrightarrow> lseg h' a ps z"
  by (induction ps arbitrary: a) auto

lemma list_init_cdl:
  "h p \<noteq> None \<Longrightarrow> p \<noteq> 0 \<Longrightarrow> \<exists>h'. list_init h p = Inr h' \<and> cdl h' p [] \<and> mem_addr (the (h' p)) = mem_addr (the (h p)) \<and>
     (\<forall>q. q \<noteq> p \<longrightarrow> h' q = h q)"
  by (auto simp: list_init_def set_nextp_def set_prevp_def cdl_def)

lemma list_add_tail_cdl:
  assumes "cdl h head ps" "h p \<noteq> None" "p \<noteq> 0" "p \<notin> set (head # ps)"
  shows "\<exists>h'. list_add_tail h head p = Inr h' \<and> cdl h' head (ps @ [p]) \<and> dom h' = dom h \<and>
    (\<forall>q. mem_addr (the (h' q)) = mem_addr (the (h q))) \<and> (\<forall>q. q \<notin> set (head # ps @ [p]) \<longrightarrow> h' q = h q)"
proof -
  let ?l = "last (head # ps)"
  have c: "lseg h head ps head" "distinct (head # ps)" "0 \<notin> set (head # ps)" "set (head # ps) \<subseteq> dom h"
    using assms(1) by (simp_all add: cdl_def)
  have l: "?l \<in> set (head # ps)" "nextp (the (h ?l)) = head" "prevp (the (h head)) = ?l"
    using lseg_last [OF c(1)] by auto
  obtain hd li i where n: "h head = Some hd" "h ?l = Some li" "h p = Some i" using c(4) l(1) assms(2) by auto
  have "\<And>q. q \<in> set (head # ps) \<Longrightarrow> q \<noteq> p \<and> q \<noteq> 0" using assms(4) c(3) by metis
  from this [of head] this [OF l(1)] have ne: "p \<noteq> head" "p \<noteq> ?l" "head \<noteq> 0" "?l \<noteq> 0" by auto
  define h' where "h' = (let g = h(p \<mapsto> i\<lparr>nextp := head, prevp := ?l\<rparr>); g = g(?l \<mapsto> (the (g ?l))\<lparr>nextp := p\<rparr>) in
    g(head \<mapsto> (the (g head))\<lparr>prevp := p\<rparr>))"
  have r: "list_add_tail h head p = Inr h'"
    using n ne l(3) assms(3) by (auto simp: list_add_tail_def set_nextp_def set_prevp_def h'_def Let_def)
  have f: "nextp (the (h' p)) = head" "prevp (the (h' p)) = ?l" "nextp (the (h' ?l)) = p" "prevp (the (h' head)) = p"
    "q \<noteq> p \<Longrightarrow> q \<noteq> ?l \<Longrightarrow> nextp (the (h' q)) = nextp (the (h q))"
    "q \<noteq> p \<Longrightarrow> q \<noteq> head \<Longrightarrow> prevp (the (h' q)) = prevp (the (h q))"
    "mem_addr (the (h' q)) = mem_addr (the (h q))" "q \<notin> set (head # ps @ [p]) \<Longrightarrow> h' q = h q" for q
    using n ne l(1) by (auto simp: h'_def Let_def)
  have "\<forall>q \<in> set (butlast (head # ps)). q \<noteq> p \<and> q \<noteq> ?l"
    using assms(4) c(2) by (metis append_butlast_last_id butlast.simps(2) distinct_butlast in_set_butlastD list.distinct(1) not_distinct_conv_prefix)
  then have bl: "\<forall>q \<in> set (butlast (head # ps)). nextp (the (h' q)) = nextp (the (h q))" using f(5) by metis
  have "q \<noteq> p \<and> q \<noteq> head" if "q \<in> set ps" for q using that c(2) assms(4) by auto
  then have "\<forall>q \<in> set ps. prevp (the (h' q)) = prevp (the (h q))" using f(6) by metis
  then have "lseg h' head ps p" by (rule lseg_retarget [OF c(1) bl _ f(3,2)])
  then have "lseg h' head (ps @ [p]) head" using f(1,4) by (simp add: lseg_snoc)
  moreover have d: "dom h' = dom h" using n by (auto simp: h'_def Let_def)
  ultimately have "cdl h' head (ps @ [p])" using c assms(2-4) by (auto simp: cdl_def)
  then show ?thesis using r d f(7,8) by blast
qed

lemma list_remove_cdl:
  assumes "cdl h head (p # ps)"
  shows "\<exists>h'. list_remove h p = Inr h' \<and> cdl (h'(p := None)) head ps \<and> dom h' = dom h \<and> nextp (the (h' p)) = hd (ps @ [head]) \<and>
    (\<forall>q. mem_addr (the (h' q)) = mem_addr (the (h q))) \<and> (\<forall>q. q \<notin> set (head # p # ps) \<longrightarrow> h' q = h q)"
proof -
  let ?n = "hd (ps @ [head])"
  have c: "lseg h head (p # ps) head" "distinct (head # p # ps)" "0 \<notin> set (head # p # ps)" "set (head # p # ps) \<subseteq> dom h"
    using assms by (simp_all add: cdl_def)
  have l: "nextp (the (h p)) = ?n" "prevp (the (h p)) = head" "nextp (the (h head)) = p"
    using c(1) by (cases ps; simp)+
  have nn: "?n \<in> set (head # ps)" "?n \<noteq> p" using c(2) by (cases ps; auto)+
  obtain hn ni i where n: "h head = Some hn" "h ?n = Some ni" "h p = Some i" using c(4) nn(1) by auto
  have "\<And>q. q \<in> set (head # ps) \<Longrightarrow> q \<noteq> 0" using c(3) by (metis list.set_intros(1) list.set_intros(2) set_ConsD)
  from this [of head] this [OF nn(1)] have ne: "p \<noteq> head" "head \<noteq> 0" "?n \<noteq> 0" "p \<noteq> 0" using c(2,3) by auto
  define h' where "h' = (let g = h(?n \<mapsto> ni\<lparr>prevp := head\<rparr>) in g(head \<mapsto> (the (g head))\<lparr>nextp := ?n\<rparr>))"
  have r: "list_remove h p = Inr h'"
    using n ne nn l by (auto simp: list_remove_def set_nextp_def set_prevp_def h'_def Let_def)
  have f: "nextp (the (h' head)) = ?n" "prevp (the (h' ?n)) = head" "h' p = h p"
    "q \<noteq> head \<Longrightarrow> nextp (the (h' q)) = nextp (the (h q))"
    "q \<noteq> ?n \<Longrightarrow> prevp (the (h' q)) = prevp (the (h q))"
    "mem_addr (the (h' q)) = mem_addr (the (h q))" "q \<notin> set (head # p # ps) \<Longrightarrow> h' q = h q" for q
    using n ne nn by (auto simp: h'_def Let_def)
  have "lseg (h'(p := None)) head ps head"
  proof (cases ps)
    case Nil
    then show ?thesis using f(1,2) ne by simp
  next
    case (Cons q qs)
    let ?g = "h'(p := None)" and ?e = "last (q # qs)"
    have s: "lseg h q qs head" using c(1) Cons by simp
    have nq: "?n = q" using Cons by simp
    have dist: "x \<noteq> p \<and> x \<noteq> head" if "x \<in> set (q # qs)" for x using that c(2) Cons by auto
    have e: "?e \<in> set (q # qs)" by (rule last_in_set) simp
    have "\<forall>x \<in> set (butlast (q # qs)). nextp (the (?g x)) = nextp (the (h x))"
      using dist f(4) in_set_butlastD by (metis fun_upd_other)
    moreover have "\<forall>x \<in> set qs. prevp (the (?g x)) = prevp (the (h x))"
    proof
      fix x assume x: "x \<in> set qs"
      then have "x \<noteq> ?n" "x \<noteq> p" using c(2) Cons by auto
      then show "prevp (the (?g x)) = prevp (the (h x))" using f(5) by simp
    qed
    moreover have "nextp (the (?g ?e)) = head" using lseg_last [OF s] f(4) dist [OF e] by (metis fun_upd_other)
    moreover have "prevp (the (?g head)) = ?e"
      using lseg_last [OF s] f(5) [of head] nq c(2) Cons ne(1) by (metis fun_upd_other distinct.simps(2) list.set_intros(1) list.set_intros(2))
    ultimately have "lseg ?g q qs head" by (rule lseg_retarget [OF s])
    then show ?thesis using Cons f(1,2) ne c(2) nq by simp
  qed
  moreover have d: "dom h' = dom h" using n by (auto simp: h'_def Let_def)
  ultimately have "cdl (h'(p := None)) head ps" using c by (auto simp: cdl_def)
  then show ?thesis using r d f(3,6,7) l(1) by auto
qed

section \<open>An arena gives back what it took\<close>

text \<open>
  Sequences of allocations: \<open>an\<close> and \<open>ab\<close> are \<^verbatim>\<open>malloc\<close> for nodes and for blocks.
\<close>

datatype mem_op = Malloc nat | Strdup string | IntToStr int

fun mem_step :: "(nodes \<Rightarrow> nat) \<Rightarrow> ((nat \<rightharpoonup> string) \<Rightarrow> nat) \<Rightarrow> UsrMem_S \<Rightarrow> nat \<Rightarrow> mem_op \<Rightarrow> fault + UsrMem_S \<times> nat" where
  "mem_step an ab s head (Malloc n) = usr_malloc s (an (nodes s)) (ab (blocks s)) head (int n)"
| "mem_step an ab s head (Strdup t) = usr_strdup s (an (nodes s)) (ab (blocks s)) head (t @ [NUL])"
| "mem_step an ab s head (IntToStr i) = usr_inttostr s (an (nodes s)) (ab (blocks s)) head i"

fun mem_exec :: "(nodes \<Rightarrow> nat) \<Rightarrow> ((nat \<rightharpoonup> string) \<Rightarrow> nat) \<Rightarrow> UsrMem_S \<Rightarrow> nat \<Rightarrow> mem_op list \<Rightarrow> fault + UsrMem_S" where
  "mem_exec an ab s head [] = Inr s"
| "mem_exec an ab s head (op # ops) = rbind (mem_step an ab s head op) (\<lambda>(s, _). mem_exec an ab s head ops)"

definition owned :: "UsrMem_S \<Rightarrow> nat list \<Rightarrow> nat list" where
  "owned s ps = map (\<lambda>p. mem_addr (the (nodes s p))) ps"

text \<open>The arena at \<open>head\<close> holds all that \<open>s\<close> has beyond \<open>s0\<close>.\<close>

definition arena :: "UsrMem_S \<Rightarrow> UsrMem_S \<Rightarrow> nat \<Rightarrow> nat list \<Rightarrow> bool" where
  "arena s0 s head ps \<longleftrightarrow> cdl (nodes s) head ps \<and>
     (\<forall>q. q \<notin> set (head # ps) \<longrightarrow> nodes s q = nodes s0 q) \<and> (\<forall>q \<in> set (head # ps). nodes s0 q = None) \<and>
     distinct (owned s ps) \<and> 0 \<notin> set (owned s ps) \<and>
     (\<forall>b. b \<notin> set (owned s ps) \<longrightarrow> blocks s b = blocks s0 b) \<and>
     (\<forall>b \<in> set (owned s ps). blocks s0 b = None \<and> blocks s b \<noteq> None) \<and>
     finite (dom (nodes s)) \<and> finite (dom (blocks s))"

lemma CreateMemHandle_arena:
  assumes "np \<noteq> 0" "nodes s0 np = None" "finite (dom (nodes s0))" "finite (dom (blocks s0))"
  shows "\<exists>s. CreateMemHandle s0 np = Inr (s, np) \<and> arena s0 s np []"
proof -
  obtain h where h: "list_init ((nodes s0)(np \<mapsto> \<lparr>mem_addr = 0, nextp = 0, prevp = 0\<rparr>)) np = Inr h" "cdl h np []"
    "\<forall>q. q \<noteq> np \<longrightarrow> h q = nodes s0 q"
    using list_init_cdl [of "(nodes s0)(np \<mapsto> \<lparr>mem_addr = 0, nextp = 0, prevp = 0\<rparr>)" np] assms(1) by auto
  have "dom h \<subseteq> insert np (dom (nodes s0))" using h(3) by (metis domIff insertCI subsetI)
  then show ?thesis using h assms by (auto simp: CreateMemHandle_def arena_def owned_def intro: finite_subset)
qed

lemma usr_malloc_arena:
  assumes a: "arena s0 s head ps" and np: "np \<noteq> 0" "nodes s np = None" and bp: "bp \<noteq> 0" "blocks s bp = None"
  shows "\<exists>s'. usr_malloc s np bp head len = Inr (s', bp) \<and> arena s0 s' head (ps @ [np]) \<and>
     blocks s' = (blocks s)(bp \<mapsto> replicate (nat len) NUL) \<and> bp \<in> set (owned s' (ps @ [np]))"
proof -
  have c: "cdl (nodes s) head ps" and o: "distinct (owned s ps)" "0 \<notin> set (owned s ps)" "bp \<notin> set (owned s ps)"
    and out: "np \<notin> set (head # ps)"
    using a np(2) bp(2) by (auto simp: arena_def cdl_def)
  let ?z = "\<lparr>mem_addr = 0, nextp = 0, prevp = 0\<rparr>"
  obtain h1 where h1: "list_init ((nodes s)(np \<mapsto> ?z)) np = Inr h1" "cdl h1 np []" "\<forall>q. q \<noteq> np \<longrightarrow> h1 q = nodes s q"
    using list_init_cdl [of "(nodes s)(np \<mapsto> ?z)" np] np(1) by auto
  then obtain n where n: "h1 np = Some n" by (auto simp: cdl_def)
  let ?h2 = "h1(np \<mapsto> n\<lparr>mem_addr := bp\<rparr>)"
  have same: "\<forall>q \<in> set (head # ps). ?h2 q = nodes s q" using h1(3) out by auto
  have "lseg (nodes s) head ps head \<longleftrightarrow> lseg ?h2 head ps head" by (rule lseg_cong) (use same in auto)
  moreover have "set (head # ps) \<subseteq> dom ?h2"
  proof
    fix q assume q: "q \<in> set (head # ps)"
    then have "q \<in> dom (nodes s)" using c unfolding cdl_def by blast
    then show "q \<in> dom ?h2" using same q by (metis domIff)
  qed
  ultimately have "cdl ?h2 head ps" using c by (simp add: cdl_def)
  from list_add_tail_cdl [OF this, of np] np(1) out obtain h3 where h3: "list_add_tail ?h2 head np = Inr h3" "cdl h3 head (ps @ [np])"
    "dom h3 = dom ?h2" "\<forall>q. mem_addr (the (h3 q)) = mem_addr (the (?h2 q))" "\<forall>q. q \<notin> set (head # ps @ [np]) \<longrightarrow> h3 q = ?h2 q"
    by auto
  let ?s' = "s\<lparr>blocks := (blocks s)(bp \<mapsto> replicate (nat len) NUL), nodes := h3\<rparr>"
  have r: "usr_malloc s np bp head len = Inr (?s', bp)"
    using h1(1) n h3(1) np(1) bp(1) by (simp add: usr_malloc_def CreateMemHandle_def)
  have ow: "owned ?s' (ps @ [np]) = owned s ps @ [bp]"
    using h3(4) same by (auto simp: owned_def)
  have "dom h3 \<subseteq> insert np (dom (nodes s))" using h3(3) h1(3) by (auto simp: dom_def split: if_splits)
  then have "finite (dom h3)" using a by (auto simp: arena_def intro: finite_subset)
  moreover have "nodes s0 np = None" using a np(2) out by (auto simp: arena_def)
  moreover have "blocks s0 bp = None" using a o(3) bp(2) by (auto simp: arena_def)
  moreover have "\<forall>q. q \<notin> set (head # ps @ [np]) \<longrightarrow> h3 q = nodes s0 q" using h3(5) h1(3) a by (auto simp: arena_def)
  ultimately have "arena s0 ?s' head (ps @ [np])"
    using h3(2) a o bp(1) unfolding arena_def ow by auto
  then show ?thesis using r ow by auto
qed

lemma block_printf_arena:
  assumes "arena s0 s head ps" "bp \<in> set (owned s ps)" "blocks s bp = Some b" "n \<le> length b" "0 < n"
  shows "\<exists>b'. block_printf s bp n t = Inr (s\<lparr>blocks := (blocks s)(bp \<mapsto> b')\<rparr>, bp) \<and>
    arena s0 (s\<lparr>blocks := (blocks s)(bp \<mapsto> b')\<rparr>) head ps"
proof -
  let ?t = "take (n - 1) t @ [NUL]"
  have "length ?t \<le> length b" using assms(4,5) by simp
  then have "snprintf b n t = Inr (?t @ drop (length ?t) b)"
    using assms(5) by (simp add: snprintf_def put_all_fits)
  moreover have "bp \<noteq> 0" using assms(1,2) unfolding arena_def by metis
  ultimately have "block_printf s bp n t = Inr (s\<lparr>blocks := (blocks s)(bp \<mapsto> ?t @ drop (length ?t) b)\<rparr>, bp)"
    using assms(3) by (simp add: block_printf_def)
  moreover have "arena s0 (s\<lparr>blocks := (blocks s)(bp \<mapsto> ?t @ drop (length ?t) b)\<rparr>) head ps"
    using assms(1,2) by (auto simp: arena_def owned_def)
  ultimately show ?thesis by (intro exI [of _ "?t @ drop (length ?t) b"]) simp
qed

text \<open>Every operation extends the arena by one block.\<close>

lemma mem_step_arena:
  assumes "arena s0 s head ps" "obj_alloc_ok an" "obj_alloc_ok ab"
  shows "\<exists>s' p. mem_step an ab s head op = Inr (s', p) \<and> arena s0 s' head (ps @ [an (nodes s)])"
proof -
  have np: "an (nodes s) \<noteq> 0" "nodes s (an (nodes s)) = None" and bp: "ab (blocks s) \<noteq> 0" "blocks s (ab (blocks s)) = None"
    using assms by (auto simp: arena_def obj_alloc_ok_def)
  note m = usr_malloc_arena [OF assms(1) np bp]
  have print: "\<exists>s' p. rbind (usr_malloc s (an (nodes s)) (ab (blocks s)) head (int n)) (\<lambda>(s, p).
      if p = 0 then Inr (s, 0) else block_printf s p n t) = Inr (s', p) \<and> arena s0 s' head (ps @ [an (nodes s)])" if "0 < n" for n t
  proof -
    obtain s' where s': "usr_malloc s (an (nodes s)) (ab (blocks s)) head (int n) = Inr (s', ab (blocks s))"
      "arena s0 s' head (ps @ [an (nodes s)])" "blocks s' = (blocks s)(ab (blocks s) \<mapsto> replicate n NUL)"
      "ab (blocks s) \<in> set (owned s' (ps @ [an (nodes s)]))"
      using m [of "int n"] by auto
    show ?thesis using block_printf_arena [OF s'(2,4), of "replicate n NUL" n t] s' bp(1) that by auto
  qed
  show ?thesis
  proof (cases op)
    case (Malloc n)
    then show ?thesis using m [of "int n"] by auto
  next
    case (Strdup t)
    obtain u where "c_str (t @ [NUL]) 0 = Inr u" by (simp add: c_str_def)
    then show ?thesis using print [of "length u + 1" u] Strdup by (simp add: usr_strdup_def add.commute)
  next
    case (IntToStr i)
    then show ?thesis using print [of 32 "print_int i"] by (simp add: usr_inttostr_def)
  qed
qed

lemma mem_exec_arena:
  assumes "arena s0 s head ps" "obj_alloc_ok an" "obj_alloc_ok ab"
  shows "\<exists>s' qs. mem_exec an ab s head ops = Inr s' \<and> arena s0 s' head qs \<and> length qs = length ps + length ops"
  using assms(1)
proof (induction ops arbitrary: s ps)
  case (Cons op ops)
  obtain s1 p where "mem_step an ab s head op = Inr (s1, p)" "arena s0 s1 head (ps @ [an (nodes s)])"
    using mem_step_arena [OF Cons.prems assms(2,3)] by blast
  then show ?case using Cons.IH [of s1 "ps @ [an (nodes s)]"] by auto
qed auto

text \<open>One turn of the freeing loop takes the first block.\<close>

lemma usr_free_turn_arena:
  assumes "arena s0 s head (p # ps)"
  shows "\<exists>s'. usr_free_turn s p = Inr (s', hd (ps @ [head])) \<and> arena s0 s' head ps \<and> p \<noteq> head"
proof -
  have c: "cdl (nodes s) head (p # ps)" using assms by (simp add: arena_def)
  obtain n where n: "nodes s p = Some n" "p \<noteq> 0" "p \<noteq> head" "p \<notin> set ps" using c by (auto simp: cdl_def)
  have ow: "owned s (p # ps) = mem_addr n # owned s ps" using n(1) by (simp add: owned_def)
  then have b: "mem_addr n \<noteq> 0" "blocks s (mem_addr n) \<noteq> None" "mem_addr n \<notin> set (owned s ps)" "blocks s0 (mem_addr n) = None"
    using assms unfolding arena_def ow by auto
  obtain h where h: "list_remove (nodes s) p = Inr h" "cdl (h(p := None)) head ps" "dom h = dom (nodes s)"
    "nextp (the (h p)) = hd (ps @ [head])" "\<forall>q. mem_addr (the (h q)) = mem_addr (the (nodes s q))"
    "\<forall>q. q \<notin> set (head # p # ps) \<longrightarrow> h q = nodes s q"
    using list_remove_cdl [OF c] by blast
  obtain n' where n': "h p = Some n'" using h(3) n(1) by auto
  let ?s' = "s\<lparr>blocks := (blocks s)(mem_addr n := None), nodes := h(p := None)\<rparr>"
  have "usr_free_turn s p = Inr (?s', hd (ps @ [head]))"
    using n b(1,2) h(1,4) n' by (auto simp: usr_free_turn_def)
  moreover have "arena s0 ?s' head ps"
  proof -
    have "owned ?s' ps = owned s ps" using h(5) n(4) by (auto simp: owned_def)
    moreover have "finite (dom (h(p := None)))" "finite (dom ((blocks s)(mem_addr n := None)))"
      using assms h(3) by (simp_all add: arena_def)
    ultimately show ?thesis using assms h n(3,4) b unfolding arena_def ow by auto
  qed
  ultimately show ?thesis using n(3) by blast
qed

lemma usr_free_loop_arena:
  "arena s0 s head ps \<Longrightarrow> \<exists>s'. usr_free_loop s head (hd (ps @ [head])) = Some (Inr s') \<and> arena s0 s' head []"
proof (induction ps arbitrary: s)
  case Nil
  then show ?case by (subst usr_free_loop.simps) auto
next
  case (Cons p ps)
  obtain s1 where s1: "usr_free_turn s p = Inr (s1, hd (ps @ [head]))" "arena s0 s1 head ps" "p \<noteq> head"
    using usr_free_turn_arena [OF Cons.prems] by blast
  have "usr_free_loop s head p = usr_free_loop s1 head (hd (ps @ [head]))"
    by (subst usr_free_loop.simps) (use s1 in simp)
  then show ?case using Cons.IH [OF s1(2)] by simp
qed

lemma usr_free_arena:
  assumes "arena s0 s head ps"
  shows "usr_free s head = Some (Inr (s0, 0))"
proof -
  have c: "cdl (nodes s) head ps" using assms by (simp add: arena_def)
  then obtain n where n: "nodes s head = Some n" "head \<noteq> 0" by (auto simp: cdl_def)
  have "nextp n = hd (ps @ [head])" using c n(1) by (cases ps) (auto simp: cdl_def)
  moreover obtain s' where s': "usr_free_loop s head (hd (ps @ [head])) = Some (Inr s')" "arena s0 s' head []"
    using usr_free_loop_arena [OF assms] by blast
  moreover obtain n' where "nodes s' head = Some n'" using s'(2) by (auto simp: arena_def cdl_def)
  moreover have "s'\<lparr>nodes := (nodes s')(head := None)\<rparr> = s0"
    using s'(2) by (auto simp: arena_def owned_def fun_eq_iff)
  ultimately show ?thesis using n by (simp add: usr_free_def)
qed

text \<open>
  C26. An arena frees exactly what was allocated in it: after any sequence of allocations on a fresh handle, none
  of which faults, \<^verbatim>\<open>usr_free\<close> ends without touching freed memory or freeing anything twice, and the memory
  is the one from before the arena.
\<close>

theorem arena_no_leak:
  assumes "obj_alloc_ok an" "obj_alloc_ok ab" "finite (dom (nodes s0))" "finite (dom (blocks s0))"
  shows "\<exists>s s'. CreateMemHandle s0 (an (nodes s0)) = Inr (s, an (nodes s0)) \<and>
    mem_exec an ab s (an (nodes s0)) ops = Inr s' \<and> usr_free s' (an (nodes s0)) = Some (Inr (s0, 0))"
proof -
  have "an (nodes s0) \<noteq> 0" "nodes s0 (an (nodes s0)) = None" using assms(1,3) by (auto simp: obj_alloc_ok_def)
  then obtain s where s: "CreateMemHandle s0 (an (nodes s0)) = Inr (s, an (nodes s0))" "arena s0 s (an (nodes s0)) []"
    using CreateMemHandle_arena assms(3,4) by blast
  obtain s' qs where "mem_exec an ab s (an (nodes s0)) ops = Inr s'" "arena s0 s' (an (nodes s0)) qs"
    using mem_exec_arena [OF s(2) assms(1,2)] by blast
  then show ?thesis using s(1) usr_free_arena by blast
qed

theorem arena_no_leak_witness:
  "\<exists>s s'. CreateMemHandle \<lparr>nodes = Map.empty, blocks = [7 \<mapsto> ''x'']\<rparr> 1 = Inr (s, 1) \<and>
    mem_exec (\<lambda>m. Suc (Max (insert 0 (dom m)))) (\<lambda>m. Suc (Max (insert 0 (dom m)))) s 1 [Strdup ''abc'', Malloc 4, IntToStr (- 12)] = Inr s' \<and>
    usr_free s' 1 = Some (Inr (\<lparr>nodes = Map.empty, blocks = [7 \<mapsto> ''x'']\<rparr>, 0))"
  using arena_no_leak [OF obj_alloc_ok_example obj_alloc_ok_example,
      of "\<lparr>nodes = Map.empty, blocks = [7 \<mapsto> ''x'']\<rparr>" "[Strdup ''abc'', Malloc 4, IntToStr (- 12)]"]
  by simp

end
