(* ===== verification/TSocket.thy ===== *)
theory TSocket
  imports CString Registry
begin

text \<open>
  The socket server and the senders of \<^verbatim>\<open>src/ExtLibs/TSocket/tsocket.c\<close>. What the kernel answers
  (\<^verbatim>\<open>select\<close>, \<^verbatim>\<open>accept\<close>, \<^verbatim>\<open>recv\<close>, \<^verbatim>\<open>send\<close>) is a list of events, one for each turn of a
  loop; a loop that has used up its events is still waiting. The callbacks of the services are
  arguments. The list of sockets is the list of addresses that \<open>UsrMem\<close> shows the circular links to
  implement, with a store for its records.

  The lemmas show that the server keeps its list well formed, when a request is served or its connection
  dropped, and what the senders put on the wire.
\<close>

section \<open>Data\<close>

definition DF_NET_MSGBUFLEN :: nat where "DF_NET_MSGBUFLEN = 5 * 1024 * 1024"

record 'u NetCliInfo_T =
  fromIP :: string
  fromPort :: int
  recvSocket :: int
  recvLen :: int
  recvmsg :: string
  usrdef :: "'u option"

text \<open>\<^verbatim>\<open>memset(cli,0,sizeof(NetCliInfo_T))\<close>.\<close>

definition cli0 :: "'u NetCliInfo_T" where
  "cli0 = \<lparr>fromIP = [], fromPort = 0, recvSocket = 0, recvLen = 0, recvmsg = replicate DF_NET_MSGBUFLEN NUL, usrdef = None\<rparr>"

datatype SOCKETTYPE_E = SOCKETTYPE_ENUM_NULL | SOCKETTYPE_ENUM_MAIN | SOCKETTYPE_ENUM_SUB

record SocketList_S =
  sockfd :: int
  socketType :: SOCKETTYPE_E
  sock_ip :: string
  sock_port :: int

text \<open>\<open>closed\<close> are the descriptors that \<^verbatim>\<open>close\<close> has been called with, in order.\<close>

record NetServer =
  socks :: "nat \<rightharpoonup> SocketList_S"
  socklist :: "nat list"
  closed :: "int list"

section \<open>Receiving a request\<close>

text \<open>
  One turn of the loop: data (\<^verbatim>\<open>recv\<close> returns at most what fits), end of the stream or an error of \<^verbatim>\<open>recv\<close>,
  an exceptional condition, the 100 ms of \<^verbatim>\<open>select\<close> over, \<^verbatim>\<open>select\<close> failed, and the flag that ends every
  loop of the module cleared.
\<close>

datatype recv_event = RecvData string | RecvClosed | RecvExcept | SelectTimeout | SelectFailed | TsockStopped

datatype 'r recv_result = Served 'r | Dropped | Stopped | Waiting

fun recv_loop ::
  "('u NetCliInfo_T \<Rightarrow> fault + 'u NetCliInfo_T \<times> int) \<Rightarrow> ('u NetCliInfo_T \<Rightarrow> fault + 'r) \<Rightarrow> SocketList_S \<Rightarrow>
   'u NetCliInfo_T \<Rightarrow> nat \<Rightarrow> recv_event list \<Rightarrow> fault + 'r recv_result" where
  "recv_loop checkendcb readcb si cli timeOutCount [] = Inr Waiting"
| "recv_loop checkendcb readcb si cli timeOutCount (TsockStopped # es) = Inr Stopped"
| "recv_loop checkendcb readcb si cli timeOutCount (RecvExcept # es) = Inr Dropped"
| "recv_loop checkendcb readcb si cli timeOutCount (RecvClosed # es) = Inr Dropped"
| "recv_loop checkendcb readcb si cli timeOutCount (SelectFailed # es) = Inr Dropped"
| "recv_loop checkendcb readcb si cli timeOutCount (SelectTimeout # es) =
     (if timeOutCount + 1 > 5 then Inr Dropped
      else recv_loop checkendcb readcb si cli (timeOutCount + 1) es)"
| "recv_loop checkendcb readcb si cli timeOutCount (RecvData d # es) =
     (let d = take (nat (int DF_NET_MSGBUFLEN - recvLen cli)) d in
      if d = [] then Inr Dropped
      else rbind (put_all (recvmsg cli) (nat (recvLen cli)) d) (\<lambda>msg.
        let cli = cli\<lparr>recvmsg := msg, fromIP := sock_ip si, fromPort := sock_port si,
                      recvLen := recvLen cli + int (length d), recvSocket := sockfd si\<rparr> in
        rbind (checkendcb cli) (\<lambda>(cli, ret).
          if ret = KEY_TRUE then rbind (readcb cli) (\<lambda>r. Inr (Served r))
          else recv_loop checkendcb readcb si cli timeOutCount es)))"

section \<open>The server\<close>

text \<open>
  What \<^verbatim>\<open>select\<close> and the kernel say about one node of a pass; \<open>newnode\<close> is the \<^verbatim>\<open>malloc\<close> of a node, and \<open>climem\<close> tells
  whether \<^verbatim>\<open>malloc\<close> has the 5 MB of a \<^verbatim>\<open>NetCliInfo_T\<close>.
\<close>

record visit =
  climem :: bool
  in_except :: bool
  in_read :: bool
  acc_fd :: int
  acc_ip :: string
  acc_port :: int
  newnode :: "(nat \<rightharpoonup> SocketList_S) \<Rightarrow> nat"
  events :: "recv_event list"

text \<open>A set of descriptors has room for those below \<^verbatim>\<open>FD_SETSIZE\<close>; nothing checks that.\<close>

definition FD_SETSIZE :: int where "FD_SETSIZE = 1024"

definition fd_bit :: "int \<Rightarrow> fault + unit" where
  "fd_bit fd = (if 0 \<le> fd \<and> fd < FD_SETSIZE then Inr () else Inl OutOfBounds)"

definition drop_sock :: "NetServer \<Rightarrow> nat \<Rightarrow> int list \<Rightarrow> NetServer" where
  "drop_sock s p fds = s\<lparr>socks := (socks s)(p := None), socklist := remove1 p (socklist s), closed := closed s @ fds\<rparr>"

definition CheckSelectExcept :: "visit \<Rightarrow> NetServer \<Rightarrow> nat \<Rightarrow> fault + NetServer \<times> int" where
  "CheckSelectExcept v s p =
     rbind (obj_load (socks s) p) (\<lambda>si. rbind (fd_bit (sockfd si)) (\<lambda>_.
     if \<not> in_except v then Inr (s, KEY_FALSE) else Inr (drop_sock s p [sockfd si], KEY_TRUE)))"

text \<open>
  \<open>closecb fd\<close> are the descriptors that the service's callback closes. The record for the request is cleared before anything tests
  whether there is memory for it. An accepted connection is added to the list, or lost when there is no memory for its node.
  The descriptor that \<open>recv_loop\<close> enters into its own sets is the one tested here.
\<close>

definition CheckSelectRead ::
  "('u NetCliInfo_T \<Rightarrow> fault + 'u NetCliInfo_T \<times> int) \<Rightarrow> ('u NetCliInfo_T \<Rightarrow> fault + 'r) \<Rightarrow> (int \<Rightarrow> int list) \<Rightarrow>
   visit \<Rightarrow> NetServer \<Rightarrow> nat \<Rightarrow> fault + NetServer \<times> 'r recv_result option \<times> int" where
  "CheckSelectRead checkendcb readcb closecb v s p =
     rbind (if climem v then Inr () else Inl NullDeref) (\<lambda>_.
     rbind (obj_load (socks s) p) (\<lambda>si. rbind (fd_bit (sockfd si)) (\<lambda>_.
     if \<not> in_read v then Inr (s, None, KEY_FALSE)
     else case socketType si of
       SOCKETTYPE_ENUM_NULL \<Rightarrow> Inr (s, None, KEY_TRUE)
     | SOCKETTYPE_ENUM_MAIN \<Rightarrow>
         if acc_fd v \<le> 0 \<or> newnode v (socks s) = 0 then Inr (s, None, KEY_FALSE)
         else Inr (s\<lparr>socks := (socks s)(newnode v (socks s) \<mapsto>
                       \<lparr>sockfd = acc_fd v, socketType = SOCKETTYPE_ENUM_SUB, sock_ip = acc_ip v, sock_port = acc_port v\<rparr>),
                     socklist := socklist s @ [newnode v (socks s)]\<rparr>, None, KEY_TRUE)
     | SOCKETTYPE_ENUM_SUB \<Rightarrow>
         rbind (recv_loop checkendcb readcb si cli0 0 (events v)) (\<lambda>r.
         case r of Dropped \<Rightarrow> Inr (drop_sock s p (sockfd si # closecb (sockfd si)), Some Dropped, KEY_TRUE)
                 | _ \<Rightarrow> Inr (s, Some r, KEY_TRUE)))))"

text \<open>\<^verbatim>\<open>node->next\<close>, with 0 for the head of the list.\<close>

definition next_of :: "nat list \<Rightarrow> nat \<Rightarrow> nat" where
  "next_of xs p = (case dropWhile (\<lambda>q. q \<noteq> p) xs of _ # q # _ \<Rightarrow> q | _ \<Rightarrow> 0)"

text \<open>
  The pass of \<open>NetServerThead\<close> after \<^verbatim>\<open>select\<close> returned a positive number, one visit for each node; with a
  descriptor that is not positive the loop never leaves the node.
\<close>

fun server_pass ::
  "('u NetCliInfo_T \<Rightarrow> fault + 'u NetCliInfo_T \<times> int) \<Rightarrow> ('u NetCliInfo_T \<Rightarrow> fault + 'r) \<Rightarrow> (int \<Rightarrow> int list) \<Rightarrow>
   visit list \<Rightarrow> NetServer \<Rightarrow> nat \<Rightarrow> (NetServer \<times> 'r list) run" where
  "server_pass checkendcb readcb closecb [] s node = Some (Inr (s, []))"
| "server_pass checkendcb readcb closecb (v # vs) s node =
     (if node = 0 then Some (Inr (s, []))
      else run_bind (Some (obj_load (socks s) node)) (\<lambda>si.
        if 0 \<ge> sockfd si then None
        else let nextnode = next_of (socklist s) node in
          run_bind (Some (CheckSelectExcept v s node)) (\<lambda>(s, ret).
          run_bind (if ret = KEY_TRUE then Some (Inr (s, []))
                    else Some (rbind (CheckSelectRead checkendcb readcb closecb v s node) (\<lambda>(s, r, _).
                      Inr (s, case r of Some (Served x) \<Rightarrow> [x] | _ \<Rightarrow> [])))) (\<lambda>(s, rs).
          run_bind (server_pass checkendcb readcb closecb vs s nextnode) (\<lambda>(s, rs').
          Some (Inr (s, rs @ rs')))))))"

text \<open>After a failed \<^verbatim>\<open>select\<close> the first node whose descriptor \<^verbatim>\<open>fstat\<close> refuses (\<open>bad\<close>) is taken off.\<close>

fun sweep :: "(int \<Rightarrow> bool) \<Rightarrow> (int \<Rightarrow> int list) \<Rightarrow> NetServer \<Rightarrow> nat list \<Rightarrow> fault + NetServer" where
  "sweep bad closecb s [] = Inr s"
| "sweep bad closecb s (p # ps) =
     rbind (obj_load (socks s) p) (\<lambda>si.
     if bad (sockfd si) then Inr (drop_sock s p (closecb (sockfd si) @ [sockfd si])) else sweep bad closecb s ps)"

text \<open>Before \<^verbatim>\<open>select\<close> every socket of the list is entered into the sets.\<close>

fun set_fds :: "NetServer \<Rightarrow> nat list \<Rightarrow> fault + unit" where
  "set_fds s [] = Inr ()"
| "set_fds s (p # ps) = rbind (obj_load (socks s) p) (\<lambda>si. rbind (fd_bit (sockfd si)) (\<lambda>_. set_fds s ps))"

datatype select_answer = SelReady "visit list" | SelTimeout | SelFailed "int \<Rightarrow> bool"

definition server_turn ::
  "('u NetCliInfo_T \<Rightarrow> fault + 'u NetCliInfo_T \<times> int) \<Rightarrow> ('u NetCliInfo_T \<Rightarrow> fault + 'r) \<Rightarrow> (int \<Rightarrow> int list) \<Rightarrow>
   NetServer \<Rightarrow> select_answer \<Rightarrow> (NetServer \<times> 'r list) run" where
  "server_turn checkendcb readcb closecb s a =
     run_bind (Some (set_fds s (socklist s))) (\<lambda>_. case a of SelReady vs \<Rightarrow> server_pass checkendcb readcb closecb vs s (case socklist s of [] \<Rightarrow> 0 | p # _ \<Rightarrow> p)
      | SelTimeout \<Rightarrow> Some (Inr (s, []))
      | SelFailed bad \<Rightarrow> run_bind (Some (sweep bad closecb s (socklist s))) (\<lambda>s. Some (Inr (s, []))))"

text \<open>The loop of the thread, and everything that the callback for requests returned.\<close>

fun server_exec ::
  "('u NetCliInfo_T \<Rightarrow> fault + 'u NetCliInfo_T \<times> int) \<Rightarrow> ('u NetCliInfo_T \<Rightarrow> fault + 'r) \<Rightarrow> (int \<Rightarrow> int list) \<Rightarrow>
   NetServer \<Rightarrow> select_answer list \<Rightarrow> (NetServer \<times> 'r list) run" where
  "server_exec checkendcb readcb closecb s [] = Some (Inr (s, []))"
| "server_exec checkendcb readcb closecb s (a # as) =
     run_bind (server_turn checkendcb readcb closecb s a) (\<lambda>(s, rs).
     run_bind (server_exec checkendcb readcb closecb s as) (\<lambda>(s, rs'). Some (Inr (s, rs @ rs'))))"

text \<open>The list of a new server: the listening socket at the address \<open>p\<close>.\<close>

definition server_start :: "nat \<Rightarrow> int \<Rightarrow> NetServer" where
  "server_start p fd = \<lparr>socks = [p \<mapsto> \<lparr>sockfd = fd, socketType = SOCKETTYPE_ENUM_MAIN, sock_ip = [], sock_port = 0\<rparr>],
     socklist = [p], closed = []\<rparr>"

section \<open>Senders\<close>

text \<open>
  An answer of \<^verbatim>\<open>select\<close>: writable, with the result of the \<^verbatim>\<open>send\<close> that follows; an exceptional condition or no
  writable descriptor; the time over; an error. The wire gets the bytes that \<^verbatim>\<open>send\<close> took.
\<close>

datatype send_event = Writable int | SendExcept | SendTimeout | SendFailed

fun send_loop :: "string \<Rightarrow> int \<Rightarrow> int \<Rightarrow> nat \<Rightarrow> send_event list \<Rightarrow> (string \<times> int) option" where
  "send_loop msg len tot cont [] = None"
| "send_loop msg len tot cont (SendExcept # es) = Some ([], - 1)"
| "send_loop msg len tot cont (SendFailed # es) = Some ([], - 1)"
| "send_loop msg len tot cont (SendTimeout # es) =
     (if cont + 1 = 2 then Some ([], - 1) else send_loop msg len tot (cont + 1) es)"
| "send_loop msg len tot cont (Writable r # es) =
     (let lenSend = min r (len - tot) in
      if lenSend \<le> 0 then Some ([], - 1)
      else let w = take (nat lenSend) (drop (nat tot) msg) in
        if tot + lenSend = len then Some (w, len)
        else map_option (\<lambda>(w', ret). (w @ w', ret)) (send_loop msg len (tot + lenSend) cont es))"

definition NetTcpSendMsg :: "string \<Rightarrow> int \<Rightarrow> send_event list \<Rightarrow> (string \<times> int) option" where
  "NetTcpSendMsg msg len es = send_loop msg len 0 0 es"

definition Packet_length :: "int \<Rightarrow> int \<Rightarrow> int" where
  "Packet_length iVideoLen iMtu = iVideoLen div iMtu + (if iVideoLen mod iMtu \<noteq> 0 then 1 else 0)"

text \<open>The number of bytes that \<^verbatim>\<open>send\<close> took is compared with \<open>- 1\<close> only.\<close>

fun mtu_loop :: "nat \<Rightarrow> string \<Rightarrow> int \<Rightarrow> send_event list \<Rightarrow> (string \<times> int) option" where
  "mtu_loop 0 msg len es = Some ([], KEY_TRUE)"
| "mtu_loop (Suc k) msg len [] = None"
| "mtu_loop (Suc k) msg len (SendExcept # es) = Some ([], - 1)"
| "mtu_loop (Suc k) msg len (SendFailed # es) = Some ([], - 1)"
| "mtu_loop (Suc k) msg len (SendTimeout # es) = Some ([], - 2)"
| "mtu_loop (Suc k) msg len (Writable r # es) =
     (let i_payload = (if len < 1460 then len else 1460); lenSend = min r i_payload in
      if lenSend = - 1 then Some ([], - 1)
      else map_option (\<lambda>(w, ret). (take (nat lenSend) msg @ w, ret))
             (mtu_loop k (drop (nat i_payload) msg) (len - i_payload) es))"

definition NetTcpMtuSendMsg :: "string \<Rightarrow> int \<Rightarrow> send_event list \<Rightarrow> (string \<times> int) option" where
  "NetTcpMtuSendMsg msg len es = mtu_loop (nat (Packet_length len 1460)) msg len es"

section \<open>The client\<close>

text \<open>
  \<open>NetTcpGetMsg\<close> on a connected socket. Sending: what \<^verbatim>\<open>send\<close> took, or its \<^verbatim>\<open>errno\<close>; after \<^verbatim>\<open>EINTR\<close> and
  \<^verbatim>\<open>EAGAIN\<close> it tries again without a bound.
\<close>

datatype client_send = Sent nat | SendEintr | SendEagain | SendError

fun client_send_loop :: "string \<Rightarrow> nat \<Rightarrow> nat \<Rightarrow> int \<Rightarrow> client_send list \<Rightarrow> (string \<times> int) option" where
  "client_send_loop sendBuf sendLen tempLen cLen es =
     (if sendLen \<le> tempLen then Some ([], cLen)
      else case es of [] \<Rightarrow> None
        | Sent n # es \<Rightarrow>
            let n = min n (sendLen - tempLen) in
            map_option (\<lambda>(w, c). (take n (drop tempLen sendBuf) @ w, c)) (client_send_loop sendBuf sendLen (tempLen + n) (int n) es)
        | SendEintr # es \<Rightarrow> client_send_loop sendBuf sendLen tempLen (- 1) es
        | SendEagain # es \<Rightarrow> client_send_loop sendBuf sendLen tempLen (- 1) es
        | SendError # es \<Rightarrow> Some ([], - 1))"

declare client_send_loop.simps [simp del]

text \<open>Receiving: \<^verbatim>\<open>GotNothing\<close> is a timeout, a failure of \<^verbatim>\<open>select\<close> or the cleared flag.\<close>

datatype get_event = GotData string | GotEnd | GotError | GotExcept | GotSpurious | GotNothing

fun client_recv_loop ::
  "(string \<Rightarrow> int \<Rightarrow> int) option \<Rightarrow> string \<Rightarrow> nat \<Rightarrow> get_event list \<Rightarrow> (fault + string \<times> int) option" where
  "client_recv_loop checkdata readBuf countLen [] = None"
| "client_recv_loop checkdata readBuf countLen (GotExcept # es) = Some (Inr (readBuf, KEY_FALSE))"
| "client_recv_loop checkdata readBuf countLen (GotNothing # es) = Some (Inr (readBuf, KEY_FALSE))"
| "client_recv_loop checkdata readBuf countLen (GotSpurious # es) = client_recv_loop checkdata readBuf countLen es"
| "client_recv_loop checkdata readBuf countLen (GotEnd # es) =
     Some (Inr (readBuf, case checkdata of Some c \<Rightarrow> if c readBuf (int countLen) = KEY_TRUE then int countLen else KEY_FALSE | None \<Rightarrow> KEY_FALSE))"
| "client_recv_loop checkdata readBuf countLen (GotError # es) =
     Some (Inr (readBuf, case checkdata of Some c \<Rightarrow> if c readBuf (int countLen - 1) = KEY_TRUE then int countLen - 1 else KEY_FALSE | None \<Rightarrow> KEY_FALSE))"
| "client_recv_loop checkdata readBuf countLen (GotData d # es) =
     (let d = take (length readBuf - countLen) d; countLen' = countLen + length d in
      case put_all readBuf countLen d of Inl e \<Rightarrow> Some (Inl e)
      | Inr readBuf \<Rightarrow>
        (case checkdata of
           Some c \<Rightarrow> if c readBuf (int countLen') = KEY_TRUE then Some (Inr (readBuf, int countLen'))
                     else if d = [] then Some (Inr (readBuf, KEY_FALSE)) else client_recv_loop checkdata readBuf countLen' es
         | None \<Rightarrow> Some (Inr (readBuf, if d = [] then KEY_FALSE else int countLen'))))"

definition NetTcpGetMsg ::
  "string \<Rightarrow> nat \<Rightarrow> string option \<Rightarrow> (string \<Rightarrow> int \<Rightarrow> int) option \<Rightarrow> client_send list \<Rightarrow> get_event list \<Rightarrow>
   (fault + string \<times> string option \<times> int) option" where
  "NetTcpGetMsg sendBuf sendLen readBuf checkdata es gs =
     (case client_send_loop sendBuf sendLen 0 0 es of None \<Rightarrow> None
      | Some (w, cLen) \<Rightarrow> (case readBuf of None \<Rightarrow> Some (Inr (w, None, cLen))
          | Some b \<Rightarrow> if b = [] then Some (Inr (w, Some b, cLen))
              else map_option (map_sum id (\<lambda>(b, r). (w, Some b, r))) (client_recv_loop checkdata (replicate (length b) NUL) 0 gs)))"


text \<open>The call also clears the flag that ends all loops. The result is the new \<^verbatim>\<open>sockfd\<close> of the handle and what is closed.\<close>

definition NetCloseSerSocket :: "int \<Rightarrow> int \<times> int list \<times> int" where
  "NetCloseSerSocket fd = (if fd \<le> 0 then (fd, [], KEY_FALSE) else (- 1, [fd], KEY_TRUE))"

section \<open>The contract of a service\<close>

definition cli_ok :: "'u NetCliInfo_T \<Rightarrow> bool" where
  "cli_ok cli \<longleftrightarrow> 0 \<le> recvLen cli \<and> recvLen cli \<le> int DF_NET_MSGBUFLEN \<and> length (recvmsg cli) = DF_NET_MSGBUFLEN"

lemma cli0_ok [simp]: "cli_ok cli0"
  by (simp add: cli_ok_def cli0_def)

definition srv_ok :: "NetServer \<Rightarrow> bool" where
  "srv_ok s \<longleftrightarrow> reg_ok (socks s) (socklist s) \<and> finite (dom (socks s)) \<and>
     (\<forall>p \<in> set (socklist s). 0 < sockfd (the (socks s p)) \<and> sockfd (the (socks s p)) < FD_SETSIZE)"

text \<open>There is memory for requests, and no descriptor that \<^verbatim>\<open>accept\<close> returns is too large for a set.\<close>

definition visit_ok :: "visit \<Rightarrow> bool" where
  "visit_ok v \<longleftrightarrow> climem v \<and> acc_fd v < FD_SETSIZE \<and> ((\<forall>m. newnode v m = 0) \<or> obj_alloc_ok (newnode v))"

definition answer_ok :: "select_answer \<Rightarrow> bool" where
  "answer_ok a \<longleftrightarrow> (case a of SelReady vs \<Rightarrow> \<forall>v \<in> set vs. visit_ok v | _ \<Rightarrow> True)"

lemma srv_ok_load: "srv_ok s \<Longrightarrow> p \<in> set (socklist s) \<Longrightarrow> \<exists>si. obj_load (socks s) p = Inr si \<and> 0 < sockfd si \<and> fd_bit (sockfd si) = Inr ()"
proof -
  assume s: "srv_ok s" and p: "p \<in> set (socklist s)"
  then have "p \<noteq> 0" "p \<in> dom (socks s)" unfolding srv_ok_def reg_ok_def by (metis, blast)
  then obtain si where "socks s p = Some si" by auto
  then show ?thesis using s p \<open>p \<noteq> 0\<close> by (intro exI [of _ si]) (auto simp: srv_ok_def fd_bit_def)
qed

lemma set_fds_ok: "srv_ok s \<Longrightarrow> set ps \<subseteq> set (socklist s) \<Longrightarrow> set_fds s ps = Inr ()"
proof (induction ps)
  case (Cons p ps)
  then show ?case using srv_ok_load [OF Cons.prems(1), of p] by auto
qed simp

text \<open>Without memory for the record of a request any visit of a node faults, even one without data.\<close>

lemma no_memory_faults: "\<not> climem v \<Longrightarrow> CheckSelectRead checkendcb readcb closecb v s p = Inl NullDeref"
  by (simp add: CheckSelectRead_def)

text \<open>A socket that does not fit into a set: the next turn writes past its end.\<close>

lemma large_descriptor_overruns:
  assumes "socklist s = p # ps" "obj_load (socks s) p = Inr si" "FD_SETSIZE \<le> sockfd si"
  shows "server_turn checkendcb readcb closecb s a = Some (Inl OutOfBounds)"
  using assms by (simp add: server_turn_def fd_bit_def)

lemma server_start_ok: "p \<noteq> 0 \<Longrightarrow> 0 < fd \<Longrightarrow> fd < FD_SETSIZE \<Longrightarrow> srv_ok (server_start p fd)"
  by (simp add: srv_ok_def reg_ok_def server_start_def)

lemma srv_ok_drop: "srv_ok s \<Longrightarrow> srv_ok (drop_sock s p fds)"
  by (auto simp: srv_ok_def reg_ok_def drop_sock_def)

lemma drop_sock_rest: "set (socklist s) - {p} \<subseteq> set (socklist (drop_sock s p fds))"
proof
  fix x assume "x \<in> set (socklist s) - {p}"
  then have "x \<in> set (socklist s)" "x \<noteq> p" by auto
  then show "x \<in> set (socklist (drop_sock s p fds))" by (simp add: drop_sock_def)
qed

lemma srv_ok_add:
  assumes "srv_ok s" "visit_ok v" "newnode v (socks s) \<noteq> 0" "0 < sockfd si" "sockfd si < FD_SETSIZE"
  shows "srv_ok (s\<lparr>socks := (socks s)(newnode v (socks s) \<mapsto> si), socklist := socklist s @ [newnode v (socks s)]\<rparr>)"
proof -
  have "obj_alloc_ok (newnode v)" using assms(2,3) by (auto simp: visit_ok_def)
  then have "socks s (newnode v (socks s)) = None" using assms(1) by (simp add: srv_ok_def obj_alloc_ok_def)
  then show ?thesis using assms by (auto simp: srv_ok_def reg_ok_def)
qed

text \<open>The next node is still there when the current one is gone or another one has come.\<close>

lemma next_of_in: "next_of xs p \<in> insert 0 (set xs)"
proof (cases "dropWhile (\<lambda>q. q \<noteq> p) xs")
  case (Cons a r)
  have "set r \<subseteq> set xs" using Cons set_dropWhileD by (metis list.set_intros(2) subsetI)
  then show ?thesis using Cons by (cases r) (auto simp: next_of_def)
next
  case Nil
  then show ?thesis unfolding next_of_def Nil by simp
qed

lemma next_of_other: "distinct xs \<Longrightarrow> next_of xs p \<noteq> 0 \<Longrightarrow> next_of xs p \<noteq> p"
proof (induction xs)
  case (Cons x xs)
  show ?case
  proof (cases "x = p")
    case True
    then show ?thesis using Cons.prems by (cases xs) (auto simp: next_of_def)
  next
    case False
    then have "next_of (x # xs) p = next_of xs p" by (simp add: next_of_def)
    then show ?thesis using Cons by simp
  qed
qed (simp add: next_of_def)

text \<open>
  What the server asks of a service: the callback that looks for the end of a request leaves the buffer
  and its length alone.
\<close>

locale service =
  fixes checkendcb :: "'u NetCliInfo_T \<Rightarrow> fault + 'u NetCliInfo_T \<times> int"
    and readcb :: "'u NetCliInfo_T \<Rightarrow> fault + 'r"
    and closecb :: "int \<Rightarrow> int list"
  assumes checkendcb_keeps: "checkendcb cli = Inr (cli', ret) \<Longrightarrow> recvmsg cli' = recvmsg cli \<and> recvLen cli' = recvLen cli"
begin

text \<open>Only a callback can fault, and it gets a request inside the buffer.\<close>

definition callback_fault :: "fault \<Rightarrow> bool" where
  "callback_fault e \<longleftrightarrow> (\<exists>cli. cli_ok cli \<and> (checkendcb cli = Inl e \<or> readcb cli = Inl e))"

lemma recv_loop_fault: "cli_ok cli \<Longrightarrow> recv_loop checkendcb readcb si cli n es = Inl e \<Longrightarrow> callback_fault e"
proof (induction es arbitrary: cli n)
  case (Cons ev es)
  show ?case
  proof (cases ev)
    case (RecvData d)
    let ?d = "take (nat (int DF_NET_MSGBUFLEN - recvLen cli)) d"
    have fits: "nat (recvLen cli) + length ?d \<le> length (recvmsg cli)" using Cons.prems(1) by (auto simp: cli_ok_def)
    let ?msg = "take (nat (recvLen cli)) (recvmsg cli) @ ?d @ drop (nat (recvLen cli) + length ?d) (recvmsg cli)"
    let ?cli = "cli\<lparr>recvmsg := ?msg, fromIP := sock_ip si, fromPort := sock_port si,
                      recvLen := recvLen cli + int (length ?d), recvSocket := sockfd si\<rparr>"
    have ok: "cli_ok ?cli" using Cons.prems(1) fits by (auto simp: cli_ok_def)
    have ne: "?d \<noteq> []" using Cons.prems(2) RecvData by (auto simp: Let_def split: if_splits)
    have step: "recv_loop checkendcb readcb si cli n (ev # es) = rbind (checkendcb ?cli) (\<lambda>(cli, ret).
        if ret = KEY_TRUE then rbind (readcb cli) (\<lambda>r. Inr (Served r)) else recv_loop checkendcb readcb si cli n es)"
      using RecvData ne put_all_fits [OF fits] by (simp add: Let_def)
    show ?thesis
    proof (cases "checkendcb ?cli")
      case (Inl e')
      then show ?thesis using Cons.prems(2) ok unfolding step callback_fault_def by auto
    next
      case (Inr y)
      obtain cli' ret where y: "y = (cli', ret)" by (cases y)
      have "cli_ok cli'" using checkendcb_keeps [OF Inr [unfolded y]] ok by (simp add: cli_ok_def)
      then show ?thesis using Cons.prems(2) Cons.IH Inr y unfolding step callback_fault_def
        by (cases "readcb cli'") (auto split: if_splits)
    qed
  qed (use Cons in \<open>auto split: if_splits\<close>)
qed simp

lemma CheckSelectRead_ok:
  assumes "srv_ok s" "p \<in> set (socklist s)" "visit_ok v" "CheckSelectRead checkendcb readcb closecb v s p = res"
  shows "(\<exists>s' r k. res = Inr (s', r, k) \<and> srv_ok s' \<and> set (socklist s) - {p} \<subseteq> set (socklist s')) \<or> (\<exists>e. res = Inl e \<and> callback_fault e)"
proof -
  obtain si where si: "obj_load (socks s) p = Inr si" "0 < sockfd si" "fd_bit (sockfd si) = Inr ()" using srv_ok_load [OF assms(1,2)] by blast
  have m: "climem v" "acc_fd v < FD_SETSIZE" using assms(3) by (simp_all add: visit_ok_def)
  show ?thesis
  proof (cases "socketType si")
    case SOCKETTYPE_ENUM_NULL
    then show ?thesis using assms(1,4) si(1,3) m by (auto simp: CheckSelectRead_def)
  next
    case SOCKETTYPE_ENUM_MAIN
    then show ?thesis using assms(1,4) si(1,3) m srv_ok_add [OF assms(1,3)] by (auto simp: CheckSelectRead_def)
  next
    case SOCKETTYPE_ENUM_SUB
    then show ?thesis
      using drop_sock_rest [of s p] assms(1,4) si(1,3) m recv_loop_fault [OF cli0_ok, of si 0 "events v"] srv_ok_drop [OF assms(1), of p]
      by (cases "recv_loop checkendcb readcb si cli0 0 (events v)")
        (auto simp: CheckSelectRead_def split: recv_result.splits if_splits)
  qed
qed

lemma server_pass_ok:
  assumes "srv_ok s" "node = 0 \<or> node \<in> set (socklist s)" "\<forall>v \<in> set vs. visit_ok v"
  shows "(\<exists>s' rs. server_pass checkendcb readcb closecb vs s node = Some (Inr (s', rs)) \<and> srv_ok s') \<or>
         (\<exists>e. server_pass checkendcb readcb closecb vs s node = Some (Inl e) \<and> callback_fault e)"
  using assms
proof (induction vs arbitrary: s node)
  case (Cons v vs)
  show ?case
  proof (cases "node = 0")
    case False
    then have n: "node \<in> set (socklist s)" using Cons.prems(2) by simp
    obtain si where si: "obj_load (socks s) node = Inr si" "0 < sockfd si" "fd_bit (sockfd si) = Inr ()" using srv_ok_load [OF Cons.prems(1) n] by blast
    let ?nx = "next_of (socklist s) node"
    have d: "distinct (socklist s)" using Cons.prems(1) by (simp add: srv_ok_def reg_ok_def)
    have nx: "?nx = 0 \<or> ?nx \<in> set (socklist s) - {node}" using next_of_in [of "socklist s" node] next_of_other [OF d, of node] by blast
    show ?thesis
    proof (cases "in_except v")
      case True
      have "?nx = 0 \<or> ?nx \<in> set (socklist (drop_sock s node [sockfd si]))" using nx d by (auto simp: drop_sock_def)
      then show ?thesis
        using Cons.IH [OF srv_ok_drop [OF Cons.prems(1)], of ?nx node "[sockfd si]"] Cons.prems(3) si False True
        by (auto simp: CheckSelectExcept_def Let_def)
    next
      case nex: False
      consider s' r k where "CheckSelectRead checkendcb readcb closecb v s node = Inr (s', r, k)" "srv_ok s'"
          "set (socklist s) - {node} \<subseteq> set (socklist s')"
        | e where "CheckSelectRead checkendcb readcb closecb v s node = Inl e" "callback_fault e"
        using CheckSelectRead_ok [OF Cons.prems(1) n _ refl, of v] Cons.prems(3) by auto
      then show ?thesis
      proof cases
        case 1
        then have "?nx = 0 \<or> ?nx \<in> set (socklist s')" using nx by auto
        then show ?thesis using Cons.IH [OF 1(2), of ?nx] Cons.prems(3) 1(1) si False nex
          by (auto simp: CheckSelectExcept_def Let_def)
      next
        case 2
        then show ?thesis using si False nex by (auto simp: CheckSelectExcept_def Let_def)
      qed
    qed
  qed (use Cons.prems in auto)
qed auto

lemma sweep_ok: "srv_ok s \<Longrightarrow> set ps \<subseteq> set (socklist s) \<Longrightarrow> \<exists>s'. sweep bad closecb s ps = Inr s' \<and> srv_ok s'"
proof (induction ps)
  case (Cons p ps)
  obtain si where "obj_load (socks s) p = Inr si" using srv_ok_load [of s p] Cons.prems by auto
  then show ?case using Cons srv_ok_drop [OF Cons.prems(1)] by auto
qed simp

lemma server_turn_ok:
  assumes "srv_ok s" "answer_ok a"
  shows "(\<exists>s' rs. server_turn checkendcb readcb closecb s a = Some (Inr (s', rs)) \<and> srv_ok s') \<or>
         (\<exists>e. server_turn checkendcb readcb closecb s a = Some (Inl e) \<and> callback_fault e)"
proof (cases a)
  case (SelReady vs)
  have "(case socklist s of [] \<Rightarrow> 0 | p # _ \<Rightarrow> p) = 0 \<or> (case socklist s of [] \<Rightarrow> 0 | p # _ \<Rightarrow> p) \<in> set (socklist s)"
    by (simp split: list.split)
  from server_pass_ok [OF assms(1) this, of vs] show ?thesis using assms(2) SelReady set_fds_ok [OF assms(1)] by (simp add: server_turn_def answer_ok_def)
next
  case (SelFailed bad)
  then show ?thesis using sweep_ok [OF assms(1) subset_refl, of bad] set_fds_ok [OF assms(1)] by (auto simp: server_turn_def)
qed (use assms set_fds_ok [OF assms(1)] in \<open>auto simp: server_turn_def\<close>)

lemma server_exec_ok:
  "srv_ok s \<Longrightarrow> list_all answer_ok as \<Longrightarrow>
   (\<exists>s' rs. server_exec checkendcb readcb closecb s as = Some (Inr (s', rs)) \<and> srv_ok s') \<or>
   (\<exists>e. server_exec checkendcb readcb closecb s as = Some (Inl e) \<and> callback_fault e)"
proof (induction as arbitrary: s)
  case (Cons a as)
  consider s' rs where "server_turn checkendcb readcb closecb s a = Some (Inr (s', rs))" "srv_ok s'"
    | e where "server_turn checkendcb readcb closecb s a = Some (Inl e)" "callback_fault e"
    using server_turn_ok [OF Cons.prems(1), of a] Cons.prems(2) by auto
  then show ?case
  proof cases
    case 1
    then show ?thesis using Cons.IH [OF 1(2)] Cons.prems(2) by auto
  qed auto
qed auto

text \<open>A connection that \<^verbatim>\<open>recv_loop\<close> drops is closed by the server and then handed to the callback.\<close>

lemma dropped_connection_closed:
  assumes "obj_load (socks s) p = Inr si" "socketType si = SOCKETTYPE_ENUM_SUB" "in_read v" "climem v" "fd_bit (sockfd si) = Inr ()"
    "recv_loop checkendcb readcb si cli0 0 (events v) = Inr Dropped"
  shows "CheckSelectRead checkendcb readcb closecb v s p =
    Inr (drop_sock s p (sockfd si # closecb (sockfd si)), Some Dropped, KEY_TRUE)"
  using assms by (simp add: CheckSelectRead_def)

end

section \<open>What the senders put on the wire\<close>

lemma drop_take_split:
  assumes "t + n \<le> l"
  shows "drop t (take l xs) = take n (drop t xs) @ drop (t + n) (take l xs)"
proof -
  have "l - t = n + (l - (t + n))" using assms by simp
  then show ?thesis by (simp only: drop_take take_add) (simp add: add.commute)
qed

text \<open>
  What the kernel takes before the first answer that ends the loop early: an exceptional condition, an error, nothing taken, or a second time
  out; and whether there is such an answer.
\<close>

fun taken :: "nat \<Rightarrow> send_event list \<Rightarrow> int list \<times> bool" where
  "taken timeouts [] = ([], False)"
| "taken timeouts (Writable r # es) = (if r \<le> 0 then ([], True) else apfst ((#) r) (taken timeouts es))"
| "taken timeouts (SendTimeout # es) = (if timeouts = 0 then taken 1 es else ([], True))"
| "taken timeouts (SendExcept # es) = ([], True)"
| "taken timeouts (SendFailed # es) = ([], True)"

lemma taken_nonneg: "0 \<le> sum_list (fst (taken c es))"
  by (induction c es rule: taken.induct) auto

lemma send_loop_wire:
  assumes "0 \<le> tot" "tot < len" "len \<le> int (length msg)" "cont \<le> 1"
  shows "send_loop msg len tot cont es = (case taken cont es of (rs, failed) \<Rightarrow>
    if len \<le> tot + sum_list rs then Some (drop (nat tot) (take (nat len) msg), len)
    else if failed then Some (take (nat (sum_list rs)) (drop (nat tot) msg), - 1) else None)"
  using assms
proof (induction es arbitrary: tot cont)
  case (Cons e es)
  show ?case
  proof (cases e)
    case (Writable k)
    let ?n = "min k (len - tot)" let ?rs = "fst (taken cont es)" let ?w = "take (nat ?n) (drop (nat tot) msg)"
    consider "k \<le> 0" | "0 < k" "len - tot \<le> k" | "0 < k" "k < len - tot" by linarith
    then show ?thesis
    proof cases
      case 1
      then show ?thesis using Cons.prems Writable by (simp add: Let_def)
    next
      case 2
      then have "len \<le> tot + (k + sum_list ?rs)" using taken_nonneg [of cont es] by linarith
      moreover have "take (nat (len - tot)) (drop (nat tot) msg) = drop (nat tot) (take (nat len) msg)"
        using Cons.prems(1,2) by (simp add: drop_take nat_diff_distrib)
      ultimately show ?thesis using 2 Cons.prems(2) Writable by (simp add: Let_def case_prod_beta min_absorb2)
    next
      case 3
      have t: "nat (tot + k) = nat tot + nat k" "nat tot + nat k \<le> nat len" using 3 Cons.prems(1,2) by auto
      have a: "drop (nat tot) (take (nat len) msg) = take (nat k) (drop (nat tot) msg) @ drop (nat (tot + k)) (take (nat len) msg)"
        unfolding t(1) by (rule drop_take_split [OF t(2)])
      have "nat (k + sum_list ?rs) = nat k + nat (sum_list ?rs)" using 3(1) taken_nonneg [of cont es] by (simp add: nat_add_distrib)
      then have b: "take (nat (k + sum_list ?rs)) (drop (nat tot) msg) =
          take (nat k) (drop (nat tot) msg) @ take (nat (sum_list ?rs)) (drop (nat (tot + k)) msg)"
        using t(1) by (simp add: take_add add.commute)
      have "send_loop msg len tot cont (e # es) =
          map_option (\<lambda>(w', ret). (take (nat k) (drop (nat tot) msg) @ w', ret)) (send_loop msg len (tot + k) cont es)"
        using 3 Writable by (simp add: Let_def min_absorb1)
      then show ?thesis using Cons.IH [of "tot + k" cont] Cons.prems 3 Writable a b
        by (simp add: case_prod_beta add.assoc)
    qed
  next
    case SendTimeout
    have "cont = 0 \<or> cont = 1" using Cons.prems(4) by linarith
    then show ?thesis using Cons SendTimeout by auto
  qed (use Cons in auto)
qed simp

lemma send_loop_ends:
  "0 \<le> tot \<Longrightarrow> tot \<le> len \<Longrightarrow> cont \<le> 1 \<Longrightarrow> nat (len - tot) + 2 \<le> length es + cont \<Longrightarrow> send_loop msg len tot cont es \<noteq> None"
proof (induction es arbitrary: tot cont)
  case (Cons e es)
  show ?case
  proof (cases e)
    case (Writable k)
    show ?thesis
    proof (cases "min k (len - tot) \<le> 0 \<or> tot + min k (len - tot) = len")
      case False
      then have "send_loop msg len (tot + min k (len - tot)) cont es \<noteq> None"
        using Cons.prems by (intro Cons.IH) auto
      then show ?thesis using Writable False by (auto simp: Let_def)
    qed (auto simp: Writable Let_def)
  qed (use Cons in \<open>auto split: if_splits\<close>)
qed auto

text \<open>
  C25. Sending a message: when the answers of the kernel up to the first error, exceptional condition, refusal or second time out take at least as
  many bytes as the message has, \<^verbatim>\<open>NetTcpSendMsg\<close> puts exactly the message on the wire and returns its length; when they take less it
  returns \<open>- 1\<close> after exactly these bytes from the beginning of the message, and as long as neither is the case it waits. It never
  needs more than \<open>len + 2\<close> answers.
\<close>

theorem send_message:
  assumes "0 < len" "len \<le> int (length msg)"
  shows "NetTcpSendMsg msg len es = (case taken 0 es of (rs, failed) \<Rightarrow>
      if len \<le> sum_list rs then Some (take (nat len) msg, len)
      else if failed then Some (take (nat (sum_list rs)) msg, - 1) else None) \<and>
    (nat len + 2 \<le> length es \<longrightarrow> NetTcpSendMsg msg len es \<noteq> None)"
  using send_loop_wire [of 0 len msg 0 es] send_loop_ends [of 0 len 0 es msg] assms
  by (cases "taken 0 es") (auto simp: NetTcpSendMsg_def)

theorem send_message_witness:
  "NetTcpSendMsg ''abc'' 3 [Writable 1, SendTimeout, Writable 4] = Some (''abc'', 3) \<and>
   NetTcpSendMsg ''abc'' 3 [Writable 1, SendTimeout, Writable 1, SendTimeout, Writable 1] = Some (''ab'', - 1)"
  using send_message [of 3 "''abc''" "[Writable 1, SendTimeout, Writable 4]"]
    send_message [of 3 "''abc''" "[Writable 1, SendTimeout, Writable 1, SendTimeout, Writable 1]"]
  by (simp add: numeral_eq_Suc)

text \<open>The number of packets is the quotient rounded up.\<close>

lemma Packet_length_ceiling:
  assumes "0 < m" "0 \<le> n"
  shows "m * (Packet_length n m - 1) < n \<or> n = 0" "n \<le> m * Packet_length n m"
proof -
  have n: "n = m * (n div m) + n mod m" "0 \<le> n mod m" "n mod m < m" using assms by simp_all
  show "n \<le> m * Packet_length n m"
  proof (cases "n mod m = 0")
    case True
    then show ?thesis using n by (simp add: Packet_length_def)
  next
    case False
    then have "m * Packet_length n m = m * (n div m) + m" by (simp add: Packet_length_def distrib_left)
    then show ?thesis using n by linarith
  qed
  show "m * (Packet_length n m - 1) < n \<or> n = 0"
  proof (cases "n mod m = 0")
    case True
    then have "m * (Packet_length n m - 1) = n - m" using n by (simp add: Packet_length_def right_diff_distrib)
    then show ?thesis using assms(1) by simp
  next
    case False
    then have "m * (Packet_length n m - 1) = m * (n div m)" by (simp add: Packet_length_def)
    then show ?thesis using False n by linarith
  qed
qed

end
