(* ===== verification/HttpApi.thy ===== *)
theory HttpApi
  imports UsrString TSocket
begin

text \<open>
  The HTTP front end: \<^verbatim>\<open>src/App/HttpAPI/httppares.c\<close>, which takes a request apart and groups
  the reply, and the callbacks of \<^verbatim>\<open>src/App/HttpAPI/httpapi.c\<close> that decide when a request is
  complete and answer it. A request is the text in the receive buffer of the connection. The JSON
  dispatcher that computes the body of the reply is an argument of the definitions: what is
  shown holds for every dispatcher.
\<close>

section \<open>Data\<close>

datatype HTTP_METHOD_E = HTTP_NULL | HTTP_POST | HTTP_GET

datatype HTTP_CONNECT_E = HTTP_CONNECT_NULL | HTTP_CONNECT_CLOSE | HTTP_CONNECT_KEEPALIVE

record HttpReqHead_T =
  hmethod :: HTTP_METHOD_E
  hconnect :: HTTP_CONNECT_E
  contentLength :: int
  host :: string
  url :: string
  boundary :: string

text \<open>\<^verbatim>\<open>HttpReqHead_T head = {0}\<close>, with the sizes of the three arrays.\<close>

definition head0 :: HttpReqHead_T where
  "head0 = \<lparr>hmethod = HTTP_NULL, hconnect = HTTP_CONNECT_NULL, contentLength = 0,
            host = replicate 64 NUL, url = replicate 128 NUL, boundary = replicate 256 NUL\<rparr>"

definition HTTPMSG_MAXLEN :: nat where "HTTPMSG_MAXLEN = 1024 * 10"

section \<open>Taking a request apart\<close>

text \<open>
  \<^verbatim>\<open>memstr\<close>: \<open>sub\<close> is the text of the pattern, \<open>mem\<close> the block \<open>full_data\<close> points to.
\<close>

fun memstr_loop :: "string \<Rightarrow> nat \<Rightarrow> nat \<Rightarrow> string \<Rightarrow> fault + nat option" where
  "memstr_loop mem cur 0 sub = Inr None"
| "memstr_loop mem cur (Suc n) sub =
     rbind (ch mem cur) (\<lambda>c.
     rbind (if c = hd sub then (if cur + length sub \<le> length mem
                                then Inr (take (length sub) (drop cur mem) = sub)
                                else Inl OutOfBounds)
            else Inr False) (\<lambda>b.
     if b then Inr (Some cur) else memstr_loop mem (Suc cur) n sub))"

definition memstr :: "string option \<Rightarrow> int \<Rightarrow> string option \<Rightarrow> fault + nat option" where
  "memstr full_data full_data_len substr =
     (case (full_data, substr) of
        (Some mem, Some sub) \<Rightarrow>
          if full_data_len \<le> 0 \<or> sub = [] then Inr None
          else memstr_loop mem 0 (nat (full_data_len - int (length sub) + 1)) sub
      | _ \<Rightarrow> Inr None)"

definition HttpMethodStrToInt :: "string \<Rightarrow> HTTP_METHOD_E" where
  "HttpMethodStrToInt str =
     (if usr_strcasecmp str ''POST'' = 0 then HTTP_POST
      else if usr_strcasecmp str ''GET'' = 0 then HTTP_GET
      else HTTP_NULL)"

text \<open>
  The readers of single fields have one form: find a tag in the text, step over it and copy the
  value that follows into an array.
\<close>

definition get_field :: "string option \<Rightarrow> string \<Rightarrow> nat \<Rightarrow> string option \<Rightarrow> fault + string option \<times> int" where
  "get_field str tag step out =
     (case (str, out) of
        (Some mem, Some o') \<Rightarrow>
          rbind (c_str mem 0) (\<lambda>t.
          case strstr t tag of
            None \<Rightarrow> Inr (out, KEY_FALSE)
          | Some pHead \<Rightarrow>
              rbind (usr_getvalue_btweenpoint mem (Some (pHead + step)) (Some (length t)) out)
                (\<lambda>(out, _). Inr (out, KEY_TRUE)))
      | _ \<Rightarrow> Inr (out, KEY_FALSE))"

definition GetHttpUrl :: "string option \<Rightarrow> string option \<Rightarrow> fault + string option \<times> int" where
  "GetHttpUrl str u = get_field str '' '' 1 u"

definition GetHttpHost :: "string option \<Rightarrow> string option \<Rightarrow> fault + string option \<times> int" where
  "GetHttpHost str h = get_field str ''Host:'' (length ''Host:'' + 1) h"

definition GetHttpBoundary :: "string option \<Rightarrow> string option \<Rightarrow> fault + string option \<times> int" where
  "GetHttpBoundary str b = get_field str ''boundary='' (length ''boundary='' + 1) b"

definition GetHttpContentLenth :: "string option \<Rightarrow> fault + int" where
  "GetHttpContentLenth str =
     rbind (get_field str ''Content-Length:'' (length ''Content-Length:'' + 1)
              (Some (replicate 16 NUL))) (\<lambda>(tmp, ret).
     if ret = KEY_FALSE then Inr KEY_FALSE
     else case tmp of None \<Rightarrow> Inr KEY_FALSE | Some tmp \<Rightarrow> rbind (c_str tmp 0) (\<lambda>t. Inr (atoi t)))"

text \<open>\<^verbatim>\<open>sscanf(temp, "%[^\"]", name)\<close> stores nothing when \<open>temp\<close> starts with a quote or is empty.\<close>

definition GetHttpFormDataName :: "string option \<Rightarrow> string option \<Rightarrow> fault + string option \<times> int" where
  "GetHttpFormDataName str name =
     (case (str, name) of
        (Some _, Some n) \<Rightarrow>
          rbind (get_field str ''name='' (length ''name='' + 1) (Some (replicate 1024 NUL))) (\<lambda>(temp, ret).
          if ret = KEY_FALSE then Inr (name, KEY_FALSE)
          else rbind (c_str (the temp) 0) (\<lambda>t.
               let v = takeWhile (\<lambda>c. c \<noteq> CHR 0x22) t in
               if v = [] then Inr (name, KEY_TRUE)
               else rbind (sprintf n v) (\<lambda>n. Inr (Some n, KEY_TRUE))))
      | _ \<Rightarrow> Inr (name, KEY_FALSE))"

definition GetHttpRequstHead :: "HttpReqHead_T \<Rightarrow> string \<Rightarrow> int \<Rightarrow> fault + HttpReqHead_T" where
  "GetHttpRequstHead head msg len =
     rbind (usr_getvalue_btweenpoint msg (Some 0) (Some 5) (Some (replicate 8 NUL))) (\<lambda>(m, _).
     rbind (c_str (the m) 0) (\<lambda>m.
     let head = head\<lparr>hmethod := HttpMethodStrToInt m\<rparr> in
     rbind (GetHttpUrl (Some msg) (Some (url head))) (\<lambda>(u, _).
     let head = head\<lparr>url := the u\<rparr> in
     rbind (GetHttpHost (Some msg) (Some (host head))) (\<lambda>(h, _).
     let head = head\<lparr>host := the h\<rparr> in
     rbind (GetHttpContentLenth (Some msg)) (\<lambda>n.
     let head = head\<lparr>contentLength := n\<rparr> in
     rbind (GetHttpBoundary (Some msg) (Some (boundary head))) (\<lambda>(b, _).
     Inr (head\<lparr>boundary := the b\<rparr>)))))))"

section \<open>The reply\<close>

text \<open>The broken-down time that \<^verbatim>\<open>gmtime_r\<close> gives for the clock.\<close>

record tm =
  tm_wday :: nat
  tm_mday :: nat
  tm_mon :: nat
  tm_year :: nat
  tm_hour :: nat
  tm_min :: nat
  tm_sec :: nat

definition tm_ok :: "tm \<Rightarrow> bool" where
  "tm_ok t \<longleftrightarrow> tm_wday t < 7 \<and> tm_mday t < 32 \<and> tm_mon t < 12 \<and> tm_year t < 8000 \<and>
              tm_hour t < 24 \<and> tm_min t < 60 \<and> tm_sec t < 61"

definition print_02d :: "nat \<Rightarrow> string" where
  "print_02d n = (if n < 10 then CHR ''0'' # print_nat n else print_nat n)"

definition wday :: "string list" where
  "wday = [''Sun'', ''Mon'', ''Tue'', ''Wed'', ''Thu'', ''Fri'', ''Sat'']"

definition wMouth :: "string list" where
  "wMouth = [''Jan'', ''Feb'', ''Mar'', ''Apr'', ''May'', ''Jun'', ''Jul'', ''Aug'', ''Sep'', ''Oct'',
             ''Nov'', ''Dec'']"

definition utc_text :: "tm \<Rightarrow> string" where
  "utc_text t_tm = wday ! tm_wday t_tm @ '', '' @ print_02d (tm_mday t_tm) @ '' '' @
     wMouth ! tm_mon t_tm @ '' '' @ print_nat (tm_year t_tm + 1900) @ '' '' @
     print_02d (tm_hour t_tm) @ '':'' @ print_02d (tm_min t_tm) @ '':'' @
     print_02d (tm_sec t_tm) @ '' GMT''"

definition GetUTCTime :: "tm \<Rightarrow> string \<Rightarrow> fault + string" where
  "GetUTCTime t_tm timeT =
     (if tm_wday t_tm < length wday \<and> tm_mon t_tm < length wMouth then sprintf timeT (utc_text t_tm)
      else Inl OutOfBounds)"

definition HttpCodes :: "(string \<times> int) list" where
  "HttpCodes = [(''OK'', 200), (''Bad Request'', 400), (''Unauthorized'', 401), (''Forbidden'', 403),
                (''Not Found'', 404), (''Method Not Allowed'', 405)]"

definition CRLF :: string where "CRLF = [CHR 0x0D, CHR 0x0A]"

definition resp_head :: "int \<Rightarrow> string \<Rightarrow> string \<Rightarrow> int \<Rightarrow> string" where
  "resp_head code name date buffLen =
     ''HTTP/1.1 '' @ print_int code @ '' '' @ name @ CRLF @
     ''Server: GaoZhi/2.0'' @ CRLF @
     ''Date: '' @ date @ CRLF @
     ''Content-Type: application/json; charset=utf-8;'' @ CRLF @
     ''Content-Length: '' @ print_int buffLen @ CRLF @
     ''Connection: close'' @ CRLF @ CRLF"

definition GroupRespHttpMsg ::
  "tm \<Rightarrow> int \<Rightarrow> string option \<Rightarrow> int \<Rightarrow> string option \<Rightarrow> fault + string option \<times> int" where
  "GroupRespHttpMsg now code buff buffLen out =
     (case (buff, out) of
        (Some b, Some o') \<Rightarrow>
          if 0 > buffLen then Inr (out, KEY_FALSE)
          else rbind (GetUTCTime now (replicate 64 NUL)) (\<lambda>date.
            case find (\<lambda>(_, c). code = c) HttpCodes of
              None \<Rightarrow> Inr (out, KEY_FALSE)
            | Some (name, c) \<Rightarrow>
                rbind (c_str date 0) (\<lambda>date.
                rbind (sprintf o' (resp_head c name date buffLen)) (\<lambda>o'.
                rbind (c_str b 0) (\<lambda>body.
                rbind (strcat o' body) (\<lambda>o'. Inr (Some o', KEY_TRUE))))))
      | _ \<Rightarrow> Inr (out, KEY_FALSE))"

text \<open>
  The dispatcher gets the text of the body and the reply buffer of \<open>HTTPMSG_MAXLEN\<close> bytes; \<open>'x\<close> is what it leaves
  behind besides the reply, the state of the gateway.
\<close>

type_synonym 'x dispatcher = "string \<Rightarrow> string \<Rightarrow> fault + 'x \<times> string \<times> int"

definition resp_code :: "int \<Rightarrow> int" where
  "resp_code iret = (if iret = KEY_TRUE then 200 else if iret = 401 then 401 else if iret = 403 then 403
                     else if iret = 404 then 404 else 400)"

definition ParesHttpMsg ::
  "'x dispatcher \<Rightarrow> tm \<Rightarrow> string \<Rightarrow> int \<Rightarrow> string \<Rightarrow> fault + 'x option \<times> string \<times> int \<times> int" where
  "ParesHttpMsg JsonSwitch now msg len out =
     rbind (GetHttpRequstHead head0 msg len) (\<lambda>head.
     rbind (c_str msg 0) (\<lambda>t.
     let buff = replicate HTTPMSG_MAXLEN NUL in
     rbind (case strstr t (CRLF @ CRLF) of None \<Rightarrow> Inr (None, buff, KEY_FALSE)
            | Some k \<Rightarrow> let bodyMsg = drop (k + length (CRLF @ CRLF)) t in
                if length bodyMsg \<noteq> 0 then rbind (JsonSwitch bodyMsg buff) (\<lambda>(x, buff, iret). Inr (Some x, buff, iret))
                else Inr (None, buff, KEY_FALSE)) (\<lambda>(x, buff, iret).
     rbind (c_str buff 0) (\<lambda>b.
     rbind (GroupRespHttpMsg now (resp_code iret) (Some buff) (int (length b)) (Some out)) (\<lambda>(out, _).
     rbind (c_str (the out) 0) (\<lambda>o'. Inr (x, the out, int (length o'), iret)))))))"

section \<open>The callbacks of the server\<close>

record HttpDef_S =
  ContentLen :: int
  HeadLen :: int
  IsHeadEnd :: int

text \<open>
  The value of a length field: from one character after the tag to the end of its line, copied
  into \<^verbatim>\<open>tmp[32]\<close> by a \<^verbatim>\<open>memcpy\<close> whose size \<^verbatim>\<open>pe - ps\<close> becomes huge when it is negative.
\<close>

definition checked_length :: "string \<Rightarrow> nat \<Rightarrow> nat \<Rightarrow> fault + int" where
  "checked_length t ps pe =
     (let ps' = ps + length ''Content-Length:'' + 1 in
      if pe < ps' then Inl OutOfBounds
      else rbind (put_all (replicate 32 NUL) 0 (take (pe - ps') (drop ps' t))) (\<lambda>tmp.
           rbind (c_str tmp 0) (\<lambda>v. Inr (atoi v))))"

text \<open>
  The record of 12 bytes that the first check of a connection allocates is taken to be there; the code would clear NULL otherwise. The length field is
  read by \<open>atoi\<close>, and its sum with the length of the head is taken without overflow, which C leaves undefined.
\<close>

definition HttpChecked :: "HttpDef_S NetCliInfo_T \<Rightarrow> fault + HttpDef_S NetCliInfo_T \<times> int" where
  "HttpChecked cli =
     (let info = (case usrdef cli of None \<Rightarrow> \<lparr>ContentLen = 0, HeadLen = 0, IsHeadEnd = KEY_FALSE\<rparr>
                  | Some i \<Rightarrow> i) in
      rbind (if IsHeadEnd info = KEY_FALSE \<or> ContentLen info = 0 then c_str (recvmsg cli) 0 else Inr []) (\<lambda>t.
      case (if IsHeadEnd info = KEY_FALSE
            then map_option (\<lambda>k. info\<lparr>HeadLen := int (k + length (CRLF @ CRLF)), IsHeadEnd := KEY_TRUE\<rparr>)
                   (strstr t (CRLF @ CRLF))
            else Some info) of
        None \<Rightarrow> Inr (cli\<lparr>usrdef := Some info\<rparr>, KEY_FALSE)
      | Some info \<Rightarrow>
          let finish = (\<lambda>info. Inr (cli\<lparr>usrdef := Some info\<rparr>,
                 if ContentLen info + HeadLen info \<le> recvLen cli then KEY_TRUE else KEY_FALSE))
          in if ContentLen info = 0 then
               (case (case strstr t ''content-length:'' of None \<Rightarrow> strstr t ''Content-Length:''
                      | Some ps \<Rightarrow> Some ps) of
                  None \<Rightarrow> Inr (cli\<lparr>usrdef := Some info\<rparr>, KEY_TRUE)
                | Some ps \<Rightarrow>
                    (case strstr (drop ps t) CRLF of
                       None \<Rightarrow> Inr (cli\<lparr>usrdef := Some info\<rparr>, KEY_TRUE)
                     | Some j \<Rightarrow> rbind (checked_length t ps (ps + j)) (\<lambda>n. finish (info\<lparr>ContentLen := n\<rparr>))))
             else finish info))"

text \<open>\<open>Requst\<close> returns what the dispatcher leaves behind and what it sends: the socket and the bytes of the reply.\<close>

definition Requst :: "'x dispatcher \<Rightarrow> tm \<Rightarrow> HttpDef_S NetCliInfo_T \<Rightarrow> fault + 'x option \<times> (int \<times> string) list \<times> int" where
  "Requst JsonSwitch now cli =
     (if length (fromIP cli) = 0 \<or> 0 \<ge> recvLen cli \<or> 0 \<ge> fromPort cli \<or> 0 \<ge> recvSocket cli
      then Inr (None, [], KEY_FALSE)
      else rbind (ParesHttpMsg JsonSwitch now (recvmsg cli) (recvLen cli) (replicate HTTPMSG_MAXLEN NUL))
             (\<lambda>(x, out, outLen, _). Inr (x, [(recvSocket cli, take (nat outLen) out)], KEY_TRUE)))"

section \<open>Reading fields\<close>

lemma memstr_agrees:
  assumes "sub \<noteq> []" "0 < n" "n \<le> length mem"
  shows "memstr (Some mem) (int n) (Some sub) = usr_str_btweenpoint mem (Some 0) (Some n) (Some sub)"
proof -
  have l: "memstr_loop mem cur j sub = str_search mem cur j sub"
    if "cur + j + length sub \<le> Suc (length mem)" for cur j
    using that
  proof (induction j arbitrary: cur)
    case (Suc j)
    have "drop cur mem = mem ! cur # drop (Suc cur) mem"
      using Suc.prems assms(1) by (cases sub) (auto simp: Cons_nth_drop_Suc)
    then have "take (length sub) (drop cur mem) = sub \<Longrightarrow> mem ! cur = hd sub"
      using assms(1) by (cases sub) auto
    moreover have "cur < length mem" using Suc.prems assms(1) by (cases sub) auto
    ultimately show ?case using Suc assms(1) by (auto simp: str_match_iff)
  qed simp
  show ?thesis
  proof (cases "length sub \<le> n")
    case True
    then have "nat (int n - int (length sub) + 1) = n - length sub + 1" by simp
    then show ?thesis using True assms l [of 0 "n - length sub + 1"]
      by (simp add: memstr_def usr_str_btweenpoint_def del: memstr_loop.simps str_search.simps)
  next
    case False
    then have "nat (int n - int (length sub) + 1) = 0" by simp
    then show ?thesis using False assms by (simp add: memstr_def usr_str_btweenpoint_def)
  qed
qed

lemma get_field_none:
  "NUL \<notin> set t \<Longrightarrow> strstr t tag = None \<Longrightarrow> get_field (Some (t @ NUL # r)) tag step (Some out) = Inr (Some out, KEY_FALSE)"
  by (simp add: get_field_def)

lemma get_field_some:
  assumes "NUL \<notin> set t" "strstr t tag = Some k" "k + step < length t"
  shows "get_field (Some (t @ NUL # r)) tag step (Some out) =
    rbind (put_all out 0 (takeWhile (\<lambda>c. \<not> ws c) (dropWhile ws (drop (k + step) t))))
      (\<lambda>out. Inr (Some out, KEY_TRUE))"
proof -
  let ?v = "takeWhile (\<lambda>c. \<not> ws c) (dropWhile ws (drop (k + step) t))"
  have "usr_getvalue_btweenpoint (t @ NUL # r) (Some (k + step)) (Some (length t)) (Some out) =
    rbind (put_all out 0 ?v) (\<lambda>out. Inr (Some out, 0))"
    using getvalue_spec [of "k + step" "length t" "t @ NUL # r" out] assms(3) by simp
  then show ?thesis using assms by (cases "put_all out 0 ?v") (simp_all add: get_field_def)
qed

definition token :: "string \<Rightarrow> bool" where
  "token v \<longleftrightarrow> v \<noteq> [] \<and> list_all (\<lambda>c. \<not> ws c \<and> c \<noteq> NUL) v"

lemma token_value:
  "token v \<Longrightarrow> ws c \<Longrightarrow> takeWhile (\<lambda>c. \<not> ws c) (dropWhile ws (v @ c # r)) = v"
proof -
  assume v: "token v" "ws c"
  then obtain a as where a: "v = a # as" "\<not> ws a" by (cases v) (auto simp: token_def)
  have "takeWhile (\<lambda>c. \<not> ws c) (v @ c # r) = v"
    using v by (auto simp: token_def list_all_iff takeWhile_append2)
  then show ?thesis using a by simp
qed

text \<open>A field whose value is a token followed by white space.\<close>

lemma get_field_token:
  assumes "NUL \<notin> set t" "strstr t tag = Some k" "drop (k + step) t = v @ c # r'" "token v" "ws c"
  shows "get_field (Some (t @ NUL # r)) tag step (Some out) =
    rbind (put_all out 0 v) (\<lambda>out. Inr (Some out, KEY_TRUE))"
proof -
  have "k + step < length t"
  proof (rule ccontr)
    assume "\<not> k + step < length t"
    then have "drop (k + step) t = []" by simp
    then show False using assms(3) by simp
  qed
  then show ?thesis
    using get_field_some [OF assms(1,2), of step r out] assms(3-5) by (simp add: token_value)
qed

section \<open>A request is read back\<close>

definition http_request :: "string \<Rightarrow> string \<Rightarrow> string \<Rightarrow> nat \<Rightarrow> string \<Rightarrow> string" where
  "http_request m u h n body =
     m @ '' '' @ u @ '' HTTP/1.1'' @ CRLF @ ''Host: '' @ h @ CRLF @
     ''Content-Length: '' @ print_nat n @ CRLF @ CRLF @ body"

definition tag_free :: "string \<Rightarrow> bool" where
  "tag_free s \<longleftrightarrow> list_all (\<lambda>tag. strstr s tag = None)
     [''Host:'', ''Content-Length:'', ''content-length:'', ''boundary='']"

definition request_ok :: "string \<Rightarrow> string \<Rightarrow> string \<Rightarrow> nat \<Rightarrow> string \<Rightarrow> bool" where
  "request_ok m u h n body \<longleftrightarrow> (m = ''POST'' \<or> m = ''GET'') \<and> token u \<and> token h \<and>
     tag_free u \<and> tag_free h \<and> tag_free body \<and> NUL \<notin> set body \<and>
     length u \<le> 128 \<and> length h \<le> 64 \<and> n < 10 ^ 9"

lemma request_okD:
  assumes "request_ok m u h n body"
  shows "m = ''POST'' \<or> m = ''GET''" "token u" "token h" "NUL \<notin> set body" "length u \<le> 128"
    "length h \<le> 64" "n < 10 ^ 9"
    "tag \<in> {''Host:'', ''Content-Length:'', ''content-length:'', ''boundary=''} \<Longrightarrow>
      strstr u tag = None \<and> strstr h tag = None \<and> strstr body tag = None"
  using assms by (auto simp: request_ok_def tag_free_def)

lemma request_parts:
  "http_request m u h n body = m @ CHR '' '' # u @ CHR '' '' # ''HTTP/1.1'' @ CHR 0x0D # CHR 0x0A #
     ''Host:'' @ CHR '' '' # h @ CHR 0x0D # CHR 0x0A # ''Content-Length:'' @ CHR '' '' #
     print_nat n @ CHR 0x0D # CHR 0x0A # CHR 0x0D # CHR 0x0A # body"
  by (simp add: http_request_def CRLF_def)

lemma print_nat_notin: "\<not> c_isdigit c \<Longrightarrow> c \<notin> set (print_nat n)"
  using print_nat_digits by blast

lemma token_notin: "token v \<Longrightarrow> ws c \<Longrightarrow> c \<notin> set v" "token v \<Longrightarrow> NUL \<notin> set v"
  by (auto simp: token_def list_all_iff)

lemma request_no_NUL:
  assumes "request_ok m u h n body"
  shows "NUL \<notin> set (http_request m u h n body)"
proof -
  note ok = request_okD [OF assms]
  have "NUL \<notin> set (print_nat n)" by (rule print_nat_notin) (simp add: c_isdigit_def)
  then show ?thesis
    using ok(1,4) token_notin(2) [OF ok(2)] token_notin(2) [OF ok(3)] by (auto simp: request_parts)
qed

lemma strstr_head:
  assumes "request_ok m u h n body" "p \<in> {''Host:'', ''Content-Length:'', ''content-length:'', ''boundary=''}"
  shows "strstr (http_request m u h n body) p = map_option ((+) (length m + length u + 2))
    (strstr (''HTTP/1.1'' @ CHR 0x0D # CHR 0x0A # ''Host:'' @ CHR '' '' # h @ CHR 0x0D # CHR 0x0A #
      ''Content-Length:'' @ CHR '' '' # print_nat n @ CHR 0x0D # CHR 0x0A # CHR 0x0D # CHR 0x0A # body) p)"
proof -
  note ok = request_okD [OF assms(1)]
  have p: "p \<noteq> []" "CHR '' '' \<notin> set p" using assms(2) by auto
  have m: "strstr m p = None" using ok(1) assms(2) by auto
  show ?thesis unfolding request_parts
    by (simp add: strstr_sep_None [OF p m] strstr_sep_None [OF p ok(8) [OF assms(2), THEN conjunct1]]
        option.map_comp comp_def) (auto intro!: option.map_cong)
qed

lemma strstr_host:
  "request_ok m u h n body \<Longrightarrow>
   strstr (http_request m u h n body) ''Host:'' = Some (length m + length u + 12)"
  by (simp add: strstr_head)

lemma strstr_rest:
  assumes "request_ok m u h n body" "p \<in> {''Content-Length:'', ''content-length:'', ''boundary=''}"
  shows "strstr (http_request m u h n body) p = map_option ((+) (length m + length u + length h + 19))
    (strstr (CHR 0x0A # ''Content-Length:'' @ CHR '' '' # print_nat n @ CHR 0x0D # CHR 0x0A # CHR 0x0D # CHR 0x0A # body) p)"
proof -
  note ok = request_okD [OF assms(1)]
  have p: "p \<noteq> []" "CHR '' '' \<notin> set p" "CHR 0x0D \<notin> set p" using assms(2) by auto
  have h: "strstr h p = None" using assms(2) ok(8) [of p] by auto
  define hh where "hh = ''HTTP/1.1'' @ CHR 0x0D # CHR 0x0A # ''Host:''"
  have 1: "strstr hh p = None" "length hh = 15" using assms(2) by (auto simp: hh_def)
  let ?r = "CHR 0x0A # ''Content-Length:'' @ CHR '' '' # print_nat n @ CHR 0x0D # CHR 0x0A # CHR 0x0D # CHR 0x0A # body"
  have "strstr (''HTTP/1.1'' @ CHR 0x0D # CHR 0x0A # ''Host:'' @ CHR '' '' # h @ CHR 0x0D # ?r) p =
        strstr (hh @ CHR '' '' # h @ CHR 0x0D # ?r) p" by (simp only: hh_def append_assoc append.simps)
  also have "\<dots> = map_option ((+) (Suc 15)) (strstr (h @ CHR 0x0D # ?r) p)"
    by (simp only: strstr_sep_None [OF p(1,2) 1(1)] 1(2))
  also have "\<dots> = map_option ((+) (Suc 15)) (map_option ((+) (Suc (length h))) (strstr ?r p))"
    by (simp only: strstr_sep_None [OF p(1,3) h])
  finally have e: "strstr (''HTTP/1.1'' @ CHR 0x0D # CHR 0x0A # ''Host:'' @ CHR '' '' # h @ CHR 0x0D # ?r) p =
    map_option ((+) (Suc 15)) (map_option ((+) (Suc (length h))) (strstr ?r p))" .
  have i: "p \<in> {''Host:'', ''Content-Length:'', ''content-length:'', ''boundary=''}" using assms(2) by blast
  show ?thesis
    unfolding strstr_head [OF assms(1) i] e option.map_comp
    by (intro option.map_cong) (simp_all add: comp_def)
qed

lemma strstr_content_length:
  "request_ok m u h n body \<Longrightarrow>
   strstr (http_request m u h n body) ''Content-Length:'' = Some (length m + length u + length h + 20)"
  by (simp add: strstr_rest)

lemma strstr_other:
  assumes "request_ok m u h n body" "p = ''content-length:'' \<or> p = ''boundary=''"
  shows "strstr (http_request m u h n body) p = None"
proof -
  have p: "p \<noteq> []" "CHR 0x0D \<notin> set p" "CHR '' '' \<notin> set p" using assms(2) by auto
  have "hd p \<notin> set (print_nat n)" using assms(2) by (auto simp: c_isdigit_def intro!: print_nat_notin)
  then have n: "strstr (print_nat n) p = None" by (rule strstr_absent [OF p(1)])
  have b: "strstr body p = None" using assms request_okD(8) [OF assms(1), of p] by auto
  define cl where "cl = CHR 0x0A # ''Content-Length:''"
  have c: "strstr cl p = None" using assms(2) by (auto simp: cl_def)
  let ?r = "CHR 0x0A # CHR 0x0D # CHR 0x0A # body"
  have "strstr ?r p = None" using b assms(2) by auto
  then have "strstr (print_nat n @ CHR 0x0D # ?r) p = None"
    by (simp only: strstr_sep_None [OF p(1,2) n]) simp
  then have "strstr (cl @ CHR '' '' # print_nat n @ CHR 0x0D # ?r) p = None"
    by (simp only: strstr_sep_None [OF p(1,3) c]) simp
  then have "strstr (CHR 0x0A # ''Content-Length:'' @ CHR '' '' # print_nat n @ CHR 0x0D # ?r) p = None"
    by (simp only: cl_def append_assoc append.simps)
  then show ?thesis using assms by (subst strstr_rest) auto
qed

text \<open>The head ends at the blank line.\<close>

definition head_length :: "string \<Rightarrow> string \<Rightarrow> string \<Rightarrow> nat \<Rightarrow> nat" where
  "head_length m u h n = length (http_request m u h n [])"

lemma http_request_split: "http_request m u h n body = http_request m u h n [] @ body"
  by (simp add: http_request_def)

lemma strstr_blank:
  assumes "request_ok m u h n body"
  shows "strstr (http_request m u h n body) (CRLF @ CRLF) = Some (head_length m u h n - 4)"
proof -
  note ok = request_okD [OF assms]
  have c: "hd (CRLF @ CRLF) = CHR 0x0D" "CRLF @ CRLF \<noteq> []" by (simp_all add: CRLF_def)
  have ws: "ws (CHR 0x0D)" by (simp add: ws_def)
  have "CHR 0x0D \<notin> set (m @ CHR '' '' # u @ CHR '' '' # ''HTTP/1.1'')"
    using ok(1) token_notin(1) [OF ok(2) ws] by auto
  note 1 = strstr_not_starting [OF c(2), unfolded c(1), OF this]
  note 2 = strstr_not_starting [OF c(2), unfolded c(1), OF token_notin(1) [OF ok(3) ws]]
  have "CHR 0x0D \<notin> set (print_nat n)" by (rule print_nat_notin) (simp add: c_isdigit_def)
  note 3 = strstr_not_starting [OF c(2), unfolded c(1), OF this]
  have "strstr (h @ CHR 0x0D # CHR 0x0A # ''Content-Length: '' @ print_nat n @ CRLF @ CRLF @ body) (CRLF @ CRLF)
      = Some (length h + 18 + length (print_nat n))"
    unfolding 2 by (simp add: CRLF_def 3 [unfolded CRLF_def, simplified])
  then have "strstr (CHR 0x0D # CHR 0x0A # ''Host: '' @ h @ CHR 0x0D # CHR 0x0A # ''Content-Length: '' @
      print_nat n @ CRLF @ CRLF @ body) (CRLF @ CRLF) = Some (8 + length h + 18 + length (print_nat n))"
    by (simp add: CRLF_def)
  then have "strstr ((m @ CHR '' '' # u @ CHR '' '' # ''HTTP/1.1'') @ CHR 0x0D # CHR 0x0A # ''Host: '' @ h @
      CHR 0x0D # CHR 0x0A # ''Content-Length: '' @ print_nat n @ CRLF @ CRLF @ body) (CRLF @ CRLF) =
      Some (length m + length u + 36 + length h + length (print_nat n))"
    unfolding 1 by simp
  then show ?thesis by (simp add: http_request_def head_length_def CRLF_def)
qed

lemma drop_at: "xs = p @ s \<Longrightarrow> length p = k \<Longrightarrow> drop k xs = s"
  by simp

lemma request_at:
  assumes "request_ok m u h n body"
  shows "drop (length m + 1) (http_request m u h n body) =
           u @ CHR '' '' # drop (length m + length u + 2) (http_request m u h n body)"
    "drop (length m + length u + 18) (http_request m u h n body) =
           h @ CHR 0x0D # drop (length m + length u + length h + 19) (http_request m u h n body)"
    "drop (length m + length u + length h + 36) (http_request m u h n body) =
           print_nat n @ CHR 0x0D # CHR 0x0A # CHR 0x0D # CHR 0x0A # body"
proof -
  let ?t1 = "''HTTP/1.1'' @ CRLF @ ''Host: '' @ h @ CRLF @ ''Content-Length: '' @ print_nat n @ CRLF @ CRLF @ body"
  let ?t2 = "CHR 0x0A # ''Content-Length: '' @ print_nat n @ CRLF @ CRLF @ body"
  have "drop (length m + length u + 2) (http_request m u h n body) = ?t1"
    by (rule drop_at [of _ "m @ '' '' @ u @ '' ''"]) (simp_all add: http_request_def CRLF_def)
  moreover have "drop (length m + length u + length h + 19) (http_request m u h n body) = ?t2"
    by (rule drop_at [of _ "m @ '' '' @ u @ '' HTTP/1.1'' @ CRLF @ ''Host: '' @ h @ [CHR 0x0D]"])
      (simp_all add: http_request_def CRLF_def)
  moreover have "drop (length m + 1) (http_request m u h n body) = u @ CHR '' '' # ?t1"
    by (rule drop_at [of _ "m @ '' ''"]) (simp_all add: http_request_def)
  moreover have "drop (length m + length u + 18) (http_request m u h n body) = h @ CHR 0x0D # ?t2"
    by (rule drop_at [of _ "m @ '' '' @ u @ '' HTTP/1.1'' @ CRLF @ ''Host: ''"])
      (simp_all add: http_request_def CRLF_def)
  ultimately show "drop (length m + 1) (http_request m u h n body) =
           u @ CHR '' '' # drop (length m + length u + 2) (http_request m u h n body)"
    "drop (length m + length u + 18) (http_request m u h n body) =
           h @ CHR 0x0D # drop (length m + length u + length h + 19) (http_request m u h n body)"
    by simp_all
  show "drop (length m + length u + length h + 36) (http_request m u h n body) =
           print_nat n @ CHR 0x0D # CHR 0x0A # CHR 0x0D # CHR 0x0A # body"
    by (rule drop_at [of _ "m @ '' '' @ u @ '' HTTP/1.1'' @ CRLF @ ''Host: '' @ h @ CRLF @ ''Content-Length: ''"])
      (simp_all add: http_request_def CRLF_def)
qed

lemma ws_simps [simp]: "ws (CHR '' '')" "ws (CHR 0x0D)" "ws (CHR 0x0A)"
  by (simp_all add: ws_def)

lemma print_nat_token: "token (print_nat n)"
proof -
  have "\<not> ws c \<and> c \<noteq> NUL" if "c_isdigit c" for c
    using that by (auto simp: c_isdigit_def ws_def)
  then show ?thesis using print_nat_digits by (auto simp: token_def list_all_iff)
qed

lemma put_all_zero:
  "length s \<le> k \<Longrightarrow> put_all (replicate k NUL) 0 s = Inr (s @ replicate (k - length s) NUL)"
  by (simp add: put_all_def)

lemma GetHttpUrl_request:
  assumes "request_ok m u h n body"
  shows "GetHttpUrl (Some (http_request m u h n body @ NUL # r)) (Some (replicate 128 NUL)) =
         Inr (Some (u @ replicate (128 - length u) NUL), KEY_TRUE)"
proof -
  have "strstr (http_request m u h n body) '' '' = Some (length m)"
    using request_okD(1) [OF assms] by (auto simp: http_request_def)
  then show ?thesis
    using get_field_token [OF request_no_NUL [OF assms] _ request_at(1) [OF assms] request_okD(2) [OF assms]]
      request_okD(5) [OF assms]
    by (simp add: GetHttpUrl_def put_all_zero)
qed

lemma GetHttpHost_request:
  assumes "request_ok m u h n body"
  shows "GetHttpHost (Some (http_request m u h n body @ NUL # r)) (Some (replicate 64 NUL)) =
         Inr (Some (h @ replicate (64 - length h) NUL), KEY_TRUE)"
proof -
  have "drop (length m + length u + 12 + (length ''Host:'' + 1)) (http_request m u h n body) =
    h @ CHR 0x0D # drop (length m + length u + length h + 19) (http_request m u h n body)"
    using request_at(2) [OF assms] by (simp add: ac_simps)
  from get_field_token [OF request_no_NUL [OF assms] strstr_host [OF assms] this request_okD(3) [OF assms]]
  show ?thesis using request_okD(6) [OF assms]
    by (simp only: GetHttpHost_def ws_simps put_all_zero) simp
qed

lemma GetHttpContentLenth_request:
  assumes "request_ok m u h n body"
  shows "GetHttpContentLenth (Some (http_request m u h n body @ NUL # r)) = Inr (int n)"
proof -
  have d: "drop (length m + length u + length h + 20 + (length ''Content-Length:'' + 1)) (http_request m u h n body) =
    print_nat n @ CHR 0x0D # CHR 0x0A # CHR 0x0D # CHR 0x0A # body"
    using request_at(3) [OF assms] by (simp add: ac_simps)
  have l: "length (print_nat n) \<le> 9" using length_print_nat [of n 8] request_okD(7) [OF assms] by simp
  have "get_field (Some (http_request m u h n body @ NUL # r)) ''Content-Length:''
      (length ''Content-Length:'' + 1) (Some (replicate 16 NUL)) =
    Inr (Some (print_nat n @ replicate (16 - length (print_nat n)) NUL), KEY_TRUE)"
    using get_field_token [OF request_no_NUL [OF assms] strstr_content_length [OF assms] d print_nat_token] l
    by (simp only: ws_simps put_all_zero) simp
  moreover have "replicate (16 - length (print_nat n)) NUL = NUL # replicate (15 - length (print_nat n)) NUL"
    using l by (simp add: replicate_Suc [symmetric] Suc_diff_le del: replicate_Suc)
  moreover have "atoi (print_nat n) = int n" using atoi_print_int [of "[]" "int n"] by (simp add: print_int_def)
  ultimately show ?thesis using token_notin(2) [OF print_nat_token]
    by (simp add: GetHttpContentLenth_def)
qed

lemma method_request:
  assumes "request_ok m u h n body"
  shows "\<exists>v. usr_getvalue_btweenpoint (http_request m u h n body @ NUL # r) (Some 0) (Some 5)
               (Some (replicate 8 NUL)) = Inr (Some v, 0) \<and> c_str v 0 = Inr m"
proof -
  obtain c cs where u: "u = c # cs" using request_okD(2) [OF assms] by (cases u) (auto simp: token_def)
  have l: "5 \<le> length (http_request m u h n body @ NUL # r)" by (simp add: http_request_def)
  have "takeWhile (\<lambda>c. \<not> ws c) (dropWhile ws (take 5 (http_request m u h n body @ NUL # r))) = m"
    using request_okD(1) [OF assms] by (auto simp: http_request_def u ws_def)
  moreover have "length m \<le> 4" "NUL \<notin> set m" using request_okD(1) [OF assms] by auto
  moreover have "replicate (8 - length m) NUL = NUL # replicate (7 - length m) NUL" if "length m \<le> 4"
    using that by (simp add: replicate_Suc [symmetric] Suc_diff_le del: replicate_Suc)
  ultimately show ?thesis using getvalue_spec [OF _ l, of 0 "replicate 8 NUL"] by (simp add: put_all_zero)
qed

lemma request_head_fields:
  assumes "request_ok m u h n body"
  shows "GetHttpRequstHead head0 (http_request m u h n body @ NUL # r) len =
    Inr \<lparr>hmethod = (if m = ''POST'' then HTTP_POST else HTTP_GET), hconnect = HTTP_CONNECT_NULL,
         contentLength = int n, host = h @ replicate (64 - length h) NUL,
         url = u @ replicate (128 - length u) NUL, boundary = replicate 256 NUL\<rparr>"
proof -
  have b: "GetHttpBoundary (Some (http_request m u h n body @ NUL # r)) (Some (replicate 256 NUL)) =
      Inr (Some (replicate 256 NUL), KEY_FALSE)"
    unfolding GetHttpBoundary_def
    using strstr_other [OF assms] by (intro get_field_none request_no_NUL [OF assms]) blast
  have m: "HttpMethodStrToInt m = (if m = ''POST'' then HTTP_POST else HTTP_GET)"
    using request_okD(1) [OF assms]
    by (auto simp: HttpMethodStrToInt_def strcasecmp_iff to_lower_def upper_c_def)
  obtain v where "usr_getvalue_btweenpoint (http_request m u h n body @ NUL # r) (Some 0) (Some 5)
      (Some (replicate 8 NUL)) = Inr (Some v, 0)" "c_str v 0 = Inr m"
    using method_request [OF assms] by blast
  then show ?thesis
    by (simp add: GetHttpRequstHead_def head0_def m b Let_def GetHttpUrl_request [OF assms]
        GetHttpHost_request [OF assms] GetHttpContentLenth_request [OF assms])
qed

text \<open>
  Reading a request back: for a POST or GET request with a target of at most 128 and a host
  of at most 64 characters that contain no white space and none of the searched tags,
  \<^verbatim>\<open>GetHttpRequstHead\<close> finds the method, the target, the host and the declared length, and fills
  the arrays with nothing else.
\<close>

theorem request_head:
  assumes "request_ok m u h n body"
  shows "GetHttpRequstHead head0 (http_request m u h n body @ NUL # r) len =
    Inr \<lparr>hmethod = (if m = ''POST'' then HTTP_POST else HTTP_GET), hconnect = HTTP_CONNECT_NULL,
         contentLength = int n, host = h @ replicate (64 - length h) NUL,
         url = u @ replicate (128 - length u) NUL, boundary = replicate 256 NUL\<rparr>"
  using assms by (rule request_head_fields)

theorem request_head_witness:
  "\<exists>head. GetHttpRequstHead head0 (http_request ''POST'' ''/api'' ''gw:80'' 2 ''{}'' @ [NUL]) 80 = Inr head \<and>
     hmethod head = HTTP_POST \<and> contentLength head = 2 \<and> take 5 (url head) = ''/api'' @ [NUL]"
proof -
  have "request_ok ''POST'' ''/api'' ''gw:80'' 2 ''{}''"
    by (simp add: request_ok_def token_def tag_free_def ws_def)
  from request_head [OF this, of "[]" 80] show ?thesis by simp
qed

section \<open>Requests that overrun the parser\<close>

text \<open>Every fault of the field readers is an access outside an array.\<close>

lemma rbind_oob:
  assumes "\<And>e. m = Inl e \<Longrightarrow> e = OutOfBounds" "\<And>x. m = Inr x \<Longrightarrow> f x = Inl OutOfBounds"
  shows "rbind m f = Inl OutOfBounds"
  using assms by (cases m) auto

lemma put_all_fault: "put_all mem k s = Inl e \<Longrightarrow> e = OutOfBounds"
  by (auto simp: put_all_def split: if_splits)

text \<open>
  A target of more than 128 characters overruns \<^verbatim>\<open>url[128]\<close> on the stack: there is no check
  between the socket and the copy, so whatever the rest of the request and the dispatcher, the
  request is not answered but ends in an access outside the array.
\<close>

theorem long_target_overruns:
  assumes "m = ''POST'' \<or> m = ''GET''" "token u" "length u > 128" "NUL \<notin> set rest"
  shows "ParesHttpMsg JsonSwitch now (m @ '' '' @ u @ '' '' @ rest @ NUL # r) len out = Inl OutOfBounds"
proof -
  let ?t = "m @ '' '' @ u @ '' '' @ rest"
  let ?mem = "?t @ NUL # r"
  have n: "NUL \<notin> set ?t" using assms(1,4) token_notin(2) [OF assms(2)] by auto
  have l: "5 \<le> length ?mem" using assms(3) by simp
  have k: "strstr ?t '' '' = Some (length m)" using assms(1) by auto
  have d: "drop (length m + 1) ?t = u @ CHR '' '' # rest" using assms(1) by auto
  have "put_all (replicate 128 NUL) 0 u = Inl OutOfBounds" using assms(3) by (simp add: put_all_def)
  then have "GetHttpUrl (Some ?mem) (Some (replicate 128 NUL)) = Inl OutOfBounds"
    using get_field_token [OF n k d assms(2), of r "replicate 128 NUL"] unfolding GetHttpUrl_def by simp
  then have "GetHttpRequstHead head0 ?mem len = Inl OutOfBounds"
    unfolding GetHttpRequstHead_def getvalue_spec [OF zero_less_numeral l]
    by (intro rbind_oob) (auto simp: head0_def Let_def c_str_def outcome_iff put_all_def split: if_splits)
  then show ?thesis by (simp add: ParesHttpMsg_def)
qed

theorem long_target_overruns_witness:
  "ParesHttpMsg (\<lambda>body buff. Inr ((), buff, KEY_TRUE)) \<lparr>tm_wday = 1, tm_mday = 2, tm_mon = 3, tm_year = 120, tm_hour = 4, tm_min = 5, tm_sec = 6\<rparr>
     (''GET '' @ replicate 200 (CHR ''a'') @ '' HTTP/1.1'' @ [NUL]) 213 (replicate HTTPMSG_MAXLEN NUL) = Inl OutOfBounds"
proof -
  have "token (replicate 200 (CHR ''a''))" by (simp add: token_def ws_def list_all_iff)
  from long_target_overruns [OF _ this, of "''GET''" "''HTTP/1.1''" _ _ "[]"] show ?thesis by simp
qed

section \<open>When a request is complete\<close>

text \<open>
  The server calls \<open>HttpChecked\<close> after every read, with what has arrived so far in the receive buffer.
\<close>

text \<open>What the connection has learnt about the request: nothing, or the length of its two parts.\<close>

definition knows :: "string \<Rightarrow> string \<Rightarrow> string \<Rightarrow> nat \<Rightarrow> HttpDef_S NetCliInfo_T \<Rightarrow> bool" where
  "knows m u h n cli \<longleftrightarrow> (case usrdef cli of None \<Rightarrow> True
     | Some i \<Rightarrow> i = \<lparr>ContentLen = 0, HeadLen = 0, IsHeadEnd = KEY_FALSE\<rparr> \<or>
         i = \<lparr>ContentLen = int n, HeadLen = int (head_length m u h n), IsHeadEnd = KEY_TRUE\<rparr>)"

lemma request_prefix_ok:
  assumes "request_ok m u h n body"
  shows "request_ok m u h n (take j body)"
proof -
  have "strstr (take j body) tag = None" if "strstr body tag = None" for tag
  proof (rule ccontr)
    assume "strstr (take j body) tag \<noteq> None"
    then obtain k where k: "strstr (take j body) tag = Some k" by blast
    then obtain r where "drop k (take j body) = tag @ r" using strstr_Some is_prefix_iff by blast
    then have "is_prefix tag (drop k body)"
      by (metis append_assoc append_take_drop_id drop_take is_prefix_iff)
    then show False using strstr_None [OF that, of k] by simp
  qed
  then show ?thesis using assms
    by (auto simp: request_ok_def tag_free_def dest: in_set_takeD)
qed

lemma head_length_min: "4 \<le> head_length m u h n"
  by (simp add: head_length_def http_request_def CRLF_def)

lemma take_request:
  "head_length m u h n \<le> k \<Longrightarrow>
   take k (http_request m u h n body) = http_request m u h n (take (k - head_length m u h n) body)"
  by (subst (1 2) http_request_split) (simp add: head_length_def)

lemma checked_length_request:
  assumes "request_ok m u h n body"
  shows "\<exists>j. strstr (drop (length m + length u + length h + 20) (http_request m u h n body)) CRLF = Some j \<and>
     checked_length (http_request m u h n body) (length m + length u + length h + 20)
       (length m + length u + length h + 20 + j) = Inr (int n)"
proof -
  let ?t = "http_request m u h n body"
  have d: "drop (length m + length u + length h + 20) ?t =
      ''Content-Length: '' @ print_nat n @ CRLF @ CRLF @ body"
    by (rule drop_at [of _ "m @ '' '' @ u @ '' HTTP/1.1'' @ CRLF @ ''Host: '' @ h @ CRLF"])
      (simp_all add: http_request_def CRLF_def)
  have "CHR 0x0D \<notin> set (''Content-Length: '' @ print_nat n)"
    using print_nat_notin [of "CHR 0x0D" n] by (simp add: c_isdigit_def)
  then have s: "strstr ((''Content-Length: '' @ print_nat n) @ CRLF @ CRLF @ body) CRLF =
      map_option ((+) (length (''Content-Length: '' @ print_nat n))) (strstr (CRLF @ CRLF @ body) CRLF)"
    by (intro strstr_not_starting) (simp_all add: CRLF_def)
  have "strstr (CRLF @ CRLF @ body) CRLF = Some 0" by (simp add: CRLF_def)
  then have j: "strstr (drop (length m + length u + length h + 20) ?t) CRLF = Some (16 + length (print_nat n))"
    using s d by simp
  have l: "length (print_nat n) \<le> 9" using length_print_nat [of n 8] request_okD(7) [OF assms] by simp
  have t: "take (length (print_nat n)) (drop (length m + length u + length h + 36) ?t) = print_nat n"
    using request_at(3) [OF assms] by simp
  have r: "replicate (32 - length (print_nat n)) NUL = NUL # replicate (31 - length (print_nat n)) NUL"
    using l by (simp add: replicate_Suc [symmetric] Suc_diff_le del: replicate_Suc)
  have "checked_length ?t (length m + length u + length h + 20)
       (length m + length u + length h + 20 + (16 + length (print_nat n))) = Inr (atoi (print_nat n))"
    using l t token_notin(2) [OF print_nat_token]
    by (simp add: checked_length_def Let_def put_all_zero r add.commute add.left_commute)
  moreover have "atoi (print_nat n) = int n" using atoi_print_int [of "[]" "int n"] by (simp add: print_int_def)
  ultimately show ?thesis using j by auto
qed

lemma checked_whole_head:
  assumes ok: "request_ok m u h n body"
    and cli: "recvmsg cli = http_request m u h n body @ NUL # r" "usrdef cli = None \<or>
      usrdef cli = Some \<lparr>ContentLen = 0, HeadLen = 0, IsHeadEnd = KEY_FALSE\<rparr>"
  shows "HttpChecked cli = Inr (cli\<lparr>usrdef := Some \<lparr>ContentLen = int n, HeadLen = int (head_length m u h n),
      IsHeadEnd = KEY_TRUE\<rparr>\<rparr>,
    if int n + int (head_length m u h n) \<le> recvLen cli then KEY_TRUE else KEY_FALSE)"
proof -
  obtain j where j: "strstr (drop (length m + length u + length h + 20) (http_request m u h n body)) CRLF = Some j"
    "checked_length (http_request m u h n body) (length m + length u + length h + 20)
       (length m + length u + length h + 20 + j) = Inr (int n)"
    using checked_length_request [OF ok] by blast
  have s: "(case usrdef cli of None \<Rightarrow> \<lparr>ContentLen = 0, HeadLen = 0, IsHeadEnd = KEY_FALSE\<rparr> | Some i \<Rightarrow> i) =
      \<lparr>ContentLen = 0, HeadLen = 0, IsHeadEnd = KEY_FALSE\<rparr>"
    using cli(2) by auto
  have t: "c_str (recvmsg cli) 0 = Inr (http_request m u h n body)"
    using request_no_NUL [OF ok] cli(1) by simp
  have l: "head_length m u h n - 4 + length (CRLF @ CRLF) = head_length m u h n"
    using head_length_min [of m u h n] by (simp add: CRLF_def)
  have c: "strstr (http_request m u h n body) ''content-length:'' = None" using strstr_other [OF ok] by blast
  show ?thesis
    unfolding HttpChecked_def Let_def s
    by (simp add: t c strstr_content_length [OF ok] j strstr_blank [OF ok] l del: length_append of_nat_add)
qed

lemma checked_no_head:
  assumes ok: "request_ok m u h n body" and k: "k < head_length m u h n"
    and cli: "recvmsg cli = take k (http_request m u h n body) @ NUL # r" "usrdef cli = None \<or>
      usrdef cli = Some \<lparr>ContentLen = 0, HeadLen = 0, IsHeadEnd = KEY_FALSE\<rparr>"
  shows "HttpChecked cli = Inr (cli\<lparr>usrdef := Some \<lparr>ContentLen = 0, HeadLen = 0, IsHeadEnd = KEY_FALSE\<rparr>\<rparr>, KEY_FALSE)"
proof -
  have s: "(case usrdef cli of None \<Rightarrow> \<lparr>ContentLen = 0, HeadLen = 0, IsHeadEnd = KEY_FALSE\<rparr> | Some i \<Rightarrow> i) =
      \<lparr>ContentLen = 0, HeadLen = 0, IsHeadEnd = KEY_FALSE\<rparr>"
    using cli(2) by auto
  have "NUL \<notin> set (take k (http_request m u h n body))"
    using request_no_NUL [OF ok] by (meson in_set_takeD)
  then have t: "c_str (recvmsg cli) 0 = Inr (take k (http_request m u h n body))" using cli(1) by simp
  have "strstr (take k (http_request m u h n body)) (CRLF @ CRLF) = None"
    using strstr_take [OF strstr_blank [OF ok], of k] k head_length_min [of m u h n] by (simp add: CRLF_def)
  then show ?thesis unfolding HttpChecked_def Let_def s by (simp add: t)
qed

lemma checked_step:
  assumes ok: "request_ok m u h n body" and n: "length body = n" "0 < n" and "knows m u h n cli"
    and msg: "recvmsg cli = take k (http_request m u h n body) @ NUL # r" "recvLen cli = int k"
    and k: "k \<le> length (http_request m u h n body)"
  shows "\<exists>i. HttpChecked cli = Inr (cli\<lparr>usrdef := Some i\<rparr>, if k = length (http_request m u h n body) then KEY_TRUE else KEY_FALSE) \<and>
      knows m u h n (cli\<lparr>usrdef := Some i\<rparr>)"
proof -
  let ?req = "http_request m u h n body" and ?hl = "head_length m u h n"
  have len: "length ?req = ?hl + n"
    using n(1) by (subst http_request_split) (simp add: head_length_def)
  have all: "(int n + int ?hl \<le> recvLen cli) = (k = length ?req)" using msg(2) k by (auto simp: len)
  show ?thesis
  proof (cases "usrdef cli = None \<or> usrdef cli = Some \<lparr>ContentLen = 0, HeadLen = 0, IsHeadEnd = KEY_FALSE\<rparr>")
    case True
    show ?thesis
    proof (cases "k < ?hl")
      case short: True
      have "HttpChecked cli = Inr (cli\<lparr>usrdef := Some \<lparr>ContentLen = 0, HeadLen = 0, IsHeadEnd = KEY_FALSE\<rparr>\<rparr>, KEY_FALSE)"
        by (rule checked_no_head [OF ok short msg(1) True])
      moreover have "k \<noteq> length ?req" using short len by simp
      ultimately show ?thesis
        by (intro exI [of _ "\<lparr>ContentLen = 0, HeadLen = 0, IsHeadEnd = KEY_FALSE\<rparr>"]) (simp add: knows_def)
    next
      case False
      then have "HttpChecked cli = Inr (cli\<lparr>usrdef := Some \<lparr>ContentLen = int n, HeadLen = int ?hl, IsHeadEnd = KEY_TRUE\<rparr>\<rparr>,
          if int n + int ?hl \<le> recvLen cli then KEY_TRUE else KEY_FALSE)"
        using True msg(1)
        by (intro checked_whole_head [OF request_prefix_ok [OF ok, of "k - ?hl"]]) (simp_all add: take_request)
      then show ?thesis unfolding all
        by (intro exI [of _ "\<lparr>ContentLen = int n, HeadLen = int ?hl, IsHeadEnd = KEY_TRUE\<rparr>"]) (simp add: knows_def)
    qed
  next
    case False
    then have "usrdef cli = Some \<lparr>ContentLen = int n, HeadLen = int ?hl, IsHeadEnd = KEY_TRUE\<rparr>"
      using assms(4) by (auto simp: knows_def split: option.splits)
    then have "HttpChecked cli = Inr (cli\<lparr>usrdef := Some \<lparr>ContentLen = int n, HeadLen = int ?hl, IsHeadEnd = KEY_TRUE\<rparr>\<rparr>,
          if int n + int ?hl \<le> recvLen cli then KEY_TRUE else KEY_FALSE)"
      using n(2) by (simp add: HttpChecked_def)
    then show ?thesis unfolding all
      by (intro exI [of _ "\<lparr>ContentLen = int n, HeadLen = int ?hl, IsHeadEnd = KEY_TRUE\<rparr>"]) (simp add: knows_def)
  qed
qed

text \<open>
  The events of a connection on which a request arrives: pieces of it, none empty, and at most five
  timeouts of \<^verbatim>\<open>select\<close>.
\<close>

fun pieces :: "recv_event list \<Rightarrow> string" where
  "pieces [] = []"
| "pieces (RecvData d # es) = d @ pieces es"
| "pieces (_ # es) = pieces es"

definition arrives :: "recv_event list \<Rightarrow> string \<Rightarrow> bool" where
  "arrives es req \<longleftrightarrow> pieces es = req \<and> list_all (\<lambda>e. case e of RecvData d \<Rightarrow> d \<noteq> [] | SelectTimeout \<Rightarrow> True | _ \<Rightarrow> False) es \<and>
     length (filter (\<lambda>e. e = SelectTimeout) es) \<le> 5"

definition received :: "SocketList_S \<Rightarrow> string \<Rightarrow> HttpDef_S \<Rightarrow> HttpDef_S NetCliInfo_T" where
  "received si req i = \<lparr>fromIP = sock_ip si, fromPort = sock_port si, recvSocket = sockfd si, recvLen = int (length req),
     recvmsg = req @ replicate (DF_NET_MSGBUFLEN - length req) NUL, usrdef = Some i\<rparr>"

text \<open>The callback gets the whole request, however it arrived.\<close>

lemma recv_loop_request:
  assumes ok: "request_ok m u h n body" "length body = n" "0 < n" and size: "length (http_request m u h n body) < DF_NET_MSGBUFLEN"
  shows "k < length (http_request m u h n body) \<Longrightarrow> pieces es = drop k (http_request m u h n body) \<Longrightarrow>
    list_all (\<lambda>e. case e of RecvData d \<Rightarrow> d \<noteq> [] | SelectTimeout \<Rightarrow> True | _ \<Rightarrow> False) es \<Longrightarrow>
    tc + length (filter (\<lambda>e. e = SelectTimeout) es) \<le> 5 \<Longrightarrow> recvLen cli = int k \<Longrightarrow> knows m u h n cli \<Longrightarrow>
    recvmsg cli = take k (http_request m u h n body) @ replicate (DF_NET_MSGBUFLEN - k) NUL \<Longrightarrow>
    \<exists>i. recv_loop HttpChecked readcb si cli tc es =
        rbind (readcb (received si (http_request m u h n body) i)) (\<lambda>r. Inr (Served r))"
proof (induction es arbitrary: cli k tc)
  case (Cons e es)
  let ?req = "http_request m u h n body"
  show ?case
  proof (cases e)
    case (RecvData d)
    let ?k = "k + length d"
    have d: "drop k ?req = d @ pieces es" "d \<noteq> []" using Cons.prems(2,3) RecvData by simp_all
    have k': "?k \<le> length ?req" using arg_cong [OF d(1), where f = length] Cons.prems(1) by simp
    have tk: "take ?k ?req = take k ?req @ d" by (simp add: take_add d(1))
    have dk: "pieces es = drop ?k ?req" using arg_cong [OF d(1), where f = "drop (length d)"] by (simp add: add.commute)
    have room: "take (nat (int DF_NET_MSGBUFLEN - recvLen cli)) d = d" using Cons.prems(5) k' size by simp
    let ?msg = "take ?k ?req @ replicate (DF_NET_MSGBUFLEN - ?k) NUL"
    let ?cli = "cli\<lparr>recvmsg := ?msg, fromIP := sock_ip si, fromPort := sock_port si,
                    recvLen := recvLen cli + int (length d), recvSocket := sockfd si\<rparr>"
    have put: "put_all (recvmsg cli) (nat (recvLen cli)) d = Inr ?msg"
      using Cons.prems(1,5,7) k' size tk by (simp add: put_all_fits)
    have nul: "replicate (DF_NET_MSGBUFLEN - ?k) NUL = NUL # replicate (DF_NET_MSGBUFLEN - ?k - 1) NUL"
      using k' size by (cases "DF_NET_MSGBUFLEN - ?k") auto
    have msg: "recvmsg ?cli = take ?k ?req @ NUL # replicate (DF_NET_MSGBUFLEN - ?k - 1) NUL" using nul by simp
    obtain i where i: "HttpChecked ?cli = Inr (?cli\<lparr>usrdef := Some i\<rparr>, if ?k = length ?req then KEY_TRUE else KEY_FALSE)"
      "knows m u h n (?cli\<lparr>usrdef := Some i\<rparr>)"
      using checked_step [OF ok _ msg _ k'] Cons.prems(5,6) by (auto simp: knows_def)
    have step: "recv_loop HttpChecked readcb si cli tc (e # es) =
        (if ?k = length ?req then rbind (readcb (?cli\<lparr>usrdef := Some i\<rparr>)) (\<lambda>r. Inr (Served r))
         else recv_loop HttpChecked readcb si (?cli\<lparr>usrdef := Some i\<rparr>) tc es)"
      using RecvData room put i(1) d(2) by (simp add: Let_def)
    show ?thesis
    proof (cases "?k = length ?req")
      case True
      have "?cli\<lparr>usrdef := Some i\<rparr> = received si ?req i" using True Cons.prems(5) by (simp add: received_def)
      then show ?thesis using step True by auto
    next
      case False
      then show ?thesis unfolding step
        using Cons.IH [of ?k tc "?cli\<lparr>usrdef := Some i\<rparr>"] k' dk Cons.prems(3-5) RecvData i(2) by simp
    qed
  next
    case SelectTimeout
    then show ?thesis using Cons.IH [of k "tc + 1" cli] Cons.prems by simp
  qed (use Cons.prems in simp_all)
qed simp

text \<open>
  A length field without a value brings the server down: on a request whose first length field
  is directly followed by the end of its line, \<^verbatim>\<open>HttpChecked\<close> computes the length of the value as
  $-1$ and passes it to \<^verbatim>\<open>memcpy\<close>.
\<close>

theorem bare_length_field_faults:
  assumes "recvmsg cli = t @ NUL # r" "NUL \<notin> set t" "usrdef cli = None"
    and "strstr t (CRLF @ CRLF) \<noteq> None" "strstr t ''content-length:'' = None"
    and "strstr t ''Content-Length:'' = Some k" "is_prefix (''Content-Length:'' @ CRLF) (drop k t)"
  shows "HttpChecked cli = Inl OutOfBounds"
proof -
  obtain r' where d: "drop k t = ''Content-Length:'' @ CRLF @ r'" using assms(7) by (auto simp: is_prefix_iff)
  have "strstr (drop k t) CRLF = Some 15" unfolding d by (simp add: CRLF_def)
  moreover have "checked_length t k (k + 15) = Inl OutOfBounds" by (simp add: checked_length_def)
  ultimately show ?thesis using assms by (auto simp: HttpChecked_def)
qed

theorem bare_length_field_faults_witness:
  "HttpChecked \<lparr>fromIP = ''10.0.0.7'', fromPort = 4000, recvSocket = 9, recvLen = 36,
     recvmsg = (''GET / HTTP/1.1'' @ CRLF @ ''Content-Length:'' @ CRLF @ CRLF) @ NUL # replicate 8 NUL,
     usrdef = None\<rparr> = Inl OutOfBounds"
  by (rule bare_length_field_faults [where k = 16 and t = "''GET / HTTP/1.1'' @ CRLF @ ''Content-Length:'' @ CRLF @ CRLF"])
    (simp_all add: CRLF_def)

section \<open>The reply is well formed\<close>

lemma length_print_02d: "n < 100 \<Longrightarrow> length (print_02d n) \<le> 2"
  using length_print_nat [of n 1] length_print_nat [of n 0] by (simp add: print_02d_def)

definition text_char :: "char \<Rightarrow> bool" where
  "text_char c \<longleftrightarrow> c \<noteq> NUL \<and> c \<noteq> CHR 0x0D"

lemma text_print_nat: "c \<in> set (print_nat n) \<Longrightarrow> text_char c"
  using print_nat_digits [of c n] by (auto simp: text_char_def c_isdigit_def)

lemma names_text: "w \<in> set wday \<union> set wMouth \<Longrightarrow> length w = 3 \<and> (\<forall>c \<in> set w. text_char c)"
  by (auto simp: wday_def wMouth_def text_char_def)

lemma utc_text_ok:
  assumes "tm_ok t"
  shows "length (utc_text t) \<le> 29" "\<forall>c \<in> set (utc_text t). text_char c"
proof -
  have "wday ! tm_wday t \<in> set wday \<union> set wMouth" "wMouth ! tm_mon t \<in> set wday \<union> set wMouth"
    using assms by (auto simp: tm_ok_def wday_def wMouth_def intro!: nth_mem simp del: set_simps)
  note w = this [THEN names_text]
  have "length (print_nat (tm_year t + 1900)) \<le> 4"
    using assms length_print_nat [of "tm_year t + 1900" 3] by (simp add: tm_ok_def)
  moreover have "length (print_02d (tm_mday t)) \<le> 2" "length (print_02d (tm_hour t)) \<le> 2"
    "length (print_02d (tm_min t)) \<le> 2" "length (print_02d (tm_sec t)) \<le> 2"
    using assms by (auto simp: tm_ok_def intro!: length_print_02d)
  ultimately show "length (utc_text t) \<le> 29" using w by (simp add: utc_text_def)
  have "\<forall>c \<in> set (print_02d n). text_char c" for n
    by (auto simp: print_02d_def text_char_def dest: text_print_nat [unfolded text_char_def])
  then show "\<forall>c \<in> set (utc_text t). text_char c"
    using w text_print_nat by (auto simp: utc_text_def) (auto simp: text_char_def)
qed

lemma GetUTCTime_ok:
  assumes "tm_ok now"
  shows "\<exists>d. GetUTCTime now (replicate 64 NUL) = Inr d \<and> c_str d 0 = Inr (utc_text now)"
proof -
  have "GetUTCTime now (replicate 64 NUL) = sprintf (replicate 64 NUL) (utc_text now)"
    using assms by (simp add: GetUTCTime_def tm_ok_def wday_def wMouth_def)
  moreover have "NUL \<notin> set (utc_text now)" using utc_text_ok(2) [OF assms] by (auto simp: text_char_def)
  ultimately show ?thesis using utc_text_ok(1) [OF assms] by (simp add: sprintf_fits)
qed

text \<open>The status line's phrase.\<close>

definition phrase :: "int \<Rightarrow> string" where
  "phrase code = (case find (\<lambda>(_, c). code = c) HttpCodes of None \<Rightarrow> [] | Some (s, _) \<Rightarrow> s)"

lemma find_code:
  "find (\<lambda>(_, c). resp_code iret = c) HttpCodes = Some (phrase (resp_code iret), resp_code iret)"
  "\<forall>c \<in> set (phrase (resp_code iret)). text_char c"
  by (auto simp: resp_code_def HttpCodes_def phrase_def text_char_def)

lemma text_print_int: "c \<in> set (print_int i) \<Longrightarrow> text_char c"
  by (auto simp: print_int_def text_char_def split: if_splits dest: text_print_nat [unfolded text_char_def])

lemma text_notin: "\<forall>c \<in> set w. text_char c \<Longrightarrow> CHR 0x0D \<notin> set w \<and> NUL \<notin> set w"
  by (auto simp: text_char_def)

text \<open>The blank line of a reply is where its head ends, so the body can be found again.\<close>

lemma resp_head_blank:
  assumes "\<forall>c \<in> set name. text_char c" "\<forall>c \<in> set date. text_char c"
  shows "strstr (resp_head code name date n @ b) (CRLF @ CRLF) = Some (length (resp_head code name date n) - 4)"
proof -
  let ?p = "[CHR 0x0D, CHR 0x0A, CHR 0x0D, CHR 0x0A]"
  have skip: "strstr (w @ v) ?p = map_option ((+) (length w)) (strstr v ?p)"
    if "\<forall>c \<in> set w. text_char c" for w v
    using text_notin [OF that] by (intro strstr_not_starting) auto
  have "\<forall>c \<in> set (print_int i). text_char c" for i using text_print_int by blast
  note skips = skip [OF this] skip [OF assms(1)] skip [OF assms(2)]
  show ?thesis unfolding resp_head_def CRLF_def by (simp add: skips)
qed

lemma resp_head_no_NUL:
  assumes "\<forall>c \<in> set name. text_char c" "\<forall>c \<in> set date. text_char c"
  shows "NUL \<notin> set (resp_head code name date n)"
  using text_notin [OF assms(1)] text_notin [OF assms(2)] print_int_no_NUL
  by (simp add: resp_head_def CRLF_def)

text \<open>The head that goes out with a result.\<close>

definition reply_head :: "tm \<Rightarrow> int \<Rightarrow> string \<Rightarrow> string" where
  "reply_head now iret b = resp_head (resp_code iret) (phrase (resp_code iret)) (utc_text now) (int (length b))"

lemma reply_head_props:
  assumes "tm_ok now"
  shows "NUL \<notin> set (reply_head now iret b)"
    "strstr (reply_head now iret b @ b') (CRLF @ CRLF) = Some (length (reply_head now iret b) - 4)"
  unfolding reply_head_def
  using resp_head_no_NUL resp_head_blank find_code(2) utc_text_ok(2) [OF assms] by blast+

lemma GroupRespHttpMsg_reply:
  assumes "tm_ok now" "c_str buff 0 = Inr b" "length out = HTTPMSG_MAXLEN"
  shows "if length (reply_head now iret b) + length b < HTTPMSG_MAXLEN
    then \<exists>out'. GroupRespHttpMsg now (resp_code iret) (Some buff) (int (length b)) (Some out) =
        Inr (Some (reply_head now iret b @ b @ NUL # out'), KEY_TRUE)
    else GroupRespHttpMsg now (resp_code iret) (Some buff) (int (length b)) (Some out) = Inl OutOfBounds"
proof -
  let ?h = "reply_head now iret b"
  obtain d where d: "GetUTCTime now (replicate 64 NUL) = Inr d" "c_str d 0 = Inr (utc_text now)"
    using GetUTCTime_ok [OF assms(1)] by blast
  have g: "GroupRespHttpMsg now (resp_code iret) (Some buff) (int (length b)) (Some out) =
      rbind (sprintf out ?h) (\<lambda>o'. rbind (strcat o' b) (\<lambda>o'. Inr (Some o', KEY_TRUE)))"
    by (simp add: GroupRespHttpMsg_def d find_code(1) assms(2) reply_head_def)
  show ?thesis
  proof (cases "length ?h < HTTPMSG_MAXLEN")
    case True
    let ?r = "drop (Suc (length ?h)) out"
    have s: "sprintf out ?h = Inr (?h @ NUL # ?r)" using True assms(3) by (intro sprintf_fits) simp
    have l: "length (?h @ NUL # ?r) = HTTPMSG_MAXLEN" using True assms(3) by simp
    have c: "strcat (?h @ NUL # ?r) b = put_all (?h @ NUL # ?r) (length ?h) (b @ [NUL])"
      using reply_head_props(1) [OF assms(1)] by (simp add: strcat_def)
    show ?thesis
    proof (cases "length ?h + length b < HTTPMSG_MAXLEN")
      case True
      then show ?thesis
        using strcat_text [OF reply_head_props(1) [OF assms(1)], of iret b b ?r] l g s by auto
    next
      case False
      then have "put_all (?h @ NUL # ?r) (length ?h) (b @ [NUL]) = Inl OutOfBounds"
        using l by (intro put_all_overflow) simp
      then show ?thesis using False g s c by simp
    qed
  next
    case False
    then show ?thesis using g assms(3) by (simp add: sprintf_overflow)
  qed
qed

text \<open>
  The reply: for every request with a body whose head can be read, the code returned by the
  dispatcher is mapped to the status (200 for success, 401, 403 and 404 as they are, 400 for
  everything else), \<^verbatim>\<open>Content-Length\<close> is the length of the dispatcher's text, that text follows
  the first blank line and \<^verbatim>\<open>outlen\<close> is the length of the whole reply. When head and text do not
  fit the 10240 bytes of \<^verbatim>\<open>out\<close> --- the dispatcher may fill as many by itself --- the copy runs
  over the end of the buffer.
\<close>

lemma ParesHttpMsg_reply:
  assumes "GetHttpRequstHead head0 msg len = Inr head" "c_str msg 0 = Inr t"
    and "strstr t (CRLF @ CRLF) = Some k" "k + 4 < length t"
    and "JsonSwitch (drop (k + 4) t) (replicate HTTPMSG_MAXLEN NUL) = Inr (x, buff, iret)" "c_str buff 0 = Inr b"
    and "tm_ok now" "length out = HTTPMSG_MAXLEN"
  shows "if length (reply_head now iret b) + length b < HTTPMSG_MAXLEN
    then \<exists>out'. ParesHttpMsg JsonSwitch now msg len out = Inr (Some x, out', int (length (reply_head now iret b @ b)), iret) \<and>
      take (length (reply_head now iret b @ b)) out' = reply_head now iret b @ b \<and>
      strstr (reply_head now iret b @ b) (CRLF @ CRLF) = Some (length (reply_head now iret b) - 4)
    else ParesHttpMsg JsonSwitch now msg len out = Inl OutOfBounds"
proof -
  let ?h = "reply_head now iret b"
  have p: "ParesHttpMsg JsonSwitch now msg len out =
      rbind (GroupRespHttpMsg now (resp_code iret) (Some buff) (int (length b)) (Some out)) (\<lambda>(out, _).
        rbind (c_str (the out) 0) (\<lambda>o'. Inr (Some x, the out, int (length o'), iret)))"
  proof -
    have "k + length (CRLF @ CRLF) = k + 4" by (simp add: CRLF_def)
    then show ?thesis using assms(1-6) by (simp add: ParesHttpMsg_def Let_def del: length_append)
  qed
  have b: "NUL \<notin> set b" using assms(6) by (auto simp: c_str_def dest: set_takeWhileD split: if_splits)
  have n: "NUL \<notin> set (?h @ b)" using b reply_head_props(1) [OF assms(7)] by simp
  show ?thesis
  proof (cases "length ?h + length b < HTTPMSG_MAXLEN")
    case True
    then obtain r where r: "GroupRespHttpMsg now (resp_code iret) (Some buff) (int (length b)) (Some out) =
        Inr (Some (?h @ b @ NUL # r), KEY_TRUE)"
      using GroupRespHttpMsg_reply [OF assms(7,6,8), of iret] by auto
    have "c_str ((?h @ b) @ NUL # r) 0 = Inr (?h @ b)" using n by (rule c_str_at)
    then show ?thesis using True p r reply_head_props(2) [OF assms(7)] by simp
  next
    case False
    then show ?thesis using GroupRespHttpMsg_reply [OF assms(7,6,8), of iret] p by simp
  qed
qed

section \<open>The service\<close>

text \<open>The descriptors that \<^verbatim>\<open>HttpClose\<close> closes.\<close>

definition HttpClose :: "int \<Rightarrow> int list" where
  "HttpClose fd = (if 0 < fd then [fd] else [])"

text \<open>Every way out of \<open>HttpChecked\<close> changes \<^verbatim>\<open>usrdef\<close> alone.\<close>

definition keeps :: "'c NetCliInfo_T \<Rightarrow> fault + 'c NetCliInfo_T \<times> int \<Rightarrow> bool" where
  "keeps cli m \<longleftrightarrow> (\<forall>cli' ret. m = Inr (cli', ret) \<longrightarrow> recvmsg cli' = recvmsg cli \<and> recvLen cli' = recvLen cli)"

lemma keeps_rules:
  "keeps cli (Inr (cli\<lparr>usrdef := u\<rparr>, ret))"
  "(\<And>x. keeps cli (f x)) \<Longrightarrow> keeps cli (rbind m f)"
  "keeps cli a \<Longrightarrow> (\<And>x. keeps cli (b x)) \<Longrightarrow> keeps cli (case o' of None \<Rightarrow> a | Some x \<Rightarrow> b x)"
  "keeps cli a \<Longrightarrow> keeps cli a2 \<Longrightarrow> keeps cli (if c then a else a2)"
  by (auto simp: keeps_def outcome_iff split: option.splits)

lemma HttpChecked_keeps: "HttpChecked cli = Inr (cli', ret) \<Longrightarrow> recvmsg cli' = recvmsg cli \<and> recvLen cli' = recvLen cli"
proof -
  have "keeps cli (HttpChecked cli)" unfolding HttpChecked_def Let_def by (intro keeps_rules)
  then show "HttpChecked cli = Inr (cli', ret) \<Longrightarrow> recvmsg cli' = recvmsg cli \<and> recvLen cli' = recvLen cli"
    by (simp add: keeps_def)
qed

interpretation http: service HttpChecked "Requst JsonSwitch now" HttpClose for JsonSwitch now
  by unfold_locales (rule HttpChecked_keeps)

text \<open>
  A dropped HTTP connection has its descriptor closed twice, by the server and by \<^verbatim>\<open>HttpClose\<close>; between the two
  another thread may have been given the same number.
\<close>

lemma http_double_close:
  assumes "obj_load (socks s) p = Inr si" "socketType si = SOCKETTYPE_ENUM_SUB" "0 < sockfd si" "sockfd si < FD_SETSIZE" "in_read v" "climem v"
    "recv_loop HttpChecked (Requst JsonSwitch now) si cli0 0 (events v) = Inr Dropped"
  shows "\<exists>s'. CheckSelectRead HttpChecked (Requst JsonSwitch now) HttpClose v s p = Inr (s', Some Dropped, KEY_TRUE) \<and>
    closed s' = closed s @ [sockfd si, sockfd si]"
  using http.dropped_connection_closed [OF assms(1,2,5,6) _ assms(7)] assms(3,4) by (simp add: HttpClose_def drop_sock_def fd_bit_def)


definition demo_now :: tm where
  "demo_now = \<lparr>tm_wday = 1, tm_mday = 2, tm_mon = 3, tm_year = 120, tm_hour = 4, tm_min = 5, tm_sec = 6\<rparr>"




lemma request_nonempty: "0 < length (http_request m u h n body)"
  by (simp add: http_request_def CRLF_def)

lemma Requst_received:
  assumes ok: "request_ok m u h n body" "length body = n" "0 < n" and size: "length (http_request m u h n body) < DF_NET_MSGBUFLEN"
    and conn: "sock_ip si \<noteq> []" "0 < sock_port si" "0 < sockfd si" and now: "tm_ok now"
    and disp: "JsonSwitch body (replicate HTTPMSG_MAXLEN NUL) = Inr (x, buff, iret)" "c_str buff 0 = Inr b"
  shows "Requst JsonSwitch now (received si (http_request m u h n body) i) =
    (if length (reply_head now iret b) + length b < HTTPMSG_MAXLEN
     then Inr (Some x, [(sockfd si, reply_head now iret b @ b)], KEY_TRUE) else Inl OutOfBounds)"
proof -
  let ?req = "http_request m u h n body" and ?msg = "recvmsg (received si (http_request m u h n body) i)"
  have len: "0 < length ?req" by (rule request_nonempty)
  have msg: "?msg = ?req @ NUL # replicate (DF_NET_MSGBUFLEN - length ?req - 1) NUL"
    using size by (cases "DF_NET_MSGBUFLEN - length ?req") (auto simp: received_def)
  obtain head where head: "GetHttpRequstHead head0 ?msg (int (length ?req)) = Inr head"
    using request_head_fields [OF ok(1)] unfolding msg by blast
  have str: "c_str ?msg 0 = Inr ?req" using request_no_NUL [OF ok(1)] unfolding msg by (rule c_str_at)
  have blank: "strstr ?req (CRLF @ CRLF) = Some (head_length m u h n - 4)" by (rule strstr_blank [OF ok(1)])
  have hl: "head_length m u h n - 4 + 4 = head_length m u h n" using head_length_min [of m u h n] by simp
  have split: "?req = http_request m u h n [] @ body" by (rule http_request_split)
  then have body: "drop (head_length m u h n - 4 + 4) ?req = body" "head_length m u h n - 4 + 4 < length ?req"
    using ok(2,3) unfolding hl by (simp_all add: head_length_def)
  note reply = ParesHttpMsg_reply [OF head str blank body(2), of JsonSwitch x buff iret b now "replicate HTTPMSG_MAXLEN NUL"]
  have r: "Requst JsonSwitch now (received si ?req i) =
      rbind (ParesHttpMsg JsonSwitch now ?msg (int (length ?req)) (replicate HTTPMSG_MAXLEN NUL))
        (\<lambda>(x, out, outLen, _). Inr (x, [(sockfd si, take (nat outLen) out)], KEY_TRUE))"
    using conn len by (simp add: Requst_def received_def)
  show ?thesis
  proof (cases "length (reply_head now iret b) + length b < HTTPMSG_MAXLEN")
    case True
    then obtain out' where "ParesHttpMsg JsonSwitch now ?msg (int (length ?req)) (replicate HTTPMSG_MAXLEN NUL) =
        Inr (Some x, out', int (length (reply_head now iret b @ b)), iret)"
      "take (length (reply_head now iret b @ b)) out' = reply_head now iret b @ b"
      using reply disp now body(1) by (auto simp: length_replicate)
    then show ?thesis using True by (simp only: r rbind_simps prod.case nat_int if_True)
  next
    case False
    then show ?thesis using reply disp now body(1) by (simp add: r)
  qed
qed

lemma serves_request:
  assumes "request_ok m u h n body" "length body = n" "0 < n" "length (http_request m u h n body) < DF_NET_MSGBUFLEN"
    and "arrives es (http_request m u h n body)" "sock_ip si \<noteq> []" "0 < sock_port si" "0 < sockfd si" "tm_ok now"
    and "JsonSwitch body (replicate HTTPMSG_MAXLEN NUL) = Inr (x, buff, iret)" "c_str buff 0 = Inr b"
  shows "recv_loop HttpChecked (Requst JsonSwitch now) si cli0 0 es =
    (if length (reply_head now iret b) + length b < HTTPMSG_MAXLEN
     then Inr (Served (Some x, [(sockfd si, reply_head now iret b @ b)], KEY_TRUE)) else Inl OutOfBounds)"
proof -
  have len: "0 < length (http_request m u h n body)"
    by (rule request_nonempty)
  obtain i where "recv_loop HttpChecked (Requst JsonSwitch now) si cli0 0 es =
      rbind (Requst JsonSwitch now (received si (http_request m u h n body) i)) (\<lambda>r. Inr (Served r))"
    using recv_loop_request [OF assms(1-4) len, of es 0 cli0 "Requst JsonSwitch now" si] assms(5)
    by (auto simp: arrives_def cli0_def knows_def)
  then show ?thesis using Requst_received [where JsonSwitch = JsonSwitch and body = body, OF assms(1-4,6-11), of i] by simp
qed

text \<open>
  C12. A request is served however it arrives: when its bytes come in pieces of any size with at most five
  timeouts between them, the server calls the dispatcher with exactly the body and sends one reply on the same
  socket, whose status and length are those of the dispatcher's result and whose body is the dispatcher's text. A
  reply that does not fit its 10240 bytes overruns the buffer.
\<close>

theorem http_serves:
  assumes "request_ok m u h n body" "length body = n" "0 < n" "length (http_request m u h n body) < DF_NET_MSGBUFLEN"
    and "arrives es (http_request m u h n body)" "sock_ip si \<noteq> []" "0 < sock_port si" "0 < sockfd si" "tm_ok now"
    and "JsonSwitch body (replicate HTTPMSG_MAXLEN NUL) = Inr (x, buff, iret)" "c_str buff 0 = Inr b"
  shows "recv_loop HttpChecked (Requst JsonSwitch now) si cli0 0 es =
    (if length (reply_head now iret b) + length b < HTTPMSG_MAXLEN
     then Inr (Served (Some x, [(sockfd si, reply_head now iret b @ b)], KEY_TRUE)) else Inl OutOfBounds)"
  using assms by (rule serves_request)

theorem http_serves_witness:
  "recv_loop HttpChecked (Requst (\<lambda>body buff. Inr ((), body @ NUL # replicate 8 NUL, 403)) demo_now)
     \<lparr>sockfd = 9, socketType = SOCKETTYPE_ENUM_SUB, sock_ip = ''10.0.0.7'', sock_port = 4000\<rparr> cli0 0
     [RecvData (take 20 (http_request ''POST'' ''/'' ''gw'' 2 ''{}'')), SelectTimeout,
      RecvData (drop 20 (http_request ''POST'' ''/'' ''gw'' 2 ''{}''))] =
   Inr (Served (Some (), [(9, ''HTTP/1.1 403 Forbidden'' @ CRLF @ ''Server: GaoZhi/2.0'' @ CRLF @
      ''Date: '' @ utc_text demo_now @ CRLF @ ''Content-Type: application/json; charset=utf-8;'' @ CRLF @
      ''Content-Length: 2'' @ CRLF @ ''Connection: close'' @ CRLF @ CRLF @ ''{}'')], KEY_TRUE))"
proof -
  let ?t = "http_request ''POST'' ''/'' ''gw'' 2 ''{}''"
  have ok: "request_ok ''POST'' ''/'' ''gw'' 2 ''{}''"
    by (simp add: request_ok_def token_def tag_free_def ws_def)
  have now: "tm_ok demo_now" by (simp add: tm_ok_def demo_now_def)
  have lt: "length ?t = 50" by (simp add: http_request_def CRLF_def print_nat.simps [of 2])
  then have "length (take 20 ?t) = 20" "length (drop 20 ?t) = 30" by simp_all
  then have "take 20 ?t \<noteq> []" "drop 20 ?t \<noteq> []" by (metis list.size(3) zero_neq_numeral)+
  then have a: "arrives [RecvData (take 20 ?t), SelectTimeout, RecvData (drop 20 ?t)] ?t" by (simp add: arrives_def)
  have h: "reply_head demo_now 403 ''{}'' = ''HTTP/1.1 403 Forbidden'' @ CRLF @ ''Server: GaoZhi/2.0'' @ CRLF @
      ''Date: '' @ utc_text demo_now @ CRLF @ ''Content-Type: application/json; charset=utf-8;'' @ CRLF @
      ''Content-Length: 2'' @ CRLF @ ''Connection: close'' @ CRLF @ CRLF"
  proof -
    have "print_int 403 = ''403''" "print_int 2 = ''2''" by code_simp+
    then show ?thesis by (simp add: reply_head_def resp_head_def resp_code_def phrase_def HttpCodes_def)
  qed
  have fits: "length (reply_head demo_now 403 ''{}'') + length ''{}'' < HTTPMSG_MAXLEN"
    unfolding h using utc_text_ok(1) [OF now] by (simp add: CRLF_def HTTPMSG_MAXLEN_def)
  have b: "c_str (''{}'' @ NUL # replicate 8 NUL) 0 = Inr ''{}''" by (rule c_str_at) simp
  have l: "length ?t < DF_NET_MSGBUFLEN" unfolding lt by (simp add: DF_NET_MSGBUFLEN_def)
  show ?thesis
    using http_serves [where JsonSwitch = "\<lambda>body buff. Inr ((), body @ NUL # replicate 8 NUL, 403)", OF ok _ _ l a _ _ _ now refl b, of
       "\<lparr>sockfd = 9, socketType = SOCKETTYPE_ENUM_SUB, sock_ip = ''10.0.0.7'', sock_port = 4000\<rparr>"] fits
    by (simp add: h)
qed

end
