(* ===== verification/UsrManage.thy ===== *)
theory UsrManage
  imports Registry
begin

text \<open>
  \<^verbatim>\<open>src/Modules/UsrManage/usrmanage.c\<close>: the accounts of the gateway. The module keeps the records
  of \<^verbatim>\<open>g_usrList\<close> in a handle list and forwards changes to the data base through callbacks.

  The character arrays of a record are strings without their terminating NUL; they have room
  for 128 characters, so \<^verbatim>\<open>snprintf(dst, 129, ...)\<close> is \<open>take 128\<close> and an unbounded \<^verbatim>\<open>sprintf\<close> of
  more is a fault. \<^verbatim>\<open>ENUM_USRLEVEL_E\<close> has no negative enumerator and is unsigned, hence \<open>nat\<close>.
  \<^verbatim>\<open>UsrInfo_T\<close> has the single member \<^verbatim>\<open>registInfo\<close>. The data base behind the callbacks is a
  state \<open>'d\<close> that only they read and change; a callback may be NULL.

  The lemmas show which account each operation changes and how, that user names stay unique,
  that no operation gives an account more rights than its caller has, and where the code falls
  short of that.
\<close>

section \<open>State\<close>

record UserRegistInfo_T =
  userLevel :: nat
  usrname :: string
  passWord :: string
  countrycode :: string
  customname :: string
  usrID :: nat

type_synonym UsrInfo_T = UserRegistInfo_T

abbreviation (input) ENUM_USRLEVEL_Invalid :: nat where "ENUM_USRLEVEL_Invalid \<equiv> 0"
abbreviation (input) EFFECTIVELENGTH :: nat where "EFFECTIVELENGTH \<equiv> 16"
abbreviation (input) DF_MAXLEN :: nat where "DF_MAXLEN \<equiv> 128"

text \<open>
  The argument of \<open>delUsrcb\<close> is \<open>None\<close> for a pointer that does not point to a record; what the
  callback does with it is its own business, so it may fault.
\<close>

record 'd UsrCallbacks =
  addUsrcb :: "(UsrInfo_T \<Rightarrow> 'd \<Rightarrow> 'd \<times> int) option"
  delUsrcb :: "(UsrInfo_T option \<Rightarrow> 'd \<Rightarrow> fault + ('d \<times> int)) option"
  setUsrInfocb :: "(UsrInfo_T \<Rightarrow> 'd \<Rightarrow> 'd \<times> int) option"
  getUsrInfoListcb :: "('d \<Rightarrow> UsrInfo_T list \<times> int) option"
  getUsrInfoListNumcb :: "('d \<Rightarrow> int) option"
  modifyUsrBindInfocb :: "(UsrInfo_T \<Rightarrow> string \<Rightarrow> 'd \<Rightarrow> 'd \<times> int) option"

record 'd UsrManageInner_T =
  listHead :: "nat list"
  objs :: "nat \<rightharpoonup> UsrInfo_T"
  next_id :: nat
  cbs :: "'d UsrCallbacks"
  db :: 'd

section \<open>Checks\<close>

text \<open>
  \<open>strchr\<close> and \<open>strrchr\<close> as offsets. In \<open>IsValidEmail\<close> the pointers that are compared are never
  NULL: a dot after the last at-sign has been found before.
\<close>

definition strchr :: "string \<Rightarrow> nat \<Rightarrow> char \<Rightarrow> nat option" where
  "strchr s i c = find (\<lambda>j. s ! j = c) [i..<length s]"

definition strrchr :: "string \<Rightarrow> char \<Rightarrow> nat option" where
  "strrchr s c = find (\<lambda>j. s ! j = c) (rev [0..<length s])"

definition IsValidEmail :: "string \<Rightarrow> int" where
  "IsValidEmail s =
     (case strchr s 0 CHR 0x40 of None \<Rightarrow> KEY_FALSE
      | Some ms \<Rightarrow>
        if strchr s (ms + 1) CHR 0x40 \<noteq> None then KEY_FALSE
        else if strchr s (ms + 1) CHR 0x2E = None then KEY_FALSE
        else if the (strchr s 0 CHR 0x2E) < ms \<and>
                the (strchr s (the (strchr s 0 CHR 0x2E) + 1) CHR 0x2E) < ms then KEY_FALSE
        else let tail = length s - (the (strrchr s CHR 0x2E) + 1) in
          if tail > 4 \<or> tail < 2 then KEY_FALSE
          else if 64 < length s then KEY_FALSE else KEY_TRUE)"

definition CheckUsrInfoValidity :: "UsrInfo_T \<Rightarrow> int" where
  "CheckUsrInfoValidity info =
     (if length (usrname info) > DF_MAXLEN + 1 \<or> length (passWord info) > 16 \<or>
         ENUM_USRLEVEL_Invalid > userLevel info then KEY_FALSE else KEY_TRUE)"

section \<open>Reading and changing one account\<close>

text \<open>\<^verbatim>\<open>HandleManageGetHandleByStr(&...listHead, usrInfo.registInfo.usrname, name, ...)\<close>\<close>

definition um_find :: "'d UsrManageInner_T \<Rightarrow> string \<Rightarrow> fault + nat" where
  "um_find s name = reg_lookup (objs s) (\<lambda>u. usrname u = name) (listHead s)"

definition um_put :: "'d UsrManageInner_T \<Rightarrow> nat \<Rightarrow> UsrInfo_T \<Rightarrow> 'd UsrManageInner_T" where
  "um_put s p u = s\<lparr>objs := (objs s)(p \<mapsto> u)\<rparr>"

text \<open>\<^verbatim>\<open>if(NULL != cb) iret = cb(&info);\<close>\<close>

definition um_store ::
    "(UsrInfo_T \<Rightarrow> 'd \<Rightarrow> 'd \<times> int) option \<Rightarrow> UsrInfo_T \<Rightarrow> 'd UsrManageInner_T \<Rightarrow> int \<Rightarrow>
     'd UsrManageInner_T \<times> int" where
  "um_store cb u s iret = (case cb of None \<Rightarrow> (s, iret)
     | Some f \<Rightarrow> let (d, r) = f u (db s) in (s\<lparr>db := d\<rparr>, r))"

definition GetUserRegistInfo :: "'d UsrManageInner_T \<Rightarrow> UsrInfo_T \<Rightarrow> fault + (UsrInfo_T \<times> int)" where
  "GetUserRegistInfo s info =
     rbind (um_find s (usrname info)) (\<lambda>p.
     rbind (obj_load (objs s) p) (\<lambda>u. Inr (u, KEY_FALSE)))"

definition ModifyPassword ::
    "'d UsrManageInner_T \<Rightarrow> string \<Rightarrow> string \<Rightarrow> string \<Rightarrow> fault + ('d UsrManageInner_T \<times> int)" where
  "ModifyPassword s username oldPassword newPassword =
     (if EFFECTIVELENGTH < length oldPassword \<or> EFFECTIVELENGTH < length newPassword
      then Inr (s, KEY_FALSE)
      else rbind (um_find s username) (\<lambda>p.
           rbind (obj_load (objs s) p) (\<lambda>u.
             if passWord u = oldPassword then
               let u' = u\<lparr>passWord := newPassword\<rparr> in
               Inr (um_store (setUsrInfocb (cbs s)) u' (um_put s p u') KEY_TRUE)
             else Inr (s, KEY_FALSE))))"

definition ResetPassword ::
    "'d UsrManageInner_T \<Rightarrow> string option \<Rightarrow> string option \<Rightarrow> string option \<Rightarrow>
     fault + ('d UsrManageInner_T \<times> int)" where
  "ResetPassword s username country password =
     (case (username, country, password) of
        (Some name, Some _, Some pw) \<Rightarrow>
          rbind (um_find s name) (\<lambda>p.
            if p = 0 then Inr (s, KEY_NOTFOUND)
            else rbind (obj_load (objs s) p) (\<lambda>u.
              if length pw > DF_MAXLEN then Inl OutOfBounds
              else let u' = u\<lparr>passWord := pw\<rparr> in
                Inr (um_store (setUsrInfocb (cbs s)) u' (um_put s p u') (- 1))))
      | _ \<Rightarrow> Inr (s, KEY_FALSE))"

definition Authentication :: "'d UsrManageInner_T \<Rightarrow> string \<Rightarrow> string \<Rightarrow> fault + nat" where
  "Authentication s name password =
     rbind (um_find s name) (\<lambda>p.
       if p = 0 then Inr ENUM_USRLEVEL_Invalid
       else rbind (obj_load (objs s) p) (\<lambda>u.
         Inr (if passWord u = password then userLevel u else ENUM_USRLEVEL_Invalid)))"

definition GetPermissionCabByLevel :: "nat \<Rightarrow> int" where
  "GetPermissionCabByLevel usrLevel = 0"

section \<open>Listing the accounts\<close>

text \<open>The records written to the caller's array, in order.\<close>

fun usr_list_loop :: "(nat \<rightharpoonup> UsrInfo_T) \<Rightarrow> nat list \<Rightarrow> fault + UsrInfo_T list" where
  "usr_list_loop m [] = Inr []"
| "usr_list_loop m (v # vs) =
     (if v = 0 then usr_list_loop m vs
      else rbind (obj_load m v) (\<lambda>u. rbind (usr_list_loop m vs) (\<lambda>us.
        Inr (if usrname u \<noteq> '''' then u # us else us))))"

definition GetUsrInfoList :: "'d UsrManageInner_T \<Rightarrow> fault + (UsrInfo_T list \<times> int)" where
  "GetUsrInfoList s = rbind (usr_list_loop (objs s) (listHead s)) (\<lambda>us. Inr (us, KEY_TRUE))"

fun usr_num_loop :: "(nat \<rightharpoonup> UsrInfo_T) \<Rightarrow> nat list \<Rightarrow> int \<Rightarrow> fault + int" where
  "usr_num_loop m [] num = Inr num"
| "usr_num_loop m (v # vs) num =
     (if v = 0 then usr_num_loop m vs num
      else rbind (obj_load m v) (\<lambda>u.
        usr_num_loop m vs (if usrname u \<noteq> '''' then num + 1 else num)))"

definition GetUsrInfoListNum :: "'d UsrManageInner_T \<Rightarrow> fault + (int \<times> int)" where
  "GetUsrInfoListNum s = rbind (usr_num_loop (objs s) (listHead s) 0) (\<lambda>n. Inr (n, KEY_TRUE))"

section \<open>Changing the set of accounts\<close>

definition ModifyUsrInfo ::
    "'d UsrManageInner_T \<Rightarrow> UsrInfo_T \<Rightarrow> UsrInfo_T \<Rightarrow> fault + ('d UsrManageInner_T \<times> int)" where
  "ModifyUsrInfo s curUsrInfo usrInfo =
     (if CheckUsrInfoValidity usrInfo = KEY_FALSE then Inr (s, KEY_FALSE)
      else if usrname curUsrInfo \<noteq> usrname usrInfo \<or> userLevel curUsrInfo < userLevel usrInfo
      then Inr (s, KEY_FALSE)
      else rbind (um_find s (usrname usrInfo)) (\<lambda>p.
        if p = 0 then Inr (s, KEY_FALSE)
        else rbind (obj_load (objs s) p) (\<lambda>u.
          let u' = usrInfo\<lparr>userLevel := userLevel u, passWord := take DF_MAXLEN (passWord u)\<rparr> in
          Inr (um_store (setUsrInfocb (cbs s)) u' (um_put s p u') KEY_FALSE))))"

definition FindUsr :: "'d UsrManageInner_T \<Rightarrow> string \<Rightarrow> fault + int" where
  "FindUsr s name = rbind (um_find s name) (\<lambda>p. Inr (if p \<noteq> 0 then KEY_TRUE else KEY_FALSE))"

text \<open>The second result is the caller's record, which receives a copy of the account.\<close>

definition ModifyUsrBindInfo ::
    "'d UsrManageInner_T \<Rightarrow> UsrInfo_T option \<Rightarrow> string option \<Rightarrow>
     fault + ('d UsrManageInner_T \<times> UsrInfo_T option \<times> int)" where
  "ModifyUsrBindInfo s info oldusrname =
     (case (info, oldusrname) of
        (Some i, Some old) \<Rightarrow>
          rbind (um_find s old) (\<lambda>p.
            if p = 0 then Inr (s, info, - 1)
            else rbind (obj_load (objs s) p) (\<lambda>u.
              let u' = u\<lparr>usrname := take DF_MAXLEN (usrname i),
                         countrycode := take DF_MAXLEN (countrycode i)\<rparr>;
                  s' = um_put s p u';
                  (s'', r) = um_store (map_option (\<lambda>f u. f u old) (modifyUsrBindInfocb (cbs s))) u' s' (- 1) in
              Inr (s'', Some u', r)))
      | _ \<Rightarrow> Inr (s, info, KEY_FALSE))"

text \<open>The loop of \<open>CreateUsrid\<close>; \<open>i\<close> is its static counter. The result is the counter and the id.\<close>

partial_function (option) usrid_loop ::
    "(nat \<rightharpoonup> UsrInfo_T) \<Rightarrow> nat list \<Rightarrow> nat \<Rightarrow> (nat \<times> nat) run" where
  "usrid_loop m vs i =
     (case reg_lookup m (\<lambda>u. usrID u = 1000000 + i) vs of
        Inl e \<Rightarrow> Some (Inl e)
      | Inr p \<Rightarrow> if p = 0 then Some (Inr (i, 1000000 + i)) else usrid_loop m vs (i + 1))"

definition CreateUsrid :: "'d UsrManageInner_T \<Rightarrow> ('d UsrManageInner_T \<times> nat) run" where
  "CreateUsrid s =
     run_bind (usrid_loop (objs s) (listHead s) (next_id s)) (\<lambda>(i, usrid).
       Some (Inr (s\<lparr>next_id := i\<rparr>, usrid)))"

definition CheckUser :: "'d UsrManageInner_T \<Rightarrow> UsrInfo_T \<Rightarrow> UsrInfo_T \<Rightarrow> fault + int" where
  "CheckUser s curUsrInfo info =
     (if CheckUsrInfoValidity info = KEY_FALSE then Inr KEY_FALSE
      else if userLevel curUsrInfo < userLevel info then Inr KEY_FALSE
      else rbind (um_find s (usrname info)) (\<lambda>p. Inr (if p \<noteq> 0 then KEY_USERREPEAT else KEY_TRUE)))"

text \<open>\<open>newObj\<close> is the address \<^verbatim>\<open>malloc\<close> returned for the record.\<close>

definition AddUsr ::
    "'d UsrManageInner_T \<Rightarrow> UsrInfo_T \<Rightarrow> UsrInfo_T \<Rightarrow> nat \<Rightarrow> ('d UsrManageInner_T \<times> int) run" where
  "AddUsr s curUsrInfo info newObj =
     (if CheckUsrInfoValidity info = KEY_FALSE then Some (Inr (s, KEY_FALSE))
      else run_bind (Some (CheckUser s curUsrInfo info)) (\<lambda>c.
        if c \<noteq> KEY_TRUE then Some (Inr (s, KEY_FALSE))
        else if newObj = 0 then Some (Inl NullDeref)
        else run_bind (CreateUsrid s) (\<lambda>(s, usrid).
          let u = info\<lparr>usrID := usrid\<rparr>;
              (vs, iret) = hl_step (listHead s) (AddHandle newObj);
              s' = um_put (s\<lparr>listHead := vs\<rparr>) newObj u in
          Some (Inr (if iret = KEY_TRUE then um_store (addUsrcb (cbs s)) u s' iret else (s', iret))))))"

text \<open>\<^verbatim>\<open>MyFree(info)\<close> frees the record and sets \<^verbatim>\<open>info\<close> to NULL before \<^verbatim>\<open>&info->usrInfo\<close> is passed on.\<close>

definition DelUsr ::
    "'d UsrManageInner_T \<Rightarrow> UsrInfo_T \<Rightarrow> UsrInfo_T \<Rightarrow> fault + ('d UsrManageInner_T \<times> int)" where
  "DelUsr s curUsrInfo usrInfo =
     rbind (um_find s (usrname usrInfo)) (\<lambda>p.
       if p = 0 then Inr (s, KEY_FALSE)
       else rbind (obj_load (objs s) p) (\<lambda>u.
         if userLevel curUsrInfo < userLevel u then Inr (s, KEY_FALSE)
         else let (vs, iret) = hl_step (listHead s) (DelHandle p);
                  s' = s\<lparr>listHead := vs, objs := (objs s)(p := None)\<rparr> in
           if iret = KEY_TRUE then
             (case delUsrcb (cbs s) of None \<Rightarrow> Inr (s', iret)
              | Some f \<Rightarrow> rbind (f None (db s')) (\<lambda>(d, r). Inr (s'\<lparr>db := d\<rparr>, r)))
           else Inr (s', iret)))"

definition GetUsrInfo ::
    "'d UsrManageInner_T \<Rightarrow> UsrInfo_T \<Rightarrow> UsrInfo_T \<Rightarrow> fault + (UsrInfo_T \<times> int)" where
  "GetUsrInfo s curUsrInfo usrInfo =
     (if usrname curUsrInfo \<noteq> usrname usrInfo \<or> userLevel curUsrInfo < userLevel usrInfo
      then Inr (usrInfo, KEY_FALSE)
      else rbind (um_find s (usrname usrInfo)) (\<lambda>p.
        if p = 0 then Inr (usrInfo, KEY_FALSE)
        else rbind (obj_load (objs s) p) (\<lambda>u. Inr (u, KEY_TRUE))))"

definition GetUsrInfoFromUsrName ::
    "'d UsrManageInner_T \<Rightarrow> string \<Rightarrow> UsrInfo_T \<Rightarrow> fault + (UsrInfo_T \<times> int)" where
  "GetUsrInfoFromUsrName s name usrInfo =
     rbind (um_find s name) (\<lambda>p.
       if p = 0 then Inr (usrInfo, KEY_FALSE)
       else rbind (obj_load (objs s) p) (\<lambda>u. Inr (u, KEY_FALSE)))"

section \<open>Start and stop\<close>

text \<open>
  The loop of \<open>InitUsrList\<close> over the array \<open>us\<close> that the callback filled, for the indices
  \<open>i < num\<close>; a read beyond what the callback wrote is of uninitialised memory.
\<close>

definition init_rec :: "UsrInfo_T \<Rightarrow> UsrInfo_T" where
  "init_rec u = \<lparr>userLevel = userLevel u, usrname = take DF_MAXLEN (usrname u),
     passWord = take DF_MAXLEN (passWord u), countrycode = take DF_MAXLEN (countrycode u),
     customname = take DF_MAXLEN (customname u), usrID = usrID u\<rparr>"

fun init_loop ::
    "((nat \<rightharpoonup> UsrInfo_T) \<Rightarrow> nat) \<Rightarrow> UsrInfo_T list \<Rightarrow> nat list \<Rightarrow> nat list \<Rightarrow> (nat \<rightharpoonup> UsrInfo_T) \<Rightarrow>
     fault + (nat list \<times> (nat \<rightharpoonup> UsrInfo_T))" where
  "init_loop alloc us [] vs m = Inr (vs, m)"
| "init_loop alloc us (i # is) vs m =
     (if length us \<le> i then Inl Uninitialised
      else if userLevel (us ! i) \<le> ENUM_USRLEVEL_Invalid then init_loop alloc us is vs m
      else let p = alloc m in
        if p = 0 then Inl NullDeref
        else init_loop alloc us is (fst (hl_step vs (AddHandle p))) (m(p \<mapsto> init_rec (us ! i))))"

definition InitUsrList ::
    "((nat \<rightharpoonup> UsrInfo_T) \<Rightarrow> nat) \<Rightarrow> 'd UsrManageInner_T \<Rightarrow> bool \<Rightarrow> fault + ('d UsrManageInner_T \<times> int)" where
  "InitUsrList alloc s malloc_ok =
     (case (getUsrInfoListcb (cbs s), getUsrInfoListNumcb (cbs s)) of
        (Some getList, Some getNum) \<Rightarrow>
          let num = getNum (db s) in
          if num \<le> 0 then Inr (s, KEY_FALSE)
          else if \<not> malloc_ok then Inr (s, KEY_FALSE)
          else let (us, iret) = getList (db s) in
            if int (length us) > num then Inl OutOfBounds
            else if iret = KEY_FALSE then Inr (s, KEY_FALSE)
            else rbind (init_loop alloc us [0..<nat num] (listHead s) (objs s)) (\<lambda>(vs, m).
                   Inr (s\<lparr>listHead := vs, objs := m\<rparr>, KEY_TRUE))
      | _ \<Rightarrow> Inr (s, KEY_FALSE))"

definition UnInitUsrList :: "'d UsrManageInner_T \<Rightarrow> fault + ('d UsrManageInner_T \<times> int)" where
  "UnInitUsrList s = rbind (reg_free (objs s) (listHead s)) (\<lambda>m. Inr (s\<lparr>objs := m\<rparr>, KEY_TRUE))"

text \<open>
  The caller's table \<^verbatim>\<open>UsrManageHandle_T\<close>: the entries that are set, and the callbacks. \<open>None\<close> is
  a NULL table. \<open>UsrManageUnInit\<close> clears only eleven of the sixteen entries.
\<close>

datatype usr_entry = pGetUsrInfoList | pGetUsrInfoNum | pModifyUsrInfo | pAddUsr | pcheckUsr | pDelUsr
  | pGetUsrInfo | pGetUsrInfoFromUsrName | pAuthentication | pGetPermissionCabByLevel
  | pModifyPassword | pResetPassword | pFindUsr | pGetUsrId | pSetUsrId | pModifyUsrBindInfo

definition UsrManageRegist :: "bool option \<Rightarrow> bool option \<times> int" where
  "UsrManageRegist handle = (case handle of None \<Rightarrow> (None, KEY_FALSE) | Some _ \<Rightarrow> (Some True, KEY_TRUE))"

definition UsrManageUnRegist :: "bool option \<Rightarrow> bool option \<times> int" where
  "UsrManageUnRegist handle = (case handle of None \<Rightarrow> (None, KEY_FALSE) | Some _ \<Rightarrow> (Some False, KEY_TRUE))"

definition UsrManageInit ::
    "((nat \<rightharpoonup> UsrInfo_T) \<Rightarrow> nat) \<Rightarrow> 'd UsrManageInner_T \<Rightarrow> (usr_entry list \<times> 'd UsrCallbacks) option \<Rightarrow>
     bool \<Rightarrow> fault + ('d UsrManageInner_T \<times> (usr_entry list \<times> 'd UsrCallbacks) option \<times> int)" where
  "UsrManageInit alloc s handle malloc_ok =
     (case handle of None \<Rightarrow> Inr (s, None, KEY_FALSE)
      | Some (ops, cb) \<Rightarrow>
          rbind (InitUsrList alloc (s\<lparr>listHead := [], cbs := cb\<rparr>) malloc_ok) (\<lambda>(s, iret).
            if iret = KEY_FALSE then Inr (s, Some (ops, cb), KEY_FALSE)
            else Inr (s, Some ([pGetUsrInfoList, pGetUsrInfoNum, pModifyUsrInfo, pAddUsr, pcheckUsr, pDelUsr,
                   pGetUsrInfo, pGetUsrInfoFromUsrName, pAuthentication, pGetPermissionCabByLevel,
                   pModifyPassword, pResetPassword, pFindUsr, pGetUsrId, pSetUsrId, pModifyUsrBindInfo], cb),
                 KEY_TRUE)))"

definition UsrManageUnInit ::
    "'d UsrManageInner_T \<Rightarrow> (usr_entry list \<times> 'd UsrCallbacks) option \<Rightarrow>
     fault + ('d UsrManageInner_T \<times> (usr_entry list \<times> 'd UsrCallbacks) option \<times> int)" where
  "UsrManageUnInit s handle =
     (case handle of None \<Rightarrow> Inr (s, None, KEY_FALSE)
      | Some (ops, cb) \<Rightarrow>
          let ops' = filter (\<lambda>e. e \<notin> {pGetUsrInfoList, pGetUsrInfoNum, pModifyUsrInfo, pAddUsr, pcheckUsr,
                       pDelUsr, pAuthentication, pGetPermissionCabByLevel, pModifyPassword,
                       pResetPassword, pGetUsrInfoFromUsrName}) ops in
          rbind (UnInitUsrList s) (\<lambda>(s, _). Inr (s, Some (ops', cb), KEY_TRUE)))"

section \<open>The accounts by name\<close>

definition um_inv :: "'d UsrManageInner_T \<Rightarrow> bool" where
  "um_inv s \<longleftrightarrow> reg_inv usrname (objs s) (listHead s)"

definition um_get :: "'d UsrManageInner_T \<Rightarrow> string \<Rightarrow> UsrInfo_T option" where
  "um_get s = reg_get usrname (objs s) (listHead s)"

lemma um_inv_ok: "um_inv s \<Longrightarrow> reg_ok (objs s) (listHead s)"
  by (simp add: um_inv_def reg_inv_def)

lemma um_find_none: "reg_ok (objs s) (listHead s) \<Longrightarrow> um_get s n = None \<Longrightarrow> um_find s n = Inr 0"
  by (simp add: um_find_def um_get_def reg_lookup_none)

lemma um_find_some:
  assumes "reg_ok (objs s) (listHead s)" "um_get s n = Some u"
  obtains p where "um_find s n = Inr p" "p \<in> set (listHead s)" "p \<noteq> 0" "objs s p = Some u" "usrname u = n"
  using reg_lookup_some [of "objs s" "listHead s" usrname n u] assms by (auto simp: um_find_def um_get_def)

lemma um_put_sel [simp]:
  "listHead (um_put s p u) = listHead s" "objs (um_put s p u) = (objs s)(p \<mapsto> u)"
  "cbs (um_put s p u) = cbs s" "next_id (um_put s p u) = next_id s" "db (um_put s p u) = db s"
  by (simp_all add: um_put_def)

lemma um_store_sel [simp]:
  "listHead (fst (um_store cb u s r)) = listHead s" "objs (fst (um_store cb u s r)) = objs s"
  "cbs (fst (um_store cb u s r)) = cbs s" "next_id (fst (um_store cb u s r)) = next_id s"
  by (simp_all add: um_store_def split: option.splits prod.splits)

lemma um_put_same_name:
  assumes "um_inv s" "p \<in> set (listHead s)" "objs s p = Some u" "usrname u' = usrname u"
  shows "um_inv (fst (um_store cb x (um_put s p u') r))"
    "um_get (fst (um_store cb x (um_put s p u') r)) = (um_get s)(usrname u \<mapsto> u')"
  using reg_update [of usrname "objs s" "listHead s" p u u'] assms by (simp_all add: um_inv_def um_get_def)

section \<open>Operations on one account\<close>

lemma Authentication_spec:
  assumes "um_inv s"
  shows "Authentication s n pw =
    Inr (case um_get s n of None \<Rightarrow> 0 | Some u \<Rightarrow> if passWord u = pw then userLevel u else 0)"
proof (cases "um_get s n")
  case None
  then show ?thesis using um_find_none [OF um_inv_ok [OF assms(1)] None] assms by (simp add: Authentication_def)
next
  case (Some u)
  with assms obtain p where "um_find s n = Inr p" "p \<noteq> 0" "objs s p = Some u"
    by (auto intro: um_find_some [OF um_inv_ok [OF assms(1)] Some])
  with Some show ?thesis by (simp add: Authentication_def)
qed

lemma ModifyPassword_spec:
  assumes "um_inv s" "length old \<le> 16" "length new \<le> 16"
  shows "case um_get s n of
      None \<Rightarrow> ModifyPassword s n old new = Inl NullDeref
    | Some u \<Rightarrow>
        if passWord u = old then
          \<exists>s' r. ModifyPassword s n old new = Inr (s', r) \<and> um_inv s' \<and>
                 um_get s' = (um_get s)(n \<mapsto> u\<lparr>passWord := new\<rparr>)
        else ModifyPassword s n old new = Inr (s, KEY_FALSE)"
proof (cases "um_get s n")
  case None
  then show ?thesis using um_find_none [OF um_inv_ok [OF assms(1)] None] assms by (simp add: ModifyPassword_def)
next
  case (Some u)
  with assms obtain p where p: "um_find s n = Inr p" "p \<noteq> 0" "objs s p = Some u" "p \<in> set (listHead s)"
      "usrname u = n"
    by (auto intro: um_find_some [OF um_inv_ok [OF assms(1)] Some])
  let ?s' = "um_store (setUsrInfocb (cbs s)) (u\<lparr>passWord := new\<rparr>) (um_put s p (u\<lparr>passWord := new\<rparr>)) KEY_TRUE"
  have "um_inv (fst ?s')" "um_get (fst ?s') = (um_get s)(n \<mapsto> u\<lparr>passWord := new\<rparr>)"
    using um_put_same_name [OF assms(1) p(4,3)] p(5) by simp_all
  with Some p(1-3) assms(2,3) show ?thesis
    by (auto simp: ModifyPassword_def Let_def intro!: exI [of _ "fst ?s'"] exI [of _ "snd ?s'"])
qed

section \<open>New user ids\<close>

lemma usrid_loop_fresh:
  assumes "reg_ok m vs"
  shows "\<exists>j. i \<le> j \<and> j \<le> i + length vs \<and> usrid_loop m vs i = Some (Inr (j, 1000000 + j)) \<and>
             (\<forall>v \<in> set vs. usrID (the (m v)) \<noteq> 1000000 + j)"
proof -
  define used where "used i = {v \<in> set vs. 1000000 + i \<le> usrID (the (m v))}" for i
  have fin: "finite (used i)" for i by (simp add: used_def)
  have "\<exists>j. i \<le> j \<and> j \<le> i + card (used i) \<and> usrid_loop m vs i = Some (Inr (j, 1000000 + j)) \<and>
             (\<forall>v \<in> set vs. usrID (the (m v)) \<noteq> 1000000 + j)"
  proof (induction "card (used i)" arbitrary: i rule: less_induct)
    case less
    show ?case
    proof (cases "reg_get usrID m vs (1000000 + i)")
      case None
      then show ?thesis using reg_lookup_none [OF assms None]
        by (subst usrid_loop.simps) (auto simp: reg_get_None_iff)
    next
      case (Some u)
      from reg_lookup_some [OF assms Some] obtain v where
          v: "reg_lookup m (\<lambda>x. usrID x = 1000000 + i) vs = Inr v" "v \<in> set vs" "v \<noteq> 0" "m v = Some u"
             "usrID u = 1000000 + i" .
      have "v \<in> used i" "v \<notin> used (i + 1)" "used (i + 1) \<subseteq> used i" using v by (auto simp: used_def)
      then have c: "card (used (i + 1)) < card (used i)" by (intro psubset_card_mono fin) auto
      from less [OF this] c v(1,3) show ?thesis
        by (subst usrid_loop.simps) (auto dest!: add_leD1 Suc_leD intro: le_trans)
    qed
  qed
  moreover have "card (used i) \<le> length vs"
    using card_mono [of "set vs" "used i"] card_length [of vs] by (auto simp: used_def)
  ultimately show ?thesis by (meson add_left_mono le_trans)
qed

lemma CreateUsrid_spec:
  assumes "reg_ok (objs s) (listHead s)"
  shows "\<exists>j. CreateUsrid s = Some (Inr (s\<lparr>next_id := j\<rparr>, 1000000 + j)) \<and> next_id s \<le> j \<and>
             j \<le> next_id s + length (listHead s) \<and>
             (\<forall>v \<in> set (listHead s). usrID (the (objs s v)) \<noteq> 1000000 + j)"
  using usrid_loop_fresh [OF assms, of "next_id s"] by (auto simp: CreateUsrid_def)

section \<open>Adding and deleting\<close>

lemma CheckUsrInfoValidity_cases [simp]:
  "CheckUsrInfoValidity info = KEY_FALSE \<longleftrightarrow> length (usrname info) > 129 \<or> length (passWord info) > 16"
  by (simp add: CheckUsrInfoValidity_def)

definition may_add :: "'d UsrManageInner_T \<Rightarrow> UsrInfo_T \<Rightarrow> UsrInfo_T \<Rightarrow> bool" where
  "may_add s cur info \<longleftrightarrow> length (usrname info) \<le> 129 \<and> length (passWord info) \<le> 16 \<and>
     userLevel info \<le> userLevel cur \<and> um_get s (usrname info) = None"

lemma CheckUser_spec:
  assumes "reg_ok (objs s) (listHead s)"
  shows "\<exists>c. CheckUser s cur info = Inr c \<and> (c = KEY_TRUE \<longleftrightarrow> may_add s cur info)"
proof (cases "um_get s (usrname info)")
  case None
  then show ?thesis using um_find_none [OF assms None] by (auto simp: CheckUser_def may_add_def)
next
  case (Some u)
  from um_find_some [OF assms Some] obtain p where "um_find s (usrname info) = Inr p" "p \<noteq> 0" .
  then show ?thesis using Some by (auto simp: CheckUser_def may_add_def)
qed

lemma AddUsr_refused:
  assumes "reg_ok (objs s) (listHead s)" "\<not> may_add s cur info"
  shows "AddUsr s cur info p = Some (Inr (s, KEY_FALSE))"
  using CheckUser_spec [OF assms(1), of cur info] assms(2) by (auto simp: AddUsr_def)

lemma AddUsr_done:
  assumes "reg_ok (objs s) (listHead s)" "may_add s cur info" "p \<noteq> 0"
  shows "\<exists>s' r j. AddUsr s cur info p = Some (Inr (s', r)) \<and> listHead s' = listHead s @ [p] \<and>
           objs s' = (objs s)(p \<mapsto> info\<lparr>usrID := 1000000 + j\<rparr>) \<and> cbs s' = cbs s \<and>
           (\<forall>v \<in> set (listHead s). usrID (the (objs s v)) \<noteq> 1000000 + j)"
proof -
  obtain j where j: "CreateUsrid s = Some (Inr (s\<lparr>next_id := j\<rparr>, 1000000 + j))"
      "\<forall>v \<in> set (listHead s). usrID (the (objs s v)) \<noteq> 1000000 + j"
    using CreateUsrid_spec [OF assms(1)] by blast
  let ?u = "info\<lparr>usrID := 1000000 + j\<rparr>"
  let ?x = "um_store (addUsrcb (cbs s)) ?u (um_put (s\<lparr>next_id := j, listHead := listHead s @ [p]\<rparr>) p ?u) KEY_TRUE"
  have "CheckUser s cur info = Inr KEY_TRUE" using CheckUser_spec [OF assms(1)] assms(2) by blast
  then have "AddUsr s cur info p = Some (Inr ?x)"
    using j(1) assms(2,3) by (simp add: AddUsr_def may_add_def Let_def)
  then show ?thesis using j(2)
    by (intro exI [of _ "fst ?x"] exI [of _ "snd ?x"] exI [of _ j]) simp
qed

lemma AddUsr_registry:
  assumes "um_inv s" "may_add s cur info" "p \<noteq> 0" "objs s p = None"
    "AddUsr s cur info p = Some (Inr (s', r))"
  shows "um_inv s'" "\<exists>j. um_get s' = (um_get s)(usrname info \<mapsto> info\<lparr>usrID := j\<rparr>)"
proof -
  obtain j where s': "listHead s' = listHead s @ [p]" "objs s' = (objs s)(p \<mapsto> info\<lparr>usrID := 1000000 + j\<rparr>)"
    using AddUsr_done [OF um_inv_ok [OF assms(1)] assms(2,3)] assms(5) by auto
  have "p \<notin> set (listHead s)" using um_inv_ok [OF assms(1)] assms(4) by (auto simp: reg_ok_def)
  with reg_add [of usrname "objs s" "listHead s" p "info\<lparr>usrID := 1000000 + j\<rparr>"] assms(1-3) s'
  show "um_inv s'" "\<exists>j. um_get s' = (um_get s)(usrname info \<mapsto> info\<lparr>usrID := j\<rparr>)"
    by (auto simp: um_inv_def um_get_def may_add_def)
qed

definition may_del :: "'d UsrManageInner_T \<Rightarrow> UsrInfo_T \<Rightarrow> string \<Rightarrow> bool" where
  "may_del s cur n \<longleftrightarrow> (case um_get s n of None \<Rightarrow> False | Some u \<Rightarrow> userLevel u \<le> userLevel cur)"

lemma DelUsr_refused:
  assumes "reg_ok (objs s) (listHead s)" "\<not> may_del s cur (usrname info)"
  shows "DelUsr s cur info = Inr (s, KEY_FALSE)"
proof (cases "um_get s (usrname info)")
  case None
  then show ?thesis using um_find_none [OF assms(1) None] by (simp add: DelUsr_def)
next
  case (Some u)
  from um_find_some [OF assms(1) Some] obtain p where "um_find s (usrname info) = Inr p" "p \<noteq> 0"
    "objs s p = Some u" .
  then show ?thesis using Some assms(2) by (simp add: DelUsr_def may_del_def)
qed

lemma DelUsr_done:
  assumes "reg_ok (objs s) (listHead s)" "um_get s (usrname info) = Some u" "userLevel u \<le> userLevel cur"
  obtains p s' where "p \<in> set (listHead s)" "objs s p = Some u" "usrname u = usrname info"
    "listHead s' = remove1 p (listHead s)" "objs s' = (objs s)(p := None)" "cbs s' = cbs s" "db s' = db s"
    "DelUsr s cur info = (case delUsrcb (cbs s) of None \<Rightarrow> Inr (s', KEY_TRUE)
       | Some f \<Rightarrow> rbind (f None (db s)) (\<lambda>(d, r). Inr (s'\<lparr>db := d\<rparr>, r)))"
proof -
  from um_find_some [OF assms(1,2)] obtain p where p: "um_find s (usrname info) = Inr p"
    "p \<in> set (listHead s)" "p \<noteq> 0" "objs s p = Some u" "usrname u = usrname info" .
  show thesis
    by (rule that [of p "s\<lparr>listHead := remove1 p (listHead s), objs := (objs s)(p := None)\<rparr>"])
      (use p assms(3) in \<open>simp_all add: DelUsr_def Let_def split: option.splits\<close>)
qed

lemma DelUsr_registry:
  assumes "um_inv s" "may_del s cur (usrname info)" "DelUsr s cur info = Inr (s', r)"
  shows "um_inv s'" "um_get s' = (um_get s)(usrname info := None)"
proof -
  obtain u where u: "um_get s (usrname info) = Some u" "userLevel u \<le> userLevel cur"
    using assms(2) by (auto simp: may_del_def split: option.splits)
  from DelUsr_done [OF um_inv_ok [OF assms(1)] u] obtain p s1 where
      p: "p \<in> set (listHead s)" "objs s p = Some u" "usrname u = usrname info"
      and s1: "listHead s1 = remove1 p (listHead s)" "objs s1 = (objs s)(p := None)"
      "cbs s1 = cbs s" "db s1 = db s"
      "DelUsr s cur info = (case delUsrcb (cbs s) of None \<Rightarrow> Inr (s1, KEY_TRUE)
         | Some f \<Rightarrow> rbind (f None (db s)) (\<lambda>(d, r). Inr (s1\<lparr>db := d\<rparr>, r)))" .
  have "listHead s' = listHead s1" "objs s' = objs s1"
    using s1(5) assms(3) by (auto simp: outcome_iff split: option.splits)
  then show "um_inv s'" "um_get s' = (um_get s)(usrname info := None)"
    using reg_del [of usrname "objs s" "listHead s" p u] assms(1) p s1 by (simp_all add: um_inv_def um_get_def)
qed

section \<open>Sequences of operations\<close>

text \<open>
  The operations that change accounts, as one caller issues them. \<open>alloc\<close> is \<^verbatim>\<open>malloc\<close> for the
  records.
\<close>

datatype usr_op = OAdd UsrInfo_T | ODel UsrInfo_T | OPass string string string
  | OReset string string string | OModify UsrInfo_T | OBind UsrInfo_T string

definition um_do ::
    "((nat \<rightharpoonup> UsrInfo_T) \<Rightarrow> nat) \<Rightarrow> UsrInfo_T \<Rightarrow> 'd UsrManageInner_T \<Rightarrow> usr_op \<Rightarrow> ('d UsrManageInner_T \<times> int) run"
  where
  "um_do alloc cur s op = (case op of
      OAdd info \<Rightarrow> AddUsr s cur info (alloc (objs s))
    | ODel info \<Rightarrow> Some (DelUsr s cur info)
    | OPass n old new \<Rightarrow> Some (ModifyPassword s n old new)
    | OReset n country pw \<Rightarrow> Some (ResetPassword s (Some n) (Some country) (Some pw))
    | OModify info \<Rightarrow> Some (ModifyUsrInfo s cur info)
    | OBind info old \<Rightarrow> Some (rbind (ModifyUsrBindInfo s (Some info) (Some old)) (\<lambda>(s, _, r). Inr (s, r))))"

fun um_exec ::
    "((nat \<rightharpoonup> UsrInfo_T) \<Rightarrow> nat) \<Rightarrow> UsrInfo_T \<Rightarrow> 'd UsrManageInner_T \<Rightarrow> usr_op list \<Rightarrow>
     ('d UsrManageInner_T \<times> int list) run" where
  "um_exec alloc cur s [] = Some (Inr (s, []))"
| "um_exec alloc cur s (op # ops) =
     run_bind (um_do alloc cur s op) (\<lambda>(s, r).
     run_bind (um_exec alloc cur s ops) (\<lambda>(s, rs). Some (Inr (s, r # rs))))"

text \<open>What an operation of a caller of level \<open>L\<close> can do to the list of records.\<close>

inductive um_effect :: "nat \<Rightarrow> 'd UsrManageInner_T \<Rightarrow> 'd UsrManageInner_T \<Rightarrow> bool" for L where
  eff_none: "listHead s' = listHead s \<Longrightarrow> objs s' = objs s \<Longrightarrow> um_effect L s s'"
| eff_put: "p \<in> set (listHead s) \<Longrightarrow> objs s p = Some u \<Longrightarrow> userLevel u' = userLevel u \<Longrightarrow>
    listHead s' = listHead s \<Longrightarrow> objs s' = (objs s)(p \<mapsto> u') \<Longrightarrow> um_effect L s s'"
| eff_add: "p \<noteq> 0 \<Longrightarrow> objs s p = None \<Longrightarrow> userLevel u \<le> L \<Longrightarrow>
    listHead s' = listHead s @ [p] \<Longrightarrow> objs s' = (objs s)(p \<mapsto> u) \<Longrightarrow> um_effect L s s'"
| eff_del: "p \<in> set (listHead s) \<Longrightarrow> objs s p = Some u \<Longrightarrow> userLevel u \<le> L \<Longrightarrow>
    listHead s' = remove1 p (listHead s) \<Longrightarrow> objs s' = (objs s)(p := None) \<Longrightarrow> um_effect L s s'"

definition levels :: "'d UsrManageInner_T \<Rightarrow> nat list" where
  "levels s = map userLevel (reg_recs (objs s) (listHead s))"

lemma reg_lookup_in: "reg_lookup m P vs = Inr p \<Longrightarrow> p \<noteq> 0 \<Longrightarrow> p \<in> set vs"
  by (induction vs) (auto simp: outcome_iff split: if_splits)

lemma um_find_in: "um_find s n = Inr p \<Longrightarrow> p \<noteq> 0 \<Longrightarrow> p \<in> set (listHead s)"
  by (auto simp: um_find_def dest: reg_lookup_in)

lemma um_effect_store:
  assumes "um_store cb x (um_put s p u') r0 = (s', r)" "um_find s n = Inr p" "p \<noteq> 0" "objs s p = Some u"
    "userLevel u' = userLevel u"
  shows "um_effect L s s'"
proof -
  have "s' = fst (um_store cb x (um_put s p u') r0)" using assms(1) by (metis fst_conv)
  then show ?thesis using um_find_in [OF assms(2,3)] assms(4,5) by (auto intro: eff_put)
qed

lemma levels_put:
  "m p = Some u \<Longrightarrow> f u' = f u \<Longrightarrow> map f (reg_recs (m(p \<mapsto> u')) vs) = map f (reg_recs m vs)"
  by (auto simp: reg_recs_def)

lemma reg_recs_remove1:
  "distinct vs \<Longrightarrow> p \<in> set vs \<Longrightarrow> \<not> P (f (the (m p))) \<Longrightarrow>
   filter P (map f (reg_recs (m(p := y)) (remove1 p vs))) = filter P (map f (reg_recs m vs))"
proof (induction vs)
  case (Cons v vs)
  show ?case
  proof (cases "v = p")
    case True
    with Cons.prems have "p \<notin> set vs" by auto
    with True Cons.prems(3) show ?thesis by (simp add: fun_upd_def [symmetric])
  next
    case False
    then show ?thesis using Cons by simp
  qed
qed simp

text \<open>The records above the caller's level are untouched, and the list stays well formed.\<close>

lemma um_effect_levels:
  assumes "um_effect L s s'" "reg_ok (objs s) (listHead s)"
  shows "filter (\<lambda>l. L < l) (levels s') = filter (\<lambda>l. L < l) (levels s) \<and> reg_ok (objs s') (listHead s')"
  using assms
proof (induction rule: um_effect.induct)
  case (eff_none s' s)
  then show ?case by (simp add: levels_def)
next
  case (eff_put p s u u' s')
  then show ?case using levels_put [of "objs s" p u userLevel u' "listHead s"]
    by (auto simp: levels_def reg_ok_def)
next
  case (eff_add p s u s')
  then have "p \<notin> set (listHead s)" by (auto simp: reg_ok_def)
  with eff_add show ?case by (auto simp: levels_def reg_ok_def)
next
  case (eff_del p s u s')
  then have "reg_ok (objs s') (listHead s')" using reg_ok_del [of "objs s" "listHead s" p] by simp
  moreover have "filter (\<lambda>l. L < l) (levels s') = filter (\<lambda>l. L < l) (levels s)"
    using eff_del reg_recs_remove1 [of "listHead s" p "\<lambda>l. L < l" userLevel "objs s" None]
    by (simp add: levels_def reg_ok_def)
  ultimately show ?case by blast
qed

lemma um_do_effect:
  assumes "reg_ok (objs s) (listHead s)" "objs s (alloc (objs s)) = None" "alloc (objs s) \<noteq> 0"
    and "um_do alloc cur s op = Some (Inr (s', r))"
  shows "um_effect (userLevel cur) s s'"
proof (cases op)
  case (OAdd info)
  show ?thesis
  proof (cases "may_add s cur info")
    case True
    from AddUsr_done [OF assms(1) True assms(3)] OAdd assms(4) obtain j where
        "listHead s' = listHead s @ [alloc (objs s)]" "objs s' = (objs s)(alloc (objs s) \<mapsto> info\<lparr>usrID := j\<rparr>)"
      by (auto simp: um_do_def)
    with True assms(2,3) show ?thesis by (intro eff_add) (auto simp: may_add_def)
  next
    case False
    then show ?thesis using AddUsr_refused [OF assms(1) False] OAdd assms(4)
      by (auto simp: um_do_def intro: eff_none)
  qed
next
  case (ODel info)
  show ?thesis
  proof (cases "may_del s cur (usrname info)")
    case True
    then obtain u where u: "um_get s (usrname info) = Some u" "userLevel u \<le> userLevel cur"
      by (auto simp: may_del_def split: option.splits)
    from DelUsr_done [OF assms(1) u] obtain p s1 where
        p: "p \<in> set (listHead s)" "objs s p = Some u" "usrname u = usrname info"
          "listHead s1 = remove1 p (listHead s)" "objs s1 = (objs s)(p := None)"
          "cbs s1 = cbs s" "db s1 = db s"
          "DelUsr s cur info = (case delUsrcb (cbs s) of None \<Rightarrow> Inr (s1, KEY_TRUE)
             | Some f \<Rightarrow> rbind (f None (db s)) (\<lambda>(d, r). Inr (s1\<lparr>db := d\<rparr>, r)))" .
    have "listHead s' = listHead s1" "objs s' = objs s1"
      using p(8) assms(4) ODel by (auto simp: um_do_def outcome_iff split: option.splits)
    with p u(2) show ?thesis by (intro eff_del) auto
  next
    case False
    then show ?thesis using DelUsr_refused [OF assms(1) False] ODel assms(4)
      by (auto simp: um_do_def intro: eff_none)
  qed
next
  case (OPass n old new)
  then show ?thesis using assms(4)
    by (auto simp: um_do_def ModifyPassword_def outcome_iff Let_def intro: eff_none um_effect_store
        split: if_splits)
next
  case (OReset n country pw)
  then show ?thesis using assms(4)
    by (auto simp: um_do_def ResetPassword_def outcome_iff Let_def intro: eff_none um_effect_store
        split: if_splits)
next
  case (OModify info)
  then show ?thesis using assms(4)
    by (auto simp: um_do_def ModifyUsrInfo_def outcome_iff Let_def intro: eff_none um_effect_store
        split: if_splits)
next
  case (OBind info old)
  then show ?thesis using assms(4)
    by (auto simp: um_do_def ModifyUsrBindInfo_def outcome_iff Let_def case_prod_beta prod_eq_iff
        intro: eff_none um_effect_store split: if_splits)
qed

lemma um_effect_finite: "um_effect L s s' \<Longrightarrow> finite (dom (objs s)) \<Longrightarrow> finite (dom (objs s'))"
  by (erule um_effect.cases) auto

lemma um_exec_levels:
  assumes "reg_ok (objs s) (listHead s)" "finite (dom (objs s))" "obj_alloc_ok alloc"
    and "um_exec alloc cur s ops = Some (Inr (s', rs))"
  shows "filter (\<lambda>l. userLevel cur < l) (levels s') = filter (\<lambda>l. userLevel cur < l) (levels s)"
  using assms
proof (induction ops arbitrary: s rs)
  case (Cons op ops)
  from Cons.prems(4) obtain s1 r rs1 where s1: "um_do alloc cur s op = Some (Inr (s1, r))"
      "um_exec alloc cur s1 ops = Some (Inr (s', rs1))"
    by (auto simp: outcome_iff)
  have e: "um_effect (userLevel cur) s s1"
    by (rule um_do_effect [OF Cons.prems(1) _ _ s1(1)])
      (use Cons.prems(2,3) in \<open>simp_all add: obj_alloc_ok_def\<close>)
  note l = um_effect_levels [OF e Cons.prems(1)]
  have "filter (\<lambda>l. userLevel cur < l) (levels s') = filter (\<lambda>l. userLevel cur < l) (levels s1)"
    by (rule Cons.IH [OF _ _ Cons.prems(3) s1(2)]) (use l um_effect_finite [OF e Cons.prems(2)] in auto)
  with l show ?case by simp
qed auto

section \<open>When an operation faults, and what it keeps\<close>

text \<open>
  \<open>op_safe\<close>: the exact conditions under which an operation returns. \<open>ModifyPassword\<close> follows the
  NULL result of the lookup when the user does not exist, \<open>ResetPassword\<close> copies a password of
  any length, and \<open>DelUsr\<close> hands the data base callback a pointer into the freed record.
\<close>

fun op_safe :: "UsrInfo_T \<Rightarrow> 'd UsrManageInner_T \<Rightarrow> usr_op \<Rightarrow> bool" where
  "op_safe cur s (OPass n old new) = (length old > 16 \<or> length new > 16 \<or> um_get s n \<noteq> None)"
| "op_safe cur s (OReset n country pw) = (um_get s n = None \<or> length pw \<le> 128)"
| "op_safe cur s (ODel info) =
     (\<not> may_del s cur (usrname info) \<or>
      (case delUsrcb (cbs s) of None \<Rightarrow> True | Some f \<Rightarrow> (case f None (db s) of Inl _ \<Rightarrow> False | Inr _ \<Rightarrow> True)))"
| "op_safe cur s _ = True"

text \<open>Renaming an account to a name that another account has.\<close>

fun steals_name :: "'d UsrManageInner_T \<Rightarrow> usr_op \<Rightarrow> bool" where
  "steals_name s (OBind info old) =
     (um_get s old \<noteq> None \<and> take 128 (usrname info) \<noteq> old \<and> um_get s (take 128 (usrname info)) \<noteq> None)"
| "steals_name s _ = False"

definition returns_inv :: "('d UsrManageInner_T \<times> int) run \<Rightarrow> bool" where
  "returns_inv x \<longleftrightarrow> (\<exists>s' r. x = Some (Inr (s', r)) \<and> um_inv s')"

lemma returns_inv_simps [simp]:
  "returns_inv (Some (Inr x)) \<longleftrightarrow> um_inv (fst x)" "\<not> returns_inv (Some (Inl e))" "\<not> returns_inv None"
  by (cases x) (auto simp: returns_inv_def)

lemma um_rename:
  assumes "um_inv s" "p \<in> set (listHead s)" "objs s p = Some u" "usrname u' = usrname u \<or> um_get s (usrname u') = None"
  shows "reg_inv usrname ((objs s)(p \<mapsto> u')) (listHead s)"
proof (cases "usrname u' = usrname u")
  case True
  then show ?thesis using reg_update(1) assms by (auto simp: um_inv_def)
next
  case False
  have "reg_ok ((objs s)(p \<mapsto> u')) (listHead s)" using assms(1,2) by (auto simp: um_inv_def reg_inv_def reg_ok_def)
  moreover have "distinct (map usrname (reg_recs ((objs s)(p \<mapsto> u')) (listHead s)))"
  proof -
    let ?f = "\<lambda>v. usrname (the (objs s v))"
    have "map usrname (reg_recs ((objs s)(p \<mapsto> u')) (listHead s)) = map (?f(p := usrname u')) (listHead s)"
      by (simp add: reg_recs_def)
    moreover have "inj_on ?f (set (listHead s))" "distinct (listHead s)"
      using assms(1) by (simp_all add: um_inv_def reg_inv_def reg_ok_def reg_recs_def distinct_map o_def)
    moreover have "usrname u' \<notin> ?f ` set (listHead s)"
      using False assms(4) by (auto simp: um_get_def reg_get_None_iff)
    ultimately show ?thesis by (simp add: distinct_map inj_on_fun_updI)
  qed
  ultimately show ?thesis by (simp add: reg_inv_def)
qed

lemma um_do_step:
  assumes "um_inv s" "objs s (alloc (objs s)) = None" "alloc (objs s) \<noteq> 0" "\<not> steals_name s op"
  shows "op_safe cur s op \<Longrightarrow> returns_inv (um_do alloc cur s op)"
    "\<not> op_safe cur s op \<Longrightarrow> \<exists>e. um_do alloc cur s op = Some (Inl e)"
proof -
  note ok = um_inv_ok [OF assms(1)]
  have "if op_safe cur s op then returns_inv (um_do alloc cur s op)
        else \<exists>e. um_do alloc cur s op = Some (Inl e)"
  proof (cases op)
    case (OAdd info)
    then show ?thesis
      using AddUsr_refused [OF ok, of cur info] AddUsr_done [OF ok _ assms(3), of cur info]
        AddUsr_registry(1) [OF assms(1) _ assms(3,2), of cur info] assms(1)
      by (cases "may_add s cur info") (auto simp: um_do_def)
  next
    case (ODel info)
    show ?thesis
    proof (cases "may_del s cur (usrname info)")
      case True
      then obtain u where u: "um_get s (usrname info) = Some u" "userLevel u \<le> userLevel cur"
        by (auto simp: may_del_def split: option.splits)
      from DelUsr_done [OF ok u] obtain p s1 where "p \<in> set (listHead s)" "objs s p = Some u"
          "usrname u = usrname info" "listHead s1 = remove1 p (listHead s)" "objs s1 = (objs s)(p := None)"
          "cbs s1 = cbs s" "db s1 = db s"
          "DelUsr s cur info = (case delUsrcb (cbs s) of None \<Rightarrow> Inr (s1, KEY_TRUE)
             | Some f \<Rightarrow> rbind (f None (db s)) (\<lambda>(d, r). Inr (s1\<lparr>db := d\<rparr>, r)))" .
      with DelUsr_registry(1) [OF assms(1) True] ODel True show ?thesis
        by (auto simp: um_do_def split: option.splits sum.splits prod.splits)
    qed (use ODel assms(1) DelUsr_refused [OF ok] in \<open>auto simp: um_do_def\<close>)
  next
    case (OPass n old new)
    show ?thesis
    proof (cases "length old \<le> 16 \<and> length new \<le> 16")
      case True
      with ModifyPassword_spec [OF assms(1), of old new n] OPass assms(1) show ?thesis
        by (auto simp: um_do_def split: option.splits if_splits)
    qed (use OPass assms(1) in \<open>auto simp: um_do_def ModifyPassword_def\<close>)
  next
    case (OReset n country pw)
    show ?thesis
    proof (cases "um_get s n")
      case None
      then show ?thesis using OReset assms(1) um_find_none [OF ok None] by (auto simp: um_do_def ResetPassword_def)
    next
      case (Some u)
      from um_find_some [OF ok Some] obtain p where p: "um_find s n = Inr p" "p \<in> set (listHead s)" "p \<noteq> 0"
        "objs s p = Some u" .
      with OReset Some um_put_same_name(1) [OF assms(1) p(2,4)] show ?thesis
        by (auto simp: um_do_def ResetPassword_def Let_def)
    qed
  next
    case (OModify info)
    show ?thesis
    proof (cases "um_get s (usrname info)")
      case None
      then show ?thesis using OModify assms(1) um_find_none [OF ok None]
        by (auto simp: um_do_def ModifyUsrInfo_def)
    next
      case (Some u)
      from um_find_some [OF ok Some] obtain p where p: "um_find s (usrname info) = Inr p"
        "p \<in> set (listHead s)" "p \<noteq> 0" "objs s p = Some u" "usrname u = usrname info" .
      with OModify Some um_put_same_name(1) [OF assms(1) p(2,4)] assms(1) show ?thesis
        by (auto simp: um_do_def ModifyUsrInfo_def Let_def)
    qed
  next
    case (OBind info old)
    show ?thesis
    proof (cases "um_get s old")
      case None
      then show ?thesis using OBind assms(1) um_find_none [OF ok None]
        by (auto simp: um_do_def ModifyUsrBindInfo_def)
    next
      case (Some u)
      from um_find_some [OF ok Some] obtain p where p: "um_find s old = Inr p"
        "p \<in> set (listHead s)" "p \<noteq> 0" "objs s p = Some u" "usrname u = old" .
      with OBind Some um_rename [OF assms(1) p(2,4)] assms(4) show ?thesis
        by (auto simp: um_do_def ModifyUsrBindInfo_def Let_def case_prod_beta um_inv_def)
    qed
  qed
  then show "op_safe cur s op \<Longrightarrow> returns_inv (um_do alloc cur s op)"
    "\<not> op_safe cur s op \<Longrightarrow> \<exists>e. um_do alloc cur s op = Some (Inl e)" by auto
qed

section \<open>The accounts as a registry\<close>

definition usr_added :: "'d UsrManageInner_T \<Rightarrow> UsrInfo_T \<Rightarrow> 'd UsrManageInner_T \<Rightarrow> bool" where
  "usr_added s info s' \<longleftrightarrow> (\<exists>cur p r. p \<noteq> 0 \<and> objs s p = None \<and>
     AddUsr s cur info p = Some (Inr (s', r)) \<and> listHead s' \<noteq> listHead s)"

definition usr_deleted :: "'d UsrManageInner_T \<Rightarrow> string \<Rightarrow> 'd UsrManageInner_T \<Rightarrow> bool" where
  "usr_deleted s n s' \<longleftrightarrow> (\<exists>cur info r. usrname info = n \<and>
     DelUsr s cur info = Inr (s', r) \<and> listHead s' \<noteq> listHead s)"

interpretation usr: keyed_registry um_inv um_get usrname usr_added usr_deleted
proof (unfold_locales, goal_cases)
  case (1 s info s')
  then obtain cur p r where a: "p \<noteq> 0" "objs s p = None" "AddUsr s cur info p = Some (Inr (s', r))"
      "listHead s' \<noteq> listHead s" by (auto simp: usr_added_def)
  have m: "may_add s cur info"
    using AddUsr_refused [OF um_inv_ok [OF 1(1)], of cur info p] a(3,4) by auto
  from AddUsr_registry [OF 1(1) m a(1-3)] obtain j where
      "um_inv s'" "um_get s' = (um_get s)(usrname info \<mapsto> info\<lparr>usrID := j\<rparr>)" by blast
  with m show ?case by (auto simp: may_add_def intro!: exI [of _ "info\<lparr>usrID := j\<rparr>"])
next
  case (2 s n s')
  then obtain cur info r where d: "usrname info = n" "DelUsr s cur info = Inr (s', r)"
      "listHead s' \<noteq> listHead s" by (auto simp: usr_deleted_def)
  have m: "may_del s cur (usrname info)"
    using DelUsr_refused [OF um_inv_ok [OF 2(1)], of cur info] d(2,3) by auto
  from DelUsr_registry [OF 2(1) m d(2)] m d(1) show ?case
    by (auto simp: may_del_def split: option.splits)
qed

section \<open>Properties\<close>

definition demo_admin :: UsrInfo_T where
  "demo_admin = \<lparr>userLevel = 3, usrname = ''admin'', passWord = ''secret'', countrycode = '''',
     customname = '''', usrID = 1000000\<rparr>"

definition demo_guest :: UsrInfo_T where
  "demo_guest = \<lparr>userLevel = 1, usrname = ''guest'', passWord = ''pw'', countrycode = '''',
     customname = '''', usrID = 1000001\<rparr>"

definition demo_users :: "unit UsrManageInner_T" where
  "demo_users = \<lparr>listHead = [10, 20], objs = [10 \<mapsto> demo_admin, 20 \<mapsto> demo_guest], next_id = 0,
     cbs = \<lparr>addUsrcb = None, delUsrcb = None, setUsrInfocb = None, getUsrInfoListcb = None,
       getUsrInfoListNumcb = None, modifyUsrBindInfocb = None\<rparr>, db = ()\<rparr>"

lemma demo_users_inv: "um_inv demo_users"
  by (simp add: um_inv_def reg_inv_def reg_ok_def demo_users_def demo_admin_def demo_guest_def)

lemma demo_users_fresh: "objs demo_users 30 = None"
  by (simp add: demo_users_def)

lemma demo_users_get [simp]:
  "um_get demo_users n = (if n = ''admin'' then Some demo_admin else if n = ''guest'' then Some demo_guest else None)"
  by (auto simp: um_get_def demo_users_def demo_admin_def demo_guest_def)

text \<open>
  C5. No privilege escalation: whatever sequence of operations a caller of level \<open>userLevel cur\<close>
  issues (adding, deleting, changing passwords, modifying and renaming accounts), if the calls
  return, the accounts with a higher level than the caller's are exactly those of before: none is
  added, none is removed and none is raised or lowered in level.
\<close>

theorem users_no_escalation:
  assumes "reg_ok (objs s) (listHead s)" "finite (dom (objs s))" "obj_alloc_ok alloc"
    and "um_exec alloc cur s ops = Some (Inr (s', rs))"
  shows "filter (\<lambda>l. userLevel cur < l) (levels s') = filter (\<lambda>l. userLevel cur < l) (levels s)"
  by (rule um_exec_levels [OF assms])

theorem users_no_escalation_witness:
  "\<exists>s' rs. um_exec (\<lambda>m. Suc (Max (insert 0 (dom m)))) demo_guest demo_users [ODel demo_admin, ODel demo_guest] =
      Some (Inr (s', rs)) \<and> filter (\<lambda>l. 1 < l) (levels s') = [3]"
proof -
  have e: "um_exec (\<lambda>m. Suc (Max (insert 0 (dom m)))) demo_guest demo_users [ODel demo_admin, ODel demo_guest] =
    Some (Inr (demo_users\<lparr>listHead := [10], objs := (objs demo_users)(20 := None)\<rparr>, [KEY_FALSE, KEY_TRUE]))"
    by (simp add: um_do_def DelUsr_def um_find_def demo_users_def demo_admin_def demo_guest_def)
  have "finite (dom (objs demo_users))" by (simp add: demo_users_def)
  from users_no_escalation [OF um_inv_ok [OF demo_users_inv] this obj_alloc_ok_example e]
  show ?thesis using e by (auto simp: levels_def demo_users_def demo_admin_def demo_guest_def)
qed

text \<open>
  C6. Every operation on a well-formed table of accounts (user names unique, every record
  alive), with a working \<^verbatim>\<open>malloc\<close>, terminates; it returns with a well-formed table exactly when
  \<open>op_safe\<close> holds and ends in a fault otherwise, as long as it does not rename an account to a name that
  is taken: changing the password of an unknown user, resetting to a password of more than 128
  characters, and deleting an account whose data base callback uses its argument are faults.
\<close>

theorem users_step:
  assumes "um_inv s" "objs s (alloc (objs s)) = None" "alloc (objs s) \<noteq> 0" "\<not> steals_name s op"
  shows "if op_safe cur s op then \<exists>s' r. um_do alloc cur s op = Some (Inr (s', r)) \<and> um_inv s'
         else \<exists>e. um_do alloc cur s op = Some (Inl e)"
  using um_do_step [of s alloc op cur] assms by (auto simp: returns_inv_def)

theorem users_step_witness:
  "\<exists>e. um_do (\<lambda>_. 30) demo_admin demo_users (OPass ''nobody'' ''a'' ''b'') = Some (Inl e)"
  using users_step [OF demo_users_inv, of "\<lambda>_. 30" "OPass ''nobody'' ''a'' ''b''" demo_admin]
  by (simp add: demo_users_fresh)

text \<open>
  Changing a password: with the right old password and at most 16 characters, the account,
  and only it, has the new password; afterwards \<open>Authentication\<close> grants its level for the new
  password and nothing for any other, and treats every other user as before.
\<close>

theorem password_change:
  assumes "um_inv s" "um_get s n = Some u" "length (passWord u) \<le> 16" "length new \<le> 16"
  shows "\<exists>s' r. ModifyPassword s n (passWord u) new = Inr (s', r) \<and> um_inv s' \<and>
           Authentication s' n new = Inr (userLevel u) \<and>
           (\<forall>pw. pw \<noteq> new \<longrightarrow> Authentication s' n pw = Inr 0) \<and>
           (\<forall>n' pw. n' \<noteq> n \<longrightarrow> Authentication s' n' pw = Authentication s n' pw)"
proof -
  from ModifyPassword_spec [OF assms(1,3,4), of n] assms(2) obtain s' r where
      s': "ModifyPassword s n (passWord u) new = Inr (s', r)" "um_inv s'"
          "um_get s' = (um_get s)(n \<mapsto> u\<lparr>passWord := new\<rparr>)" by auto
  then show ?thesis using assms(1) by (auto simp: Authentication_spec)
qed

theorem password_change_witness:
  "\<exists>s' r. ModifyPassword demo_users ''guest'' ''pw'' ''new'' = Inr (s', r) \<and>
     Authentication s' ''guest'' ''new'' = Inr 1 \<and> Authentication s' ''guest'' ''pw'' = Inr 0"
  using password_change [OF demo_users_inv, of "''guest''" demo_guest "''new''"]
  by (auto simp: demo_guest_def)

text \<open>
  Adding an account: if the caller may add it (name not taken, level at most the
  caller's, password at most 16 characters), \<open>AddUsr\<close> returns: the search for a free user id ends,
  the new account is stored with an id that no existing account has, and every other account
  is unchanged. Otherwise \<open>AddUsr\<close> returns KEY_FALSE and changes nothing.
\<close>

theorem add_user:
  assumes "um_inv s" "p \<noteq> 0" "objs s p = None"
  shows "if may_add s cur info
         then \<exists>s' r j. AddUsr s cur info p = Some (Inr (s', r)) \<and> um_inv s' \<and>
                um_get s' = (um_get s)(usrname info \<mapsto> info\<lparr>usrID := j\<rparr>) \<and>
                (\<forall>n u. um_get s n = Some u \<longrightarrow> usrID u \<noteq> j)
         else AddUsr s cur info p = Some (Inr (s, KEY_FALSE))"
proof (cases "may_add s cur info")
  case True
  note ok = um_inv_ok [OF assms(1)]
  from AddUsr_done [OF ok True assms(2)] obtain s' r j where
      s': "AddUsr s cur info p = Some (Inr (s', r))" "objs s' = (objs s)(p \<mapsto> info\<lparr>usrID := 1000000 + j\<rparr>)"
      "listHead s' = listHead s @ [p]" "\<forall>v \<in> set (listHead s). usrID (the (objs s v)) \<noteq> 1000000 + j"
    by blast
  have np: "p \<notin> set (listHead s)" using ok assms(3) by (auto simp: reg_ok_def)
  have "um_get s' = (um_get s)(usrname info \<mapsto> info\<lparr>usrID := 1000000 + j\<rparr>)"
    using reg_add(2) [of usrname "objs s" "listHead s" p "info\<lparr>usrID := 1000000 + j\<rparr>"] np assms True s'
    by (simp add: um_inv_def um_get_def may_add_def)
  moreover have "usrID u \<noteq> 1000000 + j" if "um_get s n = Some u" for n u
  proof -
    from um_find_some [OF ok that] obtain q where "q \<in> set (listHead s)" "objs s q = Some u" .
    then show ?thesis using s'(4) by auto
  qed
  ultimately show ?thesis using True s'(1) AddUsr_registry(1) [OF assms(1) True assms(2,3) s'(1)]
    by (auto intro!: exI [of _ "1000000 + j"])
next
  case False
  then show ?thesis using AddUsr_refused [OF um_inv_ok [OF assms(1)] False] by simp
qed

theorem add_user_witness:
  "\<exists>s' r j. AddUsr demo_users demo_admin (demo_guest\<lparr>usrname := ''new''\<rparr>) 30 = Some (Inr (s', r)) \<and>
     um_get s' ''new'' = Some (demo_guest\<lparr>usrname := ''new'', usrID := j\<rparr>)"
  using add_user [OF demo_users_inv, of 30 demo_admin "demo_guest\<lparr>usrname := ''new''\<rparr>"]
  by (auto simp: demo_users_fresh may_add_def demo_admin_def demo_guest_def)

lemma usr_list_loop_recs:
  "reg_ok m vs \<Longrightarrow> usr_list_loop m vs = Inr (filter (\<lambda>u. usrname u \<noteq> '''') (reg_recs m vs))"
  by (induction vs) (auto simp: reg_ok_Cons)

lemma usr_num_loop_recs:
  "reg_ok m vs \<Longrightarrow>
   usr_num_loop m vs n = Inr (n + int (length (filter (\<lambda>u. usrname u \<noteq> '''') (reg_recs m vs))))"
  by (induction vs arbitrary: n) (auto simp: reg_ok_Cons)

lemma reg_recs_get:
  "reg_inv key m vs \<Longrightarrow> x \<in> set (reg_recs m vs) \<longleftrightarrow> reg_get key m vs (key x) = Some x"
proof (induction vs)
  case (Cons v vs)
  then show ?case by (auto simp: reg_inv_Cons)
qed simp

text \<open>
  The two calls with which a caller fetches all accounts agree: \<open>GetUsrInfoListNum\<close> reports
  exactly the number of records that \<open>GetUsrInfoList\<close> writes to the caller's array, and these
  are the accounts with a non-empty name, each once.
\<close>

theorem list_matches_num:
  assumes "um_inv s"
  shows "\<exists>us. GetUsrInfoList s = Inr (us, KEY_TRUE) \<and> GetUsrInfoListNum s = Inr (int (length us), KEY_TRUE) \<and>
           distinct (map usrname us) \<and>
           (\<forall>u. u \<in> set us \<longleftrightarrow> usrname u \<noteq> '''' \<and> um_get s (usrname u) = Some u)"
proof -
  let ?us = "filter (\<lambda>u. usrname u \<noteq> '''') (reg_recs (objs s) (listHead s))"
  have "distinct (map usrname ?us)"
    by (rule distinct_map_filter) (use assms in \<open>simp add: um_inv_def reg_inv_def\<close>)
  moreover have "GetUsrInfoList s = Inr (?us, KEY_TRUE)"
    using usr_list_loop_recs [OF um_inv_ok [OF assms]] by (simp add: GetUsrInfoList_def)
  moreover have "GetUsrInfoListNum s = Inr (int (length ?us), KEY_TRUE)"
    using usr_num_loop_recs [OF um_inv_ok [OF assms], of 0] by (simp add: GetUsrInfoListNum_def)
  moreover have "u \<in> set ?us \<longleftrightarrow> usrname u \<noteq> '''' \<and> um_get s (usrname u) = Some u" for u
    using reg_recs_get [of usrname "objs s" "listHead s" u] assms by (auto simp: um_get_def um_inv_def)
  ultimately show ?thesis by blast
qed

theorem list_matches_num_witness:
  "\<exists>us. GetUsrInfoList demo_users = Inr (us, KEY_TRUE) \<and>
        GetUsrInfoListNum demo_users = Inr (int (length us), KEY_TRUE) \<and> demo_guest \<in> set us"
  using list_matches_num [OF demo_users_inv] by (auto simp: demo_guest_def)

text \<open>
  Adding an account and deleting it again restores the table of accounts, and no
  second account can be added under the name while the first exists.
\<close>

theorem add_del_user:
  assumes "um_inv s" "usr_added s info s1"
  shows "(usr_deleted s1 (usrname info) s2 \<longrightarrow> um_get s2 = um_get s \<and> um_inv s2) \<and>
         (usrname info' = usrname info \<longrightarrow> \<not> usr_added s1 info' s3)"
  using usr.add_del_restores [OF assms] usr.no_second_add [OF assms] by blast

theorem add_del_user_witness:
  "\<exists>s1. usr_added demo_users (demo_guest\<lparr>usrname := ''new''\<rparr>) s1 \<and>
        (\<forall>s3. \<not> usr_added s1 (demo_admin\<lparr>usrname := ''new''\<rparr>) s3)"
proof -
  have m: "may_add demo_users demo_admin (demo_guest\<lparr>usrname := ''new''\<rparr>)"
    by (simp add: may_add_def demo_admin_def demo_guest_def)
  from AddUsr_done [OF um_inv_ok [OF demo_users_inv] m, of 30] obtain s1 r where
      "AddUsr demo_users demo_admin (demo_guest\<lparr>usrname := ''new''\<rparr>) 30 = Some (Inr (s1, r))"
      "listHead s1 = listHead demo_users @ [30]" by auto
  then have a: "usr_added demo_users (demo_guest\<lparr>usrname := ''new''\<rparr>) s1"
    unfolding usr_added_def using demo_users_fresh
    by (intro exI [of _ demo_admin] exI [of _ 30] exI [of _ r]) simp
  have "\<not> usr_added s1 (demo_admin\<lparr>usrname := ''new''\<rparr>) s3" for s3
    using add_del_user [OF demo_users_inv a, of s3 "demo_admin\<lparr>usrname := ''new''\<rparr>" s3] by simp
  with a show ?thesis by blast
qed

text \<open>
  A defect: \<open>ModifyUsrBindInfo\<close> renames an account without checking that the new name is
  free. If another account has it, the call still goes through and leaves two accounts with one
  name, of which every later lookup sees only the first.
\<close>

theorem rename_steals_name:
  assumes "um_inv s" "um_get s old = Some u" "um_get s (usrname info) = Some v"
    "usrname info \<noteq> old" "length (usrname info) \<le> 128"
  shows "\<exists>s' i r p q. ModifyUsrBindInfo s (Some info) (Some old) = Inr (s', i, r) \<and>
           p \<noteq> q \<and> {p, q} \<subseteq> set (listHead s') \<and>
           usrname (the (objs s' p)) = usrname info \<and> usrname (the (objs s' q)) = usrname info \<and>
           \<not> um_inv s'"
proof -
  note ok = um_inv_ok [OF assms(1)]
  from um_find_some [OF ok assms(2)] obtain p where p: "um_find s old = Inr p" "p \<in> set (listHead s)" "p \<noteq> 0"
    "objs s p = Some u" "usrname u = old" .
  from um_find_some [OF ok assms(3)] obtain q where q: "um_find s (usrname info) = Inr q"
    "q \<in> set (listHead s)" "q \<noteq> 0" "objs s q = Some v" "usrname v = usrname info" .
  have pq: "p \<noteq> q" using p q assms(4) by auto
  let ?u = "u\<lparr>usrname := usrname info, countrycode := take 128 (countrycode info)\<rparr>"
  let ?x = "um_store (map_option (\<lambda>f u. f u old) (modifyUsrBindInfocb (cbs s))) ?u (um_put s p ?u) (- 1)"
  have "ModifyUsrBindInfo s (Some info) (Some old) = Inr (fst ?x, Some ?u, snd ?x)"
    using p assms(5) by (simp add: ModifyUsrBindInfo_def Let_def case_prod_beta)
  moreover have "\<not> um_inv (fst ?x)"
  proof
    assume "um_inv (fst ?x)"
    then have "inj_on (\<lambda>v. usrname (the (((objs s)(p \<mapsto> ?u)) v))) (set (listHead s))"
      by (simp add: um_inv_def reg_inv_def reg_recs_def distinct_map o_def)
    from inj_onD [OF this _ p(2) q(2)] pq q(4,5) show False by simp
  qed
  ultimately show ?thesis using pq p(2) q(2,4,5)
    by (intro exI [of _ "fst ?x"] exI [of _ "Some ?u"] exI [of _ "snd ?x"] exI [of _ p] exI [of _ q]) simp
qed

theorem rename_steals_name_witness:
  "\<exists>s' i r. ModifyUsrBindInfo demo_users (Some demo_admin) (Some ''guest'') = Inr (s', i, r) \<and> \<not> um_inv s'"
  using rename_steals_name [OF demo_users_inv, of "''guest''" demo_guest demo_admin demo_admin]
  by (auto simp: demo_admin_def)

end
