(* ===== verification/AdpApi.thy ===== *)
theory AdpApi
  imports UsrManage "HOL-Library.Word"
begin

text \<open>
  \<^verbatim>\<open>src/Adp/adpapi.c\<close> and \<^verbatim>\<open>src/Adp/adphandleinit.c\<close>: the sessions through which the protocol front ends
  (JSON over HTTP and WebSocket, MQTT, RTMP) use the other modules. A front end logs in with
  \<open>AdpRegistHandle\<close> and gets its table \<^verbatim>\<open>AdpAPIHandle_T\<close> of operations filled according to the level
  of the account; calls that need an identity find the session by the table's \<^verbatim>\<open>usrID\<close>.

  \<open>granted\<close> is the list of names of the table's entries that point to working functions; the others
  point to the stubs of \<^verbatim>\<open>adphandleinit.c\<close>, which return KEY_FALSE. Sessions and tables live in
  stores. The calls into \<open>UsrManage\<close> are those of its theory; the entries that belong to modules
  without a theory are only recorded as granted.

  The lemmas show what a login grants and that it needs the password, and three gaps: the
  session identifiers are not unique, an entry that resets any password is open to operators, and
  logging out does not take all entries back.
\<close>

section \<open>State\<close>

record AdpAPIHandle_T =
  granted :: "string list"
  api_usrID :: int
  api_usrName :: string
  sessionid :: int
  highTempFun :: bool

record AdpUsrRegistInfo_T =
  apiHandle :: nat
  reg_usrInfo :: UsrInfo_T

record 'd AdpHandle_T =
  users :: "'d UsrManageInner_T"
  listUsrRegistHead :: "nat list"
  sessions :: "nat \<rightharpoonup> AdpUsrRegistInfo_T"
  apis :: "nat \<rightharpoonup> AdpAPIHandle_T"
  id_counter :: int
  highTempList :: "nat list"

section \<open>Finding a session\<close>

text \<open>\<^verbatim>\<open>HandleManageGetHandleByInt(..., apiHandle->usrID, usrID, ...)\<close>: both pointers on the way are followed.\<close>

fun sess_lookup ::
    "(nat \<rightharpoonup> AdpUsrRegistInfo_T) \<Rightarrow> (nat \<rightharpoonup> AdpAPIHandle_T) \<Rightarrow> int \<Rightarrow> nat list \<Rightarrow> fault + nat" where
  "sess_lookup m a i [] = Inr 0"
| "sess_lookup m a i (v # vs) =
     rbind (obj_load m v) (\<lambda>x. rbind (obj_load a (apiHandle x)) (\<lambda>h.
       if api_usrID h = i then Inr v else sess_lookup m a i vs))"

definition GetUsrRegistInfo :: "'d AdpHandle_T \<Rightarrow> int \<Rightarrow> fault + nat" where
  "GetUsrRegistInfo s uid = sess_lookup (sessions s) (apis s) uid (listUsrRegistHead s)"

partial_function (option) make_id_loop :: "'d AdpHandle_T \<Rightarrow> int \<Rightarrow> int run" where
  "make_id_loop s uid =
     (let uid = (uid + 1) mod 10000 in
      case GetUsrRegistInfo s uid of
        Inl e \<Rightarrow> Some (Inl e)
      | Inr p \<Rightarrow> if p \<noteq> 0 then make_id_loop s uid else Some (Inr uid))"

definition MakeUsrID :: "'d AdpHandle_T \<Rightarrow> ('d AdpHandle_T \<times> int) run" where
  "MakeUsrID s = run_bind (make_id_loop s (id_counter s)) (\<lambda>i. Some (Inr (s\<lparr>id_counter := i\<rparr>, i)))"

section \<open>Calls on behalf of a session\<close>

definition sess_user :: "'d AdpHandle_T \<Rightarrow> int \<Rightarrow> fault + UsrInfo_T" where
  "sess_user s uid = rbind (GetUsrRegistInfo s uid) (\<lambda>p.
     rbind (obj_load (sessions s) p) (\<lambda>x. Inr (reg_usrInfo x)))"

definition with_users ::
    "'d AdpHandle_T \<Rightarrow> fault + ('d UsrManageInner_T \<times> int) \<Rightarrow> fault + ('d AdpHandle_T \<times> int)" where
  "with_users s m = rbind m (\<lambda>(u, r). Inr (s\<lparr>users := u\<rparr>, r))"

definition AdpModifyUsrInfo :: "'d AdpHandle_T \<Rightarrow> int \<Rightarrow> UsrInfo_T \<Rightarrow> fault + ('d AdpHandle_T \<times> int)" where
  "AdpModifyUsrInfo s uid info =
     rbind (sess_user s uid) (\<lambda>cur. with_users s (ModifyUsrInfo (users s) cur info))"

definition AdpAddUsr :: "'d AdpHandle_T \<Rightarrow> int \<Rightarrow> UsrInfo_T \<Rightarrow> nat \<Rightarrow> ('d AdpHandle_T \<times> int) run" where
  "AdpAddUsr s uid info newObj =
     run_bind (Some (sess_user s uid)) (\<lambda>cur.
     run_bind (AddUsr (users s) cur info newObj) (\<lambda>(u, r). Some (Inr (s\<lparr>users := u\<rparr>, r))))"

definition AdpCheckUsr :: "'d AdpHandle_T \<Rightarrow> int \<Rightarrow> UsrInfo_T \<Rightarrow> fault + int" where
  "AdpCheckUsr s uid info = rbind (sess_user s uid) (\<lambda>cur. CheckUser (users s) cur info)"

definition AdpDelUsr :: "'d AdpHandle_T \<Rightarrow> int \<Rightarrow> UsrInfo_T \<Rightarrow> fault + ('d AdpHandle_T \<times> int)" where
  "AdpDelUsr s uid info =
     rbind (sess_user s uid) (\<lambda>cur. with_users s (DelUsr (users s) cur info))"

definition AdpGetUsrInfo :: "'d AdpHandle_T \<Rightarrow> int \<Rightarrow> UsrInfo_T \<Rightarrow> fault + (UsrInfo_T \<times> int)" where
  "AdpGetUsrInfo s uid info = rbind (sess_user s uid) (\<lambda>cur. GetUsrInfo (users s) cur info)"

definition AdpModifyPassword ::
    "'d AdpHandle_T \<Rightarrow> int \<Rightarrow> string \<Rightarrow> string \<Rightarrow> string \<Rightarrow> fault + ('d AdpHandle_T \<times> int)" where
  "AdpModifyPassword s uid username oldPassword newPassword =
     rbind (sess_user s uid) (\<lambda>cur.
       if usrname cur \<noteq> username then Inr (s, KEY_FALSE)
       else with_users s (ModifyPassword (users s) username oldPassword newPassword))"

definition AdpGetUserRegistInfo :: "'d AdpHandle_T \<Rightarrow> int \<Rightarrow> fault + (UsrInfo_T \<times> int)" where
  "AdpGetUserRegistInfo s uid = rbind (sess_user s uid) (\<lambda>cur. Inr (cur, KEY_TRUE))"

section \<open>What a level grants\<close>

definition root_entries :: "string list" where
  "root_entries = [''pGetUsrInfoNum'', ''pGetUsrInfoList'']"

definition admin_entries :: "string list" where
  "admin_entries = [''pAddUsr'', ''pCheckUsr'', ''pDelUsr'', ''pGetUsrInfo'', ''pAddDevice'', ''pDelDevice'',
     ''pGetDeviceInfo'', ''pSetDeviceInfo'', ''pGetDeviceInfoList'', ''pGetDeviceInfoListNum'']"

definition operator_entries :: "string list" where
  "operator_entries = [''pModifyUsrInfo'', ''pModifyPassword'', ''pResetPassword'', ''pModifyUsrBindInfo'',
     ''pFindUsr'', ''pGetUserRegistInfo'', ''pGetBaseInfo'', ''pSetBaseInfo'',
     ''pHksdkDeviceAdd'', ''pHksdkDeviceDel'', ''pHksdkDeviceListGet'', ''pHksdkDeviceListSet'',
     ''pHKsdkDeviceAlarmGet'', ''pHKsdkDeviceAlarmSet'',
     ''pAddVehicleInfo'', ''pGetEntranceVehiclesCurList'', ''pGetFrontageVehiclesSum'',
     ''pGetEntranceVehiclesSum'', ''pGetEntranceVehiclesList'', ''pGetEntranceHistoryList'',
     ''pGetEntrancePlateAnalysis'', ''pGetEntranceServiceAnalysis'', ''pGetEntranceHistoryCount'',
     ''pGetRefuelingTypeAnalysis'', ''pGetOutboundVehiclesAnalysis'', ''pGetResidenceTimeAnalysis'',
     ''pGetAbnormalVehicleList'', ''pGetRefuelingEfficiencyAnalysis'', ''pGetVehicleTrajectoryAnalysis'',
     ''pGetVehicleTrajectoryRoute'',
     ''pAddStuckPipeData'', ''pGetFuelingRangeProportionByDate'', ''pGetFuelQuantityByType'',
     ''pGetOliGunSum'', ''pGetOliGunFrequency'',
     ''pGetProportionOfVehicleBehavior'', ''pGetProportionOfCarWashing'',
     ''pGetAttendanceHistoryList'', ''pGetAttendanceHistorySum'', ''pGetAttendanceRecord'',
     ''pGetAttendanceRecordSum'', ''pGetVisitorsInfo'', ''pGetVolumeOfCommutersNum'',
     ''pGetVolumeOfCommutersOfLine'', ''pGetVolumeOfCommutersOfSex'', ''pGetVolumeOfCommutersOfAge'',
     ''pGetIntelligentAlarm'', ''pGetAlarmProportionAnalysis'', ''pGetAlarmPeriodAnalysis'',
     ''pPushAlarmInfo'']"

definition level_entries :: "nat \<Rightarrow> string list" where
  "level_entries l =
     (if l = 4 then root_entries @ admin_entries @ operator_entries
      else if l = 3 then admin_entries @ operator_entries
      else if l = 2 then operator_entries else [])"

text \<open>The entries that \<open>InitAdpAPIRegistHandleNoAuthor\<close> points back to its stubs.\<close>

definition noauthor_entries :: "string list" where
  "noauthor_entries = [''pGetBaseInfo'', ''pSetBaseInfo'', ''pGetUsrInfoNum'', ''pGetUsrInfoList'',
     ''pModifyUsrInfo'', ''pAddUsr'', ''pCheckUsr'', ''pDelUsr'', ''pGetPublicKey'', ''pSetPublicKey'',
     ''pGetUserRegistInfo'', ''pModifyPassword'', ''pResetPassword'', ''pModifyUsrBindInfo'', ''pAddDevice'',
     ''pDelDevice'', ''pFindUsr'', ''pGetDeviceInfo'', ''pSetDeviceInfo'', ''pGetDeviceInfoListNum'',
     ''pGetDeviceInfoList'', ''pAddVehicleInfo'', ''pAddStuckPipeData'', ''pGetFuelingRangeProportionByDate'',
     ''pGetFuelQuantityByType'', ''pGetOliGunSum'', ''pGetOliGunFrequency'']"

definition InitAdpAPIRegistHandleNoAuthor :: "AdpAPIHandle_T \<Rightarrow> AdpAPIHandle_T" where
  "InitAdpAPIRegistHandleNoAuthor h =
     h\<lparr>granted := filter (\<lambda>e. e \<notin> set noauthor_entries) (granted h), api_usrID := 0, sessionid := 0\<rparr>"

text \<open>The registration with the temperature detection adds the session to its list of receivers.\<close>

definition AdpRegisterhighTempHandle :: "'d AdpHandle_T \<Rightarrow> AdpAPIHandle_T \<Rightarrow> nat \<Rightarrow> 'd AdpHandle_T" where
  "AdpRegisterhighTempHandle s h p =
     (if highTempFun h then s\<lparr>highTempList := fst (hl_step (highTempList s) (AddHandle p))\<rparr> else s)"

definition AdpRegistManage :: "'d AdpHandle_T \<Rightarrow> AdpAPIHandle_T \<Rightarrow> nat \<Rightarrow> nat \<Rightarrow> 'd AdpHandle_T \<times> AdpAPIHandle_T" where
  "AdpRegistManage s h p level =
     (if level \<in> {2, 3, 4} then AdpRegisterhighTempHandle s h p else s,
      h\<lparr>granted := granted h @ level_entries level\<rparr>)"

section \<open>Login and logout\<close>

text \<open>
  \<open>hp\<close> is the address of the caller's table (0 for NULL), \<open>newObj\<close> the address \<^verbatim>\<open>malloc\<close> returned for the
  session. The user identifier is \<^verbatim>\<open>(userLevel << 16) | MakeUsrID()\<close>. The session's record has room for a name of
  128 characters and its NUL; the table's \<^verbatim>\<open>usrName[128]\<close> has not, and \<^verbatim>\<open>snprintf\<close> is given 129 bytes for it as well.
\<close>

definition AdpRegistHandle ::
    "'d AdpHandle_T \<Rightarrow> nat \<Rightarrow> string \<Rightarrow> string \<Rightarrow> nat \<Rightarrow> ('d AdpHandle_T \<times> int) run" where
  "AdpRegistHandle s hp usrName passwd newObj =
     (if hp = 0 then Some (Inr (s, KEY_FALSE))
      else run_bind (Some (obj_load (apis s) hp)) (\<lambda>h0.
        let h1 = InitAdpAPIRegistHandleNoAuthor h0; s1 = s\<lparr>apis := (apis s)(hp \<mapsto> h1)\<rparr> in
        run_bind (Some (Authentication (users s1) usrName passwd)) (\<lambda>level.
          if level = ENUM_USRLEVEL_Invalid then Some (Inr (s1, KEY_UNAUTHORIZED))
          else if newObj = 0 then Some (Inl NullDeref)
          else
            let info = \<lparr>userLevel = level, usrname = take DF_MAXLEN usrName, passWord = take DF_MAXLEN passwd,
                        countrycode = '''', customname = '''', usrID = 0\<rparr>;
                (s2, h2) = AdpRegistManage s1 h1 newObj level in
            run_bind (Some (GetUserRegistInfo (users s2) info)) (\<lambda>(info, _).
            if length usrName \<ge> DF_MAXLEN then Some (Inl OutOfBounds)
            else run_bind (MakeUsrID (s2\<lparr>apis := (apis s2)(hp \<mapsto> h2)\<rparr>)) (\<lambda>(s3, i).
              let h3 = h2\<lparr>api_usrName := usrName,
                          api_usrID := or (push_bit 16 (int (userLevel info))) i\<rparr> in
              Some (Inr (s3\<lparr>apis := (apis s3)(hp \<mapsto> h3),
                           sessions := (sessions s3)(newObj \<mapsto> \<lparr>apiHandle = hp, reg_usrInfo = info\<rparr>),
                           listUsrRegistHead := fst (hl_step (listUsrRegistHead s3) (AddHandle newObj))\<rparr>,
                         KEY_TRUE)))))))"

definition AdpUnRegistHandle :: "'d AdpHandle_T \<Rightarrow> nat \<Rightarrow> fault + ('d AdpHandle_T \<times> int)" where
  "AdpUnRegistHandle s hp =
     (if hp = 0 then Inr (s, KEY_FALSE)
      else rbind (obj_load (apis s) hp) (\<lambda>h.
        rbind (GetUsrRegistInfo s (api_usrID h)) (\<lambda>p.
          if p = 0 then Inr (s, KEY_FALSE)
          else Inr (s\<lparr>highTempList := fst (hl_step (highTempList s) (DelHandle p)),
                      listUsrRegistHead := fst (hl_step (listUsrRegistHead s) (DelHandle p)),
                      sessions := (sessions s)(p := None),
                      apis := (apis s)(hp \<mapsto> InitAdpAPIRegistHandleNoAuthor h)\<rparr>, KEY_TRUE))))"

section \<open>Well-formed sessions\<close>

definition api_of :: "'d AdpHandle_T \<Rightarrow> nat \<Rightarrow> AdpAPIHandle_T" where
  "api_of s v = the (apis s (apiHandle (the (sessions s v))))"

definition sess_ok :: "'d AdpHandle_T \<Rightarrow> bool" where
  "sess_ok s \<longleftrightarrow> reg_ok (sessions s) (listUsrRegistHead s) \<and> 0 \<le> id_counter s \<and>
     (\<forall>v \<in> set (listUsrRegistHead s). apiHandle (the (sessions s v)) \<noteq> 0 \<and>
        apis s (apiHandle (the (sessions s v))) \<noteq> None \<and>
        (api_usrID (api_of s v) = 0 \<or> 65536 \<le> api_usrID (api_of s v)))"

lemma sess_lookup_find:
  assumes "reg_ok m vs" "\<forall>v \<in> set vs. apiHandle (the (m v)) \<noteq> 0 \<and> a (apiHandle (the (m v))) \<noteq> None"
  shows "sess_lookup m a i vs =
    Inr (case find (\<lambda>v. api_usrID (the (a (apiHandle (the (m v))))) = i) vs of None \<Rightarrow> 0 | Some v \<Rightarrow> v)"
  using assms by (induction vs) (auto simp: reg_ok_Cons)

lemma GetUsrRegistInfo_find:
  assumes "sess_ok s"
  shows "GetUsrRegistInfo s i =
    Inr (case find (\<lambda>v. api_usrID (api_of s v) = i) (listUsrRegistHead s) of None \<Rightarrow> 0 | Some v \<Rightarrow> v)"
  using sess_lookup_find [of "sessions s" "listUsrRegistHead s" "apis s" i] assms
  by (simp add: GetUsrRegistInfo_def sess_ok_def api_of_def)

text \<open>The identifiers in use are 0 or at least 65536, so a candidate below 10000 other than 0 is never refused.\<close>

lemma make_id_fresh:
  assumes "sess_ok s" "0 < i" "i < 10000"
  shows "GetUsrRegistInfo s i = Inr 0"
proof -
  have "find (\<lambda>v. api_usrID (api_of s v) = i) (listUsrRegistHead s) = None"
    using assms by (auto simp: find_None_iff sess_ok_def)
  then show ?thesis using GetUsrRegistInfo_find [OF assms(1), of i] by simp
qed

lemma MakeUsrID_spec:
  assumes "sess_ok s"
  shows "\<exists>i. MakeUsrID s = Some (Inr (s\<lparr>id_counter := i\<rparr>, i)) \<and> 0 \<le> i \<and> i < 10000 \<and>
             (i = (id_counter s + 1) mod 10000 \<or> (id_counter s + 1) mod 10000 = 0 \<and> i = 1)"
proof -
  let ?i = "(id_counter s + 1) mod 10000"
  have b: "0 \<le> ?i" "?i < 10000" by simp_all
  obtain p where p: "GetUsrRegistInfo s ?i = Inr p" "?i \<noteq> 0 \<Longrightarrow> p = 0"
    using GetUsrRegistInfo_find [OF assms, of ?i] make_id_fresh [OF assms, of ?i] b by (cases "?i = 0") auto
  show ?thesis
  proof (cases "p = 0")
    case True
    then have "make_id_loop s (id_counter s) = Some (Inr ?i)"
      using p by (subst make_id_loop.simps) (simp add: Let_def)
    then show ?thesis using b by (auto simp: MakeUsrID_def)
  next
    case False
    then have z: "?i = 0" using p(2) by auto
    have "make_id_loop s 0 = Some (Inr 1)"
      using make_id_fresh [OF assms, of 1] by (subst make_id_loop.simps) simp
    then have "make_id_loop s (id_counter s) = Some (Inr 1)"
      using p False z by (subst make_id_loop.simps) (simp add: Let_def)
    then show ?thesis using z by (auto simp: MakeUsrID_def)
  qed
qed

lemma id_bits:
  assumes "0 \<le> i" "i < 10000"
  shows "or (push_bit 16 (int l)) i = 65536 * int l + i"
proof -
  have t: "take_bit 16 i = i" using assms by (simp add: take_bit_eq_mod)
  have "and (push_bit 16 (int l)) (take_bit 16 i) = 0"
    by (rule bit_eqI) (auto simp: bit_simps)
  then have "or (push_bit 16 (int l)) i = push_bit 16 (int l) + i"
    using disjunctive_add_eq_or [of "push_bit 16 (int l)" i] by (simp add: t)
  then show ?thesis by (simp add: push_bit_eq_mult)
qed

section \<open>Login\<close>

lemma sess_ok_upd:
  assumes "sess_ok s" "hp \<noteq> 0" "api_usrID h = 0 \<or> 65536 \<le> api_usrID h"
  shows "sess_ok (s\<lparr>apis := (apis s)(hp \<mapsto> h)\<rparr>)" "sess_ok (s\<lparr>highTempList := l\<rparr>)"
  using assms by (auto simp: sess_ok_def api_of_def)

lemma GetUserRegistInfo_some:
  assumes "um_inv s" "um_get s (usrname info) = Some u"
  shows "GetUserRegistInfo s info = Inr (u, KEY_FALSE)"
proof -
  from um_find_some [OF um_inv_ok [OF assms(1)] assms(2)] obtain p where
    "um_find s (usrname info) = Inr p" "p \<noteq> 0" "objs s p = Some u" .
  then show ?thesis by (simp add: GetUserRegistInfo_def)
qed

lemma AdpRegistManage_sel [simp]:
  "users (fst (AdpRegistManage s h p l)) = users s"
  "apis (fst (AdpRegistManage s h p l)) = apis s"
  "sessions (fst (AdpRegistManage s h p l)) = sessions s"
  "listUsrRegistHead (fst (AdpRegistManage s h p l)) = listUsrRegistHead s"
  "id_counter (fst (AdpRegistManage s h p l)) = id_counter s"
  "snd (AdpRegistManage s h p l) = h\<lparr>granted := granted h @ level_entries l\<rparr>"
  by (auto simp: AdpRegistManage_def AdpRegisterhighTempHandle_def)

definition login_table :: "AdpAPIHandle_T \<Rightarrow> UsrInfo_T \<Rightarrow> int \<Rightarrow> AdpAPIHandle_T" where
  "login_table h u i = h\<lparr>sessionid := 0,
     granted := filter (\<lambda>e. e \<notin> set noauthor_entries) (granted h) @ level_entries (userLevel u),
     api_usrName := usrname u, api_usrID := 65536 * int (userLevel u) + i\<rparr>"

lemma login_ok:
  assumes "sess_ok s" "um_inv (users s)" "hp \<noteq> 0" "apis s hp = Some h" "p \<noteq> 0"
    and "um_get (users s) n = Some u" "length n < 128" "userLevel u > 0"
  shows "\<exists>s' i. AdpRegistHandle s hp n (passWord u) p = Some (Inr (s', KEY_TRUE)) \<and>
           0 \<le> i \<and> i < 10000 \<and> (i = (id_counter s + 1) mod 10000 \<or> (id_counter s + 1) mod 10000 = 0 \<and> i = 1) \<and>
           users s' = users s \<and> apis s' = (apis s)(hp \<mapsto> login_table h u i) \<and>
           sessions s' = (sessions s)(p \<mapsto> \<lparr>apiHandle = hp, reg_usrInfo = u\<rparr>) \<and>
           listUsrRegistHead s' = listUsrRegistHead s @ [p] \<and> id_counter s' = i"
proof -
  let ?h1 = "InitAdpAPIRegistHandleNoAuthor h"
  let ?s1 = "s\<lparr>apis := (apis s)(hp \<mapsto> ?h1)\<rparr>"
  let ?s2 = "fst (AdpRegistManage ?s1 ?h1 p (userLevel u))" and ?h2 = "snd (AdpRegistManage ?s1 ?h1 p (userLevel u))"
  let ?s2' = "?s2\<lparr>apis := (apis ?s2)(hp \<mapsto> ?h2)\<rparr>"
  have un: "usrname u = n" using um_find_some [OF um_inv_ok [OF assms(2)] assms(6)] .
  have a: "Authentication (users s) n (passWord u) = Inr (userLevel u)"
    using Authentication_spec [OF assms(2)] assms(6) by simp
  have "sess_ok ?s2'"
    using assms(1,3) by (auto simp: sess_ok_def api_of_def InitAdpAPIRegistHandleNoAuthor_def)
  from MakeUsrID_spec [OF this] obtain i where i: "MakeUsrID ?s2' = Some (Inr (?s2'\<lparr>id_counter := i\<rparr>, i))"
    "0 \<le> i" "i < 10000" "i = (id_counter s + 1) mod 10000 \<or> (id_counter s + 1) mod 10000 = 0 \<and> i = 1" by auto
  have g: "GetUserRegistInfo (users s) \<lparr>userLevel = userLevel u, usrname = take 128 n,
      passWord = take 128 (passWord u), countrycode = '''', customname = '''', usrID = 0\<rparr> = Inr (u, KEY_FALSE)"
    using assms(2,6,7) by (intro GetUserRegistInfo_some) simp_all
  let ?h3 = "?h2\<lparr>api_usrName := n, api_usrID := or (push_bit 16 (int (userLevel u))) i\<rparr>"
  let ?s3 = "?s2'\<lparr>id_counter := i\<rparr>"
  let ?s' = "?s3\<lparr>apis := (apis ?s3)(hp \<mapsto> ?h3),
      sessions := (sessions ?s3)(p \<mapsto> \<lparr>apiHandle = hp, reg_usrInfo = u\<rparr>),
      listUsrRegistHead := fst (hl_step (listUsrRegistHead ?s3) (AddHandle p))\<rparr>"
  have "AdpRegistHandle s hp n (passWord u) p = Some (Inr (?s', KEY_TRUE))"
    unfolding AdpRegistHandle_def Let_def case_prod_beta
    using assms(3-5,7,8) a i(1) g by simp
  moreover have "?h3 = login_table h u i"
    using un assms(7) by (simp add: login_table_def InitAdpAPIRegistHandleNoAuthor_def id_bits [OF i(2,3)])
  moreover have "users ?s' = users s" "sessions ?s' = (sessions s)(p \<mapsto> \<lparr>apiHandle = hp, reg_usrInfo = u\<rparr>)"
    "listUsrRegistHead ?s' = listUsrRegistHead s @ [p]" "id_counter ?s' = i" "apis ?s' = (apis s)(hp \<mapsto> ?h3)"
    using assms(5) by simp_all
  ultimately show ?thesis using i(2-4) by metis
qed

text \<open>A name of 128 characters overruns the table by its NUL, after the session has been entered with the modules.\<close>

lemma login_overruns:
  assumes "um_inv (users s)" "hp \<noteq> 0" "apis s hp = Some h" "p \<noteq> 0"
    and "um_get (users s) n = Some u" "length n = 128" "userLevel u > 0"
  shows "AdpRegistHandle s hp n (passWord u) p = Some (Inl OutOfBounds)"
proof -
  have a: "Authentication (users s) n (passWord u) = Inr (userLevel u)"
    using Authentication_spec [OF assms(1)] assms(5) by simp
  have "GetUserRegistInfo (users s) \<lparr>userLevel = userLevel u, usrname = take 128 n,
      passWord = take 128 (passWord u), countrycode = '''', customname = '''', usrID = 0\<rparr> = Inr (u, KEY_FALSE)"
    using assms(1,5,6) by (intro GetUserRegistInfo_some) simp_all
  then show ?thesis unfolding AdpRegistHandle_def Let_def case_prod_beta using assms(2-4,6,7) a by simp
qed

lemma login_refused:
  assumes "um_inv (users s)" "hp \<noteq> 0" "apis s hp = Some h"
    and "case um_get (users s) n of None \<Rightarrow> True | Some u \<Rightarrow> passWord u \<noteq> pw \<or> userLevel u = 0"
  shows "AdpRegistHandle s hp n pw p =
    Some (Inr (s\<lparr>apis := (apis s)(hp \<mapsto> InitAdpAPIRegistHandleNoAuthor h)\<rparr>, KEY_UNAUTHORIZED))"
  using Authentication_spec [OF assms(1), of n pw] assms(2-4)
  by (auto simp: AdpRegistHandle_def Let_def split: option.splits)

section \<open>Properties\<close>

definition demo_root :: UsrInfo_T where
  "demo_root = demo_admin\<lparr>userLevel := 4, usrname := ''root''\<rparr>"

definition demo_operator :: UsrInfo_T where
  "demo_operator = demo_guest\<lparr>userLevel := 2, usrname := ''op''\<rparr>"

definition demo_table :: AdpAPIHandle_T where
  "demo_table = \<lparr>granted = [], api_usrID = 0, api_usrName = '''', sessionid = 0, highTempFun = False\<rparr>"

definition demo_adp :: "unit AdpHandle_T" where
  "demo_adp = \<lparr>users = demo_users\<lparr>objs := [10 \<mapsto> demo_root, 20 \<mapsto> demo_operator]\<rparr>, listUsrRegistHead = [],
     sessions = Map.empty, apis = [100 \<mapsto> demo_table, 200 \<mapsto> demo_table], id_counter = 0, highTempList = []\<rparr>"

lemma demo_adp_ok: "sess_ok demo_adp" "um_inv (users demo_adp)" "apis demo_adp 100 = Some demo_table"
    "apis demo_adp 200 = Some demo_table"
  by (simp_all add: sess_ok_def demo_adp_def um_inv_def reg_inv_def reg_ok_def demo_users_def demo_root_def
      demo_operator_def demo_admin_def demo_guest_def)

lemma demo_adp_list: "listUsrRegistHead demo_adp = []"
  by (simp add: demo_adp_def)

lemma demo_adp_get [simp]: "um_get (users demo_adp) n =
    (if n = ''root'' then Some demo_root else if n = ''op'' then Some demo_operator else None)"
  by (auto simp: um_get_def demo_adp_def demo_users_def demo_root_def demo_operator_def demo_admin_def
      demo_guest_def)

text \<open>
  C11. Login: with the password of an existing account of a valid level, whose name is shorter than 128 characters, \<open>AdpRegistHandle\<close>
  returns KEY_TRUE (its search for an identifier ends), opens a session that carries exactly that account's record, and grants
  exactly the entries of the account's level besides those it never takes back; the identifier is the level in the
  upper and a number below 10000 in the lower sixteen bits. For a name of 128 characters, which accounts may have, it writes past
  the end of the table instead. With any other credentials it returns KEY_UNAUTHORIZED, opens no session and grants nothing new.
\<close>

theorem login:
  assumes "sess_ok s" "um_inv (users s)" "hp \<noteq> 0" "apis s hp = Some h" "p \<noteq> 0" "length n \<le> 128"
  shows "case um_get (users s) n of
      Some u \<Rightarrow>
        if passWord u = pw \<and> userLevel u > 0 then
          if length n = 128 then AdpRegistHandle s hp n pw p = Some (Inl OutOfBounds)
          else \<exists>s' i. AdpRegistHandle s hp n pw p = Some (Inr (s', KEY_TRUE)) \<and> 0 \<le> i \<and> i < 10000 \<and>
            users s' = users s \<and> apis s' = (apis s)(hp \<mapsto> login_table h u i) \<and>
            sessions s' = (sessions s)(p \<mapsto> \<lparr>apiHandle = hp, reg_usrInfo = u\<rparr>) \<and>
            listUsrRegistHead s' = listUsrRegistHead s @ [p]
        else AdpRegistHandle s hp n pw p =
          Some (Inr (s\<lparr>apis := (apis s)(hp \<mapsto> InitAdpAPIRegistHandleNoAuthor h)\<rparr>, KEY_UNAUTHORIZED))
    | None \<Rightarrow> AdpRegistHandle s hp n pw p =
          Some (Inr (s\<lparr>apis := (apis s)(hp \<mapsto> InitAdpAPIRegistHandleNoAuthor h)\<rparr>, KEY_UNAUTHORIZED))"
proof (cases "um_get (users s) n")
  case None
  then show ?thesis using login_refused [OF assms(2-4), where n = n and pw = pw and p = p] by simp
next
  case (Some u)
  show ?thesis
  proof (cases "passWord u = pw \<and> userLevel u > 0")
    case True
    have long: "AdpRegistHandle s hp n pw p = Some (Inl OutOfBounds)" if "length n = 128"
      using login_overruns [OF assms(2-5) Some that] True by auto
    have "\<exists>s' i. AdpRegistHandle s hp n pw p = Some (Inr (s', KEY_TRUE)) \<and> 0 \<le> i \<and> i < 10000 \<and>
            users s' = users s \<and> apis s' = (apis s)(hp \<mapsto> login_table h u i) \<and>
            sessions s' = (sessions s)(p \<mapsto> \<lparr>apiHandle = hp, reg_usrInfo = u\<rparr>) \<and>
            listUsrRegistHead s' = listUsrRegistHead s @ [p]" if "length n \<noteq> 128"
      using login_ok [OF assms(1-5) Some] assms(6) that True by auto
    then show ?thesis using True Some long by simp
  next
    case False
    then show ?thesis using login_refused [OF assms(2-4), where n = n and pw = pw and p = p] Some by auto
  qed
qed

theorem login_witness:
  "\<exists>s'. AdpRegistHandle demo_adp 100 ''op'' ''pw'' 7 = Some (Inr (s', KEY_TRUE)) \<and>
        listUsrRegistHead s' = [7]"
  using login [OF demo_adp_ok(1,2) _ demo_adp_ok(3), of 7 "''op''" "''pw''"]
  by (auto simp: demo_operator_def demo_guest_def demo_adp_list)

text \<open>
  A defect: the entry \<^verbatim>\<open>pResetPassword\<close>, which every operator's table has, checks neither the
  caller nor the old password. A session of level 2 can set the password of any account, in
  particular of one of level 4, and then log in as that account.
\<close>

theorem operator_takes_over:
  assumes "sess_ok s" "um_inv (users s)" "hp \<noteq> 0" "apis s hp = Some h" "p \<noteq> 0"
    and "um_get (users s) n = Some u" "userLevel u > 0" "length n < 128" "length pw \<le> 128"
  shows "''pResetPassword'' \<in> set (level_entries 2) \<and>
         (\<exists>us r s' i. ResetPassword (users s) (Some n) (Some c) (Some pw) = Inr (us, r) \<and>
            AdpRegistHandle (s\<lparr>users := us\<rparr>) hp n pw p = Some (Inr (s', KEY_TRUE)) \<and>
            apis s' hp = Some (login_table h (u\<lparr>passWord := pw\<rparr>) i) \<and>
            set (level_entries (userLevel u)) \<subseteq> set (granted (login_table h (u\<lparr>passWord := pw\<rparr>) i)))"
proof -
  from um_find_some [OF um_inv_ok [OF assms(2)] assms(6)] obtain q where q: "um_find (users s) n = Inr q"
    "q \<in> set (listHead (users s))" "q \<noteq> 0" "objs (users s) q = Some u" "usrname u = n" .
  let ?u = "u\<lparr>passWord := pw\<rparr>"
  let ?x = "um_store (setUsrInfocb (cbs (users s))) ?u (um_put (users s) q ?u) (- 1)"
  have r: "ResetPassword (users s) (Some n) (Some c) (Some pw) = Inr (fst ?x, snd ?x)"
    using q assms(9) by (simp add: ResetPassword_def Let_def)
  have "um_inv (fst ?x)" "um_get (fst ?x) n = Some ?u"
    using um_put_same_name [OF assms(2) q(2,4), of ?u] q(5) by simp_all
  moreover have "sess_ok (s\<lparr>users := fst ?x\<rparr>)" using assms(1) by (simp add: sess_ok_def api_of_def)
  ultimately obtain s' i where "AdpRegistHandle (s\<lparr>users := fst ?x\<rparr>) hp n (passWord ?u) p = Some (Inr (s', KEY_TRUE))"
      "apis s' = (apis s)(hp \<mapsto> login_table h ?u i)"
    using login_ok [of "s\<lparr>users := fst ?x\<rparr>" hp h p n ?u] assms(3-5,7,8) by auto
  with r show ?thesis
    by (intro conjI exI [of _ "fst ?x"] exI [of _ "snd ?x"] exI [of _ s'] exI [of _ i])
      (simp_all add: login_table_def level_entries_def operator_entries_def)
qed

theorem operator_takes_over_witness:
  "\<exists>us r s'. ResetPassword (users demo_adp) (Some ''root'') (Some '''') (Some ''mine'') = Inr (us, r) \<and>
     AdpRegistHandle (demo_adp\<lparr>users := us\<rparr>) 100 ''root'' ''mine'' 7 = Some (Inr (s', KEY_TRUE))"
  using operator_takes_over [OF demo_adp_ok(1,2) _ demo_adp_ok(3), of 7 "''root''" demo_root "''mine''" "''''"]
  by (auto simp: demo_root_def demo_admin_def)

text \<open>
  A defect: \<open>MakeUsrID\<close> looks for a clash of the bare number, while the identifiers it compares with carry
  the level, so it never finds one. If a live session already has the identifier that the
  next login of that level gets, the login gets it too, and calls through the new table are
  made with the rights and the name of the older session's user.
\<close>

theorem session_id_clash:
  assumes "sess_ok s" "um_inv (users s)" "hp \<noteq> 0" "apis s hp = Some h" "p \<noteq> 0" "sessions s p = None"
    and "um_get (users s) n = Some u" "length n < 128" "userLevel u > 0"
    and "(id_counter s + 1) mod 10000 = k" "k \<noteq> 0"
    and "listUsrRegistHead s = v # vs" "sessions s v = Some x" "apiHandle x \<noteq> hp"
    and "api_usrID (api_of s v) = 65536 * int (userLevel u) + k"
  shows "\<exists>s' h'. AdpRegistHandle s hp n (passWord u) p = Some (Inr (s', KEY_TRUE)) \<and> apis s' hp = Some h' \<and>
           api_usrID h' = 65536 * int (userLevel u) + k \<and> sess_user s' (api_usrID h') = Inr (reg_usrInfo x)"
proof -
  obtain s' i where s': "AdpRegistHandle s hp n (passWord u) p = Some (Inr (s', KEY_TRUE))"
      "i = k" "apis s' = (apis s)(hp \<mapsto> login_table h u i)"
      "sessions s' = (sessions s)(p \<mapsto> \<lparr>apiHandle = hp, reg_usrInfo = u\<rparr>)"
      "listUsrRegistHead s' = listUsrRegistHead s @ [p]"
    using login_ok [OF assms(1-5,7-9)] assms(10,11) by auto
  have v: "v \<noteq> 0" "v \<noteq> p" "apiHandle x \<noteq> 0" "apis s (apiHandle x) = Some (api_of s v)"
    using assms(1,6,12,13) by (auto simp: sess_ok_def reg_ok_def api_of_def)
  have "sess_user s' (65536 * int (userLevel u) + k) = Inr (reg_usrInfo x)"
    using v assms(12-15) s'(3-5) by (simp add: sess_user_def GetUsrRegistInfo_def)
  moreover have "api_usrID (login_table h u k) = 65536 * int (userLevel u) + k" by (simp add: login_table_def)
  ultimately show ?thesis using s'(1-3) by auto
qed

definition clash_adp :: "unit AdpHandle_T" where
  "clash_adp = demo_adp\<lparr>listUsrRegistHead := [5], sessions := [5 \<mapsto> \<lparr>apiHandle = 200, reg_usrInfo = demo_root\<rparr>],
     apis := [100 \<mapsto> demo_table, 200 \<mapsto> demo_table\<lparr>api_usrID := 262145\<rparr>]\<rparr>"

theorem session_id_clash_witness:
  "\<exists>s' h'. AdpRegistHandle clash_adp 100 ''root'' ''secret'' 7 = Some (Inr (s', KEY_TRUE)) \<and>
           apis s' 100 = Some h' \<and> sess_user s' (api_usrID h') = Inr demo_root"
proof -
  have "sess_ok clash_adp" "um_inv (users clash_adp)" "um_get (users clash_adp) ''root'' = Some demo_root"
    using demo_adp_ok demo_adp_get [of "''root''"]
    by (auto simp: sess_ok_def reg_ok_def clash_adp_def api_of_def demo_adp_def)
  from session_id_clash [OF this(1,2) _ _ _ _ this(3), of 100 demo_table 7 1 5 "[]"
      "\<lparr>apiHandle = 200, reg_usrInfo = demo_root\<rparr>"] show ?thesis
    by (auto simp: clash_adp_def api_of_def demo_adp_def demo_root_def demo_admin_def demo_table_def)
qed

text \<open>
  A defect: logging out points back only the entries of \<open>noauthor_entries\<close>. After
  \<open>AdpUnRegistHandle\<close> the table of an administrator can still use \<^verbatim>\<open>pGetUsrInfo\<close> and, like every operator's,
  the camera, attendance, vehicle and alarm entries.
\<close>

theorem logout_keeps_entries:
  assumes "sess_ok s" "hp \<noteq> 0" "apis s hp = Some h" "v \<in> set (listUsrRegistHead s)"
    and "api_usrID (api_of s v) = api_usrID h" "set (level_entries 3) \<subseteq> set (granted h)"
  shows "\<exists>s' h'. AdpUnRegistHandle s hp = Inr (s', KEY_TRUE) \<and> apis s' hp = Some h' \<and> api_usrID h' = 0 \<and>
           {''pGetUsrInfo'', ''pHksdkDeviceAdd'', ''pHksdkDeviceDel'', ''pPushAlarmInfo''} \<subseteq> set (granted h')"
proof -
  obtain p where p: "find (\<lambda>v. api_usrID (api_of s v) = api_usrID h) (listUsrRegistHead s) = Some p" "p \<noteq> 0"
    using assms(1,4,5)
    by (cases "find (\<lambda>v. api_usrID (api_of s v) = api_usrID h) (listUsrRegistHead s)")
      (auto simp: find_None_iff sess_ok_def reg_ok_def dest!: find_SomeD)
  have "\<exists>s'. AdpUnRegistHandle s hp = Inr (s', KEY_TRUE) \<and> apis s' hp = Some (InitAdpAPIRegistHandleNoAuthor h)"
    using assms(2,3) p GetUsrRegistInfo_find [OF assms(1), of "api_usrID h"] by (simp add: AdpUnRegistHandle_def)
  moreover have "{''pGetUsrInfo'', ''pHksdkDeviceAdd'', ''pHksdkDeviceDel'', ''pPushAlarmInfo''} \<subseteq>
      set (filter (\<lambda>e. e \<notin> set noauthor_entries) (granted h))"
    using assms(6) by (simp add: level_entries_def admin_entries_def operator_entries_def noauthor_entries_def)
  ultimately show ?thesis by (auto simp: InitAdpAPIRegistHandleNoAuthor_def)
qed

theorem logout_keeps_entries_witness:
  "\<exists>s' h'. AdpUnRegistHandle (clash_adp\<lparr>apis := [200 \<mapsto> demo_table\<lparr>api_usrID := 262145, granted := level_entries 3\<rparr>]\<rparr>) 200 =
       Inr (s', KEY_TRUE) \<and> apis s' 200 = Some h' \<and> ''pGetUsrInfo'' \<in> set (granted h')"
proof -
  let ?h = "demo_table\<lparr>api_usrID := 262145, granted := level_entries 3\<rparr>"
  let ?s = "clash_adp\<lparr>apis := [200 \<mapsto> ?h]\<rparr>"
  have "sess_ok ?s" by (simp add: sess_ok_def reg_ok_def clash_adp_def api_of_def demo_adp_def)
  from logout_keeps_entries [OF this, of 200 ?h 5] show ?thesis
    by (auto simp: clash_adp_def api_of_def)
qed

end
