(* ===== verification/Config.thy ===== *)
theory Config
  imports CJson
begin

text \<open>
  The configuration of the gateway, \<^verbatim>\<open>src/ExtLibs/Config/configmanage.c\<close>: a JSON object in memory
  whose members are the configurations of the modules, written to the file \<^verbatim>\<open>./conf.config\<close> at every
  change and read back at the start. The file is \<open>conf_file\<close>, \<open>None\<close> when it cannot be opened for reading.

  The locale \<open>config_store\<close> is the contract the modules rely on: what was set is what is got,
  and setting one name leaves the others alone. Names are compared without regard to case.
\<close>

section \<open>Operations\<close>

abbreviation (input) KEY_NOTFOUNDCONF :: int where "KEY_NOTFOUNDCONF \<equiv> - 2"

definition D_CONFPATH_LEN :: nat where "D_CONFPATH_LEN = 1024 * 1 * 1024"

record Conf_T =
  root :: "cJSON option"
  conf_file :: "string option"

text \<open>The whole file is read into the buffer, whatever the length of the buffer is.\<close>

definition LoadConfig :: "string option \<Rightarrow> string option \<Rightarrow> fault + string option \<times> int" where
  "LoadConfig file str = (case str of None \<Rightarrow> Inr (None, - 1)
     | Some buf \<Rightarrow> (case file of None \<Rightarrow> Inr (str, - 1)
        | Some t \<Rightarrow> rbind (put_all buf 0 t) (\<lambda>buf. Inr (Some buf, int (length t)))))"

text \<open>\<open>writable\<close>: whether the file can be opened for writing. \<open>fd\<close> prints numbers that are not integers.\<close>

definition WirteConf :: "(rat \<Rightarrow> string) \<Rightarrow> bool \<Rightarrow> cJSON option \<Rightarrow> string option \<Rightarrow> fault + string option \<times> int" where
  "WirteConf fd writable conf file = (case conf of None \<Rightarrow> Inr (file, KEY_FALSE)
     | Some c \<Rightarrow> if \<not> writable then Inr (file, - 1)
        else rbind (cJSON_PrintUnformatted fd c) (\<lambda>out. case out of None \<Rightarrow> Inl NullDeref
          | Some t \<Rightarrow> Inr (Some t, 0)))"

definition ConfigManageInit :: "Conf_T \<Rightarrow> (Conf_T \<times> int) run" where
  "ConfigManageInit s =
     run_bind (Some (LoadConfig (conf_file s) (Some (replicate D_CONFPATH_LEN NUL)))) (\<lambda>(confBuf, confLen).
     run_bind (if confLen > 0 then cJSON_Parse (the confBuf) else Some (Inr None)) (\<lambda>r.
     if confLen < 0 \<or> r = None then Some (Inr (s\<lparr>root := Some cJSON_CreateObject\<rparr>, KEY_NOTFOUNDCONF))
     else Some (Inr (s\<lparr>root := r\<rparr>, KEY_TRUE))))"

definition ConfigManageSet ::
    "(rat \<Rightarrow> string) \<Rightarrow> bool \<Rightarrow> cJSON option \<Rightarrow> string option \<Rightarrow> Conf_T \<Rightarrow> fault + Conf_T \<times> int" where
  "ConfigManageSet fd writable conf confName s = (case (conf, confName) of
       (Some c, Some n) \<Rightarrow> (case root s of None \<Rightarrow> Inl NullDeref
          | Some r \<Rightarrow> let r = cJSON_AddItemToObject (cJSON_DeleteItemFromObject r n) n (Some c) in
              rbind (WirteConf fd writable (Some r) (conf_file s)) (\<lambda>(file, ret).
              if ret = KEY_FALSE then Inl AssertFailed
              else Inr (s\<lparr>root := Some r, conf_file := file\<rparr>, KEY_TRUE)))
     | _ \<Rightarrow> Inr (s, KEY_FALSE))"

text \<open>The item is copied by printing and parsing it.\<close>

definition ConfigManageGet :: "(rat \<Rightarrow> string) \<Rightarrow> string option \<Rightarrow> Conf_T \<Rightarrow> cJSON option run" where
  "ConfigManageGet fd confName s = (case confName of None \<Rightarrow> Some (Inr None)
     | Some n \<Rightarrow> (case root s of None \<Rightarrow> Some (Inl NullDeref)
        | Some r \<Rightarrow> (case cJSON_GetObjectItem r n of None \<Rightarrow> Some (Inr None)
           | Some tmp \<Rightarrow> run_bind (Some (cJSON_PrintUnformatted fd tmp)) (\<lambda>out. case out of
                None \<Rightarrow> Some (Inr None) | Some t \<Rightarrow> cJSON_Parse (t @ [NUL])))))"

section \<open>Building objects\<close>

text \<open>Items built with the functions of the library are those of values.\<close>

lemma repr_JObj: "repr (JObj ms) = CJson cJSON_Object (map (\<lambda>(s, j). set_name (Some s) (repr j)) ms) None 0 0 None"
  by (simp add: comp_def case_prod_beta)

lemma repr_empty: "cJSON_CreateObject = repr (JObj [])"
  by (simp add: cJSON_CreateObject_def)

lemma repr_empty_array: "cJSON_CreateArray = repr (JArr [])"
  by (simp add: cJSON_CreateArray_def)

lemma repr_string: "cJSON_CreateString s = repr (JStr s)"
  by (simp add: cJSON_CreateString_def)

lemma repr_number: "- (2 ^ 31) \<le> i \<Longrightarrow> i < 2 ^ 31 \<Longrightarrow> cJSON_CreateNumber (of_int i) = repr (JNum i)"
  by (simp add: cJSON_CreateNumber_def to_int_of_int)

lemma repr_add: "cJSON_AddItemToObject (repr (JObj ms)) s (Some (repr j)) = repr (JObj (ms @ [(s, j)]))"
  by (simp add: repr_JObj cJSON_AddItemToObject_def cJSON_AddItemToArray_def del: repr.simps)

lemma repr_append: "cJSON_AddItemToArray (repr (JArr js)) (Some (repr j)) = repr (JArr (js @ [j]))"
  by (simp add: cJSON_AddItemToArray_def)

definition same_name :: "string \<Rightarrow> string \<Rightarrow> bool" where
  "same_name a b \<longleftrightarrow> map c_tolower a = map c_tolower b"

lemma same_name_refl [simp]: "same_name a a"
  by (simp add: same_name_def)

lemma strcasecmp_name [simp]: "cJSON_strcasecmp_eq (Some a) (Some b) \<longleftrightarrow> same_name a b"
  by (simp add: cJSON_strcasecmp_eq_def same_name_def)

definition member :: "(string \<times> json) list \<Rightarrow> string \<Rightarrow> json option" where
  "member ms n = map_option snd (find (\<lambda>(s, _). same_name s n) ms)"

lemma member_simps [simp]:
  "member [] n = None"
  "member ((s, j) # ms) n = (if same_name s n then Some j else member ms n)"
  by (simp_all add: member_def)

lemma member_append: "member (ms @ ms') n = (case member ms n of None \<Rightarrow> member ms' n | Some j \<Rightarrow> Some j)"
  by (induction ms) auto

lemma repr_get:
  "\<exists>s. cJSON_GetObjectItem (repr (JObj ms)) n = map_option (\<lambda>j. set_name (Some s) (repr j)) (member ms n)"
  unfolding repr_JObj cJSON_GetObjectItem_def
proof (induction ms)
  case (Cons m ms)
  then show ?case by (cases m) auto
qed simp

fun del_member :: "(string \<times> json) list \<Rightarrow> string \<Rightarrow> (string \<times> json) list" where
  "del_member [] n = []"
| "del_member ((s, j) # ms) n = (if same_name s n then ms else (s, j) # del_member ms n)"

lemma repr_delete: "cJSON_DeleteItemFromObject (repr (JObj ms)) n = repr (JObj (del_member ms n))"
proof -
  let ?item = "\<lambda>(s, j). set_name (Some s) (repr j)"
  have none: "name_index (map ?item ms) n = None \<Longrightarrow> del_member ms n = ms" for ms
    by (induction ms n rule: del_member.induct) (auto split: if_splits)
  have some: "name_index (map ?item ms) n = Some i \<Longrightarrow>
      take i (map ?item ms) @ drop (Suc i) (map ?item ms) = map ?item (del_member ms n)" for ms i
    by (induction ms n arbitrary: i rule: del_member.induct) (auto split: if_splits)
  show ?thesis unfolding cJSON_DeleteItemFromObject_def cJSON_DetachItemFromObject_def cJSON_DetachItemFromArray_def
    using none [of ms] some [of ms] name_index_bound [of "map ?item ms" n]
    by (auto simp: repr_JObj simp del: repr.simps split: option.splits)
qed

lemma del_member_ok: "json_ok (JObj ms) \<Longrightarrow> json_ok (JObj (del_member ms n))"
  by (induction ms n rule: del_member.induct) auto

definition names :: "(string \<times> json) list \<Rightarrow> string list" where
  "names ms = map (map c_tolower \<circ> fst) ms"

lemma names_simps [simp]: "names [] = []" "names ((s, j) # ms) = map c_tolower s # names ms" "names (ms @ ms') = names ms @ names ms'"
  by (simp_all add: names_def)

lemma names_del: "set (names (del_member ms n)) \<subseteq> set (names ms)"
  by (induction ms n rule: del_member.induct) auto

lemma distinct_del: "distinct (names ms) \<Longrightarrow> distinct (names (del_member ms n))"
  by (induction ms n rule: del_member.induct) (use names_del in \<open>auto simp: subset_iff\<close>)

lemma member_None: "member ms n = None \<longleftrightarrow> map c_tolower n \<notin> set (names ms)"
  by (induction ms) (auto simp: same_name_def split: if_splits)

lemma member_del:
  "distinct (names ms) \<Longrightarrow> member (del_member ms n) n' = (if same_name n n' then None else member ms n')"
proof (induction ms n rule: del_member.induct)
  case (2 s j ms n)
  then show ?case using member_None [of ms n'] by (auto simp: same_name_def)
qed simp

section \<open>The store\<close>

definition conf_inv :: "Conf_T \<Rightarrow> (string \<times> json) list \<Rightarrow> bool" where
  "conf_inv s ms \<longleftrightarrow> root s = Some (repr (JObj ms)) \<and> json_ok (JObj ms) \<and> distinct (names ms)"

lemma print_repr: "json_ok j \<Longrightarrow> cJSON_PrintUnformatted fd (repr j) = Inr (Some (json_text j False 0))"
  by (simp add: cJSON_PrintUnformatted_def print_value_repr)

lemma parse_repr: "json_ok j \<Longrightarrow> cJSON_Parse (json_text j False 0 @ NUL # r) = Some (Inr (Some (repr j)))"
  by (simp add: cJSON_Parse_def parse_text)


lemma member_ok: "json_ok (JObj ms) \<Longrightarrow> member ms n = Some j \<Longrightarrow> json_ok j"
  by (induction ms) (auto split: if_splits)

lemma config_get:
  assumes "conf_inv s ms"
  shows "ConfigManageGet fd (Some n) s = Some (Inr (map_option repr (member ms n)))"
proof -
  obtain k where k: "cJSON_GetObjectItem (repr (JObj ms)) n = map_option (\<lambda>j. set_name (Some k) (repr j)) (member ms n)"
    using repr_get by blast
  show ?thesis
  proof (cases "member ms n")
    case None
    then show ?thesis using assms k by (simp add: ConfigManageGet_def conf_inv_def)
  next
    case (Some j)
    then have "json_ok j" using assms member_ok by (auto simp: conf_inv_def)
    then show ?thesis using assms k Some print_repr [of j fd] parse_repr [of j "[]"]
      by (simp add: ConfigManageGet_def conf_inv_def cJSON_PrintUnformatted_def)
  qed
qed

lemma config_set:
  assumes "conf_inv s ms" "json_ok j" "NUL \<notin> set n"
  shows "\<exists>s'. ConfigManageSet fd True (Some (repr j)) (Some n) s = Inr (s', KEY_TRUE) \<and>
    conf_inv s' (del_member ms n @ [(n, j)]) \<and> conf_file s' = Some (json_text (JObj (del_member ms n @ [(n, j)])) False 0)"
proof -
  let ?ms = "del_member ms n @ [(n, j)]"
  have ok: "json_ok (JObj ?ms)" using assms del_member_ok [of ms n] by (simp add: conf_inv_def)
  have "distinct (names ?ms)"
    using assms(1) distinct_del [of ms n] member_del [of ms n n] member_None [of "del_member ms n" n] by (simp add: conf_inv_def)
  moreover have "cJSON_AddItemToObject (cJSON_DeleteItemFromObject (repr (JObj ms)) n) n (Some (repr j)) = repr (JObj ?ms)"
    by (simp only: repr_delete repr_add)
  moreover have "root s = Some (repr (JObj ms))" using assms(1) by (simp add: conf_inv_def)
  ultimately show ?thesis using ok print_repr [OF ok, of fd]
    by (simp add: ConfigManageSet_def WirteConf_def conf_inv_def Let_def del: repr.simps json_ok.simps json_text.simps)
qed

locale config_store =
  fixes inv :: "'s \<Rightarrow> bool"
    and get :: "'s \<Rightarrow> string \<Rightarrow> 'v option"
    and set_conf :: "'s \<Rightarrow> string \<Rightarrow> 'v \<Rightarrow> 's \<Rightarrow> bool"
    and good :: "'v \<Rightarrow> bool"
  assumes set_total: "inv s \<Longrightarrow> good v \<Longrightarrow> NUL \<notin> set n \<Longrightarrow> \<exists>s'. set_conf s n v s'"
    and set_get: "inv s \<Longrightarrow> good v \<Longrightarrow> NUL \<notin> set n \<Longrightarrow> set_conf s n v s' \<Longrightarrow>
      inv s' \<and> (\<forall>n'. get s' n' = (if same_name n n' then Some v else get s n'))"
begin

lemma get_same:
  assumes "inv s" "good v" "NUL \<notin> set n" "set_conf s n v s'"
  shows "inv s'" "get s' n = Some v"
  using set_get [OF assms] by simp_all

lemma get_other:
  assumes "inv s" "good v" "NUL \<notin> set n" "set_conf s n v s'" "\<not> same_name n n'"
  shows "get s' n' = get s n'"
  using set_get [OF assms(1-4)] assms(5) by simp

lemma set_overwrites:
  assumes "inv s" "good v" "good w" "NUL \<notin> set n" "set_conf s n v s1" "set_conf s1 n w s2" "set_conf s n w s3"
  shows "get s2 = get s3"
  using set_get [OF assms(1,2,4,5)] set_get [OF _ assms(3,4,6)] set_get [OF assms(1,3,4,7)] by auto

text \<open>A module that finds no configuration stores its default and reads again.\<close>

lemma get_or_default:
  assumes "inv s" "good v" "NUL \<notin> set n" "get s n = None"
  shows "\<exists>s'. set_conf s n v s' \<and> inv s' \<and> get s' n = Some v"
  using set_total [OF assms(1-3)] get_same [OF assms(1-3)] by blast

end

definition conf_value :: "Conf_T \<Rightarrow> string \<Rightarrow> cJSON option" where
  "conf_value s n = (case ConfigManageGet (\<lambda>_. []) (Some n) s of Some (Inr c) \<Rightarrow> c | _ \<Rightarrow> None)"

definition conf_written :: "Conf_T \<Rightarrow> string \<Rightarrow> cJSON \<Rightarrow> Conf_T \<Rightarrow> bool" where
  "conf_written s n c s' \<longleftrightarrow> (\<exists>fd. ConfigManageSet fd True (Some c) (Some n) s = Inr (s', KEY_TRUE))"

lemma conf_value_inv: "conf_inv s ms \<Longrightarrow> conf_value s n = map_option repr (member ms n)"
  by (simp add: conf_value_def config_get)

interpretation conf: config_store "\<lambda>s. \<exists>ms. conf_inv s ms" conf_value conf_written "\<lambda>c. \<exists>j. json_ok j \<and> c = repr j"
proof
  show "\<exists>s'. conf_written s n c s'" if "\<exists>ms. conf_inv s ms" "\<exists>j. json_ok j \<and> c = repr j" "NUL \<notin> set n" for s c n
    using that config_set by (fastforce simp: conf_written_def)
  show "(\<exists>ms. conf_inv s' ms) \<and> (\<forall>n'. conf_value s' n' = (if same_name n n' then Some c else conf_value s n'))"
    if a: "\<exists>ms. conf_inv s ms" "\<exists>j. json_ok j \<and> c = repr j" "NUL \<notin> set n" "conf_written s n c s'" for s c n s'
  proof -
    obtain ms j fd where m: "conf_inv s ms" "json_ok j" "c = repr j" "ConfigManageSet fd True (Some c) (Some n) s = Inr (s', KEY_TRUE)"
      using a unfolding conf_written_def by blast
    then have i: "conf_inv s' (del_member ms n @ [(n, j)])" using config_set [OF m(1,2) a(3), of fd] by auto
    have "conf_value s' n' = (if same_name n n' then Some c else conf_value s n')" for n'
      using m(1,3) member_del [of ms n n'] conf_value_inv [OF i, of n'] conf_value_inv [OF m(1), of n']
      by (auto simp: conf_inv_def member_append split: option.splits)
    then show ?thesis using i by blast
  qed
qed

lemma put_all_zeros: "put_all (replicate (length t + Suc k) NUL) 0 t = Inr (t @ NUL # replicate k NUL)"
  unfolding replicate_add by (subst put_all_fits) simp_all

text \<open>A new process has the file only.\<close>

lemma config_boot:
  assumes "conf_inv s ms" "conf_file s = Some (json_text (JObj ms) False 0)" "length (json_text (JObj ms) False 0) < D_CONFPATH_LEN"
  shows "ConfigManageInit (s\<lparr>root := r\<rparr>) = Some (Inr (s, KEY_TRUE))"
proof -
  let ?t = "json_text (JObj ms) False 0"
  have ok: "json_ok (JObj ms)" "root s = Some (repr (JObj ms))" using assms(1) by (simp_all add: conf_inv_def)
  obtain k where k: "D_CONFPATH_LEN = length ?t + Suc k" using less_imp_Suc_add [OF assms(3)] unfolding add_Suc_right by blast
  have l: "put_all (replicate D_CONFPATH_LEN NUL) 0 ?t = Inr (?t @ NUL # replicate k NUL)"
    unfolding k by (rule put_all_zeros)
  have "?t \<noteq> []" by simp
  then show ?thesis using l ok parse_repr [OF ok(1)] assms(2)
    by (cases s) (simp add: ConfigManageInit_def LoadConfig_def del: json_text.simps repr.simps json_ok.simps)
qed

lemma config_restart:
  assumes "conf_inv s ms" "conf_file s = Some (json_text (JObj ms) False 0)" "length (json_text (JObj ms) False 0) < D_CONFPATH_LEN"
  shows "ConfigManageInit s = Some (Inr (s, KEY_TRUE))"
  using config_boot [OF assms, of "root s"] by simp

text \<open>
  C18. The configuration is a store that survives a restart: after \<^verbatim>\<open>ConfigManageSet\<close> of a value under a name,
  \<^verbatim>\<open>ConfigManageGet\<close> returns that value for the name in any capitalisation and what it returned
  before for every other name, and \<^verbatim>\<open>ConfigManageInit\<close>, reading the file that was written, restores
  the same state, as long as the file is shorter than the buffer of 1 MiB.
\<close>

theorem config_roundtrip:
  assumes "conf_inv s ms" "json_ok j" "NUL \<notin> set n"
  shows "\<exists>s' ms'. ConfigManageSet fd True (Some (repr j)) (Some n) s = Inr (s', KEY_TRUE) \<and> conf_inv s' ms' \<and>
    (\<forall>n'. ConfigManageGet fd (Some n') s' =
       (if same_name n n' then Some (Inr (Some (repr j))) else ConfigManageGet fd (Some n') s)) \<and>
    (length (the (conf_file s')) < D_CONFPATH_LEN \<longrightarrow> ConfigManageInit s' = Some (Inr (s', KEY_TRUE)))"
proof -
  let ?ms = "del_member ms n @ [(n, j)]"
  obtain s' where s': "ConfigManageSet fd True (Some (repr j)) (Some n) s = Inr (s', KEY_TRUE)" "conf_inv s' ?ms"
    "conf_file s' = Some (json_text (JObj ?ms) False 0)" using config_set [OF assms, of fd] by blast
  have "ConfigManageGet fd (Some n') s' =
      (if same_name n n' then Some (Inr (Some (repr j))) else ConfigManageGet fd (Some n') s)" for n'
    using assms(1) config_get [OF s'(2), of fd n'] config_get [OF assms(1), of fd n'] member_del [of ms n n']
    by (auto simp: conf_inv_def member_append split: option.splits)
  then show ?thesis using s' config_restart [OF s'(2,3)] by (intro exI conjI allI impI) (assumption | simp only: option.sel)+
qed

lemma empty_conf: "conf_inv \<lparr>root = Some cJSON_CreateObject, conf_file = None\<rparr> []"
  by (simp add: conf_inv_def cJSON_CreateObject_def)

theorem config_roundtrip_witness:
  "\<exists>s'. ConfigManageSet (\<lambda>_. []) True (Some (repr (JNum 5))) (Some ''level'') \<lparr>root = Some cJSON_CreateObject, conf_file = None\<rparr> =
      Inr (s', KEY_TRUE) \<and> ConfigManageGet (\<lambda>_. []) (Some ''LEVEL'') s' = Some (Inr (Some (repr (JNum 5))))"
proof -
  have "same_name ''level'' ''LEVEL''" by code_simp
  then show ?thesis using config_roundtrip [OF empty_conf, of "JNum 5" "''level''" "\<lambda>_. []"] by auto
qed

text \<open>A file that is longer than the buffer, though the program wrote it itself, is read over its end.\<close>

lemma long_config_overruns:
  "conf_file s = Some t \<Longrightarrow> D_CONFPATH_LEN < length t \<Longrightarrow> ConfigManageInit s = Some (Inl OutOfBounds)"
  by (simp add: ConfigManageInit_def LoadConfig_def put_all_overflow)

end
