(* ===== verification/DeviceManage.thy ===== *)
theory DeviceManage
  imports Registry
begin

text \<open>
  \<^verbatim>\<open>src/Modules/DeviceManage/devicemanage.c\<close>: the table of known devices, a handle list of records
  that mirrors a data base table. As in \<open>UsrManage\<close> the list is the list of handles, the records
  live in a store, and the data base operations, taken from \<^verbatim>\<open>MySqlManageRegister\<close>, are
  callbacks over a state \<open>'d\<close>; each may be NULL.

  The lemmas show that devices are kept under unique identifiers by adding and deleting, that
  lookups see exactly what was stored, and two ways in which the code breaks this: a device
  with a long identifier can never be deleted, and \<open>SetDeviceInfo\<close> can give a device the
  identifier of another.
\<close>

section \<open>State\<close>

record DeviceInfoParam_T =
  deviceModel :: nat
  onlineStatus :: nat
  deviceIpaddr :: string
  deviceID :: string
  deviceName :: string
  deviceSoftwareVer :: string

text \<open>\<^verbatim>\<open>DeviceStorageInfo_T\<close> has the single member \<^verbatim>\<open>deviceInfo\<close>.\<close>

type_synonym DeviceStorageInfo_T = DeviceInfoParam_T

record 'd DeviceSql =
  sqlSetDeviceInfo :: "(DeviceStorageInfo_T \<Rightarrow> 'd \<Rightarrow> 'd \<times> int) option"
  sqlAddDevice :: "(DeviceStorageInfo_T \<Rightarrow> 'd \<Rightarrow> 'd \<times> int) option"
  sqlDelDevice :: "(string \<Rightarrow> 'd \<Rightarrow> 'd \<times> int) option"
  sqlGetDeviceInfoList :: "('d \<Rightarrow> DeviceStorageInfo_T list \<times> int) option"
  sqlGetDeviceInfoListNum :: "('d \<Rightarrow> int) option"

definition no_sql :: "'d DeviceSql" where
  "no_sql = \<lparr>sqlSetDeviceInfo = None, sqlAddDevice = None, sqlDelDevice = None,
     sqlGetDeviceInfoList = None, sqlGetDeviceInfoListNum = None\<rparr>"

record 'd DeviceListInner_T =
  dev_list :: "nat list"
  dev_objs :: "nat \<rightharpoonup> DeviceStorageInfo_T"
  deviceExitFlag :: bool
  mysqlHandle :: "'d DeviceSql"
  dev_db :: 'd

section \<open>Operations\<close>

text \<open>
  \<open>GetUUIDNonce_dev\<close> (\<open>GetUUIDNonce\<close> of the source, whose name is that of another function too): the number between the first two dashes. It is copied to a block of eight
  zero bytes, so eight or more characters overrun the block or leave it unterminated.
\<close>

definition GetUUIDNonce_dev :: "string option \<Rightarrow> fault + int" where
  "GetUUIDNonce_dev uuid = (case uuid of None \<Rightarrow> Inr KEY_FALSE
     | Some s \<Rightarrow>
        (case dropWhile (\<lambda>c. c \<noteq> CHR ''-'') s of [] \<Rightarrow> Inr KEY_FALSE
         | _ # ps \<Rightarrow>
            if CHR ''-'' \<notin> set ps then Inr KEY_FALSE
            else let num = takeWhile (\<lambda>c. c \<noteq> CHR ''-'') ps in
              if length num \<ge> 8 then Inl OutOfBounds else Inr (atoi num)))"

definition dev_find :: "'d DeviceListInner_T \<Rightarrow> string \<Rightarrow> fault + nat" where
  "dev_find s devid = reg_lookup (dev_objs s) (\<lambda>d. deviceID d = devid) (dev_list s)"

text \<open>The result is the copy of the record, where one is made, and the return value.\<close>

definition GetDeviceInfoByUUID ::
    "'d DeviceListInner_T \<Rightarrow> string \<Rightarrow> fault + (DeviceStorageInfo_T option \<times> int)" where
  "GetDeviceInfoByUUID s uuid =
     (if uuid = '''' then Inr (None, KEY_FALSE)
      else rbind (dev_find s uuid) (\<lambda>p.
        if p = 0 then Inr (None, KEY_NOTFOUND)
        else rbind (obj_load (dev_objs s) p) (\<lambda>d.
          if uuid \<noteq> deviceID d then Inr (None, KEY_NOTFOUND) else Inr (Some d, KEY_TRUE))))"

definition GetDeviceInfo ::
    "'d DeviceListInner_T \<Rightarrow> string \<Rightarrow> DeviceStorageInfo_T \<Rightarrow> fault + (DeviceStorageInfo_T \<times> int)" where
  "GetDeviceInfo s devid info =
     rbind (GetDeviceInfoByUUID s devid) (\<lambda>(d, iret).
       Inr (if iret = KEY_TRUE then (case d of None \<Rightarrow> info | Some x \<Rightarrow> x) else info, iret))"

definition dev_sql ::
    "('a \<Rightarrow> 'd \<Rightarrow> 'd \<times> int) option \<Rightarrow> 'a \<Rightarrow> 'd DeviceListInner_T \<Rightarrow> int \<Rightarrow> 'd DeviceListInner_T \<times> int" where
  "dev_sql cb x s iret = (case cb of None \<Rightarrow> (s, iret)
     | Some f \<Rightarrow> let (d, r) = f x (dev_db s) in (s\<lparr>dev_db := d\<rparr>, r))"

definition SetDeviceInfo ::
    "'d DeviceListInner_T \<Rightarrow> string \<Rightarrow> DeviceStorageInfo_T option \<Rightarrow> fault + ('d DeviceListInner_T \<times> int)" where
  "SetDeviceInfo s devid info =
     (case info of None \<Rightarrow> Inr (s, KEY_FALSE)
      | Some d \<Rightarrow>
         if devid = '''' then Inr (s, KEY_FALSE)
         else rbind (dev_find s devid) (\<lambda>p.
           if p = 0 then Inr (s, KEY_NOTFOUND)
           else rbind (obj_load (dev_objs s) p) (\<lambda>_.
             Inr (dev_sql (sqlSetDeviceInfo (mysqlHandle s)) d
                    (s\<lparr>dev_objs := (dev_objs s)(p \<mapsto> d)\<rparr>) KEY_FALSE))))"

fun cam_num_loop :: "(nat \<rightharpoonup> DeviceStorageInfo_T) \<Rightarrow> nat list \<Rightarrow> int \<Rightarrow> fault + int" where
  "cam_num_loop m [] num = Inr num"
| "cam_num_loop m (v # vs) num =
     rbind (obj_load m v) (\<lambda>d. cam_num_loop m vs (if deviceID d \<noteq> '''' then num + 1 else num))"

definition GetCameraInfoNum :: "'d DeviceListInner_T \<Rightarrow> fault + (int \<times> int)" where
  "GetCameraInfoNum s = rbind (cam_num_loop (dev_objs s) (dev_list s) 0) (\<lambda>n. Inr (n, KEY_TRUE))"

fun cam_list_loop :: "(nat \<rightharpoonup> DeviceStorageInfo_T) \<Rightarrow> nat list \<Rightarrow> fault + DeviceStorageInfo_T list" where
  "cam_list_loop m [] = Inr []"
| "cam_list_loop m (v # vs) =
     (if v = 0 then cam_list_loop m vs
      else rbind (obj_load m v) (\<lambda>d. rbind (cam_list_loop m vs) (\<lambda>ds. Inr (d # ds))))"

definition GetCameraInfoList :: "'d DeviceListInner_T \<Rightarrow> fault + (DeviceStorageInfo_T list \<times> int)" where
  "GetCameraInfoList s = rbind (cam_list_loop (dev_objs s) (dev_list s)) (\<lambda>ds. Inr (ds, KEY_TRUE))"

text \<open>\<open>newObj\<close> is the address \<^verbatim>\<open>malloc\<close> returned.\<close>

definition AddDevice ::
    "'d DeviceListInner_T \<Rightarrow> DeviceStorageInfo_T option \<Rightarrow> nat \<Rightarrow> fault + ('d DeviceListInner_T \<times> int)" where
  "AddDevice s info newObj =
     (case info of None \<Rightarrow> Inr (s, KEY_FALSE)
      | Some d \<Rightarrow>
         if deviceID d = '''' then Inr (s, KEY_FALSE)
         else rbind (dev_find s (deviceID d)) (\<lambda>p.
           if p \<noteq> 0 then Inr (s, KEY_FORBIDDEN)
           else if newObj = 0 then Inl NullDeref
           else Inr (dev_sql (sqlAddDevice (mysqlHandle s)) d
                  (s\<lparr>dev_objs := (dev_objs s)(newObj \<mapsto> d),
                     dev_list := fst (hl_step (dev_list s) (AddHandle newObj))\<rparr>) KEY_FALSE)))"

definition DelDevice :: "'d DeviceListInner_T \<Rightarrow> string \<Rightarrow> fault + ('d DeviceListInner_T \<times> int)" where
  "DelDevice s devid =
     (if 32 < length devid then Inr (s, KEY_FALSE)
      else if devid = '''' then Inr (s, KEY_NOTFOUND)
      else rbind (dev_find s devid) (\<lambda>p.
        if p = 0 then Inr (s, KEY_NOTFOUND)
        else rbind (obj_load (dev_objs s) p) (\<lambda>_.
          Inr (dev_sql (sqlDelDevice (mysqlHandle s)) devid
                 (s\<lparr>dev_list := fst (hl_step (dev_list s) (DelHandle p)),
                    dev_objs := (dev_objs s)(p := None)\<rparr>) KEY_FALSE))))"

section \<open>Start and stop\<close>

text \<open>
  The array is cleared before the callback fills it, so an entry it does not write is a
  cleared record. An allocation that fails is followed by \<^verbatim>\<open>memset\<close> through NULL.
\<close>

definition null_device :: DeviceStorageInfo_T where
  "null_device = \<lparr>deviceModel = 0, onlineStatus = 0, deviceIpaddr = '''', deviceID = '''', deviceName = '''',
     deviceSoftwareVer = ''''\<rparr>"

fun dev_init_loop ::
    "((nat \<rightharpoonup> DeviceStorageInfo_T) \<Rightarrow> nat) \<Rightarrow> DeviceStorageInfo_T list \<Rightarrow> nat list \<Rightarrow> (nat \<rightharpoonup> DeviceStorageInfo_T) \<Rightarrow>
     fault + (nat list \<times> (nat \<rightharpoonup> DeviceStorageInfo_T))" where
  "dev_init_loop alloc [] vs m = Inr (vs, m)"
| "dev_init_loop alloc (d # ds) vs m =
     (let p = alloc m in
      if p = 0 then Inl NullDeref
      else dev_init_loop alloc ds (fst (hl_step vs (AddHandle p))) (m(p \<mapsto> d)))"

definition InitDeviceList ::
    "((nat \<rightharpoonup> DeviceStorageInfo_T) \<Rightarrow> nat) \<Rightarrow> 'd DeviceListInner_T \<Rightarrow> bool \<Rightarrow>
     fault + ('d DeviceListInner_T \<times> int)" where
  "InitDeviceList alloc s malloc_ok =
     (let s = s\<lparr>dev_list := []\<rparr> in
      case (sqlGetDeviceInfoList (mysqlHandle s), sqlGetDeviceInfoListNum (mysqlHandle s)) of
        (Some getList, Some getNum) \<Rightarrow>
          let num = getNum (dev_db s) in
          if num \<le> 0 then Inr (s, if num = 0 then KEY_TRUE else KEY_FALSE)
          else if \<not> malloc_ok then Inl NullDeref
          else let (ds, iret) = getList (dev_db s) in
            if int (length ds) > num then Inl OutOfBounds
            else if iret \<noteq> KEY_TRUE then Inr (s, KEY_FALSE)
            else rbind (dev_init_loop alloc (ds @ replicate (nat num - length ds) null_device) [] (dev_objs s))
                   (\<lambda>(vs, m). Inr (s\<lparr>dev_list := vs, dev_objs := m\<rparr>, KEY_TRUE))
      | _ \<Rightarrow> Inr (s, KEY_FALSE))"

definition UnInitDeviceList :: "'d DeviceListInner_T \<Rightarrow> fault + ('d DeviceListInner_T \<times> int)" where
  "UnInitDeviceList s =
     rbind (reg_free (dev_objs s) (dev_list s)) (\<lambda>m. Inr (s\<lparr>dev_objs := m\<rparr>, KEY_TRUE))"

text \<open>The caller's table of operations: \<open>None\<close> for NULL, otherwise whether its entries are set.\<close>

definition DeiveManageRegister :: "bool option \<Rightarrow> bool option \<times> int" where
  "DeiveManageRegister handle = (case handle of None \<Rightarrow> (None, KEY_FALSE) | Some _ \<Rightarrow> (Some True, KEY_TRUE))"

definition DeiveManageUnRegister :: "bool option \<Rightarrow> bool option \<times> int" where
  "DeiveManageUnRegister handle = (case handle of None \<Rightarrow> (None, KEY_FALSE) | Some _ \<Rightarrow> (Some False, KEY_TRUE))"

text \<open>\<open>sql\<close>: the operations that \<^verbatim>\<open>MySqlManageRegister\<close> puts into \<^verbatim>\<open>mysqlHandle\<close>.\<close>

definition DeiveManageInit ::
    "((nat \<rightharpoonup> DeviceStorageInfo_T) \<Rightarrow> nat) \<Rightarrow> 'd DeviceSql \<Rightarrow> 'd DeviceListInner_T \<Rightarrow> bool option \<Rightarrow> bool \<Rightarrow>
     fault + ('d DeviceListInner_T \<times> bool option \<times> int)" where
  "DeiveManageInit alloc sql s handle malloc_ok =
     (case handle of None \<Rightarrow> Inr (s, None, KEY_FALSE)
      | Some _ \<Rightarrow>
          rbind (InitDeviceList alloc (s\<lparr>deviceExitFlag := True, mysqlHandle := sql\<rparr>) malloc_ok)
            (\<lambda>(s, _). Inr (s, fst (DeiveManageRegister handle), KEY_TRUE)))"

definition DeiveManageUnInit ::
    "'d DeviceListInner_T \<Rightarrow> bool option \<Rightarrow> fault + ('d DeviceListInner_T \<times> bool option \<times> int)" where
  "DeiveManageUnInit s handle =
     (case handle of None \<Rightarrow> Inr (s, None, KEY_FALSE)
      | Some _ \<Rightarrow>
          rbind (UnInitDeviceList (s\<lparr>deviceExitFlag := False, mysqlHandle := no_sql\<rparr>))
            (\<lambda>(s, _). Inr (s, fst (DeiveManageUnRegister handle), KEY_TRUE)))"

section \<open>The devices by identifier\<close>

definition dm_inv :: "'d DeviceListInner_T \<Rightarrow> bool" where
  "dm_inv s \<longleftrightarrow> reg_inv deviceID (dev_objs s) (dev_list s)"

definition dm_get :: "'d DeviceListInner_T \<Rightarrow> string \<Rightarrow> DeviceStorageInfo_T option" where
  "dm_get s = reg_get deviceID (dev_objs s) (dev_list s)"

lemma dm_inv_ok: "dm_inv s \<Longrightarrow> reg_ok (dev_objs s) (dev_list s)"
  by (simp add: dm_inv_def reg_inv_def)

lemma dev_find_none: "dm_inv s \<Longrightarrow> dm_get s n = None \<Longrightarrow> dev_find s n = Inr 0"
  using reg_lookup_none [OF dm_inv_ok] by (simp add: dev_find_def dm_get_def)

lemma dev_find_some:
  assumes "dm_inv s" "dm_get s n = Some d"
  obtains p where "dev_find s n = Inr p" "p \<in> set (dev_list s)" "p \<noteq> 0" "dev_objs s p = Some d" "deviceID d = n"
  using reg_lookup_some [of "dev_objs s" "dev_list s" deviceID n d] dm_inv_ok [OF assms(1)] assms(2)
  by (auto simp: dev_find_def dm_get_def)

lemma dev_sql_sel [simp]:
  "dev_list (fst (dev_sql cb x s r)) = dev_list s" "dev_objs (fst (dev_sql cb x s r)) = dev_objs s"
  "mysqlHandle (fst (dev_sql cb x s r)) = mysqlHandle s"
  by (simp_all add: dev_sql_def split: option.splits prod.splits)

lemma GetDeviceInfo_spec:
  assumes "dm_inv s"
  shows "GetDeviceInfo s n info =
    Inr (if n = '''' then (info, KEY_FALSE)
         else case dm_get s n of None \<Rightarrow> (info, KEY_NOTFOUND) | Some d \<Rightarrow> (d, KEY_TRUE))"
proof (cases "dm_get s n")
  case None
  then show ?thesis using dev_find_none [OF assms None] by (simp add: GetDeviceInfo_def GetDeviceInfoByUUID_def)
next
  case (Some d)
  from dev_find_some [OF assms Some] obtain p where "dev_find s n = Inr p" "p \<noteq> 0" "dev_objs s p = Some d"
    "deviceID d = n" .
  then show ?thesis using Some by (simp add: GetDeviceInfo_def GetDeviceInfoByUUID_def)
qed

lemma AddDevice_refused:
  assumes "dm_inv s" "deviceID d = '''' \<or> dm_get s (deviceID d) \<noteq> None"
  shows "\<exists>r. AddDevice s (Some d) p = Inr (s, r)"
proof (cases "dm_get s (deviceID d)")
  case (Some d')
  from dev_find_some [OF assms(1) Some] obtain q where "dev_find s (deviceID d) = Inr q" "q \<noteq> 0" .
  then show ?thesis by (auto simp: AddDevice_def)
qed (use assms in \<open>auto simp: AddDevice_def\<close>)

lemma AddDevice_done:
  assumes "dm_inv s" "deviceID d \<noteq> ''''" "dm_get s (deviceID d) = None" "p \<noteq> 0" "dev_objs s p = None"
  shows "\<exists>s' r. AddDevice s (Some d) p = Inr (s', r) \<and> dm_inv s' \<and> dev_list s' = dev_list s @ [p] \<and>
           dm_get s' = (dm_get s)(deviceID d \<mapsto> d)"
proof -
  let ?x = "dev_sql (sqlAddDevice (mysqlHandle s)) d
              (s\<lparr>dev_objs := (dev_objs s)(p \<mapsto> d), dev_list := dev_list s @ [p]\<rparr>) KEY_FALSE"
  have "AddDevice s (Some d) p = Inr ?x"
    using dev_find_none [OF assms(1,3)] assms(2,4) by (simp add: AddDevice_def)
  moreover have "p \<notin> set (dev_list s)" using dm_inv_ok [OF assms(1)] assms(5) by (auto simp: reg_ok_def)
  then have "dm_inv (fst ?x)" "dm_get (fst ?x) = (dm_get s)(deviceID d \<mapsto> d)"
    using reg_add [of deviceID "dev_objs s" "dev_list s" p d] assms by (simp_all add: dm_inv_def dm_get_def)
  ultimately show ?thesis by (intro exI [of _ "fst ?x"] exI [of _ "snd ?x"]) simp
qed

lemma DelDevice_refused:
  assumes "dm_inv s" "32 < length n \<or> n = '''' \<or> dm_get s n = None"
  shows "\<exists>r. DelDevice s n = Inr (s, r)"
  using assms dev_find_none [OF assms(1), of n] by (auto simp: DelDevice_def)

lemma DelDevice_done:
  assumes "dm_inv s" "dm_get s n = Some d" "length n \<le> 32" "n \<noteq> ''''"
  shows "\<exists>s' r. DelDevice s n = Inr (s', r) \<and> dm_inv s' \<and> dm_get s' = (dm_get s)(n := None)"
proof -
  from dev_find_some [OF assms(1,2)] obtain p where p: "dev_find s n = Inr p" "p \<in> set (dev_list s)" "p \<noteq> 0"
    "dev_objs s p = Some d" "deviceID d = n" .
  let ?x = "dev_sql (sqlDelDevice (mysqlHandle s)) n
              (s\<lparr>dev_list := remove1 p (dev_list s), dev_objs := (dev_objs s)(p := None)\<rparr>) KEY_FALSE"
  have "DelDevice s n = Inr ?x" using p assms(3,4) by (simp add: DelDevice_def)
  moreover have "dm_inv (fst ?x)" "dm_get (fst ?x) = (dm_get s)(n := None)"
    using reg_del [of deviceID "dev_objs s" "dev_list s" p d] assms(1) p by (simp_all add: dm_inv_def dm_get_def)
  ultimately show ?thesis by (intro exI [of _ "fst ?x"] exI [of _ "snd ?x"]) simp
qed

lemma SetDeviceInfo_done:
  assumes "dm_inv s" "dm_get s n = Some d" "n \<noteq> ''''" "deviceID d' = n"
  shows "\<exists>s' r. SetDeviceInfo s n (Some d') = Inr (s', r) \<and> dm_inv s' \<and> dm_get s' = (dm_get s)(n \<mapsto> d')"
proof -
  from dev_find_some [OF assms(1,2)] obtain p where p: "dev_find s n = Inr p" "p \<in> set (dev_list s)" "p \<noteq> 0"
    "dev_objs s p = Some d" "deviceID d = n" .
  let ?x = "dev_sql (sqlSetDeviceInfo (mysqlHandle s)) d' (s\<lparr>dev_objs := (dev_objs s)(p \<mapsto> d')\<rparr>) KEY_FALSE"
  have "SetDeviceInfo s n (Some d') = Inr ?x" using p assms(3) by (simp add: SetDeviceInfo_def)
  moreover have "dm_inv (fst ?x)" "dm_get (fst ?x) = (dm_get s)(n \<mapsto> d')"
    using reg_update [of deviceID "dev_objs s" "dev_list s" p d d'] assms p by (simp_all add: dm_inv_def dm_get_def)
  ultimately show ?thesis by (intro exI [of _ "fst ?x"] exI [of _ "snd ?x"]) simp
qed

section \<open>The devices as a registry\<close>

definition dev_added :: "'d DeviceListInner_T \<Rightarrow> DeviceStorageInfo_T \<Rightarrow> 'd DeviceListInner_T \<Rightarrow> bool" where
  "dev_added s d s' \<longleftrightarrow> (\<exists>p r. p \<noteq> 0 \<and> dev_objs s p = None \<and> AddDevice s (Some d) p = Inr (s', r) \<and>
     dev_list s' \<noteq> dev_list s)"

definition dev_deleted :: "'d DeviceListInner_T \<Rightarrow> string \<Rightarrow> 'd DeviceListInner_T \<Rightarrow> bool" where
  "dev_deleted s n s' \<longleftrightarrow> (\<exists>r. DelDevice s n = Inr (s', r) \<and> dev_list s' \<noteq> dev_list s)"

interpretation dev: keyed_registry dm_inv dm_get deviceID dev_added dev_deleted
proof (unfold_locales, goal_cases)
  case (1 s d s')
  then obtain p r where a: "p \<noteq> 0" "dev_objs s p = None" "AddDevice s (Some d) p = Inr (s', r)"
      "dev_list s' \<noteq> dev_list s" by (auto simp: dev_added_def)
  have n: "deviceID d \<noteq> ''''" "dm_get s (deviceID d) = None"
    using AddDevice_refused [OF 1(1), of d p] a(3,4) by fastforce+
  from AddDevice_done [OF 1(1) n a(1,2)] a(3) n show ?case by auto
next
  case (2 s n s')
  then obtain r where d: "DelDevice s n = Inr (s', r)" "dev_list s' \<noteq> dev_list s"
    by (auto simp: dev_deleted_def)
  then have n: "length n \<le> 32" "n \<noteq> ''''" "dm_get s n \<noteq> None"
    using DelDevice_refused [OF 2(1), of n] by fastforce+
  then obtain x where "dm_get s n = Some x" by auto
  from DelDevice_done [OF 2(1) this n(1,2)] d(1) n(3) show ?case by auto
qed

section \<open>Properties\<close>

definition demo_device :: DeviceStorageInfo_T where
  "demo_device = null_device\<lparr>deviceID := ''cam1'', deviceName := ''gate''\<rparr>"

definition demo_devices :: "unit DeviceListInner_T" where
  "demo_devices = \<lparr>dev_list = [], dev_objs = Map.empty, deviceExitFlag = True, mysqlHandle = no_sql, dev_db = ()\<rparr>"

lemma demo_devices_inv: "dm_inv demo_devices" "dm_get demo_devices n = None" "dev_objs demo_devices p = None"
  by (simp_all add: dm_inv_def dm_get_def demo_devices_def)

text \<open>
  C7. The life of a device: adding a device with a new, non-empty identifier stores it, so that
  \<open>GetDeviceInfo\<close> returns it; a second \<open>AddDevice\<close> of the identifier changes nothing; replacing
  its data through \<open>SetDeviceInfo\<close> is seen by the next \<open>GetDeviceInfo\<close>; and, if the identifier has at most 32
  characters, \<open>DelDevice\<close> removes it. Other devices are not affected by any of it.
\<close>

theorem device_life:
  assumes "dm_inv s" "deviceID d \<noteq> ''''" "dm_get s (deviceID d) = None" "p \<noteq> 0" "dev_objs s p = None"
    and "deviceID d' = deviceID d" "length (deviceID d) \<le> 32"
  shows "\<exists>s1 r1 s2 r2 s3 r3. AddDevice s (Some d) p = Inr (s1, r1) \<and>
           GetDeviceInfo s1 (deviceID d) info = Inr (d, KEY_TRUE) \<and>
           (\<exists>r. AddDevice s1 (Some d') q = Inr (s1, r)) \<and>
           SetDeviceInfo s1 (deviceID d) (Some d') = Inr (s2, r2) \<and>
           GetDeviceInfo s2 (deviceID d) info = Inr (d', KEY_TRUE) \<and>
           DelDevice s2 (deviceID d) = Inr (s3, r3) \<and>
           GetDeviceInfo s3 (deviceID d) info = Inr (info, KEY_NOTFOUND) \<and>
           dm_inv s3 \<and> dm_get s3 = dm_get s"
proof -
  obtain s1 r1 where s1: "AddDevice s (Some d) p = Inr (s1, r1)" "dm_inv s1"
      "dm_get s1 = (dm_get s)(deviceID d \<mapsto> d)"
    using AddDevice_done [OF assms(1-5)] by blast
  have g1: "dm_get s1 (deviceID d) = Some d" using s1(3) by simp
  obtain s2 r2 where s2: "SetDeviceInfo s1 (deviceID d) (Some d') = Inr (s2, r2)" "dm_inv s2"
      "dm_get s2 = (dm_get s1)(deviceID d \<mapsto> d')"
    using SetDeviceInfo_done [OF s1(2) g1 assms(2,6)] by blast
  have g2: "dm_get s2 (deviceID d) = Some d'" using s2(3) by simp
  obtain s3 r3 where s3: "DelDevice s2 (deviceID d) = Inr (s3, r3)" "dm_inv s3"
      "dm_get s3 = (dm_get s2)(deviceID d := None)"
    using DelDevice_done [OF s2(2) g2 assms(7,2)] by blast
  have "dm_get s3 = dm_get s" using assms(3) s1(3) s2(3) s3(3) by (auto simp: fun_eq_iff)
  then show ?thesis
    using s1 s2 s3 g1 g2 assms(2,3,6) AddDevice_refused [OF s1(2), of d' q] by (auto simp: GetDeviceInfo_spec)
qed

theorem device_life_witness:
  "\<exists>s1 r1. AddDevice demo_devices (Some demo_device) 7 = Inr (s1, r1) \<and>
           GetDeviceInfo s1 ''cam1'' null_device = Inr (demo_device, KEY_TRUE)"
  using device_life [OF demo_devices_inv(1) _ demo_devices_inv(2) _ demo_devices_inv(3),
      of demo_device 7 demo_device null_device 8]
  by (auto simp: demo_device_def)

text \<open>Sequences of additions, each at an address \<^verbatim>\<open>malloc\<close> may return, and deletions.\<close>

datatype dev_op = DAdd DeviceStorageInfo_T nat | DDel string

fun dev_exec :: "'d DeviceListInner_T \<Rightarrow> dev_op list \<Rightarrow> fault + 'd DeviceListInner_T" where
  "dev_exec s [] = Inr s"
| "dev_exec s (DAdd d p # ops) =
     (if p \<noteq> 0 \<and> dev_objs s p = None then rbind (AddDevice s (Some d) p) (\<lambda>(s, _). dev_exec s ops) else dev_exec s ops)"
| "dev_exec s (DDel n # ops) = rbind (DelDevice s n) (\<lambda>(s, _). dev_exec s ops)"

lemma dev_exec_keeps:
  assumes "dm_inv s" "dm_get s n = Some d" "32 < length n" "dev_exec s ops = Inr s'"
  shows "dm_get s' n = Some d"
  using assms
proof (induction s ops rule: dev_exec.induct)
  case (2 s x p ops)
  show ?case
  proof (cases "dev_objs s p = None \<and> deviceID x \<noteq> '''' \<and> dm_get s (deviceID x) = None \<and> p \<noteq> 0")
    case True
    with AddDevice_done [OF 2(3), of x p] obtain s1 r where
        "AddDevice s (Some x) p = Inr (s1, r)" "dm_inv s1" "dm_get s1 = (dm_get s)(deviceID x \<mapsto> x)" by auto
    moreover from this(3) 2(4) True have "dm_get s1 n = Some d" by auto
    ultimately show ?thesis using 2 True by auto
  next
    case False
    then have "p \<noteq> 0 \<and> dev_objs s p = None \<Longrightarrow> \<exists>r. AddDevice s (Some x) p = Inr (s, r)"
      using AddDevice_refused [OF 2(3), of x p] by auto
    with 2 show ?thesis by (cases "p \<noteq> 0 \<and> dev_objs s p = None") auto
  qed
next
  case (3 s m ops)
  show ?case
  proof (cases "length m \<le> 32 \<and> m \<noteq> '''' \<and> dm_get s m \<noteq> None")
    case True
    then obtain y where "dm_get s m = Some y" by auto
    from DelDevice_done [OF 3(2) this] True obtain s1 r where
        "DelDevice s m = Inr (s1, r)" "dm_inv s1" "dm_get s1 = (dm_get s)(m := None)" by blast
    moreover from this(3) 3(3,4) True have "dm_get s1 n = Some d" by auto
    ultimately show ?thesis using 3 True by auto
  next
    case False
    then obtain r where "DelDevice s m = Inr (s, r)" using DelDevice_refused [OF 3(2), of m] by auto
    with 3 show ?thesis by auto
  qed
qed simp

text \<open>
  A defect: a device whose identifier has more than 32 characters (the record has room for
  127 and \<open>AddDevice\<close> accepts them) can never be deleted: it survives every sequence of
  \<open>AddDevice\<close> and \<open>DelDevice\<close> calls.
\<close>

theorem long_id_undeletable:
  assumes "dm_inv s" "deviceID d \<noteq> ''''" "dm_get s (deviceID d) = None" "p \<noteq> 0" "dev_objs s p = None"
    and "32 < length (deviceID d)"
  shows "\<exists>s1 r. AddDevice s (Some d) p = Inr (s1, r) \<and>
           (\<forall>ops s2. dev_exec s1 ops = Inr s2 \<longrightarrow> dm_get s2 (deviceID d) = Some d)"
  using AddDevice_done [OF assms(1-5)] dev_exec_keeps [OF _ _ assms(6)] by fastforce

theorem long_id_undeletable_witness:
  "\<exists>s1 r. AddDevice demo_devices (Some (demo_device\<lparr>deviceID := replicate 40 CHR ''x''\<rparr>)) 7 = Inr (s1, r) \<and>
     (\<forall>s2. dev_exec s1 [DDel (replicate 40 CHR ''x'')] = Inr s2 \<longrightarrow> dm_get s2 (replicate 40 CHR ''x'') \<noteq> None)"
  using long_id_undeletable [OF demo_devices_inv(1) _ demo_devices_inv(2) _ demo_devices_inv(3),
      of "demo_device\<lparr>deviceID := replicate 40 CHR ''x''\<rparr>" 7] by fastforce

end
