(* ===== verification/JsonMap.thy ===== *)
theory JsonMap
  imports Config UsrManage DeviceManage
begin

text \<open>
  \<^verbatim>\<open>src/ExtLibs/Config/jsonmap.c\<close>: the mapping between the records of the modules and JSON items, for
  the local device, the accounts, the table of devices and the alarm levels; and the module for the
  local device, \<^verbatim>\<open>src/Modules/DeviceInfo\<close>, which keeps its record in the configuration.

  A sequence of calls of \<^verbatim>\<open>cJSON_AddStringToObject\<close> and \<^verbatim>\<open>cJSON_AddNumberToObject\<close> on one object is the list
  of its fields; character arrays are the buffers of \<open>CString\<close> where the code writes into them in
  place.
\<close>

section \<open>Adding and reading members\<close>

definition cJSON_AddStringToObject :: "cJSON \<Rightarrow> string \<Rightarrow> string \<Rightarrow> cJSON" where
  "cJSON_AddStringToObject ob nm s = cJSON_AddItemToObject ob nm (Some (cJSON_CreateString s))"

definition cJSON_AddNumberToObject :: "cJSON \<Rightarrow> string \<Rightarrow> int \<Rightarrow> cJSON" where
  "cJSON_AddNumberToObject ob nm i = cJSON_AddItemToObject ob nm (Some (cJSON_CreateNumber (of_int i)))"

datatype field = FStr string | FBuf string | FNum int

fun add_fields :: "cJSON \<Rightarrow> (string \<times> field) list \<Rightarrow> fault + cJSON" where
  "add_fields ob [] = Inr ob"
| "add_fields ob ((nm, f) # fs) = (case f of
     FStr s \<Rightarrow> add_fields (cJSON_AddStringToObject ob nm s) fs
   | FBuf b \<Rightarrow> rbind (c_str b 0) (\<lambda>s. add_fields (cJSON_AddStringToObject ob nm s) fs)
   | FNum i \<Rightarrow> add_fields (cJSON_AddNumberToObject ob nm i) fs)"

text \<open>The text of a member, read into a cleared buffer of \<open>sz\<close> characters; empty when it is missing.\<close>

definition get_text :: "cJSON option \<Rightarrow> string \<Rightarrow> nat \<Rightarrow> fault + string" where
  "get_text data nm sz =
     rbind (cJSON_GetObjectItemValueString data (Some nm) (replicate sz NUL) sz) (\<lambda>(b, _). c_str b 0)"

section \<open>The local device\<close>

record DeviceInfo_T =
  uuid :: string
  city :: string
  country :: string
  facturer :: string
  model :: string
  serialNumber :: string
  softwareVer :: string
  name :: string
  devType :: int
  coverDay :: int
  pullInterval :: int
  faceThreshold :: int

definition null_info :: DeviceInfo_T where
  "null_info = \<lparr>uuid = replicate 32 NUL, city = replicate 64 NUL, country = replicate 64 NUL, facturer = replicate 64 NUL,
     model = replicate 64 NUL, serialNumber = replicate 64 NUL, softwareVer = replicate 128 NUL, name = replicate 128 NUL,
     devType = 0, coverDay = 0, pullInterval = 0, faceThreshold = 0\<rparr>"

definition JsonMapDeviceInfoMake :: "DeviceInfo_T option \<Rightarrow> fault + cJSON option" where
  "JsonMapDeviceInfoMake info = (case info of None \<Rightarrow> Inr None
     | Some i \<Rightarrow> rbind (add_fields cJSON_CreateObject
         [(''manufacturer'', FBuf (facturer i)), (''model'', FBuf (model i)), (''uuid'', FBuf (uuid i)),
          (''serialNumber'', FBuf (serialNumber i)), (''softwarever'', FBuf (softwareVer i)), (''name'', FBuf (name i)),
          (''country'', FBuf (country i)), (''city'', FBuf (city i)), (''devType'', FNum (devType i)),
          (''coverday'', FNum (coverDay i)), (''pullinterval'', FNum (pullInterval i)), (''facethreshold'', FNum (faceThreshold i))])
         (\<lambda>c. Inr (Some c)))"

text \<open>
  A string goes through a cleared temporary of the size of the member and replaces the member only
  when it is there; a number replaces it only when it is not negative.
\<close>

definition set_text :: "cJSON \<Rightarrow> string \<Rightarrow> nat \<Rightarrow> string \<Rightarrow> fault + string" where
  "set_text conf nm sz old =
     rbind (cJSON_GetObjectItemValueString (Some conf) (Some nm) (replicate sz NUL) sz) (\<lambda>(tmp, ret).
     if ret \<noteq> KEY_FALSE then rbind (c_str tmp 0) (\<lambda>t. snprintf old sz t) else Inr old)"

definition set_num :: "cJSON \<Rightarrow> string \<Rightarrow> int \<Rightarrow> int" where
  "set_num conf nm old = (let v = cJSON_GetObjectItemValueInt (Some conf) (Some nm) in if KEY_FALSE < v then v else old)"

definition JsonMapDeviceInfoPares :: "cJSON option \<Rightarrow> DeviceInfo_T option \<Rightarrow> fault + DeviceInfo_T option \<times> int" where
  "JsonMapDeviceInfoPares conf info = (case (conf, info) of
       (Some c, Some i) \<Rightarrow>
         rbind (set_text c ''manufacturer'' 64 (facturer i)) (\<lambda>v. let i = i\<lparr>facturer := v\<rparr> in
         rbind (set_text c ''model'' 64 (model i)) (\<lambda>v. let i = i\<lparr>model := v\<rparr> in
         rbind (set_text c ''serialNumber'' 64 (serialNumber i)) (\<lambda>v. let i = i\<lparr>serialNumber := v\<rparr> in
         rbind (set_text c ''softwarever'' 128 (softwareVer i)) (\<lambda>v. let i = i\<lparr>softwareVer := v\<rparr> in
         rbind (set_text c ''name'' 128 (name i)) (\<lambda>v. let i = i\<lparr>name := v\<rparr> in
         rbind (set_text c ''city'' 64 (city i)) (\<lambda>v. let i = i\<lparr>city := v\<rparr> in
         rbind (set_text c ''country'' 64 (country i)) (\<lambda>v. let i = i\<lparr>country := v\<rparr> in
         rbind (set_text c ''uuid'' 32 (uuid i)) (\<lambda>v. let i = i\<lparr>uuid := v\<rparr> in
         Inr (Some (i\<lparr>devType := set_num c ''devType'' (devType i), coverDay := set_num c ''coverday'' (coverDay i),
           pullInterval := set_num c ''pullinterval'' (pullInterval i),
           faceThreshold := set_num c ''facethreshold'' (faceThreshold i)\<rparr>), KEY_TRUE)))))))))
     | _ \<Rightarrow> Inr (info, KEY_FALSE))"

definition D_CONFDEVINFO_STR :: string where "D_CONFDEVINFO_STR = ''ConfDevInfo''"

definition DevInfoConfigSet :: "(rat \<Rightarrow> string) \<Rightarrow> bool \<Rightarrow> DeviceInfo_T \<Rightarrow> Conf_T \<Rightarrow> fault + Conf_T \<times> int" where
  "DevInfoConfigSet fd writable info s =
     rbind (JsonMapDeviceInfoMake (Some info)) (\<lambda>confDevice. case confDevice of None \<Rightarrow> Inr (s, KEY_FALSE)
       | Some c \<Rightarrow> ConfigManageSet fd writable (Some c) (Some D_CONFDEVINFO_STR) s)"

definition default_info :: DeviceInfo_T where
  "default_info = null_info\<lparr>facturer := ''GaoZhi'' @ replicate 58 NUL, model := ''AIMP v1.0'' @ replicate 55 NUL,
     serialNumber := ''aswQQx142zZs11Qa'' @ replicate 48 NUL, softwareVer := ''v1.0.1'' @ replicate 122 NUL,
     name := ''AIMP'' @ replicate 124 NUL, country := ''china'' @ replicate 59 NUL, city := ''changsha'' @ replicate 56 NUL,
     devType := 2, coverDay := 1, pullInterval := 5, faceThreshold := 70\<rparr>"

definition DevInfoConfigDefault :: "(rat \<Rightarrow> string) \<Rightarrow> bool \<Rightarrow> Conf_T \<Rightarrow> fault + Conf_T \<times> int" where
  "DevInfoConfigDefault fd writable s =
     rbind (DevInfoConfigSet fd writable default_info s) (\<lambda>(s, _). Inr (s, KEY_TRUE))"

definition DevInfoConfigGet ::
    "(rat \<Rightarrow> string) \<Rightarrow> bool \<Rightarrow> DeviceInfo_T \<Rightarrow> Conf_T \<Rightarrow> (Conf_T \<times> DeviceInfo_T \<times> int) run" where
  "DevInfoConfigGet fd writable info s =
     run_bind (ConfigManageGet fd (Some D_CONFDEVINFO_STR) s) (\<lambda>c.
     run_bind (Some (JsonMapDeviceInfoPares c (Some info))) (\<lambda>(i, ret).
     if ret = KEY_FALSE then
       run_bind (Some (DevInfoConfigDefault fd writable s)) (\<lambda>(s, _).
       run_bind (ConfigManageGet fd (Some D_CONFDEVINFO_STR) s) (\<lambda>c.
       run_bind (Some (JsonMapDeviceInfoPares c i)) (\<lambda>(i, ret). Some (Inr (s, the i, ret)))))
     else Some (Inr (s, the i, KEY_TRUE))))"

text \<open>\<^verbatim>\<open>deviceinfo.c\<close>: the ranges are checked when the record is set.\<close>

definition LocalGetDeviceInfo :: "(rat \<Rightarrow> string) \<Rightarrow> bool \<Rightarrow> DeviceInfo_T \<Rightarrow> Conf_T \<Rightarrow> (Conf_T \<times> DeviceInfo_T \<times> int) run" where
  "LocalGetDeviceInfo fd writable info s = DevInfoConfigGet fd writable info s"

definition LocalSetDeviceInfo :: "(rat \<Rightarrow> string) \<Rightarrow> bool \<Rightarrow> DeviceInfo_T \<Rightarrow> Conf_T \<Rightarrow> fault + Conf_T \<times> int" where
  "LocalSetDeviceInfo fd writable info s =
     (if coverDay info > 7 \<or> coverDay info < 1 then Inr (s, KEY_FALSE)
      else if pullInterval info > 10 \<or> pullInterval info < 1 then Inr (s, KEY_FALSE)
      else if faceThreshold info > 100 \<or> faceThreshold info < 1 then Inr (s, KEY_FALSE)
      else DevInfoConfigSet fd writable info s)"

section \<open>Accounts\<close>

definition null_user :: UsrInfo_T where
  "null_user = \<lparr>userLevel = 0, usrname = [], passWord = [], countrycode = [], customname = [], usrID = 0\<rparr>"

text \<open>The level is an \<^verbatim>\<open>unsigned\<close> enumeration. The record \<^verbatim>\<open>info\<close> of every caller is cleared before.\<close>

definition JsonMapUsrInfoPares :: "cJSON option \<Rightarrow> fault + UsrInfo_T" where
  "JsonMapUsrInfoPares data =
     rbind (get_text data ''username'' 129) (\<lambda>n.
     rbind (get_text data ''password'' 129) (\<lambda>p.
     rbind (get_text data ''countrycode'' 129) (\<lambda>c.
     let level = cJSON_GetObjectItemValueInt data (Some ''level'') in
     Inr (null_user\<lparr>usrname := n, passWord := p, countrycode := c,
            userLevel := (if level \<noteq> - 1 then nat (level mod 2 ^ 32) else 0)\<rparr>))))"

definition JsonMapUsrPasswdPares :: "cJSON option \<Rightarrow> fault + string \<times> string \<times> string" where
  "JsonMapUsrPasswdPares data =
     rbind (get_text data ''username'' 128) (\<lambda>n.
     rbind (get_text data ''oldpassword'' 128) (\<lambda>old.
     rbind (get_text data ''newpassword'' 128) (\<lambda>new. Inr (n, old, new))))"

definition JsonMapGetUserInfoMake :: "UsrInfo_T \<Rightarrow> fault + cJSON" where
  "JsonMapGetUserInfoMake info = add_fields cJSON_CreateObject
     [(''countrycode'', FStr (countrycode info)), (''nickname'', FStr (customname info)), (''username'', FStr (usrname info))]"

text \<open>
  Lists of records: an array of one object for each record, filled after it was added, below a member of the
  new item \<^verbatim>\<open>data\<close>.
\<close>

fun add_items :: "cJSON \<Rightarrow> (string \<times> field) list list \<Rightarrow> fault + cJSON" where
  "add_items a [] = Inr a"
| "add_items a (fs # fss) =
     rbind (add_fields cJSON_CreateObject fs) (\<lambda>x. add_items (cJSON_AddItemToArray a (Some x)) fss)"

definition add_list :: "cJSON \<Rightarrow> string \<Rightarrow> (string \<times> field) list list \<Rightarrow> fault + cJSON" where
  "add_list root' nm fss =
     rbind (add_items cJSON_CreateArray fss) (\<lambda>a.
     Inr (cJSON_AddItemToObject root' ''data'' (Some (cJSON_AddItemToObject cJSON_CreateObject nm (Some a)))))"

definition JsonMapUsrInfoListMake :: "cJSON \<Rightarrow> UsrInfo_T list \<Rightarrow> fault + cJSON \<times> int" where
  "JsonMapUsrInfoListMake root' info =
     rbind (add_list root' ''usernamelist'' (map (\<lambda>u. [(''username'', FStr (usrname u))]) info)) (\<lambda>c. Inr (c, 0))"

section \<open>Devices\<close>

definition JsonMapCameraInfoMake :: "cJSON option \<Rightarrow> string \<Rightarrow> DeviceStorageInfo_T option \<Rightarrow> fault + cJSON option \<times> int" where
  "JsonMapCameraInfoMake respData devid info = (case (respData, info) of
       (Some r, Some d) \<Rightarrow>
         rbind (add_fields cJSON_CreateObject [(''cameraid'', FStr devid), (''deviceonline'', FNum (int (onlineStatus d))),
           (''devicename'', FStr (deviceName d)), (''devicemodel'', FNum (int (deviceModel d)))]) (\<lambda>data.
         Inr (Some (cJSON_AddItemToObject r ''data'' (Some data)), KEY_TRUE))
     | _ \<Rightarrow> Inr (respData, KEY_FALSE))"

definition JsonMapCameraInfoListMake :: "cJSON \<Rightarrow> DeviceStorageInfo_T list \<Rightarrow> fault + cJSON \<times> int" where
  "JsonMapCameraInfoListMake root' info =
     rbind (add_list root' ''camerainfolist''
       (map (\<lambda>d. [(''cameraid'', FStr (deviceID d)), (''devicemodel'', FNum (int (deviceModel d)))]) info)) (\<lambda>c. Inr (c, 0))"

definition device_fields :: "DeviceStorageInfo_T \<Rightarrow> (string \<times> field) list" where
  "device_fields d = [(''deviceid'', FStr (deviceID d)), (''devicename'', FStr (deviceName d)),
     (''devicesoftwarever'', FStr (deviceSoftwareVer d)), (''deviceipaddr'', FStr (deviceIpaddr d)),
     (''devicestatus'', FNum (int (onlineStatus d)))]"

definition JsonMapGetDeviceInfoList :: "cJSON \<Rightarrow> DeviceStorageInfo_T list \<Rightarrow> fault + cJSON \<times> int" where
  "JsonMapGetDeviceInfoList root' deviceList =
     rbind (add_list root' ''devicelist'' (map device_fields deviceList)) (\<lambda>c. Inr (c, KEY_TRUE))"

text \<open>The identifiers are written to the buffers of an array of the caller.\<close>

fun camera_ids :: "cJSON list \<Rightarrow> string list \<Rightarrow> fault + string list" where
  "camera_ids [] bs = Inr bs"
| "camera_ids (c # cs) [] = Inl OutOfBounds"
| "camera_ids (c # cs) (b # bs) =
     rbind (cJSON_GetObjectItemValueString (Some c) (Some ''cameraid'') b 128) (\<lambda>(b, _).
     rbind (camera_ids cs bs) (\<lambda>bs. Inr (b # bs)))"

definition JsonMapCameraInfoArraryPares :: "cJSON \<Rightarrow> string list \<Rightarrow> fault + string list \<times> int" where
  "JsonMapCameraInfoArraryPares data deviceId = (case cJSON_GetObjectItem data ''cameralist'' of None \<Rightarrow> Inl NullDeref
     | Some l \<Rightarrow> rbind (camera_ids (child l) deviceId) (\<lambda>bs. Inr (bs, int (cJSON_GetArraySize l))))"

definition JsonMapLoginOutMake :: "(rat \<Rightarrow> string) \<Rightarrow> string \<Rightarrow> fault + string" where
  "JsonMapLoginOutMake fd msg =
     rbind (add_fields cJSON_CreateObject [(''cmd'', FStr ''loginoutmainserver''), (''method'', FStr ''response''),
       (''statuscode'', FNum 200)]) (\<lambda>c.
     rbind (cJSON_PrintUnformatted fd c) (\<lambda>out. case out of None \<Rightarrow> Inl NullDeref | Some t \<Rightarrow> sprintf msg t))"

section \<open>Alarm levels\<close>

record DeviceAlarmParam_T =
  smokeLev :: int
  hightempLev :: int

definition JsonMapHkDeviceAlarmInfoMake :: "DeviceAlarmParam_T option \<Rightarrow> fault + cJSON option" where
  "JsonMapHkDeviceAlarmInfoMake info = (case info of None \<Rightarrow> Inr None
     | Some i \<Rightarrow> rbind (add_fields cJSON_CreateObject [(''smoke'', FNum (smokeLev i)), (''hightemp'', FNum (hightempLev i))])
         (\<lambda>c. Inr (Some c)))"

definition JsonMapDeviceAlarmInfoPares :: "cJSON option \<Rightarrow> DeviceAlarmParam_T option \<Rightarrow> DeviceAlarmParam_T option \<times> int" where
  "JsonMapDeviceAlarmInfoPares conf info = (case (conf, info) of
       (Some c, Some i) \<Rightarrow> (Some (i\<lparr>smokeLev := cJSON_GetObjectItemValueInt conf (Some ''smoke''),
          hightempLev := cJSON_GetObjectItemValueInt conf (Some ''hightemp'')\<rparr>), KEY_TRUE)
     | _ \<Rightarrow> (info, KEY_FALSE))"

text \<open>\<^verbatim>\<open>src/Modules/HkSdkManage/hklistconf.c\<close>\<close>

definition D_CONFDEVVICEALARMLEAVE_STR :: string where "D_CONFDEVVICEALARMLEAVE_STR = ''ConfDeviceAlarmLeave''"

definition HkDeviceAlarmConfigDefault :: "(rat \<Rightarrow> string) \<Rightarrow> bool \<Rightarrow> Conf_T \<Rightarrow> fault + Conf_T \<times> int" where
  "HkDeviceAlarmConfigDefault fd writable s =
     rbind (JsonMapHkDeviceAlarmInfoMake (Some \<lparr>smokeLev = 1, hightempLev = 1\<rparr>)) (\<lambda>c. case c of None \<Rightarrow> Inr (s, KEY_FALSE)
       | Some c \<Rightarrow> ConfigManageSet fd writable (Some c) (Some D_CONFDEVVICEALARMLEAVE_STR) s)"

definition HkDeviceAlarmConfigGet ::
    "(rat \<Rightarrow> string) \<Rightarrow> bool \<Rightarrow> DeviceAlarmParam_T option \<Rightarrow> Conf_T \<Rightarrow> (Conf_T \<times> DeviceAlarmParam_T option \<times> int) run" where
  "HkDeviceAlarmConfigGet fd writable info s = (case info of None \<Rightarrow> Some (Inr (s, None, KEY_FALSE))
     | Some i \<Rightarrow> run_bind (ConfigManageGet fd (Some D_CONFDEVVICEALARMLEAVE_STR) s) (\<lambda>a.
         run_bind (case a of Some _ \<Rightarrow> Some (Inr (s, a))
           | None \<Rightarrow> run_bind (Some (HkDeviceAlarmConfigDefault fd writable s)) (\<lambda>(s, _).
               run_bind (ConfigManageGet fd (Some D_CONFDEVVICEALARMLEAVE_STR) s) (\<lambda>a. Some (Inr (s, a))))) (\<lambda>(s, a).
         Some (Inr (s, fst (JsonMapDeviceAlarmInfoPares a info), KEY_TRUE)))))"

definition HkDeviceAlarmConfigSet ::
    "(rat \<Rightarrow> string) \<Rightarrow> bool \<Rightarrow> DeviceAlarmParam_T option \<Rightarrow> Conf_T \<Rightarrow> (Conf_T \<times> int) run" where
  "HkDeviceAlarmConfigSet fd writable info s = (case info of None \<Rightarrow> Some (Inr (s, KEY_FALSE))
     | Some i \<Rightarrow> run_bind (ConfigManageGet fd (Some D_CONFDEVVICEALARMLEAVE_STR) s) (\<lambda>a. case a of
         None \<Rightarrow> Some (Inr (s, KEY_FALSE))
       | Some c \<Rightarrow>
         let c = cJSON_ReplaceItemInObject c ''smoke'' (cJSON_CreateNumber (of_int (smokeLev i)));
             c = cJSON_ReplaceItemInObject c ''hightemp'' (cJSON_CreateNumber (of_int (hightempLev i))) in
         run_bind (Some (ConfigManageSet fd writable (Some c) (Some D_CONFDEVVICEALARMLEAVE_STR) s)) (\<lambda>(s, _).
         Some (Inr (s, KEY_FALSE)))))"

text \<open>The chained comparisons compare the outcome 0 or 1 of the first with the second bound.\<close>

definition c_bool :: "bool \<Rightarrow> int" where "c_bool b = (if b then 1 else 0)"

definition GetGradeLevel :: "int \<Rightarrow> int" where
  "GetGradeLevel gradescore =
     (if 0 = gradescore then 0
      else if c_bool (0 < gradescore) < 250 then 1
      else if c_bool (249 < gradescore) < 500 then 2
      else if c_bool (499 < gradescore) < 750 then 3
      else if c_bool (749 < gradescore) < 1000 then 4
      else if gradescore > 1000 then 5 else 0)"

section \<open>Fields as values\<close>

text \<open>The value of a field, and when it has one that can be written and read back.\<close>

fun field_ok :: "field \<Rightarrow> bool" where
  "field_ok (FStr s) = (NUL \<notin> set s)"
| "field_ok (FBuf b) = (NUL \<in> set b)"
| "field_ok (FNum i) = (- (2 ^ 31) \<le> i \<and> i < 2 ^ 31)"

definition text_of :: "string \<Rightarrow> string" where
  "text_of b = takeWhile (\<lambda>c. c \<noteq> NUL) b"

fun field_value :: "field \<Rightarrow> json" where
  "field_value (FStr s) = JStr s"
| "field_value (FBuf b) = JStr (text_of b)"
| "field_value (FNum i) = JNum i"

definition members :: "(string \<times> field) list \<Rightarrow> (string \<times> json) list" where
  "members fs = map (map_prod id field_value) fs"

lemma members_simps [simp]: "members [] = []" "members ((n, f) # fs) = (n, field_value f) # members fs"
  by (simp_all add: members_def)

lemma text_of_no_NUL [simp]: "NUL \<notin> set (text_of b)"
  by (auto simp: text_of_def dest: set_takeWhileD)

lemma c_str_text: "NUL \<in> set b \<Longrightarrow> c_str b 0 = Inr (text_of b)"
  by (simp add: c_str_def text_of_def)

lemma add_string_repr: "cJSON_AddStringToObject (repr (JObj ms)) nm s = repr (JObj (ms @ [(nm, JStr s)]))"
  by (simp only: cJSON_AddStringToObject_def repr_string repr_add)

lemma add_number_repr:
  "- (2 ^ 31) \<le> i \<Longrightarrow> i < 2 ^ 31 \<Longrightarrow> cJSON_AddNumberToObject (repr (JObj ms)) nm i = repr (JObj (ms @ [(nm, JNum i)]))"
  by (simp only: cJSON_AddNumberToObject_def repr_number repr_add)

lemma add_fields_repr:
  "list_all (field_ok \<circ> snd) fs \<Longrightarrow> add_fields (repr (JObj ms)) fs = Inr (repr (JObj (ms @ members fs)))"
proof (induction fs arbitrary: ms)
  case (Cons nf fs)
  obtain n f where nf: "nf = (n, f)" by (cases nf)
  show ?case
    by (cases f; insert Cons; simp only: nf add_fields.simps field.case list.pred_inject comp_apply snd_conv field_ok.simps
        c_str_text rbind_simps add_string_repr add_number_repr members_simps field_value.simps append_assoc append.simps)
qed simp

lemma create_fields: "list_all (field_ok \<circ> snd) fs \<Longrightarrow> add_fields cJSON_CreateObject fs = Inr (repr (JObj (members fs)))"
  unfolding repr_empty using add_fields_repr [of fs "[]"] by simp

lemma members_ok:
  "list_all (field_ok \<circ> snd) fs \<Longrightarrow> list_all (\<lambda>n. NUL \<notin> set n) (map fst fs) \<Longrightarrow> json_ok (JObj (members fs))"
proof (induction fs)
  case (Cons nf fs)
  then show ?case by (cases nf; cases "snd nf") auto
qed simp

text \<open>Reading a member.\<close>

lemma set_name_sel [simp]: "valuestring (set_name n c) = valuestring c" "valueint (set_name n c) = valueint c"
    "child (set_name n c) = child c" "ctype (set_name n c) = ctype c"
  by (cases c; simp)+

lemma get_int_member:
  "cJSON_GetObjectItemValueInt (Some (repr (JObj ms))) (Some nm) = (case member ms nm of None \<Rightarrow> - 1 | Some j \<Rightarrow> valueint (repr j))"
  using repr_get [of ms nm] by (auto simp: cJSON_GetObjectItemValueInt_def simp del: repr.simps split: option.splits)

lemma snprintf_text:
  assumes "NUL \<notin> set t" "0 < sz" "sz \<le> length b"
  shows "\<exists>b'. snprintf b sz t = Inr b' \<and> text_of b' = take (sz - 1) t \<and> NUL \<in> set b' \<and> length b' = length b"
proof -
  have "length (take (sz - 1) t @ [NUL]) \<le> length b" using assms(2,3) by simp
  moreover have "NUL \<notin> set (take (sz - 1) t)" using assms(1) by (meson in_set_takeD)
  ultimately show ?thesis using assms(2) by (auto simp: snprintf_def put_all_def text_of_def)
qed

lemma get_string_member:
  assumes "member ms nm = Some (JStr t)" "NUL \<notin> set t" "0 < sz" "sz \<le> length b"
  shows "\<exists>b'. cJSON_GetObjectItemValueString (Some (repr (JObj ms))) (Some nm) b sz = Inr (b', 0) \<and>
    text_of b' = take (sz - 1) t \<and> NUL \<in> set b' \<and> length b' = length b"
proof -
  obtain k where "cJSON_GetObjectItem (repr (JObj ms)) nm = Some (set_name (Some k) (repr (JStr t)))"
    using repr_get [of ms nm] assms(1) by auto
  then show ?thesis using snprintf_text [OF assms(2-4)] by (auto simp: cJSON_GetObjectItemValueString_def simp del: repr.simps) auto
qed

lemma get_text_member:
  assumes "member ms nm = Some (JStr t)" "NUL \<notin> set t" "length t < sz"
  shows "get_text (Some (repr (JObj ms))) nm sz = Inr t"
proof -
  obtain b where "cJSON_GetObjectItemValueString (Some (repr (JObj ms))) (Some nm) (replicate sz NUL) sz = Inr (b, 0)"
    "text_of b = t" "NUL \<in> set b"
    using get_string_member [OF assms(1,2), of sz "replicate sz NUL"] assms(3) by auto
  then show ?thesis by (simp add: get_text_def c_str_text del: repr.simps)
qed

lemma set_text_member:
  assumes "member ms nm = Some (JStr t)" "NUL \<notin> set t" "length t < sz" "length old = sz"
  shows "\<exists>b. set_text (repr (JObj ms)) nm sz old = Inr b \<and> text_of b = t \<and> NUL \<in> set b \<and> length b = sz"
proof -
  obtain b where b: "cJSON_GetObjectItemValueString (Some (repr (JObj ms))) (Some nm) (replicate sz NUL) sz = Inr (b, 0)"
    "text_of b = t" "NUL \<in> set b"
    using get_string_member [OF assms(1,2), of sz "replicate sz NUL"] assms(3) by auto
  then show ?thesis using snprintf_text [OF assms(2), of sz old] assms(3,4)
    by (simp add: set_text_def c_str_text del: repr.simps)
qed

lemma grade_level: "GetGradeLevel n = (if n = 0 then 0 else 1)"
  by (simp add: GetGradeLevel_def c_bool_def)

section \<open>The local device is stored and restored\<close>

definition buf_ok :: "nat \<Rightarrow> string \<Rightarrow> bool" where
  "buf_ok sz b \<longleftrightarrow> length b = sz \<and> NUL \<in> set b"

definition info_ok :: "DeviceInfo_T \<Rightarrow> bool" where
  "info_ok i \<longleftrightarrow> buf_ok 32 (uuid i) \<and> buf_ok 64 (city i) \<and> buf_ok 64 (country i) \<and> buf_ok 64 (facturer i) \<and>
     buf_ok 64 (model i) \<and> buf_ok 64 (serialNumber i) \<and> buf_ok 128 (softwareVer i) \<and> buf_ok 128 (name i)"

definition in_range :: "DeviceInfo_T \<Rightarrow> bool" where
  "in_range i \<longleftrightarrow> 1 \<le> coverDay i \<and> coverDay i \<le> 7 \<and> 1 \<le> pullInterval i \<and> pullInterval i \<le> 10 \<and>
     1 \<le> faceThreshold i \<and> faceThreshold i \<le> 100"

text \<open>The same texts and numbers; what lies behind the texts in their arrays does not matter.\<close>

definition same_info :: "DeviceInfo_T \<Rightarrow> DeviceInfo_T \<Rightarrow> bool" where
  "same_info i k \<longleftrightarrow>
     map text_of [uuid i, city i, country i, facturer i, model i, serialNumber i, softwareVer i, name i] =
     map text_of [uuid k, city k, country k, facturer k, model k, serialNumber k, softwareVer k, name k] \<and>
     [devType i, coverDay i, pullInterval i, faceThreshold i] = [devType k, coverDay k, pullInterval k, faceThreshold k]"

lemma length_text_of: "buf_ok sz b \<Longrightarrow> length (text_of b) < sz"
proof -
  have "NUL \<in> set b \<Longrightarrow> length (takeWhile (\<lambda>c. c \<noteq> NUL) b) < length b" by (induction b) auto
  then show "buf_ok sz b \<Longrightarrow> ?thesis" by (auto simp: buf_ok_def text_of_def)
qed

lemma c_tolower_lower: "\<not> (65 \<le> (of_char c :: nat) \<and> (of_char c :: nat) \<le> 90) \<Longrightarrow> c_tolower c = c"
  by (auto simp: c_tolower_def)

lemma c_tolower_upper: "c_tolower CHR ''N'' = CHR ''n''" "c_tolower CHR ''T'' = CHR ''t''"
  by code_simp+

definition info_fields :: "DeviceInfo_T \<Rightarrow> (string \<times> field) list" where
  "info_fields i =
     [(''manufacturer'', FBuf (facturer i)), (''model'', FBuf (model i)), (''uuid'', FBuf (uuid i)),
      (''serialNumber'', FBuf (serialNumber i)), (''softwarever'', FBuf (softwareVer i)), (''name'', FBuf (name i)),
      (''country'', FBuf (country i)), (''city'', FBuf (city i)), (''devType'', FNum (devType i)),
      (''coverday'', FNum (coverDay i)), (''pullinterval'', FNum (pullInterval i)), (''facethreshold'', FNum (faceThreshold i))]"

lemma info_fields_ok:
  assumes "info_ok i" "in_range i" "0 \<le> devType i" "devType i < 2 ^ 31"
  shows "list_all (field_ok \<circ> snd) (info_fields i)" "json_ok (JObj (members (info_fields i)))"
proof -
  show a: "list_all (field_ok \<circ> snd) (info_fields i)"
    using assms by (simp add: info_fields_def info_ok_def buf_ok_def in_range_def)
  show "json_ok (JObj (members (info_fields i)))" by (rule members_ok [OF a]) (simp add: info_fields_def)
qed

lemma info_members:
  "member (members (info_fields i)) ''manufacturer'' = Some (JStr (text_of (facturer i)))"
  "member (members (info_fields i)) ''model'' = Some (JStr (text_of (model i)))"
  "member (members (info_fields i)) ''uuid'' = Some (JStr (text_of (uuid i)))"
  "member (members (info_fields i)) ''serialNumber'' = Some (JStr (text_of (serialNumber i)))"
  "member (members (info_fields i)) ''softwarever'' = Some (JStr (text_of (softwareVer i)))"
  "member (members (info_fields i)) ''name'' = Some (JStr (text_of (name i)))"
  "member (members (info_fields i)) ''country'' = Some (JStr (text_of (country i)))"
  "member (members (info_fields i)) ''city'' = Some (JStr (text_of (city i)))"
  "member (members (info_fields i)) ''devType'' = Some (JNum (devType i))"
  "member (members (info_fields i)) ''coverday'' = Some (JNum (coverDay i))"
  "member (members (info_fields i)) ''pullinterval'' = Some (JNum (pullInterval i))"
  "member (members (info_fields i)) ''facethreshold'' = Some (JNum (faceThreshold i))"
  by (simp_all add: info_fields_def same_name_def c_tolower_lower c_tolower_upper)

lemma pares_fields:
  assumes "info_ok i" "in_range i" "0 \<le> devType i" "info_ok base"
  shows "\<exists>i'. JsonMapDeviceInfoPares (Some (repr (JObj (members (info_fields i))))) (Some base) = Inr (Some i', KEY_TRUE) \<and>
    same_info i' i \<and> info_ok i'"
proof -
  let ?c = "repr (JObj (members (info_fields i)))"
  note t = set_text_member [where ms = "members (info_fields i)", OF _ text_of_no_NUL length_text_of]
  have l: "buf_ok 64 (facturer i)" "buf_ok 64 (model i)" "buf_ok 64 (serialNumber i)" "buf_ok 128 (softwareVer i)"
    "buf_ok 128 (name i)" "buf_ok 64 (city i)" "buf_ok 64 (country i)" "buf_ok 32 (uuid i)"
    using assms(1) by (simp_all add: info_ok_def)
  have k: "length (facturer base) = 64" "length (model base) = 64" "length (serialNumber base) = 64"
    "length (softwareVer base) = 128" "length (name base) = 128" "length (city base) = 64" "length (country base) = 64"
    "length (uuid base) = 32" using assms(4) by (simp_all add: info_ok_def buf_ok_def)
  obtain b1 where 1: "set_text ?c ''manufacturer'' 64 (facturer base) = Inr b1" "text_of b1 = text_of (facturer i)" "NUL \<in> set b1" "length b1 = 64"
    using t [OF info_members(1) l(1) k(1)] by blast
  obtain b2 where 2: "set_text ?c ''model'' 64 (model base) = Inr b2" "text_of b2 = text_of (model i)" "NUL \<in> set b2" "length b2 = 64"
    using t [OF info_members(2) l(2) k(2)] by blast
  obtain b3 where 3: "set_text ?c ''serialNumber'' 64 (serialNumber base) = Inr b3" "text_of b3 = text_of (serialNumber i)" "NUL \<in> set b3" "length b3 = 64"
    using t [OF info_members(4) l(3) k(3)] by blast
  obtain b4 where 4: "set_text ?c ''softwarever'' 128 (softwareVer base) = Inr b4" "text_of b4 = text_of (softwareVer i)" "NUL \<in> set b4" "length b4 = 128"
    using t [OF info_members(5) l(4) k(4)] by blast
  obtain b5 where 5: "set_text ?c ''name'' 128 (name base) = Inr b5" "text_of b5 = text_of (name i)" "NUL \<in> set b5" "length b5 = 128"
    using t [OF info_members(6) l(5) k(5)] by blast
  obtain b6 where 6: "set_text ?c ''city'' 64 (city base) = Inr b6" "text_of b6 = text_of (city i)" "NUL \<in> set b6" "length b6 = 64"
    using t [OF info_members(8) l(6) k(6)] by blast
  obtain b7 where 7: "set_text ?c ''country'' 64 (country base) = Inr b7" "text_of b7 = text_of (country i)" "NUL \<in> set b7" "length b7 = 64"
    using t [OF info_members(7) l(7) k(7)] by blast
  obtain b8 where 8: "set_text ?c ''uuid'' 32 (uuid base) = Inr b8" "text_of b8 = text_of (uuid i)" "NUL \<in> set b8" "length b8 = 32"
    using t [OF info_members(3) l(8) k(8)] by blast
  have n: "set_num ?c ''devType'' x = devType i" "set_num ?c ''coverday'' x = coverDay i"
    "set_num ?c ''pullinterval'' x = pullInterval i" "set_num ?c ''facethreshold'' x = faceThreshold i" for x
    using assms(2,3) by (simp_all add: set_num_def get_int_member info_members in_range_def del: repr.simps(6))
  let ?i = "base\<lparr>facturer := b1, model := b2, serialNumber := b3, softwareVer := b4, name := b5, city := b6, country := b7,
      uuid := b8, devType := devType i, coverDay := coverDay i, pullInterval := pullInterval i, faceThreshold := faceThreshold i\<rparr>"
  have "JsonMapDeviceInfoPares (Some ?c) (Some base) = Inr (Some ?i, KEY_TRUE)"
    by (simp add: JsonMapDeviceInfoPares_def 1 2 3 4 5 6 7 8 n Let_def del: repr.simps)
  moreover have "same_info ?i i" "info_ok ?i"
    using 1 2 3 4 5 6 7 8 by (simp_all add: same_info_def info_ok_def buf_ok_def)
  ultimately show ?thesis by blast
qed

lemma make_fields:
  assumes "info_ok i" "in_range i" "0 \<le> devType i" "devType i < 2 ^ 31"
  shows "JsonMapDeviceInfoMake (Some i) = Inr (Some (repr (JObj (members (info_fields i)))))"
  using create_fields [OF info_fields_ok(1) [OF assms]]
  by (simp add: JsonMapDeviceInfoMake_def info_fields_def del: add_fields.simps repr.simps members_simps)

lemma stored_info:
  assumes "conf_inv s ms" "info_ok i" "in_range i" "0 \<le> devType i" "devType i < 2 ^ 31" "info_ok base"
  shows "\<exists>s' ms' i'. DevInfoConfigSet fd True i s = Inr (s', KEY_TRUE) \<and> conf_inv s' ms' \<and>
    DevInfoConfigGet fd w base s' = Some (Inr (s', i', KEY_TRUE)) \<and> same_info i' i \<and> info_ok i'"
proof -
  let ?c = "JObj (members (info_fields i))"
  have "NUL \<notin> set D_CONFDEVINFO_STR" by (simp add: D_CONFDEVINFO_STR_def)
  from config_set [OF assms(1) info_fields_ok(2) [OF assms(2-5)] this, of fd]
  obtain s' where s': "ConfigManageSet fd True (Some (repr ?c)) (Some D_CONFDEVINFO_STR) s = Inr (s', KEY_TRUE)"
    "conf_inv s' (del_member ms D_CONFDEVINFO_STR @ [(D_CONFDEVINFO_STR, ?c)])" by blast
  have "distinct (names ms)" using assms(1) by (simp add: conf_inv_def)
  then have "ConfigManageGet fd (Some D_CONFDEVINFO_STR) s' = Some (Inr (Some (repr ?c)))"
    using config_get [OF s'(2), of fd D_CONFDEVINFO_STR]
    by (simp add: member_append member_del del: repr.simps)
  moreover obtain i' where "JsonMapDeviceInfoPares (Some (repr ?c)) (Some base) = Inr (Some i', KEY_TRUE)"
    "same_info i' i" "info_ok i'" using pares_fields [OF assms(2-4,6)] by blast
  moreover have "DevInfoConfigSet fd True i s = Inr (s', KEY_TRUE)"
    using s'(1) by (simp add: DevInfoConfigSet_def make_fields [OF assms(2-5)] del: repr.simps)
  ultimately show ?thesis using s'(2) by (auto simp: DevInfoConfigGet_def simp del: repr.simps)
qed

text \<open>
  The record of the local device: \<^verbatim>\<open>SetDeviceInfo\<close> refuses, without a change, a record whose cover
  days, pull interval or face threshold is out of its range; it stores every other one, and
  \<^verbatim>\<open>GetDeviceInfo\<close> then returns all its eight texts and four numbers, whatever the caller's record held before.
\<close>

theorem base_info_roundtrip:
  assumes "conf_inv s ms" "info_ok i" "0 \<le> devType i" "devType i < 2 ^ 31" "info_ok base"
  shows "if in_range i then
      \<exists>s' i'. LocalSetDeviceInfo fd True i s = Inr (s', KEY_TRUE) \<and>
        LocalGetDeviceInfo fd w base s' = Some (Inr (s', i', KEY_TRUE)) \<and> same_info i' i
    else LocalSetDeviceInfo fd True i s = Inr (s, KEY_FALSE)"
proof (cases "in_range i")
  case True
  then have "LocalSetDeviceInfo fd True i s = DevInfoConfigSet fd True i s"
    by (auto simp: LocalSetDeviceInfo_def in_range_def)
  then show ?thesis using True stored_info [OF assms(1,2) True assms(3-5), of fd w]
    by (auto simp: LocalGetDeviceInfo_def)
qed (auto simp: LocalSetDeviceInfo_def in_range_def)

lemma default_info_ok: "info_ok default_info" "in_range default_info" "info_ok null_info"
  by (simp_all add: default_info_def null_info_def info_ok_def buf_ok_def in_range_def)

theorem base_info_roundtrip_witness:
  "\<exists>s' i'. LocalSetDeviceInfo (\<lambda>_. []) True default_info \<lparr>root = Some cJSON_CreateObject, conf_file = None\<rparr> = Inr (s', KEY_TRUE) \<and>
     LocalGetDeviceInfo (\<lambda>_. []) True null_info s' = Some (Inr (s', i', KEY_TRUE)) \<and> same_info i' default_info"
proof -
  have "0 \<le> devType default_info" "devType default_info < 2 ^ 31" by (simp_all add: default_info_def)
  from base_info_roundtrip [OF empty_conf default_info_ok(1) this default_info_ok(3), of "\<lambda>_. []" True] default_info_ok(2)
  show ?thesis by simp
qed

end
