(* ===== verification/JsonApi.thy ===== *)
theory JsonApi
  imports AdpApi JsonMap UsrString
begin

text \<open>
  \<^verbatim>\<open>src/App/JsonAPI/jsonswitch.c\<close>: the commands of the gateway. A request is a JSON object with a
  command, a session identifier and data; \<open>JsonSwitch\<close> finds the session, calls the handler of the
  command with the session's table of operations, and writes the reply.

  The state joins those of the modules behind the tables. The handlers for sessions, accounts, the local device
  and the table of devices are those of the code; the handlers for the statistics of cameras,
  vehicles, attendance, alarms and fuel, which read and write only those modules, are the argument
  \<open>others\<close> over a state of their own. \<open>hp\<close> and \<open>np\<close> are the addresses \<^verbatim>\<open>malloc\<close> returns during the request: for
  the table of a login, and for the new record (of a session, an account or a device).
\<close>

section \<open>State\<close>

record ('d, 'e, 'x) Gateway =
  adp :: "'d AdpHandle_T"
  devs :: "'e DeviceListInner_T"
  conf :: Conf_T
  listHead_J :: "nat list"
  others_st :: 'x

record JsonMsg_T =
  cmd :: string
  mothod :: string
  ssionID :: string
  msgID :: string
  deviceId :: string
  srctopic :: string
  desttopic :: string
  bodyData :: "cJSON option"

abbreviation (input) KEY_CMDNOTFOUND :: int where "KEY_CMDNOTFOUND \<equiv> - 404"
abbreviation (input) KEY_NORESPONSE :: int where "KEY_NORESPONSE \<equiv> 414"

definition zero_table :: AdpAPIHandle_T where
  "zero_table = \<lparr>granted = [], api_usrID = 0, api_usrName = [], sessionid = 0, highTempFun = False\<rparr>"

section \<open>Requests and replies\<close>

definition ParesJsonMsg :: "cJSON option \<Rightarrow> fault + JsonMsg_T option" where
  "ParesJsonMsg data = (case data of None \<Rightarrow> Inr None
     | Some d \<Rightarrow>
       rbind (get_text data ''cmd'' 32) (\<lambda>c.
       rbind (get_text data ''method'' 32) (\<lambda>m.
       rbind (get_text data ''msgid'' 32) (\<lambda>i.
       rbind (get_text data ''sessionid'' 32) (\<lambda>s.
       rbind (get_text data ''srctopic'' 128) (\<lambda>st.
       rbind (get_text data ''desttopic'' 128) (\<lambda>dt.
       let body = cJSON_GetObjectItem d ''data'' in
       rbind (get_text body ''cameraid'' 128) (\<lambda>dev.
       Inr (Some \<lparr>cmd = c, mothod = m, ssionID = s, msgID = i, deviceId = dev, srctopic = st, desttopic = dt, bodyData = body\<rparr>)))))))))"

definition MakeJsonMsg :: "cJSON \<Rightarrow> JsonMsg_T \<Rightarrow> fault + cJSON" where
  "MakeJsonMsg data head = add_fields data [(''cmd'', FStr (cmd head)), (''method'', FStr ''response''), (''msgid'', FStr (msgID head))]"

definition JsonPrintUnformatted :: "(rat \<Rightarrow> string) \<Rightarrow> cJSON \<Rightarrow> string \<Rightarrow> fault + string" where
  "JsonPrintUnformatted fd respData response =
     rbind (cJSON_PrintUnformatted fd respData) (\<lambda>out. case out of None \<Rightarrow> Inl NullDeref | Some t \<Rightarrow> sprintf response t)"

section \<open>Handlers\<close>

text \<open>
  A handler gets the address of the caller's table, the data of the request and the reply under
  construction, and returns the reply and a code. An entry of the table that is not granted is NULL or a stub
  that returns \<^verbatim>\<open>KEY_FALSE\<close>; either way the handler returns \<^verbatim>\<open>KEY_FALSE\<close>.
\<close>

type_synonym ('d, 'e, 'x) reply = "(('d, 'e, 'x) Gateway \<times> cJSON \<times> int) run"

definition lift_adp :: "('d, 'e, 'x) Gateway \<Rightarrow> cJSON \<Rightarrow> fault + 'd AdpHandle_T \<times> int \<Rightarrow> ('d, 'e, 'x) reply" where
  "lift_adp g resp m = Some (rbind m (\<lambda>(a, r). Inr (g\<lparr>adp := a\<rparr>, resp, r)))"

definition lift_dev :: "('d, 'e, 'x) Gateway \<Rightarrow> cJSON \<Rightarrow> fault + 'e DeviceListInner_T \<times> int \<Rightarrow> ('d, 'e, 'x) reply" where
  "lift_dev g resp m = Some (rbind m (\<lambda>(a, r). Inr (g\<lparr>devs := a\<rparr>, resp, r)))"

definition with_entry ::
    "('d, 'e, 'x) Gateway \<Rightarrow> nat \<Rightarrow> string list \<Rightarrow> cJSON \<Rightarrow> (AdpAPIHandle_T \<Rightarrow> ('d, 'e, 'x) reply) \<Rightarrow> ('d, 'e, 'x) reply" where
  "with_entry g handle es resp k =
     (if handle = 0 then Some (Inr (g, resp, KEY_FALSE))
      else run_bind (Some (obj_load (apis (adp g)) handle)) (\<lambda>h.
        if set es \<subseteq> set (granted h) then k h else Some (Inr (g, resp, KEY_FALSE))))"

definition FunLogin :: "nat \<Rightarrow> ('d, 'e, 'x) Gateway \<Rightarrow> nat \<Rightarrow> cJSON option \<Rightarrow> cJSON \<Rightarrow> ('d, 'e, 'x) reply" where
  "FunLogin np g handle data resp =
     (if handle = 0 then Some (Inr (g, resp, KEY_FALSE))
      else
       run_bind (Some (get_text data ''username'' 129)) (\<lambda>usrName.
       run_bind (Some (get_text data ''password'' 129)) (\<lambda>password.
       run_bind (AdpRegistHandle (adp g) handle usrName password np) (\<lambda>(a, iret).
       let g = g\<lparr>adp := a\<rparr> in
       run_bind (Some (obj_load (apis a) handle)) (\<lambda>h.
       if iret \<noteq> KEY_TRUE \<or> api_usrID h = 0 then Some (Inr (g, resp, iret))
       else let (vs, r) = hl_step (listHead_J g) (AddHandle handle) in
         if r = KEY_FALSE then Some (Inr (g, resp, KEY_FALSE))
         else Some (Inr (g\<lparr>listHead_J := vs\<rparr>,
           cJSON_AddItemToObject resp ''data''
             (Some (cJSON_AddStringToObject cJSON_CreateObject ''sessionid'' (print_int (api_usrID h)))), KEY_TRUE)))))))"

definition FunLoginOut :: "('d, 'e, 'x) Gateway \<Rightarrow> nat \<Rightarrow> cJSON option \<Rightarrow> cJSON \<Rightarrow> ('d, 'e, 'x) reply" where
  "FunLoginOut g handle data resp =
     run_bind (Some (AdpUnRegistHandle (adp g) handle)) (\<lambda>(a, _).
     let (vs, r) = hl_step (listHead_J g) (DelHandle handle) in
     if r = KEY_FALSE then Some (Inr (g\<lparr>adp := a\<rparr>, resp, KEY_FALSE))
     else Some (Inr (g\<lparr>adp := a\<lparr>apis := (apis a)(handle := None)\<rparr>, listHead_J := vs\<rparr>, resp, KEY_TRUE)))"

definition FunGetBaseInfo ::
    "(rat \<Rightarrow> string) \<Rightarrow> bool \<Rightarrow> ('d, 'e, 'x) Gateway \<Rightarrow> nat \<Rightarrow> cJSON option \<Rightarrow> cJSON \<Rightarrow> ('d, 'e, 'x) reply" where
  "FunGetBaseInfo fd w g handle data resp = with_entry g handle [''pGetBaseInfo''] resp (\<lambda>_.
     run_bind (LocalGetDeviceInfo fd w null_info (conf g)) (\<lambda>(c, info, iret).
     if iret \<noteq> KEY_FALSE then
       run_bind (Some (JsonMapDeviceInfoMake (Some info))) (\<lambda>d.
       Some (Inr (g\<lparr>conf := c\<rparr>, cJSON_AddItemToObject resp ''data'' d, iret)))
     else Some (Inr (g\<lparr>conf := c\<rparr>, resp, iret))))"

definition FunSetBaseInfo ::
    "(rat \<Rightarrow> string) \<Rightarrow> bool \<Rightarrow> ('d, 'e, 'x) Gateway \<Rightarrow> nat \<Rightarrow> cJSON option \<Rightarrow> cJSON \<Rightarrow> ('d, 'e, 'x) reply" where
  "FunSetBaseInfo fd w g handle data resp = with_entry g handle [''pSetBaseInfo'', ''pGetBaseInfo''] resp (\<lambda>_.
     run_bind (LocalGetDeviceInfo fd w null_info (conf g)) (\<lambda>(c, info, iret).
     if iret \<noteq> KEY_FALSE then
       run_bind (Some (JsonMapDeviceInfoPares data (Some info))) (\<lambda>(i, _).
       run_bind (Some (LocalSetDeviceInfo fd w (the i) c)) (\<lambda>(c, iret). Some (Inr (g\<lparr>conf := c\<rparr>, resp, iret))))
     else Some (Inr (g\<lparr>conf := c\<rparr>, resp, iret))))"

definition FunAddUser :: "nat \<Rightarrow> ('d, 'e, 'x) Gateway \<Rightarrow> nat \<Rightarrow> cJSON option \<Rightarrow> cJSON \<Rightarrow> ('d, 'e, 'x) reply" where
  "FunAddUser np g handle data resp =
     (if data = None then Some (Inr (g, resp, KEY_FALSE))
      else with_entry g handle [''pAddUsr''] resp (\<lambda>h.
       run_bind (Some (JsonMapUsrInfoPares data)) (\<lambda>info.
       let info = (if userLevel info = 0 then info\<lparr>userLevel := 3\<rparr> else info) in
       run_bind (AdpAddUsr (adp g) (api_usrID h) info np) (\<lambda>(a, r). Some (Inr (g\<lparr>adp := a\<rparr>, resp, r))))))"

definition FunCheckUser :: "('d, 'e, 'x) Gateway \<Rightarrow> nat \<Rightarrow> cJSON option \<Rightarrow> cJSON \<Rightarrow> ('d, 'e, 'x) reply" where
  "FunCheckUser g handle data resp =
     (if data = None then Some (Inr (g, resp, KEY_FALSE))
      else with_entry g handle [''pCheckUsr''] resp (\<lambda>h.
       run_bind (Some (JsonMapUsrInfoPares data)) (\<lambda>info.
       run_bind (Some (AdpCheckUsr (adp g) (api_usrID h) info)) (\<lambda>r. Some (Inr (g, resp, r))))))"

definition FunModifyUsrPasswd :: "('d, 'e, 'x) Gateway \<Rightarrow> nat \<Rightarrow> cJSON option \<Rightarrow> cJSON \<Rightarrow> ('d, 'e, 'x) reply" where
  "FunModifyUsrPasswd g handle data resp =
     (if data = None then Some (Inr (g, resp, KEY_FALSE))
      else with_entry g handle [''pModifyPassword''] resp (\<lambda>h.
       run_bind (Some (JsonMapUsrPasswdPares data)) (\<lambda>(n, old, new).
       lift_adp g resp (AdpModifyPassword (adp g) (api_usrID h) n old new))))"

definition FunResetPassword :: "('d, 'e, 'x) Gateway \<Rightarrow> nat \<Rightarrow> cJSON option \<Rightarrow> cJSON \<Rightarrow> ('d, 'e, 'x) reply" where
  "FunResetPassword g handle data resp =
     (if data = None then Some (Inr (g, resp, KEY_FALSE))
      else with_entry g handle [''pResetPassword''] resp (\<lambda>h.
       run_bind (Some (JsonMapUsrInfoPares data)) (\<lambda>info.
       lift_adp g resp (rbind (ResetPassword (users (adp g)) (Some (usrname info)) (Some (countrycode info)) (Some (passWord info)))
         (\<lambda>(u, r). Inr ((adp g)\<lparr>users := u\<rparr>, r))))))"

text \<open>The identifier and the name are read into the cleared record.\<close>

definition FunAddDevice :: "nat \<Rightarrow> ('d, 'e, 'x) Gateway \<Rightarrow> nat \<Rightarrow> cJSON option \<Rightarrow> cJSON \<Rightarrow> ('d, 'e, 'x) reply" where
  "FunAddDevice np g handle data resp = with_entry g handle [''pAddDevice''] resp (\<lambda>_.
     run_bind (Some (get_text data ''devicename'' 128)) (\<lambda>n.
     run_bind (Some (get_text data ''deviceid'' 128)) (\<lambda>i.
     lift_dev g resp (AddDevice (devs g) (Some (null_device\<lparr>deviceName := n, deviceID := i\<rparr>)) np))))"

definition FunDelDevice :: "('d, 'e, 'x) Gateway \<Rightarrow> nat \<Rightarrow> cJSON option \<Rightarrow> cJSON \<Rightarrow> ('d, 'e, 'x) reply" where
  "FunDelDevice g handle data resp = with_entry g handle [''pDelDevice''] resp (\<lambda>_.
     run_bind (Some (get_text data ''deviceid'' 128)) (\<lambda>i.
     run_bind (Some (DelDevice (devs g) i)) (\<lambda>(d, iret).
     Some (Inr (g\<lparr>devs := d\<rparr>,
       if iret = KEY_TRUE
       then cJSON_AddItemToObject resp ''data'' (Some (cJSON_AddStringToObject cJSON_CreateObject ''deviceid'' i)) else resp,
       iret)))))"

text \<open>\<open>pGetDeviceInfo\<close> is called with the identifier and the record that holds it.\<close>

definition FunGetDeviceInfo :: "('d, 'e, 'x) Gateway \<Rightarrow> nat \<Rightarrow> cJSON option \<Rightarrow> cJSON \<Rightarrow> ('d, 'e, 'x) reply" where
  "FunGetDeviceInfo g handle data resp = with_entry g handle [''pGetDeviceInfo''] resp (\<lambda>_.
     run_bind (Some (get_text data ''deviceid'' 128)) (\<lambda>i.
     run_bind (Some (GetDeviceInfo (devs g) i (null_device\<lparr>deviceID := i\<rparr>))) (\<lambda>(d, iret).
     if iret = KEY_TRUE then
       run_bind (Some (add_fields cJSON_CreateObject (device_fields d))) (\<lambda>x.
       Some (Inr (g, cJSON_AddItemToObject resp ''data'' (Some x), iret)))
     else Some (Inr (g, resp, iret)))))"

definition FunSetDeviceInfo :: "('d, 'e, 'x) Gateway \<Rightarrow> nat \<Rightarrow> cJSON option \<Rightarrow> cJSON \<Rightarrow> ('d, 'e, 'x) reply" where
  "FunSetDeviceInfo g handle data resp = with_entry g handle [''pSetDeviceInfo'', ''pGetDeviceInfo''] resp (\<lambda>_.
     run_bind (Some (get_text data ''deviceid'' 128)) (\<lambda>i.
     run_bind (Some (GetDeviceInfo (devs g) i (null_device\<lparr>deviceID := i\<rparr>))) (\<lambda>(d, iret).
     if iret = KEY_TRUE then
       run_bind (Some (cJSON_GetObjectItemValueString data (Some ''devicename'') (deviceName d @ replicate (128 - length (deviceName d)) NUL) 128)) (\<lambda>(b, _).
       run_bind (Some (c_str b 0)) (\<lambda>n.
       lift_dev g resp (SetDeviceInfo (devs g) (deviceID d) (Some (d\<lparr>deviceName := n\<rparr>)))))
     else Some (Inr (g, resp, iret)))))"

text \<open>
  The number is asked for first; the list then has as many entries. The stub of the number leaves it 0, which counts as not found and
  not as refused.
\<close>

definition FunGetDeviceInfoList :: "('d, 'e, 'x) Gateway \<Rightarrow> nat \<Rightarrow> cJSON option \<Rightarrow> cJSON \<Rightarrow> ('d, 'e, 'x) reply" where
  "FunGetDeviceInfoList g handle data resp = with_entry g handle [] resp (\<lambda>h.
     run_bind (Some (if ''pGetDeviceInfoListNum'' \<in> set (granted h) then GetCameraInfoNum (devs g) else Inr (0, KEY_FALSE))) (\<lambda>(num, iret).
     if num \<le> 0 then Some (Inr (g, resp, KEY_NOTFOUND))
     else if iret = KEY_FALSE then Some (Inr (g, resp, KEY_FALSE))
     else run_bind (Some (if ''pGetDeviceInfoList'' \<in> set (granted h) then GetCameraInfoList (devs g) else Inr ([], KEY_FALSE))) (\<lambda>(ds, iret).
       if int (length ds) > num then Some (Inl OutOfBounds)
       else if iret = KEY_TRUE then
         run_bind (Some (JsonMapGetDeviceInfoList resp ds)) (\<lambda>(resp, _). Some (Inr (g, resp, iret)))
       else Some (Inr (g, resp, iret)))))"

section \<open>The dispatcher\<close>

datatype HttpCmd = HLogin | HLoginOut | HGetBaseInfo | HSetBaseInfo | HAddUser | HCheckUser | HResetPassword | HAddDevice
  | HDelDevice | HGetDeviceInfo | HSetDeviceInfo | HGetDeviceInfoList | HOther string

definition other_cmds :: "string list" where
  "other_cmds = [''sdkdeviceadd'', ''sdkdevicedel'', ''sdkdevicelistget'', ''sdkdevicelistset'', ''sdkdeviceipcamset'',
     ''sdkdevicealarmget'', ''sdkdevicealarmset'', ''getentrancevehiclescurlist'', ''getfrontagevehiclessum'',
     ''getentrancevehiclessum'', ''getentrancevehiclelist'', ''getentrancehistorylist'', ''getentranceserviceanalysis'',
     ''getentranceplateanalysis'', ''getentrancehistorycount'', ''getrefuelingtypeanalysis'', ''getoutboundvehiclesanalysis'',
     ''getresidencetimeanalysis'', ''getabnormalvehiclelist'', ''getrefuelingefficiencyanalysis'', ''getvehicletrajectoryanalysis'',
     ''getvehicletrajectoryroute'', ''getproportionofvehiclebehavior'', ''getproportionofcarwashing'', ''getattendance'',
     ''getattendancedeta'', ''getattendancelisthistory'', ''getvisitors'', ''getvolumeofcommutersnum'', ''getvolumeofcommutersofline'',
     ''getvolumeofcommutersofsex'', ''getvolumeofcommutersofage'', ''getintelligentalarm'', ''getalarmproportionanalysis'',
     ''getalarmperiodanalysis'', ''uploadoilstationdata'', ''getoilstationdata'']"

definition cmdList :: "(string \<times> HttpCmd) list" where
  "cmdList = [(''loginmainserver'', HLogin), (''loginoutmainserver'', HLoginOut), (''getbaseinfo'', HGetBaseInfo),
     (''setbaseinfo'', HSetBaseInfo), (''adduser'', HAddUser), (''registrationcheckuser'', HCheckUser),
     (''userresetpassword'', HResetPassword), (''adddevice'', HAddDevice), (''deldevice'', HDelDevice),
     (''getdeviceinfo'', HGetDeviceInfo), (''setdeviceinfo'', HSetDeviceInfo), (''getdeviceinfolist'', HGetDeviceInfoList)] @
     map (\<lambda>c. (c, HOther c)) other_cmds"

type_synonym 'x other_handler = "string \<Rightarrow> AdpAPIHandle_T \<Rightarrow> cJSON option \<Rightarrow> cJSON \<Rightarrow> 'x \<Rightarrow> fault + 'x \<times> cJSON \<times> int"

definition call_func ::
    "'x other_handler \<Rightarrow> (rat \<Rightarrow> string) \<Rightarrow> bool \<Rightarrow> nat \<Rightarrow> HttpCmd \<Rightarrow> ('d, 'e, 'x) Gateway \<Rightarrow> nat \<Rightarrow> cJSON option \<Rightarrow> cJSON \<Rightarrow> ('d, 'e, 'x) reply" where
  "call_func others fd w np func g handle data resp = (case func of
       HLogin \<Rightarrow> FunLogin np g handle data resp
     | HLoginOut \<Rightarrow> FunLoginOut g handle data resp
     | HGetBaseInfo \<Rightarrow> FunGetBaseInfo fd w g handle data resp
     | HSetBaseInfo \<Rightarrow> FunSetBaseInfo fd w g handle data resp
     | HAddUser \<Rightarrow> FunAddUser np g handle data resp
     | HCheckUser \<Rightarrow> FunCheckUser g handle data resp
     | HResetPassword \<Rightarrow> FunResetPassword g handle data resp
     | HAddDevice \<Rightarrow> FunAddDevice np g handle data resp
     | HDelDevice \<Rightarrow> FunDelDevice g handle data resp
     | HGetDeviceInfo \<Rightarrow> FunGetDeviceInfo g handle data resp
     | HSetDeviceInfo \<Rightarrow> FunSetDeviceInfo g handle data resp
     | HGetDeviceInfoList \<Rightarrow> FunGetDeviceInfoList g handle data resp
     | HOther c \<Rightarrow>
         run_bind (Some (obj_load (apis (adp g)) handle)) (\<lambda>h.
         run_bind (Some (others c h data resp (others_st g))) (\<lambda>(x, resp, r). Some (Inr (g\<lparr>others_st := x\<rparr>, resp, r)))))"

text \<open>
  The reply is written with the code of the handler: 200 for success, 400 for \<^verbatim>\<open>KEY_FALSE\<close>. A refused login frees the
  table.
\<close>

definition finish ::
    "(rat \<Rightarrow> string) \<Rightarrow> string \<Rightarrow> nat \<Rightarrow> ('d, 'e, 'x) Gateway \<Rightarrow> cJSON \<Rightarrow> int \<Rightarrow> (('d, 'e, 'x) Gateway \<times> string \<times> int) run" where
  "finish fd response handle g resp iret =
     (if iret \<noteq> KEY_TRUE then
        if iret = KEY_NORESPONSE then Some (Inr (g, response, iret))
        else let statusCode = (if iret = KEY_FALSE then 400 else iret) in
          run_bind (Some (JsonPrintUnformatted fd (cJSON_AddNumberToObject resp ''statuscode'' statusCode) response)) (\<lambda>response.
          Some (Inr (if iret = KEY_UNAUTHORIZED \<or> iret = KEY_USERREPEATLOGIN
            then g\<lparr>adp := (adp g)\<lparr>apis := (apis (adp g))(handle := None)\<rparr>\<rparr> else g, response, iret)))
      else run_bind (Some (JsonPrintUnformatted fd (cJSON_AddNumberToObject resp ''statuscode'' 200) response)) (\<lambda>response.
        Some (Inr (g, response, iret))))"

definition JsonSwitch ::
    "'x other_handler \<Rightarrow> (rat \<Rightarrow> string) \<Rightarrow> bool \<Rightarrow> nat \<Rightarrow> nat \<Rightarrow> string option \<Rightarrow> string option \<Rightarrow> ('d, 'e, 'x) Gateway \<Rightarrow>
     (('d, 'e, 'x) Gateway \<times> string option \<times> int) run" where
  "JsonSwitch others fd w hp np requst response g = (case (requst, response) of
       (Some req, Some buf) \<Rightarrow>
         run_bind (cJSON_Parse req) (\<lambda>data.
         if data = None then Some (Inr (g, response, KEY_FALSE))
         else run_bind (Some (ParesJsonMsg data)) (\<lambda>m. case m of None \<Rightarrow> Some (Inr (g, response, KEY_FALSE))
         | Some msg \<Rightarrow> run_bind (Some (MakeJsonMsg cJSON_CreateObject msg)) (\<lambda>resp.
             case find (\<lambda>(c, _). usr_strcasecmp (cmd msg) c = 0) cmdList of
               None \<Rightarrow> Some (Inr (g, response, KEY_CMDNOTFOUND))
             | Some (_, func) \<Rightarrow>
               if usr_strcasecmp (cmd msg) ''loginmainserver'' \<noteq> 0 then
                 run_bind (Some (reg_lookup (apis (adp g)) (\<lambda>h. api_usrID h = atoi (ssionID msg)) (listHead_J g))) (\<lambda>handle.
                 if handle = 0 then
                   run_bind (Some (JsonPrintUnformatted fd (cJSON_AddNumberToObject resp ''statuscode'' KEY_UNAUTHORIZED) buf)) (\<lambda>buf.
                   Some (Inr (g, Some buf, KEY_UNAUTHORIZED)))
                 else run_bind (call_func others fd w np func g handle (bodyData msg) resp) (\<lambda>(g, resp, iret).
                   run_bind (finish fd buf handle g resp iret) (\<lambda>(g, buf, iret). Some (Inr (g, Some buf, iret)))))
               else if hp = 0 then Some (Inl NullDeref)
               else
                 run_bind (call_func others fd w np func
                   (g\<lparr>adp := (adp g)\<lparr>apis := (apis (adp g))(hp \<mapsto> zero_table)\<rparr>\<rparr>) hp (bodyData msg) resp) (\<lambda>(g, resp, iret).
                 run_bind (finish fd buf hp g resp iret) (\<lambda>(g, buf, iret). Some (Inr (g, Some buf, iret)))))))
     | _ \<Rightarrow> Some (Inr (g, response, KEY_FALSE)))"

text \<open>\<open>hp\<close> is the address of \<^verbatim>\<open>g_JsonApi.innerHandle\<close>.\<close>

definition JsonApiInit :: "nat \<Rightarrow> nat \<Rightarrow> ('d, 'e, 'x) Gateway \<Rightarrow> (('d, 'e, 'x) Gateway \<times> int) run" where
  "JsonApiInit hp np g =
     run_bind (AdpRegistHandle (adp g) hp ''gzadmin@u'' ''gzadmin@p'' np) (\<lambda>(a, r).
     Some (Inr (g\<lparr>listHead_J := [], adp := a\<rparr>, if r = KEY_FALSE then KEY_UNAUTHORIZED else KEY_TRUE)))"

section \<open>Replies\<close>

lemma snprintf_length: "snprintf mem n s = Inr mem' \<Longrightarrow> length mem' = length mem"
  by (auto simp: snprintf_def dest: put_all_length split: if_splits)

lemma get_text_bound:
  assumes "get_text data nm sz = Inr t"
  shows "NUL \<notin> set t" "length t < sz"
proof -
  obtain b r where b: "cJSON_GetObjectItemValueString data (Some nm) (replicate sz NUL) sz = Inr (b, r)" "c_str b 0 = Inr t"
    using assms by (auto simp: get_text_def outcome_iff)
  have l: "length b = sz"
    using b(1) by (auto simp: cJSON_GetObjectItemValueString_def outcome_iff dest!: snprintf_length split: option.splits)
  have n: "NUL \<in> set b" "t = text_of b" using b(2) by (auto simp: c_str_def text_of_def split: if_splits)
  then show "NUL \<notin> set t" by simp
  show "length t < sz" using length_text_of [of sz b] l n by (simp add: buf_ok_def)
qed

lemma message_bounds:
  assumes "ParesJsonMsg (Some d) = Inr (Some msg)"
  shows "NUL \<notin> set (cmd msg)" "length (cmd msg) < 32" "NUL \<notin> set (msgID msg)" "length (msgID msg) < 32"
  using assms by (auto simp: ParesJsonMsg_def outcome_iff Let_def dest: get_text_bound)

definition reply_head :: "JsonMsg_T \<Rightarrow> (string \<times> json) list" where
  "reply_head msg = [(''cmd'', JStr (cmd msg)), (''method'', JStr ''response''), (''msgid'', JStr (msgID msg))]"

definition reply_text :: "JsonMsg_T \<Rightarrow> (string \<times> json) list \<Rightarrow> int \<Rightarrow> string" where
  "reply_text msg ms code = json_text (JObj (reply_head msg @ ms @ [(''statuscode'', JNum code)])) False 0"

lemma make_reply:
  assumes "ParesJsonMsg (Some d) = Inr (Some msg)"
  shows "MakeJsonMsg cJSON_CreateObject msg = Inr (repr (JObj (reply_head msg)))"
  unfolding MakeJsonMsg_def using message_bounds [OF assms]
  by (subst create_fields) (simp_all add: reply_head_def del: repr.simps)

lemma write_reply:
  assumes "ParesJsonMsg (Some d) = Inr (Some msg)" "json_ok (JObj ms)" "- (2 ^ 31) \<le> code" "code < 2 ^ 31"
    and "length (reply_text msg ms code) < length buf"
  shows "JsonPrintUnformatted fd (cJSON_AddNumberToObject (repr (JObj (reply_head msg @ ms))) ''statuscode'' code) buf =
    Inr (reply_text msg ms code @ NUL # drop (Suc (length (reply_text msg ms code))) buf)"
proof -
  have "json_ok (JObj (reply_head msg @ ms @ [(''statuscode'', JNum code)]))"
    using assms(2-4) message_bounds [OF assms(1)] by (simp add: reply_head_def)
  then show ?thesis using assms(3-5)
    by (simp add: JsonPrintUnformatted_def add_number_repr print_repr reply_text_def sprintf_fits
        del: repr.simps json_text.simps json_ok.simps)
qed

text \<open>A reply without data always fits into half a kilobyte.\<close>

lemma short_reply:
  assumes "ParesJsonMsg (Some d) = Inr (Some msg)" "- (2 ^ 31) \<le> code" "code < 2 ^ 31"
  shows "length (reply_text msg [] code) < 512"
proof -
  have "length (quoted (cmd msg)) \<le> 188" "length (quoted (msgID msg)) \<le> 188"
    using message_bounds [OF assms(1)] length_quoted [of "cmd msg"] length_quoted [of "msgID msg"] by linarith+
  moreover have "length (quoted ''cmd'') \<le> 20" "length (quoted ''method'') \<le> 38" "length (quoted ''response'') = 10"
    "length (quoted ''msgid'') = 7" "length (quoted ''statuscode'') = 12" by code_simp+
  ultimately show ?thesis using print_int_length [OF assms(2,3)] by (simp add: reply_text_def reply_head_def)
qed

section \<open>Requests without a session\<close>

definition known_cmd :: "string \<Rightarrow> bool" where
  "known_cmd c \<longleftrightarrow> (\<exists>e \<in> set cmdList. usr_strcasecmp c (fst e) = 0)"

definition login_cmd :: "string \<Rightarrow> bool" where
  "login_cmd c \<longleftrightarrow> usr_strcasecmp c ''loginmainserver'' = 0"

text \<open>A request whose text is \<open>req\<close> and whose message is \<open>msg\<close>.\<close>

definition request :: "string \<Rightarrow> JsonMsg_T \<Rightarrow> bool" where
  "request req msg \<longleftrightarrow> (\<exists>d. cJSON_Parse req = Some (Inr (Some d)) \<and> ParesJsonMsg (Some d) = Inr (Some msg))"

lemma known_find: "known_cmd c \<Longrightarrow> \<exists>e. find (\<lambda>(n, _). usr_strcasecmp c n = 0) cmdList = Some e"
  by (cases "find (\<lambda>(n, _). usr_strcasecmp c n = 0) cmdList") (auto simp: known_cmd_def find_None_iff)

lemma switch_session:
  assumes "request req msg" "known_cmd (cmd msg)" "\<not> login_cmd (cmd msg)"
    and "reg_lookup (apis (adp g)) (\<lambda>h. api_usrID h = atoi (ssionID msg)) (listHead_J g) = Inr handle"
    and "find (\<lambda>(n, _). usr_strcasecmp (cmd msg) n = 0) cmdList = Some (c, func)"
  shows "JsonSwitch others fd w hp np (Some req) (Some buf) g =
    (if handle = 0 then
       run_bind (Some (JsonPrintUnformatted fd (cJSON_AddNumberToObject (repr (JObj (reply_head msg))) ''statuscode'' KEY_UNAUTHORIZED) buf)) (\<lambda>buf.
       Some (Inr (g, Some buf, KEY_UNAUTHORIZED)))
     else run_bind (call_func others fd w np func g handle (bodyData msg) (repr (JObj (reply_head msg)))) (\<lambda>(g, resp, iret).
       run_bind (finish fd buf handle g resp iret) (\<lambda>(g, buf, iret). Some (Inr (g, Some buf, iret)))))"
proof -
  obtain d where d: "cJSON_Parse req = Some (Inr (Some d))" "ParesJsonMsg (Some d) = Inr (Some msg)"
    using assms(1) by (auto simp: request_def)
  show ?thesis using assms(3-5) d make_reply [OF d(2)]
    by (simp add: JsonSwitch_def login_cmd_def del: repr.simps)
qed

text \<open>The identifiers of the sessions of the JSON interface.\<close>

definition session_ids :: "('d, 'e, 'x) Gateway \<Rightarrow> int list" where
  "session_ids g = map (\<lambda>v. api_usrID (the (apis (adp g) v))) (listHead_J g)"

lemma no_session_lookup:
  assumes "reg_ok (apis (adp g)) (listHead_J g)" "i \<notin> set (session_ids g)"
  shows "reg_lookup (apis (adp g)) (\<lambda>h. api_usrID h = i) (listHead_J g) = Inr 0"
proof -
  have "find (\<lambda>v. api_usrID (the (apis (adp g) v)) = i) (listHead_J g) = None"
    using assms(2) by (auto simp: find_None_iff session_ids_def)
  then show ?thesis using reg_lookup_find [OF assms(1), of "\<lambda>h. api_usrID h = i"] by simp
qed

lemma refused_without_session:
  assumes "request req msg" "known_cmd (cmd msg)" "\<not> login_cmd (cmd msg)"
    and "reg_ok (apis (adp g)) (listHead_J g)" "atoi (ssionID msg) \<notin> set (session_ids g)" "512 \<le> length buf"
  shows "JsonSwitch others fd w hp np (Some req) (Some buf) g =
    Some (Inr (g, Some (reply_text msg [] KEY_UNAUTHORIZED @ NUL # drop (Suc (length (reply_text msg [] KEY_UNAUTHORIZED))) buf),
      KEY_UNAUTHORIZED))"
proof -
  obtain d where d: "ParesJsonMsg (Some d) = Inr (Some msg)" using assms(1) by (auto simp: request_def)
  have l: "length (reply_text msg [] KEY_UNAUTHORIZED) < length buf" using short_reply [OF d, of KEY_UNAUTHORIZED] assms(6) by simp
  obtain c func where f: "find (\<lambda>(n, _). usr_strcasecmp (cmd msg) n = 0) cmdList = Some (c, func)"
    using known_find [OF assms(2)] by auto
  show ?thesis
    using switch_session [OF assms(1-3) no_session_lookup [OF assms(4,5)] f] write_reply [OF d _ _ _ l, of fd]
    by (simp del: repr.simps)
qed

text \<open>
  C19. Every command but the login needs a session: whatever the request contains, when its session
  identifier is not that of a live session, the gateway answers code 401 with the command and message
  identifier of the request, and no module's state changes.
\<close>

theorem session_required:
  assumes "request req msg" "known_cmd (cmd msg)" "\<not> login_cmd (cmd msg)"
    and "reg_ok (apis (adp g)) (listHead_J g)" "atoi (ssionID msg) \<notin> set (session_ids g)" "512 \<le> length buf"
  shows "\<exists>buf'. JsonSwitch others fd w hp np (Some req) (Some buf) g = Some (Inr (g, Some buf', KEY_UNAUTHORIZED)) \<and>
    length buf' = length buf \<and>
    cJSON_Parse buf' = Some (Inr (Some (repr (JObj
      [(''cmd'', JStr (cmd msg)), (''method'', JStr ''response''), (''msgid'', JStr (msgID msg)), (''statuscode'', JNum KEY_UNAUTHORIZED)]))))"
proof -
  obtain d where d: "ParesJsonMsg (Some d) = Inr (Some msg)" using assms(1) by (auto simp: request_def)
  have "json_ok (JObj (reply_head msg @ [] @ [(''statuscode'', JNum KEY_UNAUTHORIZED)]))"
    using message_bounds [OF d] by (simp add: reply_head_def)
  from parse_repr [OF this] show ?thesis
    using refused_without_session [OF assms, of others fd w hp np] short_reply [OF d, of KEY_UNAUTHORIZED] assms(6)
    by (auto simp: reply_text_def reply_head_def simp del: repr.simps json_text.simps)
qed

definition demo_gateway :: "(unit, unit, unit) Gateway" where
  "demo_gateway = \<lparr>adp = demo_adp, devs = demo_devices, conf = \<lparr>root = Some cJSON_CreateObject, conf_file = None\<rparr>,
     listHead_J = [], others_st = ()\<rparr>"

definition no_others :: "unit other_handler" where
  "no_others c h data resp x = Inr (x, resp, KEY_FALSE)"

lemma request_text:
  assumes "json_ok (JObj ms)" "ParesJsonMsg (Some (repr (JObj ms))) = Inr (Some msg)"
  shows "request (json_text (JObj ms) False 0 @ [NUL]) msg"
  using assms parse_repr [OF assms(1), of "[]"] by (auto simp: request_def simp del: repr.simps json_text.simps)

definition demo_adduser :: "(string \<times> json) list" where
  "demo_adduser = [(''cmd'', JStr ''AddUser''), (''msgid'', JStr ''7''), (''sessionid'', JStr ''262145'')]"

definition demo_msg :: JsonMsg_T where
  "demo_msg = \<lparr>cmd = ''AddUser'', mothod = [], ssionID = ''262145'', msgID = ''7'', deviceId = [], srctopic = [],
     desttopic = [], bodyData = None\<rparr>"

lemma demo_adduser_request: "request (json_text (JObj demo_adduser) False 0 @ [NUL]) demo_msg"
proof (rule request_text)
  show "json_ok (JObj demo_adduser)" by code_simp
  show "ParesJsonMsg (Some (repr (JObj demo_adduser))) = Inr (Some demo_msg)" by code_simp
qed

lemma demo_msg_cmd: "known_cmd (cmd demo_msg)" "\<not> login_cmd (cmd demo_msg)"
  by code_simp+

theorem session_required_witness:
  "\<exists>buf'. JsonSwitch no_others (\<lambda>_. []) True 8 16 (Some (json_text (JObj demo_adduser) False 0 @ [NUL])) (Some (replicate 600 NUL)) demo_gateway =
     Some (Inr (demo_gateway, Some buf', KEY_UNAUTHORIZED))"
proof -
  have g: "listHead_J demo_gateway = []" by (simp add: demo_gateway_def)
  show ?thesis
    using session_required [OF demo_adduser_request demo_msg_cmd, of demo_gateway "replicate 600 NUL" no_others "\<lambda>_. []" True 8 16]
    by (auto simp: g session_ids_def)
qed

section \<open>Login and logout\<close>

lemma login_find: "login_cmd c \<Longrightarrow> find (\<lambda>(n, _). usr_strcasecmp c n = 0) cmdList = Some (''loginmainserver'', HLogin)"
  by (simp add: cmdList_def login_cmd_def)

definition with_table :: "('d, 'e, 'x) Gateway \<Rightarrow> nat \<Rightarrow> ('d, 'e, 'x) Gateway" where
  "with_table g hp = g\<lparr>adp := (adp g)\<lparr>apis := (apis (adp g))(hp \<mapsto> zero_table)\<rparr>\<rparr>"

lemma switch_login:
  assumes "request req msg" "login_cmd (cmd msg)" "hp \<noteq> 0"
  shows "JsonSwitch others fd w hp np (Some req) (Some buf) g =
    run_bind (FunLogin np (with_table g hp) hp (bodyData msg) (repr (JObj (reply_head msg)))) (\<lambda>(g, resp, iret).
    run_bind (finish fd buf hp g resp iret) (\<lambda>(g, buf, iret). Some (Inr (g, Some buf, iret))))"
proof -
  obtain d where d: "cJSON_Parse req = Some (Inr (Some d))" "ParesJsonMsg (Some d) = Inr (Some msg)"
    using assms(1) by (auto simp: request_def)
  show ?thesis using assms(2,3) login_find [OF assms(2)] d make_reply [OF d(2)]
    by (simp add: JsonSwitch_def login_cmd_def call_func_def with_table_def del: repr.simps)
qed

lemma with_table_ok:
  assumes "sess_ok (adp g)" "um_inv (users (adp g))" "hp \<noteq> 0"
  shows "sess_ok (adp (with_table g hp))" "um_inv (users (adp (with_table g hp)))" "apis (adp (with_table g hp)) hp = Some zero_table"
  using assms sess_ok_upd(1) [of "adp g" hp zero_table] by (simp_all add: with_table_def zero_table_def)

lemma data_member:
  assumes "bodyData msg = Some (repr (JObj ms))" "member ms nm = Some (JStr t)" "NUL \<notin> set t" "length t < 129"
  shows "get_text (bodyData msg) nm 129 = Inr t"
  unfolding assms(1) using get_text_member [OF assms(2-4)] .

definition session_data :: "int \<Rightarrow> json" where
  "session_data i = JObj [(''sessionid'', JStr (print_int i))]"

lemma login_reply_fits:
  assumes "ParesJsonMsg (Some d) = Inr (Some msg)" "- (2 ^ 31) \<le> i" "i < 2 ^ 31"
  shows "length (reply_text msg [(''data'', session_data i)] KEY_OK) < 1024"
proof -
  have "length (quoted (cmd msg)) \<le> 188" "length (quoted (msgID msg)) \<le> 188"
    using message_bounds [OF assms(1)] length_quoted [of "cmd msg"] length_quoted [of "msgID msg"] by linarith+
  moreover have "length (quoted (print_int i)) \<le> 128"
    using length_quoted [of "print_int i"] print_int_length [OF assms(2,3)] by linarith
  moreover have "length (quoted ''cmd'') \<le> 20" "length (quoted ''method'') \<le> 38" "length (quoted ''response'') = 10"
    "length (quoted ''msgid'') = 7" "length (quoted ''statuscode'') = 12" "length (quoted ''data'') = 6"
    "length (quoted ''sessionid'') = 11" "length (print_int KEY_OK) = 3" by code_simp+
  ultimately show ?thesis by (simp add: reply_text_def reply_head_def session_data_def)
qed

lemma session_reply:
  "cJSON_AddItemToObject (repr (JObj ms)) ''data'' (Some (cJSON_AddStringToObject cJSON_CreateObject ''sessionid'' (print_int i))) =
   repr (JObj (ms @ [(''data'', session_data i)]))"
  unfolding session_data_def repr_empty by (simp only: add_string_repr repr_add append.simps)

lemma login_granted:
  assumes req: "request req msg" "login_cmd (cmd msg)" and hp: "hp \<noteq> 0" "np \<noteq> 0" "apis (adp g) hp = None"
    and ok: "sess_ok (adp g)" "um_inv (users (adp g))" "reg_ok (apis (adp g)) (listHead_J g)" "1024 \<le> length buf"
    and data: "get_text (bodyData msg) ''username'' 129 = Inr n" "get_text (bodyData msg) ''password'' 129 = Inr (passWord u)"
    and usr: "um_get (users (adp g)) n = Some u" "0 < userLevel u" "userLevel u < 2 ^ 14" "length n < 128"
  shows "\<exists>g' i id. id = 65536 * int (userLevel u) + i \<and> 0 \<le> i \<and> i < 10000 \<and>
    JsonSwitch others fd w hp np (Some req) (Some buf) g = Some (Inr (g',
      Some (reply_text msg [(''data'', session_data id)] KEY_OK @ NUL # drop (Suc (length (reply_text msg [(''data'', session_data id)] KEY_OK))) buf),
      KEY_TRUE)) \<and>
    listHead_J g' = listHead_J g @ [hp] \<and> users (adp g') = users (adp g) \<and>
    apis (adp g') = (apis (adp g))(hp \<mapsto> login_table zero_table u i)"
proof -
  let ?g = "with_table g hp"
  obtain d where d: "ParesJsonMsg (Some d) = Inr (Some msg)" using req(1) by (auto simp: request_def)
  have "um_get (users (adp ?g)) n = Some u" using usr(1) by (simp add: with_table_def)
  note t = with_table_ok [OF ok(1,2) hp(1)]
  from login_ok [OF t(1,2) hp(1) t(3) hp(2) \<open>um_get (users (adp ?g)) n = Some u\<close> usr(4,2)] obtain a i where
    a: "AdpRegistHandle (adp ?g) hp n (passWord u) np = Some (Inr (a, KEY_TRUE))" "0 \<le> i" "i < 10000"
      "users a = users (adp ?g)" "apis a = (apis (adp ?g))(hp \<mapsto> login_table zero_table u i)" by blast
  let ?id = "65536 * int (userLevel u) + i"
  have id: "api_usrID (login_table zero_table u i) = ?id" "0 < ?id" "?id < 2 ^ 31"
    using a(2,3) usr(2,3) by (simp_all add: login_table_def)
  let ?g' = "?g\<lparr>adp := a, listHead_J := listHead_J g @ [hp]\<rparr>"
  have l: "FunLogin np ?g hp (bodyData msg) (repr (JObj (reply_head msg))) =
      Some (Inr (?g', repr (JObj (reply_head msg @ [(''data'', session_data ?id)])), KEY_TRUE))"
    using hp(1) data a(1,5) id by (simp add: FunLogin_def session_reply with_table_def del: repr.simps)
  have f: "length (reply_text msg [(''data'', session_data ?id)] KEY_OK) < length buf"
    using login_reply_fits [OF d, of ?id] id ok(4) by simp
  have j: "json_ok (JObj [(''data'', session_data ?id)])" by (simp add: session_data_def print_int_no_NUL)
  have "finish fd buf hp ?g' (repr (JObj (reply_head msg @ [(''data'', session_data ?id)]))) KEY_TRUE = Some (Inr (?g',
      reply_text msg [(''data'', session_data ?id)] KEY_OK @ NUL # drop (Suc (length (reply_text msg [(''data'', session_data ?id)] KEY_OK))) buf, KEY_TRUE))"
    using write_reply [OF d j _ _ f, of fd] by (simp add: finish_def del: repr.simps)
  then show ?thesis using a l by (intro exI [of _ ?g'] exI [of _ i] exI [of _ ?id])
    (simp add: switch_login [OF req hp(1)] with_table_def del: repr.simps)
qed

text \<open>A name of 128 characters gets through the front end and overruns the session's table.\<close>

lemma login_too_long:
  assumes req: "request req msg" "login_cmd (cmd msg)" and hp: "hp \<noteq> 0" "np \<noteq> 0"
    and ok: "sess_ok (adp g)" "um_inv (users (adp g))"
    and data: "get_text (bodyData msg) ''username'' 129 = Inr n" "get_text (bodyData msg) ''password'' 129 = Inr (passWord u)"
    and usr: "um_get (users (adp g)) n = Some u" "0 < userLevel u" "length n = 128"
  shows "JsonSwitch others fd w hp np (Some req) (Some buf) g = Some (Inl OutOfBounds)"
proof -
  let ?g = "with_table g hp"
  obtain d where d: "ParesJsonMsg (Some d) = Inr (Some msg)" using req(1) by (auto simp: request_def)
  have "um_get (users (adp ?g)) n = Some u" using usr(1) by (simp add: with_table_def)
  note t = with_table_ok [OF ok hp(1)]
  have "AdpRegistHandle (adp ?g) hp n (passWord u) np = Some (Inl OutOfBounds)"
    by (rule login_overruns [OF t(2) hp(1) t(3) hp(2) \<open>um_get (users (adp ?g)) n = Some u\<close> usr(3,2)])
  then have "FunLogin np ?g hp (bodyData msg) (repr (JObj (reply_head msg))) = Some (Inl OutOfBounds)"
    using hp(1) data by (simp add: FunLogin_def del: repr.simps)
  then show ?thesis by (simp add: switch_login [OF req hp(1)] del: repr.simps)
qed

lemma login_denied:
  assumes req: "request req msg" "login_cmd (cmd msg)" and hp: "hp \<noteq> 0" "apis (adp g) hp = None"
    and ok: "um_inv (users (adp g))" "512 \<le> length buf"
    and data: "get_text (bodyData msg) ''username'' 129 = Inr n" "get_text (bodyData msg) ''password'' 129 = Inr pw"
    and usr: "case um_get (users (adp g)) n of None \<Rightarrow> True | Some u \<Rightarrow> passWord u \<noteq> pw \<or> userLevel u = 0"
  shows "\<exists>buf'. JsonSwitch others fd w hp np (Some req) (Some buf) g = Some (Inr (g, Some buf', KEY_UNAUTHORIZED))"
proof -
  let ?g = "with_table g hp"
  obtain d where d: "ParesJsonMsg (Some d) = Inr (Some msg)" using req(1) by (auto simp: request_def)
  have t: "um_inv (users (adp ?g))" "apis (adp ?g) hp = Some zero_table" "users (adp ?g) = users (adp g)"
    using ok(1) by (simp_all add: with_table_def)
  let ?a = "(adp ?g)\<lparr>apis := (apis (adp ?g))(hp \<mapsto> InitAdpAPIRegistHandleNoAuthor zero_table)\<rparr>"
  have "AdpRegistHandle (adp ?g) hp n pw np = Some (Inr (?a, KEY_UNAUTHORIZED))"
    using login_refused [OF t(1) hp(1) t(2), where n = n and pw = pw and p = np] usr by (simp add: t(3))
  then have l: "FunLogin np ?g hp (bodyData msg) (repr (JObj (reply_head msg))) =
      Some (Inr (?g\<lparr>adp := ?a\<rparr>, repr (JObj (reply_head msg)), KEY_UNAUTHORIZED))"
    using hp data by (simp add: FunLogin_def del: repr.simps)
  have "length (reply_text msg [] KEY_UNAUTHORIZED) < length buf" using short_reply [OF d, of KEY_UNAUTHORIZED] ok(2) by simp
  from write_reply [OF d _ _ _ this, of fd]
  have "\<exists>buf'. finish fd buf hp (?g\<lparr>adp := ?a\<rparr>) (repr (JObj (reply_head msg))) KEY_UNAUTHORIZED = Some (Inr (g, buf', KEY_UNAUTHORIZED))"
    using hp(2) by (simp add: finish_def with_table_def fun_upd_idem del: repr.simps)
  then show ?thesis using l by (auto simp: switch_login [OF req hp(1)] simp del: repr.simps)
qed

lemma login_lookup:
  assumes "reg_ok (apis (adp g)) (listHead_J g)" "hp \<noteq> 0" "apis (adp g) hp = None"
    and "apis (adp g') = (apis (adp g))(hp \<mapsto> h)" "listHead_J g' = listHead_J g @ [hp]" "api_usrID h = k"
  shows "reg_lookup (apis (adp g')) (\<lambda>h. api_usrID h = atoi (print_int k)) (listHead_J g') =
    Inr (case find (\<lambda>v. api_usrID (the (apis (adp g) v)) = k) (listHead_J g) of None \<Rightarrow> hp | Some v \<Rightarrow> v)"
proof -
  have notin: "hp \<notin> set (listHead_J g)" using assms(1,3) by (auto simp: reg_ok_def)
  then have ok': "reg_ok (apis (adp g')) (listHead_J g @ [hp])" using assms by (auto simp: reg_ok_def)
  have "find (\<lambda>v. api_usrID (the (apis (adp g') v)) = k) (listHead_J g) = find (\<lambda>v. api_usrID (the (apis (adp g) v)) = k) (listHead_J g)"
    using notin assms(4) by (intro find_cong) auto
  then show ?thesis
    using reg_lookup_find [OF ok', of "\<lambda>h. api_usrID h = k"] assms(4-6) atoi_print_int [of "[]" k]
    by (auto simp: find_append split: option.splits)
qed

text \<open>
  C20. Login over JSON: with the name and password of an account of a valid level the gateway opens a
  session, grants its table exactly the entries of the level, and answers code 200 with the decimal
  session identifier. The lookup of later requests finds this table by it, unless an older session has the same
  identifier, as happens after 10000 logins; then the older one is found. An account whose name has 128 characters overruns its
  table instead. With any other credentials the gateway answers 401 and the whole state, sessions and tables
  included, is what it was.
\<close>

theorem json_login:
  assumes req: "request req msg" "login_cmd (cmd msg)" and hp: "hp \<noteq> 0" "np \<noteq> 0" "apis (adp g) hp = None"
    and ok: "sess_ok (adp g)" "um_inv (users (adp g))" "reg_ok (apis (adp g)) (listHead_J g)" "1024 \<le> length buf"
    and data: "get_text (bodyData msg) ''username'' 129 = Inr n" "get_text (bodyData msg) ''password'' 129 = Inr pw"
    and level: "\<forall>u. um_get (users (adp g)) n = Some u \<longrightarrow> userLevel u < 2 ^ 14"
  shows "if \<exists>u. um_get (users (adp g)) n = Some u \<and> passWord u = pw \<and> 0 < userLevel u
    then if length n = 128 then JsonSwitch others fd w hp np (Some req) (Some buf) g = Some (Inl OutOfBounds)
    else \<exists>u g' i id buf'. um_get (users (adp g)) n = Some u \<and> id = 65536 * int (userLevel u) + i \<and> 0 \<le> i \<and> i < 10000 \<and>
      JsonSwitch others fd w hp np (Some req) (Some buf) g = Some (Inr (g', Some buf', KEY_TRUE)) \<and>
      cJSON_Parse buf' = Some (Inr (Some (repr (JObj
        (reply_head msg @ [(''data'', JObj [(''sessionid'', JStr (print_int id))]), (''statuscode'', JNum KEY_OK)]))))) \<and>
      listHead_J g' = listHead_J g @ [hp] \<and> apis (adp g') = (apis (adp g))(hp \<mapsto> login_table zero_table u i) \<and>
      set (granted (login_table zero_table u i)) = set (level_entries (userLevel u)) \<and>
      reg_lookup (apis (adp g')) (\<lambda>h. api_usrID h = atoi (print_int id)) (listHead_J g') =
        Inr (case find (\<lambda>v. api_usrID (the (apis (adp g) v)) = id) (listHead_J g) of None \<Rightarrow> hp | Some v \<Rightarrow> v)
    else \<exists>buf'. JsonSwitch others fd w hp np (Some req) (Some buf) g = Some (Inr (g, Some buf', KEY_UNAUTHORIZED))"
proof (cases "\<exists>u. um_get (users (adp g)) n = Some u \<and> passWord u = pw \<and> 0 < userLevel u")
  case False
  then have "case um_get (users (adp g)) n of None \<Rightarrow> True | Some u \<Rightarrow> passWord u \<noteq> pw \<or> userLevel u = 0"
    by (auto split: option.splits)
  then show ?thesis unfolding if_not_P [OF False] using ok(4) by (intro login_denied [OF req hp(1,3) ok(2) _ data]) simp_all
next
  case True
  then obtain u where u: "um_get (users (adp g)) n = Some u" "passWord u = pw" "0 < userLevel u" by blast
  show ?thesis
  proof (cases "length n = 128")
    case long: True
    then show ?thesis using True login_too_long [OF req hp(1,2) ok(1,2) data(1) data(2) [folded u(2)] u(1,3) long] by simp
  next
    case short: False
    obtain d where d: "ParesJsonMsg (Some d) = Inr (Some msg)" using req(1) by (auto simp: request_def)
    have lvl: "userLevel u < 2 ^ 14" "length n < 128" using level u(1) get_text_bound [OF data(1)] short by simp_all
    obtain g' i id where r: "id = 65536 * int (userLevel u) + i" "0 \<le> i" "i < 10000"
      "JsonSwitch others fd w hp np (Some req) (Some buf) g = Some (Inr (g',
        Some (reply_text msg [(''data'', session_data id)] KEY_OK @ NUL # drop (Suc (length (reply_text msg [(''data'', session_data id)] KEY_OK))) buf), KEY_TRUE))"
      "listHead_J g' = listHead_J g @ [hp]" "apis (adp g') = (apis (adp g))(hp \<mapsto> login_table zero_table u i)"
      using login_granted [OF req hp ok data(1) data(2) [folded u(2)] u(1,3) lvl, of others fd w]
      by (elim exE conjE) (rule that; assumption)
    have "json_ok (JObj (reply_head msg @ [(''data'', session_data id)] @ [(''statuscode'', JNum KEY_OK)]))"
      using message_bounds [OF d] by (simp add: reply_head_def session_data_def print_int_no_NUL)
    note p = parse_repr [OF this]
    have "api_usrID (login_table zero_table u i) = id" using r(1) by (simp add: login_table_def)
    note l = login_lookup [OF ok(3) hp(1,3) r(6,5) this]
    have "set (granted (login_table zero_table u i)) = set (level_entries (userLevel u))"
      by (simp add: login_table_def zero_table_def)
    then show ?thesis using True u(1) r p l unfolding reply_text_def session_data_def if_P [OF True] if_not_P [OF short]
      by (intro exI conjI) (assumption | simp only: append.simps)+
  qed
qed

definition demo_login :: "string \<Rightarrow> (string \<times> json) list" where
  "demo_login pw = [(''cmd'', JStr ''loginmainserver''), (''data'', JObj [(''username'', JStr ''op''), (''password'', JStr pw)])]"

definition demo_login_msg :: "string \<Rightarrow> JsonMsg_T" where
  "demo_login_msg pw = \<lparr>cmd = ''loginmainserver'', mothod = [], ssionID = [], msgID = [], deviceId = [], srctopic = [],
     desttopic = [], bodyData = cJSON_GetObjectItem (repr (JObj (demo_login pw))) ''data''\<rparr>"

lemma demo_login_request: "request (json_text (JObj (demo_login ''pw'')) False 0 @ [NUL]) (demo_login_msg ''pw'')"
proof (rule request_text)
  show "json_ok (JObj (demo_login ''pw''))" by code_simp
  show "ParesJsonMsg (Some (repr (JObj (demo_login ''pw'')))) = Inr (Some (demo_login_msg ''pw''))" by code_simp
qed

lemma demo_gateway_ok: "sess_ok (adp demo_gateway)" "um_inv (users (adp demo_gateway))"
    "reg_ok (apis (adp demo_gateway)) (listHead_J demo_gateway)" "apis (adp demo_gateway) 8 = None" "users (adp demo_gateway) = users demo_adp"
  using demo_adp_ok by (simp_all add: demo_gateway_def) (simp add: demo_adp_def)

theorem json_login_witness:
  "\<exists>g' buf'. JsonSwitch no_others (\<lambda>_. []) True 8 16 (Some (json_text (JObj (demo_login ''pw'')) False 0 @ [NUL])) (Some (replicate 2000 NUL)) demo_gateway =
     Some (Inr (g', Some buf', KEY_TRUE)) \<and> listHead_J g' = [8]"
proof -
  have m: "login_cmd (cmd (demo_login_msg ''pw''))" "get_text (bodyData (demo_login_msg ''pw'')) ''username'' 129 = Inr ''op''"
    "get_text (bodyData (demo_login_msg ''pw'')) ''password'' 129 = Inr ''pw''" by code_simp+
  have "\<exists>u. um_get (users (adp demo_gateway)) ''op'' = Some u \<and> passWord u = ''pw'' \<and> 0 < userLevel u"
    "\<forall>u. um_get (users (adp demo_gateway)) ''op'' = Some u \<longrightarrow> userLevel u < 2 ^ 14"
    by (simp_all add: demo_gateway_ok(5) demo_operator_def demo_guest_def)
  from json_login [OF demo_login_request m(1) _ _ demo_gateway_ok(4,1,2,3) _ m(2,3) this(2), of 16 "replicate 2000 NUL" no_others "\<lambda>_. []" True]
    this(1)
  show ?thesis by (auto simp: demo_gateway_def simp del: repr.simps json_text.simps)
qed

lemma unregister_total:
  assumes "sess_ok s" "hp \<noteq> 0" "apis s hp \<noteq> None"
  shows "\<exists>s' r h. AdpUnRegistHandle s hp = Inr (s', r) \<and> (apis s' = apis s \<or> apis s' = (apis s)(hp \<mapsto> h))"
proof -
  obtain h where h: "apis s hp = Some h" using assms(3) by auto
  show ?thesis using GetUsrRegistInfo_find [OF assms(1), of "api_usrID h"] assms(2) h
    by (auto simp: AdpUnRegistHandle_def split: option.splits)
qed

lemma session_lookup:
  assumes "reg_ok (apis (adp g)) (listHead_J g)" "distinct (session_ids g)" "v \<in> set (listHead_J g)"
  shows "reg_lookup (apis (adp g)) (\<lambda>h. api_usrID h = api_usrID (the (apis (adp g) v))) (listHead_J g) = Inr v"
proof -
  let ?id = "\<lambda>u. api_usrID (the (apis (adp g) u))"
  have "find (\<lambda>u. ?id u = ?id v) vs = Some v" if "distinct (map ?id vs)" "v \<in> set vs" for vs
    using that by (induction vs) (auto simp: image_iff)
  then show ?thesis using reg_lookup_find [OF assms(1)] assms(2,3) by (simp add: session_ids_def)
qed

lemma logout_find:
  "usr_strcasecmp c ''loginoutmainserver'' = 0 \<Longrightarrow> known_cmd c \<and> \<not> login_cmd c \<and>
   find (\<lambda>(n, _). usr_strcasecmp c n = 0) cmdList = Some (''loginoutmainserver'', HLoginOut)"
  by (auto simp: known_cmd_def login_cmd_def cmdList_def strcasecmp_iff dest: map_eq_imp_length_eq)

lemma logout_done:
  assumes req: "request req msg" "usr_strcasecmp (cmd msg) ''loginoutmainserver'' = 0"
    and ok: "sess_ok (adp g)" "reg_ok (apis (adp g)) (listHead_J g)" "distinct (session_ids g)" "512 \<le> length buf"
    and v: "v \<in> set (listHead_J g)" "api_usrID (the (apis (adp g) v)) = atoi (ssionID msg)"
  shows "\<exists>g' buf'. JsonSwitch others fd w hp np (Some req) (Some buf) g = Some (Inr (g', Some buf', KEY_TRUE)) \<and>
    listHead_J g' = remove1 v (listHead_J g) \<and> apis (adp g') = (apis (adp g))(v := None)"
proof -
  obtain d where d: "ParesJsonMsg (Some d) = Inr (Some msg)" using req(1) by (auto simp: request_def)
  note c = logout_find [OF req(2)]
  have v0: "v \<noteq> 0" "apis (adp g) v \<noteq> None" using reg_ok_in [OF ok(2) v(1)] by auto
  obtain a r h where a: "AdpUnRegistHandle (adp g) v = Inr (a, r)" "apis a = apis (adp g) \<or> apis a = (apis (adp g))(v \<mapsto> h)"
    using unregister_total [OF ok(1) v0] by blast
  let ?g = "g\<lparr>adp := a\<lparr>apis := (apis a)(v := None)\<rparr>, listHead_J := remove1 v (listHead_J g)\<rparr>"
  have f: "FunLoginOut g v (bodyData msg) (repr (JObj (reply_head msg))) = Some (Inr (?g, repr (JObj (reply_head msg)), KEY_TRUE))"
    using a(1) v(1) by (simp add: FunLoginOut_def del: repr.simps)
  have "length (reply_text msg [] KEY_OK) < length buf" using short_reply [OF d, of KEY_OK] ok(4) by simp
  from write_reply [OF d _ _ _ this, of fd]
  obtain buf' where "finish fd buf v ?g (repr (JObj (reply_head msg))) KEY_TRUE = Some (Inr (?g, buf', KEY_TRUE))"
    by (simp add: finish_def del: repr.simps)
  then have "JsonSwitch others fd w hp np (Some req) (Some buf) g = Some (Inr (?g, Some buf', KEY_TRUE))"
    using switch_session [OF req(1), of g v "''loginoutmainserver''" HLoginOut others fd w hp np buf] c
      session_lookup [OF ok(2,3) v(1)] v(2) v0(1) f by (simp add: call_func_def del: repr.simps)
  moreover have "apis (adp ?g) = (apis (adp g))(v := None)" using a(2) by auto
  ultimately show ?thesis by (intro exI conjI) (assumption | simp)+
qed

text \<open>
  C21. Logout ends the session, as long as no two live sessions have the same identifier (they can after 10000 logins): the gateway
  answers success, the table of the session is freed and leaves the list, all other sessions keep theirs, and in the state after
  the logout every request with this session's identifier, except a login, is refused with 401 and leaves that state as it is,
  so that any number of them is.
\<close>

theorem logout_ends_session:
  assumes req: "request req msg" "usr_strcasecmp (cmd msg) ''loginoutmainserver'' = 0"
    and ok: "sess_ok (adp g)" "reg_ok (apis (adp g)) (listHead_J g)" "distinct (session_ids g)" "512 \<le> length buf"
    and v: "v \<in> set (listHead_J g)" "api_usrID (the (apis (adp g) v)) = atoi (ssionID msg)"
  shows "\<exists>g' buf'. JsonSwitch others fd w hp np (Some req) (Some buf) g = Some (Inr (g', Some buf', KEY_TRUE)) \<and>
    listHead_J g' = remove1 v (listHead_J g) \<and> apis (adp g') = (apis (adp g))(v := None) \<and>
    (\<forall>req2 msg2 buf2. request req2 msg2 \<and> known_cmd (cmd msg2) \<and> \<not> login_cmd (cmd msg2) \<and>
       atoi (ssionID msg2) = atoi (ssionID msg) \<and> 512 \<le> length buf2 \<longrightarrow>
       (\<exists>out. JsonSwitch others fd w hp np (Some req2) (Some buf2) g' = Some (Inr (g', Some out, KEY_UNAUTHORIZED))))"
proof -
  obtain g' buf' where g': "JsonSwitch others fd w hp np (Some req) (Some buf) g = Some (Inr (g', Some buf', KEY_TRUE))"
    "listHead_J g' = remove1 v (listHead_J g)" "apis (adp g') = (apis (adp g))(v := None)"
    using logout_done [OF assms, of others fd w hp np] by blast
  have ok': "reg_ok (apis (adp g')) (listHead_J g')" using reg_ok_del [OF ok(2)] g'(2,3) by simp
  have dv: "distinct (listHead_J g)" using ok(2) by (simp add: reg_ok_def)
  have "atoi (ssionID msg) \<notin> set (session_ids g')"
    using ok(3) v dv g'(2,3) by (auto simp: session_ids_def distinct_map inj_on_def)
  then have "\<exists>out. JsonSwitch others fd w hp np (Some req2) (Some buf2) g' = Some (Inr (g', Some out, KEY_UNAUTHORIZED))"
    if "request req2 msg2" "known_cmd (cmd msg2)" "\<not> login_cmd (cmd msg2)" "atoi (ssionID msg2) = atoi (ssionID msg)" "512 \<le> length buf2"
    for req2 msg2 buf2
    using refused_without_session [OF that(1-3) ok' _ that(5), of others fd w hp np] that(4) by auto
  then show ?thesis using g' by blast
qed

definition session_gateway :: "(unit, unit, unit) Gateway" where
  "session_gateway = demo_gateway\<lparr>adp := clash_adp, listHead_J := [200]\<rparr>"

definition demo_logout :: "(string \<times> json) list" where
  "demo_logout = [(''cmd'', JStr ''loginoutmainserver''), (''msgid'', JStr ''8''), (''sessionid'', JStr ''262145'')]"

definition demo_logout_msg :: JsonMsg_T where
  "demo_logout_msg = \<lparr>cmd = ''loginoutmainserver'', mothod = [], ssionID = ''262145'', msgID = ''8'', deviceId = [], srctopic = [],
     desttopic = [], bodyData = None\<rparr>"

lemma demo_logout_request: "request (json_text (JObj demo_logout) False 0 @ [NUL]) demo_logout_msg"
proof (rule request_text)
  show "json_ok (JObj demo_logout)" by code_simp
  show "ParesJsonMsg (Some (repr (JObj demo_logout))) = Inr (Some demo_logout_msg)" by code_simp
qed

lemma session_gateway_ok:
  "sess_ok (adp session_gateway)" "reg_ok (apis (adp session_gateway)) (listHead_J session_gateway)"
  "session_ids session_gateway = [262145]" "200 \<in> set (listHead_J session_gateway)" "listHead_J session_gateway = [200]"
  "api_usrID (the (apis (adp session_gateway) 200)) = 262145"
  by (auto simp: session_gateway_def demo_gateway_def session_ids_def sess_ok_def reg_ok_def clash_adp_def api_of_def demo_adp_def)

theorem logout_ends_session_witness:
  "\<exists>g' buf' out. JsonSwitch no_others (\<lambda>_. []) True 8 16 (Some (json_text (JObj demo_logout) False 0 @ [NUL])) (Some (replicate 600 NUL)) session_gateway =
     Some (Inr (g', Some buf', KEY_TRUE)) \<and> listHead_J g' = [] \<and>
   JsonSwitch no_others (\<lambda>_. []) True 8 16 (Some (json_text (JObj demo_adduser) False 0 @ [NUL])) (Some (replicate 600 NUL)) g' =
     Some (Inr (g', Some out, KEY_UNAUTHORIZED))"
proof -
  have c: "usr_strcasecmp (cmd demo_logout_msg) ''loginoutmainserver'' = 0" by code_simp
  have i: "atoi (ssionID demo_logout_msg) = 262145" "atoi (ssionID demo_msg) = 262145" by code_simp+
  have r: "request (json_text (JObj demo_adduser) False 0 @ [NUL]) demo_msg \<and> known_cmd (cmd demo_msg) \<and> \<not> login_cmd (cmd demo_msg) \<and>
      atoi (ssionID demo_msg) = atoi (ssionID demo_logout_msg) \<and> 512 \<le> length (replicate 600 NUL)"
    using demo_adduser_request demo_msg_cmd i by simp
  have "api_usrID (the (apis (adp session_gateway) 200)) = atoi (ssionID demo_logout_msg)" "512 \<le> length (replicate 600 NUL)"
    "distinct (session_ids session_gateway)"
    using session_gateway_ok i by simp_all
  from logout_ends_session [OF demo_logout_request c session_gateway_ok(1,2) this(3,2) session_gateway_ok(4) this(1), of no_others "\<lambda>_. []" True 8 16]
  show ?thesis using r session_gateway_ok(5) by fastforce
qed

end
