(* ===== verification/Gateway.thy ===== *)
theory Gateway
  imports HttpApi JsonApi
begin

text \<open>
  The path of a request through the gateway: the socket server of \<open>TSocket\<close>, the callbacks of \<open>HttpApi\<close> and the
  commands of \<open>JsonApi\<close>, composed as \<^verbatim>\<open>HttpApiStart\<close> does.
\<close>

text \<open>
  A dispatcher that answers what \<open>JsonSwitch\<close> answers in the state \<open>g\<close>, whenever \<open>JsonSwitch\<close> returns.
\<close>

definition serves :: "'x other_handler \<Rightarrow> (rat \<Rightarrow> string) \<Rightarrow> bool \<Rightarrow> nat \<Rightarrow> nat \<Rightarrow> ('d, 'e, 'x) Gateway \<Rightarrow>
    ('d, 'e, 'x) Gateway dispatcher \<Rightarrow> bool" where
  "serves others fd w hp np g D \<longleftrightarrow> (\<forall>body buff r. JsonSwitch others fd w hp np (Some (body @ [NUL])) (Some buff) g = Some r \<longrightarrow>
     D body buff = (case r of Inl e \<Rightarrow> Inl e | Inr (g', buff', iret) \<Rightarrow> Inr (g', the buff', iret)))"

lemma http_head_length:
  assumes "tm_ok now" "length b < 512"
  shows "length (HttpApi.reply_head now KEY_UNAUTHORIZED b) < 9000"
proof -
  have "resp_code KEY_UNAUTHORIZED = 401" "phrase 401 = ''Unauthorized''" "print_int 401 = ''401''" by code_simp+
  moreover have "length (print_int (int (length b))) \<le> 3"
    using assms(2) length_print_nat [of "length b" 2] by (simp add: print_int_def)
  moreover have "length (utc_text now) \<le> 29" by (rule utc_text_ok(1) [OF assms(1)])
  ultimately show ?thesis by (simp add: HttpApi.reply_head_def resp_head_def CRLF_def)
qed

text \<open>The text of a reply holds no NUL.\<close>

lemma print_char_no_NUL: "NUL \<notin> set (print_char c)"
proof -
  have "(of_char c :: nat) < 16 * 16" by simp
  then have "(of_char c :: nat) div 16 < 16" by (rule less_mult_imp_div_less)
  then have "hex_digit ((of_char c :: nat) div 16) \<noteq> NUL" "hex_digit ((of_char c :: nat) mod 16) \<noteq> NUL"
    using hex_digit_plain [of "of_char c div 16"] hex_digit_plain [of "of_char c mod 16"] by auto
  then show ?thesis by (auto simp: print_char_def)
qed

lemma quoted_no_NUL: "NUL \<notin> set (quoted s)"
  using print_char_no_NUL by (auto simp: quoted_def)

lemma reply_text_no_NUL: "NUL \<notin> set (reply_text msg [] code)"
  using quoted_no_NUL print_int_no_NUL by (simp add: reply_text_def JsonApi.reply_head_def)

text \<open>
  C27. Nobody gets past the front end without a session: whatever HTTP request with a JSON command other than the login
  arrives on a connection, in whatever pieces, when its session identifier is not that of a live session the
  gateway sends one reply on that connection, with status 401 and a JSON object that repeats the command and the
  message identifier and carries code 401, and no module's state changes.
\<close>

theorem gateway_refuses:
  assumes req: "request_ok m u h n body" "length body = n" "0 < n" "length (http_request m u h n body) < DF_NET_MSGBUFLEN"
    and conn: "arrives es (http_request m u h n body)" "sock_ip si \<noteq> []" "0 < sock_port si" "0 < sockfd si" "tm_ok now"
    and json: "request (body @ [NUL]) msg" "known_cmd (cmd msg)" "\<not> login_cmd (cmd msg)"
    and state: "reg_ok (apis (adp g)) (listHead_J g)" "atoi (ssionID msg) \<notin> set (session_ids g)"
    and disp: "serves others fd w hp np g D"
  shows "\<exists>reply. cJSON_Parse (reply @ [NUL]) = Some (Inr (Some (repr (JObj [(''cmd'', JStr (cmd msg)), (''method'', JStr ''response''),
        (''msgid'', JStr (msgID msg)), (''statuscode'', JNum 401)])))) \<and>
      recv_loop HttpChecked (Requst D now) si cli0 0 es =
        Inr (Served (Some g, [(sockfd si, HttpApi.reply_head now KEY_UNAUTHORIZED reply @ reply)], KEY_TRUE))"
proof -
  let ?reply = "reply_text msg [] KEY_UNAUTHORIZED"
  obtain d where d: "ParesJsonMsg (Some d) = Inr (Some msg)" using json(1) by (auto simp: request_def)
  have l: "length ?reply < 512" using short_reply [OF d] by simp
  have ok: "json_ok (JObj (JsonApi.reply_head msg @ [] @ [(''statuscode'', JNum KEY_UNAUTHORIZED)]))"
    using message_bounds [OF d] by (simp add: JsonApi.reply_head_def)
  have parse: "cJSON_Parse (?reply @ [NUL]) = Some (Inr (Some (repr (JObj [(''cmd'', JStr (cmd msg)), (''method'', JStr ''response''),
        (''msgid'', JStr (msgID msg)), (''statuscode'', JNum 401)]))))"
    using parse_repr [OF ok, of "[]"] by (simp add: reply_text_def JsonApi.reply_head_def del: repr.simps json_text.simps)
  have "JsonSwitch others fd w hp np (Some (body @ [NUL])) (Some (replicate HTTPMSG_MAXLEN NUL)) g =
      Some (Inr (g, Some (?reply @ NUL # drop (Suc (length ?reply)) (replicate HTTPMSG_MAXLEN NUL)), KEY_UNAUTHORIZED))"
    by (rule refused_without_session [OF json state]) (simp add: HTTPMSG_MAXLEN_def)
  then have D: "D body (replicate HTTPMSG_MAXLEN NUL) =
      Inr (g, ?reply @ NUL # drop (Suc (length ?reply)) (replicate HTTPMSG_MAXLEN NUL), KEY_UNAUTHORIZED)"
    using disp unfolding serves_def by fastforce
  have b: "c_str (?reply @ NUL # drop (Suc (length ?reply)) (replicate HTTPMSG_MAXLEN NUL)) 0 = Inr ?reply"
    by (rule c_str_at [OF reply_text_no_NUL])
  have "length (HttpApi.reply_head now KEY_UNAUTHORIZED ?reply) + length ?reply < HTTPMSG_MAXLEN"
    using http_head_length [OF conn(5) l] l by (simp add: HTTPMSG_MAXLEN_def)
  then show ?thesis using serves_request [where JsonSwitch = D and body = body, OF req conn D b] parse by auto
qed

text \<open>A dispatcher for the witness: it answers as \<open>JsonSwitch\<close> does, and refuses where that does not return.\<close>

definition demo_dispatcher :: "(unit, unit, unit) Gateway dispatcher" where
  "demo_dispatcher body buff = (case JsonSwitch no_others (\<lambda>_. []) True 8 16 (Some (body @ [NUL])) (Some buff) demo_gateway of
     Some (Inr (g', buff', iret)) \<Rightarrow> Inr (g', the buff', iret) | Some (Inl e) \<Rightarrow> Inl e | None \<Rightarrow> Inr (demo_gateway, buff, KEY_FALSE))"

definition demo_body :: string where
  "demo_body = json_text (JObj demo_adduser) False 0"

theorem gateway_refuses_witness:
  "\<exists>reply. recv_loop HttpChecked (Requst demo_dispatcher demo_now)
     \<lparr>sockfd = 9, socketType = SOCKETTYPE_ENUM_SUB, sock_ip = ''10.0.0.7'', sock_port = 4000\<rparr> cli0 0
     [SelectTimeout, RecvData (http_request ''POST'' ''/'' ''gw'' (length demo_body) demo_body)] =
   Inr (Served (Some demo_gateway, [(9, HttpApi.reply_head demo_now KEY_UNAUTHORIZED reply @ reply)], KEY_TRUE))"
proof -
  let ?t = "http_request ''POST'' ''/'' ''gw'' (length demo_body) demo_body"
  have lb: "length demo_body < 100" "0 < length demo_body" by code_simp+
  have body: \<open>demo_body = ''{"cmd":"AddUser","msgid":"7","sessionid":"262145"}''\<close> by code_simp
  have ok: "request_ok ''POST'' ''/'' ''gw'' (length demo_body) demo_body"
    unfolding body by (simp add: request_ok_def token_def tag_free_def ws_def)
  have "length (print_nat (length demo_body)) \<le> 2" using length_print_nat [of "length demo_body" 1] lb(1) by simp
  then have l: "length ?t < DF_NET_MSGBUFLEN" using lb(1) by (simp add: http_request_def CRLF_def DF_NET_MSGBUFLEN_def)
  have a: "arrives [SelectTimeout, RecvData ?t] ?t" using request_nonempty [of "''POST''" "''/''" "''gw''"] by (simp add: arrives_def)
  have now: "tm_ok demo_now" by (simp add: tm_ok_def demo_now_def)
  have req: "request (demo_body @ [NUL]) demo_msg" using demo_adduser_request by (simp only: demo_body_def)
  have g: "reg_ok (apis (adp demo_gateway)) (listHead_J demo_gateway)" "atoi (ssionID demo_msg) \<notin> set (session_ids demo_gateway)"
    by (simp_all add: demo_gateway_def session_ids_def)
  have d: "serves no_others (\<lambda>_. []) True 8 16 demo_gateway demo_dispatcher"
    unfolding serves_def demo_dispatcher_def by (auto split: sum.splits)
  show ?thesis
    using gateway_refuses [OF ok refl _ l a _ _ _ now req demo_msg_cmd g d, of
        "\<lparr>sockfd = 9, socketType = SOCKETTYPE_ENUM_SUB, sock_ip = ''10.0.0.7'', sock_port = 4000\<rparr>"] lb by auto
qed

end
