(* ===== verification/Calendar.thy ===== *)
theory Calendar
  imports Prelude
begin

text \<open>
  The calendar functions of the C library that \<^verbatim>\<open>src/Modules/TimeManage/timemanage.c\<close> calls: \<open>gmtime_r\<close>,
  \<open>localtime_r\<close> and \<open>mktime\<close>, on the proleptic Gregorian calendar and without leap seconds, as POSIX has them.
  \<open>off\<close> is the offset of the local zone, in seconds to be added to UTC; the zones the program writes have no daylight
  saving time. \<open>mktime\<close> accepts every value of its fields and normalises them.

  The lemmas show that \<open>gmtime_r\<close> and \<open>timegm\<close> are inverse to each other, on every second and on every date.
\<close>

section \<open>Days\<close>

definition leap :: "int \<Rightarrow> bool" where
  "leap y \<longleftrightarrow> y mod 4 = 0 \<and> y mod 100 \<noteq> 0 \<or> y mod 400 = 0"

text \<open>The days from the epoch to the first of January.\<close>

definition jan1 :: "int \<Rightarrow> int" where
  "jan1 y = 365 * (y - 1970) + (y - 1) div 4 - (y - 1) div 100 + (y - 1) div 400 - 477"

definition month_starts :: "int list" where
  "month_starts = [0, 31, 59, 90, 120, 151, 181, 212, 243, 273, 304, 334, 365]"

text \<open>The days from the first of January to the first of a month, counted from 0.\<close>

definition month_start :: "int \<Rightarrow> nat \<Rightarrow> int" where
  "month_start y m = month_starts ! m + (if 2 \<le> m \<and> leap y then 1 else 0)"

definition days_of :: "int \<Rightarrow> int \<Rightarrow> int \<Rightarrow> int" where
  "days_of y m d = jan1 (y + m div 12) + month_start (y + m div 12) (nat (m mod 12)) + d - 1"

lemma div_pred:
  fixes y k :: int
  assumes "0 < k"
  shows "y div k = (y - 1) div k + (if y mod k = 0 then 1 else 0)"
proof (cases "y mod k = 0")
  case True
  then have "y - 1 = k * (y div k - 1) + (k - 1)" using div_mult_mod_eq [of y k] by (simp add: algebra_simps)
  then have "(y - 1) div k = y div k - 1" by (rule int_div_pos_eq) (use assms in auto)
  then show ?thesis using True by simp
next
  case False
  moreover have "0 \<le> y mod k" "y mod k < k" using assms by simp_all
  moreover have "y - 1 = k * (y div k) + (y mod k - 1)" using div_mult_mod_eq [of y k] by (simp add: algebra_simps)
  then have "(y - 1) div k = y div k" by (rule int_div_pos_eq) (use calculation in auto)
  ultimately show ?thesis by simp
qed

lemma jan1_step: "jan1 (y + 1) = jan1 y + (if leap y then 366 else 365)"
proof -
  have m: "y mod 400 mod 100 = y mod 100" "y mod 100 mod 4 = y mod 4" by (rule mod_mod_cancel, simp)+
  have z: "y mod 400 = 0 \<Longrightarrow> y mod 100 = 0" by (subst m(1) [symmetric]) simp
  have z': "y mod 100 = 0 \<Longrightarrow> y mod 4 = 0" by (subst m(2) [symmetric]) simp
  have j: "jan1 (y + 1) = 365 * (y - 1970) + 365 + y div 4 - y div 100 + y div 400 - 477" by (simp add: jan1_def)
  have d: "y div 4 = (y - 1) div 4 + (if y mod 4 = 0 then 1 else 0)" "y div 100 = (y - 1) div 100 + (if y mod 100 = 0 then 1 else 0)"
    "y div 400 = (y - 1) div 400 + (if y mod 400 = 0 then 1 else 0)" by (rule div_pred, simp)+
  have l: "leap y \<longleftrightarrow> y mod 4 = 0 \<and> (y mod 100 \<noteq> 0 \<or> y mod 400 = 0)" using z z' unfolding leap_def by argo
  have g: "(C \<longrightarrow> B) \<Longrightarrow> (B \<longrightarrow> A) \<Longrightarrow> x + 365 + (a + (if A then 1 else 0)) - (b + (if B then 1 else 0)) +
      (c + (if C then 1 else 0)) - 477 = x + a - b + c - 477 + (if A \<and> (\<not> B \<or> C) then 366 else 365)" for A B C and x a b c :: int
    by (cases A; cases B; cases C; simp)
  show ?thesis unfolding j d l unfolding jan1_def by (rule g) (iprover intro: z z')+
qed

lemma jan1_mono: "y \<le> y' \<Longrightarrow> jan1 y \<le> jan1 y'"
  by (induction y' rule: int_ge_induct) (auto simp: jan1_step)

lemma jan1_less: "y < y' \<Longrightarrow> jan1 (y + 1) \<le> jan1 y'"
  using jan1_mono [of "y + 1" y'] by simp

lemma jan1_up: "0 \<le> k \<Longrightarrow> jan1 (1970 + k) \<le> 366 * k"
proof (induction k rule: int_ge_induct)
  case (step k)
  then show ?case using jan1_step [of "1970 + k"] by (auto simp: algebra_simps split: if_splits)
qed (simp add: jan1_def)

lemma jan1_down: "k \<le> 0 \<Longrightarrow> jan1 (1970 + k) \<le> 365 * k"
proof (induction k rule: int_le_induct)
  case (step k)
  then show ?case using jan1_step [of "1970 + (k - 1)"] by (auto simp: algebra_simps split: if_splits)
qed (simp add: jan1_def)

function year_up :: "int \<Rightarrow> int \<Rightarrow> int" where
  "year_up y n = (if jan1 (y + 1) \<le> n then year_up (y + 1) n else y)"
  by auto
termination by (relation "measure (\<lambda>(y, n). nat (n + 1 - jan1 y))") (auto simp: jan1_step split: if_splits)

declare year_up.simps [simp del]

definition year_of :: "int \<Rightarrow> int" where
  "year_of n = year_up (1970 + (if n < 0 then n div 365 else n div 366)) n"

lemma year_up_ok: "jan1 y \<le> n \<Longrightarrow> jan1 (year_up y n) \<le> n \<and> n < jan1 (year_up y n + 1)"
proof (induction y n rule: year_up.induct)
  case (1 y n)
  then show ?case by (cases "jan1 (y + 1) \<le> n") (simp_all add: year_up.simps [of y])
qed

lemma year_of_ok: "jan1 (year_of n) \<le> n" "n < jan1 (year_of n + 1)"
proof -
  have "jan1 (1970 + (if n < 0 then n div 365 else n div 366)) \<le> n"
  proof (cases "n < 0")
    case True
    moreover have "365 * (n div 365) + n mod 365 = n" "0 \<le> n mod 365" by simp_all
    ultimately have "n div 365 \<le> 0" "365 * (n div 365) \<le> n" by linarith+
    then show ?thesis using True jan1_down [of "n div 365"] by simp
  next
    case False
    moreover have "366 * (n div 366) + n mod 366 = n" "0 \<le> n mod 366" "n mod 366 < 366" by simp_all
    ultimately have "0 \<le> n div 366" "366 * (n div 366) \<le> n" by linarith+
    then show ?thesis using False jan1_up [of "n div 366"] by simp
  qed
  then show "jan1 (year_of n) \<le> n" "n < jan1 (year_of n + 1)" using year_up_ok by (simp_all add: year_of_def)
qed

lemma year_of_unique: "jan1 y \<le> n \<Longrightarrow> n < jan1 (y + 1) \<Longrightarrow> year_of n = y"
  using year_of_ok [of n] jan1_less [of y "year_of n"] jan1_less [of "year_of n" y] by linarith

section \<open>Months\<close>

function month_up :: "int \<Rightarrow> int \<Rightarrow> nat \<Rightarrow> nat" where
  "month_up y yd m = (if m < 11 \<and> month_start y (m + 1) \<le> yd then month_up y yd (m + 1) else m)"
  by auto
termination by (relation "measure (\<lambda>(y, yd, m). 11 - m)") auto

declare month_up.simps [simp del]

lemma month_start_0 [simp]: "month_start y 0 = 0"
  by (simp add: month_start_def month_starts_def)

lemma month_start_12: "month_start y 12 = (if leap y then 366 else 365)"
  by (simp add: month_start_def month_starts_def)

lemma month_cases: "(m::nat) < 12 \<Longrightarrow> m = 0 \<or> m = 1 \<or> m = 2 \<or> m = 3 \<or> m = 4 \<or> m = 5 \<or> m = 6 \<or> m = 7 \<or> m = 8 \<or>
    m = 9 \<or> m = 10 \<or> m = 11"
  by arith

lemma month_step: "m < 12 \<Longrightarrow> month_start y m + 28 \<le> month_start y (m + 1) \<and> month_start y (m + 1) \<le> month_start y m + 31"
  using month_cases [of m] by (auto simp: month_start_def month_starts_def)

lemma month_mono: "m \<le> m' \<Longrightarrow> m' \<le> 12 \<Longrightarrow> month_start y m \<le> month_start y m'"
proof (induction m' rule: dec_induct)
  case (step n)
  then show ?case using month_step [of n y] by simp
qed simp

lemma month_up_ok:
  "month_start y m \<le> yd \<Longrightarrow> yd < month_start y 12 \<Longrightarrow> m < 12 \<Longrightarrow>
     month_up y yd m < 12 \<and> month_start y (month_up y yd m) \<le> yd \<and> yd < month_start y (month_up y yd m + 1)"
proof (induction y yd m rule: month_up.induct)
  case (1 y yd m)
  have e: "month_up y yd m = (if m < 11 \<and> month_start y (m + 1) \<le> yd then month_up y yd (m + 1) else m)"
    by (rule month_up.simps)
  show ?case
  proof (cases "m < 11 \<and> month_start y (m + 1) \<le> yd")
    case True
    then show ?thesis using e 1 by auto
  next
    case False
    moreover have "m = 11 \<Longrightarrow> yd < month_start y (m + 1)" using "1.prems" by simp
    ultimately show ?thesis using e "1.prems" by (cases "m = 11") auto
  qed
qed
definition month_of :: "int \<Rightarrow> int \<Rightarrow> nat" where
  "month_of y yd = month_up y yd 0"

lemma month_of_ok:
  assumes "0 \<le> yd" "yd < month_start y 12"
  shows "month_of y yd < 12" "month_start y (month_of y yd) \<le> yd" "yd < month_start y (month_of y yd + 1)"
  using month_up_ok [of y 0 yd] assms by (simp_all add: month_of_def)

lemma month_of_unique:
  assumes "m < 12" "month_start y m \<le> yd" "yd < month_start y (m + 1)"
  shows "month_of y yd = m"
proof -
  have b: "0 \<le> yd" "yd < month_start y 12"
    using assms month_mono [of 0 m y] month_mono [of "m + 1" 12 y] by simp_all
  note o = month_of_ok [OF b]
  show ?thesis
  proof (rule linorder_cases [of "month_of y yd" m])
    assume "month_of y yd < m"
    then show ?thesis using o assms month_mono [of "month_of y yd + 1" m y] by linarith
  next
    assume "m < month_of y yd"
    then show ?thesis using o assms month_mono [of "m + 1" "month_of y yd" y] by linarith
  qed
qed

section \<open>Broken-down time\<close>

text \<open>The fields of \<^verbatim>\<open>struct tm\<close>.\<close>

record struct_tm =
  tmYear :: int
  tmMon :: int
  tmMday :: int
  tmHour :: int
  tmMin :: int
  tmSec :: int
  tmWday :: int

definition gmtime_r :: "int \<Rightarrow> struct_tm" where
  "gmtime_r t = (let n = t div 86400; r = t mod 86400; y = year_of n; m = month_of y (n - jan1 y) in
     \<lparr>tmYear = y - 1900, tmMon = int m, tmMday = n - jan1 y - month_start y m + 1,
      tmHour = r div 3600, tmMin = r mod 3600 div 60, tmSec = r mod 60, tmWday = (n + 4) mod 7\<rparr>)"

definition timegm :: "struct_tm \<Rightarrow> int" where
  "timegm t = 86400 * days_of (tmYear t + 1900) (tmMon t) (tmMday t) + 3600 * tmHour t + 60 * tmMin t + tmSec t"

definition localtime_r :: "int \<Rightarrow> int \<Rightarrow> struct_tm" where
  "localtime_r off t = gmtime_r (t + off)"

definition mktime :: "int \<Rightarrow> struct_tm \<Rightarrow> int" where
  "mktime off t = timegm t - off"

text \<open>A date that exists and a time of the day.\<close>

definition valid_date :: "int \<Rightarrow> int \<Rightarrow> int \<Rightarrow> bool" where
  "valid_date y m d \<longleftrightarrow> 0 \<le> m \<and> m < 12 \<and> 1 \<le> d \<and> d \<le> month_start y (nat m + 1) - month_start y (nat m)"

definition valid_time :: "int \<Rightarrow> int \<Rightarrow> int \<Rightarrow> bool" where
  "valid_time h m s \<longleftrightarrow> 0 \<le> h \<and> h < 24 \<and> 0 \<le> m \<and> m < 60 \<and> 0 \<le> s \<and> s < 60"

definition valid_tm :: "struct_tm \<Rightarrow> bool" where
  "valid_tm t \<longleftrightarrow> valid_date (tmYear t + 1900) (tmMon t) (tmMday t) \<and> valid_time (tmHour t) (tmMin t) (tmSec t)"

lemma day_of_year: "0 \<le> n - jan1 (year_of n)" "n - jan1 (year_of n) < month_start (year_of n) 12"
  using year_of_ok [of n] jan1_step [of "year_of n"] by (simp_all add: month_start_12)

lemma time_of_day:
  fixes r :: int
  assumes "0 \<le> r" "r < 86400"
  shows "r div 3600 < 24" "0 \<le> r div 3600" "3600 * (r div 3600) + 60 * (r mod 3600 div 60) + r mod 60 = r"
    "0 \<le> r mod 3600 div 60" "r mod 3600 div 60 < 60"
proof -
  have h: "3600 * (r div 3600) + r mod 3600 = r" "0 \<le> r mod 3600" "r mod 3600 < 3600" by simp_all
  have m: "60 * (r mod 3600 div 60) + r mod 3600 mod 60 = r mod 3600" "0 \<le> r mod 3600 mod 60" "r mod 3600 mod 60 < 60"
    by simp_all
  have "r mod 3600 mod 60 = r mod 60" by (rule mod_mod_cancel) simp
  then show "r div 3600 < 24" "0 \<le> r div 3600" "3600 * (r div 3600) + 60 * (r mod 3600 div 60) + r mod 60 = r"
    "0 \<le> r mod 3600 div 60" "r mod 3600 div 60 < 60"
    using assms h m by linarith+
qed

text \<open>A second is a day of a year and a time of that day.\<close>

lemma gmtime_cases:
  obtains n r y m where "t = 86400 * n + r" "0 \<le> r" "r < 86400" "jan1 y \<le> n" "n < jan1 (y + 1)" "m < 12"
    "month_start y m \<le> n - jan1 y" "n - jan1 y < month_start y (m + 1)"
    "gmtime_r t = \<lparr>tmYear = y - 1900, tmMon = int m, tmMday = n - jan1 y - month_start y m + 1,
       tmHour = r div 3600, tmMin = r mod 3600 div 60, tmSec = r mod 60, tmWday = (n + 4) mod 7\<rparr>"
proof -
  let ?n = "t div 86400" let ?y = "year_of ?n"
  note o = month_of_ok [OF day_of_year [of ?n]]
  have r: "0 \<le> t mod 86400" "t mod 86400 < 86400" "t = 86400 * ?n + t mod 86400" by simp_all
  have "gmtime_r t = \<lparr>tmYear = ?y - 1900, tmMon = int (month_of ?y (?n - jan1 ?y)),
       tmMday = ?n - jan1 ?y - month_start ?y (month_of ?y (?n - jan1 ?y)) + 1,
       tmHour = t mod 86400 div 3600, tmMin = t mod 86400 mod 3600 div 60, tmSec = t mod 86400 mod 60, tmWday = (?n + 4) mod 7\<rparr>"
    by (simp only: gmtime_r_def Let_def)
  then show ?thesis by (rule that [OF r(3,1,2) year_of_ok o])
qed

lemma gmtime_valid: "valid_tm (gmtime_r t)" "0 \<le> tmWday (gmtime_r t)" "tmWday (gmtime_r t) < 7"
  by (rule gmtime_cases [of t]; simp add: valid_tm_def valid_date_def valid_time_def time_of_day)+

lemma timegm_gmtime: "timegm (gmtime_r t) = t"
proof (rule gmtime_cases [of t])
  fix n r y m
  assume a: "t = 86400 * n + r" "0 \<le> r" "r < 86400" "m < 12"
    and g: "gmtime_r t = \<lparr>tmYear = y - 1900, tmMon = int m, tmMday = n - jan1 y - month_start y m + 1,
       tmHour = r div 3600, tmMin = r mod 3600 div 60, tmSec = r mod 60, tmWday = (n + 4) mod 7\<rparr>"
  have "int m div 12 = 0" "nat (int m mod 12) = m" using a(4) by simp_all
  then have "3600 * h + 60 * i + s = r \<Longrightarrow> timegm \<lparr>tmYear = y - 1900, tmMon = int m, tmMday = n - jan1 y - month_start y m + 1,
       tmHour = h, tmMin = i, tmSec = s, tmWday = w\<rparr> = 86400 * n + r" for h i s w
    by (simp add: timegm_def days_of_def)
  then have "timegm (gmtime_r t) = 86400 * n + r" using time_of_day(3) [OF a(2,3)] unfolding g by blast
  then show "timegm (gmtime_r t) = t" using a(1) by simp
qed

lemma gmtime_days:
  assumes "valid_date y m d"
  shows "year_of (days_of y m d) = y" "month_of y (days_of y m d - jan1 y) = nat m"
    "days_of y m d - jan1 y - month_start y (nat m) + 1 = d"
proof -
  have m: "0 \<le> m" "m < 12" "nat m < 12" using assms by (auto simp: valid_date_def)
  have e: "days_of y m d = jan1 y + month_start y (nat m) + d - 1" using m by (simp add: days_of_def)
  have d: "1 \<le> d" "month_start y (nat m) + d \<le> month_start y (nat m + 1)" using assms by (simp_all add: valid_date_def)
  have "0 \<le> month_start y (nat m)" "month_start y (nat m + 1) \<le> month_start y 12"
    using m month_mono [of 0 "nat m" y] month_mono [of "nat m + 1" 12 y] by simp_all
  then show "year_of (days_of y m d) = y"
    using d jan1_step [of y] by (intro year_of_unique) (simp_all add: e month_start_12)
  show "month_of y (days_of y m d - jan1 y) = nat m" using d m by (intro month_of_unique) (simp_all add: e)
  show "days_of y m d - jan1 y - month_start y (nat m) + 1 = d" by (simp add: e)
qed

lemma gmtime_timegm:
  assumes "valid_tm t"
  shows "gmtime_r (timegm t) = t\<lparr>tmWday := (days_of (tmYear t + 1900) (tmMon t) (tmMday t) + 4) mod 7\<rparr>"
proof -
  let ?n = "days_of (tmYear t + 1900) (tmMon t) (tmMday t)" let ?r = "3600 * tmHour t + 60 * tmMin t + tmSec t"
  have v: "valid_date (tmYear t + 1900) (tmMon t) (tmMday t)" "valid_time (tmHour t) (tmMin t) (tmSec t)"
    using assms by (simp_all add: valid_tm_def)
  have r: "0 \<le> ?r" "?r < 86400" using v(2) by (simp_all add: valid_time_def)
  have s: "timegm t = 86400 * ?n + ?r" by (simp add: timegm_def)
  then have n: "timegm t div 86400 = ?n" "timegm t mod 86400 = ?r" using r by simp_all
  have e: "?r = 3600 * tmHour t + (60 * tmMin t + tmSec t)" "0 \<le> 60 * tmMin t + tmSec t" "60 * tmMin t + tmSec t < 3600"
    "?r = 60 * (60 * tmHour t + tmMin t) + tmSec t" "0 \<le> tmSec t" "tmSec t < 60"
    using v(2) by (simp_all add: valid_time_def)
  have h: "?r div 3600 = tmHour t" "?r mod 60 = tmSec t" "?r mod 3600 = 60 * tmMin t + tmSec t"
    by (rule int_div_pos_eq [OF e(1-3)] int_mod_pos_eq [OF e(4-6)] int_mod_pos_eq [OF e(1-3)])+
  have "(60 * tmMin t + tmSec t) div 60 = tmMin t" by (rule int_div_pos_eq [OF refl e(5,6)])
  then have h: "?r div 3600 = tmHour t" "?r mod 3600 div 60 = tmMin t" "?r mod 60 = tmSec t" using h by (simp_all only:)
  have "int (nat (tmMon t)) = tmMon t" using v(1) by (simp add: valid_date_def)
  then show ?thesis unfolding gmtime_r_def Let_def n h gmtime_days [OF v(1)] by simp
qed

text \<open>The years of the times a 32-bit clock can show.\<close>

lemma gmtime_year:
  assumes "0 \<le> t" "t < 2 ^ 37"
  shows "70 \<le> tmYear (gmtime_r t)" "tmYear (gmtime_r t) < 8000"
proof -
  obtain n r y where n: "t = 86400 * n + r" "0 \<le> r" "r < 86400" "jan1 y \<le> n" "n < jan1 (y + 1)" "tmYear (gmtime_r t) = y - 1900"
    by (rule gmtime_cases [of t]) simp
  have "t < 137438953472" using assms(2) by simp
  then have "0 \<le> n" "n < 1590730" using assms(1) n(1-3) by linarith+
  moreover have "jan1 1970 = 0" "jan1 6400 = 1618024" by (simp_all add: jan1_def)
  ultimately have "1970 \<le> y" "y < 6400"
    using n(4,5) jan1_less [of y 1970] jan1_mono [of 6400 y] by linarith+
  then show "70 \<le> tmYear (gmtime_r t)" "tmYear (gmtime_r t) < 8000" using n(6) by simp_all
qed

end
