(* ===== verification/TimeZone.thy ===== *)
theory TimeZone
  imports Config
begin

text \<open>
  The table of zones of \<^verbatim>\<open>src/Modules/TimeManage/timemanage.c\<close> and its lookups by number, by city and by
  difference to UTC, and the file \<^verbatim>\<open>/etc/TZ\<close>. The lemmas show that names and numbers of the 75 zones are
  in bijection, although names are compared without regard to case, and what the lookups do outside the table.
\<close>

section \<open>Zones\<close>

record TZONE_T =
  index :: int
  pszCityName :: "string option"
  u32STDSign :: int
  hour :: int
  min_z :: int
  sec_z :: int

definition tz :: "int \<Rightarrow> string option \<Rightarrow> int \<Rightarrow> int \<Rightarrow> int \<Rightarrow> int \<Rightarrow> TZONE_T" where
  "tz i c s h m x = \<lparr>index = i, pszCityName = c, u32STDSign = s, hour = h, min_z = m, sec_z = x\<rparr>"

definition g_astruTZS :: "TZONE_T list" where
  "g_astruTZS =
    [tz 1 (Some ''Etc/GMT-12'') 0 12 0 0, tz 2 (Some ''Pacific/Apia'') 0 11 0 0, tz 3 (Some ''Pacific/Honolulu'') 0 10 0 0,
     tz 4 (Some ''America/Anchorage'') 0 9 0 0, tz 5 (Some ''America/Los_Angeles'') 0 8 0 0, tz 6 (Some ''America/Denver'') 0 7 0 0,
     tz 7 (Some ''America/Phoenix'') 0 7 0 0, tz 8 (Some ''America/Tegucigalpa'') 0 7 0 0, tz 9 (Some ''America/Winnipeg'') 0 6 0 0,
     tz 10 (Some ''America/Chicago'') 0 6 0 0, tz 11 (Some ''America/Costa_Rica'') 0 6 0 0, tz 12 (Some ''America/Mexico_City'') 0 6 0 0,
     tz 13 (Some ''America/Bogota'') 0 5 0 0, tz 14 (Some ''America/New_York'') 0 5 0 0, tz 15 (Some ''America/Indianapolis'') 0 5 0 0,
     tz 16 (Some ''America/Montreal'') 0 4 0 0, tz 17 (Some ''America/Caracas'') 0 4 0 0, tz 18 (Some ''America/Santiago'') 0 4 0 0,
     tz 19 (Some ''America/St_Johns'') 0 3 30 0, tz 20 (Some ''America/Sao_Paulo'') 0 3 0 0, tz 21 (Some ''America/Buenos_Aires'') 0 3 0 0,
     tz 22 (Some ''America/Thule'') 0 3 0 0, tz 23 (Some ''Atlantic/South_Georgia'') 0 2 0 0, tz 24 (Some ''Atlantic/Cape_Verde'') 0 1 0 0,
     tz 25 (Some ''Atlantic/Azores'') 0 1 0 0, tz 26 (Some ''Europe/Dublin'') 0 0 0 0, tz 27 (Some ''Africa/Casablanca'') 0 0 0 0,
     tz 28 (Some ''Europe/Amsterdam'') 1 1 0 0, tz 29 (Some ''Europe/Belgrade'') 1 1 0 0, tz 30 (Some ''Europe/Brussels'') 1 1 0 0,
     tz 31 (Some ''Europe/Warsaw'') 1 1 0 0, tz 32 (Some ''Africa/Lagos'') 1 1 0 0, tz 33 (Some ''Europe/Bucharest'') 1 2 0 0,
     tz 34 (Some ''Africa/Harare'') 1 2 0 0, tz 35 (Some ''Europe/Helsinki'') 1 2 0 0, tz 36 (Some ''Africa/Cairo'') 1 2 0 0,
     tz 37 (Some ''Europe/Athens'') 1 2 0 0, tz 38 (Some ''Asia/Jerusalem'') 1 2 0 0, tz 39 (Some ''Asia/Baghdad'') 1 3 0 0,
     tz 40 (Some ''Asia/Kuwait'') 1 3 0 0, tz 41 (Some ''Europe/Moscow'') 1 3 0 0, tz 42 (Some ''Africa/Nairobi'') 1 3 0 0,
     tz 43 (Some ''Asia/Tehran'') 1 3 30 0, tz 44 (Some ''Asia/Dubai'') 1 4 0 0, tz 45 (Some ''Asia/Baku'') 1 4 0 0,
     tz 46 (Some ''Asia/Kabul'') 1 4 30 0, tz 47 (Some ''Asia/Yekaterinburg'') 1 5 0 0, tz 48 (Some ''Asia/Karachi'') 1 5 0 0,
     tz 49 (Some ''Asia/Calcutta'') 1 5 30 0, tz 50 (Some ''Asia/Katmandu'') 1 5 45 0, tz 51 (Some ''Asia/Almaty'') 1 6 0 0,
     tz 52 (Some ''Asia/Dhaka'') 1 6 0 0, tz 53 (Some ''Asia/Colombo'') 1 6 0 0, tz 54 (Some ''Asia/Rangoon'') 1 6 30 0,
     tz 55 (Some ''Asia/Krasnoyarsk'') 1 7 0 0, tz 56 (Some ''Asia/Bangkok'') 1 7 0 0, tz 57 (Some ''Asia/Hong_Kong'') 1 8 0 0,
     tz 58 (Some ''Asia/Kuala_Lumpur'') 1 8 0 0, tz 59 (Some ''Australia/Perth'') 1 8 0 0, tz 60 (Some ''Asia/Taipei'') 1 8 0 0,
     tz 61 (Some ''Asia/Irkutsk'') 1 8 0 0, tz 62 (Some ''Asia/Tokyo'') 1 9 0 0, tz 63 (Some ''Asia/Seoul'') 1 9 0 0,
     tz 64 (Some ''Asia/Yakutsk'') 1 9 0 0, tz 65 (Some ''Australia/Adelaide'') 1 9 30 0, tz 66 (Some ''Australia/Darwin'') 1 9 30 0,
     tz 67 (Some ''Australia/Brisbane'') 1 10 0 0, tz 68 (Some ''Asia/Vladivostok'') 1 10 0 0, tz 69 (Some ''Pacific/Guam'') 1 10 0 0,
     tz 70 (Some ''Australia/Hobart'') 1 10 0 0, tz 71 (Some ''Australia/Sydney'') 1 10 0 0, tz 72 (Some ''Asia/Magadan'') 1 11 0 0,
     tz 73 (Some ''Pacific/Auckland'') 1 12 0 0, tz 74 (Some ''Pacific/Fiji'') 1 12 0 0, tz 75 (Some ''Pacific/Tongatapu'') 1 13 0 0,
     tz 0 None 1 8 0 0]"

text \<open>Reading an entry; an index outside the table is a fault.\<close>

definition tz_at :: "int \<Rightarrow> fault + TZONE_T" where
  "tz_at k = (if 0 \<le> k \<and> nat k < length g_astruTZS then Inr (g_astruTZS ! nat k) else Inl OutOfBounds)"

definition GetTimeZoneString :: "int \<Rightarrow> fault + string option" where
  "GetTimeZoneString tzIndex =
     (if tzIndex > 0 then rbind (tz_at (tzIndex - 1)) (\<lambda>z. Inr (pszCityName z)) else Inr None)"

text \<open>The loops run to the entry without a name. Without a match \<open>GetTimeZoneIndex\<close> ends without a value.\<close>

fun city_loop :: "string \<Rightarrow> TZONE_T list \<Rightarrow> fault + int" where
  "city_loop cityName [] = Inl OutOfBounds"
| "city_loop cityName (z # zs) = (case pszCityName z of None \<Rightarrow> Inl Uninitialised
     | Some c \<Rightarrow> if same_name cityName c then Inr (index z) else city_loop cityName zs)"

definition GetTimeZoneIndex :: "string \<Rightarrow> fault + int" where
  "GetTimeZoneIndex cityName = city_loop cityName g_astruTZS"

text \<open>The text written to \<^verbatim>\<open>/etc/TZ\<close>; it fits its sixteen characters for every entry. \<open>opened\<close>: whether the file could be opened.\<close>

definition zone_text :: "TZONE_T \<Rightarrow> string" where
  "zone_text z = (if u32STDSign z = 1 then ''STD-'' else ''STD+'') @ print_int (hour z) @ '':'' @ print_int (min_z z) @ '':'' @
     print_int (sec_z z) @ [CHR 0x0A]"

definition SetTimeZone :: "bool \<Rightarrow> int \<Rightarrow> string option \<Rightarrow> fault + string option \<times> int" where
  "SetTimeZone opened tzIndex file =
     (if \<not> opened then Inr (file, - 1)
      else rbind (tz_at (tzIndex - 1)) (\<lambda>z. rbind (sprintf (replicate 16 NUL) (zone_text z)) (\<lambda>tz.
        rbind (c_str tz 0) (\<lambda>t. Inr (Some t, 0)))))"

text \<open>
  \<open>scanned\<close> is what \<^verbatim>\<open>sscanf(zone,"%01s%02d:%02d",...)\<close> stored: the sign and the two numbers, each
  missing when the text did not match so far.
\<close>

fun gm_loop :: "int \<Rightarrow> int \<Rightarrow> int \<Rightarrow> TZONE_T list \<Rightarrow> fault + int option" where
  "gm_loop sign h m [] = Inl OutOfBounds"
| "gm_loop sign h m (z # zs) = (if pszCityName z = None then Inr None
     else if sign = u32STDSign z \<and> hour z = h \<and> min_z z = m then Inr (Some (index z)) else gm_loop sign h m zs)"

definition GetTimeZoneByGM :: "char option \<times> int option \<times> int option \<Rightarrow> int \<Rightarrow> fault + int \<times> int" where
  "GetTimeZoneByGM scanned timeZone = (case scanned of
     (None, _, _) \<Rightarrow> Inl Uninitialised
   | (Some c, h, m) \<Rightarrow>
      if c \<noteq> CHR ''+'' \<and> c \<noteq> CHR ''-'' then Inr (timeZone, KEY_FALSE)
      else (case (h, m) of
          (Some h, Some m) \<Rightarrow> rbind (gm_loop (if c = CHR ''+'' then 0 else 1) h m g_astruTZS) (\<lambda>r.
            case r of Some i \<Rightarrow> Inr (i, KEY_TRUE) | None \<Rightarrow> Inr (timeZone, KEY_FALSE))
        | _ \<Rightarrow> Inl Uninitialised))"

definition SetLocalTimeBySTR :: "string \<Rightarrow> fault + int \<times> int" where
  "SetLocalTimeBySTR zone = rbind (GetTimeZoneIndex zone) (\<lambda>i. Inr (i, KEY_TRUE))"

text \<open>The name is copied without its NUL.\<close>

definition GetLocalTimeBySTR :: "int \<Rightarrow> string \<Rightarrow> fault + string \<times> int" where
  "GetLocalTimeBySTR timeZone zone = rbind (GetTimeZoneString timeZone) (\<lambda>s. case s of
     Some n \<Rightarrow> rbind (put_all zone 0 n) (\<lambda>zone. Inr (zone, KEY_TRUE)) | None \<Rightarrow> Inr (zone, KEY_FALSE))"

section \<open>Looking up zones\<close>

lemma zones_last: "length g_astruTZS = 76" "pszCityName (g_astruTZS ! 75) = None"
  by code_simp+

text \<open>The five low bits of a character do not depend on its case.\<close>

definition low5 :: "char \<Rightarrow> bool \<times> bool \<times> bool \<times> bool \<times> bool" where
  "low5 c = (case c of Char a b c d e _ _ _ \<Rightarrow> (a, b, c, d, e))"

lemma low5_tolower_all: "\<forall>c. low5 (c_tolower c) = low5 c"
  by code_simp

lemma zones_distinct: "distinct (map (\<lambda>z. map low5 (the (pszCityName z))) (butlast g_astruTZS))"
  by code_simp

lemma same_name_low5: "same_name a b \<Longrightarrow> map low5 a = map low5 b"
  unfolding same_name_def using low5_tolower_all map_map [of low5 c_tolower] by (metis (no_types, lifting) comp_apply map_eq_conv)

lemma zones_first: "map index g_astruTZS = map int [1..<76] @ [0]"
  by code_simp

lemma zones_some: "list_all (\<lambda>z. case pszCityName z of None \<Rightarrow> False | Some c \<Rightarrow> NUL \<notin> set c \<and> length c < 128) (butlast g_astruTZS)"
  by code_simp

text \<open>The loop finds a name of a table of different names.\<close>

lemma city_loop_nth:
  assumes "k < length zs" "distinct (map (\<lambda>z. map low5 (the (pszCityName z))) zs)" "\<forall>z \<in> set zs. pszCityName z \<noteq> None"
  shows "city_loop (the (pszCityName (zs ! k))) (zs @ ys) = Inr (index (zs ! k))"
  using assms
proof (induction zs arbitrary: k)
  case (Cons z zs)
  show ?case
  proof (cases k)
    case (Suc i)
    have "zs ! i \<in> set zs" "map low5 (the (pszCityName z)) \<notin> (\<lambda>z. map low5 (the (pszCityName z))) ` set zs"
      using Cons.prems Suc by simp_all
    then have "map low5 (the (pszCityName (zs ! i))) \<noteq> map low5 (the (pszCityName z))" by (metis (no_types, lifting) imageI)
    then have "\<not> same_name (the (pszCityName (zs ! i))) (the (pszCityName z))" using same_name_low5 by blast
    then show ?thesis using Cons Suc by auto
  qed (use Cons.prems in auto)
qed simp

lemma zone_names:
  assumes "0 < i" "i < 76"
  obtains c where "GetTimeZoneString i = Inr (Some c)" "GetTimeZoneIndex c = Inr i" "NUL \<notin> set c" "length c < 128"
proof -
  let ?zs = "butlast g_astruTZS" let ?z = "g_astruTZS ! nat (i - 1)"
  have l: "length g_astruTZS = 76" "g_astruTZS \<noteq> []" using zones_last(1) by auto
  have k: "nat (i - 1) < length ?zs" "?zs ! nat (i - 1) = ?z" using assms l by (simp_all add: nth_butlast)
  obtain c where c: "pszCityName ?z = Some c" "NUL \<notin> set c" "length c < 128"
    using zones_some nth_mem [OF k(1)] k(2) by (fastforce simp: list_all_iff split: option.splits)
  have "\<forall>z \<in> set ?zs. pszCityName z \<noteq> None" using zones_some by (auto simp: list_all_iff split: option.splits)
  from city_loop_nth [OF k(1) zones_distinct this, of "[last g_astruTZS]"]
  have "city_loop c g_astruTZS = Inr (index ?z)" using k(2) c(1) l(2) by simp
  moreover have "index ?z = i"
  proof -
    have "index ?z = map index g_astruTZS ! nat (i - 1)" using k l by simp
    also have "\<dots> = i" unfolding zones_first using assms by (simp add: nth_append)
    finally show ?thesis .
  qed
  moreover have "GetTimeZoneString i = Inr (Some c)" using assms c l by (simp add: GetTimeZoneString_def tz_at_def)
  ultimately show ?thesis using that c by (simp add: GetTimeZoneIndex_def)
qed

lemma zone_names_outside:
  "i \<le> 0 \<Longrightarrow> GetTimeZoneString i = Inr None"
  "GetTimeZoneString 76 = Inr None"
  "76 < i \<Longrightarrow> GetTimeZoneString i = Inl OutOfBounds"
  using zones_last by (simp_all add: GetTimeZoneString_def tz_at_def)

text \<open>Every zone of the table has a text that fits.\<close>

lemma zone_texts: "list_all (\<lambda>z. length (zone_text z) < 16 \<and> NUL \<notin> set (zone_text z)) g_astruTZS"
  by code_simp

lemma set_zone:
  assumes "0 < i" "i < 76"
  shows "SetTimeZone True i file = Inr (Some (zone_text (g_astruTZS ! nat (i - 1))), 0)"
proof -
  have k: "nat (i - 1) < length g_astruTZS" using assms zones_last by simp
  then have t: "length (zone_text (g_astruTZS ! nat (i - 1))) < 16" "NUL \<notin> set (zone_text (g_astruTZS ! nat (i - 1)))"
    using zone_texts nth_mem [OF k] by (auto simp: list_all_iff)
  have "sprintf (replicate 16 NUL) (zone_text (g_astruTZS ! nat (i - 1))) =
      Inr (zone_text (g_astruTZS ! nat (i - 1)) @ NUL # drop (Suc (length (zone_text (g_astruTZS ! nat (i - 1))))) (replicate 16 NUL))"
    using t(1) by (subst sprintf_fits) simp_all
  then show ?thesis using k assms c_str_at [OF t(2)] by (simp add: SetTimeZone_def tz_at_def del: drop_replicate)
qed

text \<open>The plus of a difference to UTC is taken for the plus of POSIX, which is west of Greenwich.\<close>

lemma gm_plus_eight:
  "GetTimeZoneByGM (Some CHR ''+'', Some 8, Some 0) 0 = Inr (5, KEY_TRUE)"
  "SetTimeZone True 5 None = Inr (Some (''STD+8:0:0'' @ [CHR 0x0A]), 0)"
  by code_simp+

end
