(* ===== verification/TimeManage.thy ===== *)
theory TimeManage
  imports Calendar JsonMap HttpApi TimeZone
begin

text \<open>
  The clock of the gateway, \<^verbatim>\<open>src/Modules/TimeManage\<close>: conversions between seconds and
  dates, setting the clock, the configuration that carries clock and zone over a restart, and the modules that are told
  of a change. \<open>off\<close> is the offset of the zone of the process, which the C library of the target reads at
  its start; the file \<^verbatim>\<open>/etc/TZ\<close> that the module writes is \<open>tz_file\<close>.

  The lemmas show that the conversions are inverse to each other, in both zones, and that the configuration
  restores the zone exactly when it is one of the 75 of the table.
\<close>

section \<open>Dates\<close>

record TimeYMD_T =
  year :: int
  month :: int
  day :: int
  hour_t :: int
  min_t :: int
  sec_t :: int

record Time_T =
  timeZone :: int
  weekday :: int
  curTime :: TimeYMD_T

definition ymd_of :: "struct_tm \<Rightarrow> TimeYMD_T" where
  "ymd_of t_tm = \<lparr>year = tmYear t_tm + 1900, month = tmMon t_tm + 1, day = tmMday t_tm, hour_t = tmHour t_tm, min_t = tmMin t_tm,
     sec_t = tmSec t_tm\<rparr>"

definition tm_of :: "TimeYMD_T \<Rightarrow> struct_tm" where
  "tm_of tv = \<lparr>tmYear = year tv - 1900, tmMon = month tv - 1, tmMday = day tv, tmHour = hour_t tv, tmMin = min_t tv, tmSec = sec_t tv,
     tmWday = 0\<rparr>"

definition GetDvalueLocal2Utc :: "int \<Rightarrow> int \<Rightarrow> int" where
  "GetDvalueLocal2Utc off now = mktime off (localtime_r off now) - mktime off (gmtime_r now)"

definition GetCurTimeUTC :: "int \<Rightarrow> TimeYMD_T" where
  "GetCurTimeUTC now = ymd_of (gmtime_r now)"

definition TimeSec2UTCYMD :: "int \<Rightarrow> TimeYMD_T" where
  "TimeSec2UTCYMD sec = ymd_of (gmtime_r sec)"

definition TimeSec2YMD :: "int \<Rightarrow> int \<Rightarrow> TimeYMD_T" where
  "TimeSec2YMD off sec = ymd_of (localtime_r off sec)"

definition TimeYMD2Sec :: "int \<Rightarrow> TimeYMD_T \<Rightarrow> int" where
  "TimeYMD2Sec off timet = mktime off (tm_of timet)"

definition TimeUTCYMD2Sec :: "int \<Rightarrow> int \<Rightarrow> TimeYMD_T \<Rightarrow> int" where
  "TimeUTCYMD2Sec off now timeYMD = mktime off (tm_of timeYMD) + GetDvalueLocal2Utc off now"

definition TimeLocalYMD2Sec :: "int \<Rightarrow> TimeYMD_T \<Rightarrow> int" where
  "TimeLocalYMD2Sec off timet = mktime off (tm_of timet)"

definition TimeLocal2UTCYMD :: "int \<Rightarrow> TimeYMD_T \<Rightarrow> TimeYMD_T" where
  "TimeLocal2UTCYMD off localT = TimeSec2UTCYMD (TimeLocalYMD2Sec off localT)"

text \<open>The broken-down time of the clock that \<open>GetUTCTime\<close> prints.\<close>

definition clock_tm :: "int \<Rightarrow> tm" where
  "clock_tm now = (let t = gmtime_r now in \<lparr>tm_wday = nat (tmWday t), tm_mday = nat (tmMday t), tm_mon = nat (tmMon t),
     tm_year = nat (tmYear t), tm_hour = nat (tmHour t), tm_min = nat (tmMin t), tm_sec = nat (tmSec t)\<rparr>)"

section \<open>Stored clock and zone\<close>

record TimeConf_T =
  timeZone_c :: int
  currTime :: int

definition D_CONFTIMECONF_STR :: string where "D_CONFTIMECONF_STR = ''TimeConf''"

definition JsonMapTimeManageConfigMake :: "TimeConf_T \<Rightarrow> fault + cJSON" where
  "JsonMapTimeManageConfigMake info =
     rbind (GetTimeZoneString (timeZone_c info)) (\<lambda>zone.
     add_fields cJSON_CreateObject
       ((case zone of Some z \<Rightarrow> [(''timeZone'', FStr z)] | None \<Rightarrow> []) @ [(''currTime'', FNum (currTime info))]))"

definition JsonMapTimeManageConfigPares :: "cJSON option \<Rightarrow> TimeConf_T \<Rightarrow> fault + TimeConf_T \<times> int" where
  "JsonMapTimeManageConfigPares conf info = (case conf of None \<Rightarrow> Inr (info, KEY_FALSE)
     | Some c \<Rightarrow> rbind (get_text (Some c) ''timeZone'' 128) (\<lambda>tmp. rbind (GetTimeZoneIndex tmp) (\<lambda>i.
         Inr (info\<lparr>timeZone_c := i, currTime := cJSON_GetObjectItemValueInt (Some c) (Some ''currTime'')\<rparr>, KEY_TRUE))))"

definition TimeManageConfigSet :: "(rat \<Rightarrow> string) \<Rightarrow> bool \<Rightarrow> TimeConf_T \<Rightarrow> Conf_T \<Rightarrow> fault + Conf_T \<times> int" where
  "TimeManageConfigSet fd writable info s =
     rbind (JsonMapTimeManageConfigMake info) (\<lambda>c. ConfigManageSet fd writable (Some c) (Some D_CONFTIMECONF_STR) s)"

definition TimeManageConfigDefault :: "(rat \<Rightarrow> string) \<Rightarrow> bool \<Rightarrow> Conf_T \<Rightarrow> fault + Conf_T \<times> int" where
  "TimeManageConfigDefault fd writable s =
     rbind (TimeManageConfigSet fd writable \<lparr>timeZone_c = 57, currTime = 8192\<rparr> s) (\<lambda>(s, _). Inr (s, KEY_TRUE))"

definition TimeManageConfigGet :: "(rat \<Rightarrow> string) \<Rightarrow> bool \<Rightarrow> TimeConf_T \<Rightarrow> Conf_T \<Rightarrow> (Conf_T \<times> TimeConf_T \<times> int) run" where
  "TimeManageConfigGet fd writable info s =
     run_bind (ConfigManageGet fd (Some D_CONFTIMECONF_STR) s) (\<lambda>c.
     run_bind (case c of Some _ \<Rightarrow> Some (Inr (s, c))
       | None \<Rightarrow> run_bind (Some (TimeManageConfigDefault fd writable s)) (\<lambda>(s, _).
           run_bind (ConfigManageGet fd (Some D_CONFTIMECONF_STR) s) (\<lambda>c. Some (Inr (s, c))))) (\<lambda>(s, c).
     run_bind (Some (JsonMapTimeManageConfigPares c info)) (\<lambda>(info, ret). Some (Inr (s, info, ret)))))"

definition GetSystemTime :: "(rat \<Rightarrow> string) \<Rightarrow> bool \<Rightarrow> TimeConf_T \<Rightarrow> Conf_T \<Rightarrow> (Conf_T \<times> TimeConf_T \<times> int) run" where
  "GetSystemTime fd writable info s = run_bind (TimeManageConfigGet fd writable info s) (\<lambda>(s, info, _). Some (Inr (s, info, 0)))"

text \<open>\<open>TimeSec2LocalYMD\<close> reads the zone from the configuration; the day of the week is left as it was.\<close>

definition TimeSec2LocalYMD ::
    "(rat \<Rightarrow> string) \<Rightarrow> bool \<Rightarrow> int \<Rightarrow> int \<Rightarrow> Time_T \<Rightarrow> Conf_T \<Rightarrow> (Conf_T \<times> Time_T \<times> int) run" where
  "TimeSec2LocalYMD fd writable off sec timet s =
     run_bind (TimeManageConfigGet fd writable \<lparr>timeZone_c = 0, currTime = 0\<rparr> s) (\<lambda>(s, info, _).
     Some (Inr (s, timet\<lparr>curTime := ymd_of (localtime_r off sec), timeZone := timeZone_c info\<rparr>, KEY_TRUE)))"

definition TimeUTC2LocalYMD ::
    "(rat \<Rightarrow> string) \<Rightarrow> bool \<Rightarrow> int \<Rightarrow> int \<Rightarrow> TimeYMD_T \<Rightarrow> Time_T \<Rightarrow> Conf_T \<Rightarrow> (Conf_T \<times> Time_T \<times> int) run" where
  "TimeUTC2LocalYMD fd writable off now utcT localT s =
     run_bind (TimeSec2LocalYMD fd writable off (TimeUTCYMD2Sec off now utcT) localT s) (\<lambda>(s, localT, _).
     Some (Inr (s, localT, KEY_TRUE)))"

definition GetLocalTime :: "(rat \<Rightarrow> string) \<Rightarrow> bool \<Rightarrow> int \<Rightarrow> int \<Rightarrow> Conf_T \<Rightarrow> (Conf_T \<times> Time_T \<times> int) run" where
  "GetLocalTime fd writable off now s =
     run_bind (TimeManageConfigGet fd writable \<lparr>timeZone_c = 0, currTime = 0\<rparr> s) (\<lambda>(s, info, _).
     let t_tm = localtime_r off now in
     Some (Inr (s, \<lparr>timeZone = timeZone_c info, weekday = tmWday t_tm, curTime = ymd_of t_tm\<rparr>, KEY_TRUE)))"

definition GetTimeZone :: "(rat \<Rightarrow> string) \<Rightarrow> bool \<Rightarrow> Conf_T \<Rightarrow> (Conf_T \<times> int) run" where
  "GetTimeZone fd writable s =
     run_bind (TimeManageConfigGet fd writable \<lparr>timeZone_c = 0, currTime = 0\<rparr> s) (\<lambda>(s, info, _). Some (Inr (s, timeZone_c info)))"

section \<open>Setting the clock\<close>

text \<open>
  \<open>clock\<close> is the time of the system, \<open>told\<close> the modules whose \<open>ChangeFun\<close> has been called, in order; \<open>tm_handles\<close>
  says of a registered handle whether its \<open>ChangeFun\<close> is there.
\<close>

record TimeManage_S =
  clock :: int
  tz_file :: "string option"
  conf_s :: Conf_T
  listUsrRegist :: "nat list"
  tm_handles :: "nat \<rightharpoonup> bool"
  told :: "nat list"

text \<open>What the module needs of its surroundings: zone, number printing, and whether files open and the clock may be set.\<close>

record env =
  tzoff :: int
  prnum :: "rat \<Rightarrow> string"
  can_write :: bool
  can_open :: bool
  can_set :: bool

text \<open>\<^verbatim>\<open>abs\<close> takes an \<^verbatim>\<open>int\<close>.\<close>

definition abs_int :: "int \<Rightarrow> int" where
  "abs_int d = to_i32 \<bar>to_i32 d\<bar>"

definition FunSendTimeChange :: "nat \<Rightarrow> TimeManage_S \<Rightarrow> fault + TimeManage_S \<times> int" where
  "FunSendTimeChange handle s =
     (if handle = 0 then Inr (s, KEY_FALSE)
      else rbind (obj_load (tm_handles s) handle) (\<lambda>f.
        if \<not> f then Inr (s, KEY_FALSE) else Inr (s\<lparr>told := told s @ [handle]\<rparr>, KEY_TRUE)))"

fun tell_all :: "nat list \<Rightarrow> TimeManage_S \<Rightarrow> fault + TimeManage_S" where
  "tell_all [] s = Inr s"
| "tell_all (h # hs) s = rbind (FunSendTimeChange h s) (\<lambda>(s, _). tell_all hs s)"

definition settimeofday :: "env \<Rightarrow> int \<Rightarrow> TimeManage_S \<Rightarrow> TimeManage_S" where
  "settimeofday e t s = (if can_set e then s\<lparr>clock := t\<rparr> else s)"

definition SetLocalTime :: "env \<Rightarrow> Time_T \<Rightarrow> TimeManage_S \<Rightarrow> (TimeManage_S \<times> int) run" where
  "SetLocalTime e tv s =
     (if abs_int (clock s - TimeLocalYMD2Sec (tzoff e) (curTime tv)) \<le> 2 then Some (Inr (s, KEY_FALSE))
      else run_bind (TimeManageConfigGet (prnum e) (can_write e) \<lparr>timeZone_c = 0, currTime = 0\<rparr> (conf_s s)) (\<lambda>(c, info, _).
        run_bind (Some (SetTimeZone (can_open e) (timeZone tv) (tz_file s))) (\<lambda>(file, _).
        let tv_sec = mktime (tzoff e) (tm_of (curTime tv));
            s = settimeofday e tv_sec (s\<lparr>conf_s := c, tz_file := file\<rparr>);
            info = info\<lparr>currTime := to_i32 tv_sec, timeZone_c := timeZone tv\<rparr> in
        run_bind (Some (tell_all (listUsrRegist s) s)) (\<lambda>s.
        run_bind (Some (TimeManageConfigSet (prnum e) (can_write e) info (conf_s s))) (\<lambda>(c, _).
        Some (Inr (s\<lparr>conf_s := c\<rparr>, KEY_TRUE)))))))"

definition SetCurTimeUTC :: "env \<Rightarrow> TimeYMD_T \<Rightarrow> TimeManage_S \<Rightarrow> (TimeManage_S \<times> int) run" where
  "SetCurTimeUTC e tv s =
     (if abs_int (clock s - TimeUTCYMD2Sec (tzoff e) (clock s) tv) \<le> 2 then Some (Inr (s, KEY_FALSE))
      else run_bind (TimeManageConfigGet (prnum e) (can_write e) \<lparr>timeZone_c = 0, currTime = 0\<rparr> (conf_s s)) (\<lambda>(c, info, _).
        let tv_sec = mktime (tzoff e) (tm_of tv) + GetDvalueLocal2Utc (tzoff e) (clock s);
            s = settimeofday e tv_sec (s\<lparr>conf_s := c\<rparr>);
            info = info\<lparr>currTime := to_i32 tv_sec\<rparr> in
        run_bind (Some (tell_all (listUsrRegist s) s)) (\<lambda>s.
        run_bind (Some (TimeManageConfigSet (prnum e) (can_write e) info (conf_s s))) (\<lambda>(c, _).
        Some (Inr (s\<lparr>conf_s := c\<rparr>, KEY_TRUE))))))"

definition SetLocalTimeByConfig :: "env \<Rightarrow> TimeManage_S \<Rightarrow> (TimeManage_S \<times> int) run" where
  "SetLocalTimeByConfig e s =
     run_bind (TimeManageConfigGet (prnum e) (can_write e) \<lparr>timeZone_c = 0, currTime = 0\<rparr> (conf_s s)) (\<lambda>(c, info, _).
     run_bind (Some (SetTimeZone (can_open e) (timeZone_c info) (tz_file s))) (\<lambda>(file, _).
     Some (Inr (settimeofday e (currTime info) (s\<lparr>conf_s := c, tz_file := file\<rparr>), KEY_TRUE))))"

definition NtpGetTimeEventFun :: "env \<Rightarrow> int \<Rightarrow> TimeManage_S \<Rightarrow> TimeManage_S run" where
  "NtpGetTimeEventFun e sec s = run_bind (SetCurTimeUTC e (TimeSec2UTCYMD sec) s) (\<lambda>(s, _). Some (Inr s))"

definition TimeManageRegist :: "TimeManage_S \<Rightarrow> nat \<Rightarrow> TimeManage_S \<times> int" where
  "TimeManageRegist s h = (s\<lparr>listUsrRegist := fst (hl_step (listUsrRegist s) (AddHandle h))\<rparr>, KEY_TRUE)"

definition TimeManageUnRegist :: "TimeManage_S \<Rightarrow> nat \<Rightarrow> TimeManage_S \<times> int" where
  "TimeManageUnRegist s h = (s\<lparr>listUsrRegist := fst (hl_step (listUsrRegist s) (DelHandle h))\<rparr>, KEY_TRUE)"

text \<open>The nodes of a list that was there before are lost.\<close>

definition TimeManageInit :: "env \<Rightarrow> TimeManage_S \<Rightarrow> (TimeManage_S \<times> int) run" where
  "TimeManageInit e s = run_bind (SetLocalTimeByConfig e s) (\<lambda>(s, _). Some (Inr (s\<lparr>listUsrRegist := []\<rparr>, KEY_TRUE)))"

definition TimeManageUnInit :: "env \<Rightarrow> TimeManage_S \<Rightarrow> (TimeManage_S \<times> int) run" where
  "TimeManageUnInit e s =
     run_bind (TimeManageConfigGet (prnum e) (can_write e) \<lparr>timeZone_c = 0, currTime = 0\<rparr> (conf_s s)) (\<lambda>(c, info, _).
     run_bind (Some (TimeManageConfigSet (prnum e) (can_write e) info c)) (\<lambda>(c, _).
     Some (Inr (s\<lparr>conf_s := c, listUsrRegist := []\<rparr>, KEY_TRUE))))"

section \<open>Conversions are inverse\<close>

text \<open>A date of the calendar and a time of the day.\<close>

definition ymd_ok :: "TimeYMD_T \<Rightarrow> bool" where
  "ymd_ok d \<longleftrightarrow> valid_tm (tm_of d)"

lemma tm_of_ymd: "tm_of (ymd_of t) = t\<lparr>tmWday := 0\<rparr>"
  by (simp add: tm_of_def ymd_of_def)

lemma timegm_wday: "timegm (t\<lparr>tmWday := w\<rparr>) = timegm t"
  by (simp add: timegm_def)

lemma timegm_ymd: "timegm (tm_of (ymd_of (gmtime_r t))) = t"
  by (simp add: tm_of_ymd timegm_wday timegm_gmtime)

lemma ymd_timegm: "ymd_ok d \<Longrightarrow> ymd_of (gmtime_r (timegm (tm_of d))) = d"
  by (simp add: ymd_ok_def gmtime_timegm ymd_of_def) (simp add: tm_of_def)

lemma dvalue: "GetDvalueLocal2Utc off now = off"
  by (simp add: GetDvalueLocal2Utc_def mktime_def localtime_r_def timegm_gmtime)

text \<open>
  C28. Seconds and dates: for every second, whether the program turns it into a date of UTC or of its own zone and back, it gets
  the same second; every date that exists comes back from its second; and a date of the zone taken to UTC is the date of
  the same second, at whatever time and in whatever zone the conversion is made.
\<close>

theorem time_roundtrip:
  "TimeUTCYMD2Sec off now (TimeSec2UTCYMD sec) = sec \<and>
   TimeLocalYMD2Sec off (TimeSec2YMD off sec) = sec \<and>
   ymd_ok (TimeSec2UTCYMD sec) \<and>
   TimeLocal2UTCYMD off (TimeSec2YMD off sec) = TimeSec2UTCYMD sec \<and>
   (ymd_ok d \<longrightarrow> TimeSec2UTCYMD (TimeUTCYMD2Sec off now d) = d \<and> TimeSec2YMD off (TimeYMD2Sec off d) = d)"
proof -
  have "valid_tm (t\<lparr>tmWday := 0\<rparr>) = valid_tm t" for t by (simp add: valid_tm_def)
  then have "ymd_ok (TimeSec2UTCYMD sec)" by (simp add: ymd_ok_def TimeSec2UTCYMD_def tm_of_ymd gmtime_valid)
  then show ?thesis
    by (simp add: TimeUTCYMD2Sec_def TimeSec2UTCYMD_def TimeLocalYMD2Sec_def TimeSec2YMD_def TimeYMD2Sec_def
        TimeLocal2UTCYMD_def dvalue mktime_def localtime_r_def timegm_ymd ymd_timegm)
qed

lemma leap_day_ok: "ymd_ok \<lparr>year = 2024, month = 2, day = 29, hour_t = 23, min_t = 59, sec_t = 59\<rparr>"
  by (simp add: ymd_ok_def tm_of_def valid_tm_def valid_date_def valid_time_def month_start_def month_starts_def leap_def)

theorem time_roundtrip_witness:
  "TimeSec2UTCYMD (TimeUTCYMD2Sec 28800 0 \<lparr>year = 2024, month = 2, day = 29, hour_t = 23, min_t = 59, sec_t = 59\<rparr>) =
     \<lparr>year = 2024, month = 2, day = 29, hour_t = 23, min_t = 59, sec_t = 59\<rparr>"
  using time_roundtrip [of 28800 0 0 "\<lparr>year = 2024, month = 2, day = 29, hour_t = 23, min_t = 59, sec_t = 59\<rparr>"] leap_day_ok by blast

text \<open>The clock gives a broken-down time that \<open>GetUTCTime\<close> can print.\<close>

lemma clock_tm_ok:
  assumes "0 \<le> now" "now < 2 ^ 37"
  shows "tm_ok (clock_tm now)"
proof -
  let ?t = "gmtime_r now"
  have v: "valid_tm ?t" "0 \<le> tmWday ?t" "tmWday ?t < 7" "70 \<le> tmYear ?t" "tmYear ?t < 8000"
    using gmtime_valid [of now] gmtime_year [OF assms] by auto
  have m: "nat (tmMon ?t) < 12" using v(1) by (simp add: valid_tm_def valid_date_def nat_less_iff)
  have "tmMday ?t \<le> month_start (tmYear ?t + 1900) (nat (tmMon ?t) + 1) - month_start (tmYear ?t + 1900) (nat (tmMon ?t))"
    using v(1) by (simp add: valid_tm_def valid_date_def)
  then have "tmMday ?t < 32" using month_step [OF m, of "tmYear ?t + 1900"] by linarith
  then show ?thesis using v by (simp add: tm_ok_def clock_tm_def Let_def valid_tm_def valid_date_def valid_time_def nat_less_iff)
qed

section \<open>Clock and zone are stored and restored\<close>

text \<open>A configuration that \<open>TimeManageConfigSet\<close> wrote for a zone of the table.\<close>

definition time_ok :: "TimeConf_T \<Rightarrow> bool" where
  "time_ok i \<longleftrightarrow> 0 < timeZone_c i \<and> timeZone_c i < 76 \<and> - (2 ^ 31) \<le> currTime i \<and> currTime i < 2 ^ 31"

definition time_fields :: "TimeConf_T \<Rightarrow> (string \<times> field) list" where
  "time_fields i = (case GetTimeZoneString (timeZone_c i) of Inr (Some z) \<Rightarrow> [(''timeZone'', FStr z)] | _ \<Rightarrow> []) @
     [(''currTime'', FNum (currTime i))]"

definition time_json :: "TimeConf_T \<Rightarrow> json" where
  "time_json i = JObj (members (time_fields i))"

definition stored_time :: "(string \<times> json) list \<Rightarrow> TimeConf_T option \<Rightarrow> bool" where
  "stored_time ms c \<longleftrightarrow> member ms D_CONFTIMECONF_STR = map_option time_json c \<and> (\<forall>i. c = Some i \<longrightarrow> time_ok i)"

lemma time_make:
  assumes "time_ok i"
  shows "JsonMapTimeManageConfigMake i = Inr (repr (time_json i))" "json_ok (time_json i)"
    "JsonMapTimeManageConfigPares (Some (repr (time_json i))) base = Inr (i, KEY_TRUE)"
proof -
  obtain c where c: "GetTimeZoneString (timeZone_c i) = Inr (Some c)" "GetTimeZoneIndex c = Inr (timeZone_c i)"
    "NUL \<notin> set c" "length c < 128" using zone_names assms by (metis time_ok_def)
  have f: "time_fields i = [(''timeZone'', FStr c), (''currTime'', FNum (currTime i))]" using c by (simp add: time_fields_def)
  have ok: "list_all (field_ok \<circ> snd) (time_fields i)" using c assms by (simp add: f time_ok_def)
  show "JsonMapTimeManageConfigMake i = Inr (repr (time_json i))"
    using create_fields [OF ok] c(1) by (simp add: JsonMapTimeManageConfigMake_def time_json_def f del: add_fields.simps repr.simps)
  show "json_ok (time_json i)" unfolding time_json_def by (rule members_ok [OF ok]) (simp add: f)
  have m: "member (members (time_fields i)) ''timeZone'' = Some (JStr c)"
    "member (members (time_fields i)) ''currTime'' = Some (JNum (currTime i))"
    by (simp_all add: f same_name_def c_tolower_lower c_tolower_upper)
  have "cJSON_GetObjectItemValueInt (Some (repr (time_json i))) (Some ''currTime'') = currTime i"
    using get_int_member [of "members (time_fields i)" "''currTime''"] m(2) by (simp add: time_json_def del: repr.simps(6))
  then show "JsonMapTimeManageConfigPares (Some (repr (time_json i))) base = Inr (i, KEY_TRUE)"
    using get_text_member [OF m(1) c(3,4)] c(2)
    by (simp add: JsonMapTimeManageConfigPares_def time_json_def del: repr.simps)
qed

lemma time_set:
  assumes "conf_inv s ms" "time_ok i"
  shows "\<exists>s' ms'. TimeManageConfigSet fd True i s = Inr (s', KEY_TRUE) \<and> conf_inv s' ms' \<and> stored_time ms' (Some i) \<and>
    conf_file s' = Some (json_text (JObj ms') False 0)"
proof -
  have n: "NUL \<notin> set D_CONFTIMECONF_STR" by (simp add: D_CONFTIMECONF_STR_def)
  have "distinct (names ms)" using assms(1) by (simp add: conf_inv_def)
  then have st: "stored_time (del_member ms D_CONFTIMECONF_STR @ [(D_CONFTIMECONF_STR, time_json i)]) (Some i)"
    using assms(2) by (simp add: stored_time_def member_append member_del)
  obtain s' where "ConfigManageSet fd True (Some (repr (time_json i))) (Some D_CONFTIMECONF_STR) s = Inr (s', 0)"
    "conf_inv s' (del_member ms D_CONFTIMECONF_STR @ [(D_CONFTIMECONF_STR, time_json i)])"
    "conf_file s' = Some (json_text (JObj (del_member ms D_CONFTIMECONF_STR @ [(D_CONFTIMECONF_STR, time_json i)])) False 0)"
    using config_set [OF assms(1) time_make(2) [OF assms(2)] n, of fd] by blast
  then show ?thesis using st time_make(1) [OF assms(2)] unfolding TimeManageConfigSet_def by fastforce
qed

lemma time_get:
  assumes "conf_inv s ms" "stored_time ms (Some i)"
  shows "TimeManageConfigGet fd w base s = Some (Inr (s, i, KEY_TRUE))"
  using config_get [OF assms(1), of fd D_CONFTIMECONF_STR] assms(2) time_make(3) [of i base]
  by (simp add: TimeManageConfigGet_def stored_time_def)

text \<open>Without a stored configuration the default is written first.\<close>

lemma time_get_default:
  assumes "conf_inv s ms" "stored_time ms None"
  shows "\<exists>s' ms'. TimeManageConfigGet fd True base s = Some (Inr (s', \<lparr>timeZone_c = 57, currTime = 8192\<rparr>, KEY_TRUE)) \<and>
    conf_inv s' ms' \<and> stored_time ms' (Some \<lparr>timeZone_c = 57, currTime = 8192\<rparr>)"
proof -
  let ?d = "\<lparr>timeZone_c = 57, currTime = 8192\<rparr>"
  have ok: "time_ok ?d" by (simp add: time_ok_def)
  obtain s' ms' where s': "TimeManageConfigSet fd True ?d s = Inr (s', KEY_TRUE)" "conf_inv s' ms'" "stored_time ms' (Some ?d)"
    using time_set [OF assms(1) ok, of fd] by blast
  have "ConfigManageGet fd (Some D_CONFTIMECONF_STR) s' = Some (Inr (Some (repr (time_json ?d))))"
    using config_get [OF s'(2), of fd D_CONFTIMECONF_STR] s'(3) by (simp add: stored_time_def)
  then show ?thesis using config_get [OF assms(1), of fd D_CONFTIMECONF_STR] assms(2) s' time_make(3) [OF ok, of base]
    by (auto simp: TimeManageConfigGet_def TimeManageConfigDefault_def stored_time_def)
qed

lemma time_get_any:
  assumes "conf_inv s ms" "stored_time ms c"
  shows "\<exists>s' ms' i. TimeManageConfigGet fd True base s = Some (Inr (s', i, KEY_TRUE)) \<and> conf_inv s' ms' \<and> stored_time ms' (Some i)"
  using assms time_get [of s ms _ fd True base] time_get_default [of s ms fd base] by (cases c) blast+

lemma tell_all_told:
  assumes "\<forall>h \<in> set hs. h \<noteq> 0 \<and> tm_handles s h \<noteq> None"
  shows "tell_all hs s = Inr (s\<lparr>told := told s @ filter (\<lambda>h. tm_handles s h = Some True) hs\<rparr>)"
  using assms
proof (induction hs arbitrary: s)
  case (Cons h hs)
  then obtain f where f: "h \<noteq> 0" "tm_handles s h = Some f" by auto
  show ?case using Cons.IH [of s] Cons.IH [of "s\<lparr>told := told s @ [h]\<rparr>"] Cons.prems f
    by (cases f) (simp_all add: FunSendTimeChange_def)
qed simp

definition allowed :: "env \<Rightarrow> bool" where
  "allowed e \<longleftrightarrow> can_write e \<and> can_open e \<and> can_set e"

definition zone_file :: "int \<Rightarrow> string" where
  "zone_file i = zone_text (g_astruTZS ! nat (i - 1))"

text \<open>What a restart leaves: the file of the configuration, and whatever clock and zone the system comes up with.\<close>

definition after_restart :: "int \<Rightarrow> string option \<Rightarrow> TimeManage_S \<Rightarrow> TimeManage_S" where
  "after_restart now file s = \<lparr>clock = now, tz_file = file, conf_s = \<lparr>root = None, conf_file = conf_file (conf_s s)\<rparr>, listUsrRegist = [],
     tm_handles = Map.empty, told = []\<rparr>"

text \<open>The start of the modules reads the configuration from its file and then starts the clock.\<close>

definition start_clock :: "env \<Rightarrow> TimeManage_S \<Rightarrow> (TimeManage_S \<times> int) run" where
  "start_clock e s = run_bind (ConfigManageInit (conf_s s)) (\<lambda>(c, _). TimeManageInit e (s\<lparr>conf_s := c\<rparr>))"

lemma start_clock_stored:
  assumes c: "conf_inv (conf_s s) ms" "conf_file (conf_s s) = Some (json_text (JObj ms) False 0)" "stored_time ms (Some i)"
    and small: "length (the (conf_file (conf_s s))) < D_CONFPATH_LEN" and e: "allowed e"
  shows "\<exists>s'. start_clock e (after_restart now file s) = Some (Inr (s', KEY_TRUE)) \<and> clock s' = currTime i \<and>
    tz_file s' = Some (zone_file (timeZone_c i))"
proof -
  have "length (json_text (JObj ms) False 0) < D_CONFPATH_LEN" using small c(2) by simp
  from config_boot [OF c(1,2) this, of None]
  have b: "ConfigManageInit \<lparr>root = None, conf_file = conf_file (conf_s s)\<rparr> = Some (Inr (conf_s s, KEY_TRUE))" by (cases "conf_s s") simp
  have z: "0 < timeZone_c i" "timeZone_c i < 76" using c(3) by (simp_all add: stored_time_def time_ok_def)
  have w: "SetTimeZone True (timeZone_c i) file = Inr (Some (zone_file (timeZone_c i)), 0)"
    using set_zone [OF z] by (simp add: zone_file_def)
  show ?thesis using b w e time_get [OF c(1,3), of "prnum e" True]
    by (simp add: start_clock_def after_restart_def TimeManageInit_def SetLocalTimeByConfig_def settimeofday_def allowed_def)
qed

text \<open>
  C29. The clock: \<^verbatim>\<open>SetLocalTime\<close> with a zone of the table and a date within what an \<^verbatim>\<open>int\<close> can count sets the clock to the second of
  that date, writes the zone, and tells every registered module that has a function for it, once and in order of registration; after a restart,
  which keeps nothing but the file of the configuration, with whatever clock and zone file the system comes up, \<^verbatim>\<open>ConfigManageInit\<close> and
  \<^verbatim>\<open>TimeManageInit\<close> set the clock to that second and write the same zone, as long as the file is shorter than the buffer of 1 MiB.
  When the clock is off by two seconds or less \<^verbatim>\<open>SetLocalTime\<close> changes nothing, not even the zone. (Files can be written and the clock set.)
\<close>

theorem clock_restart:
  assumes "conf_inv (conf_s s) ms" "stored_time ms c" "0 < timeZone tv" "timeZone tv < 76" "allowed e"
    and sec: "sec = TimeLocalYMD2Sec (tzoff e) (curTime tv)" "0 \<le> sec" "sec < 2 ^ 31" "0 \<le> clock s" "clock s < 2 ^ 31"
    and regs: "\<forall>h \<in> set (listUsrRegist s). h \<noteq> 0 \<and> tm_handles s h \<noteq> None"
  shows "if \<bar>clock s - sec\<bar> \<le> 2 then SetLocalTime e tv s = Some (Inr (s, KEY_FALSE))
    else \<exists>s'. SetLocalTime e tv s = Some (Inr (s', KEY_TRUE)) \<and>
    clock s' = sec \<and> tz_file s' = Some (zone_file (timeZone tv)) \<and>
    told s' = told s @ filter (\<lambda>h. tm_handles s h = Some True) (listUsrRegist s) \<and>
    (length (the (conf_file (conf_s s'))) < D_CONFPATH_LEN \<longrightarrow>
      (\<forall>now file. \<exists>s''. start_clock e (after_restart now file s') = Some (Inr (s'', KEY_TRUE)) \<and>
         clock s'' = sec \<and> tz_file s'' = Some (zone_file (timeZone tv))))"
proof (cases "\<bar>clock s - sec\<bar> \<le> 2")
  case True
  then show ?thesis using sec by (simp add: SetLocalTime_def abs_int_def to_i32_id)
next
  case False
  let ?i = "\<lparr>timeZone_c = timeZone tv, currTime = sec\<rparr>" let ?z = "Some (zone_file (timeZone tv))"
  have e: "can_write e" "can_open e" "can_set e" using assms(5) by (simp_all add: allowed_def)
  have ok: "time_ok ?i" using assms by (simp add: time_ok_def)
  obtain c1 ms1 i1 where g: "TimeManageConfigGet (prnum e) True \<lparr>timeZone_c = 0, currTime = 0\<rparr> (conf_s s) = Some (Inr (c1, i1, KEY_TRUE))"
    "conf_inv c1 ms1" using time_get_any [OF assms(1,2)] by blast
  obtain c2 ms2 where w: "TimeManageConfigSet (prnum e) True ?i c1 = Inr (c2, KEY_TRUE)" "conf_inv c2 ms2" "stored_time ms2 (Some ?i)"
    "conf_file c2 = Some (json_text (JObj ms2) False 0)" using time_set [OF g(2) ok] by blast
  have i: "i1\<lparr>currTime := to_i32 sec, timeZone_c := timeZone tv\<rparr> = ?i" using sec(2,3) by (simp add: to_i32_id)
  have far: "\<not> abs_int (clock s - sec) \<le> 2" using sec(2-5) False by (simp add: abs_int_def to_i32_id)
  let ?s = "settimeofday e sec (s\<lparr>conf_s := c1, tz_file := ?z\<rparr>)"
  let ?t = "?s\<lparr>told := told s @ filter (\<lambda>h. tm_handles s h = Some True) (listUsrRegist s)\<rparr>"
  have s: "?s = s\<lparr>conf_s := c1, tz_file := ?z, clock := sec\<rparr>" using e by (simp add: settimeofday_def)
  have t: "tell_all (listUsrRegist s) ?s = Inr ?t"
    using tell_all_told [of "listUsrRegist s" ?s] regs unfolding s by simp
  have z: "SetTimeZone True (timeZone tv) (tz_file s) = Inr (?z, 0)"
    using set_zone [OF assms(3,4), of "tz_file s"] by (simp add: zone_file_def)
  let ?s' = "?t\<lparr>conf_s := c2\<rparr>"
  have "SetLocalTime e tv s = Some (Inr (?s', KEY_TRUE))"
    using far g(1) z t w(1) e i sec(1) unfolding s by (simp add: SetLocalTime_def Let_def TimeLocalYMD2Sec_def settimeofday_def)
  moreover have "clock ?s' = sec" "tz_file ?s' = ?z" "told ?s' = told s @ filter (\<lambda>h. tm_handles s h = Some True) (listUsrRegist s)"
    "conf_s ?s' = c2" unfolding s by simp_all
  ultimately show ?thesis using start_clock_stored [of ?s' ms2 ?i e] w(2-4) assms(5) unfolding if_not_P [OF False]
    by (intro exI [of _ ?s']) simp
qed

theorem clock_restart_witness:
  "\<exists>s'. SetLocalTime \<lparr>tzoff = 28800, prnum = (\<lambda>_. []), can_write = True, can_open = True, can_set = True\<rparr>
       \<lparr>timeZone = 57, weekday = 0, curTime = TimeSec2YMD 28800 1600000000\<rparr>
       \<lparr>clock = 5, tz_file = None, conf_s = \<lparr>root = Some cJSON_CreateObject, conf_file = None\<rparr>, listUsrRegist = [16, 24],
         tm_handles = [16 \<mapsto> True, 24 \<mapsto> False], told = []\<rparr> = Some (Inr (s', KEY_TRUE)) \<and> clock s' = 1600000000 \<and> told s' = [16]"
proof -
  let ?e = "\<lparr>tzoff = 28800, prnum = (\<lambda>_. []), can_write = True, can_open = True, can_set = True\<rparr>"
  have "TimeLocalYMD2Sec 28800 (TimeSec2YMD 28800 1600000000) = 1600000000"
    by (simp add: TimeLocalYMD2Sec_def TimeSec2YMD_def mktime_def localtime_r_def timegm_ymd)
  then show ?thesis
    using clock_restart [of "\<lparr>clock = 5, tz_file = None, conf_s = \<lparr>root = Some cJSON_CreateObject, conf_file = None\<rparr>, listUsrRegist = [16, 24],
         tm_handles = [16 \<mapsto> True, 24 \<mapsto> False], told = []\<rparr>" "[]" None "\<lparr>timeZone = 57, weekday = 0, curTime = TimeSec2YMD 28800 1600000000\<rparr>"
         ?e 1600000000] empty_conf
    by (auto simp: stored_time_def allowed_def)
qed

text \<open>A zone below the table is not stored, and reading the configuration back ends without a value; one above it is a fault at once.\<close>

lemma zone_not_stored:
  assumes "JsonMapTimeManageConfigMake i = Inr c" "timeZone_c i \<le> 0 \<or> timeZone_c i = 76" "- (2 ^ 31) \<le> currTime i" "currTime i < 2 ^ 31"
  shows "c = repr (JObj [(''currTime'', JNum (currTime i))])"
  using assms add_number_repr [of "currTime i" "[]"] unfolding repr_empty [symmetric]
  by (auto simp: JsonMapTimeManageConfigMake_def zone_names_outside simp del: repr.simps)

end
