(* ===== verification/DateText.thy ===== *)
theory DateText
  imports TimeManage
begin

text \<open>
  Dates as texts: the formats \<^verbatim>\<open>"%04d-%02d-%02d %02d:%02d:%02d"\<close> and \<^verbatim>\<open>"%04d-%02d-%02d %02d:%02d"\<close> with which
  \<^verbatim>\<open>src/ExtLibs/Config/jsonmap.c\<close> prints dates into replies, and those with which it takes the dates of requests apart. A format of \<^verbatim>\<open>sscanf\<close> is the list of its directives, and its outcome
  the list of the numbers it stores, up to the first directive that fails.

  The lemmas show what each reading format makes of each printed date.
\<close>

section \<open>Reading\<close>

datatype directive = DInt nat | DLit char | DSpace

text \<open>\<^verbatim>\<open>%<w>d\<close>: white space, then at most \<open>w\<close> characters, a sign among them.\<close>

definition scan_int :: "nat \<Rightarrow> string \<Rightarrow> (int \<times> string) option" where
  "scan_int w t =
     (let t = dropWhile c_isspace t;
          sign = (t \<noteq> [] \<and> 0 < w \<and> (hd t = CHR ''-'' \<or> hd t = CHR ''+''));
          u = (if sign then tl t else t); n = (if sign then w - 1 else w);
          ds = takeWhile c_isdigit (take n u) in
      if ds = [] then None
      else Some (if sign \<and> hd t = CHR ''-'' then - digits_val ds else digits_val ds, drop (length ds) u))"

fun sscanf :: "directive list \<Rightarrow> string \<Rightarrow> int list" where
  "sscanf [] t = []"
| "sscanf (DInt w # fs) t = (case scan_int w t of None \<Rightarrow> [] | Some (i, t) \<Rightarrow> i # sscanf fs t)"
| "sscanf (DLit c # fs) t = (if t \<noteq> [] \<and> hd t = c then sscanf fs (tl t) else [])"
| "sscanf (DSpace # fs) t = sscanf fs (dropWhile c_isspace t)"

definition day_format :: "directive list" where
  "day_format = [DInt 4, DLit (CHR ''-''), DInt 2, DLit (CHR ''-''), DInt 2]"

definition stamp_format :: "directive list" where
  "stamp_format = day_format @ [DSpace, DInt 2, DLit (CHR '':''), DInt 2, DLit (CHR '':''), DInt 2]"

text \<open>The numbers go to the members in turn; the others keep their values.\<close>

fun store_fields :: "(int \<Rightarrow> TimeYMD_T \<Rightarrow> TimeYMD_T) list \<Rightarrow> int list \<Rightarrow> TimeYMD_T \<Rightarrow> TimeYMD_T" where
  "store_fields (f # fs) (v # vs) t = store_fields fs vs (f v t)"
| "store_fields fs vs t = t"

definition ymd_fields :: "(int \<Rightarrow> TimeYMD_T \<Rightarrow> TimeYMD_T) list" where
  "ymd_fields = [\<lambda>v t. t\<lparr>year := v\<rparr>, \<lambda>v t. t\<lparr>month := v\<rparr>, \<lambda>v t. t\<lparr>day := v\<rparr>, \<lambda>v t. t\<lparr>hour_t := v\<rparr>,
     \<lambda>v t. t\<lparr>min_t := v\<rparr>, \<lambda>v t. t\<lparr>sec_t := v\<rparr>]"

definition scan_day :: "string \<Rightarrow> TimeYMD_T \<Rightarrow> TimeYMD_T" where
  "scan_day s t = store_fields ymd_fields (sscanf day_format s) t"

definition scan_stamp :: "string \<Rightarrow> TimeYMD_T \<Rightarrow> TimeYMD_T" where
  "scan_stamp s t = store_fields ymd_fields (sscanf stamp_format s) t"

section \<open>Printing\<close>

text \<open>\<^verbatim>\<open>%0<w>d\<close>: the sign comes before the zeros.\<close>

definition print_0d :: "nat \<Rightarrow> int \<Rightarrow> string" where
  "print_0d w i = (let ds = print_nat (nat \<bar>i\<bar>) in
     if i < 0 then CHR ''-'' # replicate (w - 1 - length ds) (CHR ''0'') @ ds
     else replicate (w - length ds) (CHR ''0'') @ ds)"

text \<open>
  \<open>day_text\<close> is the text of a day as clients write it into requests, and the beginning of the two texts that the program prints: lists in
  replies end with the minute, other replies and rows of the data base with the second.
\<close>

definition day_text :: "TimeYMD_T \<Rightarrow> string" where
  "day_text t = print_0d 4 (year t) @ ''-'' @ print_0d 2 (month t) @ ''-'' @ print_0d 2 (day t)"

definition minute_text :: "TimeYMD_T \<Rightarrow> string" where
  "minute_text t = day_text t @ '' '' @ print_0d 2 (hour_t t) @ '':'' @ print_0d 2 (min_t t)"

definition stamp_text :: "TimeYMD_T \<Rightarrow> string" where
  "stamp_text t = minute_text t @ '':'' @ print_0d 2 (sec_t t)"

section \<open>Round trip\<close>

lemma print_nat_0 [simp]: "print_nat 0 = ''0''"
  by code_simp

lemma scan_int_digits:
  assumes "ds \<noteq> []" "\<forall>c \<in> set ds. c_isdigit c" "length ds = w"
  shows "scan_int w (ds @ r) = Some (digits_val ds, r)"
proof -
  obtain c cs where c: "ds = c # cs" using assms(1) by (cases ds) auto
  have "\<not> c_isspace c" "c \<noteq> CHR ''-''" "c \<noteq> CHR ''+''" using assms(2) digit_not_space [of c] by (auto simp: c)
  moreover have "takeWhile c_isdigit ds = ds" using assms(2) by (simp add: takeWhile_eq_all_conv)
  ultimately show ?thesis using assms(3) by (auto simp: scan_int_def c Let_def)
qed

lemma digits_val_zeros: "digits_val (replicate k (CHR ''0'') @ ds) = digits_val ds"
  by (induction k) (simp_all add: digits_val_def)

lemma scan_int_printed:
  assumes "0 \<le> i" "nat i < 10 ^ w" "0 < w"
  shows "scan_int w (print_0d w i @ r) = Some (i, r)"
proof -
  obtain k where k: "w = Suc k" using assms(3) by (cases w) auto
  let ?ds = "replicate (w - length (print_nat (nat i))) (CHR ''0'') @ print_nat (nat i)"
  have p: "print_0d w i = ?ds" using assms(1) by (simp add: print_0d_def Let_def)
  have l: "length (print_nat (nat i)) \<le> w" using length_print_nat [of "nat i" k] assms(2) k by simp
  have "?ds \<noteq> []" by (simp add: print_nat_nonempty)
  moreover have "c_isdigit (CHR ''0'')" by (simp add: c_isdigit_def)
  then have "\<forall>c \<in> set ?ds. c_isdigit c" using print_nat_digits by auto
  moreover have "length ?ds = w" using l by simp
  ultimately have "scan_int w (?ds @ r) = Some (digits_val ?ds, r)" by (rule scan_int_digits)
  then show ?thesis using assms(1) by (simp add: p digits_val_zeros digits_val_print)
qed

definition date_ok :: "TimeYMD_T \<Rightarrow> bool" where
  "date_ok t \<longleftrightarrow> 0 \<le> year t \<and> year t < 10000 \<and> (\<forall>x \<in> {month t, day t, hour_t t, min_t t, sec_t t}. 0 \<le> x \<and> x < 100)"

lemma scan_printed:
  assumes "date_ok t"
  shows "scan_int 4 (print_0d 4 (year t) @ r) = Some (year t, r)" "scan_int 2 (print_0d 2 (month t) @ r) = Some (month t, r)"
    "scan_int 2 (print_0d 2 (day t) @ r) = Some (day t, r)" "scan_int 2 (print_0d 2 (hour_t t) @ r) = Some (hour_t t, r)"
    "scan_int 2 (print_0d 2 (min_t t) @ r) = Some (min_t t, r)" "scan_int 2 (print_0d 2 (sec_t t) @ r) = Some (sec_t t, r)"
proof -
  have e: "(10::nat) ^ 4 = 10000" "(10::nat) ^ 2 = 100" by simp_all
  have "nat (year t) < 10 ^ 4" "\<And>x. x < 100 \<Longrightarrow> nat x < 10 ^ 2" using assms unfolding e by (auto simp: date_ok_def)
  then show "scan_int 4 (print_0d 4 (year t) @ r) = Some (year t, r)" "scan_int 2 (print_0d 2 (month t) @ r) = Some (month t, r)"
    "scan_int 2 (print_0d 2 (day t) @ r) = Some (day t, r)" "scan_int 2 (print_0d 2 (hour_t t) @ r) = Some (hour_t t, r)"
    "scan_int 2 (print_0d 2 (min_t t) @ r) = Some (min_t t, r)" "scan_int 2 (print_0d 2 (sec_t t) @ r) = Some (sec_t t, r)"
    using assms by (auto simp: date_ok_def intro!: scan_int_printed)
qed

lemma print_0d_text: "0 \<le> i \<Longrightarrow> nat i < 10 ^ w \<Longrightarrow> 0 < w \<Longrightarrow> length (print_0d w i) = w \<and> NUL \<notin> set (print_0d w i)"
proof -
  assume a: "0 \<le> i" "nat i < 10 ^ w" "0 < w"
  obtain k where k: "w = Suc k" using a(3) by (cases w) auto
  have "length (print_nat (nat i)) \<le> w" using length_print_nat [of "nat i" k] a(2) k by simp
  moreover have "NUL \<notin> set (print_nat (nat i))" using print_nat_digits digit_not_space by blast
  ultimately show ?thesis using a(1) by (auto simp: print_0d_def Let_def)
qed

lemma day_text_ok: "date_ok t \<Longrightarrow> length (day_text t) = 10 \<and> NUL \<notin> set (day_text t)"
proof -
  assume t: "date_ok t"
  have e: "(10::nat) ^ 4 = 10000" "(10::nat) ^ 2 = 100" by simp_all
  have "nat (year t) < 10 ^ 4" "nat (month t) < 10 ^ 2" "nat (day t) < 10 ^ 2" using t unfolding e by (auto simp: date_ok_def)
  then show ?thesis using t print_0d_text [of "year t" 4] print_0d_text [of "month t" 2] print_0d_text [of "day t" 2]
    by (auto simp: date_ok_def day_text_def)
qed

lemma minute_text_ok: "date_ok t \<Longrightarrow> length (minute_text t) = 16 \<and> NUL \<notin> set (minute_text t)"
proof -
  assume t: "date_ok t"
  have "nat (hour_t t) < 10 ^ 2" "nat (min_t t) < 10 ^ 2" using t unfolding power2_eq_square by (auto simp: date_ok_def)
  then show ?thesis using t day_text_ok [OF t] print_0d_text [of "hour_t t" 2] print_0d_text [of "min_t t" 2]
    by (auto simp: date_ok_def minute_text_def)
qed

lemma sscanf_day_prefix: "date_ok t \<Longrightarrow> sscanf day_format (day_text t @ r) = [year t, month t, day t]"
  using scan_printed [of t] by (simp add: day_format_def day_text_def)

lemma sscanf_day: "date_ok t \<Longrightarrow> sscanf day_format (day_text t) = [year t, month t, day t]"
  using sscanf_day_prefix [of t "[]"] by simp

lemma print_0d_start: "0 \<le> i \<Longrightarrow> \<exists>c cs. print_0d w i @ r = c # cs \<and> c_isdigit c"
proof -
  assume i: "0 \<le> i"
  have "print_0d w i \<noteq> []" "\<forall>c \<in> set (print_0d w i). c_isdigit c"
    using i print_nat_digits by (auto simp: print_0d_def Let_def print_nat_nonempty c_isdigit_def)
  then show ?thesis by (cases "print_0d w i") auto
qed

lemma space_before_hour: "date_ok t \<Longrightarrow> dropWhile c_isspace ('' '' @ print_0d 2 (hour_t t) @ r) = print_0d 2 (hour_t t) @ r"
  using print_0d_start [of "hour_t t" 2 r] digit_not_space by (fastforce simp: date_ok_def c_isspace_def)

lemma sscanf_stamp: "date_ok t \<Longrightarrow> sscanf stamp_format (stamp_text t) = [year t, month t, day t, hour_t t, min_t t, sec_t t]"
  using scan_printed [of t] scan_printed(6) [of t "[]"] space_before_hour [of t]
  by (simp add: stamp_format_def day_format_def stamp_text_def minute_text_def day_text_def)

lemma sscanf_minute: "date_ok t \<Longrightarrow> sscanf stamp_format (minute_text t) = [year t, month t, day t, hour_t t, min_t t]"
  using scan_printed [of t] scan_printed(5) [of t "[]"] space_before_hour [of t]
  by (simp add: stamp_format_def day_format_def minute_text_def day_text_def)

text \<open>
  C34. Printed dates and the formats of requests, for dates with a year of four and other numbers of at most two digits, none negative: the
  text with seconds is read back by the format with a time as the date, whatever the record held before; from the text that ends with the minute the
  same format takes all but the seconds, which stay as they were; and the format of days takes the day from both and
  leaves the time of day as it was.
\<close>

theorem date_text_roundtrip:
  assumes "date_ok t"
  shows "scan_stamp (stamp_text t) t0 = t \<and> scan_stamp (minute_text t) t0 = t\<lparr>sec_t := sec_t t0\<rparr> \<and>
    (\<forall>s \<in> {stamp_text t, minute_text t}. scan_day s t0 = t\<lparr>hour_t := hour_t t0, min_t := min_t t0, sec_t := sec_t t0\<rparr>)"
proof -
  have "sscanf day_format (stamp_text t) = [year t, month t, day t]" "sscanf day_format (minute_text t) = [year t, month t, day t]"
    using sscanf_day_prefix [OF assms] by (simp_all add: stamp_text_def minute_text_def)
  then show ?thesis using sscanf_stamp [OF assms] sscanf_minute [OF assms]
    by (cases t) (simp add: scan_stamp_def scan_day_def ymd_fields_def)
qed

theorem date_text_roundtrip_witness:
  "scan_stamp ''2024-02-29 07:05:00'' \<lparr>year = 1, month = 2, day = 3, hour_t = 4, min_t = 5, sec_t = 6\<rparr> =
   \<lparr>year = 2024, month = 2, day = 29, hour_t = 7, min_t = 5, sec_t = 0\<rparr>"
proof -
  let ?t = "\<lparr>year = 2024, month = 2, day = 29, hour_t = 7, min_t = 5, sec_t = 0\<rparr>"
  have "stamp_text ?t = ''2024-02-29 07:05:00''" by code_simp
  moreover have "date_ok ?t" by (simp add: date_ok_def)
  ultimately show ?thesis using date_text_roundtrip [of ?t "\<lparr>year = 1, month = 2, day = 3, hour_t = 4, min_t = 5, sec_t = 6\<rparr>"]
    by (simp only:)
qed

end
