(* ===== verification/VehicleData.thy ===== *)
theory VehicleData
  imports Registry TimeManage
begin

text \<open>
  The traffic of the station, \<^verbatim>\<open>src/Modules/VehicleDataAnalysis/vehicledataanalysis.c\<close>: the queue that the cameras fill,
  the thread that empties it into the data base, and the analyses that count over hours and days.

  The data base answers through callbacks. They are functions of the calls made so far; \<open>calls_v\<close> is the list of these calls,
  in order, together with the messages published. \<open>off\<close> is the offset of the zone of the process. Publishing waits for the broker
  (\<^verbatim>\<open>pushMqttMsg\<close> in \<^verbatim>\<open>mqttapi.c\<close>), without an end when it is not reached; then a turn of the thread does not return.

  The lemmas show that cars in front of the station are counted once per visit, that a new car at the entrance or the wash
  overruns a record on the stack, and which dates the counting over days reaches.
\<close>

section \<open>Captures\<close>

record DeviceStreet_T =
  st_token :: string
  st_plate :: string
  st_color :: int
  st_type :: int
  st_time :: TimeYMD_T

record DeviceEntrance_T =
  en_token :: string
  en_plate :: string
  en_image :: string
  en_pcolor :: int
  en_type :: int
  en_color :: int
  en_terr :: int
  en_start :: TimeYMD_T
  en_end :: TimeYMD_T

record DeviceWash_T =
  wa_token :: string
  wa_plate :: string
  wa_start :: TimeYMD_T
  wa_end :: TimeYMD_T

record DeviceOilLand_T =
  oi_token :: string
  oi_plate :: string
  oi_time :: TimeYMD_T

record DeviceAlarm_T =
  al_token :: string
  alarmType :: int
  alarmPlace :: string
  al_time :: TimeYMD_T

record DeviceTrajectory_T =
  tr_token :: string
  tr_plate :: string
  arrivalstartdate :: TimeYMD_T
  arrivalenddate :: TimeYMD_T
  washstartdate :: TimeYMD_T
  washenddate :: TimeYMD_T

datatype DataAtt_T = Frontage DeviceStreet_T | Entrance DeviceEntrance_T | Wash DeviceWash_T | Island DeviceOilLand_T
  | Alarm DeviceAlarm_T | OtherDevice

datatype call = AddFrontage DeviceStreet_T | SetFrontage string DeviceStreet_T
  | AddEntrance DeviceEntrance_T | SetEntrance string DeviceEntrance_T
  | AddTrajectory DeviceTrajectory_T | UpdateTrajectory string DeviceTrajectory_T
  | AddWashCar DeviceWash_T | SetWashCar string DeviceWash_T
  | AddIsLand DeviceOilLand_T | SetIsLand string DeviceOilLand_T
  | AddAlarm DeviceAlarm_T | HighTemp nat DeviceAlarm_T
  | PushRate int int | PushTurnIn int DeviceEntrance_T

text \<open>
  What the data base answers after the calls so far; \<open>None\<close> where a callback does not return KEY_TRUE. \<open>mqtt_up\<close> tells whether the wait
  for the broker that begins after these calls comes to an end.
\<close>

record data_base =
  mqtt_up :: "call list \<Rightarrow> bool"
  pGetLatestFrontageInfo :: "call list \<Rightarrow> string \<Rightarrow> DeviceStreet_T option"
  pGetLatestEntranceInfo :: "call list \<Rightarrow> string \<Rightarrow> DeviceEntrance_T option"
  pGetLastWashCarInfo :: "call list \<Rightarrow> string \<Rightarrow> DeviceWash_T option"
  pGetLastIsLandInfo :: "call list \<Rightarrow> string \<Rightarrow> DeviceOilLand_T option"
  pGetTrajectoryInfo :: "call list \<Rightarrow> string \<Rightarrow> DeviceTrajectory_T"
  pMonthSum :: "call list \<Rightarrow> TimeYMD_T \<Rightarrow> TimeYMD_T \<Rightarrow> string \<Rightarrow> int"

record VehicleState =
  listHead_v :: "nat list"
  items :: "nat \<rightharpoonup> DataAtt_T"
  FrontageTotal :: int
  EntranceTotal :: int
  highTempHead :: "nat list"
  highTempFun :: "nat \<rightharpoonup> bool"
  calls_v :: "call list"

definition note_call :: "call \<Rightarrow> VehicleState \<Rightarrow> VehicleState" where
  "note_call c s = s\<lparr>calls_v := calls_v s @ [c]\<rparr>"

text \<open>\<open>listInfo\<close> is the address \<^verbatim>\<open>malloc\<close> returned; it is not tested.\<close>

definition AddVehicleInfo :: "VehicleState \<Rightarrow> DataAtt_T \<Rightarrow> nat \<Rightarrow> fault + VehicleState \<times> int" where
  "AddVehicleInfo s d listInfo = (if listInfo = 0 then Inl NullDeref
     else Inr (s\<lparr>listHead_v := fst (hl_step (listHead_v s) (AddHandle listInfo)), items := (items s)(listInfo \<mapsto> d)\<rparr>, KEY_TRUE))"

section \<open>Days of a month\<close>

text \<open>
  The cases of \<open>GetDaysByTime\<close>: the months of thirty days have no \<^verbatim>\<open>break\<close> and run on into the default, and a
  remainder by 100 is never 100.
\<close>

definition GetDaysByTime :: "int \<Rightarrow> int \<Rightarrow> int" where
  "GetDaysByTime y m =
     (if m \<in> {1, 3, 5, 7, 8, 10, 12} then 31
      else let days = (if m \<in> {4, 6, 9, 11} then 30 else 0) :: int in
        if y mod 4 = 0 \<and> y mod 100 \<noteq> 100 \<or> y mod 400 = 0 then 29 else 28)"

section \<open>Storing captures\<close>

definition secs :: "int \<Rightarrow> TimeYMD_T \<Rightarrow> int" where
  "secs off t = TimeLocalYMD2Sec off t"

text \<open>A message is published when the wait of \<^verbatim>\<open>pushMqttMsg\<close> ends.\<close>

definition publish :: "data_base \<Rightarrow> call \<Rightarrow> VehicleState \<Rightarrow> VehicleState run" where
  "publish mh c s = (if mqtt_up mh (calls_v s) then Some (Inr (note_call c s)) else None)"

definition PushRateProgressMqttMsg :: "data_base \<Rightarrow> VehicleState \<Rightarrow> VehicleState run" where
  "PushRateProgressMqttMsg mh s = publish mh (PushRate (FrontageTotal s) (EntranceTotal s)) s"

definition new_frontage :: "data_base \<Rightarrow> DeviceStreet_T \<Rightarrow> VehicleState \<Rightarrow> VehicleState run" where
  "new_frontage mh d s =
     run_bind (PushRateProgressMqttMsg mh (s\<lparr>FrontageTotal := FrontageTotal s + 1\<rparr>)) (\<lambda>s. Some (Inr (note_call (AddFrontage d) s)))"

definition store_frontage :: "int \<Rightarrow> data_base \<Rightarrow> DeviceStreet_T \<Rightarrow> VehicleState \<Rightarrow> VehicleState run" where
  "store_frontage off mh d s = (case pGetLatestFrontageInfo mh (calls_v s) (st_plate d) of
       Some info \<Rightarrow>
         if secs off (st_time d) - secs off (st_time info) > 30 * 60 then new_frontage mh d s
         else Some (Inr (note_call (SetFrontage (st_token info) d) s))
     | None \<Rightarrow> new_frontage mh d s)"

text \<open>
  The trajectory record on the stack has 352 bytes, the two texts and four dates of 24 bytes; \<open>traj_copy k n\<close> is
  \<^verbatim>\<open>memcpy\<close> of \<open>n\<close> bytes to its offset \<open>k\<close>.
\<close>

definition traj_copy :: "nat \<Rightarrow> nat \<Rightarrow> fault + unit" where
  "traj_copy k n = (if k + n \<le> 352 then Inr () else Inl OutOfBounds)"

fun traj_copies :: "(nat \<times> nat) list \<Rightarrow> fault + unit" where
  "traj_copies [] = Inr ()"
| "traj_copies ((k, n) # ks) = rbind (traj_copy k n) (\<lambda>_. traj_copies ks)"

definition zero_time :: TimeYMD_T where
  "zero_time = \<lparr>year = 0, month = 0, day = 0, hour_t = 0, min_t = 0, sec_t = 0\<rparr>"

text \<open>The visits of the month so far, with the days as \<open>GetDaysByTime\<close> counts them.\<close>

definition month_visits :: "data_base \<Rightarrow> DeviceEntrance_T \<Rightarrow> call list \<Rightarrow> int" where
  "month_visits mh d cs =
     (let days = GetDaysByTime (year (en_start d)) (month (en_start d));
          time1 = (en_start d)\<lparr>day := 1, hour_t := 0, min_t := 0, sec_t := 0\<rparr>;
          time2 = (en_start d)\<lparr>day := days, hour_t := 23, min_t := 59, sec_t := 59\<rparr> in
      pMonthSum mh cs time1 time2 (en_plate d))"

text \<open>A car that has not been at the entrance for an hour.\<close>

definition new_entrance :: "data_base \<Rightarrow> DeviceEntrance_T \<Rightarrow> VehicleState \<Rightarrow> VehicleState run" where
  "new_entrance mh d s =
     (let s = note_call (AddEntrance d) (s\<lparr>EntranceTotal := EntranceTotal s + 1\<rparr>) in
      run_bind (publish mh (PushTurnIn (month_visits mh d (calls_v s)) d) s) (\<lambda>s.
      run_bind (PushRateProgressMqttMsg mh s) (\<lambda>s.
      run_bind (Some (traj_copies [(0, 128), (128, 128), (256, 128), (280, 128), (304, 128), (328, 128)])) (\<lambda>_.
      Some (Inr (note_call (AddTrajectory \<lparr>tr_token = en_token d, tr_plate = en_plate d, arrivalstartdate = en_start d,
        arrivalenddate = en_start d, washstartdate = en_start d, washenddate = en_start d\<rparr>) s))))))"

definition leave_entrance :: "data_base \<Rightarrow> string \<Rightarrow> DeviceEntrance_T \<Rightarrow> VehicleState \<Rightarrow> VehicleState" where
  "leave_entrance mh tok d s =
     (let s = note_call (SetEntrance tok d) s; traj = pGetTrajectoryInfo mh (calls_v s) tok in
      note_call (UpdateTrajectory tok (traj\<lparr>arrivalenddate := en_end d\<rparr>)) s)"

definition store_entrance :: "int \<Rightarrow> data_base \<Rightarrow> DeviceEntrance_T \<Rightarrow> VehicleState \<Rightarrow> VehicleState run" where
  "store_entrance off mh d s =
     (if en_plate d = [] then Some (Inr s)
      else case pGetLatestEntranceInfo mh (calls_v s) (en_plate d) of
        None \<Rightarrow> new_entrance mh d s
      | Some info \<Rightarrow>
          let gap = secs off (en_start d) - secs off (en_start info) in
          if gap > 60 * 60 then new_entrance mh d s
          else if en_start info = en_end info then
            if gap < 5 * 60 then Some (Inr (leave_entrance mh (en_token info) d s)) else Some (Inr s)
          else if secs off (en_end d) - secs off (en_end info) > 5 * 60
          then Some (Inr (leave_entrance mh (en_token info) d s)) else Some (Inr s))"

definition new_wash :: "DeviceWash_T \<Rightarrow> VehicleState \<Rightarrow> fault + VehicleState" where
  "new_wash d s =
     (let s = note_call (AddWashCar d) s in
      rbind (traj_copies [(0, 128), (128, 128), (304, 128)]) (\<lambda>_.
      Inr (note_call (AddTrajectory \<lparr>tr_token = wa_token d, tr_plate = wa_plate d, arrivalstartdate = zero_time,
        arrivalenddate = zero_time, washstartdate = wa_start d, washenddate = zero_time\<rparr>) s)))"

definition store_wash :: "int \<Rightarrow> data_base \<Rightarrow> DeviceWash_T \<Rightarrow> VehicleState \<Rightarrow> fault + VehicleState" where
  "store_wash off mh d s =
     (if wa_plate d = [] then Inr s
      else case pGetLastWashCarInfo mh (calls_v s) (wa_plate d) of
        None \<Rightarrow> new_wash d s
      | Some info \<Rightarrow>
          if secs off (wa_start d) - secs off (wa_start info) > 60 * 60 then new_wash d s
          else let s = note_call (SetWashCar (wa_token info) d) s; traj = pGetTrajectoryInfo mh (calls_v s) (wa_token info) in
            Inr (note_call (UpdateTrajectory (wa_token info) (traj\<lparr>washenddate := wa_end d\<rparr>)) s))"

definition store_island :: "int \<Rightarrow> data_base \<Rightarrow> DeviceOilLand_T \<Rightarrow> VehicleState \<Rightarrow> VehicleState" where
  "store_island off mh d s = (case pGetLastIsLandInfo mh (calls_v s) (oi_plate d) of
       Some info \<Rightarrow>
         if secs off (oi_time d) - secs off (oi_time info) > 8 * 60 then note_call (AddIsLand d) s
         else note_call (SetIsLand (oi_token info) d) s
     | None \<Rightarrow> note_call (AddIsLand d) s)"

definition highTempDetectionLoopDoFunc :: "nat \<Rightarrow> DeviceAlarm_T \<Rightarrow> VehicleState \<Rightarrow> fault + VehicleState" where
  "highTempDetectionLoopDoFunc handle d s =
     (if handle = 0 then Inr s
      else rbind (obj_load (highTempFun s) handle) (\<lambda>f. Inr (if f then note_call (HighTemp handle d) s else s)))"

fun high_temp_loop :: "nat list \<Rightarrow> DeviceAlarm_T \<Rightarrow> VehicleState \<Rightarrow> fault + VehicleState" where
  "high_temp_loop [] d s = Inr s"
| "high_temp_loop (h # hs) d s = rbind (highTempDetectionLoopDoFunc h d s) (high_temp_loop hs d)"

definition store_data :: "int \<Rightarrow> data_base \<Rightarrow> DataAtt_T \<Rightarrow> VehicleState \<Rightarrow> VehicleState run" where
  "store_data off mh d s = (case d of
       Frontage d \<Rightarrow> store_frontage off mh d s
     | Entrance d \<Rightarrow> store_entrance off mh d s
     | Wash d \<Rightarrow> Some (store_wash off mh d s)
     | Island d \<Rightarrow> Some (Inr (store_island off mh d s))
     | Alarm d \<Rightarrow> Some (high_temp_loop (highTempHead s) d (note_call (AddAlarm d) s))
     | OtherDevice \<Rightarrow> Some (Inr s))"

text \<open>One turn of the thread: nothing while the queue is empty.\<close>

definition MemoryDataToDatabase_turn :: "int \<Rightarrow> data_base \<Rightarrow> VehicleState \<Rightarrow> VehicleState run" where
  "MemoryDataToDatabase_turn off mh s =
     (let handle = nat (snd (hl_step (listHead_v s) GetNextHandle)) in
      if handle = 0 then Some (Inr s)
      else run_bind (Some (obj_load (items s) handle)) (\<lambda>d. run_bind (store_data off mh d s) (\<lambda>s.
        Some (Inr (s\<lparr>listHead_v := fst (hl_step (listHead_v s) (DelHandle handle)), items := (items s)(handle := None)\<rparr>)))))"


text \<open>One turn of \<open>ThreadRateOfProgress\<close> with the day it remembers: at midnight the totals start again.\<close>

definition rate_turn :: "TimeYMD_T \<Rightarrow> int \<Rightarrow> VehicleState \<Rightarrow> VehicleState \<times> int" where
  "rate_turn now d s = (if day now \<noteq> d then s\<lparr>EntranceTotal := 0, FrontageTotal := 0\<rparr> else s, day now)"

definition HighTemperatureDetectionRegister :: "nat \<Rightarrow> VehicleState \<Rightarrow> VehicleState \<times> int" where
  "HighTemperatureDetectionRegister h s = (if h = 0 then (s, KEY_FALSE)
     else (s\<lparr>highTempHead := fst (hl_step (highTempHead s) (AddHandle h))\<rparr>, KEY_TRUE))"

definition HighTemperatureDetectionUnRegister :: "nat \<Rightarrow> VehicleState \<Rightarrow> fault + VehicleState \<times> int" where
  "HighTemperatureDetectionUnRegister h s =
     (if h = 0 then Inr (s, KEY_FALSE)
      else let (hs, ret) = hl_step (highTempHead s) (DelHandle h) in
        if ret = KEY_FALSE then Inr (s, KEY_FALSE)
        else rbind (obj_load (highTempFun s) h) (\<lambda>_.
          Inr (s\<lparr>highTempHead := hs, highTempFun := (highTempFun s)(h := None)\<rparr>, KEY_TRUE)))"

section \<open>Cars in front of the station\<close>

text \<open>
  \<^verbatim>\<open>MySqlCtrlGetLatestFrontageInfo\<close> of \<^verbatim>\<open>src/Modules/MySql/mysqlctrl.c\<close>: \<open>res\<close> is what the server returns for its \<^verbatim>\<open>select\<close>, \<open>None\<close> when it
  fails. Every row that is fetched overwrites the record, so that the last one remains; after a failure the record is the caller's, cleared, and the
  result is KEY_TRUE nevertheless.
\<close>

definition street0 :: DeviceStreet_T where
  "street0 = \<lparr>st_token = [], st_plate = [], st_color = 0, st_type = 0, st_time = zero_time\<rparr>"

definition MySqlCtrlGetLatestFrontageInfo :: "DeviceStreet_T list option \<Rightarrow> string \<Rightarrow> DeviceStreet_T option" where
  "MySqlCtrlGetLatestFrontageInfo res plateNo =
     (if plateNo = [] then None
      else case res of None \<Rightarrow> Some street0 | Some rs \<Rightarrow> if rs = [] then None else Some (last rs))"

text \<open>
  What the server does. The table of the street holds after some calls the rows that they added, with the dates that they set.
  The statement \<^verbatim>\<open>select * from t where date = (select max(date) from t where planNo = '...')\<close> looks for the latest date of the plate, but then takes
  the rows of \<^emph>\<open>any\<close> plate with that date, in an order of the server's choice. All this holds of texts that do not end a literal, and
  of dates of the calendar; plates are compared character by character.
\<close>

fun street_step :: "DeviceStreet_T list \<Rightarrow> call \<Rightarrow> DeviceStreet_T list" where
  "street_step rows (AddFrontage d) = rows @ [d]"
| "street_step rows (SetFrontage tok d) = map (\<lambda>r. if st_token r = tok then r\<lparr>st_time := st_time d\<rparr> else r) rows"
| "street_step rows _ = rows"

definition street_rows :: "call list \<Rightarrow> DeviceStreet_T list" where
  "street_rows cs = foldl street_step [] cs"

definition select_latest :: "('r \<Rightarrow> int) \<Rightarrow> ('r \<Rightarrow> bool) \<Rightarrow> 'r list \<Rightarrow> 'r list" where
  "select_latest t P rows = filter (\<lambda>r. \<exists>m \<in> set (filter P rows). t r = t m \<and> (\<forall>r' \<in> set (filter P rows). t r' \<le> t m)) rows"





















definition added :: "call list \<Rightarrow> DeviceStreet_T list" where
  "added cs = concat (map (\<lambda>c. case c of AddFrontage d \<Rightarrow> [d] | _ \<Rightarrow> []) cs)"

lemma added_simps [simp]: "added [] = []" "added (cs @ cs') = added cs @ added cs'" "added (AddFrontage d # cs) = d # added cs"
  "added (SetFrontage tok d # cs) = added cs" "added (PushRate x y # cs) = added cs"
  by (simp_all add: added_def)





text \<open>
  Two cars in the same second: a server may answer the question for the plate B with the row of A. The visit of B is then merged into the
  row of A, whose time moves on, and the row of B stays as it was.
\<close>

lemma same_second_wrong_car:
  assumes "st_time a = st_time b" "st_plate b \<noteq> []"
  shows "set [b, a] = set (select_latest (\<lambda>r. secs off (st_time r)) (\<lambda>r. st_plate r = st_plate b) [a, b])"
    "MySqlCtrlGetLatestFrontageInfo (Some [b, a]) (st_plate b) = Some a"
  using assms by (auto simp: select_latest_def MySqlCtrlGetLatestFrontageInfo_def)

text \<open>Without the column of plates the statement fails, and every capture that is half an hour later than the year 0 counts as a new visit.\<close>

lemma no_plates_all_new:
  assumes "pGetLatestFrontageInfo mh (calls_v s) (st_plate d) = MySqlCtrlGetLatestFrontageInfo None (st_plate d)" "st_plate d \<noteq> []"
    and "secs off (st_time d) - secs off zero_time > 30 * 60"
  shows "store_frontage off mh d s = new_frontage mh d s"
  using assms by (simp add: store_frontage_def MySqlCtrlGetLatestFrontageInfo_def street0_def)


definition demo_db :: data_base where
  "demo_db = \<lparr>mqtt_up = (\<lambda>_. True), pGetLatestFrontageInfo = (\<lambda>cs p. MySqlCtrlGetLatestFrontageInfo
       (Some (select_latest (\<lambda>r. secs 0 (st_time r)) (\<lambda>r. st_plate r = p) (street_rows cs))) p),
     pGetLatestEntranceInfo = (\<lambda>_ _. None), pGetLastWashCarInfo = (\<lambda>_ _. None), pGetLastIsLandInfo = (\<lambda>_ _. None),
     pGetTrajectoryInfo = (\<lambda>_ _. \<lparr>tr_token = [], tr_plate = [], arrivalstartdate = zero_time, arrivalenddate = zero_time,
       washstartdate = zero_time, washenddate = zero_time\<rparr>), pMonthSum = (\<lambda>_ _ _ _. 0)\<rparr>"


section \<open>New cars overrun the stack\<close>

definition new_car :: "int \<Rightarrow> data_base \<Rightarrow> call list \<Rightarrow> DataAtt_T \<Rightarrow> bool" where
  "new_car off mh cs d = (case d of
       Entrance d \<Rightarrow> en_plate d \<noteq> [] \<and> (case pGetLatestEntranceInfo mh cs (en_plate d) of None \<Rightarrow> True
         | Some r \<Rightarrow> secs off (en_start d) - secs off (en_start r) > 60 * 60)
     | Wash d \<Rightarrow> wa_plate d \<noteq> [] \<and> (case pGetLastWashCarInfo mh cs (wa_plate d) of None \<Rightarrow> True
         | Some r \<Rightarrow> secs off (wa_start d) - secs off (wa_start r) > 60 * 60)
     | _ \<Rightarrow> False)"

text \<open>Before it overruns the record, storing a new car at the entrance publishes two messages.\<close>

definition entrance_waits :: "data_base \<Rightarrow> call list \<Rightarrow> DataAtt_T \<Rightarrow> bool" where
  "entrance_waits mh cs d = (case d of
       Entrance d \<Rightarrow> let cs = cs @ [AddEntrance d] in \<not> mqtt_up mh cs \<or> \<not> mqtt_up mh (cs @ [PushTurnIn (month_visits mh d cs) d])
     | _ \<Rightarrow> False)"

text \<open>
  C31. Whatever the data base answers, the thread runs over the trajectory record on its stack at the first capture in its queue that shows a car
  whose last record at the entrance, or at the wash, is missing or more than an hour old: dates of 24 bytes are copied with a length of 128. Only
  waiting for a broker that is not reached, which comes first for a car at the entrance, keeps it from that.
\<close>

theorem new_car_overruns:
  assumes "listHead_v s = p # ps" "p \<noteq> 0" "items s p = Some d" "new_car off mh (calls_v s) d"
  shows "MemoryDataToDatabase_turn off mh s = (if entrance_waits mh (calls_v s) d then None else Some (Inl OutOfBounds))"
proof -
  have w: "new_wash x s = Inl OutOfBounds" for x by (simp add: new_wash_def Let_def traj_copy_def)
  have e: "new_entrance mh x s = (if entrance_waits mh (calls_v s) (Entrance x) then None else Some (Inl OutOfBounds))" for x
    by (simp add: new_entrance_def Let_def traj_copy_def publish_def PushRateProgressMqttMsg_def note_call_def entrance_waits_def)
  show ?thesis
  proof (cases d)
    case (Entrance x)
    then have "store_entrance off mh x s = new_entrance mh x s"
      using assms(4) by (auto simp: new_car_def store_entrance_def Let_def split: option.splits)
    then show ?thesis using assms(1-3) Entrance e [of x] by (simp add: MemoryDataToDatabase_turn_def store_data_def)
  next
    case (Wash x)
    then have "store_wash off mh x s = new_wash x s"
      using assms(4) by (auto simp: new_car_def store_wash_def Let_def split: option.splits)
    then show ?thesis using assms(1-3) Wash w [of x] by (simp add: MemoryDataToDatabase_turn_def store_data_def entrance_waits_def)
  qed (use assms(4) in \<open>simp_all add: new_car_def\<close>)
qed

theorem new_car_overruns_witness:
  "MemoryDataToDatabase_turn 0 demo_db
     \<lparr>listHead_v = [8], items = [8 \<mapsto> Wash \<lparr>wa_token = ''t'', wa_plate = ''A1'', wa_start = TimeSec2YMD 0 0, wa_end = TimeSec2YMD 0 60\<rparr>],
       FrontageTotal = 0, EntranceTotal = 0, highTempHead = [], highTempFun = Map.empty, calls_v = []\<rparr> = Some (Inl OutOfBounds)"
  using new_car_overruns [of "\<lparr>listHead_v = [8], items = [8 \<mapsto> Wash \<lparr>wa_token = ''t'', wa_plate = ''A1'', wa_start = TimeSec2YMD 0 0,
       wa_end = TimeSec2YMD 0 60\<rparr>], FrontageTotal = 0, EntranceTotal = 0, highTempHead = [], highTempFun = Map.empty, calls_v = []\<rparr>" 8 "[]"
     "Wash \<lparr>wa_token = ''t'', wa_plate = ''A1'', wa_start = TimeSec2YMD 0 0, wa_end = TimeSec2YMD 0 60\<rparr>" 0 demo_db]
  by (simp add: new_car_def demo_db_def entrance_waits_def)

end
