(* ===== verification/VehicleAnalysis.thy ===== *)
theory VehicleAnalysis
  imports VehicleData
begin

text \<open>
  The analyses of \<^verbatim>\<open>src/Modules/VehicleDataAnalysis/vehicledataanalysis.c\<close>: counts of the data base, split over hours, days
  or months, over kinds of cars or levels of alarms. The counts are callbacks; the pointers for the results are never NULL.

  Three analyses step through days in the same way. The lemmas compare this step with the calendar.
\<close>

section \<open>Names of kinds\<close>

definition GetPlateColorByType :: "string \<Rightarrow> int \<Rightarrow> fault + string \<times> int" where
  "GetPlateColorByType data t = rbind (sprintf data
     (if t = 2 then [CHR 0xE9, CHR 0xBB, CHR 0x84, CHR 0xE8, CHR 0x89, CHR 0xB2]
      else if t = 3 then [CHR 0xE8, CHR 0x93, CHR 0x9D, CHR 0xE8, CHR 0x89, CHR 0xB2]
      else if t = 5 then [CHR 0xE7, CHR 0xBB, CHR 0xBF, CHR 0xE8, CHR 0x89, CHR 0xB2]
      else [CHR 0xE5, CHR 0x85, CHR 0xB6, CHR 0xE4, CHR 0xBB, CHR 0x96])) (\<lambda>data. Inr (data, KEY_TRUE))"

definition GetVehiclesByType :: "string \<Rightarrow> int \<Rightarrow> fault + string \<times> int" where
  "GetVehiclesByType data t = rbind (sprintf data
     (if t = 1 then [CHR 0xE5, CHR 0xA4, CHR 0xA7, CHR 0xE5, CHR 0xAE, CHR 0xA2, CHR 0xE8, CHR 0xBD, CHR 0xA6]
      else if t = 2 then [CHR 0xE8, CHR 0xB4, CHR 0xA7, CHR 0xE8, CHR 0xBD, CHR 0xA6]
      else if t = 3 then [CHR 0xE8, CHR 0xBD, CHR 0xBF, CHR 0xE8, CHR 0xBD, CHR 0xA6]
      else if t = 4 then [CHR 0xE9, CHR 0x9D, CHR 0xA2, CHR 0xE5, CHR 0x8C, CHR 0x85, CHR 0xE8, CHR 0xBD, CHR 0xA6]
      else [CHR 0xE5, CHR 0x85, CHR 0xB6, CHR 0xE4, CHR 0xBB, CHR 0x96])) (\<lambda>data. Inr (data, KEY_TRUE))"

section \<open>Counting\<close>

record VehicleSearchInfo_T =
  sr_vehicle :: int
  sr_type :: int
  sr_fuzzy :: string

record Refueling_T =
  total :: int
  average :: int

record count_db =
  pGetEntranceListSumByTime :: "TimeYMD_T \<Rightarrow> TimeYMD_T \<Rightarrow> int"
  pGetFrontageListSumByTime :: "TimeYMD_T \<Rightarrow> TimeYMD_T \<Rightarrow> int"
  pGetFrontageListSumBySearchtype :: "TimeYMD_T \<Rightarrow> TimeYMD_T \<Rightarrow> int \<Rightarrow> int \<Rightarrow> int"
  pGetEntranceListSumBySerchType :: "TimeYMD_T \<Rightarrow> TimeYMD_T \<Rightarrow> VehicleSearchInfo_T \<Rightarrow> int"
  pGetEntranceListSumByLocation :: "TimeYMD_T \<Rightarrow> TimeYMD_T \<Rightarrow> string \<Rightarrow> int"
  pGetEntranceResidenceByTime :: "TimeYMD_T \<Rightarrow> TimeYMD_T \<Rightarrow> int \<Rightarrow> int"
  pGetEntranceRefuelingEfficiency :: "TimeYMD_T \<Rightarrow> TimeYMD_T \<Rightarrow> Refueling_T"
  pGetAlarmListSumBySearchType :: "TimeYMD_T \<Rightarrow> TimeYMD_T \<Rightarrow> int \<Rightarrow> int"
  pGetaddWithoutWashNum :: "TimeYMD_T \<Rightarrow> TimeYMD_T \<Rightarrow> int"
  pGetWashWithoutaddNum :: "TimeYMD_T \<Rightarrow> TimeYMD_T \<Rightarrow> int"
  pGetaddAndwashNum :: "TimeYMD_T \<Rightarrow> TimeYMD_T \<Rightarrow> int"
  pGetwashAndaddNum :: "TimeYMD_T \<Rightarrow> TimeYMD_T \<Rightarrow> int"
  pGetWashCarListSumByTime :: "TimeYMD_T \<Rightarrow> TimeYMD_T \<Rightarrow> int"

record VehicleType_T =
  VanCount :: int
  BusCount :: int
  TruckCount :: int
  CarCount :: int
  OtherCount :: int

record PlateColor_T =
  BlueCount :: int
  YellowCount :: int
  GreenCount :: int
  OtherPlates :: int

record StreetTypeAttr =
  vehickeType :: VehicleType_T
  plateType :: PlateColor_T

record PlaceAttribution_T =
  ProvinceCount :: int
  OutProvinceCount :: int

record RefuelingType_T =
  GasolineCount :: int
  DieselOilCount :: int

record ProgressRate_T =
  PassingCount :: int
  IncomingCount :: int

record ResidenceTime_T =
  count1 :: int
  count2 :: int
  count3 :: int

record DeviceAlarmCount_T =
  smokecount :: int
  hightemcount :: int

record DeviceWashProportion_T =
  washcount :: int
  oilcount :: int
  meanwhilecount :: int

record DeviceWashStatistics_T =
  washcars :: int
  totalcount :: int
  washwithOutaddnum :: int
  addwithOutwashnum :: int
  addandwashnum :: int
  washandaddnum :: int

definition GetFrontageVehiclesSum :: "count_db \<Rightarrow> TimeYMD_T \<Rightarrow> TimeYMD_T \<Rightarrow> StreetTypeAttr \<times> int" where
  "GetFrontageVehiclesSum q startTime endTime =
     (let n = (\<lambda>t. pGetFrontageListSumBySearchtype q startTime endTime t (- 1));
          p = pGetFrontageListSumBySearchtype q startTime endTime (- 1) in
      (\<lparr>vehickeType = \<lparr>VanCount = n 4, BusCount = n 1, TruckCount = n 2, CarCount = n 3, OtherCount = n 0\<rparr>,
        plateType = \<lparr>BlueCount = p 3, YellowCount = p 2, GreenCount = p 5, OtherPlates = p 0\<rparr>\<rparr>, KEY_TRUE))"

definition GetEntranceVehiclesSum :: "count_db \<Rightarrow> TimeYMD_T \<Rightarrow> TimeYMD_T \<Rightarrow> ProgressRate_T \<times> int" where
  "GetEntranceVehiclesSum q startTime endTime =
     (\<lparr>PassingCount = pGetFrontageListSumByTime q startTime endTime, IncomingCount = pGetEntranceListSumByTime q startTime endTime\<rparr>, KEY_TRUE)"

fun months_loop :: "nat \<Rightarrow> (TimeYMD_T \<Rightarrow> TimeYMD_T \<Rightarrow> 'a) \<Rightarrow> TimeYMD_T \<Rightarrow> 'a list" where
  "months_loop 0 f startTime = []"
| "months_loop (Suc n) f startTime = f startTime (startTime\<lparr>day := 31\<rparr>) #
     months_loop n f (if month startTime = 12 then startTime\<lparr>year := year startTime + 1, month := 1\<rparr>
                      else startTime\<lparr>month := month startTime + 1\<rparr>)"

definition GetEntranceHistoryCount :: "count_db \<Rightarrow> TimeYMD_T \<Rightarrow> string option \<Rightarrow> int list option \<times> int" where
  "GetEntranceHistoryCount q startTime plateNo = (case plateNo of None \<Rightarrow> (None, KEY_FALSE)
     | Some p \<Rightarrow> (Some (months_loop 12 (\<lambda>s e. pGetEntranceListSumBySerchType q s e \<lparr>sr_vehicle = 5, sr_type = 4, sr_fuzzy = p\<rparr>) startTime),
         KEY_TRUE))"

definition GetEntrancePlateAnalysis :: "count_db \<Rightarrow> TimeYMD_T \<Rightarrow> TimeYMD_T \<Rightarrow> string option \<Rightarrow> PlaceAttribution_T option \<times> int" where
  "GetEntrancePlateAnalysis q startTime endTime location = (case location of None \<Rightarrow> (None, KEY_FALSE)
     | Some l \<Rightarrow> let province = pGetEntranceListSumByLocation q startTime endTime l in
         if province < 0 then (None, KEY_FALSE)
         else let num = pGetEntranceListSumByTime q startTime endTime in
           if num < 0 then (None, KEY_FALSE) else (Some \<lparr>ProvinceCount = province, OutProvinceCount = num - province\<rparr>, KEY_TRUE))"

fun service_loop :: "nat \<Rightarrow> count_db \<Rightarrow> TimeYMD_T \<Rightarrow> TimeYMD_T \<Rightarrow> int list" where
  "service_loop 0 q s e = []"
| "service_loop (Suc n) q s e = pGetEntranceListSumByTime q s e # service_loop n q (s\<lparr>day := day s + 1\<rparr>) (e\<lparr>day := day e + 1\<rparr>)"

definition GetEntranceServiceAnalysis :: "count_db \<Rightarrow> TimeYMD_T \<Rightarrow> int \<Rightarrow> int list \<times> int" where
  "GetEntranceServiceAnalysis q t days =
     (service_loop (nat days) q \<lparr>year = year t, month = month t, day = 1, hour_t = 0, min_t = 0, sec_t = 0\<rparr>
        \<lparr>year = year t, month = month t, day = 1, hour_t = 23, min_t = 59, sec_t = 59\<rparr>, KEY_TRUE)"

text \<open>Diesel is what trucks and buses take.\<close>

definition GetRefuelingTypeAnalysis :: "count_db \<Rightarrow> TimeYMD_T \<Rightarrow> TimeYMD_T \<Rightarrow> RefuelingType_T \<times> int" where
  "GetRefuelingTypeAnalysis q t1 t2 =
     (let diesel = pGetEntranceListSumBySerchType q t1 t2 \<lparr>sr_vehicle = 2, sr_type = 2, sr_fuzzy = []\<rparr> +
                   pGetEntranceListSumBySerchType q t1 t2 \<lparr>sr_vehicle = 1, sr_type = 2, sr_fuzzy = []\<rparr>;
          all = pGetEntranceListSumBySerchType q t1 t2 \<lparr>sr_vehicle = 5, sr_type = 0, sr_fuzzy = []\<rparr> in
      (\<lparr>GasolineCount = all - diesel, DieselOilCount = diesel\<rparr>, KEY_TRUE))"

text \<open>The branch of one day: hour by hour.\<close>

fun hours_loop :: "nat \<Rightarrow> (TimeYMD_T \<Rightarrow> TimeYMD_T \<Rightarrow> 'a) \<Rightarrow> TimeYMD_T \<Rightarrow> TimeYMD_T \<Rightarrow> 'a list" where
  "hours_loop 0 f startTime endTime = []"
| "hours_loop (Suc n) f startTime endTime =
     (let endTime = (if hour_t startTime = 23 then endTime\<lparr>hour_t := 23, min_t := 59, sec_t := 59\<rparr>
                     else endTime\<lparr>hour_t := hour_t endTime + 1\<rparr>) in
      f startTime endTime # hours_loop n f (startTime\<lparr>hour_t := hour_t startTime + 1\<rparr>) endTime)"

text \<open>The branch of several days: each from its first to its last second.\<close>

definition next_day :: "TimeYMD_T \<Rightarrow> TimeYMD_T" where
  "next_day startTime =
     (let days = GetDaysByTime (year startTime) (month startTime) in
      if day startTime \<noteq> days then startTime\<lparr>day := day startTime + 1\<rparr>
      else if month startTime \<noteq> 12 then startTime\<lparr>month := month startTime + 1, day := 1\<rparr>
      else startTime\<lparr>year := year startTime + 1, month := 1, day := 1\<rparr>)"

fun days_loop :: "nat \<Rightarrow> (TimeYMD_T \<Rightarrow> TimeYMD_T \<Rightarrow> 'a) \<Rightarrow> TimeYMD_T \<Rightarrow> 'a list" where
  "days_loop 0 f startTime = []"
| "days_loop (Suc n) f startTime =
     (let s = startTime\<lparr>hour_t := 0, min_t := 0, sec_t := 0\<rparr>; t = startTime\<lparr>hour_t := 23, min_t := 59, sec_t := 59\<rparr> in
      f s t # days_loop n f (next_day s))"

definition same_day :: "TimeYMD_T \<Rightarrow> TimeYMD_T \<Rightarrow> bool" where
  "same_day s e \<longleftrightarrow> year s = year e \<and> month s = month e \<and> day s = day e"

definition span_loop :: "int \<Rightarrow> (TimeYMD_T \<Rightarrow> TimeYMD_T \<Rightarrow> 'a) \<Rightarrow> TimeYMD_T \<Rightarrow> TimeYMD_T \<Rightarrow> 'a list" where
  "span_loop count f startTime endTime =
     (if same_day startTime endTime then hours_loop (nat count) f startTime endTime else days_loop (nat count) f startTime)"

definition GetOutboundVehiclesAnalysis ::
    "count_db \<Rightarrow> TimeYMD_T \<Rightarrow> TimeYMD_T \<Rightarrow> int \<Rightarrow> (ProgressRate_T list \<times> ProgressRate_T) option \<times> int" where
  "GetOutboundVehiclesAnalysis q startTime endTime count =
     (if count < 0 then (None, KEY_FALSE)
      else (Some (span_loop count (\<lambda>s e. fst (GetEntranceVehiclesSum q s e)) startTime endTime,
                  fst (GetEntranceVehiclesSum q startTime (endTime\<lparr>hour_t := 23, min_t := 59, sec_t := 59\<rparr>))), KEY_TRUE))"

definition GetResidenceTimeAnalysis :: "count_db \<Rightarrow> TimeYMD_T \<Rightarrow> TimeYMD_T \<Rightarrow> ResidenceTime_T \<times> int" where
  "GetResidenceTimeAnalysis q startTime endTime =
     (let n = pGetEntranceResidenceByTime q startTime endTime in (\<lparr>count1 = n 1, count2 = n 2, count3 = n 3\<rparr>, KEY_TRUE))"

definition GetRefuelingEfficiencyAnalysis :: "count_db \<Rightarrow> TimeYMD_T \<Rightarrow> TimeYMD_T \<Rightarrow> int \<Rightarrow> Refueling_T list option \<times> int" where
  "GetRefuelingEfficiencyAnalysis q startTime endTime count =
     (if count \<le> 0 then (None, KEY_FALSE)
      else (Some (span_loop count (pGetEntranceRefuelingEfficiency q) startTime endTime), KEY_TRUE))"

definition GetProportionOfVehicleBehavior :: "count_db \<Rightarrow> TimeYMD_T \<Rightarrow> TimeYMD_T \<Rightarrow> DeviceWashProportion_T \<times> int" where
  "GetProportionOfVehicleBehavior q s e =
     (\<lparr>washcount = pGetWashWithoutaddNum q s e, oilcount = pGetaddWithoutWashNum q s e, meanwhilecount = pGetaddAndwashNum q s e\<rparr>,
      KEY_TRUE)"

definition GetProportionOfCarWashing :: "count_db \<Rightarrow> TimeYMD_T \<Rightarrow> TimeYMD_T \<Rightarrow> DeviceWashStatistics_T \<times> int" where
  "GetProportionOfCarWashing q s e =
     (\<lparr>washcars = pGetWashCarListSumByTime q s e, totalcount = pGetEntranceListSumByTime q s e,
       washwithOutaddnum = pGetWashWithoutaddNum q s e, addwithOutwashnum = pGetaddWithoutWashNum q s e,
       addandwashnum = pGetaddAndwashNum q s e, washandaddnum = pGetwashAndaddNum q s e\<rparr>, KEY_TRUE)"

text \<open>The kinds of alarms that a level asked for selects; \<open>None\<close> where the function ends with KEY_TRUE.\<close>

definition alarm_kinds :: "DeviceAlarmParam_T \<Rightarrow> int \<Rightarrow> int option" where
  "alarm_kinds p t =
     (if t = hightempLev p \<and> t = smokeLev p then Some 3
      else if t = hightempLev p \<and> t \<noteq> smokeLev p then Some 1
      else if t \<noteq> hightempLev p \<and> t = smokeLev p then Some 2
      else if t = 0 then Some 3 else None)"

definition GetAlarmProportionAnalysis :: "count_db \<Rightarrow> TimeYMD_T \<Rightarrow> TimeYMD_T \<Rightarrow> DeviceAlarmCount_T \<times> int" where
  "GetAlarmProportionAnalysis q s e =
     (\<lparr>smokecount = pGetAlarmListSumBySearchType q s e 2, hightemcount = pGetAlarmListSumBySearchType q s e 1\<rparr>, KEY_TRUE)"

definition GetAlarmPeriodAnalysis :: "count_db \<Rightarrow> TimeYMD_T \<Rightarrow> TimeYMD_T \<Rightarrow> int \<Rightarrow> DeviceAlarmCount_T list \<times> int" where
  "GetAlarmPeriodAnalysis q startTime endTime count =
     (span_loop count (\<lambda>s e. fst (GetAlarmProportionAnalysis q s e)) startTime endTime, KEY_TRUE)"

text \<open>The totals of the day, counted when the module starts.\<close>

definition VehicleParamInit :: "count_db \<Rightarrow> TimeYMD_T \<Rightarrow> VehicleState \<Rightarrow> VehicleState" where
  "VehicleParamInit q now s =
     (let start = \<lparr>year = year now, month = month now, day = day now, hour_t = 0, min_t = 0, sec_t = 0\<rparr> in
      s\<lparr>EntranceTotal := pGetEntranceListSumByTime q start now, FrontageTotal := pGetFrontageListSumByTime q start now\<rparr>)"

section \<open>Days against the calendar\<close>

text \<open>The day after a date.\<close>

definition month_len :: "int \<Rightarrow> int \<Rightarrow> int" where
  "month_len y m = month_start y (nat m) - month_start y (nat (m - 1))"

definition day_after :: "TimeYMD_T \<Rightarrow> TimeYMD_T" where
  "day_after t = (if day t \<noteq> month_len (year t) (month t) then t\<lparr>day := day t + 1\<rparr>
     else if month t \<noteq> 12 then t\<lparr>month := month t + 1, day := 1\<rparr> else t\<lparr>year := year t + 1, month := 1, day := 1\<rparr>)"

lemma months: "1 \<le> (m::int) \<Longrightarrow> m \<le> 12 \<Longrightarrow> m = 1 \<or> m = 2 \<or> m = 3 \<or> m = 4 \<or> m = 5 \<or> m = 6 \<or> m = 7 \<or> m = 8 \<or> m = 9 \<or>
    m = 10 \<or> m = 11 \<or> m = 12"
  by arith

lemma month_lens:
  "month_len y 1 = 31" "month_len y 2 = (if leap y then 29 else 28)" "month_len y 3 = 31" "month_len y 4 = 30" "month_len y 5 = 31"
  "month_len y 6 = 30" "month_len y 7 = 31" "month_len y 8 = 31" "month_len y 9 = 30" "month_len y 10 = 31" "month_len y 11 = 30"
  "month_len y 12 = 31"
  by (simp_all add: month_len_def month_start_def month_starts_def)

lemma ymd_ok_iff:
  "ymd_ok t \<longleftrightarrow> 1 \<le> month t \<and> month t \<le> 12 \<and> 1 \<le> day t \<and> day t \<le> month_len (year t) (month t) \<and> valid_time (hour_t t) (min_t t) (sec_t t)"
proof -
  have "1 \<le> month t \<Longrightarrow> Suc (nat (month t - 1)) = nat (month t)" by simp
  then show ?thesis by (auto simp: ymd_ok_def tm_of_def valid_tm_def valid_date_def month_len_def)
qed

lemma days_of_month:
  "1 \<le> m \<Longrightarrow> m \<le> 12 \<Longrightarrow> days_of y (m - 1) d = jan1 y + month_start y (nat (m - 1)) + d - 1"
  by (simp add: days_of_def)

lemma day_after_ok:
  assumes "ymd_ok t"
  shows "ymd_ok (day_after t)" "timegm (tm_of (day_after t)) = timegm (tm_of t) + 86400"
proof -
  have t: "1 \<le> month t" "month t \<le> 12" "1 \<le> day t" "day t \<le> month_len (year t) (month t)" "valid_time (hour_t t) (min_t t) (sec_t t)"
    using assms by (simp_all add: ymd_ok_iff)
  show "ymd_ok (day_after t)" using t months [OF t(1,2)] by (auto simp: ymd_ok_iff day_after_def month_lens)
  have "days_of (year (day_after t)) (month (day_after t) - 1) (day (day_after t)) = days_of (year t) (month t - 1) (day t) + 1"
  proof (cases "day t \<noteq> month_len (year t) (month t)")
    case True
    then show ?thesis by (simp add: day_after_def days_of_def)
  next
    case False
    show ?thesis
    proof (cases "month t = 12")
      case True
      then show ?thesis using False jan1_step [of "year t"]
        by (simp add: day_after_def days_of_def month_len_def month_start_def month_starts_def)
    next
      case m: False
      then show ?thesis using False t days_of_month [of "month t" "year t"] days_of_month [of "month t + 1" "year t"]
        by (simp add: day_after_def month_len_def)
    qed
  qed
  then show "timegm (tm_of (day_after t)) = timegm (tm_of t) + 86400"
    by (simp add: timegm_def tm_of_def) (simp add: day_after_def)
qed

lemma day_after_date: "ymd_ok t \<Longrightarrow> TimeSec2UTCYMD (TimeUTCYMD2Sec off now t + 86400) = day_after t"
  using ymd_timegm [of "day_after t"] day_after_ok [of t]
  by (simp add: TimeSec2UTCYMD_def TimeUTCYMD2Sec_def dvalue mktime_def)

lemma next_day_same:
  "next_day t = day_after t \<longleftrightarrow> (day t = GetDaysByTime (year t) (month t) \<longleftrightarrow> day t = month_len (year t) (month t))"
  (is "_ \<longleftrightarrow> (day t = ?G \<longleftrightarrow> day t = ?L)")
proof -
  have d: "t\<lparr>day := x\<rparr> \<noteq> t\<lparr>month := month t + 1, day := 1\<rparr>" "t\<lparr>day := x\<rparr> \<noteq> t\<lparr>year := year t + 1, month := 1, day := 1\<rparr>" for x
    by (cases t; simp)+
  show ?thesis
    by (cases "day t = ?G"; cases "day t = ?L"; cases "month t = 12")
      (simp_all only: next_day_def day_after_def Let_def simp_thms if_True if_False not_sym [OF d(1)] not_sym [OF d(2)] d)
qed

lemma days_compared:
  fixes d :: int
  assumes "C \<longrightarrow> B" "B \<longrightarrow> A" "p \<and> \<not> q \<and> \<not> r \<or> \<not> p \<and> q \<and> \<not> r \<or> \<not> p \<and> \<not> q \<and> r"
    "d \<le> (if r then if A \<and> \<not> B \<or> C then 29 else 28 else if q then 30 else 31)"
  shows "(d = (if p then 31 else if A then 29 else 28) \<longleftrightarrow> d = (if r then if A \<and> \<not> B \<or> C then 29 else 28 else if q then 30 else 31)) \<longleftrightarrow>
    \<not> (q \<and> (d = (if A then 29 else 28) \<or> d = 30)) \<and> \<not> (r \<and> d = 28 \<and> B \<and> \<not> C)"
  using assms by (cases p; cases q; cases r; cases A; cases B; cases C) auto

text \<open>
  C32. Counting over days follows the calendar except at the ends of the months that the days of a month are wrong for: from every date that
  exists, the step of the analyses leads to the date one day later, if and only if it is not the day that \<^verbatim>\<open>GetDaysByTime\<close> takes for the
  last, the twenty-eighth or twenty-ninth, nor the thirtieth of April, June, September or November, nor the twenty-eighth of February in a year divisible by 100 but not by 400.
\<close>

theorem next_day_calendar:
  assumes "ymd_ok t"
  shows "next_day t = TimeSec2UTCYMD (TimeUTCYMD2Sec off now t + 86400) \<longleftrightarrow>
    \<not> (month t \<in> {4, 6, 9, 11} \<and> (day t = (if year t mod 4 = 0 then 29 else 28) \<or> day t = 30)) \<and>
    \<not> (month t = 2 \<and> day t = 28 \<and> year t mod 100 = 0 \<and> year t mod 400 \<noteq> 0)"
proof -
  have t: "1 \<le> month t" "month t \<le> 12" "day t \<le> month_len (year t) (month t)"
    using assms by (simp_all add: ymd_ok_iff)
  have m: "year t mod 400 mod 100 = year t mod 100" "year t mod 100 mod 4 = year t mod 4"
    by (rule mod_mod_cancel, simp)+
  have z: "year t mod 400 = 0 \<Longrightarrow> year t mod 100 = 0" by (subst m(1) [symmetric]) simp
  have z': "year t mod 100 = 0 \<Longrightarrow> year t mod 4 = 0" by (subst m(2) [symmetric]) simp
  have "year t mod 100 < 100" by simp
  then have c: "year t mod 100 \<noteq> 100" by (rule less_imp_neq)
  have e: "(year t mod 4 = 0 \<and> year t mod 100 \<noteq> 100 \<or> year t mod 400 = 0) = (year t mod 4 = 0)" using c z z' by argo
  have g: "GetDaysByTime (year t) (month t) = (if month t \<in> {1, 3, 5, 7, 8, 10, 12} then 31 else if year t mod 4 = 0 then 29 else 28)"
    unfolding GetDaysByTime_def Let_def e ..
  have l: "month_len (year t) (month t) = (if month t = 2 then if year t mod 4 = 0 \<and> year t mod 100 \<noteq> 0 \<or> year t mod 400 = 0 then 29 else 28
      else if month t \<in> {4, 6, 9, 11} then 30 else 31)"
    using months [OF t(1,2)] by (elim disjE) (simp_all add: month_lens leap_def)
  have x: "month t \<in> {1, 3, 5, 7, 8, 10, 12} \<and> month t \<notin> {4, 6, 9, 11} \<and> month t \<noteq> 2 \<or>
      month t \<notin> {1, 3, 5, 7, 8, 10, 12} \<and> month t \<in> {4, 6, 9, 11} \<and> month t \<noteq> 2 \<or>
      month t \<notin> {1, 3, 5, 7, 8, 10, 12} \<and> month t \<notin> {4, 6, 9, 11} \<and> month t = 2"
    using months [OF t(1,2)] by (elim disjE) simp_all
  have "year t mod 400 = 0 \<longrightarrow> year t mod 100 = 0" "year t mod 100 = 0 \<longrightarrow> year t mod 4 = 0" using z z' by simp_all
  from days_compared [OF this x t(3) [unfolded l]]
  show ?thesis unfolding day_after_date [OF assms] next_day_same g l .
qed

theorem next_day_calendar_witness:
  "next_day \<lparr>year = 2023, month = 4, day = 28, hour_t = 0, min_t = 0, sec_t = 0\<rparr> \<noteq>
   TimeSec2UTCYMD (TimeUTCYMD2Sec 0 0 \<lparr>year = 2023, month = 4, day = 28, hour_t = 0, min_t = 0, sec_t = 0\<rparr> + 86400)"
proof -
  have "ymd_ok \<lparr>year = 2023, month = 4, day = 28, hour_t = 0, min_t = 0, sec_t = 0\<rparr>"
    by (simp add: ymd_ok_iff month_lens valid_time_def)
  from next_day_calendar [OF this, of 0 0] show ?thesis by simp
qed

text \<open>From the thirtieth of April the analyses never leave the month.\<close>

lemma april_stays: "month (((\<lambda>t. next_day t) ^^ n) \<lparr>year = y, month = 4, day = 30, hour_t = 0, min_t = 0, sec_t = 0\<rparr>) = 4"
proof -
  have "((\<lambda>t. next_day t) ^^ n) \<lparr>year = y, month = 4, day = 30, hour_t = 0, min_t = 0, sec_t = 0\<rparr> =
      \<lparr>year = y, month = 4, day = 30 + int n, hour_t = 0, min_t = 0, sec_t = 0\<rparr>"
    by (induction n) (simp_all add: next_day_def GetDaysByTime_def)
  then show ?thesis by simp
qed

end
