(* ===== verification/StationJson.thy ===== *)
theory StationJson
  imports DateText VehicleAnalysis
begin

text \<open>
  \<^verbatim>\<open>src/ExtLibs/Config/jsonmap.c\<close>, second part: the data of the requests for the analyses of the station, and the JSON items
  of their results. The records to which a request's data go are those the callers clear, and never NULL; \<open>now\<close> is
  the local time.
\<close>

section \<open>Data of requests\<close>

definition with_data :: "(cJSON \<Rightarrow> fault + 'a) \<Rightarrow> cJSON option \<Rightarrow> fault + 'a option \<times> int" where
  "with_data k data = (case data of None \<Rightarrow> Inr (None, KEY_FALSE) | Some d \<Rightarrow> rbind (k d) (\<lambda>v. Inr (Some v, KEY_TRUE)))"

definition int_of :: "cJSON \<Rightarrow> string \<Rightarrow> int" where
  "int_of d nm = cJSON_GetObjectItemValueInt (Some d) (Some nm)"

text \<open>The text goes through a cleared buffer of \<open>sz\<close> characters; an empty text stores nothing.\<close>

definition get_day :: "nat \<Rightarrow> cJSON \<Rightarrow> string \<Rightarrow> fault + TimeYMD_T" where
  "get_day sz d nm = rbind (get_text (Some d) nm sz) (\<lambda>s. Inr (scan_day s zero_time))"

text \<open>A text that goes into a buffer of \<open>sz\<close> characters holding \<open>prev\<close>.\<close>

definition item_text :: "nat \<Rightarrow> cJSON \<Rightarrow> string \<Rightarrow> string \<Rightarrow> fault + string" where
  "item_text sz d nm prev = rbind (cJSON_GetObjectItemValueString (Some d) (Some nm) (replicate sz NUL) sz) (\<lambda>(b, r).
     if r = KEY_FALSE then Inr prev else c_str b 0)"

definition first_second :: "TimeYMD_T \<Rightarrow> TimeYMD_T" where
  "first_second t = t\<lparr>hour_t := 0, min_t := 0, sec_t := 0\<rparr>"

definition last_second :: "TimeYMD_T \<Rightarrow> TimeYMD_T" where
  "last_second t = t\<lparr>hour_t := 23, min_t := 59, sec_t := 59\<rparr>"

definition get_days :: "nat \<Rightarrow> cJSON \<Rightarrow> fault + TimeYMD_T \<times> TimeYMD_T" where
  "get_days sz d = rbind (get_day sz d ''starttime'') (\<lambda>a. rbind (get_day sz d ''endtime'') (\<lambda>b.
     Inr (first_second a, last_second b)))"

definition JsonMapGetFrontageVehiclesSumPares :: "cJSON option \<Rightarrow> fault + (TimeYMD_T \<times> TimeYMD_T) option \<times> int" where
  "JsonMapGetFrontageVehiclesSumPares = with_data (get_days 128)"

definition JsonMapGetEntranceVehiclesSumPares :: "cJSON option \<Rightarrow> fault + (TimeYMD_T \<times> TimeYMD_T) option \<times> int" where
  "JsonMapGetEntranceVehiclesSumPares = with_data (get_days 128)"

definition JsonMapGetAlarmProportionAnalysis :: "cJSON option \<Rightarrow> fault + (TimeYMD_T \<times> TimeYMD_T) option \<times> int" where
  "JsonMapGetAlarmProportionAnalysis = with_data (get_days 64)"

definition JsonMapRefuelingTypeAnalysis :: "cJSON option \<Rightarrow> fault + (TimeYMD_T \<times> TimeYMD_T) option \<times> int" where
  "JsonMapRefuelingTypeAnalysis = with_data (get_days 64)"

definition JsonMapResidenceTimeAnalysis :: "cJSON option \<Rightarrow> fault + (TimeYMD_T \<times> TimeYMD_T) option \<times> int" where
  "JsonMapResidenceTimeAnalysis = with_data (get_days 64)"

definition JsonMapProportionOfVehicleBehavior :: "cJSON option \<Rightarrow> fault + (TimeYMD_T \<times> TimeYMD_T) option \<times> int" where
  "JsonMapProportionOfVehicleBehavior = with_data (get_days 64)"

definition JsonMapGetProportionOfCarWashing :: "cJSON option \<Rightarrow> fault + (TimeYMD_T \<times> TimeYMD_T) option \<times> int" where
  "JsonMapGetProportionOfCarWashing = with_data (get_days 64)"

definition JsonMapAbnormalVehicleList :: "cJSON option \<Rightarrow> fault + ((TimeYMD_T \<times> TimeYMD_T) \<times> int \<times> int) option \<times> int" where
  "JsonMapAbnormalVehicleList = with_data (\<lambda>d. rbind (get_days 64 d) (\<lambda>ab. Inr (ab, int_of d ''page'', int_of d ''num'')))"

definition JsonMapVehicleTrajectoryAnalysis :: "cJSON option \<Rightarrow> fault + ((TimeYMD_T \<times> TimeYMD_T) \<times> int \<times> int) option \<times> int" where
  "JsonMapVehicleTrajectoryAnalysis = with_data (\<lambda>d. rbind (get_days 64 d) (\<lambda>ab. Inr (ab, int_of d ''page'', int_of d ''num'')))"

definition JsonMapGetEntranceHistoryCount :: "cJSON option \<Rightarrow> fault + ((TimeYMD_T \<times> TimeYMD_T) \<times> string) option \<times> int" where
  "JsonMapGetEntranceHistoryCount = with_data (\<lambda>d. rbind (get_days 64 d) (\<lambda>ab. rbind (get_text (Some d) ''plateno'' 64) (\<lambda>p. Inr (ab, p))))"

text \<open>Without the times of day.\<close>

definition JsonMapGetAlarmPeriodAnalysis :: "cJSON option \<Rightarrow> fault + (TimeYMD_T \<times> TimeYMD_T \<times> int) option \<times> int" where
  "JsonMapGetAlarmPeriodAnalysis = with_data (\<lambda>d. rbind (get_day 64 d ''starttime'') (\<lambda>a. rbind (get_day 64 d ''endtime'') (\<lambda>b.
     Inr (a, b, int_of d ''number''))))"

definition JsonMapRefuelingEfficiencyAnalysis :: "cJSON option \<Rightarrow> fault + (TimeYMD_T \<times> TimeYMD_T \<times> int) option \<times> int" where
  "JsonMapRefuelingEfficiencyAnalysis = with_data (\<lambda>d. rbind (get_day 64 d ''starttime'') (\<lambda>a. rbind (get_day 64 d ''endtime'') (\<lambda>b.
     Inr (a, b, int_of d ''number''))))"

definition JsonMapOutboundVehiclesAnalysis ::
    "cJSON option \<Rightarrow> fault + (TimeYMD_T \<times> TimeYMD_T \<times> TimeYMD_T \<times> TimeYMD_T \<times> int) option \<times> int" where
  "JsonMapOutboundVehiclesAnalysis = with_data (\<lambda>d.
     rbind (get_day 64 d ''starttime1'') (\<lambda>a1. rbind (get_day 64 d ''endtime1'') (\<lambda>b1.
     rbind (get_day 64 d ''starttime2'') (\<lambda>a2. rbind (get_day 64 d ''endtime2'') (\<lambda>b2.
     Inr (a1, b1, a2, b2, int_of d ''number''))))))"

definition JsonMapGetEntranceServiceAnalysis :: "cJSON option \<Rightarrow> fault + TimeYMD_T option \<times> int" where
  "JsonMapGetEntranceServiceAnalysis = with_data (\<lambda>d. get_day 64 d ''time'')"

text \<open>With defaults: from 1970, to the local time.\<close>

definition epoch :: TimeYMD_T where
  "epoch = zero_time\<lparr>year := 1970, month := 1, day := 1\<rparr>"

definition JsonMapGetEntrancePlateAnalysis :: "TimeYMD_T \<Rightarrow> cJSON option \<Rightarrow> fault + (TimeYMD_T \<times> TimeYMD_T \<times> string) option \<times> int" where
  "JsonMapGetEntrancePlateAnalysis now = with_data (\<lambda>d.
     rbind (get_text (Some d) ''starttime'' 64) (\<lambda>s. rbind (get_text (Some d) ''endtime'' 64) (\<lambda>e.
     rbind (get_text (Some d) ''location'' 64) (\<lambda>l.
     Inr (if s \<noteq> [] then first_second (scan_day s zero_time) else epoch,
          if e \<noteq> [] then last_second (scan_day e zero_time) else now, l)))))"

definition get_stamps :: "TimeYMD_T \<Rightarrow> cJSON \<Rightarrow> fault + TimeYMD_T \<times> TimeYMD_T" where
  "get_stamps now d =
     rbind (get_text (Some d) ''starttime'' 128) (\<lambda>s. rbind (get_text (Some d) ''endtime'' 128) (\<lambda>e.
     Inr (if s \<noteq> [] then scan_stamp s zero_time else epoch, if e \<noteq> [] then scan_stamp e zero_time else now)))"

definition JsonMapGetIntelligentAlarm ::
    "TimeYMD_T \<Rightarrow> cJSON option \<Rightarrow> fault + ((TimeYMD_T \<times> TimeYMD_T) \<times> int \<times> int \<times> int) option \<times> int" where
  "JsonMapGetIntelligentAlarm now = with_data (\<lambda>d. rbind (get_stamps now d) (\<lambda>ab.
     Inr (ab, int_of d ''page'', int_of d ''num'', int_of d ''type'')))"

record StationVehicles_T =
  situationType :: int
  search_vehicle :: int
  search_start :: TimeYMD_T
  search_end :: TimeYMD_T
  fuzzyStr :: string

definition JsonMapGetEntranceVehiclesListPares :: "TimeYMD_T \<Rightarrow> cJSON option \<Rightarrow> fault + (StationVehicles_T \<times> int \<times> int) option \<times> int" where
  "JsonMapGetEntranceVehiclesListPares now = with_data (\<lambda>d.
     rbind (get_text (Some d) ''fuzzystr'' 128) (\<lambda>f. rbind (get_stamps now d) (\<lambda>(a, b).
     Inr (\<lparr>situationType = int_of d ''situationtype'', search_vehicle = int_of d ''vehicletype'', search_start = a, search_end = b,
           fuzzyStr = f\<rparr>, int_of d ''page'', int_of d ''num''))))"

definition JsonMapGetEntranceVehiclesCurList :: "cJSON option \<Rightarrow> fault + int option \<times> int" where
  "JsonMapGetEntranceVehiclesCurList = with_data (\<lambda>d. Inr (int_of d ''num''))"

text \<open>The caller's buffers for place and plate have 64 characters, the length given is 128.\<close>

definition JsonMapGetEntranceHistoryListPares :: "cJSON option \<Rightarrow> fault + (int \<times> int \<times> string \<times> string) option \<times> int" where
  "JsonMapGetEntranceHistoryListPares = with_data (\<lambda>d.
     rbind (cJSON_GetObjectItemValueString (Some d) (Some ''location'') (replicate 64 NUL) 128) (\<lambda>(l, _).
     rbind (cJSON_GetObjectItemValueString (Some d) (Some ''plateno'') (replicate 64 NUL) 128) (\<lambda>(p, _).
     rbind (c_str l 0) (\<lambda>l. rbind (c_str p 0) (\<lambda>p. Inr (int_of d ''page'', int_of d ''num'', l, p))))))"

definition JsonMapVehicleTrajectoryRoute :: "cJSON option \<Rightarrow> fault + string option \<times> int" where
  "JsonMapVehicleTrajectoryRoute = with_data (\<lambda>d. get_text (Some d) ''tokenid'' 64)"

section \<open>Results\<close>

fun add_named :: "cJSON \<Rightarrow> string \<Rightarrow> (string \<times> field) list list \<Rightarrow> fault + cJSON" where
  "add_named a nm [] = Inr a"
| "add_named a nm (fs # fss) =
     rbind (add_fields cJSON_CreateObject fs) (\<lambda>x. add_named (cJSON_AddItemToObject a nm (Some x)) nm fss)"

text \<open>An object with some members and a list; the rows of the list get the name of the list, or no name.\<close>

definition named_list :: "(string \<times> field) list \<Rightarrow> string \<Rightarrow> (string \<times> field) list list \<Rightarrow> fault + cJSON option" where
  "named_list fs nm fss = rbind (add_fields cJSON_CreateObject fs) (\<lambda>ob. rbind (add_named cJSON_CreateArray nm fss) (\<lambda>a.
     Inr (Some (cJSON_AddItemToObject ob nm (Some a)))))"

definition plain_list :: "(string \<times> field) list \<Rightarrow> string \<Rightarrow> (string \<times> field) list list \<Rightarrow> fault + cJSON option" where
  "plain_list fs nm fss = rbind (add_fields cJSON_CreateObject fs) (\<lambda>ob. rbind (add_items cJSON_CreateArray fss) (\<lambda>a.
     Inr (Some (cJSON_AddItemToObject ob nm (Some a)))))"

definition number_list :: "string \<Rightarrow> int list \<Rightarrow> cJSON" where
  "number_list nm ns = cJSON_AddItemToObject cJSON_CreateObject nm
     (Some (foldl (\<lambda>a n. cJSON_AddItemToArray a (Some (cJSON_CreateNumber (of_int n)))) cJSON_CreateArray ns))"

definition one_object :: "(string \<times> field) list \<Rightarrow> fault + cJSON option" where
  "one_object fs = rbind (add_fields cJSON_CreateObject fs) (\<lambda>x. Inr (Some x))"

definition JsonMapGetFrontageVehiclesSumMake :: "StreetTypeAttr \<Rightarrow> fault + cJSON option" where
  "JsonMapGetFrontageVehiclesSumMake s = (let v = vehickeType s; p = plateType s in one_object
     [(''vancount'', FNum (VanCount v)), (''buscount'', FNum (BusCount v)), (''tructcount'', FNum (TruckCount v)),
      (''carcount'', FNum (CarCount v)), (''othercount'', FNum (OtherCount v)), (''bluecount'', FNum (BlueCount p)),
      (''yellowcount'', FNum (YellowCount p)), (''greecount'', FNum (GreenCount p)), (''othercount'', FNum (OtherPlates p))])"

definition JsonMapGetEntranceVehiclesSumMake :: "ProgressRate_T \<Rightarrow> fault + cJSON option" where
  "JsonMapGetEntranceVehiclesSumMake p = one_object
     [(''passingcount'', FNum (PassingCount p)), (''incominfcount'', FNum (IncomingCount p))]"

definition JsonMapGetAlarmProportionAnalysisMake :: "DeviceAlarmCount_T \<Rightarrow> fault + cJSON option" where
  "JsonMapGetAlarmProportionAnalysisMake c = one_object
     [(''smokecount'', FNum (smokecount c)), (''hightemcount'', FNum (hightemcount c))]"

definition JsonMapGetAlarmPeriodAnalysisMake :: "DeviceAlarmCount_T list \<Rightarrow> fault + cJSON option" where
  "JsonMapGetAlarmPeriodAnalysisMake cs = plain_list [] ''alarmlist''
     (map (\<lambda>c. [(''smokecount'', FNum (smokecount c)), (''hightemcount'', FNum (hightemcount c))]) cs)"

definition JsonMapEntranceServiceAnalysisMake :: "int list \<Rightarrow> cJSON" where
  "JsonMapEntranceServiceAnalysisMake ns = number_list ''vehiclecount'' ns"

definition JsonMapEntranceHistoryCountMake :: "int list \<Rightarrow> cJSON" where
  "JsonMapEntranceHistoryCountMake ns = number_list ''vehiclecount'' (take 12 ns)"

definition JsonMapEntrancePlateAnalysisMake :: "PlaceAttribution_T \<Rightarrow> fault + cJSON option" where
  "JsonMapEntrancePlateAnalysisMake p = one_object
     [(''Province'', FNum (ProvinceCount p)), (''OutProvince'', FNum (OutProvinceCount p))]"

definition JsonMapRefuelingTypeAnalysisMake :: "RefuelingType_T \<Rightarrow> fault + cJSON option" where
  "JsonMapRefuelingTypeAnalysisMake r = one_object
     [(''gasoline'', FNum (GasolineCount r)), (''dieseloil'', FNum (DieselOilCount r))]"

definition JsonMapOutboundVehiclesAnalysisMake ::
    "ProgressRate_T list \<Rightarrow> ProgressRate_T list \<Rightarrow> ProgressRate_T \<Rightarrow> ProgressRate_T \<Rightarrow> fault + cJSON option" where
  "JsonMapOutboundVehiclesAnalysisMake p1 p2 t1 t2 = plain_list
     [(''pass1total'', FNum (PassingCount t1)), (''int1total'', FNum (IncomingCount t1)),
      (''pass2total'', FNum (PassingCount t2)), (''int2total'', FNum (IncomingCount t2))] ''vehiclecount''
     (map (\<lambda>(a, b). [(''passingcount1'', FNum (PassingCount a)), (''incomingcount1'', FNum (IncomingCount a)),
        (''passingcount2'', FNum (PassingCount b)), (''incomingcount2'', FNum (IncomingCount b))]) (zip p1 p2))"

definition JsonMapResidenceTimeAnalysisMake :: "ResidenceTime_T \<Rightarrow> fault + cJSON option" where
  "JsonMapResidenceTimeAnalysisMake r = one_object
     [(''count1'', FNum (count1 r)), (''count2'', FNum (count2 r)), (''count3'', FNum (count3 r))]"

definition JsonMapRefuelingEfficiencyAnalysisMake :: "Refueling_T list \<Rightarrow> fault + cJSON option" where
  "JsonMapRefuelingEfficiencyAnalysisMake rs = (if rs = [] then Inr None else plain_list [] ''vehiclecount''
     (map (\<lambda>r. [(''total'', FNum (total r)), (''average'', FNum (average r))]) rs))"

definition JsonMapProportionOfVehicleBehaviorMake :: "DeviceWashProportion_T \<Rightarrow> fault + cJSON option" where
  "JsonMapProportionOfVehicleBehaviorMake p = one_object
     [(''washcount'', FNum (washcount p)), (''oilcount'', FNum (oilcount p)), (''meanwhilecount'', FNum (meanwhilecount p))]"

definition JsonMapProportionOfCarWashingMake :: "DeviceWashStatistics_T \<Rightarrow> fault + cJSON option" where
  "JsonMapProportionOfCarWashingMake w = one_object
     [(''washcount'', FNum (washcars w)), (''totalcount'', FNum (totalcount w)), (''washwithoutaddnum'', FNum (washwithOutaddnum w)),
      (''addwithoutwashnum'', FNum (addwithOutwashnum w)), (''addandwashnum'', FNum (addandwashnum w)),
      (''washandaddnum'', FNum (washandaddnum w))]"

text \<open>A date printed with \<^verbatim>\<open>snprintf\<close> into 64 characters is cut off, one printed with \<^verbatim>\<open>sprintf\<close> has to fit.\<close>

definition cut_text :: "string \<Rightarrow> string" where
  "cut_text s = take 63 s"

definition fit_text :: "nat \<Rightarrow> string \<Rightarrow> fault + string" where
  "fit_text sz s = (if length s < sz then Inr s else Inl OutOfBounds)"

fun map_fault :: "('a \<Rightarrow> fault + 'b) \<Rightarrow> 'a list \<Rightarrow> fault + 'b list" where
  "map_fault f [] = Inr []"
| "map_fault f (x # xs) = rbind (f x) (\<lambda>y. rbind (map_fault f xs) (\<lambda>ys. Inr (y # ys)))"

record StationVehiclesInfo_T =
  sv_token :: string
  sv_pic :: string
  sv_plate :: string
  sv_territory :: string
  sv_color :: string
  sv_type :: string
  sv_refuel :: int
  sv_time :: TimeYMD_T

record AbnormalVehicleInfo_T =
  ab_stay :: int
  ab_time :: TimeYMD_T
  ab_plate :: string
  ab_type :: string
  ab_territory :: string

record StationHistoryInfo_T =
  hi_plate :: string
  hi_type :: string
  hi_territory :: string
  hi_color :: string
  hi_time :: TimeYMD_T

record DeviceAlarmInfo_T =
  alrmtype :: int
  alarmlev :: int
  al_text :: string
  alarmdata :: string

definition JsonMapGetEntranceVehiclesCurListMake :: "int \<Rightarrow> StationVehiclesInfo_T list \<Rightarrow> fault + cJSON option" where
  "JsonMapGetEntranceVehiclesCurListMake num vs = (if num \<le> 0 then Inr None else named_list [] ''vehicleslist''
     (map (\<lambda>v. [(''plateno'', FStr (sv_plate v)), (''cartype'', FStr (sv_type v)), (''time'', FStr (cut_text (stamp_text (sv_time v)))),
        (''refueno'', FNum (sv_refuel v))]) vs))"

definition JsonMapGetEntranceVehiclesListMake :: "StationVehiclesInfo_T list \<Rightarrow> int \<Rightarrow> fault + cJSON option" where
  "JsonMapGetEntranceVehiclesListMake vs tot =
     rbind (map_fault (\<lambda>v. rbind (fit_text 128 (minute_text (sv_time v))) (\<lambda>t.
       Inr [(''refueno'', FNum (sv_refuel v)), (''plateno'', FStr (sv_plate v)), (''picpath'', FStr (sv_pic v)),
        (''territory'', FStr (sv_territory v)), (''plateclor'', FStr (sv_color v)), (''cartype'', FStr (sv_type v)), (''time'', FStr t)])) vs)
     (named_list [(''total'', FNum tot)] ''devicelist'')"

definition JsonMapGetEntranceHistoryListMake :: "int \<Rightarrow> StationHistoryInfo_T list \<Rightarrow> int \<Rightarrow> fault + cJSON option" where
  "JsonMapGetEntranceHistoryListMake num vs tot = (if num \<le> 0 then Inr None else
     rbind (map_fault (\<lambda>v. rbind (fit_text 128 (minute_text (hi_time v))) (\<lambda>t.
       Inr [(''plateno'', FStr (hi_plate v)), (''territory'', FStr (hi_territory v)), (''plateclor'', FStr (hi_color v)),
        (''cartype'', FStr (hi_type v)), (''time'', FStr t)])) vs)
     (named_list [(''total'', FNum tot)] ''devicelist''))"

definition JsonMapAbnormalVehicleListMake :: "AbnormalVehicleInfo_T list \<Rightarrow> int \<Rightarrow> fault + cJSON option" where
  "JsonMapAbnormalVehicleListMake vs tot = (if tot \<le> 0 then Inr None else named_list [(''total'', FNum tot)] ''vehiclelist''
     (map (\<lambda>v. [(''staytime'', FNum (ab_stay v)), (''plateno'', FStr (ab_plate v)), (''territory'', FStr (ab_territory v)),
        (''cartype'', FStr (ab_type v)), (''time'', FStr (cut_text (stamp_text (ab_time v))))]) vs))"

definition JsonMapVehicleTrajectoryAnalysisMake :: "StationVehiclesInfo_T list \<Rightarrow> int \<Rightarrow> fault + cJSON option" where
  "JsonMapVehicleTrajectoryAnalysisMake vs tot =
     rbind (map_fault (\<lambda>v. rbind (fit_text 64 (stamp_text (sv_time v))) (\<lambda>t.
       Inr [(''tokenid'', FStr (sv_token v)), (''plateno'', FStr (sv_plate v)), (''picpath'', FStr (sv_pic v)),
        (''territory'', FStr (sv_territory v)), (''plateclor'', FStr (sv_color v)), (''cartype'', FStr (sv_type v)), (''time'', FStr t)])) vs)
     (named_list [(''total'', FNum tot)] ''vehiclelist'')"

definition JsonMapVehicleTrajectoryRouteMake :: "DeviceTrajectory_T \<Rightarrow> fault + cJSON option" where
  "JsonMapVehicleTrajectoryRouteMake r = (let p = (\<lambda>t. FStr (cut_text (stamp_text t))) in one_object
     ([(''arrivalstartdate'', p (arrivalstartdate r)), (''arrivalenddate'', p (arrivalenddate r))] @
      (if arrivalstartdate r = washstartdate r then [(''washstartdate'', FStr []), (''washenddate'', FStr [])]
       else [(''washstartdate'', p (washstartdate r)), (''washenddate'', p (washenddate r))])))"

definition JsonMapGetIntelligentAlarmMake :: "DeviceAlarmInfo_T list \<Rightarrow> int \<Rightarrow> fault + cJSON option" where
  "JsonMapGetIntelligentAlarmMake as tot = named_list [(''total'', FNum tot)] ''alarmlist''
     (map (\<lambda>a. [(''type'', FNum (alrmtype a)), (''leave'', FNum (alarmlev a)), (''time'', FStr (al_text a)), (''place'', FStr (alarmdata a))]) as)"

definition JsonMapsdkDeviceAlarmGetMake :: "DeviceAlarmParam_T \<Rightarrow> fault + cJSON option" where
  "JsonMapsdkDeviceAlarmGetMake p = one_object [(''smoke'', FNum (smokeLev p)), (''hightemp'', FNum (hightempLev p))]"

definition JsonMapsdkDeviceAlarmSetPares :: "cJSON option \<Rightarrow> fault + DeviceAlarmParam_T option \<times> int" where
  "JsonMapsdkDeviceAlarmSetPares = with_data (\<lambda>d. Inr \<lparr>smokeLev = int_of d ''smoke'', hightempLev = int_of d ''hightemp''\<rparr>)"

section \<open>Messages to the front end\<close>

text \<open>
  The message is printed with \<^verbatim>\<open>cJSON_Print\<close> and copied without its NUL into the buffer of the caller, which is 512 characters,
  all NUL.
\<close>

definition push_message :: "(rat \<Rightarrow> string) \<Rightarrow> string \<Rightarrow> (string \<times> field) list \<Rightarrow> string \<Rightarrow> fault + string" where
  "push_message fd c fs msg =
     rbind (add_fields cJSON_CreateObject [(''cmd'', FStr c)]) (\<lambda>v. rbind (add_fields cJSON_CreateObject fs) (\<lambda>d.
     rbind (cJSON_Print fd (cJSON_AddItemToObject v ''data'' (Some d))) (\<lambda>out. case out of
       None \<Rightarrow> Inl NullDeref | Some t \<Rightarrow> put_all msg 0 t)))"

definition JsonMapPushDeviceEntrancesMake :: "(rat \<Rightarrow> string) \<Rightarrow> DeviceEntrance_T \<Rightarrow> string \<Rightarrow> int \<Rightarrow> string \<Rightarrow> fault + string" where
  "JsonMapPushDeviceEntrancesMake fd i cartype count = push_message fd ''pushdeviceentrances''
     [(''plateno'', FStr (en_plate i)), (''cartype'', FStr cartype), (''time'', FStr (cut_text (stamp_text (en_start i)))),
      (''refueno'', FNum count)]"

definition JsonMapPushDeviceRateProgressMake :: "(rat \<Rightarrow> string) \<Rightarrow> int \<Rightarrow> int \<Rightarrow> string \<Rightarrow> fault + string" where
  "JsonMapPushDeviceRateProgressMake fd frontage entrance = push_message fd ''getentrancevehiclessum''
     [(''passingcount'', FNum frontage), (''incominfcount'', FNum entrance)]"

definition JsonMapPushAlarmMake :: "(rat \<Rightarrow> string) \<Rightarrow> DeviceAlarm_T \<Rightarrow> string \<Rightarrow> fault + string" where
  "JsonMapPushAlarmMake fd a = push_message fd ''pushalarmmessage''
     [(''alarmtype'', FNum (alarmType a)), (''time'', FStr (cut_text (stamp_text (al_time a)))), (''place'', FStr (alarmPlace a))]"

definition PushTurnInRateMqttMsg :: "(rat \<Rightarrow> string) \<Rightarrow> int \<Rightarrow> DeviceEntrance_T \<Rightarrow> fault + string" where
  "PushTurnInRateMqttMsg fd count i =
     rbind (GetVehiclesByType (replicate 64 NUL) (en_type i)) (\<lambda>(b, _). rbind (c_str b 0) (\<lambda>cartype.
     rbind (JsonMapPushDeviceEntrancesMake fd i cartype count (replicate 512 NUL)) (\<lambda>m. c_str m 0)))"

end
