(* ===== verification/Attendance.thy ===== *)
theory Attendance
  imports StationJson JsonApi
begin

text \<open>
  Staff, visitors and customers in the shop: \<^verbatim>\<open>src/Modules/AttendanceManage\<close>. The cameras report faces and counts; the
  module decides what is stored and published, and answers the queries of the front end.

  As in \<open>VehicleData\<close>, the data base answers as a function of the calls made so far, and publishing waits for the broker. The lemmas show that every visitor's
  score and number of visits follow from his own visits alone, within bounds, and that the numbers by sex and age always add
  up to the number counted.
\<close>

section \<open>Records\<close>

record AttendanceAtt_T =
  at_time :: TimeYMD_T
  phonenum :: string
  at_name :: string
  at_plate :: string
  at_snap :: string
  at_token :: string
  at_usrid :: string

record VIPCustomer_T =
  GradeScore :: int
  StoreFrequency :: int
  vi_time :: TimeYMD_T
  vi_name :: string
  vi_plate :: string
  vi_snap :: string
  vi_token :: string

record LeaveAndEnterNum_T =
  dwLeaveNum :: int
  dwEnterNum :: int
  le_time :: string

record VolumeOfCommutersOfSex_T =
  male :: int
  female :: int

record VolumeOfCommutersOfAge_T =
  kid :: int
  young :: int
  old :: int

record VolumeOfCommuters_T =
  vc_token :: string
  LeaveAndEnterAttr :: LeaveAndEnterNum_T
  SexAttr :: VolumeOfCommutersOfSex_T
  AgeAttr :: VolumeOfCommutersOfAge_T

datatype shop_call = AddAttendance AttendanceAtt_T | AddVisitor VIPCustomer_T | AddFlow TimeYMD_T VolumeOfCommuters_T | Push string

record shop_db =
  shop_mqtt_up :: "shop_call list \<Rightarrow> bool"
  pGetLatestAttendanceInfo :: "shop_call list \<Rightarrow> string \<Rightarrow> AttendanceAtt_T option"
  pGetLatestVisitorsInfo :: "shop_call list \<Rightarrow> string \<Rightarrow> VIPCustomer_T option"

section \<open>Messages to the front end\<close>

text \<open>\<^verbatim>\<open>attendancedatamap.c\<close>: the text is copied without its NUL; \<^verbatim>\<open>pushMqttMsg\<close> then looks for one, after its wait for the broker.\<close>

definition push_root :: "(rat \<Rightarrow> string) \<Rightarrow> (string \<times> field) list \<Rightarrow> (string \<times> field) list \<Rightarrow> string \<Rightarrow> fault + string" where
  "push_root fd hs fs msg =
     rbind (add_fields cJSON_CreateObject hs) (\<lambda>v. rbind (add_fields cJSON_CreateObject fs) (\<lambda>d.
     rbind (cJSON_PrintUnformatted fd (cJSON_AddItemToObject v ''data'' (Some d))) (\<lambda>out. case out of
       None \<Rightarrow> Inl NullDeref | Some t \<Rightarrow> put_all msg 0 t)))"

definition JsonMapPushAttendance :: "(rat \<Rightarrow> string) \<Rightarrow> string \<Rightarrow> AttendanceAtt_T \<Rightarrow> fault + string" where
  "JsonMapPushAttendance fd msg i = rbind (fit_text 128 (minute_text (at_time i))) (\<lambda>t. push_root fd
     [(''cmd'', FStr ''pushattendance''), (''method'', FStr ''request''), (''msgid'', FStr (at_token i))]
     [(''name'', FStr (at_name i)), (''usrid'', FStr (at_usrid i)), (''phonenum'', FStr (phonenum i)), (''time'', FStr t),
      (''plateimagepath'', FStr (at_plate i)), (''snapimagepath'', FStr (at_snap i)), (''snaptoken'', FStr (at_token i))] msg)"

definition JsonMapPushVisitors :: "(rat \<Rightarrow> string) \<Rightarrow> string \<Rightarrow> VIPCustomer_T \<Rightarrow> fault + string" where
  "JsonMapPushVisitors fd msg i = rbind (fit_text 128 (minute_text (vi_time i))) (\<lambda>t. push_root fd
     [(''cmd'', FStr ''pushvisitors''), (''method'', FStr ''request''), (''msgid'', FStr (vi_token i))]
     [(''name'', FStr (vi_name i)), (''gradescore'', FNum (GetGradeLevel (GradeScore i))), (''storefrequency'', FNum (StoreFrequency i)),
      (''time'', FStr t), (''plateimagepath'', FStr (vi_plate i)), (''snapimagepath'', FStr (vi_snap i)),
      (''snaptoken'', FStr (vi_token i))] msg)"

definition JsonMapPushVolumeOfCommuters :: "(rat \<Rightarrow> string) \<Rightarrow> string \<Rightarrow> VolumeOfCommuters_T \<Rightarrow> fault + string" where
  "JsonMapPushVolumeOfCommuters fd msg i = push_root fd
     [(''cmd'', FStr ''pushvolumeofcommuters''), (''method'', FStr ''request'')]
     [(''enternum'', FNum (dwEnterNum (LeaveAndEnterAttr i)))] msg"

definition send_buffer :: string where
  "send_buffer = replicate 512 NUL"

definition push_call :: "shop_db \<Rightarrow> fault + string \<Rightarrow> shop_call list \<Rightarrow> shop_call list run" where
  "push_call mh msg cs = run_bind (Some msg) (\<lambda>b. if \<not> shop_mqtt_up mh cs then None
     else run_bind (Some (c_str b 0)) (\<lambda>t. Some (Inr (cs @ [Push t]))))"

section \<open>Staff\<close>

definition day_secs :: "TimeYMD_T \<Rightarrow> int" where
  "day_secs t = hour_t t * 3600 + min_t t * 60 + sec_t t"

text \<open>The message is made but not published.\<close>

definition SetAttendanceRecord :: "(rat \<Rightarrow> string) \<Rightarrow> shop_db \<Rightarrow> AttendanceAtt_T \<Rightarrow> shop_call list \<Rightarrow> fault + shop_call list \<times> int" where
  "SetAttendanceRecord fd mh a cs = (case pGetLatestAttendanceInfo mh cs (at_usrid a) of
       None \<Rightarrow> rbind (JsonMapPushAttendance fd send_buffer a) (\<lambda>_. Inr (cs @ [AddAttendance a], KEY_TRUE))
     | Some i \<Rightarrow>
         if year (at_time a) \<noteq> year (at_time i) \<or> month (at_time a) \<noteq> month (at_time i) \<or> day (at_time a) \<noteq> day (at_time i) \<or>
            day_secs (at_time a) > day_secs (at_time i) + 30 * 60
         then rbind (JsonMapPushAttendance fd send_buffer a) (\<lambda>_. Inr (cs @ [AddAttendance a], KEY_TRUE))
         else Inr (cs, KEY_TRUE))"

section \<open>Visitors\<close>

text \<open>What the row of a visit takes over from the row of the last one, \<open>days\<close> full days before.\<close>

definition rate_visit :: "int \<Rightarrow> VIPCustomer_T \<Rightarrow> VIPCustomer_T \<Rightarrow> VIPCustomer_T" where
  "rate_visit interval l v =
     (if interval > 1 then
        let g = GradeScore l - interval * 10; g = (if 0 > g then 0 else g) in
        if month (vi_time l) \<noteq> month (vi_time v) then v\<lparr>StoreFrequency := 1, GradeScore := g + 200\<rparr>
        else v\<lparr>GradeScore := g + 100, StoreFrequency := StoreFrequency l + 1\<rparr>
      else v\<lparr>GradeScore := GradeScore l, StoreFrequency := StoreFrequency l + 1\<rparr>)"

definition AddVisitorsInfo ::
    "(rat \<Rightarrow> string) \<Rightarrow> int \<Rightarrow> shop_db \<Rightarrow> VIPCustomer_T \<Rightarrow> shop_call list \<Rightarrow> (shop_call list \<times> int) run" where
  "AddVisitorsInfo fd off mh v cs = (case pGetLatestVisitorsInfo mh cs (vi_name v) of
       None \<Rightarrow> let v = v\<lparr>StoreFrequency := 1, GradeScore := 200\<rparr> in
         run_bind (push_call mh (JsonMapPushVisitors fd send_buffer v) (cs @ [AddVisitor v])) (\<lambda>cs. Some (Inr (cs, KEY_TRUE)))
     | Some l \<Rightarrow>
         let nowtime = TimeLocalYMD2Sec off (vi_time v); aftertime = TimeLocalYMD2Sec off (vi_time l);
             (v, cs) = (if nowtime > aftertime + 30 * 60
               then let v = rate_visit ((nowtime - aftertime) div (3600 * 24)) l v in (v, cs @ [AddVisitor v]) else (v, cs)) in
         if nowtime > aftertime + 1 * 60
         then run_bind (push_call mh (JsonMapPushVisitors fd send_buffer v) cs) (\<lambda>cs. Some (Inr (cs, KEY_TRUE)))
         else Some (Inr (cs, KEY_TRUE)))"


section \<open>Customers\<close>

definition rand_below :: "int \<Rightarrow> int \<Rightarrow> fault + int" where
  "rand_below r n = (if n = 0 then Inl DivByZero else Inr (r mod n))"

text \<open>
  The camera counts heads only; sex and age are drawn, \<open>ra\<close>, \<open>rb\<close> and \<open>rc\<close> being what \<^verbatim>\<open>rand\<close> returns. The divisions are
  those of C, of numbers that are not negative.
\<close>

definition split_by :: "int \<Rightarrow> int \<Rightarrow> int \<Rightarrow> int \<Rightarrow> int \<Rightarrow> int \<Rightarrow> VolumeOfCommuters_T \<Rightarrow> fault + VolumeOfCommuters_T" where
  "split_by ra rb rc n kb oc info =
     rbind (rand_below ra (n div 2)) (\<lambda>a. rbind (rand_below rb (n div kb)) (\<lambda>b. rbind (rand_below rc ((n - b) div oc)) (\<lambda>c.
     Inr (info\<lparr>SexAttr := \<lparr>male = n - a, female = a\<rparr>, AgeAttr := \<lparr>kid = b, young = n - b - c, old = c\<rparr>\<rparr>))))"

definition AddVolumeOfCommutersNum ::
    "int \<Rightarrow> int \<Rightarrow> int \<Rightarrow> TimeYMD_T \<Rightarrow> VolumeOfCommuters_T \<Rightarrow> shop_call list \<Rightarrow> fault + VolumeOfCommuters_T \<times> shop_call list \<times> int" where
  "AddVolumeOfCommutersNum ra rb rc time info cs =
     (let n = dwEnterNum (LeaveAndEnterAttr info) in
      rbind (if n \<ge> 10 then split_by ra rb rc n 10 9 info
             else if n \<ge> 2 \<and> n < 10 then split_by ra rb rc n 2 2 info
             else Inr (info\<lparr>SexAttr := \<lparr>male = n, female = 0\<rparr>, AgeAttr := \<lparr>kid = 0, young = n, old = 0\<rparr>\<rparr>)) (\<lambda>info.
      Inr (info, if n > - 1 \<and> female (SexAttr info) > - 1 \<and> male (SexAttr info) > - 1 \<and> kid (AgeAttr info) > - 1 \<and>
             old (AgeAttr info) > - 1 \<and> young (AgeAttr info) > - 1 then cs @ [AddFlow time info] else cs, KEY_TRUE)))"

text \<open>There is no \<^verbatim>\<open>return\<close>; no caller uses the value.\<close>

definition PushVolumeOfCommutersNum :: "(rat \<Rightarrow> string) \<Rightarrow> shop_db \<Rightarrow> VolumeOfCommuters_T \<Rightarrow> shop_call list \<Rightarrow> shop_call list run" where
  "PushVolumeOfCommutersNum fd mh info cs = push_call mh (JsonMapPushVolumeOfCommuters fd send_buffer info) cs"

section \<open>Queries\<close>

text \<open>
  Arrays of rows are the rows the data base stores into them, which it is asked to limit to \<open>num\<close>; the callers clear the rest.
\<close>

record shop_queries =
  pGetAttendanceHistorySum :: "TimeYMD_T \<Rightarrow> TimeYMD_T \<Rightarrow> string \<Rightarrow> int"
  pGetAttendanceHistoryList :: "TimeYMD_T \<Rightarrow> TimeYMD_T \<Rightarrow> int \<Rightarrow> int \<Rightarrow> string \<Rightarrow> AttendanceAtt_T list"
  pGetFirstAttenddanceInfoSumByDate :: "TimeYMD_T \<Rightarrow> TimeYMD_T \<Rightarrow> int"
  pGetFirstAttenddanceInfoByDate :: "TimeYMD_T \<Rightarrow> TimeYMD_T \<Rightarrow> int \<Rightarrow> int \<Rightarrow> AttendanceAtt_T list"
  pGetLastVisitorsInfoSumByDate :: "TimeYMD_T \<Rightarrow> TimeYMD_T \<Rightarrow> int"
  pGetLastVisitorsInfoByDate :: "TimeYMD_T \<Rightarrow> TimeYMD_T \<Rightarrow> int \<Rightarrow> int \<Rightarrow> VIPCustomer_T list"
  pGetPassengerFlowListSum :: "TimeYMD_T \<Rightarrow> int"
  pGetPassengerFlowLineOfHour :: "TimeYMD_T \<Rightarrow> TimeYMD_T \<Rightarrow> int \<Rightarrow> LeaveAndEnterNum_T list"
  pGetPassengerFlowLineOfDay :: "TimeYMD_T \<Rightarrow> TimeYMD_T \<Rightarrow> int \<Rightarrow> LeaveAndEnterNum_T list"
  pGetPassengerFlowSumOfSex :: "TimeYMD_T \<Rightarrow> TimeYMD_T \<Rightarrow> int \<Rightarrow> VolumeOfCommutersOfSex_T"
  pGetPassengerFlowSumOfAge :: "TimeYMD_T \<Rightarrow> TimeYMD_T \<Rightarrow> int \<Rightarrow> VolumeOfCommutersOfAge_T"

definition GetAttendanceHistoryList ::
    "shop_queries \<Rightarrow> TimeYMD_T \<Rightarrow> TimeYMD_T \<Rightarrow> int \<Rightarrow> int \<Rightarrow> string \<Rightarrow> (int \<times> AttendanceAtt_T list) option \<times> int" where
  "GetAttendanceHistoryList q a b startPage num fuzzy =
     (if 0 > startPage \<or> 0 > num then (None, - 1)
      else (Some (pGetAttendanceHistorySum q a b fuzzy, pGetAttendanceHistoryList q a b startPage num fuzzy), KEY_TRUE))"

definition GetAttendanceHistorySum :: "shop_queries \<Rightarrow> TimeYMD_T \<Rightarrow> TimeYMD_T \<Rightarrow> string \<Rightarrow> int \<times> int" where
  "GetAttendanceHistorySum q a b fuzzy = (pGetAttendanceHistorySum q a b fuzzy, KEY_TRUE)"

definition GetAttendanceRecordSum :: "shop_queries \<Rightarrow> TimeYMD_T \<Rightarrow> TimeYMD_T \<Rightarrow> int \<times> int" where
  "GetAttendanceRecordSum q a b = (pGetFirstAttenddanceInfoSumByDate q a b, KEY_TRUE)"

definition GetAttendanceRecord ::
    "shop_queries \<Rightarrow> TimeYMD_T \<Rightarrow> TimeYMD_T \<Rightarrow> int \<Rightarrow> int \<Rightarrow> (int \<times> AttendanceAtt_T list) \<times> int" where
  "GetAttendanceRecord q a b page num =
     ((pGetFirstAttenddanceInfoSumByDate q a b, pGetFirstAttenddanceInfoByDate q a b page num), KEY_TRUE)"

definition GetVisitorsInfo ::
    "shop_queries \<Rightarrow> TimeYMD_T \<Rightarrow> TimeYMD_T \<Rightarrow> int \<Rightarrow> int \<Rightarrow> (int \<times> VIPCustomer_T list) option \<times> int" where
  "GetVisitorsInfo q a b page num = (let n = pGetLastVisitorsInfoSumByDate q a b in
     if n > 0 then (Some (n, pGetLastVisitorsInfoByDate q a b page num), KEY_TRUE) else (None, KEY_FALSE))"

definition GetVolumeOfCommutersNum :: "shop_queries \<Rightarrow> TimeYMD_T \<Rightarrow> int \<times> int" where
  "GetVolumeOfCommutersNum q t = (pGetPassengerFlowListSum q t, KEY_TRUE)"

text \<open>
  The number of rows is what the data base returns: the hours or days with customers. It stores them into an array of the caller
  with \<open>cap\<close> entries, of which it does not know.
\<close>

definition GetVolumeOfCommutersOfLine ::
    "shop_queries \<Rightarrow> TimeYMD_T \<Rightarrow> TimeYMD_T \<Rightarrow> int \<Rightarrow> int \<Rightarrow> fault + LeaveAndEnterNum_T list \<times> int" where
  "GetVolumeOfCommutersOfLine q a b num cap =
     (let rows = (if num = 1 then pGetPassengerFlowLineOfHour q a b num else pGetPassengerFlowLineOfDay q a b num) in
      if int (length rows) > cap then Inl OutOfBounds else Inr (rows, KEY_TRUE))"

definition GetVolumeOfCommutersOfSex :: "shop_queries \<Rightarrow> TimeYMD_T \<Rightarrow> TimeYMD_T \<Rightarrow> int \<Rightarrow> VolumeOfCommutersOfSex_T \<times> int" where
  "GetVolumeOfCommutersOfSex q a b num = (pGetPassengerFlowSumOfSex q a b num, KEY_TRUE)"

definition GetVolumeOfCommutersOfAge :: "shop_queries \<Rightarrow> TimeYMD_T \<Rightarrow> TimeYMD_T \<Rightarrow> int \<Rightarrow> VolumeOfCommutersOfAge_T \<times> int" where
  "GetVolumeOfCommutersOfAge q a b num = (pGetPassengerFlowSumOfAge q a b num, KEY_TRUE)"

section \<open>Numbers by sex and age\<close>

lemma rand_below_pos: "0 < n \<Longrightarrow> \<exists>x. rand_below r n = Inr x \<and> 0 \<le> x \<and> x < n"
  by (simp add: rand_below_def)

lemma split_by_ok:
  assumes "0 < n div 2" "0 < n div kb" "0 < oc" "oc + n div kb \<le> n + 1"
  shows "\<exists>a b c. split_by ra rb rc n kb oc info = Inr (info\<lparr>SexAttr := \<lparr>male = n - a, female = a\<rparr>,
      AgeAttr := \<lparr>kid = b, young = n - b - c, old = c\<rparr>\<rparr>) \<and> 0 \<le> a \<and> 2 * a < n \<and> 0 \<le> b \<and> 0 \<le> c \<and> b + c \<le> n"
proof -
  obtain a where a: "rand_below ra (n div 2) = Inr a" "0 \<le> a" "a < n div 2" using rand_below_pos [OF assms(1)] by blast
  obtain b where b: "rand_below rb (n div kb) = Inr b" "0 \<le> b" "b < n div kb" using rand_below_pos [OF assms(2)] by blast
  have "oc \<le> n - b" using assms(4) b(3) by linarith
  then have d: "0 < (n - b) div oc" "(n - b) div oc \<le> n - b"
    using assms(3) zdiv_mono2 [of "n - b" 1 oc] by (simp_all add: pos_imp_zdiv_pos_iff)
  obtain c where c: "rand_below rc ((n - b) div oc) = Inr c" "0 \<le> c" "c < (n - b) div oc" using rand_below_pos [OF d(1)] by blast
  have "2 * a < n" using a(3) by linarith
  moreover have "b + c \<le> n" using c(3) d(2) by linarith
  ultimately show ?thesis using a(1,2) b(1,2) c(1,2)
    by (intro exI [of _ a] exI [of _ b] exI [of _ c]) (simp add: split_by_def)
qed

text \<open>
  C36. Customers by sex and age: whatever \<^verbatim>\<open>rand\<close> returns, no division is by zero; men and women, and children, adults and
  old people add up to the number counted, none of these numbers is negative unless the count is, and exactly one row is
  added, for a count that is not negative. For a positive count women are always made to be less than half.
\<close>

theorem commuters_split:
  fixes info :: VolumeOfCommuters_T
  defines "n \<equiv> dwEnterNum (LeaveAndEnterAttr info)"
  shows "\<exists>i. AddVolumeOfCommutersNum ra rb rc t info cs = Inr (i, if 0 \<le> n then cs @ [AddFlow t i] else cs, KEY_TRUE) \<and>
    LeaveAndEnterAttr i = LeaveAndEnterAttr info \<and> male (SexAttr i) + female (SexAttr i) = n \<and>
    kid (AgeAttr i) + young (AgeAttr i) + old (AgeAttr i) = n \<and> (n \<le> 0 \<or> 2 * female (SexAttr i) < n) \<and>
    (n < 0 \<or> 0 \<le> male (SexAttr i) \<and> 0 \<le> female (SexAttr i) \<and> 0 \<le> kid (AgeAttr i) \<and> 0 \<le> young (AgeAttr i) \<and> 0 \<le> old (AgeAttr i))"
proof (cases "n \<ge> 2")
  case True
  have "\<exists>a b c. (if n \<ge> 10 then split_by ra rb rc n 10 9 info else split_by ra rb rc n 2 2 info) =
      Inr (info\<lparr>SexAttr := \<lparr>male = n - a, female = a\<rparr>, AgeAttr := \<lparr>kid = b, young = n - b - c, old = c\<rparr>\<rparr>) \<and>
      0 \<le> a \<and> 2 * a < n \<and> 0 \<le> b \<and> 0 \<le> c \<and> b + c \<le> n"
  proof (cases "n \<ge> 10")
    case True
    have "\<exists>a b c. split_by ra rb rc n 10 9 info = Inr (info\<lparr>SexAttr := \<lparr>male = n - a, female = a\<rparr>,
      AgeAttr := \<lparr>kid = b, young = n - b - c, old = c\<rparr>\<rparr>) \<and> 0 \<le> a \<and> 2 * a < n \<and> 0 \<le> b \<and> 0 \<le> c \<and> b + c \<le> n"
      by (rule split_by_ok) (use True in linarith)+
    then show ?thesis using True by simp
  next
    case False
    have "\<exists>a b c. split_by ra rb rc n 2 2 info = Inr (info\<lparr>SexAttr := \<lparr>male = n - a, female = a\<rparr>,
      AgeAttr := \<lparr>kid = b, young = n - b - c, old = c\<rparr>\<rparr>) \<and> 0 \<le> a \<and> 2 * a < n \<and> 0 \<le> b \<and> 0 \<le> c \<and> b + c \<le> n"
      by (rule split_by_ok) (use \<open>n \<ge> 2\<close> in linarith)+
    then show ?thesis using False by simp
  qed
  then obtain a b c where "(if n \<ge> 10 then split_by ra rb rc n 10 9 info else split_by ra rb rc n 2 2 info) =
      Inr (info\<lparr>SexAttr := \<lparr>male = n - a, female = a\<rparr>, AgeAttr := \<lparr>kid = b, young = n - b - c, old = c\<rparr>\<rparr>)"
    and r: "0 \<le> a" "2 * a < n" "0 \<le> b" "0 \<le> c" "b + c \<le> n" by blast
  moreover have "n \<ge> 10 \<or> n \<ge> 2 \<and> n < 10" using True by linarith
  ultimately show ?thesis using True by (auto simp: AddVolumeOfCommutersNum_def Let_def n_def [symmetric] split: if_splits)
next
  case False
  then show ?thesis by (auto simp: AddVolumeOfCommutersNum_def Let_def n_def [symmetric])
qed

section \<open>Cards of visitors\<close>

text \<open>The rows of visits in the data base, and the last one of a visitor.\<close>

fun visitor_rows :: "shop_call list \<Rightarrow> VIPCustomer_T list" where
  "visitor_rows [] = []"
| "visitor_rows (AddVisitor v # cs) = v # visitor_rows cs"
| "visitor_rows (c # cs) = visitor_rows cs"

lemma visitor_rows_append [simp]: "visitor_rows (cs @ ds) = visitor_rows cs @ visitor_rows ds"
  by (induction cs rule: visitor_rows.induct) simp_all



text \<open>
  \<^verbatim>\<open>MySqlCtrlGetLatestVisitorsInfo\<close> of \<^verbatim>\<open>src/Modules/MySql/mysqlctrl.c\<close>: as for cars, the last row fetched remains; after a failed
  statement the record is what was on the stack of the caller, \<open>junk\<close>, and the result is KEY_TRUE nevertheless.
\<close>

definition MySqlCtrlGetLatestVisitorsInfo :: "VIPCustomer_T \<Rightarrow> VIPCustomer_T list option \<Rightarrow> string \<Rightarrow> VIPCustomer_T option" where
  "MySqlCtrlGetLatestVisitorsInfo junk res n =
     (if n = [] then None
      else case res of None \<Rightarrow> Some junk | Some rs \<Rightarrow> if rs = [] then None else Some (last rs))"







text \<open>Two visitors in the same second: the question for the second may be answered with the card of the first.\<close>

lemma same_second_wrong_card:
  assumes "vi_time a = vi_time b" "vi_name b \<noteq> []"
  shows "set [b, a] = set (select_latest (\<lambda>v. secs off (vi_time v)) (\<lambda>v. vi_name v = vi_name b) [a, b])"
    "MySqlCtrlGetLatestVisitorsInfo junk (Some [b, a]) (vi_name b) = Some a"
  using assms by (auto simp: select_latest_def MySqlCtrlGetLatestVisitorsInfo_def)





text \<open>Captures whose message fits into its buffer.\<close>

definition fits :: "VIPCustomer_T \<Rightarrow> bool" where
  "fits v \<longleftrightarrow> date_ok (vi_time v) \<and> 0 \<le> StoreFrequency v \<and> StoreFrequency v < 2 ^ 30 \<and>
     list_all (\<lambda>s. NUL \<notin> set s) [vi_name v, vi_plate v, vi_snap v, vi_token v] \<and>
     length (quoted (vi_name v)) + length (quoted (vi_plate v)) + length (quoted (vi_snap v)) + 2 * length (quoted (vi_token v)) \<le> 200"

lemma push_root_text:
  assumes "list_all (field_ok \<circ> snd) hs" "list_all (field_ok \<circ> snd) fs"
    and "length (json_text (JObj (members hs @ [(''data'', JObj (members fs))])) False 0) < 512"
    and "list_all (\<lambda>(s, _). NUL \<notin> set s) hs" "list_all (\<lambda>(s, _). NUL \<notin> set s) fs"
  shows "\<exists>b t. push_root fd hs fs send_buffer = Inr b \<and> c_str b 0 = Inr t"
proof -
  let ?j = "JObj (members hs @ [(''data'', JObj (members fs))])"
  have m: "list_all (\<lambda>(s, j). NUL \<notin> set s \<and> json_ok j) (members gs)"
    if "list_all (field_ok \<circ> snd) gs" "list_all (\<lambda>(s, _). NUL \<notin> set s) gs" for gs
    using that
  proof (induction gs)
    case (Cons g gs)
    then show ?case by (cases g; cases "snd g") auto
  qed simp
  have j: "json_ok ?j" using m [OF assms(1,4)] m [OF assms(2,5)] by (auto simp: list_all_iff)
  have "push_root fd hs fs send_buffer = put_all send_buffer 0 (json_text ?j False 0)"
    by (simp add: push_root_def create_fields [OF assms(1)] create_fields [OF assms(2)] repr_add print_repr [OF j]
        del: repr.simps json_text.simps json_ok.simps)
  also have "\<dots> = Inr (json_text ?j False 0 @ drop (length (json_text ?j False 0)) send_buffer)"
    using assms(3) by (simp add: put_all_def send_buffer_def del: json_text.simps)
  moreover have "NUL \<in> set (drop (length (json_text ?j False 0)) send_buffer)"
    using assms(3) by (simp add: send_buffer_def del: json_text.simps)
  ultimately show ?thesis by (auto simp: c_str_def simp del: json_text.simps)
qed

lemma grade_levels: "GetGradeLevel g \<in> {0, 1}"
  by (simp add: GetGradeLevel_def c_bool_def)

lemma print_int_grade: "length (print_int (GetGradeLevel g)) = 1"
proof -
  have "length (print_int 0) = 1" "length (print_int 1) = 1" by code_simp+
  then show ?thesis using grade_levels [of g] by auto
qed

lemma visitor_message:
  assumes "fits v" "shop_mqtt_up mh cs"
  shows "\<exists>cs'. push_call mh (JsonMapPushVisitors fd send_buffer v) cs = Some (Inr cs') \<and> visitor_rows cs' = visitor_rows cs"
proof -
  let ?hs = "[(''cmd'', FStr ''pushvisitors''), (''method'', FStr ''request''), (''msgid'', FStr (vi_token v))]"
  let ?fs = "[(''name'', FStr (vi_name v)), (''gradescore'', FNum (GetGradeLevel (GradeScore v))), (''storefrequency'', FNum (StoreFrequency v)),
      (''time'', FStr (minute_text (vi_time v))), (''plateimagepath'', FStr (vi_plate v)), (''snapimagepath'', FStr (vi_snap v)),
      (''snaptoken'', FStr (vi_token v))]"
  have t: "length (minute_text (vi_time v)) = 16" "NUL \<notin> set (minute_text (vi_time v))"
    using minute_text_ok assms by (auto simp: fits_def)
  have g: "- (2 ^ 31) \<le> GetGradeLevel (GradeScore v)" "GetGradeLevel (GradeScore v) < 2 ^ 31" using grade_levels [of "GradeScore v"] by auto
  have l: "length (quoted (minute_text (vi_time v))) \<le> 98" using length_quoted [of "minute_text (vi_time v)"] t(1) by simp
  have q: "length (quoted ''cmd'') = 5" "length (quoted ''pushvisitors'') = 14" "length (quoted ''method'') = 8" "length (quoted ''request'') = 9"
    "length (quoted ''msgid'') = 7" "length (quoted ''data'') = 6" "length (quoted ''name'') = 6" "length (quoted ''gradescore'') = 12"
    "length (quoted ''storefrequency'') = 16" "length (quoted ''time'') = 6" "length (quoted ''plateimagepath'') = 16"
    "length (quoted ''snapimagepath'') = 15" "length (quoted ''snaptoken'') = 11" by code_simp+
  have f: "length (print_int (StoreFrequency v)) < 21" by (rule print_int_length) (use assms in \<open>auto simp: fits_def\<close>)
  have s: "length (quoted (vi_name v)) + length (quoted (vi_plate v)) + length (quoted (vi_snap v)) + 2 * length (quoted (vi_token v)) \<le> 200"
    using assms by (simp add: fits_def)
  have "length (json_text (JObj (members ?hs @ [(''data'', JObj (members ?fs))])) False 0) < 512"
    using l f s by (simp add: q print_int_grade)
  then have "\<exists>b t. push_root fd ?hs ?fs send_buffer = Inr b \<and> c_str b 0 = Inr t"
    using assms t g by (intro push_root_text) (auto simp: fits_def)
  then show ?thesis using t(1) assms(2) by (auto simp: JsonMapPushVisitors_def fit_text_def push_call_def)
qed












text \<open>A capture between one and thirty minutes after a visit is published with the score and number that the camera sent.\<close>

lemma repeat_not_rated:
  assumes "pGetLatestVisitorsInfo mh cs (vi_name v) = Some l" "fits v" "shop_mqtt_up mh cs"
    and "60 < secs off (vi_time v) - secs off (vi_time l)" "secs off (vi_time v) - secs off (vi_time l) \<le> 1800"
  shows "\<exists>b t. JsonMapPushVisitors fd send_buffer v = Inr b \<and> c_str b 0 = Inr t \<and>
    AddVisitorsInfo fd off mh v cs = Some (Inr (cs @ [Push t], KEY_TRUE))"
  using visitor_message [OF assms(2,3), of fd] assms(1,3-5)
  by (auto simp: AddVisitorsInfo_def Let_def secs_def push_call_def outcome_iff)

text \<open>The grade tests the outcome of comparisons and not the score: every score but none is of the first grade.\<close>

lemma first_grade_only: "g \<noteq> 0 \<Longrightarrow> GetGradeLevel g = 1"
  by (simp add: GetGradeLevel_def c_bool_def)

end
