(* ===== verification/VehicleLists.thy ===== *)
theory VehicleLists
  imports StationJson
begin

text \<open>
  The queries of \<^verbatim>\<open>src/Modules/VehicleDataAnalysis/vehicledataanalysis.c\<close> that copy rows of the data base: cars in the
  station, their history, those that stay too long, their ways through the station, and alarms.

  The data base answers with the rows it wrote to the array and the number it returned. A count that is not positive copies
  nothing; with a positive one the rows are as many. Texts of the data base are shorter than their arrays.
\<close>

record list_db =
  pGetEntranceListBySerchType :: "int \<Rightarrow> int \<Rightarrow> TimeYMD_T \<Rightarrow> TimeYMD_T \<Rightarrow> VehicleSearchInfo_T \<Rightarrow> DeviceEntrance_T list \<times> int"
  pGetEntranceListBySerchType2 :: "int \<Rightarrow> int \<Rightarrow> TimeYMD_T \<Rightarrow> TimeYMD_T \<Rightarrow> VehicleSearchInfo_T \<Rightarrow> (DeviceEntrance_T \<times> int) list \<times> int"
  pGetEntranceListSumBySerchType2 :: "TimeYMD_T \<Rightarrow> TimeYMD_T \<Rightarrow> VehicleSearchInfo_T \<Rightarrow> int"
  pGetEntranceResidenceListInfo :: "int \<Rightarrow> int \<Rightarrow> TimeYMD_T \<Rightarrow> TimeYMD_T \<Rightarrow> (int \<times> int \<times> int \<times> TimeYMD_T \<times> string) list \<times> int"
  pGetAlarmListBySearchType :: "int \<Rightarrow> int \<Rightarrow> TimeYMD_T \<Rightarrow> TimeYMD_T \<Rightarrow> int \<Rightarrow> DeviceAlarm_T list \<times> int"
  pGetPlatNoAreaById :: "int \<Rightarrow> string \<times> string"
  pGetTrajectoryRow :: "string \<Rightarrow> DeviceTrajectory_T"

text \<open>The names of colours and kinds, in arrays of 128 characters that were cleared.\<close>

definition color_name :: "int \<Rightarrow> fault + string" where
  "color_name t = rbind (GetPlateColorByType (replicate 128 NUL) t) (\<lambda>(b, _). c_str b 0)"

definition type_name :: "int \<Rightarrow> fault + string" where
  "type_name t = rbind (GetVehiclesByType (replicate 128 NUL) t) (\<lambda>(b, _). c_str b 0)"

definition null_row :: StationVehiclesInfo_T where
  "null_row = \<lparr>sv_token = [], sv_pic = [], sv_plate = [], sv_territory = [], sv_color = [], sv_type = [], sv_refuel = 0, sv_time = zero_time\<rparr>"

text \<open>\<open>malloc\<close> of a negative number of rows fails; only the cases where the result is cleared notice.\<close>

definition GetEntranceVehiclesCurList :: "list_db \<Rightarrow> TimeYMD_T \<Rightarrow> int \<Rightarrow> fault + StationVehiclesInfo_T list \<times> int" where
  "GetEntranceVehiclesCurList l now num =
     (if num < 0 then Inr ([], KEY_FALSE)
      else let (rows, count) = pGetEntranceListBySerchType2 l 1 num (first_second now) now \<lparr>sr_vehicle = - 1, sr_type = 0, sr_fuzzy = []\<rparr> in
        rbind (map_fault (\<lambda>(r, stay). rbind (type_name (en_type r)) (\<lambda>t.
          Inr (null_row\<lparr>sv_refuel := stay, sv_time := en_start r, sv_plate := en_plate r, sv_type := t\<rparr>))) (take (nat count) rows)) (\<lambda>vs.
        Inr (vs, count)))"

text \<open>The kinds of search are flags: 1 territory, 2 vehicle, 4 plate, 8 increment, 16 losses.\<close>

definition GetEntranceVehiclesList ::
    "list_db \<Rightarrow> int \<Rightarrow> int \<Rightarrow> StationVehicles_T \<Rightarrow> fault + StationVehiclesInfo_T list \<times> int \<times> int" where
  "GetEntranceVehiclesList l page num s =
     (if num \<le> 0 then Inr ([], 0, KEY_FALSE)
      else let
        search = \<lparr>sr_vehicle = (if search_vehicle s \<noteq> 5 then search_vehicle s else - 1),
          sr_type = (if fuzzyStr s \<noteq> [] then 4 else 0) + (if search_vehicle s \<noteq> 5 then 2 else 0) +
            (if situationType s = 1 then 8 else if situationType s = 2 then 16 else 0),
          sr_fuzzy = fuzzyStr s\<rparr>;
        tot = pGetEntranceListSumBySerchType2 l (search_start s) (search_end s) search in
      if tot \<le> 0 then Inr ([], 0, KEY_TRUE)
      else let (rows, count) = pGetEntranceListBySerchType2 l page num (search_start s) (search_end s) search in
        rbind (map_fault (\<lambda>(r, stay). rbind (color_name (en_pcolor r)) (\<lambda>c. rbind (type_name (en_type r)) (\<lambda>t.
          Inr (null_row\<lparr>sv_refuel := stay, sv_time := en_start r, sv_pic := en_image r, sv_plate := en_plate r, sv_color := c,
            sv_type := t, sv_territory := snd (pGetPlatNoAreaById l (en_terr r))\<rparr>)))) (take (nat count) rows)) (\<lambda>vs.
        Inr (vs, tot, count)))"

text \<open>
  All the rows asked for are copied, those beyond the count from a cleared array. \<open>q\<close> counts the entries of the plate up to the
  local time.
\<close>

definition no_entrance :: DeviceEntrance_T where
  "no_entrance = \<lparr>en_token = [], en_plate = [], en_image = [], en_pcolor = 0, en_type = 0, en_color = 0, en_terr = 0,
     en_start = zero_time, en_end = zero_time\<rparr>"

definition all_rows :: "int \<Rightarrow> DeviceEntrance_T list \<Rightarrow> DeviceEntrance_T list" where
  "all_rows num rows = take (nat num) (rows @ replicate (nat num) no_entrance)"

definition GetEntranceHistoryList ::
    "count_db \<Rightarrow> list_db \<Rightarrow> TimeYMD_T \<Rightarrow> int \<Rightarrow> int \<Rightarrow> string \<Rightarrow> string \<Rightarrow> fault + StationHistoryInfo_T list \<times> int \<times> int" where
  "GetEntranceHistoryList q l now page num location plateno =
     (if num \<le> 0 then Inr ([], 0, KEY_FALSE)
      else let search = \<lparr>sr_vehicle = 5, sr_type = 4, sr_fuzzy = plateno\<rparr>; tot = pGetEntranceListSumBySerchType q epoch now search in
        if tot \<le> 0 then Inr ([], 0, KEY_FALSE)
        else let (rows, count) = pGetEntranceListBySerchType l page num epoch now search in
          rbind (map_fault (\<lambda>r. rbind (color_name (en_pcolor r)) (\<lambda>c. rbind (type_name (en_type r)) (\<lambda>t.
            Inr \<lparr>hi_plate = en_plate r, hi_type = t,
              hi_territory = (if location = fst (pGetPlatNoAreaById l (en_terr r))
                then [CHR 0xE7, CHR 0x9C, CHR 0x81, CHR 0xE5, CHR 0x86, CHR 0x85] else [CHR 0xE7, CHR 0x9C, CHR 0x81, CHR 0xE5, CHR 0xA4, CHR 0x96]),
              hi_color = c, hi_time = en_start r\<rparr>))) (all_rows num rows)) (\<lambda>vs. Inr (vs, tot, count)))"

text \<open>
  Of a plate only the first 24 bytes are copied, into a row that was never cleared. The rows are those of
  \<^verbatim>\<open>DeviceEntranceMysql_T\<close>: the time spent, the territory, the kind, the arrival and the plate.
\<close>

definition GetAbnormalVehicleList ::
    "count_db \<Rightarrow> list_db \<Rightarrow> int \<Rightarrow> int \<Rightarrow> TimeYMD_T \<Rightarrow> TimeYMD_T \<Rightarrow> fault + AbnormalVehicleInfo_T list \<times> int \<times> int" where
  "GetAbnormalVehicleList q l page num s e =
     (if num < 0 then Inr ([], 0, KEY_FALSE)
      else let tot = pGetEntranceResidenceByTime q s e 3; (rows, count) = pGetEntranceResidenceListInfo l page num s e in
        rbind (map_fault (\<lambda>(stay, terr, ty, start, plate). rbind (type_name ty) (\<lambda>t.
          if length plate < 24 then Inr \<lparr>ab_stay = stay, ab_time = start, ab_plate = plate, ab_type = t, ab_territory = snd (pGetPlatNoAreaById l terr)\<rparr>
          else Inl OutOfBounds)) (take (nat count) rows)) (\<lambda>vs. Inr (vs, tot, count)))"

definition GetVehicleTrajectoryAnalysis ::
    "count_db \<Rightarrow> list_db \<Rightarrow> int \<Rightarrow> int \<Rightarrow> TimeYMD_T \<Rightarrow> TimeYMD_T \<Rightarrow> fault + StationVehiclesInfo_T list \<times> int \<times> int" where
  "GetVehicleTrajectoryAnalysis q l page num s e =
     (if num < 0 then Inr ([], 0, KEY_FALSE)
      else let tot = pGetEntranceListSumByTime q s e in
        if tot < 0 then Inr ([], 0, KEY_FALSE)
        else let (rows, count) = pGetEntranceListBySerchType l page num s e \<lparr>sr_vehicle = 5, sr_type = 0, sr_fuzzy = []\<rparr> in
          rbind (map_fault (\<lambda>r. rbind (color_name (en_pcolor r)) (\<lambda>c. rbind (type_name (en_type r)) (\<lambda>t.
            Inr (null_row\<lparr>sv_token := en_token r, sv_plate := en_plate r, sv_pic := en_image r, sv_time := en_start r, sv_color := c,
              sv_type := t, sv_territory := snd (pGetPlatNoAreaById l (en_terr r))\<rparr>)))) (all_rows num rows)) (\<lambda>vs. Inr (vs, tot, count)))"

definition GetVehicleTrajectoryRoute :: "list_db \<Rightarrow> string option \<Rightarrow> DeviceTrajectory_T option \<times> int" where
  "GetVehicleTrajectoryRoute l tokenid = (case tokenid of None \<Rightarrow> (None, KEY_FALSE) | Some t \<Rightarrow> (Some (pGetTrajectoryRow l t), KEY_TRUE))"

text \<open>\<open>p\<close> holds the levels of the configuration. The text of the date goes to an array of 128 characters.\<close>

definition GetIntelligentAlarm ::
    "count_db \<Rightarrow> list_db \<Rightarrow> DeviceAlarmParam_T \<Rightarrow> TimeYMD_T \<Rightarrow> TimeYMD_T \<Rightarrow> int \<Rightarrow> int \<Rightarrow> int \<Rightarrow> fault + DeviceAlarmInfo_T list \<times> int \<times> int" where
  "GetIntelligentAlarm q l p s e page num t =
     (if num < 0 \<or> page < 0 then Inr ([], 0, KEY_FALSE)
      else case alarm_kinds p t of None \<Rightarrow> Inr ([], 0, KEY_TRUE)
      | Some lev \<Rightarrow> let tot = pGetAlarmListSumBySearchType q s e lev; (rows, count) = pGetAlarmListBySearchType l page num s e lev in
        rbind (map_fault (\<lambda>r. rbind (fit_text 128 (stamp_text (al_time r))) (\<lambda>d.
          Inr \<lparr>alrmtype = alarmType r, alarmlev = (if alarmType r = 1 then smokeLev p else hightempLev p), al_text = d, alarmdata = alarmPlace r\<rparr>))
          (take (nat count) rows)) (\<lambda>vs. Inr (vs, tot, count)))"

end
