(* ===== verification/StationApi.thy ===== *)
theory StationApi
  imports VehicleLists JsonApi
begin

text \<open>
  The commands of \<^verbatim>\<open>src/App/JsonAPI/jsonswitch.c\<close> for the traffic and the alarms of the station: handlers for the argument
  \<open>others\<close> of \<open>JsonSwitch\<close>. \<open>q\<close> and \<open>l\<close> are the data base, \<open>p\<close> the levels of alarms, \<open>now\<close> the local time; the remaining commands stay
  an argument, \<open>rest\<close>. An entry of a table that is not granted is NULL.

  The lemmas show what the counting commands answer, from the text of the request to the text of the reply.
\<close>

section \<open>Counting commands\<close>

type_synonym station_handler = "AdpAPIHandle_T \<Rightarrow> cJSON option \<Rightarrow> cJSON \<Rightarrow> fault + cJSON \<times> int"

text \<open>\<open>malloc\<close> of an array with a negative length fails; \<open>always\<close> is a call whose results are there whatever it returns.\<close>

definition always :: "'b \<times> int \<Rightarrow> fault + 'b option \<times> int" where
  "always r = Inr (Some (fst r), snd r)"

definition analysis ::
    "string \<Rightarrow> (cJSON option \<Rightarrow> fault + 'a option \<times> int) \<Rightarrow> ('a \<Rightarrow> fault + 'b option \<times> int) \<Rightarrow> ('b \<Rightarrow> fault + cJSON option) \<Rightarrow> station_handler" where
  "analysis e pares ask mk h data resp =
     (if e \<notin> set (granted h) \<or> data = None then Inr (resp, KEY_FALSE)
      else rbind (pares data) (\<lambda>(a, iret). if iret \<noteq> KEY_TRUE then Inr (resp, KEY_FALSE)
        else rbind (ask (the a)) (\<lambda>(b, iret). if iret \<noteq> KEY_TRUE then Inr (resp, KEY_FALSE)
          else rbind (mk (the b)) (\<lambda>d. Inr (cJSON_AddItemToObject resp ''data'' d, KEY_TRUE)))))"

definition FunGetFrontageVehiclesSum :: "count_db \<Rightarrow> station_handler" where
  "FunGetFrontageVehiclesSum q = analysis ''pGetFrontageVehiclesSum'' JsonMapGetFrontageVehiclesSumPares
     (\<lambda>(a, b). always (GetFrontageVehiclesSum q a b)) JsonMapGetFrontageVehiclesSumMake"

definition FunGetEntranceVehiclesSum :: "count_db \<Rightarrow> station_handler" where
  "FunGetEntranceVehiclesSum q = analysis ''pGetEntranceVehiclesSum'' JsonMapGetEntranceVehiclesSumPares
     (\<lambda>(a, b). always (GetEntranceVehiclesSum q a b)) JsonMapGetEntranceVehiclesSumMake"

text \<open>The lengths of months are an array of twelve.\<close>

definition month_days :: "TimeYMD_T \<Rightarrow> fault + int" where
  "month_days t = (if 1 \<le> month t \<and> month t \<le> 12
     then Inr ([31, if year t mod 4 = 0 \<and> year t mod 100 \<noteq> 0 \<or> year t mod 400 = 0 then 29 else 28, 31, 30, 31, 30, 31, 31, 30, 31, 30, 31] !
       nat (month t - 1))
     else Inl OutOfBounds)"

definition FunGetEntranceServiceAnalysis :: "count_db \<Rightarrow> station_handler" where
  "FunGetEntranceServiceAnalysis q = analysis ''pGetEntranceServiceAnalysis'' JsonMapGetEntranceServiceAnalysis
     (\<lambda>t. rbind (month_days t) (\<lambda>n. always (GetEntranceServiceAnalysis q t n))) (\<lambda>ns. Inr (Some (JsonMapEntranceServiceAnalysisMake ns)))"

definition FunGetEntrancePlateAnalysis :: "count_db \<Rightarrow> TimeYMD_T \<Rightarrow> station_handler" where
  "FunGetEntrancePlateAnalysis q now = analysis ''pGetEntrancePlateAnalysis'' (JsonMapGetEntrancePlateAnalysis now)
     (\<lambda>(a, b, loc). Inr (GetEntrancePlateAnalysis q a b (Some loc))) JsonMapEntrancePlateAnalysisMake"

definition FunGetEntranceHistoryCount :: "count_db \<Rightarrow> station_handler" where
  "FunGetEntranceHistoryCount q = analysis ''pGetEntranceHistoryCount'' JsonMapGetEntranceHistoryCount
     (\<lambda>((a, b), plate). Inr (GetEntranceHistoryCount q a (Some plate))) (\<lambda>ns. Inr (Some (JsonMapEntranceHistoryCountMake ns)))"

definition FunGetRefuelingTypeAnalysis :: "count_db \<Rightarrow> station_handler" where
  "FunGetRefuelingTypeAnalysis q = analysis ''pGetRefuelingTypeAnalysis'' JsonMapRefuelingTypeAnalysis
     (\<lambda>(a, b). always (GetRefuelingTypeAnalysis q a b)) JsonMapRefuelingTypeAnalysisMake"

text \<open>One day has 24 hours, more days as many entries as there are days.\<close>

definition entries :: "int \<Rightarrow> int" where
  "entries days = (if days = 1 then 24 else days)"

definition FunGetOutboundVehiclesAnalysis :: "count_db \<Rightarrow> station_handler" where
  "FunGetOutboundVehiclesAnalysis q = analysis ''pGetOutboundVehiclesAnalysis'' JsonMapOutboundVehiclesAnalysis
     (\<lambda>(a1, b1, a2, b2, days).
       let (r1, iret) = GetOutboundVehiclesAnalysis q a1 b1 (entries days) in
       if iret \<noteq> KEY_TRUE then Inr (None, KEY_FALSE)
       else let (r2, iret) = GetOutboundVehiclesAnalysis q a2 b2 (entries days) in
         if iret \<noteq> KEY_TRUE then Inr (None, KEY_FALSE) else Inr (Some (the r1, the r2), KEY_TRUE))
     (\<lambda>((p1, t1), (p2, t2)). JsonMapOutboundVehiclesAnalysisMake p1 p2 t1 t2)"

text \<open>The entry that is tested is not the one that is called; all levels grant both.\<close>

definition FunGetResidenceTimeAnalysis :: "count_db \<Rightarrow> station_handler" where
  "FunGetResidenceTimeAnalysis q h data resp =
     (if ''pGetOutboundVehiclesAnalysis'' \<in> set (granted h) \<and> ''pGetResidenceTimeAnalysis'' \<notin> set (granted h) \<and> data \<noteq> None then Inl NullDeref
      else analysis ''pGetOutboundVehiclesAnalysis'' JsonMapResidenceTimeAnalysis (\<lambda>(a, b). always (GetResidenceTimeAnalysis q a b))
        JsonMapResidenceTimeAnalysisMake h data resp)"

definition FunGetRefuelingEfficiencyAnalysis :: "count_db \<Rightarrow> station_handler" where
  "FunGetRefuelingEfficiencyAnalysis q = analysis ''pGetRefuelingEfficiencyAnalysis'' JsonMapRefuelingEfficiencyAnalysis
     (\<lambda>(a, b, days). Inr (GetRefuelingEfficiencyAnalysis q a b (entries days))) JsonMapRefuelingEfficiencyAnalysisMake"

definition FunGetProportionOfVehicleBehavior :: "count_db \<Rightarrow> station_handler" where
  "FunGetProportionOfVehicleBehavior q = analysis ''pGetProportionOfVehicleBehavior'' JsonMapProportionOfVehicleBehavior
     (\<lambda>(a, b). always (GetProportionOfVehicleBehavior q a b)) JsonMapProportionOfVehicleBehaviorMake"

definition FunGetProportionOfCarWashing :: "count_db \<Rightarrow> station_handler" where
  "FunGetProportionOfCarWashing q = analysis ''pGetProportionOfCarWashing'' JsonMapGetProportionOfCarWashing
     (\<lambda>(a, b). always (GetProportionOfCarWashing q a b)) JsonMapProportionOfCarWashingMake"

definition FunGetAlarmProportionAnalysis :: "count_db \<Rightarrow> station_handler" where
  "FunGetAlarmProportionAnalysis q = analysis ''pGetAlarmProportionAnalysis'' JsonMapGetAlarmProportionAnalysis
     (\<lambda>(a, b). always (GetAlarmProportionAnalysis q a b)) JsonMapGetAlarmProportionAnalysisMake"

text \<open>The array has \<open>entries\<close> elements, but \<open>count\<close> of them are cleared, filled and printed.\<close>

definition FunGetAlarmPeriodAnalysis :: "count_db \<Rightarrow> station_handler" where
  "FunGetAlarmPeriodAnalysis q = analysis ''pGetAlarmPeriodAnalysis'' JsonMapGetAlarmPeriodAnalysis
     (\<lambda>(a, b, count). if entries count < 0 then Inl NullDeref else always (GetAlarmPeriodAnalysis q a b count)) JsonMapGetAlarmPeriodAnalysisMake"

section \<open>Lists\<close>

text \<open>
  The handlers of lists ignore an error and print the smaller of the number of rows asked for and the number returned.
\<close>

definition listing ::
    "string \<Rightarrow> (cJSON option \<Rightarrow> fault + 'a option \<times> int) \<Rightarrow> ('a \<Rightarrow> fault + cJSON option \<times> int) \<Rightarrow> station_handler" where
  "listing e pares ask h data resp =
     (if e \<notin> set (granted h) \<or> data = None then Inr (resp, KEY_FALSE)
      else rbind (pares data) (\<lambda>(a, iret). if iret \<noteq> KEY_TRUE then Inr (resp, KEY_FALSE)
        else rbind (ask (the a)) (\<lambda>(d, iret). Inr (cJSON_AddItemToObject resp ''data'' d, iret))))"

definition make_rows :: "int \<Rightarrow> int \<Rightarrow> 'b list \<Rightarrow> ('b list \<Rightarrow> fault + cJSON option) \<Rightarrow> fault + cJSON option \<times> int" where
  "make_rows num count vs mk = rbind (mk (take (nat (min count num)) vs)) (\<lambda>d. Inr (d, KEY_TRUE))"

definition FunGetEntranceVehiclesCurList :: "list_db \<Rightarrow> TimeYMD_T \<Rightarrow> station_handler" where
  "FunGetEntranceVehiclesCurList l now = listing ''pGetEntranceVehiclesCurList'' JsonMapGetEntranceVehiclesCurList
     (\<lambda>num. rbind (GetEntranceVehiclesCurList l now num) (\<lambda>(vs, count).
       make_rows num count vs (JsonMapGetEntranceVehiclesCurListMake (min count num))))"

text \<open>Where the array is cleared, a negative number of rows is fatal.\<close>

definition FunGetEntranceVehiclesList :: "list_db \<Rightarrow> TimeYMD_T \<Rightarrow> station_handler" where
  "FunGetEntranceVehiclesList l now = listing ''pGetEntranceVehiclesList'' (JsonMapGetEntranceVehiclesListPares now)
     (\<lambda>(s, page, num). if num < 0 then Inl NullDeref
       else rbind (GetEntranceVehiclesList l page num s) (\<lambda>(vs, tot, count). make_rows num count vs (\<lambda>vs. JsonMapGetEntranceVehiclesListMake vs tot)))"

definition FunGetEntranceHistoryList :: "count_db \<Rightarrow> list_db \<Rightarrow> TimeYMD_T \<Rightarrow> station_handler" where
  "FunGetEntranceHistoryList q l now = listing ''pGetEntranceHistoryList'' JsonMapGetEntranceHistoryListPares
     (\<lambda>(page, num, loc, plate). if num < 0 then Inl NullDeref
       else rbind (GetEntranceHistoryList q l now page num loc plate) (\<lambda>(vs, tot, count). if count < 0 then Inr (None, KEY_FALSE)
         else make_rows num count vs (\<lambda>vs. JsonMapGetEntranceHistoryListMake (min count num) vs tot)))"

definition FunGetAbnormalVehicleList :: "count_db \<Rightarrow> list_db \<Rightarrow> station_handler" where
  "FunGetAbnormalVehicleList q l = listing ''pGetAbnormalVehicleList'' JsonMapAbnormalVehicleList
     (\<lambda>((a, b), page, num). rbind (GetAbnormalVehicleList q l page num a b) (\<lambda>(vs, tot, count).
       make_rows num count vs (\<lambda>vs. if num < 0 then Inr None else JsonMapAbnormalVehicleListMake vs tot)))"

definition FunGetVehicleTrajectoryAnalysis :: "count_db \<Rightarrow> list_db \<Rightarrow> station_handler" where
  "FunGetVehicleTrajectoryAnalysis q l = listing ''pGetVehicleTrajectoryAnalysis'' JsonMapVehicleTrajectoryAnalysis
     (\<lambda>((a, b), page, num). if num < 0 then Inl NullDeref
       else rbind (GetVehicleTrajectoryAnalysis q l page num a b) (\<lambda>(vs, tot, count).
         make_rows num count vs (\<lambda>vs. JsonMapVehicleTrajectoryAnalysisMake vs tot)))"

definition FunGetVehicleTrajectoryRoute :: "list_db \<Rightarrow> station_handler" where
  "FunGetVehicleTrajectoryRoute l = analysis ''pGetVehicleTrajectoryRoute'' JsonMapVehicleTrajectoryRoute
     (\<lambda>t. Inr (GetVehicleTrajectoryRoute l (Some t))) JsonMapVehicleTrajectoryRouteMake"

definition FunGetIntelligentAlarm :: "count_db \<Rightarrow> list_db \<Rightarrow> DeviceAlarmParam_T \<Rightarrow> TimeYMD_T \<Rightarrow> station_handler" where
  "FunGetIntelligentAlarm q l p now = listing ''pGetIntelligentAlarm'' (JsonMapGetIntelligentAlarm now)
     (\<lambda>((a, b), page, num, ty). rbind (GetIntelligentAlarm q l p a b page num ty) (\<lambda>(vs, tot, count).
       make_rows num count vs (\<lambda>vs. if num < 0 then Inr None else JsonMapGetIntelligentAlarmMake vs tot)))"

section \<open>Dispatching\<close>

definition station_cmds :: "count_db \<Rightarrow> list_db \<Rightarrow> DeviceAlarmParam_T \<Rightarrow> TimeYMD_T \<Rightarrow> (string \<times> station_handler) list" where
  "station_cmds q l p now =
     [(''getentrancevehiclescurlist'', FunGetEntranceVehiclesCurList l now), (''getfrontagevehiclessum'', FunGetFrontageVehiclesSum q),
      (''getentrancevehiclessum'', FunGetEntranceVehiclesSum q), (''getentrancevehiclelist'', FunGetEntranceVehiclesList l now),
      (''getentrancehistorylist'', FunGetEntranceHistoryList q l now), (''getentranceserviceanalysis'', FunGetEntranceServiceAnalysis q),
      (''getentranceplateanalysis'', FunGetEntrancePlateAnalysis q now), (''getentrancehistorycount'', FunGetEntranceHistoryCount q),
      (''getrefuelingtypeanalysis'', FunGetRefuelingTypeAnalysis q), (''getoutboundvehiclesanalysis'', FunGetOutboundVehiclesAnalysis q),
      (''getresidencetimeanalysis'', FunGetResidenceTimeAnalysis q), (''getabnormalvehiclelist'', FunGetAbnormalVehicleList q l),
      (''getrefuelingefficiencyanalysis'', FunGetRefuelingEfficiencyAnalysis q),
      (''getvehicletrajectoryanalysis'', FunGetVehicleTrajectoryAnalysis q l), (''getvehicletrajectoryroute'', FunGetVehicleTrajectoryRoute l),
      (''getproportionofvehiclebehavior'', FunGetProportionOfVehicleBehavior q), (''getproportionofcarwashing'', FunGetProportionOfCarWashing q),
      (''getintelligentalarm'', FunGetIntelligentAlarm q l p now), (''getalarmproportionanalysis'', FunGetAlarmProportionAnalysis q),
      (''getalarmperiodanalysis'', FunGetAlarmPeriodAnalysis q)]"

definition station_others ::
    "count_db \<Rightarrow> list_db \<Rightarrow> DeviceAlarmParam_T \<Rightarrow> TimeYMD_T \<Rightarrow> 'x other_handler \<Rightarrow> 'x other_handler" where
  "station_others q l p now rest c h data resp x = (case map_of (station_cmds q l p now) c of
       None \<Rightarrow> rest c h data resp x
     | Some f \<Rightarrow> rbind (f h data resp) (\<lambda>(resp, r). Inr (x, resp, r)))"


section \<open>From request to reply\<close>

text \<open>The commands that count between two days, and what they answer.\<close>

definition day_commands :: "count_db \<Rightarrow> TimeYMD_T \<Rightarrow> TimeYMD_T \<Rightarrow> (string \<times> (string \<times> int) list) list" where
  "day_commands q a b =
     [(''getfrontagevehiclessum'',
        map (\<lambda>(n, t). (n, pGetFrontageListSumBySearchtype q a b t (- 1)))
          [(''vancount'', 4), (''buscount'', 1), (''tructcount'', 2), (''carcount'', 3), (''othercount'', 0)] @
        map (\<lambda>(n, c). (n, pGetFrontageListSumBySearchtype q a b (- 1) c))
          [(''bluecount'', 3), (''yellowcount'', 2), (''greecount'', 5), (''othercount'', 0)]),
      (''getentrancevehiclessum'',
        [(''passingcount'', pGetFrontageListSumByTime q a b), (''incominfcount'', pGetEntranceListSumByTime q a b)]),
      (''getrefuelingtypeanalysis'',
        let n = (\<lambda>v t. pGetEntranceListSumBySerchType q a b \<lparr>sr_vehicle = v, sr_type = t, sr_fuzzy = []\<rparr>); diesel = n 2 2 + n 1 2 in
        [(''gasoline'', n 5 0 - diesel), (''dieseloil'', diesel)]),
      (''getresidencetimeanalysis'',
        map (\<lambda>(n, k). (n, pGetEntranceResidenceByTime q a b k)) [(''count1'', 1), (''count2'', 2), (''count3'', 3)]),
      (''getproportionofvehiclebehavior'',
        [(''washcount'', pGetWashWithoutaddNum q a b), (''oilcount'', pGetaddWithoutWashNum q a b), (''meanwhilecount'', pGetaddAndwashNum q a b)]),
      (''getproportionofcarwashing'',
        [(''washcount'', pGetWashCarListSumByTime q a b), (''totalcount'', pGetEntranceListSumByTime q a b),
         (''washwithoutaddnum'', pGetWashWithoutaddNum q a b), (''addwithoutwashnum'', pGetaddWithoutWashNum q a b),
         (''addandwashnum'', pGetaddAndwashNum q a b), (''washandaddnum'', pGetwashAndaddNum q a b)]),
      (''getalarmproportionanalysis'',
        [(''smokecount'', pGetAlarmListSumBySearchType q a b 2), (''hightemcount'', pGetAlarmListSumBySearchType q a b 1)])]"

lemma get_text_item:
  assumes "cJSON_GetObjectItem d nm = Some x" "valuestring x = Some t" "NUL \<notin> set t" "length t < sz"
  shows "get_text (Some d) nm sz = Inr t"
proof -
  obtain b where "snprintf (replicate sz NUL) sz t = Inr b" "text_of b = t" "NUL \<in> set b"
    using snprintf_text [OF assms(3), of sz "replicate sz NUL"] assms(4) by auto
  then show ?thesis using assms(1,2) by (simp add: get_text_def cJSON_GetObjectItemValueString_def c_str_text)
qed

lemma get_days_text:
  assumes "cJSON_GetObjectItem d ''starttime'' = Some x" "valuestring x = Some (day_text a)" "date_ok a"
    and "cJSON_GetObjectItem d ''endtime'' = Some y" "valuestring y = Some (day_text b)" "date_ok b" "10 < sz"
  shows "get_days sz d = Inr (first_second a, last_second b)"
proof -
  note t = day_text_ok [OF assms(3)] day_text_ok [OF assms(6)]
  have "get_text (Some d) ''starttime'' sz = Inr (day_text a)" "get_text (Some d) ''endtime'' sz = Inr (day_text b)"
    using get_text_item [OF assms(1,2)] get_text_item [OF assms(4,5)] t assms(7) by auto
  moreover have "first_second (scan_day (day_text a) zero_time) = first_second a" "last_second (scan_day (day_text b) zero_time) = last_second b"
    using assms(3,6) by (cases a; cases b; simp add: scan_day_def sscanf_day ymd_fields_def first_second_def last_second_def)+
  ultimately show ?thesis by (simp add: get_days_def get_day_def)
qed

definition small :: "int \<Rightarrow> bool" where
  "small i \<longleftrightarrow> - (2 ^ 31) \<le> i \<and> i < 2 ^ 31"

definition nums :: "(string \<times> int) list \<Rightarrow> json" where
  "nums ms = JObj (map (\<lambda>(n, i). (n, JNum i)) ms)"

lemma one_object_nums:
  assumes "\<forall>(n, i) \<in> set ms. small i"
  shows "one_object (map (\<lambda>(n, i). (n, FNum i)) ms) = Inr (Some (repr (nums ms)))"
proof -
  have "list_all (field_ok \<circ> snd) (map (\<lambda>(n, i). (n, FNum i)) ms)" using assms by (auto simp: list_all_iff small_def)
  moreover have "members (map (\<lambda>(n, i). (n, FNum i)) ms) = map (\<lambda>(n, i). (n, JNum i)) ms" by (induction ms) auto
  ultimately show ?thesis by (simp add: one_object_def create_fields nums_def del: repr.simps)
qed

lemma length_nums:
  assumes "\<forall>(n, i) \<in> set ms. small i \<and> length n \<le> 20 \<and> length (quoted n) = length n + 2"
  shows "length (json_text (nums ms) False d) \<le> 2 + 45 * length ms"
proof -
  have "length (join_object False k (map (\<lambda>(s, j). (quoted s, json_text j False k)) (map (\<lambda>(n, i). (n, JNum i)) ms))) \<le> 45 * length ms" for k
    using assms
  proof (induction ms)
    case (Cons m ms)
    obtain n i where m: "m = (n, i)" by (cases m)
    have "length (print_int i) < 21" using Cons.prems m by (auto simp: small_def intro: print_int_length)
    then show ?case using Cons m by (cases ms) auto
  qed simp
  from this [of "Suc d"] show ?thesis by (simp add: nums_def comp_def case_prod_beta map_prod_def)
qed

lemma nums_reply_fits:
  assumes "ParesJsonMsg (Some d) = Inr (Some msg)" "length ms \<le> 10"
    and "\<forall>(n, i) \<in> set ms. small i \<and> length n \<le> 20 \<and> length (quoted n) = length n + 2"
  shows "length (reply_text msg [(''data'', nums ms)] KEY_OK) < 1024"
proof -
  have "length (quoted (cmd msg)) \<le> 188" "length (quoted (msgID msg)) \<le> 188"
    using message_bounds [OF assms(1)] length_quoted [of "cmd msg"] length_quoted [of "msgID msg"] by linarith+
  moreover have "length (json_text (nums ms) False (Suc 0)) \<le> 452" using length_nums [OF assms(3), of "Suc 0"] assms(2) by simp
  moreover have "length (quoted ''cmd'') \<le> 20" "length (quoted ''method'') \<le> 38" "length (quoted ''response'') = 10"
    "length (quoted ''msgid'') = 7" "length (quoted ''statuscode'') = 12" "length (quoted ''data'') = 6" "length (print_int KEY_OK) = 3"
    by code_simp+
  ultimately show ?thesis by (simp add: reply_text_def reply_head_def)
qed

definition day_names :: "string list list" where
  "day_names =
     [[''vancount'', ''buscount'', ''tructcount'', ''carcount'', ''othercount'', ''bluecount'', ''yellowcount'', ''greecount'', ''othercount''],
      [''passingcount'', ''incominfcount''], [''gasoline'', ''dieseloil''], [''count1'', ''count2'', ''count3''],
      [''washcount'', ''oilcount'', ''meanwhilecount''],
      [''washcount'', ''totalcount'', ''washwithoutaddnum'', ''addwithoutwashnum'', ''addandwashnum'', ''washandaddnum''],
      [''smokecount'', ''hightemcount'']]"

lemma day_commands_names:
  assumes "(c, ms) \<in> set (day_commands q a b)"
  shows "length ms \<le> 10" "\<forall>n \<in> set (map fst ms). length n \<le> 20 \<and> length (quoted n) = length n + 2 \<and> NUL \<notin> set n"
proof -
  have "map (\<lambda>(c, ms). map fst ms) (day_commands q a b) = day_names"
    by (simp add: day_commands_def day_names_def Let_def)
  moreover have "map fst ms \<in> set (map (\<lambda>(c, ms). map fst ms) (day_commands q a b))" using assms by force
  ultimately have m: "map fst ms \<in> set day_names" by simp
  have "list_all (\<lambda>ns. length ns \<le> 10 \<and> list_all (\<lambda>n. length n \<le> 20 \<and> length (quoted n) = length n + 2 \<and> NUL \<notin> set n) ns) day_names"
    by code_simp
  note this [unfolded list_all_iff [of _ day_names], THEN bspec, OF m]
  then show "length ms \<le> 10" "\<forall>n \<in> set (map fst ms). length n \<le> 20 \<and> length (quoted n) = length n + 2 \<and> NUL \<notin> set n"
    unfolding list_all_iff length_map by (fact conjunct1, fact conjunct2)
qed

text \<open>Each of these commands is handled as it promises.\<close>

lemma day_command_found:
  assumes "(c, ms) \<in> set (day_commands q a b)"
  shows "find (\<lambda>(n, _). usr_strcasecmp c n = 0) cmdList = Some (c, HOther c)" "known_cmd c" "\<not> login_cmd c"
proof -
  have "map fst (day_commands q a b) = [''getfrontagevehiclessum'', ''getentrancevehiclessum'', ''getrefuelingtypeanalysis'',
    ''getresidencetimeanalysis'', ''getproportionofvehiclebehavior'', ''getproportionofcarwashing'', ''getalarmproportionanalysis'']"
    by (simp add: day_commands_def Let_def)
  moreover have "c \<in> set (map fst (day_commands q a b))" using assms by force
  ultimately have c: "c \<in> set [''getfrontagevehiclessum'', ''getentrancevehiclessum'', ''getrefuelingtypeanalysis'',
    ''getresidencetimeanalysis'', ''getproportionofvehiclebehavior'', ''getproportionofcarwashing'', ''getalarmproportionanalysis'']" by simp
  have "list_all (\<lambda>c. find (\<lambda>(n, _). usr_strcasecmp c n = 0) cmdList = Some (c, HOther c) \<and>
      known_cmd c \<and> \<not> login_cmd c)
    [''getfrontagevehiclessum'', ''getentrancevehiclessum'', ''getrefuelingtypeanalysis'',
    ''getresidencetimeanalysis'', ''getproportionofvehiclebehavior'', ''getproportionofcarwashing'', ''getalarmproportionanalysis'']"
    by code_simp
  with c have "find (\<lambda>(n, _). usr_strcasecmp c n = 0) cmdList = Some (c, HOther c) \<and>
      known_cmd c \<and> \<not> login_cmd c" unfolding list_all_iff by blast
  then show "find (\<lambda>(n, _). usr_strcasecmp c n = 0) cmdList = Some (c, HOther c)" "known_cmd c" "\<not> login_cmd c"
    by simp_all
qed

lemma day_commands_handled:
  assumes "(c, ms) \<in> set (day_commands q a b)" "get_days 64 d = Inr (a, b)" "get_days 128 d = Inr (a, b)"
    and "set (level_entries 2) \<subseteq> set (granted h)" "\<forall>i \<in> set (map snd ms). small i"
  shows "station_others q l p now rest c h (Some d) resp x = Inr (x, cJSON_AddItemToObject resp ''data'' (Some (repr (nums ms))), KEY_TRUE)"
proof -
  have o: "one_object (map (\<lambda>(n, i). (n, FNum i)) ms) = Inr (Some (repr (nums ms)))"
    using assms(5) by (intro one_object_nums) (auto simp: image_iff)
  have g: "\<And>e. e \<in> set (level_entries 2) \<Longrightarrow> e \<in> set (granted h)" using assms(4) by blast
  have "list_all (\<lambda>e. e \<in> set (level_entries 2)) [''pGetFrontageVehiclesSum'', ''pGetEntranceVehiclesSum'', ''pGetRefuelingTypeAnalysis'',
    ''pGetResidenceTimeAnalysis'', ''pGetOutboundVehiclesAnalysis'', ''pGetProportionOfVehicleBehavior'', ''pGetProportionOfCarWashing'',
    ''pGetAlarmProportionAnalysis'']" by code_simp
  then have gs: "''pGetFrontageVehiclesSum'' \<in> set (granted h)" "''pGetEntranceVehiclesSum'' \<in> set (granted h)"
    "''pGetRefuelingTypeAnalysis'' \<in> set (granted h)" "''pGetResidenceTimeAnalysis'' \<in> set (granted h)"
    "''pGetOutboundVehiclesAnalysis'' \<in> set (granted h)" "''pGetProportionOfVehicleBehavior'' \<in> set (granted h)"
    "''pGetProportionOfCarWashing'' \<in> set (granted h)" "''pGetAlarmProportionAnalysis'' \<in> set (granted h)"
    using g unfolding list.pred_inject by blast+
  show ?thesis using assms(1) o gs assms(2,3)
    by (simp add: day_commands_def Let_def)
      (elim disjE conjE; simp add: station_others_def station_cmds_def analysis_def with_data_def always_def
        FunGetFrontageVehiclesSum_def FunGetEntranceVehiclesSum_def FunGetRefuelingTypeAnalysis_def FunGetResidenceTimeAnalysis_def
        FunGetProportionOfVehicleBehavior_def FunGetProportionOfCarWashing_def FunGetAlarmProportionAnalysis_def
        JsonMapGetFrontageVehiclesSumPares_def JsonMapGetEntranceVehiclesSumPares_def JsonMapRefuelingTypeAnalysis_def
        JsonMapResidenceTimeAnalysis_def JsonMapProportionOfVehicleBehavior_def JsonMapGetProportionOfCarWashing_def
        JsonMapGetAlarmProportionAnalysis_def GetFrontageVehiclesSum_def GetEntranceVehiclesSum_def GetRefuelingTypeAnalysis_def
        GetResidenceTimeAnalysis_def GetProportionOfVehicleBehavior_def GetProportionOfCarWashing_def GetAlarmProportionAnalysis_def
        JsonMapGetFrontageVehiclesSumMake_def JsonMapGetEntranceVehiclesSumMake_def JsonMapRefuelingTypeAnalysisMake_def
        JsonMapResidenceTimeAnalysisMake_def JsonMapProportionOfVehicleBehaviorMake_def JsonMapProportionOfCarWashingMake_def
        JsonMapGetAlarmProportionAnalysisMake_def Let_def del: repr.simps)
qed

text \<open>
  C33. Counting over JSON, from request to reply: for a session of an account of level 2 or more, each of the seven commands that
  count between two days answers 200 with its counts, taken by the data base from the first second of the first day to the
  last second of the last, and changes nothing; the reply is a text that parses to exactly these members. The dates are those whose texts the request
  holds.
\<close>

theorem station_counts:
  assumes req: "request req msg" "(cmd msg, ms) \<in> set (day_commands q (first_second a) (last_second b))"
    and sess: "reg_ok (apis (adp g)) (listHead_J g)" "distinct (session_ids g)" "v \<in> set (listHead_J g)"
      "api_usrID (the (apis (adp g) v)) = atoi (ssionID msg)" "set (level_entries 2) \<subseteq> set (granted (the (apis (adp g) v)))"
    and data: "bodyData msg = Some d" "cJSON_GetObjectItem d ''starttime'' = Some x" "valuestring x = Some (day_text a)" "date_ok a"
      "cJSON_GetObjectItem d ''endtime'' = Some y" "valuestring y = Some (day_text b)" "date_ok b"
    and small: "\<forall>i \<in> set (map snd ms). small i" "1024 \<le> length buf"
  shows "\<exists>buf'. JsonSwitch (station_others q l p now rest) fd w hp np (Some req) (Some buf) g = Some (Inr (g, Some buf', KEY_TRUE)) \<and>
    cJSON_Parse buf' = Some (Inr (Some (repr (JObj (reply_head msg @
      [(''data'', JObj (map (\<lambda>(n, i). (n, JNum i)) ms)), (''statuscode'', JNum KEY_OK)])))))"
proof -
  obtain c where c: "ParesJsonMsg (Some c) = Inr (Some msg)" using req(1) by (auto simp: request_def)
  obtain h where h: "apis (adp g) v = Some h" "v \<noteq> 0" using reg_ok_in [OF sess(1,3)] by auto
  note f = day_command_found [OF req(2)] and n = day_commands_names [OF req(2)]
  have days: "get_days 64 d = Inr (first_second a, last_second b)" "get_days 128 d = Inr (first_second a, last_second b)"
    by (rule get_days_text [OF data(2-7)], simp)+
  have "station_others q l p now rest (cmd msg) h (bodyData msg) (repr (JObj (reply_head msg))) (others_st g) =
      Inr (others_st g, repr (JObj (reply_head msg @ [(''data'', nums ms)])), KEY_TRUE)"
    using day_commands_handled [OF req(2) days _ small(1), of h l p now rest "repr (JObj (reply_head msg))" "others_st g"] sess(5) h(1) data(1) by (simp add: repr_add del: repr.simps)
  then have call: "call_func (station_others q l p now rest) fd w np (HOther (cmd msg)) g v (bodyData msg) (repr (JObj (reply_head msg))) =
      Some (Inr (g, repr (JObj (reply_head msg @ [(''data'', nums ms)])), KEY_TRUE))"
    using h by (simp add: call_func_def del: repr.simps)
  have ms: "\<forall>(n, i) \<in> set ms. small i \<and> length n \<le> 20 \<and> length (quoted n) = length n + 2" "\<forall>(n, i) \<in> set ms. small i \<and> NUL \<notin> set n"
    using small(1) n(2) by (auto simp: image_iff split_beta)
  have fits: "length (reply_text msg [(''data'', nums ms)] KEY_OK) < length buf"
    using nums_reply_fits [OF c n(1) ms(1)] small(2) by simp
  have j: "json_ok (JObj [(''data'', nums ms)])" using ms(2) by (auto simp: nums_def small_def list_all_iff)
  have fin: "finish fd buf v g (repr (JObj (reply_head msg @ [(''data'', nums ms)]))) KEY_TRUE =
      Some (Inr (g, reply_text msg [(''data'', nums ms)] KEY_OK @ NUL # drop (Suc (length (reply_text msg [(''data'', nums ms)] KEY_OK))) buf, KEY_TRUE))"
    using write_reply [OF c j _ _ fits, of fd] by (simp add: finish_def del: repr.simps)
  have "json_ok (JObj (reply_head msg @ [(''data'', nums ms), (''statuscode'', JNum KEY_OK)]))"
    using j message_bounds [OF c] by (simp add: reply_head_def)
  note p = parse_repr [OF this]
  have "JsonSwitch (station_others q l p now rest) fd w hp np (Some req) (Some buf) g = Some (Inr (g, Some
      (reply_text msg [(''data'', nums ms)] KEY_OK @ NUL # drop (Suc (length (reply_text msg [(''data'', nums ms)] KEY_OK))) buf), KEY_TRUE))"
    using switch_session [OF req(1) f(2,3) session_lookup [OF sess(1-3), unfolded sess(4)] f(1), of "station_others q l p now rest" fd w hp np buf]
      h(2) call fin by (simp del: repr.simps)
  then show ?thesis using p unfolding reply_text_def nums_def by (intro exI conjI) (assumption | simp only: append.simps)+
qed

definition demo_days :: "(string \<times> json) list" where
  "demo_days = [(''cmd'', JStr ''getentrancevehiclessum''), (''msgid'', JStr ''9''), (''sessionid'', JStr ''262145''),
     (''data'', JObj [(''starttime'', JStr ''2023-04-01''), (''endtime'', JStr ''2023-04-30'')])]"

definition demo_days_msg :: JsonMsg_T where
  "demo_days_msg = \<lparr>cmd = ''getentrancevehiclessum'', mothod = [], ssionID = ''262145'', msgID = ''9'', deviceId = [], srctopic = [],
     desttopic = [], bodyData = cJSON_GetObjectItem (repr (JObj demo_days)) ''data''\<rparr>"

definition station_gateway :: "(unit, unit, unit) Gateway" where
  "station_gateway = session_gateway\<lparr>adp := clash_adp\<lparr>apis := [200 \<mapsto> demo_table\<lparr>api_usrID := 262145, granted := level_entries 2\<rparr>]\<rparr>\<rparr>"

definition demo_counts :: count_db where
  "demo_counts = \<lparr>pGetEntranceListSumByTime = (\<lambda>s e. hour_t e), pGetFrontageListSumByTime = (\<lambda>s e. 100 * day e),
     pGetFrontageListSumBySearchtype = (\<lambda>_ _ _ _. 0), pGetEntranceListSumBySerchType = (\<lambda>_ _ _. 0), pGetEntranceListSumByLocation = (\<lambda>_ _ _. 0),
     pGetEntranceResidenceByTime = (\<lambda>_ _ _. 0), pGetEntranceRefuelingEfficiency = (\<lambda>_ _. \<lparr>total = 0, average = 0\<rparr>),
     pGetAlarmListSumBySearchType = (\<lambda>_ _ _. 0), pGetaddWithoutWashNum = (\<lambda>_ _. 0), pGetWashWithoutaddNum = (\<lambda>_ _. 0),
     pGetaddAndwashNum = (\<lambda>_ _. 0), pGetwashAndaddNum = (\<lambda>_ _. 0), pGetWashCarListSumByTime = (\<lambda>_ _. 0)\<rparr>"

definition demo_lists :: list_db where
  "demo_lists = \<lparr>pGetEntranceListBySerchType = (\<lambda>_ _ _ _ _. ([], 0)), pGetEntranceListBySerchType2 = (\<lambda>_ _ _ _ _. ([], 0)),
     pGetEntranceListSumBySerchType2 = (\<lambda>_ _ _. 0), pGetEntranceResidenceListInfo = (\<lambda>_ _ _ _. ([], 0)),
     pGetAlarmListBySearchType = (\<lambda>_ _ _ _ _. ([], 0)), pGetPlatNoAreaById = (\<lambda>_. ([], [])),
     pGetTrajectoryRow = (\<lambda>_. \<lparr>tr_token = [], tr_plate = [], arrivalstartdate = zero_time, arrivalenddate = zero_time,
       washstartdate = zero_time, washenddate = zero_time\<rparr>)\<rparr>"

lemma demo_days_request: "request (json_text (JObj demo_days) False 0 @ [NUL]) demo_days_msg"
proof (rule request_text)
  show "json_ok (JObj demo_days)" by code_simp
  show "ParesJsonMsg (Some (repr (JObj demo_days))) = Inr (Some demo_days_msg)" by code_simp
qed

theorem station_counts_witness:
  "\<exists>buf'. JsonSwitch (station_others demo_counts demo_lists \<lparr>smokeLev = 1, hightempLev = 1\<rparr> zero_time no_others) (\<lambda>_. []) True 8 16 (Some (json_text (JObj demo_days) False 0 @ [NUL]))
     (Some (replicate 2000 NUL)) station_gateway = Some (Inr (station_gateway, Some buf', KEY_TRUE)) \<and>
   cJSON_Parse buf' = Some (Inr (Some (repr (JObj (reply_head demo_days_msg @
      [(''data'', JObj [(''passingcount'', JNum 3000), (''incominfcount'', JNum 23)]), (''statuscode'', JNum KEY_OK)])))))"
proof -
  let ?a = "\<lparr>year = 2023, month = 4, day = 1, hour_t = 0, min_t = 0, sec_t = 0\<rparr>"
  let ?b = "\<lparr>year = 2023, month = 4, day = 30, hour_t = 0, min_t = 0, sec_t = 0\<rparr>"
  let ?ms = "[(''passingcount'', 3000), (''incominfcount'', 23)]"
  let ?d = "the (bodyData demo_days_msg)" and ?t = "\<lambda>n. the (cJSON_GetObjectItem (the (bodyData demo_days_msg)) n)"
  have m: "(cmd demo_days_msg, ?ms) \<in> set (day_commands demo_counts (first_second ?a) (last_second ?b))"
    by (simp add: day_commands_def demo_days_msg_def demo_counts_def first_second_def last_second_def Let_def)
  have s: "reg_ok (apis (adp station_gateway)) (listHead_J station_gateway)" "distinct (session_ids station_gateway)"
    "200 \<in> set (listHead_J station_gateway)" "api_usrID (the (apis (adp station_gateway) 200)) = atoi (ssionID demo_days_msg)"
    "set (level_entries 2) \<subseteq> set (granted (the (apis (adp station_gateway) 200)))"
  proof -
    have "atoi (ssionID demo_days_msg) = 262145" by code_simp
    then show "api_usrID (the (apis (adp station_gateway) 200)) = atoi (ssionID demo_days_msg)"
      by (simp add: station_gateway_def demo_table_def)
  qed (simp_all add: station_gateway_def session_gateway_def demo_gateway_def session_ids_def reg_ok_def clash_adp_def)
  have t: "day_text ?a = ''2023-04-01''" "day_text ?b = ''2023-04-30''" by code_simp+
  have d: "bodyData demo_days_msg = Some ?d" "cJSON_GetObjectItem ?d ''starttime'' = Some (?t ''starttime'')"
    "valuestring (?t ''starttime'') = Some ''2023-04-01''" "cJSON_GetObjectItem ?d ''endtime'' = Some (?t ''endtime'')"
    "valuestring (?t ''endtime'') = Some ''2023-04-30''" by code_simp+
  have ok: "date_ok ?a" "date_ok ?b" "\<forall>i \<in> set (map snd ?ms). small i" "1024 \<le> length (replicate 2000 NUL)"
    by (simp_all add: date_ok_def small_def)
  show ?thesis
    using station_counts [OF demo_days_request m s d(1,2) d(3) [folded t] ok(1) d(4) d(5) [folded t] ok(2,3,4), of demo_lists "\<lparr>smokeLev = 1, hightempLev = 1\<rparr>" zero_time no_others "\<lambda>_. []" True 8 16]
    by simp
qed

section \<open>Two commands that fail\<close>

text \<open>Without a month, the service analysis reads outside the array of lengths; an alarm analysis of one day has one hour.\<close>

lemma service_needs_month:
  assumes "''pGetEntranceServiceAnalysis'' \<in> set (granted h)" "cJSON_GetObjectItem d ''time'' = None"
  shows "FunGetEntranceServiceAnalysis q h (Some d) resp = Inl OutOfBounds"
proof -
  have "get_text (Some d) ''time'' 64 = Inr []"
    using assms(2) by (simp add: get_text_def cJSON_GetObjectItemValueString_def c_str_def)
  then show ?thesis using assms(1)
    by (simp add: FunGetEntranceServiceAnalysis_def analysis_def JsonMapGetEntranceServiceAnalysis_def with_data_def get_day_def
        scan_day_def sscanf.simps day_format_def scan_int_def ymd_fields_def month_days_def zero_time_def)
qed

lemma one_day_one_hour:
  "same_day a b \<Longrightarrow> length (fst (GetAlarmPeriodAnalysis q a b 1)) = 1"
  by (simp add: GetAlarmPeriodAnalysis_def span_loop_def Let_def)

end
