(* ===== verification/ShopApi.thy ===== *)
theory ShopApi
  imports Attendance StationApi
begin

text \<open>
  The commands for staff, visitors, customers and fuel: their part of \<^verbatim>\<open>src/ExtLibs/Config/jsonmap.c\<close> and
  \<^verbatim>\<open>src/App/JsonAPI/jsonswitch.c\<close>, and \<^verbatim>\<open>src/Modules/FuelQuantityAnalysis\<close>. As in \<open>StationApi\<close> they are handlers for the argument
  \<open>others\<close> of \<open>JsonSwitch\<close>; \<open>q\<close> is the data base, \<open>now\<close> the local time. The dates on the stack of these handlers are not cleared: \<open>u\<close> is what is
  there before.
\<close>

section \<open>Data of requests\<close>

definition day_or_epoch :: "TimeYMD_T \<Rightarrow> (TimeYMD_T \<Rightarrow> TimeYMD_T) \<Rightarrow> cJSON \<Rightarrow> string \<Rightarrow> fault + TimeYMD_T" where
  "day_or_epoch u edge d nm = rbind (get_text (Some d) nm 128) (\<lambda>s. Inr (if s \<noteq> [] then edge (scan_day s u) else epoch))"

definition stamps_from :: "TimeYMD_T \<Rightarrow> TimeYMD_T \<Rightarrow> cJSON \<Rightarrow> fault + TimeYMD_T \<times> TimeYMD_T" where
  "stamps_from u now d =
     rbind (get_text (Some d) ''starttime'' 128) (\<lambda>s. rbind (get_text (Some d) ''endtime'' 128) (\<lambda>e.
     Inr (if s \<noteq> [] then scan_stamp s u else epoch, if e \<noteq> [] then scan_stamp e u else now)))"

definition days_from :: "TimeYMD_T \<Rightarrow> cJSON \<Rightarrow> fault + TimeYMD_T \<times> TimeYMD_T" where
  "days_from u d = rbind (get_text (Some d) ''starttime'' 128) (\<lambda>s. rbind (get_text (Some d) ''endtime'' 128) (\<lambda>e.
     Inr (first_second (scan_day s u), last_second (scan_day e u))))"

definition JsonMapGetAttendanceSumPares :: "TimeYMD_T \<Rightarrow> cJSON option \<Rightarrow> fault + (TimeYMD_T \<times> TimeYMD_T) option \<times> int" where
  "JsonMapGetAttendanceSumPares u = with_data (days_from u)"

definition JsonMapGetAttendanceListSumPares ::
    "TimeYMD_T \<Rightarrow> cJSON option \<Rightarrow> fault + ((TimeYMD_T \<times> TimeYMD_T) \<times> string) option \<times> int" where
  "JsonMapGetAttendanceListSumPares u = with_data (\<lambda>d. rbind (get_text (Some d) ''fuzzystr'' 128) (\<lambda>f. rbind (days_from u d) (\<lambda>ab. Inr (ab, f))))"

definition JsonMapGetAttendanceListPares ::
    "TimeYMD_T \<Rightarrow> TimeYMD_T \<Rightarrow> cJSON option \<Rightarrow> fault + ((TimeYMD_T \<times> TimeYMD_T) \<times> int \<times> int \<times> string) option \<times> int" where
  "JsonMapGetAttendanceListPares u now = with_data (\<lambda>d. rbind (get_text (Some d) ''fuzzystr'' 128) (\<lambda>f. rbind (stamps_from u now d) (\<lambda>ab.
     Inr (ab, int_of d ''page'', int_of d ''num'', f))))"

definition JsonMapGetAttendancePares ::
    "TimeYMD_T \<Rightarrow> TimeYMD_T \<Rightarrow> cJSON option \<Rightarrow> fault + ((TimeYMD_T \<times> TimeYMD_T) \<times> int \<times> int) option \<times> int" where
  "JsonMapGetAttendancePares u now = with_data (\<lambda>d. rbind (stamps_from u now d) (\<lambda>ab. Inr (ab, int_of d ''page'', int_of d ''num'')))"

definition JsonMapGetVisitorsPares ::
    "TimeYMD_T \<Rightarrow> TimeYMD_T \<Rightarrow> cJSON option \<Rightarrow> fault + ((TimeYMD_T \<times> TimeYMD_T) \<times> int \<times> int) option \<times> int" where
  "JsonMapGetVisitorsPares u now = with_data (\<lambda>d. rbind (stamps_from u now d) (\<lambda>ab. Inr (ab, int_of d ''page'', int_of d ''num'')))"

definition JsonMapGetVolumeOfCommutersNumInfoPares :: "TimeYMD_T \<Rightarrow> cJSON option \<Rightarrow> fault + TimeYMD_T option \<times> int" where
  "JsonMapGetVolumeOfCommutersNumInfoPares u = with_data (\<lambda>d. day_or_epoch u first_second d ''time'')"

definition JsonMapGetVolumeOfCommutersOfLineInfoPares ::
    "TimeYMD_T \<Rightarrow> cJSON option \<Rightarrow> fault + ((TimeYMD_T \<times> TimeYMD_T) \<times> int) option \<times> int" where
  "JsonMapGetVolumeOfCommutersOfLineInfoPares u = with_data (\<lambda>d. rbind (day_or_epoch u first_second d ''starttime'') (\<lambda>a.
     rbind (day_or_epoch u last_second d ''endtime'') (\<lambda>b. Inr ((a, b), int_of d ''num''))))"

section \<open>Results\<close>

definition JsonMapGetVisitorsListMake :: "int \<Rightarrow> VIPCustomer_T list \<Rightarrow> int \<Rightarrow> fault + cJSON option" where
  "JsonMapGetVisitorsListMake tot vs num = (if num \<le> 0 then Inr None else
     rbind (map_fault (\<lambda>v. rbind (fit_text 128 (minute_text (vi_time v))) (\<lambda>t.
       Inr [(''gradescore'', FNum (GetGradeLevel (GradeScore v))), (''storefrequency'', FNum (StoreFrequency v)), (''name'', FStr (vi_name v)),
        (''time'', FStr t), (''snaptoken'', FStr (vi_token v)), (''plateimagepath'', FStr (vi_plate v)), (''snapimagepath'', FStr (vi_snap v))]))
       (filter (\<lambda>v. vi_name v \<noteq> []) vs))
     (named_list [(''sum'', FNum tot)] ''visitorslist''))"

definition JsonMapGetAttendanceSumMake :: "int \<Rightarrow> fault + cJSON option" where
  "JsonMapGetAttendanceSumMake num = (if 0 > num then Inr None else one_object [(''num'', FNum num)])"

definition JsonMapGetAttendanceHistorySumMake :: "int \<Rightarrow> fault + cJSON option" where
  "JsonMapGetAttendanceHistorySumMake num = (if 0 > num then Inr None else one_object [(''num'', FNum num)])"

definition JsonMapGetAttendanceHistoryListMake :: "int \<Rightarrow> AttendanceAtt_T list \<Rightarrow> int \<Rightarrow> fault + cJSON option" where
  "JsonMapGetAttendanceHistoryListMake tot vs num = (if num \<le> 0 then Inr None else
     rbind (map_fault (\<lambda>v. rbind (fit_text 128 (minute_text (at_time v))) (\<lambda>t.
       Inr [(''name'', FStr (at_name v)), (''usrid'', FStr (at_usrid v)), (''phonenum'', FStr (phonenum v)), (''time'', FStr t),
        (''snaptoken'', FStr (at_token v)), (''plateimagepath'', FStr (at_plate v)), (''snapimagepath'', FStr (at_snap v))]))
       (filter (\<lambda>v. at_name v \<noteq> []) vs))
     (named_list [(''sum'', FNum tot)] ''attendancelist''))"

definition JsonMapGetVolumeOfCommutersNumMake :: "int \<Rightarrow> fault + cJSON option" where
  "JsonMapGetVolumeOfCommutersNumMake n = one_object [(''enternum'', FNum n)]"

definition JsonMapGetVolumeOfCommutersOfLineMake :: "LeaveAndEnterNum_T list \<Rightarrow> fault + cJSON option" where
  "JsonMapGetVolumeOfCommutersOfLineMake vs = (if vs = [] then Inr None else one_object (map (\<lambda>v. (le_time v, FNum (dwEnterNum v))) vs))"

definition JsonMapGetVolumeOfCommutersOfSexMake :: "VolumeOfCommutersOfSex_T \<Rightarrow> int \<Rightarrow> fault + cJSON option" where
  "JsonMapGetVolumeOfCommutersOfSexMake i num = (if num \<le> 0 then Inr None
     else one_object [(''male'', FNum (male i)), (''female'', FNum (female i))])"

definition JsonMapGetVolumeOfCommutersOfAgeMake :: "VolumeOfCommutersOfAge_T \<Rightarrow> int \<Rightarrow> fault + cJSON option" where
  "JsonMapGetVolumeOfCommutersOfAgeMake i num = (if num \<le> 0 then Inr None
     else one_object [(''kid'', FNum (kid i)), (''young'', FNum (young i)), (''old'', FNum (old i))])"

section \<open>Handlers\<close>

text \<open>The array of \<open>num\<close> rows, which the data base fills; \<^verbatim>\<open>malloc\<close> of a negative length fails, and the array is cleared.\<close>

definition filled :: "int \<Rightarrow> 'a list \<Rightarrow> fault + 'a list" where
  "filled num rows = (if num < 0 then Inl NullDeref else if int (length rows) > num then Inl OutOfBounds else Inr rows)"

text \<open>Some handlers test one entry \<open>e\<close> of the table and call another one, \<open>e'\<close>.\<close>

definition calling :: "string \<Rightarrow> (('a \<Rightarrow> fault + 'b option \<times> int) \<Rightarrow> station_handler) \<Rightarrow> ('a \<Rightarrow> fault + 'b option \<times> int) \<Rightarrow> station_handler" where
  "calling e' f ask h = f (\<lambda>a. if e' \<in> set (granted h) then ask a else Inl NullDeref) h"

definition FunGetAttendanceSum :: "shop_queries \<Rightarrow> TimeYMD_T \<Rightarrow> station_handler" where
  "FunGetAttendanceSum q u = calling ''pGetAttendanceRecordSum'' (\<lambda>ask. analysis ''pGetAttendanceRecord'' (JsonMapGetAttendanceSumPares u) ask
     JsonMapGetAttendanceSumMake) (\<lambda>(a, b). always (GetAttendanceRecordSum q a b))"

definition FunGetAttendance :: "shop_queries \<Rightarrow> TimeYMD_T \<Rightarrow> TimeYMD_T \<Rightarrow> station_handler" where
  "FunGetAttendance q u now = analysis ''pGetAttendanceRecord'' (JsonMapGetAttendancePares u now)
     (\<lambda>((a, b), page, num). let ((n, rows), r) = GetAttendanceRecord q a b page num in
       rbind (filled num rows) (\<lambda>rows. Inr (Some (n, rows, num), r)))
     (\<lambda>(n, rows, num). JsonMapGetAttendanceHistoryListMake n rows num)"

definition FunGetAttendanceHistorySum :: "shop_queries \<Rightarrow> TimeYMD_T \<Rightarrow> station_handler" where
  "FunGetAttendanceHistorySum q u = analysis ''pGetAttendanceHistorySum'' (JsonMapGetAttendanceListSumPares u)
     (\<lambda>((a, b), f). always (GetAttendanceHistorySum q a b f)) JsonMapGetAttendanceHistorySumMake"

definition FunGetAttendanceHistoryList :: "shop_queries \<Rightarrow> TimeYMD_T \<Rightarrow> TimeYMD_T \<Rightarrow> station_handler" where
  "FunGetAttendanceHistoryList q u now = analysis ''pGetAttendanceHistoryList'' (JsonMapGetAttendanceListPares u now)
     (\<lambda>((a, b), page, num, f). if num < 0 then Inl NullDeref else case GetAttendanceHistoryList q a b page num f of
         (None, r) \<Rightarrow> Inr (None, r)
       | (Some (n, rows), r) \<Rightarrow> rbind (filled num rows) (\<lambda>rows. Inr (Some (n, rows, num), r)))
     (\<lambda>(n, rows, num). JsonMapGetAttendanceHistoryListMake n rows num)"

definition FunGetVisitorsInfo :: "shop_queries \<Rightarrow> TimeYMD_T \<Rightarrow> TimeYMD_T \<Rightarrow> station_handler" where
  "FunGetVisitorsInfo q u now = analysis ''pGetVisitorsInfo'' (JsonMapGetVisitorsPares u now)
     (\<lambda>((a, b), page, num). if num < 0 then Inl NullDeref else case GetVisitorsInfo q a b page num of
         (None, r) \<Rightarrow> Inr (None, r)
       | (Some (n, rows), r) \<Rightarrow> rbind (filled num rows) (\<lambda>rows. Inr (Some (n, rows, num), r)))
     (\<lambda>(n, rows, num). JsonMapGetVisitorsListMake n rows num)"

definition FunGetVolumeOfCommutersNumInfo :: "shop_queries \<Rightarrow> TimeYMD_T \<Rightarrow> station_handler" where
  "FunGetVolumeOfCommutersNumInfo q u = calling ''pGetVolumeOfCommutersNum''
     (\<lambda>ask. analysis ''pGetVisitorsInfo'' (JsonMapGetVolumeOfCommutersNumInfoPares u) ask JsonMapGetVolumeOfCommutersNumMake)
     (\<lambda>t. always (GetVolumeOfCommutersNum q t))"

text \<open>Without a positive number of days the pointer to the array is not set.\<close>

definition FunGetVolumeOfCommutersOfLineInfo :: "shop_queries \<Rightarrow> TimeYMD_T \<Rightarrow> station_handler" where
  "FunGetVolumeOfCommutersOfLineInfo q u = calling ''pGetVolumeOfCommutersOfLine''
     (\<lambda>ask. analysis ''pGetVisitorsInfo'' (JsonMapGetVolumeOfCommutersOfLineInfoPares u) ask JsonMapGetVolumeOfCommutersOfLineMake)
     (\<lambda>((a, b), num). if num \<le> 0 then Inl Uninitialised
       else rbind (GetVolumeOfCommutersOfLine q a b num (if num = 1 then 24 else num)) (\<lambda>r. always r))"

definition FunGetVolumeOfCommutersOfSexInfo :: "shop_queries \<Rightarrow> TimeYMD_T \<Rightarrow> station_handler" where
  "FunGetVolumeOfCommutersOfSexInfo q u = calling ''pGetVolumeOfCommutersOfSex''
     (\<lambda>ask. analysis ''pGetVisitorsInfo'' (JsonMapGetVolumeOfCommutersOfLineInfoPares u) ask (\<lambda>(i, num). JsonMapGetVolumeOfCommutersOfSexMake i num))
     (\<lambda>((a, b), num). let (i, r) = GetVolumeOfCommutersOfSex q a b num in always ((i, num), r))"

definition FunGetVolumeOfCommutersOfAgeInfo :: "shop_queries \<Rightarrow> TimeYMD_T \<Rightarrow> station_handler" where
  "FunGetVolumeOfCommutersOfAgeInfo q u = calling ''pGetVolumeOfCommutersOfAge''
     (\<lambda>ask. analysis ''pGetVisitorsInfo'' (JsonMapGetVolumeOfCommutersOfLineInfoPares u) ask (\<lambda>(i, num). JsonMapGetVolumeOfCommutersOfAgeMake i num))
     (\<lambda>((a, b), num). let (i, r) = GetVolumeOfCommutersOfAge q a b num in always ((i, num), r))"

section \<open>Fuel\<close>

text \<open>
  \<^verbatim>\<open>fuelquantity.c\<close>: the rows of a day are replaced by an upload. \<open>del\<close> is what the data base returns when it deletes the rows of a date
  after the calls so far; \<open>f_atof\<close> is \<^verbatim>\<open>atof\<close>, rounded.
\<close>

record StuckPipeInfo_T =
  stationName :: string
  oils :: int
  LPM :: rat
  pipe_no :: int
  pipe_date :: TimeYMD_T

datatype fuel_call = DelPipe TimeYMD_T | AddPipe StuckPipeInfo_T

definition AddStuckPipeData ::
    "(fuel_call list \<Rightarrow> TimeYMD_T \<Rightarrow> int) \<Rightarrow> StuckPipeInfo_T list \<Rightarrow> fuel_call list \<Rightarrow> fault + fuel_call list \<times> int" where
  "AddStuckPipeData del is cs = (case is of [] \<Rightarrow> Inl OutOfBounds
     | i # _ \<Rightarrow> let iret = del cs (pipe_date i); cs = cs @ [DelPipe (pipe_date i)] in
         if iret = KEY_FALSE then Inr (cs, iret) else Inr (cs @ map AddPipe is, iret))"

record fuel_db =
  pGetFillRateSumByType :: "TimeYMD_T \<Rightarrow> int \<Rightarrow> int"
  pGetFuelQuantityByType :: "TimeYMD_T \<Rightarrow> int \<Rightarrow> int"
  pGetOliGunSum :: "TimeYMD_T \<Rightarrow> int"
  pGetOliGunFrequency :: "TimeYMD_T \<Rightarrow> (int \<times> int) list"

definition GetFuelingRangeProportionByDate :: "fuel_db \<Rightarrow> TimeYMD_T \<Rightarrow> int \<times> int \<times> int" where
  "GetFuelingRangeProportionByDate q t = (pGetFillRateSumByType q t 2, pGetFillRateSumByType q t 3, pGetFillRateSumByType q t 4)"

definition GetFuelQuantityByType :: "fuel_db \<Rightarrow> TimeYMD_T \<Rightarrow> int \<times> int \<times> int" where
  "GetFuelQuantityByType q t = (pGetFuelQuantityByType q t 1, pGetFuelQuantityByType q t 2, pGetFuelQuantityByType q t 3)"

definition GetOliGunSum :: "fuel_db \<Rightarrow> TimeYMD_T \<Rightarrow> int" where
  "GetOliGunSum q t = pGetOliGunSum q t"

text \<open>Numbers of pumps and how often they are used, stored into a cleared array with as many entries as the data base counted.\<close>

definition GetOliGunFrequency :: "fuel_db \<Rightarrow> TimeYMD_T \<Rightarrow> int \<Rightarrow> fault + (int \<times> int) list" where
  "GetOliGunFrequency q t n = rbind (filled n (pGetOliGunFrequency q t)) (\<lambda>rows. Inr (rows @ replicate (nat n - length rows) (0, 0)))"

text \<open>An entry of the list of an upload; the block from \<^verbatim>\<open>malloc\<close> holds \<open>u\<close>.\<close>

definition pipe_item :: "(string \<Rightarrow> rat) \<Rightarrow> StuckPipeInfo_T \<Rightarrow> cJSON \<Rightarrow> fault + StuckPipeInfo_T" where
  "pipe_item f_atof u d =
     rbind (item_text 128 d ''name'' (stationName u)) (\<lambda>n. rbind (get_text (Some d) ''Oils'' 128) (\<lambda>os.
     rbind (get_text (Some d) ''LPM'' 128) (\<lambda>l. rbind (get_text (Some d) ''number'' 128) (\<lambda>no. rbind (get_text (Some d) ''date'' 128) (\<lambda>t.
     Inr \<lparr>stationName = n, oils = atoi os, LPM = f_atof l, pipe_no = atoi no, pipe_date = scan_stamp t (pipe_date u)\<rparr>)))))"

definition c_char :: "int \<Rightarrow> int" where
  "c_char i = (i + 128) mod 256 - 128"

definition FunUploadOilStationData ::
    "(string \<Rightarrow> rat) \<Rightarrow> (fuel_call list \<Rightarrow> TimeYMD_T \<Rightarrow> int) \<Rightarrow> StuckPipeInfo_T \<Rightarrow> AdpAPIHandle_T \<Rightarrow> cJSON option \<Rightarrow> cJSON \<Rightarrow>
     fuel_call list \<Rightarrow> fault + fuel_call list \<times> cJSON \<times> int" where
  "FunUploadOilStationData f_atof del u h data resp cs = (case data of None \<Rightarrow> Inl NullDeref
     | Some d \<Rightarrow> (case cJSON_GetObjectItem d ''datalist'' of None \<Rightarrow> Inr (cs, resp, KEY_FALSE)
       | Some l \<Rightarrow>
           if ''pAddStuckPipeData'' \<notin> set (granted h) then Inr (cs, resp, KEY_FALSE)
           else if c_char (int_of d ''uploadtype'') = 2
           then rbind (map_fault (pipe_item f_atof u) (child l)) (\<lambda>is. rbind (AddStuckPipeData del is cs) (\<lambda>(cs, _). Inr (cs, resp, KEY_TRUE)))
           else Inr (cs, resp, KEY_TRUE)))"

definition month_format :: "directive list" where
  "month_format = [DInt 4, DLit (CHR ''-''), DInt 2]"

text \<open>The ways of paying are fixed, with fixed numbers.\<close>

definition payment_names :: "string list" where
  "payment_names = [[CHR 0xE5, CHR 0x8A, CHR 0xA0, CHR 0xE6, CHR 0xB2, CHR 0xB9, CHR 0xE5, CHR 0x8D, CHR 0xA1], [CHR 0xE7, CHR 0x8E, CHR 0xB0, CHR 0xE9, CHR 0x87, CHR 0x91], ''APP'', [CHR 0xE7, CHR 0x9F, CHR 0xB3, CHR 0xE5, CHR 0x8C, CHR 0x96, CHR 0xE9, CHR 0x92, CHR 0xB1, CHR 0xE5, CHR 0x8C, CHR 0x85]]"

definition payment_fields :: "(string \<times> field) list list" where
  "payment_fields = map (\<lambda>n. [(''type'', FStr n), (''paymentnumber'', FNum 705), (''paymentamount'', FNum 5545)]) payment_names"

definition three :: "string \<Rightarrow> string \<Rightarrow> string \<Rightarrow> int \<times> int \<times> int \<Rightarrow> fault + cJSON" where
  "three a b c r = (case r of (x, y, z) \<Rightarrow> add_fields cJSON_CreateObject [(a, FNum x), (b, FNum y), (c, FNum z)])"

definition FunGetOilStationData :: "fuel_db \<Rightarrow> station_handler" where
  "FunGetOilStationData q h data resp =
     (if \<not> {''pGetFuelingRangeProportionByDate'', ''pGetFuelQuantityByType'', ''pGetOliGunSum'', ''pGetOliGunFrequency''} \<subseteq> set (granted h)
      then Inr (resp, KEY_FALSE)
      else rbind (get_text data ''date'' 128) (\<lambda>s.
        let t = store_fields ymd_fields (sscanf month_format s) zero_time; n = GetOliGunSum q t in
        if n \<le> 0 then Inr (cJSON_AddItemToObject resp ''data'' (Some cJSON_CreateObject), KEY_TRUE)
        else rbind (GetOliGunFrequency q t n) (\<lambda>guns.
          rbind (three ''low'' ''middle'' ''high'' (GetFuelingRangeProportionByDate q t)) (\<lambda>rate.
          rbind (three ''92type'' ''95type'' ''98type'' (GetFuelQuantityByType q t)) (\<lambda>ty.
          rbind (add_items cJSON_CreateArray (map (\<lambda>(n, f). [(''number'', FNum n), (''frequency'', FNum f)]) guns)) (\<lambda>gun.
          rbind (add_items cJSON_CreateArray payment_fields) (\<lambda>pay.
          let date = cJSON_AddItemToObject cJSON_CreateObject ''fillrate'' (Some rate);
              date = cJSON_AddItemToObject date ''olitype'' (Some ty);
              date = cJSON_AddItemToObject date ''oilgun'' (Some gun);
              date = cJSON_AddItemToObject date ''paymentanalysis'' (Some pay) in
          Inr (cJSON_AddItemToObject resp ''data'' (Some date), KEY_TRUE))))))))"

section \<open>Dispatching\<close>

definition shop_cmds :: "shop_queries \<Rightarrow> fuel_db \<Rightarrow> TimeYMD_T \<Rightarrow> TimeYMD_T \<Rightarrow> (string \<times> station_handler) list" where
  "shop_cmds q f u now =
     [(''getattendance'', FunGetAttendance q u now), (''getattendancedeta'', FunGetAttendanceHistoryList q u now),
      (''getattendancelisthistory'', FunGetAttendanceHistoryList q u now), (''getvisitors'', FunGetVisitorsInfo q u now),
      (''getvolumeofcommutersnum'', FunGetVolumeOfCommutersNumInfo q u), (''getvolumeofcommutersofline'', FunGetVolumeOfCommutersOfLineInfo q u),
      (''getvolumeofcommutersofsex'', FunGetVolumeOfCommutersOfSexInfo q u),
      (''getvolumeofcommutersofage'', FunGetVolumeOfCommutersOfAgeInfo q u), (''getoilstationdata'', FunGetOilStationData f)]"

text \<open>The state is the list of the calls that upload, and what the remaining commands keep.\<close>

definition shop_others ::
    "shop_queries \<Rightarrow> fuel_db \<Rightarrow> (string \<Rightarrow> rat) \<Rightarrow> (fuel_call list \<Rightarrow> TimeYMD_T \<Rightarrow> int) \<Rightarrow> StuckPipeInfo_T \<Rightarrow> TimeYMD_T \<Rightarrow> TimeYMD_T \<Rightarrow>
     'x other_handler \<Rightarrow> (fuel_call list \<times> 'x) other_handler" where
  "shop_others q f f_atof del up u now rest c h data resp x =
     (if c = ''uploadoilstationdata'' then rbind (FunUploadOilStationData f_atof del up h data resp (fst x)) (\<lambda>(cs, resp, r). Inr ((cs, snd x), resp, r))
      else case map_of (shop_cmds q f u now) c of
        Some g \<Rightarrow> rbind (g h data resp) (\<lambda>(resp, r). Inr (x, resp, r))
      | None \<Rightarrow> rbind (rest c h data resp (snd x)) (\<lambda>(y, resp, r). Inr ((fst x, y), resp, r)))"

section \<open>More days than asked for\<close>

text \<open>
  The number of days that a request names decides on the length of the array, its dates on the number of rows: a request whose
  dates have more days with customers than it names makes the data base write past the end.
\<close>

lemma line_overruns:
  assumes "''pGetVisitorsInfo'' \<in> set (granted h)" "''pGetVolumeOfCommutersOfLine'' \<in> set (granted h)"
    and "JsonMapGetVolumeOfCommutersOfLineInfoPares u data = Inr (Some ((a, b), num), KEY_TRUE)" "data \<noteq> None" "1 < num"
    and "num < int (length (pGetPassengerFlowLineOfDay q a b num))"
  shows "FunGetVolumeOfCommutersOfLineInfo q u h data resp = Inl OutOfBounds"
  using assms by (simp add: FunGetVolumeOfCommutersOfLineInfo_def calling_def analysis_def GetVolumeOfCommutersOfLine_def)

lemma line_no_days:
  assumes "''pGetVisitorsInfo'' \<in> set (granted h)" "''pGetVolumeOfCommutersOfLine'' \<in> set (granted h)"
    and "JsonMapGetVolumeOfCommutersOfLineInfoPares u data = Inr (Some ((a, b), num), KEY_TRUE)" "data \<noteq> None" "num \<le> 0"
  shows "FunGetVolumeOfCommutersOfLineInfo q u h data resp = Inl Uninitialised"
  using assms by (simp add: FunGetVolumeOfCommutersOfLineInfo_def calling_def analysis_def)

text \<open>An empty list is read before its first entry.\<close>

lemma upload_empty:
  assumes "cJSON_GetObjectItem d ''datalist'' = Some l" "child l = []" "''pAddStuckPipeData'' \<in> set (granted h)"
    and "c_char (int_of d ''uploadtype'') = 2"
  shows "FunUploadOilStationData f_atof del u h (Some d) resp cs = Inl OutOfBounds"
  using assms by (simp add: FunUploadOilStationData_def AddStuckPipeData_def)

text \<open>
  The table of a data base that deletes the rows of a date and adds rows. Uploading the same day again leaves the rows of the
  last upload, and the rows of other days as they were, as long as a list holds a single day.
\<close>

fun pipe_table :: "fuel_call list \<Rightarrow> StuckPipeInfo_T list \<Rightarrow> StuckPipeInfo_T list" where
  "pipe_table [] rows = rows"
| "pipe_table (DelPipe t # cs) rows = pipe_table cs (filter (\<lambda>r. pipe_date r \<noteq> t) rows)"
| "pipe_table (AddPipe i # cs) rows = pipe_table cs (rows @ [i])"

lemma pipe_table_append: "pipe_table (cs @ ds) rows = pipe_table ds (pipe_table cs rows)"
  by (induction cs rows rule: pipe_table.induct) simp_all

lemma pipe_table_adds: "pipe_table (map AddPipe is) rows = rows @ is"
  by (induction "is" arbitrary: rows) simp_all

lemma upload_replaces:
  assumes "AddStuckPipeData del is cs = Inr (cs', r)" "r \<noteq> KEY_FALSE" "\<forall>i \<in> set is. pipe_date i = t"
  shows "filter (\<lambda>i. pipe_date i = t) (pipe_table cs' rows) = is"
    and "filter (\<lambda>i. pipe_date i \<noteq> t) (pipe_table cs' rows) = filter (\<lambda>i. pipe_date i \<noteq> t) (pipe_table cs rows)"
proof -
  obtain i js where i: "is = i # js" using assms(1) by (cases "is") (simp_all add: AddStuckPipeData_def)
  then have c: "cs' = cs @ DelPipe t # map AddPipe is" using assms by (auto simp: AddStuckPipeData_def Let_def split: if_splits)
  have f: "filter (\<lambda>i. pipe_date i = t) is = is" "filter (\<lambda>i. pipe_date i \<noteq> t) is = []"
    using assms(3) by (auto simp: filter_id_conv filter_empty_conv)
  have "pipe_table cs' rows = filter (\<lambda>i. pipe_date i \<noteq> t) (pipe_table cs rows) @ is"
    by (simp only: c pipe_table_append pipe_table.simps pipe_table_adds)
  then show "filter (\<lambda>i. pipe_date i = t) (pipe_table cs' rows) = is"
    and "filter (\<lambda>i. pipe_date i \<noteq> t) (pipe_table cs' rows) = filter (\<lambda>i. pipe_date i \<noteq> t) (pipe_table cs rows)"
    by (simp_all add: f)
qed

end
