(* ===== verification/DvrConfig.thy ===== *)
theory DvrConfig
  imports StationJson
begin

text \<open>
  Recorders and their cameras in the configuration: \<^verbatim>\<open>src/Modules/HkSdkManage/hklistconf.c\<close> with its part of
  \<^verbatim>\<open>src/ExtLibs/Config/jsonmap.c\<close> and the records of \<^verbatim>\<open>src/Include/hkManage.h\<close>. Arrays of 64 characters are their texts,
  arrays of records lists of their length.

  The lemmas show that the configuration keeps one entry for each serial number, which is read back as it was stored.
\<close>

section \<open>Records\<close>

abbreviation (input) NET_DVR_MAX_LEN :: nat where "NET_DVR_MAX_LEN \<equiv> 64"
abbreviation (input) NET_IPC_MAX_NUM :: nat where "NET_IPC_MAX_NUM \<equiv> 64"

record HkDeviceParam_T =
  sOnline :: int
  sDeviceType :: int
  sChannel :: int
  sQueueID :: int
  sDeviceName :: string
  sDeviceAddress :: string

record HkDeviceInfo_T =
  wPort :: int
  wChannel :: int
  wStartDChan :: int
  lUserID :: int
  sUserName :: string
  sPassword :: string
  sDvrAddress :: string
  sDvrName :: string
  sDvrSerialNumber :: string
  IWorkersFPID :: string
  ICustomerFPID :: string

record HKDVRParam_T =
  HkDvrInfo :: HkDeviceInfo_T
  HkSdkParam :: "HkDeviceParam_T list"

definition null_camera :: HkDeviceParam_T where
  "null_camera = \<lparr>sOnline = 0, sDeviceType = 0, sChannel = 0, sQueueID = 0, sDeviceName = [], sDeviceAddress = []\<rparr>"

definition null_recorder :: HKDVRParam_T where
  "null_recorder = \<lparr>HkDvrInfo = \<lparr>wPort = 0, wChannel = 0, wStartDChan = 0, lUserID = 0, sUserName = [], sPassword = [], sDvrAddress = [],
     sDvrName = [], sDvrSerialNumber = [], IWorkersFPID = [], ICustomerFPID = []\<rparr>, HkSdkParam = replicate NET_IPC_MAX_NUM null_camera\<rparr>"

abbreviation serial :: "HKDVRParam_T \<Rightarrow> string" where "serial p \<equiv> sDvrSerialNumber (HkDvrInfo p)"

section \<open>Recorders as JSON\<close>

definition camera_fields :: "HkDeviceParam_T \<Rightarrow> (string \<times> field) list" where
  "camera_fields c = [(''queueid'', FNum (sQueueID c)), (''channel'', FNum (sChannel c)), (''devicetype'', FNum (sDeviceType c)),
     (''devicename'', FStr (sDeviceName c)), (''deviceIP'', FStr (sDeviceAddress c))]"

definition recorder_texts :: "HkDeviceInfo_T \<Rightarrow> (string \<times> field) list" where
  "recorder_texts i = [(''Dvrname'', FStr (sDvrName i)), (''IPaddress'', FStr (sDvrAddress i)), (''username'', FStr (sUserName i)),
     (''password'', FStr (sPassword i)), (''serialnumber'', FStr (sDvrSerialNumber i))]"

text \<open>The loops over the channels leave the array of cameras when there are more channels than entries.\<close>

definition cameras :: "HKDVRParam_T \<Rightarrow> fault + HkDeviceParam_T list" where
  "cameras p = (let n = nat (wChannel (HkDvrInfo p)) in
     if n \<le> length (HkSdkParam p) then Inr (take n (HkSdkParam p)) else Inl OutOfBounds)"

definition recorder_item :: "(string \<times> field) list \<Rightarrow> (HkDeviceParam_T \<Rightarrow> (string \<times> field) list) \<Rightarrow> HkDeviceParam_T list \<Rightarrow> fault + cJSON" where
  "recorder_item fs cf cs = rbind (add_fields cJSON_CreateObject fs) (\<lambda>d. rbind (add_named cJSON_CreateArray ''IPClist'' (map cf cs)) (\<lambda>a.
     Inr (cJSON_AddItemToObject d ''IPClist'' (Some a))))"

definition JsonMapDvrInfoMake :: "HKDVRParam_T \<Rightarrow> fault + cJSON" where
  "JsonMapDvrInfoMake p = (let i = HkDvrInfo p in
     rbind (cameras p) (\<lambda>cs. recorder_item ([(''channels'', FNum (wChannel i)), (''port'', FNum (wPort i))] @ recorder_texts i) camera_fields cs))"

fun add_recorders :: "(HKDVRParam_T \<Rightarrow> fault + cJSON) \<Rightarrow> cJSON \<Rightarrow> HKDVRParam_T list \<Rightarrow> fault + cJSON" where
  "add_recorders f a [] = Inr a"
| "add_recorders f a (p # ps) = rbind (f p) (\<lambda>x. add_recorders f (cJSON_AddItemToObject a ''Dvrlist'' (Some x)) ps)"

definition recorder_list :: "(HKDVRParam_T \<Rightarrow> fault + cJSON) \<Rightarrow> HKDVRParam_T list \<Rightarrow> fault + cJSON" where
  "recorder_list f ps = rbind (add_recorders f cJSON_CreateArray ps) (\<lambda>a. Inr (cJSON_AddItemToObject cJSON_CreateObject ''Dvrlist'' (Some a)))"

definition JsonMapDvrListInfoMake :: "HKDVRParam_T list \<Rightarrow> int \<Rightarrow> fault + cJSON" where
  "JsonMapDvrListInfoMake ps num = recorder_list (\<lambda>p. let i = HkDvrInfo p in
     rbind (cameras p) (\<lambda>cs. recorder_item ([(''port'', FNum (wPort i)), (''channels'', FNum (wChannel i))] @ recorder_texts i) camera_fields cs))
     (take (nat num) ps)"

text \<open>The list for the front end leaves out the cameras without an address.\<close>

definition JsonMapGetsdkDeviceList :: "HKDVRParam_T list \<Rightarrow> int \<Rightarrow> fault + cJSON option" where
  "JsonMapGetsdkDeviceList ps num = (if num \<le> 0 then Inr None else rbind (recorder_list (\<lambda>p. let i = HkDvrInfo p in
     rbind (cameras p) (\<lambda>cs. recorder_item ([(''port'', FNum (wPort i)), (''channels'', FNum (wChannel i))] @ recorder_texts i)
       (\<lambda>c. [(''online'', FNum (sOnline c)), (''channel'', FNum (sChannel c)), (''devicetype'', FNum (sDeviceType c)),
             (''devicename'', FStr (sDeviceName c)), (''deviceIP'', FStr (sDeviceAddress c))]) (filter (\<lambda>c. sDeviceAddress c \<noteq> []) cs)))
     (take (nat num) ps)) (\<lambda>d. Inr (Some d)))"

definition pares_camera :: "cJSON \<Rightarrow> HkDeviceParam_T \<Rightarrow> fault + HkDeviceParam_T" where
  "pares_camera d c = rbind (item_text 64 d ''devicename'' (sDeviceName c)) (\<lambda>n. rbind (item_text 64 d ''deviceIP'' (sDeviceAddress c)) (\<lambda>a.
     Inr (c\<lparr>sQueueID := int_of d ''queueid'', sChannel := int_of d ''channel'', sDeviceType := int_of d ''devicetype'',
       sDeviceName := n, sDeviceAddress := a\<rparr>)))"

text \<open>The items go to the entries of an array in turn, as far as it reaches.\<close>

fun pares_into :: "(cJSON \<Rightarrow> 'a \<Rightarrow> fault + 'a) \<Rightarrow> cJSON list \<Rightarrow> 'a list \<Rightarrow> fault + 'a list" where
  "pares_into f [] xs = Inr xs"
| "pares_into f (d # ds) [] = Inl OutOfBounds"
| "pares_into f (d # ds) (x # xs) = rbind (f d x) (\<lambda>y. rbind (pares_into f ds xs) (\<lambda>ys. Inr (y # ys)))"

definition pares_recorder :: "cJSON \<Rightarrow> HKDVRParam_T \<Rightarrow> fault + HKDVRParam_T" where
  "pares_recorder d p = (let i = HkDvrInfo p in
     rbind (item_text 64 d ''Dvrname'' (sDvrName i)) (\<lambda>n. rbind (item_text 64 d ''IPaddress'' (sDvrAddress i)) (\<lambda>a.
     rbind (item_text 64 d ''username'' (sUserName i)) (\<lambda>u. rbind (item_text 64 d ''password'' (sPassword i)) (\<lambda>w.
     rbind (item_text 64 d ''serialnumber'' (sDvrSerialNumber i)) (\<lambda>s.
     let p = p\<lparr>HkDvrInfo := i\<lparr>wPort := int_of d ''port'', wChannel := int_of d ''channels'', sDvrName := n, sDvrAddress := a, sUserName := u,
           sPassword := w, sDvrSerialNumber := s\<rparr>\<rparr> in
     case cJSON_GetObjectItem d ''IPClist'' of None \<Rightarrow> Inr p
     | Some l \<Rightarrow> rbind (pares_into pares_camera (child l) (HkSdkParam p)) (\<lambda>cs. Inr (p\<lparr>HkSdkParam := cs\<rparr>))))))))"

definition JsonMapDvrInfoPares :: "cJSON option \<Rightarrow> HKDVRParam_T list \<Rightarrow> fault + HKDVRParam_T list \<times> int" where
  "JsonMapDvrInfoPares conf ps = (case conf of None \<Rightarrow> Inr (ps, KEY_FALSE)
     | Some c \<Rightarrow> (case cJSON_GetObjectItem c ''Dvrlist'' of None \<Rightarrow> Inr (ps, KEY_FALSE)
       | Some l \<Rightarrow> rbind (pares_into pares_recorder (child l) ps) (\<lambda>ps. Inr (ps, KEY_TRUE))))"

section \<open>The list in the configuration\<close>

definition D_CONFDVRLIST_STR :: string where "D_CONFDVRLIST_STR = ''ConfDvrList''"

definition HkDvrListConfigDefault :: "(rat \<Rightarrow> string) \<Rightarrow> bool \<Rightarrow> Conf_T \<Rightarrow> fault + Conf_T \<times> int" where
  "HkDvrListConfigDefault fd w s = rbind (JsonMapDvrListInfoMake [null_recorder] 0) (\<lambda>c. ConfigManageSet fd w (Some c) (Some D_CONFDVRLIST_STR) s)"

definition HkDvrListConfigGet :: "(rat \<Rightarrow> string) \<Rightarrow> bool \<Rightarrow> HKDVRParam_T list \<Rightarrow> Conf_T \<Rightarrow> (Conf_T \<times> HKDVRParam_T list \<times> int) run" where
  "HkDvrListConfigGet fd w ps s = run_bind (ConfigManageGet fd (Some D_CONFDVRLIST_STR) s) (\<lambda>c.
     run_bind (case c of Some _ \<Rightarrow> Some (Inr (s, c))
       | None \<Rightarrow> run_bind (Some (HkDvrListConfigDefault fd w s)) (\<lambda>(s, _).
           run_bind (ConfigManageGet fd (Some D_CONFDVRLIST_STR) s) (\<lambda>c. Some (Inr (s, c))))) (\<lambda>(s, c).
     run_bind (Some (JsonMapDvrInfoPares c ps)) (\<lambda>(ps, r). Some (Inr (s, ps, r)))))"

text \<open>
  The three operations that change the list read it into an array on the stack, whose 64 entries hold \<open>junk\<close> before, and look for the
  first entry with the serial number among all of them. Without an entry of the configuration they follow NULL.
\<close>

definition entry_index :: "HKDVRParam_T list \<Rightarrow> string \<Rightarrow> nat" where
  "entry_index ps sn = length (takeWhile (\<lambda>p. serial p \<noteq> sn) ps)"

definition change_list ::
    "(rat \<Rightarrow> string) \<Rightarrow> bool \<Rightarrow> HKDVRParam_T list \<Rightarrow> (nat \<Rightarrow> cJSON \<Rightarrow> cJSON) \<Rightarrow> string \<Rightarrow> Conf_T \<Rightarrow> (Conf_T \<times> int) run" where
  "change_list fd w junk f sn s = run_bind (ConfigManageGet fd (Some D_CONFDVRLIST_STR) s) (\<lambda>c.
     run_bind (Some (JsonMapDvrInfoPares c junk)) (\<lambda>(ps, _). case c of None \<Rightarrow> Some (Inl NullDeref)
     | Some c \<Rightarrow> (case name_index (child c) ''Dvrlist'' of None \<Rightarrow> Some (Inl NullDeref)
       | Some k \<Rightarrow> Some (ConfigManageSet fd w (Some (set_child ((child c)[k := f (entry_index ps sn) (child c ! k)]) c)) (Some D_CONFDVRLIST_STR) s))))"

definition HkDvrListConfigSet :: "(rat \<Rightarrow> string) \<Rightarrow> bool \<Rightarrow> HKDVRParam_T list \<Rightarrow> HKDVRParam_T \<Rightarrow> Conf_T \<Rightarrow> (Conf_T \<times> int) run" where
  "HkDvrListConfigSet fd w junk p s = run_bind (Some (JsonMapDvrInfoMake p)) (\<lambda>newitem.
     change_list fd w junk (\<lambda>i a. cJSON_ReplaceItemInArray a (int i) newitem) (serial p) s)"

definition HkDvrListConfigAdd :: "(rat \<Rightarrow> string) \<Rightarrow> bool \<Rightarrow> HKDVRParam_T list \<Rightarrow> HKDVRParam_T \<Rightarrow> Conf_T \<Rightarrow> (Conf_T \<times> int) run" where
  "HkDvrListConfigAdd fd w junk p s = run_bind (Some (JsonMapDvrInfoMake p)) (\<lambda>newitem.
     change_list fd w junk (\<lambda>i a. if i \<ge> NET_DVR_MAX_LEN then cJSON_AddItemToArray a (Some newitem)
       else cJSON_ReplaceItemInArray a (int i) newitem) (serial p) s)"

definition HkDvrListConfigDel :: "(rat \<Rightarrow> string) \<Rightarrow> bool \<Rightarrow> HKDVRParam_T list \<Rightarrow> HKDVRParam_T \<Rightarrow> Conf_T \<Rightarrow> (Conf_T \<times> int) run" where
  "HkDvrListConfigDel fd w junk p s = change_list fd w junk (\<lambda>i a. cJSON_DeleteItemFromArray a (int i)) (serial p) s"

section \<open>Names of array items\<close>

text \<open>
  The rows of these lists are added to arrays under a name, which printing ignores. \<open>strip\<close> is an item without such names.
\<close>

fun strip :: "cJSON \<Rightarrow> cJSON" where
  "strip (CJson t cs s i d nm) = CJson t (if t = cJSON_Array then map (\<lambda>c. set_name None (strip c)) cs else map strip cs) s i d nm"

lemma strip_fields [simp]: "ctype (strip c) = ctype c" "cname (strip c) = cname c" "valuestring (strip c) = valuestring c"
  "valueint (strip c) = valueint c" "valuedouble (strip c) = valuedouble c"
  by (cases c; simp)+

lemma set_name_fields [simp]: "ctype (set_name n c) = ctype c" "child (set_name n c) = child c"
  by (cases c; simp)+

lemma strip_set_name [simp]: "strip (set_name n c) = set_name n (strip c)"
  by (cases c) simp

lemma print_number_child: "print_number fd (CJson t (map f cs) s i d nm) = print_number fd (CJson t cs s i d nm)"
  by (simp add: print_number_def)

lemma strip_print:
  "print_value fd fmt d (strip c) = print_value fd fmt d c"
  "print_values fd fmt d (map strip cs) = print_values fd fmt d cs \<and>
   print_values fd fmt d (map (\<lambda>c. set_name None (strip c)) cs) = print_values fd fmt d cs"
  "print_members fd fmt d (map strip cs) = print_members fd fmt d cs"
  by (induction fd fmt d c and fd fmt d cs and fd fmt d cs rule: print_value_print_values_print_members.induct)
    (auto simp: Let_def print_number_child)

lemma strip_repr [simp]: "strip (repr j) = repr j"
proof (induction j)
  case (JArr js)
  have "set_name None (repr j) = repr j" for j by (cases j) auto
  then show ?case using JArr by simp
next
  case (JObj ms)
  then show ?case by (auto simp: comp_def)
qed simp_all

lemma strip_print_unformatted: "cJSON_PrintUnformatted fd (strip c) = cJSON_PrintUnformatted fd c"
  by (simp add: cJSON_PrintUnformatted_def strip_print)

lemma strip_add_object: "ctype ob = cJSON_Object \<Longrightarrow>
    strip (cJSON_AddItemToObject ob nm (Some x)) = cJSON_AddItemToObject (strip ob) nm (Some (strip x))"
  by (cases ob) (simp add: cJSON_AddItemToObject_def cJSON_AddItemToArray_def)

lemma strip_add_array: "ctype a = cJSON_Array \<Longrightarrow>
    strip (cJSON_AddItemToArray a (Some x)) = cJSON_AddItemToArray (strip a) (Some (set_name None (strip x)))"
  by (cases a) (simp add: cJSON_AddItemToArray_def)

lemma strip_get: "ctype r = cJSON_Object \<Longrightarrow> cJSON_GetObjectItem (strip r) n = map_option strip (cJSON_GetObjectItem r n)"
proof (cases r)
  case (CJson t cs s i d nm)
  assume "ctype r = cJSON_Object"
  moreover have "find (\<lambda>c. cJSON_strcasecmp_eq (cname c) (Some n)) (map strip cs) =
      map_option strip (find (\<lambda>c. cJSON_strcasecmp_eq (cname c) (Some n)) cs)" by (induction cs) auto
  ultimately show ?thesis using CJson by (simp add: cJSON_GetObjectItem_def)
qed

lemma strip_delete: "ctype r = cJSON_Object \<Longrightarrow> strip (cJSON_DeleteItemFromObject r n) = cJSON_DeleteItemFromObject (strip r) n"
proof (cases r)
  case (CJson t cs s i d nm)
  assume "ctype r = cJSON_Object"
  moreover have "name_index (map strip cs) n = name_index cs n" by (induction cs) auto
  ultimately show ?thesis using CJson
    by (simp add: cJSON_DeleteItemFromObject_def cJSON_DetachItemFromObject_def cJSON_DetachItemFromArray_def take_map drop_map split: option.splits)
qed

section \<open>The configuration without names of array items\<close>

definition stripped :: "Conf_T \<Rightarrow> Conf_T" where
  "stripped s = s\<lparr>root := map_option strip (root s)\<rparr>"

definition conf_like :: "Conf_T \<Rightarrow> (string \<times> json) list \<Rightarrow> bool" where
  "conf_like s ms \<longleftrightarrow> conf_inv (stripped s) ms"

lemma conf_like_root: "conf_like s ms \<Longrightarrow> \<exists>r. root s = Some r \<and> ctype r = cJSON_Object"
proof -
  assume "conf_like s ms"
  then obtain r where r: "root s = Some r" "strip r = repr (JObj ms)" by (auto simp: conf_like_def conf_inv_def stripped_def)
  then have "ctype (strip r) = cJSON_Object" by simp
  then show ?thesis using r(1) by simp
qed

lemma get_stripped:
  assumes "conf_like s ms"
  shows "ConfigManageGet fd (Some n) s = Some (Inr (map_option repr (member ms n)))"
proof -
  obtain r where r: "root s = Some r" "ctype r = cJSON_Object" using conf_like_root [OF assms] by blast
  have "ConfigManageGet fd (Some n) s = ConfigManageGet fd (Some n) (stripped s)"
    using r by (simp add: ConfigManageGet_def stripped_def strip_get strip_print_unformatted split: option.splits)
  then show ?thesis using config_get assms by (simp add: conf_like_def)
qed

lemma set_stripped:
  assumes "conf_like s ms" "strip c = repr j" "json_ok j" "NUL \<notin> set n"
  shows "\<exists>s'. ConfigManageSet fd True (Some c) (Some n) s = Inr (s', KEY_TRUE) \<and> conf_like s' (del_member ms n @ [(n, j)])"
proof -
  obtain r where r: "root s = Some r" "ctype r = cJSON_Object" using conf_like_root [OF assms(1)] by blast
  have d: "ctype (cJSON_DeleteItemFromObject r n) = cJSON_Object" using r(2)
    by (cases r) (simp add: cJSON_DeleteItemFromObject_def cJSON_DetachItemFromObject_def cJSON_DetachItemFromArray_def split: option.splits)
  let ?r' = "cJSON_AddItemToObject (cJSON_DeleteItemFromObject r n) n (Some c)"
  have s: "strip ?r' = cJSON_AddItemToObject (cJSON_DeleteItemFromObject (strip r) n) n (Some (repr j))"
    using strip_add_object [OF d] strip_delete [OF r(2)] assms(2) by simp
  obtain s' where s': "ConfigManageSet fd True (Some (repr j)) (Some n) (stripped s) = Inr (s', KEY_TRUE)"
    "conf_inv s' (del_member ms n @ [(n, j)])" using config_set [of "stripped s" ms j n fd] assms by (auto simp: conf_like_def)
  have p: "cJSON_PrintUnformatted fd ?r' = cJSON_PrintUnformatted fd (strip ?r')" by (simp add: strip_print_unformatted)
  let ?t = "s\<lparr>root := Some ?r', conf_file := conf_file s'\<rparr>"
  obtain y where y: "cJSON_PrintUnformatted fd ?r' = Inr (Some y)" "conf_file s' = Some y"
    using s'(1) r by (auto simp: ConfigManageSet_def stripped_def WirteConf_def Let_def p s outcome_iff split: option.splits if_splits
        simp del: strip.simps repr.simps)
  have "ConfigManageSet fd True (Some c) (Some n) s = Inr (?t, KEY_TRUE)"
    using y r(1) by (simp add: ConfigManageSet_def WirteConf_def Let_def)
  moreover have "root s' = Some (strip ?r')"
    using s'(1) r by (auto simp: ConfigManageSet_def stripped_def Let_def s outcome_iff split: if_splits simp del: strip.simps repr.simps)
  then have "conf_like ?t (del_member ms n @ [(n, j)])"
    using s'(2) by (simp add: conf_like_def conf_inv_def stripped_def del: strip.simps repr.simps json_ok.simps)
  ultimately show ?thesis by blast
qed

section \<open>Recorders are read back\<close>

definition text64 :: "string \<Rightarrow> bool" where
  "text64 t \<longleftrightarrow> NUL \<notin> set t \<and> length t < 64"

definition int32 :: "int \<Rightarrow> bool" where
  "int32 i \<longleftrightarrow> - (2 ^ 31) \<le> i \<and> i < 2 ^ 31"

definition camera_ok :: "HkDeviceParam_T \<Rightarrow> bool" where
  "camera_ok c \<longleftrightarrow> int32 (sQueueID c) \<and> int32 (sChannel c) \<and> int32 (sDeviceType c) \<and> text64 (sDeviceName c) \<and> text64 (sDeviceAddress c)"

definition recorder_ok :: "HKDVRParam_T \<Rightarrow> bool" where
  "recorder_ok p \<longleftrightarrow> (let i = HkDvrInfo p in 0 \<le> wChannel i \<and> wChannel i \<le> 64 \<and> length (HkSdkParam p) = 64 \<and> int32 (wPort i) \<and>
     text64 (sDvrName i) \<and> text64 (sDvrAddress i) \<and> text64 (sUserName i) \<and> text64 (sPassword i) \<and> text64 (sDvrSerialNumber i) \<and>
     list_all camera_ok (HkSdkParam p))"

definition recorder_fields :: "HKDVRParam_T \<Rightarrow> (string \<times> field) list" where
  "recorder_fields p = [(''channels'', FNum (wChannel (HkDvrInfo p))), (''port'', FNum (wPort (HkDvrInfo p)))] @ recorder_texts (HkDvrInfo p)"

definition used_cameras :: "HKDVRParam_T \<Rightarrow> HkDeviceParam_T list" where
  "used_cameras p = take (nat (wChannel (HkDvrInfo p))) (HkSdkParam p)"

definition camera_json :: "HkDeviceParam_T \<Rightarrow> json" where
  "camera_json c = JObj (members (camera_fields c))"

definition recorder_members :: "HKDVRParam_T \<Rightarrow> (string \<times> json) list" where
  "recorder_members p = members (recorder_fields p) @ [(''IPClist'', JArr (map camera_json (used_cameras p)))]"

definition recorder_json :: "HKDVRParam_T \<Rightarrow> json" where
  "recorder_json p = JObj (recorder_members p)"

definition list_json :: "HKDVRParam_T list \<Rightarrow> json" where
  "list_json ps = JObj [(''Dvrlist'', JArr (map recorder_json ps))]"

lemma camera_fields_ok: "camera_ok c \<Longrightarrow> list_all (field_ok \<circ> snd) (camera_fields c)"
  by (simp add: camera_ok_def camera_fields_def text64_def int32_def)

lemma recorder_fields_ok: "recorder_ok p \<Longrightarrow> list_all (field_ok \<circ> snd) (recorder_fields p)"
  by (simp add: recorder_ok_def recorder_fields_def recorder_texts_def text64_def int32_def Let_def)

lemma json_ok_camera: "camera_ok c \<Longrightarrow> json_ok (camera_json c)"
  unfolding camera_json_def by (rule members_ok [OF camera_fields_ok]) (auto simp: camera_fields_def)

lemma used_cameras_ok: "recorder_ok p \<Longrightarrow> list_all camera_ok (used_cameras p)"
  by (auto simp: recorder_ok_def used_cameras_def Let_def list_all_iff dest: in_set_takeD)

lemma json_ok_recorder: "recorder_ok p \<Longrightarrow> json_ok (recorder_json p)"
proof -
  assume p: "recorder_ok p"
  have "json_ok (JObj (members (recorder_fields p)))"
    by (rule members_ok [OF recorder_fields_ok [OF p]]) (simp add: recorder_fields_def recorder_texts_def)
  moreover have "list_all (\<lambda>c. json_ok (camera_json c)) (used_cameras p)"
    using used_cameras_ok [OF p] json_ok_camera by (auto simp: list_all_iff)
  ultimately show ?thesis by (simp add: recorder_json_def recorder_members_def list.pred_map comp_def)
qed

lemma json_ok_list: "list_all recorder_ok ps \<Longrightarrow> json_ok (list_json ps)"
  using json_ok_recorder by (auto simp: list_json_def list_all_iff)

lemma strip_named:
  "ctype a = cJSON_Array \<Longrightarrow> strip a = repr (JArr js) \<Longrightarrow> \<forall>fs \<in> set fss. list_all (field_ok \<circ> snd) fs \<Longrightarrow>
   \<exists>a'. add_named a nm fss = Inr a' \<and> ctype a' = cJSON_Array \<and> strip a' = repr (JArr (js @ map (\<lambda>fs. JObj (members fs)) fss))"
proof (induction fss arbitrary: a js)
  case (Cons fs fss)
  let ?a = "cJSON_AddItemToObject a nm (Some (repr (JObj (members fs))))"
  have "strip ?a = repr (JArr (js @ [JObj (members fs)]))"
    using Cons.prems by (simp add: cJSON_AddItemToObject_def strip_add_array repr_append [symmetric] del: repr.simps)
      (simp add: cJSON_AddItemToArray_def)
  moreover have "ctype ?a = cJSON_Array" using Cons.prems(1) by (cases a) (simp add: cJSON_AddItemToObject_def cJSON_AddItemToArray_def)
  moreover have "list_all (field_ok \<circ> snd) fs" using Cons.prems(3) by (meson list.set_intros(1))
  note create_fields [OF this]
  moreover have "\<forall>fs \<in> set fss. list_all (field_ok \<circ> snd) fs" using Cons.prems(3) by (meson list.set_intros(2))
  ultimately show ?case using Cons.IH [of ?a "js @ [JObj (members fs)]"] by (simp del: repr.simps o_apply)
qed simp

lemma make_recorder:
  assumes "recorder_ok p"
  shows "\<exists>x. JsonMapDvrInfoMake p = Inr x \<and> strip x = repr (recorder_json p)"
proof -
  have c: "cameras p = Inr (used_cameras p)" using assms by (auto simp: cameras_def used_cameras_def recorder_ok_def Let_def)
  have "\<forall>fs \<in> set (map camera_fields (used_cameras p)). list_all (field_ok \<circ> snd) fs"
    using used_cameras_ok [OF assms] camera_fields_ok by (auto simp: list_all_iff)
  moreover have "strip cJSON_CreateArray = repr (JArr [])" "ctype cJSON_CreateArray = cJSON_Array" by (simp_all add: cJSON_CreateArray_def)
  moreover have m: "map (\<lambda>fs. JObj (members fs)) (map camera_fields (used_cameras p)) = map camera_json (used_cameras p)"
    by (simp add: camera_json_def)
  ultimately obtain a where a: "add_named cJSON_CreateArray ''IPClist'' (map camera_fields (used_cameras p)) = Inr a"
    "strip a = repr (JArr (map camera_json (used_cameras p)))"
    using strip_named [of cJSON_CreateArray "[]" "map camera_fields (used_cameras p)" "''IPClist''"] unfolding m by (auto simp del: repr.simps list.map_comp map_map)
  have f: "add_fields cJSON_CreateObject (recorder_fields p) = Inr (repr (JObj (members (recorder_fields p))))"
    by (rule create_fields [OF recorder_fields_ok [OF assms]])
  have "ctype (repr (JObj (members (recorder_fields p)))) = cJSON_Object" by simp
  note s = strip_add_object [OF this]
  show ?thesis using f
    by (simp add: JsonMapDvrInfoMake_def Let_def c recorder_item_def a(1) recorder_fields_def s [unfolded recorder_fields_def] a(2) strip_repr repr_add
        recorder_json_def recorder_members_def del: repr.simps members_simps strip.simps append.simps)
qed

text \<open>What reading stores into a camera and a recorder.\<close>

definition as_camera :: "HkDeviceParam_T \<Rightarrow> HkDeviceParam_T \<Rightarrow> HkDeviceParam_T" where
  "as_camera c d = d\<lparr>sQueueID := sQueueID c, sChannel := sChannel c, sDeviceType := sDeviceType c, sDeviceName := sDeviceName c,
     sDeviceAddress := sDeviceAddress c\<rparr>"

definition as_recorder :: "HKDVRParam_T \<Rightarrow> HKDVRParam_T \<Rightarrow> HKDVRParam_T" where
  "as_recorder p q = (let cs = used_cameras p; i = HkDvrInfo p in
     q\<lparr>HkDvrInfo := (HkDvrInfo q)\<lparr>wPort := wPort i, wChannel := wChannel i, sDvrName := sDvrName i, sDvrAddress := sDvrAddress i,
         sUserName := sUserName i, sPassword := sPassword i, sDvrSerialNumber := sDvrSerialNumber i\<rparr>,
       HkSdkParam := map2 as_camera cs (HkSdkParam q) @ drop (length cs) (HkSdkParam q)\<rparr>)"

lemma member_in: "distinct (names ms) \<Longrightarrow> (n, j) \<in> set ms \<Longrightarrow> member ms n = Some j"
proof (induction ms)
  case (Cons m ms)
  have "map c_tolower n \<in> set (names ms)" if "(n, j) \<in> set ms" using that by (force simp: names_def)
  then show ?case using Cons by (cases m) (auto simp: same_name_def)
qed simp

lemma item_text_member:
  assumes "member ms nm = Some (JStr t)" "text64 t"
  shows "item_text 64 (repr (JObj ms)) nm prev = Inr t"
proof -
  obtain b where "cJSON_GetObjectItemValueString (Some (repr (JObj ms))) (Some nm) (replicate 64 NUL) 64 = Inr (b, 0)"
    "text_of b = t" "NUL \<in> set b"
    using get_string_member [OF assms(1), of 64 "replicate 64 NUL"] assms(2) by (auto simp: text64_def)
  then show ?thesis by (simp add: item_text_def c_str_text del: repr.simps)
qed

lemma int_of_member: "member ms nm = Some (JNum i) \<Longrightarrow> int_of (repr (JObj ms)) nm = i"
  by (simp add: int_of_def get_int_member del: repr.simps) simp

lemma camera_names: "distinct (names (members (camera_fields c)))"
proof -
  have "names (members (camera_fields c)) = map (map c_tolower) [''queueid'', ''channel'', ''devicetype'', ''devicename'', ''deviceIP'']"
    by (simp add: camera_fields_def)
  moreover have "distinct (map (map c_tolower) [''queueid'', ''channel'', ''devicetype'', ''devicename'', ''deviceIP''])" by code_simp
  ultimately show ?thesis by (simp only:)
qed

lemma recorder_names: "distinct (names (recorder_members p))"
proof -
  have "names (recorder_members p) = map (map c_tolower)
      [''channels'', ''port'', ''Dvrname'', ''IPaddress'', ''username'', ''password'', ''serialnumber'', ''IPClist'']"
    by (simp add: recorder_members_def recorder_fields_def recorder_texts_def)
  moreover have "distinct (map (map c_tolower)
      [''channels'', ''port'', ''Dvrname'', ''IPaddress'', ''username'', ''password'', ''serialnumber'', ''IPClist''])" by code_simp
  ultimately show ?thesis by (simp only:)
qed

lemma pares_camera_json: "camera_ok c \<Longrightarrow> pares_camera (repr (camera_json c)) d = Inr (as_camera c d)"
proof -
  assume c: "camera_ok c"
  let ?ms = "members (camera_fields c)"
  have m: "member ?ms ''queueid'' = Some (JNum (sQueueID c))" "member ?ms ''channel'' = Some (JNum (sChannel c))"
    "member ?ms ''devicetype'' = Some (JNum (sDeviceType c))" "member ?ms ''devicename'' = Some (JStr (sDeviceName c))"
    "member ?ms ''deviceIP'' = Some (JStr (sDeviceAddress c))"
    by (rule member_in [OF camera_names], simp add: camera_fields_def)+
  show ?thesis using c m(1-3) [THEN int_of_member] item_text_member [OF m(4)] item_text_member [OF m(5)]
    by (simp add: camera_json_def pares_camera_def as_camera_def camera_ok_def del: repr.simps member_simps)
qed

lemma pares_cameras:
  "list_all camera_ok cs \<Longrightarrow> length cs \<le> length ds \<Longrightarrow>
   pares_into pares_camera (map (repr \<circ> camera_json) cs) ds = Inr (map2 as_camera cs ds @ drop (length cs) ds)"
proof (induction cs arbitrary: ds)
  case (Cons c cs)
  then show ?case by (cases ds) (simp_all add: pares_camera_json)
qed simp

lemma pares_recorder_json:
  assumes "recorder_ok p" "length (HkSdkParam q) = 64"
  shows "pares_recorder (repr (recorder_json p)) q = Inr (as_recorder p q)"
proof -
  let ?ms = "recorder_members p" let ?i = "HkDvrInfo p"
  have m: "member ?ms ''channels'' = Some (JNum (wChannel ?i))" "member ?ms ''port'' = Some (JNum (wPort ?i))"
    "member ?ms ''Dvrname'' = Some (JStr (sDvrName ?i))" "member ?ms ''IPaddress'' = Some (JStr (sDvrAddress ?i))"
    "member ?ms ''username'' = Some (JStr (sUserName ?i))" "member ?ms ''password'' = Some (JStr (sPassword ?i))"
    "member ?ms ''serialnumber'' = Some (JStr (sDvrSerialNumber ?i))" "member ?ms ''IPClist'' = Some (JArr (map camera_json (used_cameras p)))"
    by (rule member_in [OF recorder_names], simp add: recorder_members_def recorder_fields_def recorder_texts_def)+
  have ok: "text64 (sDvrName ?i)" "text64 (sDvrAddress ?i)" "text64 (sUserName ?i)" "text64 (sPassword ?i)" "text64 (sDvrSerialNumber ?i)"
    using assms(1) by (simp_all add: recorder_ok_def Let_def)
  obtain k where k: "cJSON_GetObjectItem (repr (JObj ?ms)) ''IPClist'' = Some (set_name (Some k) (repr (JArr (map camera_json (used_cameras p)))))"
    using repr_get [of ?ms "''IPClist''"] m(8) by auto
  have "length (used_cameras p) \<le> length (HkSdkParam q)" using assms by (auto simp: used_cameras_def recorder_ok_def Let_def)
  note c = pares_cameras [OF used_cameras_ok [OF assms(1)] this]
  have ch: "child (repr (JArr (map camera_json (used_cameras p)))) = map (repr \<circ> camera_json) (used_cameras p)" by simp
  show ?thesis unfolding recorder_json_def pares_recorder_def Let_def
    using m(1,2) [THEN int_of_member] item_text_member [OF m(3) ok(1)] item_text_member [OF m(4) ok(2)] item_text_member [OF m(5) ok(3)]
      item_text_member [OF m(6) ok(4)] item_text_member [OF m(7) ok(5)] c
    by (simp add: k ch as_recorder_def Let_def del: repr.simps)
qed

lemma pares_recorders:
  "list_all recorder_ok ps \<Longrightarrow> length ps \<le> length qs \<Longrightarrow> list_all (\<lambda>q. length (HkSdkParam q) = 64) qs \<Longrightarrow>
   pares_into pares_recorder (map (repr \<circ> recorder_json) ps) qs = Inr (map2 as_recorder ps qs @ drop (length ps) qs)"
proof (induction ps arbitrary: qs)
  case (Cons p ps)
  then show ?case by (cases qs) (simp_all add: pares_recorder_json)
qed simp

lemma get_recorder_list:
  "\<exists>k. cJSON_GetObjectItem (repr (list_json ps)) ''Dvrlist'' = Some (set_name (Some k) (repr (JArr (map recorder_json ps))))"
  using repr_get [of "[(''Dvrlist'', JArr (map recorder_json ps))]" "''Dvrlist''"] by (simp add: list_json_def)

lemma pares_list:
  assumes "list_all recorder_ok ps" "length ps \<le> length qs" "list_all (\<lambda>q. length (HkSdkParam q) = 64) qs"
  shows "JsonMapDvrInfoPares (Some (repr (list_json ps))) qs = Inr (map2 as_recorder ps qs @ drop (length ps) qs, KEY_TRUE)"
  using get_recorder_list [of ps] pares_recorders [OF assms]
  by (auto simp: JsonMapDvrInfoPares_def simp del: repr.simps) (simp add: comp_def)

section \<open>The list is keyed by serial numbers\<close>

definition stack_ok :: "HKDVRParam_T list \<Rightarrow> bool" where
  "stack_ok junk \<longleftrightarrow> length junk = 64 \<and> list_all (\<lambda>q. length (HkSdkParam q) = 64) junk"

definition stores :: "Conf_T \<Rightarrow> HKDVRParam_T list \<Rightarrow> bool" where
  "stores s ps \<longleftrightarrow> (\<exists>ms. conf_like s ms \<and> member ms D_CONFDVRLIST_STR = Some (list_json ps)) \<and> list_all recorder_ok ps \<and>
     distinct (map serial ps)"

definition has_serial :: "HKDVRParam_T list \<Rightarrow> string \<Rightarrow> bool" where
  "has_serial ps sn \<longleftrightarrow> sn \<in> set (map serial ps)"

definition put_recorder :: "HKDVRParam_T \<Rightarrow> HKDVRParam_T list \<Rightarrow> HKDVRParam_T list" where
  "put_recorder p ps = (if has_serial ps (serial p) then ps[entry_index ps (serial p) := p] else ps @ [p])"

lemma entry_index_serials: "entry_index ps sn = length (takeWhile (\<lambda>x. x \<noteq> sn) (map serial ps))"
  by (simp add: entry_index_def takeWhile_map comp_def)

lemma entry_index_found: "has_serial ps sn \<Longrightarrow> entry_index ps sn < length ps \<and> serial (ps ! entry_index ps sn) = sn"
  by (induction ps) (auto simp: has_serial_def entry_index_def)

lemma entry_index_absent: "\<not> has_serial ps sn \<Longrightarrow> entry_index ps sn = length ps"
  by (induction ps) (auto simp: has_serial_def entry_index_def)

lemma entry_index_append: "entry_index (ps @ qs) sn = (if has_serial ps sn then entry_index ps sn else length ps + entry_index qs sn)"
proof (induction ps)
  case (Cons p ps)
  then show ?case by (auto simp: entry_index_def has_serial_def)
qed (simp add: entry_index_def has_serial_def)

lemma serials_read: "length ps \<le> length qs \<Longrightarrow> map serial (map2 as_recorder ps qs) = map serial ps"
proof (induction ps arbitrary: qs)
  case (Cons p ps)
  then show ?case by (cases qs) (simp_all add: as_recorder_def Let_def)
qed simp

lemma index_read:
  assumes "length ps \<le> 64" "stack_ok junk" "\<not> has_serial ps sn \<longrightarrow> \<not> has_serial (drop (length ps) junk) sn"
  shows "entry_index (map2 as_recorder ps junk @ drop (length ps) junk) sn = (if has_serial ps sn then entry_index ps sn else 64)"
proof -
  have l: "length ps \<le> length junk" using assms(1,2) by (simp add: stack_ok_def)
  have "has_serial (map2 as_recorder ps junk) sn = has_serial ps sn" "entry_index (map2 as_recorder ps junk) sn = entry_index ps sn"
    using serials_read [OF l] by (simp_all add: has_serial_def entry_index_serials)
  then show ?thesis using assms l by (auto simp: entry_index_append entry_index_absent stack_ok_def)
qed

lemma change_stored_at:
  assumes st: "stores s ps" "length ps \<le> 64" "stack_ok junk"
    and i: "entry_index (map2 as_recorder ps junk @ drop (length ps) junk) sn = i"
    and f: "\<And>a. strip (f i (set_name (Some a) (repr (JArr (map recorder_json ps))))) =
      set_name (Some a) (repr (JArr (map recorder_json qs)))"
    and qs: "list_all recorder_ok qs" "distinct (map serial qs)"
  shows "\<exists>s'. change_list fd True junk f sn s = Some (Inr (s', KEY_TRUE)) \<and> stores s' qs"
proof -
  obtain ms where ms: "conf_like s ms" "member ms D_CONFDVRLIST_STR = Some (list_json ps)" and ok: "list_all recorder_ok ps"
    using st(1) by (auto simp: stores_def)
  have g: "ConfigManageGet fd (Some D_CONFDVRLIST_STR) s = Some (Inr (Some (repr (list_json ps))))"
    using get_stripped [OF ms(1)] ms(2) by simp
  have l: "length ps \<le> length junk" "list_all (\<lambda>q. length (HkSdkParam q) = 64) junk" using st(2,3) by (simp_all add: stack_ok_def)
  let ?a = "set_name (Some ''Dvrlist'') (repr (JArr (map recorder_json ps)))"
  have c: "child (repr (list_json ps)) = [?a]" by (simp add: list_json_def)
  have n: "name_index [?a] ''Dvrlist'' = Some 0" by (simp add: cJSON_strcasecmp_eq_def)
  let ?c = "set_child [f i ?a] (repr (list_json ps))"
  have "strip ?c = repr (list_json qs)" using f [of "''Dvrlist''"] by (simp add: list_json_def)
  moreover have "NUL \<notin> set D_CONFDVRLIST_STR" by (simp add: D_CONFDVRLIST_STR_def)
  ultimately obtain s' where s': "ConfigManageSet fd True (Some ?c) (Some D_CONFDVRLIST_STR) s = Inr (s', KEY_TRUE)"
    "conf_like s' (del_member ms D_CONFDVRLIST_STR @ [(D_CONFDVRLIST_STR, list_json qs)])"
    using set_stripped [OF ms(1), of ?c "list_json qs" D_CONFDVRLIST_STR fd] json_ok_list [OF qs(1)] by blast
  have "distinct (names ms)" using ms(1) by (simp add: conf_like_def conf_inv_def)
  then have "stores s' qs" using s'(2) qs by (auto simp: stores_def member_append member_del)
  then show ?thesis using g pares_list [OF ok l] s'(1)
    by (simp add: change_list_def c n i del: repr.simps set_child.simps)
qed

lemma change_stored:
  assumes "stores s ps" "length ps \<le> 64" "stack_ok junk" "\<not> has_serial ps sn \<longrightarrow> \<not> has_serial (drop (length ps) junk) sn"
    and "\<And>a. strip (f (if has_serial ps sn then entry_index ps sn else 64) (set_name (Some a) (repr (JArr (map recorder_json ps))))) =
      set_name (Some a) (repr (JArr (map recorder_json qs)))"
    and "list_all recorder_ok qs" "distinct (map serial qs)"
  shows "\<exists>s'. change_list fd True junk f sn s = Some (Inr (s', KEY_TRUE)) \<and> stores s' qs"
  by (rule change_stored_at [where f = f and qs = qs, OF assms(1-3) index_read [OF assms(2-4)] assms(5-7)])

lemma put_recorder_ok:
  assumes "list_all recorder_ok ps" "distinct (map serial ps)" "recorder_ok p"
  shows "list_all recorder_ok (put_recorder p ps)" "distinct (map serial (put_recorder p ps))"
    "find (\<lambda>q. serial q = n) (put_recorder p ps) = (if n = serial p then Some p else find (\<lambda>q. serial q = n) ps)"
proof -
  show "list_all recorder_ok (put_recorder p ps)"
    using assms(1,3) set_update_subset_insert [of ps "entry_index ps (serial p)" p] by (auto simp: put_recorder_def list_all_iff)
  have "map serial (put_recorder p ps) = (if has_serial ps (serial p) then map serial ps else map serial ps @ [serial p])"
  proof (cases "has_serial ps (serial p)")
    case True
    then have i: "entry_index ps (serial p) < length ps" "serial (ps ! entry_index ps (serial p)) = serial p"
      using entry_index_found by blast+
    have "(map serial ps)[entry_index ps (serial p) := serial p] = map serial ps"
      using i list_update_id [of "map serial ps" "entry_index ps (serial p)"] by simp
    then show ?thesis using True by (simp add: put_recorder_def map_update)
  qed (simp add: put_recorder_def)
  then show "distinct (map serial (put_recorder p ps))" using assms(2) by (simp add: has_serial_def)
  show "find (\<lambda>q. serial q = n) (put_recorder p ps) = (if n = serial p then Some p else find (\<lambda>q. serial q = n) ps)"
    using assms(2)
  proof (induction ps)
    case (Cons q ps)
    show ?case
    proof (cases "serial q = serial p")
      case True
      then show ?thesis by (simp add: put_recorder_def has_serial_def entry_index_def)
    next
      case False
      then have "put_recorder p (q # ps) = q # put_recorder p ps"
        by (auto simp: put_recorder_def has_serial_def entry_index_def)
      then show ?thesis using False Cons by auto
    qed
  qed (simp add: put_recorder_def has_serial_def)
qed

lemma add_recorder:
  assumes "stores s ps" "length ps \<le> 64" "stack_ok junk" "recorder_ok p"
    and "\<not> has_serial ps (serial p) \<longrightarrow> \<not> has_serial (drop (length ps) junk) (serial p)"
  shows "\<exists>s'. HkDvrListConfigAdd fd True junk p s = Some (Inr (s', KEY_TRUE)) \<and> stores s' (put_recorder p ps)"
proof -
  obtain x where x: "JsonMapDvrInfoMake p = Inr x" "strip x = repr (recorder_json p)" using make_recorder [OF assms(4)] by blast
  let ?f = "\<lambda>i a. if i \<ge> NET_DVR_MAX_LEN then cJSON_AddItemToArray a (Some x) else cJSON_ReplaceItemInArray a (int i) x"
  have ps: "list_all recorder_ok ps" "distinct (map serial ps)" using assms(1) by (simp_all add: stores_def)
  have nm: "set_name None (repr (recorder_json q)) = repr (recorder_json q)" for q by (simp add: recorder_json_def)
  have "strip (?f (if has_serial ps (serial p) then entry_index ps (serial p) else 64) (set_name (Some a) (repr (JArr (map recorder_json ps))))) =
      set_name (Some a) (repr (JArr (map recorder_json (put_recorder p ps))))" for a
  proof (cases "has_serial ps (serial p)")
    case True
    then have "entry_index ps (serial p) < length ps" using entry_index_found by blast
    then show ?thesis using True assms(2)
      by (simp add: put_recorder_def cJSON_ReplaceItemInArray_def map_update comp_def nm x(2) del: repr.simps(6))
  next
    case False
    then show ?thesis
      by (simp add: put_recorder_def cJSON_AddItemToArray_def comp_def nm x(2))
  qed
  from change_stored [where f = ?f, OF assms(1-3,5) this put_recorder_ok(1,2) [OF ps assms(4)]]
  show ?thesis by (simp add: HkDvrListConfigAdd_def x(1))
qed

text \<open>Changing a recorder that is there is the same as adding it.\<close>

lemma change_list_cong:
  assumes "stores s ps" "length ps \<le> 64" "stack_ok junk" "has_serial ps sn"
    and "f (entry_index ps sn) = g (entry_index ps sn)"
  shows "change_list fd w junk f sn s = change_list fd w junk g sn s"
proof -
  have l: "length ps \<le> length junk" "list_all (\<lambda>q. length (HkSdkParam q) = 64) junk" using assms(2,3) by (simp_all add: stack_ok_def)
  obtain ms where ms: "conf_like s ms" "member ms D_CONFDVRLIST_STR = Some (list_json ps)" and ok: "list_all recorder_ok ps"
    using assms(1) by (auto simp: stores_def)
  have i: "entry_index (map2 as_recorder ps junk @ drop (length ps) junk) sn = entry_index ps sn"
    using index_read [OF assms(2,3), of sn] assms(4) by simp
  have g: "ConfigManageGet fd (Some D_CONFDVRLIST_STR) s = Some (Inr (Some (repr (list_json ps))))"
    using get_stripped [OF ms(1)] ms(2) by simp
  note p = pares_list [OF ok l]
  show ?thesis unfolding change_list_def g by (simp only: run_bind_simps p prod.case i assms(5))
qed

lemma set_recorder:
  assumes "stores s ps" "length ps \<le> 64" "stack_ok junk" "recorder_ok p" "has_serial ps (serial p)"
  shows "HkDvrListConfigSet fd True junk p s = HkDvrListConfigAdd fd True junk p s"
proof -
  obtain x where x: "JsonMapDvrInfoMake p = Inr x" using make_recorder [OF assms(4)] by blast
  have "entry_index ps (serial p) < 64" using entry_index_found [OF assms(5)] assms(2) by simp
  then show ?thesis unfolding HkDvrListConfigSet_def HkDvrListConfigAdd_def x
    by (simp only: run_bind_simps) (rule change_list_cong [OF assms(1-3,5)], simp)
qed

lemma drop_entry:
  "distinct (map serial ps) \<Longrightarrow> has_serial ps sn \<Longrightarrow>
   take (entry_index ps sn) ps @ drop (Suc (entry_index ps sn)) ps = filter (\<lambda>q. serial q \<noteq> sn) ps"
proof (induction ps)
  case (Cons q ps)
  show ?case
  proof (cases "serial q = sn")
    case True
    have n: "sn \<notin> serial ` set ps" using Cons.prems(1) unfolding True [symmetric] by simp
    have "filter (\<lambda>q. serial q \<noteq> sn) ps = ps"
    proof (rule filter_True, rule ballI, rule notI)
      fix p assume "p \<in> set ps" "serial p = sn"
      then show False using n by (metis imageI)
    qed
    then show ?thesis using True by (simp add: entry_index_def)
  next
    case False
    then have "entry_index (q # ps) sn = Suc (entry_index ps sn)" "has_serial ps sn"
      using Cons.prems(2) by (auto simp: entry_index_def has_serial_def)
    then show ?thesis using False Cons.IH Cons.prems(1) by simp
  qed
qed (simp add: has_serial_def)

lemma del_recorder:
  assumes "stores s ps" "length ps \<le> 64" "stack_ok junk" "has_serial ps (serial p)"
  shows "\<exists>s'. HkDvrListConfigDel fd True junk p s = Some (Inr (s', KEY_TRUE)) \<and> stores s' (filter (\<lambda>q. serial q \<noteq> serial p) ps)"
proof -
  let ?i = "entry_index ps (serial p)" let ?qs = "filter (\<lambda>q. serial q \<noteq> serial p) ps"
  have ps: "list_all recorder_ok ps" "distinct (map serial ps)" using assms(1) by (simp_all add: stores_def)
  have i: "?i < length ps" "serial (ps ! ?i) = serial p" using entry_index_found [OF assms(4)] by simp_all
  have q: "take ?i ps @ drop (Suc ?i) ps = ?qs" by (rule drop_entry [OF ps(2) assms(4)])
  have nm: "set_name None (repr (recorder_json q)) = repr (recorder_json q)" for q by (simp add: recorder_json_def)
  have "strip (cJSON_DeleteItemFromArray (set_name (Some a) (repr (JArr (map recorder_json ps))))
      (int (if has_serial ps (serial p) then ?i else 64))) = set_name (Some a) (repr (JArr (map recorder_json ?qs)))" for a
    using i(1) assms(4) unfolding q [symmetric]
    by (simp add: cJSON_DeleteItemFromArray_def cJSON_DetachItemFromArray_def comp_def nm take_map drop_map)
  moreover have "list_all recorder_ok ?qs" "distinct (map serial ?qs)" using ps by (auto simp: list_all_iff distinct_map_filter)
  ultimately show ?thesis using change_stored [where f = "\<lambda>i a. cJSON_DeleteItemFromArray a (int i)" and qs = ?qs, OF assms(1-3), of "serial p" fd] assms(4)
    by (simp add: HkDvrListConfigDel_def del: repr.simps)
qed

lemma get_recorders:
  assumes "stores s ps" "length ps \<le> 64"
  shows "HkDvrListConfigGet fd w (replicate 64 null_recorder) s =
    Some (Inr (s, map (\<lambda>p. as_recorder p null_recorder) ps @ replicate (64 - length ps) null_recorder, KEY_TRUE))"
proof -
  obtain ms where ms: "conf_like s ms" "member ms D_CONFDVRLIST_STR = Some (list_json ps)" and ok: "list_all recorder_ok ps"
    using assms(1) by (auto simp: stores_def)
  have r: "map2 as_recorder ps (replicate (length ps + k) null_recorder) = map (\<lambda>p. as_recorder p null_recorder) ps" for k
    by (induction ps) auto
  have "length ps \<le> length (replicate 64 null_recorder)" "list_all (\<lambda>q. length (HkSdkParam q) = 64) (replicate 64 null_recorder)"
    using assms(2) by (simp_all add: list_all_length null_recorder_def)
  from pares_list [OF ok this] show ?thesis using r [of "64 - length ps"] assms(2) ms(2) get_stripped [OF ms(1)]
    by (simp add: HkDvrListConfigGet_def del: repr.simps)
qed

text \<open>
  The search also compares the entries that were not filled. When one of them holds the serial number by chance, a new recorder is
  not stored, though the call reports success.
\<close>

lemma stale_entry_loses_recorder:
  assumes "stores s ps" "length ps \<le> 64" "stack_ok junk" "recorder_ok p"
    and "\<not> has_serial ps (serial p)" "has_serial (drop (length ps) junk) (serial p)"
  shows "\<exists>s'. HkDvrListConfigAdd fd True junk p s = Some (Inr (s', KEY_TRUE)) \<and> stores s' ps"
proof -
  obtain x where x: "JsonMapDvrInfoMake p = Inr x" using make_recorder [OF assms(4)] by blast
  have ps: "list_all recorder_ok ps" "distinct (map serial ps)" using assms(1) by (simp_all add: stores_def)
  have l: "length ps \<le> length junk" "length junk = 64" using assms(2,3) by (simp_all add: stack_ok_def)
  let ?k = "entry_index (drop (length ps) junk) (serial p)"
  have k: "?k < 64 - length ps" using entry_index_found [OF assms(6)] l(2) by simp
  have r: "length (map2 as_recorder ps junk) = length ps" using l(1) by simp
  have "\<not> has_serial (map2 as_recorder ps junk) (serial p)" using assms(5) serials_read [OF l(1)] by (simp add: has_serial_def)
  then have i: "entry_index (map2 as_recorder ps junk @ drop (length ps) junk) (serial p) = length ps + ?k"
    unfolding entry_index_append r by simp
  let ?f = "\<lambda>i a. if i \<ge> NET_DVR_MAX_LEN then cJSON_AddItemToArray a (Some x) else cJSON_ReplaceItemInArray a (int i) x"
  have f: "strip (?f (length ps + ?k) (set_name (Some a) (repr (JArr (map recorder_json ps))))) =
      set_name (Some a) (repr (JArr (map recorder_json ps)))" for a
  proof -
    have "strip (set_name (Some a) (repr (JArr (map recorder_json ps)))) = set_name (Some a) (repr (JArr (map recorder_json ps)))"
      by (simp only: strip_set_name strip_repr)
    moreover have "\<not> NET_DVR_MAX_LEN \<le> length ps + ?k" using k by simp
    moreover have "cJSON_ReplaceItemInArray c (int (length ps + ?k)) x = c" if "length (child c) = length ps" for c
      using that by (simp add: cJSON_ReplaceItemInArray_def del: of_nat_add)
    ultimately show ?thesis by (simp del: of_nat_add repr.simps(6) strip.simps)
  qed
  show ?thesis using change_stored_at [where f = ?f, OF assms(1-3) i f ps] by (simp add: HkDvrListConfigAdd_def x)
qed

lemma default_recorders:
  assumes "conf_like s ms"
  shows "\<exists>s'. HkDvrListConfigDefault fd True s = Inr (s', KEY_TRUE) \<and> stores s' []"
proof -
  have c: "JsonMapDvrListInfoMake [null_recorder] 0 = Inr (repr (list_json []))"
    by (simp add: JsonMapDvrListInfoMake_def recorder_list_def list_json_def cJSON_CreateArray_def cJSON_CreateObject_def
        cJSON_AddItemToObject_def cJSON_AddItemToArray_def)
  have "json_ok (list_json [])" "NUL \<notin> set D_CONFDVRLIST_STR" by (simp_all add: list_json_def D_CONFDVRLIST_STR_def)
  then obtain s' where s': "ConfigManageSet fd True (Some (repr (list_json []))) (Some D_CONFDVRLIST_STR) s = Inr (s', KEY_TRUE)"
    "conf_like s' (del_member ms D_CONFDVRLIST_STR @ [(D_CONFDVRLIST_STR, list_json [])])"
    using set_stripped [OF assms strip_repr] by blast
  have "distinct (names ms)" using assms by (simp add: conf_like_def conf_inv_def)
  then have "stores s' []" using s'(2) by (auto simp: stores_def member_append member_del)
  then show ?thesis using s'(1) by (simp add: HkDvrListConfigDefault_def c del: repr.simps)
qed

section \<open>The list of recorders\<close>

lemma filter_put: "distinct (map serial ps) \<Longrightarrow>
    filter (\<lambda>q. serial q \<noteq> serial p) (put_recorder p ps) = filter (\<lambda>q. serial q \<noteq> serial p) ps"
proof (induction ps)
  case (Cons q ps)
  show ?case
  proof (cases "serial q = serial p")
    case True
    then show ?thesis by (simp add: put_recorder_def has_serial_def entry_index_def)
  next
    case False
    then have "put_recorder p (q # ps) = q # put_recorder p ps"
      by (auto simp: put_recorder_def has_serial_def entry_index_def)
    then show ?thesis using False Cons by simp
  qed
qed (simp add: put_recorder_def has_serial_def)

lemma has_put: "has_serial (put_recorder p ps) (serial p)"
proof (cases "has_serial ps (serial p)")
  case True
  then have "p \<in> set (ps[entry_index ps (serial p) := p])" using entry_index_found by (simp add: set_update_memI)
  then have "serial p \<in> serial ` set (ps[entry_index ps (serial p) := p])" by (rule imageI)
  then show ?thesis using True unfolding has_serial_def [of "put_recorder p ps"] by (simp add: put_recorder_def)
qed (simp add: put_recorder_def has_serial_def)

text \<open>
  C37. The configuration keeps one entry for each serial number. While there is room and the array on the stack does not hold the
  number already, storing a recorder succeeds; then a search by serial number finds this recorder, and for every other number what it
  found before. Reading the list into a cleared array gives back the stored fields of all recorders in order, and deleting the
  recorder leaves the others. When the array does hold the number, a recorder that is added is lost (\<open>stale_entry_loses_recorder\<close>).
\<close>

theorem recorder_config:
  assumes "stores s ps" "length ps < 64" "stack_ok junk" "recorder_ok p"
    and "\<not> has_serial ps (serial p) \<longrightarrow> \<not> has_serial (drop (length ps) junk) (serial p)"
  shows "\<exists>s1 qs. HkDvrListConfigAdd fd True junk p s = Some (Inr (s1, KEY_TRUE)) \<and> stores s1 qs \<and>
     (\<forall>n. find (\<lambda>q. serial q = n) qs = (if n = serial p then Some p else find (\<lambda>q. serial q = n) ps)) \<and>
     HkDvrListConfigGet fd w (replicate 64 null_recorder) s1 =
       Some (Inr (s1, map (\<lambda>q. as_recorder q null_recorder) qs @ replicate (64 - length qs) null_recorder, KEY_TRUE)) \<and>
     (\<exists>s2. HkDvrListConfigDel fd True junk p s1 = Some (Inr (s2, KEY_TRUE)) \<and> stores s2 (filter (\<lambda>q. serial q \<noteq> serial p) ps))"
proof -
  have ps: "list_all recorder_ok ps" "distinct (map serial ps)" using assms(1) by (simp_all add: stores_def)
  let ?qs = "put_recorder p ps"
  have l: "length ?qs \<le> 64" using assms(2) by (simp add: put_recorder_def)
  obtain s1 where s1: "HkDvrListConfigAdd fd True junk p s = Some (Inr (s1, KEY_TRUE))" "stores s1 ?qs"
    using add_recorder [OF assms(1) less_imp_le [OF assms(2)] assms(3-5)] by blast
  moreover note get_recorders [OF s1(2) l, of fd w]
  moreover obtain s2 where "HkDvrListConfigDel fd True junk p s1 = Some (Inr (s2, KEY_TRUE))"
    "stores s2 (filter (\<lambda>q. serial q \<noteq> serial p) ?qs)" using del_recorder [OF s1(2) l assms(3) has_put] by blast
  moreover note put_recorder_ok(3) [OF ps assms(4)]
  ultimately show ?thesis unfolding filter_put [OF ps(2)] by blast
qed

definition gate_recorder :: HKDVRParam_T where
  "gate_recorder = null_recorder\<lparr>HkDvrInfo := (HkDvrInfo null_recorder)\<lparr>sDvrSerialNumber := ''DS-7608'', wPort := 8000, wChannel := 1\<rparr>\<rparr>"

definition no_recorders :: Conf_T where
  "no_recorders = \<lparr>root = Some (repr (JObj [(D_CONFDVRLIST_STR, list_json [])])), conf_file = None\<rparr>"

lemma no_recorders: "stores no_recorders []"
proof -
  have "conf_like no_recorders [(D_CONFDVRLIST_STR, list_json [])]"
    unfolding conf_like_def stripped_def no_recorders_def by (simp add: conf_inv_def list_json_def D_CONFDVRLIST_STR_def names_def)
  then show ?thesis by (auto simp: stores_def)
qed

theorem recorder_config_witness:
  "\<exists>s1 qs. HkDvrListConfigAdd (\<lambda>_. []) True (replicate 64 null_recorder) gate_recorder no_recorders = Some (Inr (s1, KEY_TRUE)) \<and>
     find (\<lambda>q. serial q = ''DS-7608'') qs = Some gate_recorder \<and> stores s1 qs"
proof -
  have s: "serial gate_recorder = ''DS-7608''" by (simp add: gate_recorder_def)
  have ok: "recorder_ok gate_recorder" by code_simp
  have st: "stack_ok (replicate 64 null_recorder)" by (simp add: stack_ok_def list_all_length null_recorder_def)
  have n: "\<not> has_serial [] (serial gate_recorder) \<longrightarrow> \<not> has_serial (drop (length []) (replicate 64 null_recorder)) (serial gate_recorder)"
    by (simp add: has_serial_def null_recorder_def s)
  have l: "length ([] :: HKDVRParam_T list) < 64" by simp
  obtain s1 qs where r: "HkDvrListConfigAdd (\<lambda>_. []) True (replicate 64 null_recorder) gate_recorder no_recorders = Some (Inr (s1, KEY_TRUE))"
    "stores s1 qs" "\<forall>n. find (\<lambda>q. serial q = n) qs = (if n = serial gate_recorder then Some gate_recorder else find (\<lambda>q. serial q = n) [])"
    using recorder_config [OF no_recorders l st ok n, of "\<lambda>_. []" True] by blast
  have "find (\<lambda>q. serial q = ''DS-7608'') qs = Some gate_recorder" using r(3) by (simp add: s)
  with r(1,2) show ?thesis by blast
qed

end
