(* ===== verification/HkManage.thy ===== *)
theory HkManage
  imports DvrConfig JsonApi
begin

text \<open>
  Recorders that are logged in: \<^verbatim>\<open>src/Modules/HkSdkManage/hkManage.c\<close> from its line 1209 on, with the handlers of
  \<^verbatim>\<open>src/App/JsonAPI/jsonswitch.c\<close> and the parsers of \<^verbatim>\<open>src/ExtLibs/Config/jsonmap.c\<close> for recorders. The vendor's functions are
  arguments: what a login and the reading of a recorder's configuration return; the calls made to them are recorded.

  The lists hold pointers to records. \<open>HksdkDeviceAdd\<close> enters the addresses of two of its local variables; the lemmas show that every
  later use of the lists follows a pointer to a variable that is gone.
\<close>

section \<open>State\<close>

abbreviation (input) NET_NVR_MAX_NUM :: nat where "NET_NVR_MAX_NUM \<equiv> 48"

record DvrOpt_T =
  opt_channel :: int
  opt_queue :: int
  opt_serial :: string

record HkSdk_DeviceInfo =
  on_user :: int
  lhandle :: int
  lChannel :: "int list"
  lqueueId :: "int list"
  lRealPlayHandle :: "int list"
  lDvrSerialNumber :: string

record HksdkUser_T =
  addCameraCallBack :: bool
  delCameraCallBack :: bool

text \<open>The calls of the module to the outside.\<close>

datatype sdk_call = StopRealPlay int | StopListen int | Logout int | Cleanup
  | AddCamera nat DvrOpt_T | DelCamera nat DvrOpt_T | DisdroyQueue int

record HkSdk_T =
  dvr_list :: "nat list"
  dvr_objs :: "nat \<rightharpoonup> HKDVRParam_T"
  online_list :: "nat list"
  online_objs :: "nat \<rightharpoonup> HkSdk_DeviceInfo"
  hk_users :: "nat list"
  user_objs :: "nat \<rightharpoonup> HksdkUser_T"
  hk_conf :: Conf_T
  sdk_calls :: "sdk_call list"

section \<open>Queries\<close>

definition find_dvr :: "HkSdk_T \<Rightarrow> string \<Rightarrow> fault + nat" where
  "find_dvr s sn = reg_lookup (dvr_objs s) (\<lambda>p. serial p = sn) (dvr_list s)"

definition GetDeviceType :: "int \<Rightarrow> string \<Rightarrow> HkDeviceParam_T \<Rightarrow> HkSdk_T \<Rightarrow> fault + HkDeviceParam_T \<times> int" where
  "GetDeviceType channel sn info s = rbind (find_dvr s sn) (\<lambda>p.
     if p = 0 then Inr (info, KEY_FALSE)
     else rbind (obj_load (dvr_objs s) p) (\<lambda>d. case find (\<lambda>c. channel = sChannel c) (HkSdkParam d) of
         None \<Rightarrow> Inr (info, KEY_FALSE)
       | Some c \<Rightarrow> Inr (info\<lparr>sDeviceType := sDeviceType c, sDeviceName := sDeviceName c\<rparr>, KEY_TRUE)))"

text \<open>The records are copied to the entries of the caller's array from \<open>n\<close> on; it does not say how many there are.\<close>

fun copy_dvrs :: "(nat \<rightharpoonup> HKDVRParam_T) \<Rightarrow> nat list \<Rightarrow> HKDVRParam_T list \<Rightarrow> nat \<Rightarrow> fault + HKDVRParam_T list \<times> nat" where
  "copy_dvrs m [] ps n = Inr (ps, n)"
| "copy_dvrs m (v # vs) ps n =
     (if v = 0 then copy_dvrs m vs ps n
      else rbind (obj_load m v) (\<lambda>d. if n < length ps then copy_dvrs m vs (ps[n := d]) (n + 1) else Inl OutOfBounds))"

definition HksdkDeviceListGet :: "HKDVRParam_T list \<Rightarrow> HkSdk_T \<Rightarrow> fault + HKDVRParam_T list \<times> int" where
  "HksdkDeviceListGet ps s = rbind (copy_dvrs (dvr_objs s) (dvr_list s) ps 0) (\<lambda>(ps, n). Inr (ps, int n))"

text \<open>Cameras are compared by position; one whose channel is the same is taken over with all its members.\<close>

definition set_cameras :: "nat \<Rightarrow> HkDeviceParam_T list \<Rightarrow> HkDeviceParam_T list \<Rightarrow> fault + HkDeviceParam_T list" where
  "set_cameras n cs ds = (if n > length cs \<or> n > length ds then Inl OutOfBounds
     else Inr (map2 (\<lambda>c d. if sChannel c = sChannel d then d else c) (take n cs) (take n ds) @ drop n cs))"

definition HksdkDeviceListSet :: "(rat \<Rightarrow> string) \<Rightarrow> bool \<Rightarrow> HKDVRParam_T list \<Rightarrow> HKDVRParam_T \<Rightarrow> HkSdk_T \<Rightarrow> (HkSdk_T \<times> int) run" where
  "HksdkDeviceListSet fd w junk d s = run_bind (Some (find_dvr s (serial d))) (\<lambda>p.
     if p = 0 then Some (Inr (s, KEY_FALSE))
     else run_bind (Some (obj_load (dvr_objs s) p)) (\<lambda>x. let i = HkDvrInfo d in
       run_bind (Some (set_cameras (nat (wChannel i)) (HkSdkParam x) (HkSdkParam d))) (\<lambda>cs.
       let x = x\<lparr>HkDvrInfo := (HkDvrInfo x)\<lparr>wPort := wPort i, wChannel := wChannel i, sDvrAddress := sDvrAddress i, sUserName := sUserName i,
             sPassword := sPassword i, sDvrSerialNumber := sDvrSerialNumber i, sDvrName := sDvrName i\<rparr>, HkSdkParam := cs\<rparr>;
           s = s\<lparr>dvr_objs := (dvr_objs s)(p \<mapsto> x)\<rparr> in
       run_bind (HkDvrListConfigSet fd w junk x (hk_conf s)) (\<lambda>(c, _). Some (Inr (s\<lparr>hk_conf := c\<rparr>, KEY_TRUE))))))"

definition HKsdkDeviceAlarmGet ::
    "(rat \<Rightarrow> string) \<Rightarrow> bool \<Rightarrow> DeviceAlarmParam_T option \<Rightarrow> HkSdk_T \<Rightarrow> (HkSdk_T \<times> DeviceAlarmParam_T option \<times> int) run" where
  "HKsdkDeviceAlarmGet fd w a s = (case a of None \<Rightarrow> Some (Inr (s, None, KEY_FALSE))
     | Some _ \<Rightarrow> run_bind (HkDeviceAlarmConfigGet fd w a (hk_conf s)) (\<lambda>(c, a, _). Some (Inr (s\<lparr>hk_conf := c\<rparr>, a, KEY_TRUE))))"

definition HKsdkDeviceAlarmSet :: "(rat \<Rightarrow> string) \<Rightarrow> bool \<Rightarrow> DeviceAlarmParam_T option \<Rightarrow> HkSdk_T \<Rightarrow> (HkSdk_T \<times> int) run" where
  "HKsdkDeviceAlarmSet fd w a s = (case a of None \<Rightarrow> Some (Inr (s, KEY_FALSE))
     | Some _ \<Rightarrow> run_bind (HkDeviceAlarmConfigSet fd w a (hk_conf s)) (\<lambda>(c, _). Some (Inr (s\<lparr>hk_conf := c\<rparr>, KEY_TRUE))))"

section \<open>Adding a recorder\<close>

text \<open>
  \<open>HandleManagePostLoop\<close> over the registered users, with \<open>HksdkAddcameraFunc\<close> and \<open>HksdkDelcameraFunc\<close>: the users that
  have the function are called.
\<close>

definition HksdkAddcameraFunc :: "nat \<Rightarrow> HksdkUser_T \<Rightarrow> DvrOpt_T \<Rightarrow> sdk_call list" where
  "HksdkAddcameraFunc v u opt = (if addCameraCallBack u then [AddCamera v opt] else [])"

definition HksdkDelcameraFunc :: "nat \<Rightarrow> HksdkUser_T \<Rightarrow> DvrOpt_T \<Rightarrow> sdk_call list" where
  "HksdkDelcameraFunc v u opt = (if delCameraCallBack u then [DelCamera v opt] else [])"

fun post_users :: "(nat \<Rightarrow> HksdkUser_T \<Rightarrow> DvrOpt_T \<Rightarrow> sdk_call list) \<Rightarrow> (nat \<rightharpoonup> HksdkUser_T) \<Rightarrow> nat list \<Rightarrow> DvrOpt_T \<Rightarrow> fault + sdk_call list" where
  "post_users f m [] opt = Inr []"
| "post_users f m (v # vs) opt =
     (if v = 0 then post_users f m vs opt else rbind (obj_load m v) (\<lambda>u. rbind (post_users f m vs opt) (\<lambda>cs. Inr (f v u opt @ cs))))"

text \<open>
  What the vendor's functions and the media queue return: the login, the channels with their pairs of index bytes, the devices behind them
  with whether they are enabled and their addresses, the handles of the previews, the queues created, and the two face libraries.
\<close>

record sdk_login =
  login_user :: int
  login_serial :: string
  dwDChanNum :: int
  dwStartDChan :: int
  stream_ids :: "(int \<times> int) list"
  chan_enable :: "int list"
  dev_ip :: "string list"
  play_handle :: "int \<Rightarrow> int"
  new_queue :: "nat \<Rightarrow> int"
  fd_workers :: string
  fd_customer :: string

text \<open>
  One turn of the loop over the channels: the camera with its queue, channel and preview. \<open>None\<close> is the early return without a queue.
  The index of a channel without a device is \<open>-1\<close>, which is outside of the arrays.
\<close>

abbreviation (input) DEVICE_TYPE_Entrance :: int where "DEVICE_TYPE_Entrance \<equiv> 2"

definition add_channel ::
    "sdk_login \<Rightarrow> (nat \<rightharpoonup> HksdkUser_T) \<Rightarrow> nat list \<Rightarrow> nat \<Rightarrow> fault + ((HkDeviceParam_T \<times> int \<times> int \<times> int) option \<times> sdk_call list)" where
  "add_channel l m us i = (if i \<ge> length (stream_ids l) then Inl OutOfBounds else
     let (byIPID, byIPIDHigh) = stream_ids l ! i; k = byIPIDHigh * 256 + byIPID - 1 in
     if k < 0 \<or> k \<ge> int (length (chan_enable l)) \<or> k \<ge> int (length (dev_ip l)) \<or> i \<ge> NET_IPC_MAX_NUM then Inl OutOfBounds else
     let on = chan_enable l ! nat k;
         c = \<lparr>sOnline = on, sDeviceType = DEVICE_TYPE_Entrance, sChannel = int i + 1, sQueueID = 0, sDeviceName = ''chn_'' @ print_int (int i + 1),
              sDeviceAddress = dev_ip l ! nat k\<rparr> in
     if on \<noteq> 0 then
       (let q = new_queue l i in if q < 0 then Inr (None, []) else
        rbind (post_users HksdkAddcameraFunc m us \<lparr>opt_channel = int i + 1, opt_queue = q, opt_serial = login_serial l\<rparr>) (\<lambda>cs.
        Inr (Some (c\<lparr>sQueueID := q\<rparr>, int i + 1, q, play_handle l (dwStartDChan l + int i)), cs)))
     else Inr (Some (c\<lparr>sQueueID := - 1\<rparr>, - 1, - 1, - 1), []))"

fun add_channels ::
    "sdk_login \<Rightarrow> (nat \<rightharpoonup> HksdkUser_T) \<Rightarrow> nat list \<Rightarrow> nat list \<Rightarrow> fault + ((HkDeviceParam_T \<times> int \<times> int \<times> int) list option \<times> sdk_call list)" where
  "add_channels l m us [] = Inr (Some [], [])"
| "add_channels l m us (i # is) = rbind (add_channel l m us i) (\<lambda>(c, cs). case c of None \<Rightarrow> Inr (None, cs)
     | Some c \<Rightarrow> rbind (add_channels l m us is) (\<lambda>(r, cs'). Inr (map_option (\<lambda>r. c # r) r, cs @ cs')))"

definition pad_to :: "nat \<Rightarrow> 'a \<Rightarrow> 'a list \<Rightarrow> 'a list" where
  "pad_to n x xs = xs @ replicate (n - length xs) x"

definition login_recorder :: "sdk_login \<Rightarrow> HKDVRParam_T \<Rightarrow> HkDeviceParam_T list \<Rightarrow> HKDVRParam_T" where
  "login_recorder l d cs = (let i = HkDvrInfo d in
     \<lparr>HkDvrInfo = \<lparr>wPort = wPort i, wChannel = dwDChanNum l, wStartDChan = dwStartDChan l, lUserID = 0, sUserName = sUserName i,
        sPassword = sPassword i, sDvrAddress = sDvrAddress i, sDvrName = sDvrName i, sDvrSerialNumber = login_serial l,
        IWorkersFPID = fd_workers l, ICustomerFPID = fd_customer l\<rparr>, HkSdkParam = pad_to NET_IPC_MAX_NUM null_camera cs\<rparr>)"

text \<open>
  The addresses of the local variables \<^verbatim>\<open>HkDvrInfo\<close> and \<^verbatim>\<open>dvrInfo\<close> are \<open>a\<close> and \<open>b\<close>; they are entered into the lists, and the
  variables end with the function. The handle of the alarm channel is not stored: the stored one is still -1.
\<close>

definition HksdkDeviceAdd ::
    "(rat \<Rightarrow> string) \<Rightarrow> bool \<Rightarrow> HKDVRParam_T list \<Rightarrow> sdk_login \<Rightarrow> nat \<Rightarrow> nat \<Rightarrow> HKDVRParam_T \<Rightarrow> HkSdk_T \<Rightarrow> (HkSdk_T \<times> int) run" where
  "HksdkDeviceAdd fd w junk l a b d s =
     (if login_user l < 0 then Some (Inr (s\<lparr>sdk_calls := sdk_calls s @ [Cleanup]\<rparr>, KEY_FALSE))
      else run_bind (Some (find_dvr s (serial d))) (\<lambda>p.
        if p \<noteq> 0 then Some (Inr (s, KEY_TRUE))
        else run_bind (Some (add_channels l (user_objs s) (hk_users s) [0..<nat (dwDChanNum l)])) (\<lambda>(r, cs).
        let s = s\<lparr>sdk_calls := sdk_calls s @ cs\<rparr> in
        case r of None \<Rightarrow> Some (Inr (s, KEY_FALSE))
        | Some rs \<Rightarrow>
          let x = login_recorder l d (map fst rs);
              o' = \<lparr>on_user = login_user l, lhandle = - 1, lChannel = pad_to NET_IPC_MAX_NUM 0 (map (fst \<circ> snd) rs),
                   lqueueId = pad_to NET_IPC_MAX_NUM 0 (map (fst \<circ> snd \<circ> snd) rs),
                   lRealPlayHandle = pad_to NET_IPC_MAX_NUM 0 (map (snd \<circ> snd \<circ> snd) rs), lDvrSerialNumber = login_serial l\<rparr>;
              s = s\<lparr>online_list := online_list s @ [b], online_objs := (online_objs s)(b \<mapsto> o'),
                   dvr_list := dvr_list s @ [a], dvr_objs := (dvr_objs s)(a \<mapsto> x)\<rparr> in
          run_bind (Some (obj_load (dvr_objs s) (hd (dvr_list s)))) (\<lambda>_.
          run_bind (HkDvrListConfigAdd fd w junk x (hk_conf s)) (\<lambda>(c, _).
          Some (Inr (s\<lparr>hk_conf := c, online_objs := (online_objs s)(b := None), dvr_objs := (dvr_objs s)(a := None)\<rparr>, KEY_TRUE)))))))"

section \<open>Removing a recorder\<close>

text \<open>
  Previews and queues of all 64 channels are closed, where the handle is not negative; the channels that a recorder does not have
  hold zeros.
\<close>

fun close_channels ::
    "(DvrOpt_T \<Rightarrow> fault + sdk_call list) \<Rightarrow> string \<Rightarrow> (int \<times> int \<times> int) list \<Rightarrow> fault + sdk_call list" where
  "close_channels post sn [] = Inr []"
| "close_channels post sn ((cn, q, h) # xs) =
     rbind (if q \<ge> 0 then rbind (post \<lparr>opt_channel = cn, opt_queue = q, opt_serial = sn\<rparr>) (\<lambda>cs. Inr (cs @ [DisdroyQueue q])) else Inr []) (\<lambda>cs.
     rbind (close_channels post sn xs) (\<lambda>ds. Inr ((if h \<ge> 0 then [StopRealPlay h] else []) @ cs @ ds)))"

definition channels_of :: "HkSdk_DeviceInfo \<Rightarrow> (int \<times> int \<times> int) list" where
  "channels_of x = zip (lChannel x) (zip (lqueueId x) (lRealPlayHandle x))"

definition HksdkDeviceDel :: "(rat \<Rightarrow> string) \<Rightarrow> bool \<Rightarrow> HKDVRParam_T list \<Rightarrow> HKDVRParam_T \<Rightarrow> HkSdk_T \<Rightarrow> (HkSdk_T \<times> int) run" where
  "HksdkDeviceDel fd w junk d s = run_bind (Some (find_dvr s (serial d))) (\<lambda>p.
     if p = 0 then Some (Inr (s, KEY_FALSE))
     else let s = s\<lparr>dvr_list := remove1 p (dvr_list s)\<rparr> in
       run_bind (Some (reg_lookup (online_objs s) (\<lambda>x. lDvrSerialNumber x = serial d) (online_list s))) (\<lambda>q.
       if q = 0 then Some (Inr (s, KEY_FALSE))
       else run_bind (Some (obj_load (online_objs s) q)) (\<lambda>x.
         run_bind (Some (close_channels (post_users HksdkDelcameraFunc (user_objs s) (hk_users s)) (lDvrSerialNumber x) (channels_of x))) (\<lambda>cs.
         run_bind (HkDvrListConfigDel fd w junk d (hk_conf s)) (\<lambda>(c, _).
         Some (Inr (s\<lparr>sdk_calls := sdk_calls s @ cs @ [StopListen (lhandle x), Logout (on_user x), Cleanup],
             online_list := remove1 q (online_list s), hk_conf := c\<rparr>, KEY_TRUE)))))))"

fun uninit_all :: "(nat \<rightharpoonup> HkSdk_DeviceInfo) \<Rightarrow> nat list \<Rightarrow> fault + sdk_call list" where
  "uninit_all m [] = Inr []"
| "uninit_all m (v # vs) = rbind (obj_load m v) (\<lambda>x.
     rbind (close_channels (\<lambda>_. Inr []) (lDvrSerialNumber x) (channels_of x)) (\<lambda>cs.
     rbind (uninit_all m vs) (\<lambda>ds. Inr (cs @ [StopListen (lhandle x), Logout (on_user x), Cleanup] @ ds))))"

definition HkSdkUnInit :: "HkSdk_T \<Rightarrow> fault + HkSdk_T \<times> int" where
  "HkSdkUnInit s = rbind (uninit_all (online_objs s) (online_list s)) (\<lambda>cs. Inr (s\<lparr>sdk_calls := sdk_calls s @ cs\<rparr>, KEY_TRUE))"

section \<open>Starting and stopping\<close>

definition HksdkManageRegistHandle :: "nat \<Rightarrow> HkSdk_T \<Rightarrow> fault + HkSdk_T \<times> int" where
  "HksdkManageRegistHandle h s = (if h = 0 then Inr (s, KEY_FALSE)
     else rbind (obj_load (user_objs s) h) (\<lambda>u.
       if \<not> addCameraCallBack u \<or> \<not> delCameraCallBack u then Inr (s, KEY_TRUE)
       else Inr (s\<lparr>hk_users := hk_users s @ [h]\<rparr>, KEY_TRUE)))"

definition HksdkManageUnRegistHandle :: "nat \<Rightarrow> HkSdk_T \<Rightarrow> fault + HkSdk_T \<times> int" where
  "HksdkManageUnRegistHandle h s = (if h = 0 then Inr (s, KEY_FALSE)
     else rbind (obj_load (user_objs s) h) (\<lambda>_. Inr (s\<lparr>hk_users := remove1 h (hk_users s)\<rparr>, KEY_TRUE)))"

text \<open>
  The program logs in to one recorder with an address, a name and a password from the source. The three literals are copied with 64
  bytes each, from behind their ends too; nothing reads what is behind the NUL.
\<close>

definition built_in :: HKDVRParam_T where
  "built_in = null_recorder\<lparr>HkDvrInfo := (HkDvrInfo null_recorder)\<lparr>wPort := 8000, sDvrAddress := ''10.67.1.68'', sUserName := ''admin'',
     sPassword := ''gaozhi2014''\<rparr>\<rparr>"

definition built_in_serial :: string where
  "built_in_serial = ''iDS-9608NX-I8/FA0820210111CCRRF40231916WCVU''"

definition HksdkApiInit ::
    "(rat \<Rightarrow> string) \<Rightarrow> bool \<Rightarrow> HKDVRParam_T list \<Rightarrow> sdk_login \<Rightarrow> nat \<Rightarrow> nat \<Rightarrow> nat \<Rightarrow> HkSdk_T \<Rightarrow> (HkSdk_T \<times> int) run" where
  "HksdkApiInit fd w junk l a b h s =
     run_bind (HksdkDeviceAdd fd w junk l a b built_in (s\<lparr>online_list := [], dvr_list := []\<rparr>)) (\<lambda>(s, _).
     run_bind (Some (reg_lookup (online_objs s) (\<lambda>x. lDvrSerialNumber x = built_in_serial) (online_list s))) (\<lambda>p.
     run_bind (if p = 0 then Some (Inr ()) else run_bind (Some (obj_load (online_objs s) p)) (\<lambda>_. Some (Inr ()))) (\<lambda>_.
     run_bind (Some (HksdkManageRegistHandle h s)) (\<lambda>(s, _). Some (Inr (s, KEY_TRUE))))))"

definition HksdkApiUnInit :: "nat \<Rightarrow> HkSdk_T \<Rightarrow> fault + HkSdk_T \<times> int" where
  "HksdkApiUnInit h s = rbind (HkSdkUnInit s) (\<lambda>(s, _). rbind (HksdkManageUnRegistHandle h s) (\<lambda>(s, _). Inr (s, KEY_TRUE)))"

section \<open>Requests\<close>

text \<open>An absent text leaves the cleared text of the caller.\<close>

definition JsonMapsdkDeviceAddInfoPares :: "cJSON option \<Rightarrow> HKDVRParam_T \<Rightarrow> fault + HKDVRParam_T \<times> int" where
  "JsonMapsdkDeviceAddInfoPares c p = (case c of None \<Rightarrow> Inr (p, KEY_FALSE)
     | Some d \<Rightarrow> let i = HkDvrInfo p in
       rbind (item_text 64 d ''dvrname'' (sDvrName i)) (\<lambda>n. rbind (item_text 64 d ''username'' (sUserName i)) (\<lambda>u.
       rbind (item_text 64 d ''password'' (sPassword i)) (\<lambda>x. rbind (item_text 64 d ''ipaddress'' (sDvrAddress i)) (\<lambda>a.
       Inr (p\<lparr>HkDvrInfo := i\<lparr>wPort := int_of d ''port'', sDvrName := n, sUserName := u, sPassword := x, sDvrAddress := a\<rparr>\<rparr>, KEY_TRUE))))))"

definition JsonMapsdkDeviceDelInfoPares :: "cJSON option \<Rightarrow> HKDVRParam_T \<Rightarrow> fault + HKDVRParam_T \<times> int" where
  "JsonMapsdkDeviceDelInfoPares c p = (case c of None \<Rightarrow> Inr (p, KEY_FALSE)
     | Some d \<Rightarrow> rbind (item_text 64 d ''sdvrserialnumber'' (serial p)) (\<lambda>t.
       Inr (p\<lparr>HkDvrInfo := (HkDvrInfo p)\<lparr>sDvrSerialNumber := t\<rparr>\<rparr>, KEY_TRUE)))"

record DvrParam_T =
  dp_name :: string
  dp_serial :: string

record IpcamParam_T =
  ip_channel :: int
  ip_devicetype :: int
  ip_name :: string
  ip_serial :: string

definition JsonMapsdkDeviceSetInfoPares :: "cJSON option \<Rightarrow> DvrParam_T \<Rightarrow> fault + DvrParam_T \<times> int" where
  "JsonMapsdkDeviceSetInfoPares c i = (case c of None \<Rightarrow> Inr (i, KEY_FALSE)
     | Some d \<Rightarrow> rbind (item_text 64 d ''dvrname'' (dp_name i)) (\<lambda>n. rbind (item_text 64 d ''serialnumber'' (dp_serial i)) (\<lambda>t.
       Inr (i\<lparr>dp_name := n, dp_serial := t\<rparr>, KEY_TRUE))))"

definition JsonMapsdkIpcamSetInfoPares :: "cJSON option \<Rightarrow> IpcamParam_T \<Rightarrow> fault + IpcamParam_T \<times> int" where
  "JsonMapsdkIpcamSetInfoPares c i = (case c of None \<Rightarrow> Inr (i, KEY_FALSE)
     | Some d \<Rightarrow> rbind (item_text 64 d ''devicename'' (ip_name i)) (\<lambda>n. rbind (item_text 64 d ''serialnumber'' (ip_serial i)) (\<lambda>t.
       Inr (i\<lparr>ip_channel := int_of d ''channel'', ip_devicetype := int_of d ''devicetype'', ip_name := n, ip_serial := t\<rparr>, KEY_TRUE))))"

type_synonym hk_handler = "AdpAPIHandle_T \<Rightarrow> cJSON option \<Rightarrow> cJSON \<Rightarrow> HkSdk_T \<Rightarrow> (HkSdk_T \<times> cJSON \<times> int) run"

definition FunsdkDeviceAdd :: "(rat \<Rightarrow> string) \<Rightarrow> bool \<Rightarrow> HKDVRParam_T list \<Rightarrow> sdk_login \<Rightarrow> nat \<Rightarrow> nat \<Rightarrow> hk_handler" where
  "FunsdkDeviceAdd fd w junk l a b h data resp s =
     (if ''pHksdkDeviceAdd'' \<notin> set (granted h) \<or> data = None then Some (Inr (s, resp, KEY_FALSE))
      else run_bind (Some (JsonMapsdkDeviceAddInfoPares data null_recorder)) (\<lambda>(d, _).
        run_bind (HksdkDeviceAdd fd w junk l a b d s) (\<lambda>(s, r). Some (Inr (s, resp, r)))))"

definition FunsdkDeviceDel :: "(rat \<Rightarrow> string) \<Rightarrow> bool \<Rightarrow> HKDVRParam_T list \<Rightarrow> hk_handler" where
  "FunsdkDeviceDel fd w junk h data resp s =
     (if ''pHksdkDeviceDel'' \<notin> set (granted h) \<or> data = None then Some (Inr (s, resp, KEY_FALSE))
      else run_bind (Some (JsonMapsdkDeviceDelInfoPares data null_recorder)) (\<lambda>(d, _).
        run_bind (HksdkDeviceDel fd w junk d s) (\<lambda>(s, r). Some (Inr (s, resp, r)))))"

definition FunsdkDeviceListGet :: hk_handler where
  "FunsdkDeviceListGet h data resp s =
     (if ''pHksdkDeviceListGet'' \<notin> set (granted h) then Some (Inr (s, resp, KEY_FALSE))
      else run_bind (Some (HksdkDeviceListGet (replicate NET_NVR_MAX_NUM null_recorder) s)) (\<lambda>(ps, num).
        if num > 0 then run_bind (Some (JsonMapGetsdkDeviceList ps num)) (\<lambda>c. Some (Inr (s, cJSON_AddItemToObject resp ''data'' c, KEY_TRUE)))
        else Some (Inr (s, resp, KEY_TRUE))))"

text \<open>The array of the next two is not cleared; it holds \<open>u\<close> before. Both test only one of the two entries they call.\<close>

definition listed :: "AdpAPIHandle_T \<Rightarrow> HKDVRParam_T list \<Rightarrow> HkSdk_T \<Rightarrow> fault + HKDVRParam_T list" where
  "listed h u s = (if ''pHksdkDeviceListGet'' \<notin> set (granted h) then Inl NullDeref
     else rbind (HksdkDeviceListGet u s) (\<lambda>(ps, num). Inr (take (nat num) ps)))"

definition FunsdkDeviceListSet :: "(rat \<Rightarrow> string) \<Rightarrow> bool \<Rightarrow> HKDVRParam_T list \<Rightarrow> HKDVRParam_T list \<Rightarrow> hk_handler" where
  "FunsdkDeviceListSet fd w junk u h data resp s =
     (if ''pHksdkDeviceListSet'' \<notin> set (granted h) \<or> data = None then Some (Inr (s, resp, KEY_FALSE))
      else run_bind (Some (listed h u s)) (\<lambda>ps.
        run_bind (Some (JsonMapsdkDeviceSetInfoPares data \<lparr>dp_name = [], dp_serial = []\<rparr>)) (\<lambda>(i, _).
        case find (\<lambda>p. serial p = dp_serial i) ps of None \<Rightarrow> Some (Inr (s, resp, KEY_FALSE))
        | Some p \<Rightarrow> run_bind (HksdkDeviceListSet fd w junk (p\<lparr>HkDvrInfo := (HkDvrInfo p)\<lparr>sDvrName := dp_name i\<rparr>\<rparr>) s) (\<lambda>(s, r).
            Some (Inr (s, resp, r))))))"

text \<open>The first camera with the channel, among the recorders with the serial number in turn.\<close>

fun set_camera :: "IpcamParam_T \<Rightarrow> HKDVRParam_T list \<Rightarrow> fault + HKDVRParam_T option" where
  "set_camera i [] = Inr None"
| "set_camera i (p # ps) =
     (if serial p \<noteq> ip_serial i then set_camera i ps
      else let n = nat (wChannel (HkDvrInfo p)); j = length (takeWhile (\<lambda>c. sChannel c \<noteq> ip_channel i) (take n (HkSdkParam p))) in
        if j < n \<and> j < length (HkSdkParam p) then
          Inr (Some (p\<lparr>HkSdkParam := (HkSdkParam p)[j := (HkSdkParam p ! j)\<lparr>sDeviceType := ip_devicetype i, sDeviceName := ip_name i\<rparr>],
            HkDvrInfo := (HkDvrInfo p)\<lparr>sDvrSerialNumber := ip_serial i\<rparr>\<rparr>))
        else if n > length (HkSdkParam p) then Inl OutOfBounds else set_camera i ps)"

definition FunsdkDeviceipcamSet :: "(rat \<Rightarrow> string) \<Rightarrow> bool \<Rightarrow> HKDVRParam_T list \<Rightarrow> HKDVRParam_T list \<Rightarrow> hk_handler" where
  "FunsdkDeviceipcamSet fd w junk u h data resp s =
     (if ''pHksdkDeviceListSet'' \<notin> set (granted h) \<or> data = None then Some (Inr (s, resp, KEY_FALSE))
      else run_bind (Some (listed h u s)) (\<lambda>ps.
        run_bind (Some (JsonMapsdkIpcamSetInfoPares data \<lparr>ip_channel = 0, ip_devicetype = 0, ip_name = [], ip_serial = []\<rparr>)) (\<lambda>(i, _).
        run_bind (Some (set_camera i ps)) (\<lambda>r. case r of None \<Rightarrow> Some (Inr (s, resp, KEY_FALSE))
        | Some p \<Rightarrow> run_bind (HksdkDeviceListSet fd w junk p s) (\<lambda>(s, r). Some (Inr (s, resp, r)))))))"

definition FunsdkDeviceAlarmGet :: "(rat \<Rightarrow> string) \<Rightarrow> bool \<Rightarrow> hk_handler" where
  "FunsdkDeviceAlarmGet fd w h data resp s =
     (if ''pHKsdkDeviceAlarmGet'' \<notin> set (granted h) then Some (Inr (s, resp, KEY_FALSE))
      else run_bind (HKsdkDeviceAlarmGet fd w (Some \<lparr>smokeLev = 0, hightempLev = 0\<rparr>) s) (\<lambda>(s, a, r).
        if r \<noteq> KEY_TRUE then Some (Inr (s, resp, KEY_FALSE))
        else case a of None \<Rightarrow> Some (Inl NullDeref)
        | Some a \<Rightarrow> run_bind (Some (JsonMapsdkDeviceAlarmGetMake a)) (\<lambda>c. Some (Inr (s, cJSON_AddItemToObject resp ''data'' c, KEY_TRUE)))))"

definition FunsdkDeviceAlarmSet :: "(rat \<Rightarrow> string) \<Rightarrow> bool \<Rightarrow> hk_handler" where
  "FunsdkDeviceAlarmSet fd w h data resp s =
     (if ''pHKsdkDeviceAlarmSet'' \<notin> set (granted h) \<or> data = None then Some (Inr (s, resp, KEY_FALSE))
      else run_bind (Some (JsonMapsdkDeviceAlarmSetPares data)) (\<lambda>(a, r).
        if r \<noteq> KEY_TRUE then Some (Inr (s, resp, KEY_FALSE))
        else run_bind (HKsdkDeviceAlarmSet fd w a s) (\<lambda>(s, r).
          Some (Inr (s, resp, if r \<noteq> KEY_TRUE then KEY_FALSE else KEY_TRUE)))))"

section \<open>Lists of live records\<close>

lemma copy_dvrs_live:
  assumes "reg_ok m vs" "n + length vs \<le> length ps"
  shows "copy_dvrs m vs ps n = Inr (take n ps @ reg_recs m vs @ drop (n + length vs) ps, n + length vs)"
  using assms
proof (induction vs arbitrary: ps n)
  case (Cons v vs)
  then obtain d where d: "m v = Some d" "v \<noteq> 0" "reg_ok m vs" by (auto simp: reg_ok_def)
  have n: "n < length ps" "Suc n + length vs \<le> length (ps[n := d])" using Cons.prems(2) by simp_all
  have "take (Suc n) (ps[n := d]) = take n ps @ [d]" using n(1) by (simp add: take_Suc_conv_app_nth)
  then show ?case using Cons.IH [OF d(3) n(2)] d n(1) by (simp add: reg_recs_def)
qed (simp add: reg_recs_def)

text \<open>A list whose records are live is read in order.\<close>

lemma list_get_live:
  assumes "reg_ok (dvr_objs s) (dvr_list s)" "length (dvr_list s) \<le> length ps"
  shows "HksdkDeviceListGet ps s = Inr (reg_recs (dvr_objs s) (dvr_list s) @ drop (length (dvr_list s)) ps, int (length (dvr_list s)))"
  using copy_dvrs_live [of "dvr_objs s" "dvr_list s" 0 ps] assms by (simp add: HksdkDeviceListGet_def)

text \<open>The array of the front end's list has 48 entries.\<close>

lemma copy_dvrs_overruns:
  "reg_ok m vs \<Longrightarrow> n \<le> length ps \<Longrightarrow> length ps < n + length vs \<Longrightarrow> copy_dvrs m vs ps n = Inl OutOfBounds"
proof (induction vs arbitrary: ps n)
  case (Cons v vs)
  then obtain d where "m v = Some d" "v \<noteq> 0" "reg_ok m vs" by (auto simp: reg_ok_def)
  then show ?case using Cons.IH [of "n + 1" "ps[n := d]"] Cons.prems(2,3) by simp
qed simp

section \<open>Closing a recorder\<close>

lemma close_channels_all:
  "close_channels post sn xs = Inr ds \<Longrightarrow> (cn, q, h) \<in> set xs \<Longrightarrow>
   (0 \<le> q \<longrightarrow> DisdroyQueue q \<in> set ds) \<and> (0 \<le> h \<longrightarrow> StopRealPlay h \<in> set ds)"
proof (induction xs arbitrary: ds)
  case (Cons x xs)
  obtain cn' q' h' where x: "x = (cn', q', h')" using prod_cases3 by blast
  with Cons.prems(1) obtain cs es where c: "(if q' \<ge> 0 then rbind (post \<lparr>opt_channel = cn', opt_queue = q', opt_serial = sn\<rparr>)
      (\<lambda>cs. Inr (cs @ [DisdroyQueue q'])) else Inr []) = Inr cs" "close_channels post sn xs = Inr es"
    "ds = (if h' \<ge> 0 then [StopRealPlay h'] else []) @ cs @ es" by (auto simp: outcome_iff)
  have "0 \<le> q' \<longrightarrow> DisdroyQueue q' \<in> set cs" using c(1) by (auto simp: outcome_iff split: if_splits)
  then show ?case using Cons.IH [OF c(2)] Cons.prems(2) c(3) x by auto
qed simp

text \<open>
  The arrays of a recorder with fewer than 64 channels end with zeros, which are valid numbers: removing it closes preview 0 and destroys
  queue 0, whichever recorder they belong to.
\<close>

lemma unused_channels_close_0:
  assumes "lChannel x = pad_to 64 0 as" "lqueueId x = pad_to 64 0 bs" "lRealPlayHandle x = pad_to 64 0 cs"
    and "length as = n" "length bs = n" "length cs = n" "n < 64"
    and "close_channels post sn (channels_of x) = Inr ds"
  shows "DisdroyQueue 0 \<in> set ds" "StopRealPlay 0 \<in> set ds"
proof -
  have "(0, 0, 0) \<in> set (channels_of x)"
    using assms(1-7) by (auto simp: channels_of_def pad_to_def in_set_zip nth_append intro!: exI [of _ n])
  from close_channels_all [OF assms(8) this] show "DisdroyQueue 0 \<in> set ds" "StopRealPlay 0 \<in> set ds" by simp_all
qed

section \<open>Pointers to variables that are gone\<close>

text \<open>A stale pointer at the head of a list stops every use of it.\<close>

definition stale :: "HkSdk_T \<Rightarrow> bool" where
  "stale s \<longleftrightarrow> (\<exists>v vs. dvr_list s = v # vs \<and> v \<noteq> 0 \<and> dvr_objs s v = None)"

lemma stale_load: "v \<noteq> 0 \<Longrightarrow> m v = None \<Longrightarrow> obj_load m v = Inl BadPointer"
  by (simp add: obj_load_def)

lemma stale_find: "stale s \<Longrightarrow> find_dvr s sn = Inl BadPointer"
  by (auto simp: stale_def find_dvr_def stale_load)

lemma stale_uses:
  assumes "stale s"
  shows "HksdkDeviceListGet ps s = Inl BadPointer" "HksdkDeviceListSet fd w junk d s = Some (Inl BadPointer)"
    "HksdkDeviceDel fd w junk d s = Some (Inl BadPointer)" "GetDeviceType cn sn info s = Inl BadPointer"
    "0 \<le> login_user l \<Longrightarrow> HksdkDeviceAdd fd w junk l a b d s = Some (Inl BadPointer)"
proof -
  show "HksdkDeviceListGet ps s = Inl BadPointer" using assms by (auto simp: stale_def HksdkDeviceListGet_def stale_load)
qed (simp_all add: stale_find [OF assms] HksdkDeviceListSet_def HksdkDeviceDel_def GetDeviceType_def HksdkDeviceAdd_def)

lemma add_first:
  assumes "HksdkDeviceAdd fd w junk l a b d s = Some (Inr (s', r))" "dvr_list s = []" "0 \<le> login_user l"
  shows "r = KEY_TRUE \<and> dvr_list s' = [a] \<and> dvr_objs s' a = None \<and> online_list s' = online_list s @ [b] \<and> online_objs s' b = None \<and> a \<noteq> 0 \<or>
    r = KEY_FALSE \<and> dvr_list s' = [] \<and> online_list s' = online_list s"
  using assms
  by (auto simp: HksdkDeviceAdd_def find_dvr_def Let_def outcome_iff obj_load_def split: option.splits if_splits)

lemma add_stored:
  assumes "dvr_list s = []" "0 \<le> login_user l" "a \<noteq> 0"
    and "add_channels l (user_objs s) (hk_users s) [0..<nat (dwDChanNum l)] = Inr (Some rs, cs)"
    and "HkDvrListConfigAdd fd w junk (login_recorder l d (map fst rs)) (hk_conf s) = Some (Inr (c, r))"
  shows "\<exists>s'. HksdkDeviceAdd fd w junk l a b d s = Some (Inr (s', KEY_TRUE)) \<and> hk_conf s' = c \<and> dvr_list s' = [a] \<and> dvr_objs s' a = None \<and>
    online_list s' = online_list s @ [b] \<and> online_objs s' b = None"
  using assms by (simp add: HksdkDeviceAdd_def find_dvr_def Let_def obj_load_def)

text \<open>
  The program adds the recorder of its source when it starts, and looks for a serial number in the list afterwards: once the login
  has succeeded, the start follows a pointer to a variable of the function that has returned.
\<close>

lemma start_reads_dead_variable:
  assumes "HksdkDeviceAdd fd w junk l a b built_in (s\<lparr>online_list := [], dvr_list := []\<rparr>) = Some (Inr (s1, KEY_TRUE))" "0 \<le> login_user l" "b \<noteq> 0"
  shows "HksdkApiInit fd w junk l a b h s = Some (Inl BadPointer)"
  using add_first [OF assms(1)] assms by (auto simp: HksdkApiInit_def stale_load)

text \<open>
  C38. When the login succeeds and the queues can be created, the first recorder that is added is stored in the configuration under its serial
  number, and the call reports success. But the list then holds the address of a variable of the function that has returned:
  reading the list, changing a recorder, removing one, asking for the type of a camera and adding a second recorder all follow it.
\<close>

theorem added_recorder_dangles:
  assumes "dvr_list s = []" "0 \<le> login_user l" "a \<noteq> 0"
    and "add_channels l (user_objs s) (hk_users s) [0..<nat (dwDChanNum l)] = Inr (Some rs, cs)"
    and "recorder_ok (login_recorder l d (map fst rs))" "stores (hk_conf s) ps" "length ps \<le> 64" "stack_ok junk"
    and "\<not> has_serial ps (login_serial l) \<longrightarrow> \<not> has_serial (drop (length ps) junk) (login_serial l)"
  shows "\<exists>s'. HksdkDeviceAdd fd True junk l a b d s = Some (Inr (s', KEY_TRUE)) \<and>
     stores (hk_conf s') (put_recorder (login_recorder l d (map fst rs)) ps) \<and>
     HksdkDeviceListGet qs s' = Inl BadPointer \<and> HksdkDeviceListSet fd w junk e s' = Some (Inl BadPointer) \<and>
     HksdkDeviceDel fd w junk e s' = Some (Inl BadPointer) \<and> GetDeviceType cn sn info s' = Inl BadPointer \<and>
     HksdkDeviceAdd fd w junk l a' b' e s' = Some (Inl BadPointer)"
proof -
  let ?x = "login_recorder l d (map fst rs)"
  have n: "serial ?x = login_serial l" by (simp add: login_recorder_def Let_def)
  obtain c where c: "HkDvrListConfigAdd fd True junk ?x (hk_conf s) = Some (Inr (c, KEY_TRUE))" "stores c (put_recorder ?x ps)"
    using add_recorder [OF assms(6-8,5)] assms(9) unfolding n by blast
  from add_stored [OF assms(1-4) c(1)] obtain s' where s': "HksdkDeviceAdd fd True junk l a b d s = Some (Inr (s', KEY_TRUE))"
    "hk_conf s' = c" "dvr_list s' = [a]" "dvr_objs s' a = None" by blast
  have "stale s'" using s'(3,4) assms(3) by (simp add: stale_def)
  note stale_uses [OF this] assms(2)
  then show ?thesis using s'(1,2) c(2) by blast
qed

definition gate_login :: sdk_login where
  "gate_login = \<lparr>login_user = 0, login_serial = ''DS-7608'', dwDChanNum = 1, dwStartDChan = 33, stream_ids = [(1, 0)], chan_enable = [1],
     dev_ip = [''10.0.0.2''], play_handle = (\<lambda>_. 0), new_queue = (\<lambda>_. 0), fd_workers = [], fd_customer = []\<rparr>"

definition first_start :: HkSdk_T where
  "first_start = \<lparr>dvr_list = [], dvr_objs = (\<lambda>_. None), online_list = [], online_objs = (\<lambda>_. None), hk_users = [], user_objs = (\<lambda>_. None),
     hk_conf = no_recorders, sdk_calls = []\<rparr>"

definition gate_camera :: "HkDeviceParam_T \<times> int \<times> int \<times> int" where
  "gate_camera = (\<lparr>sOnline = 1, sDeviceType = 2, sChannel = 1, sQueueID = 0, sDeviceName = ''chn_1'', sDeviceAddress = ''10.0.0.2''\<rparr>, 1, 0, 0)"

theorem added_recorder_dangles_witness:
  "\<exists>s'. HksdkDeviceAdd (\<lambda>_. []) True (replicate 64 null_recorder) gate_login 1 2 built_in first_start = Some (Inr (s', KEY_TRUE)) \<and>
     stores (hk_conf s') (put_recorder (login_recorder gate_login built_in (map fst [gate_camera])) []) \<and>
     HksdkDeviceListGet [] s' = Inl BadPointer"
proof -
  have s: "dvr_list first_start = []" "0 \<le> login_user gate_login" "hk_conf first_start = no_recorders" "hk_users first_start = []"
    "login_serial gate_login = ''DS-7608''" "nat (dwDChanNum gate_login) = 1" by (simp_all add: first_start_def gate_login_def)
  have p: "print_int 1 = ''1''" by code_simp
  have "add_channels gate_login (user_objs first_start) [] [0..<1] = Inr (Some [gate_camera], [])"
    by (simp add: add_channel_def gate_login_def gate_camera_def p)
  then have c: "add_channels gate_login (user_objs first_start) (hk_users first_start) [0..<nat (dwDChanNum gate_login)] = Inr (Some [gate_camera], [])"
    by (simp only: s)
  have ok: "recorder_ok (login_recorder gate_login built_in (map fst [gate_camera]))" by code_simp
  have st: "stack_ok (replicate 64 null_recorder)" by (simp add: stack_ok_def list_all_length null_recorder_def)
  have st0: "stores (hk_conf first_start) []" using no_recorders by (simp only: s)
  have l: "length ([] :: HKDVRParam_T list) \<le> 64" by simp
  have n: "\<not> has_serial [] (login_serial gate_login) \<longrightarrow> \<not> has_serial (drop (length []) (replicate 64 null_recorder)) (login_serial gate_login)"
    by (simp add: has_serial_def null_recorder_def s)
  have one: "(1 :: nat) \<noteq> 0" by simp
  show ?thesis using added_recorder_dangles [OF s(1,2) one c ok st0 l st n, where fd = "\<lambda>_. []" and b = 2 and qs = "[]"] by blast
qed

end
