(* ===== verification/MqttApi.thy ===== *)
theory MqttApi
  imports StationJson Gateway
begin

text \<open>
  The front end over MQTT: \<^verbatim>\<open>src/App/MqttAPI/mqttapi.c\<close>. The client library calls \<open>my_message_callback\<close> with the messages of the topic it
  has subscribed to; the reply of \<open>JsonSwitch\<close> is published on the topic that the request names. What is published is a pair of a topic
  and a text.

  The lemmas show that a reply is published as it was made, and that a request without a session changes nothing.
\<close>

definition MAIN_SERVER_PULL_TOPIC :: string where "MAIN_SERVER_PULL_TOPIC = ''CCSMP/mainserver/pullmsg''"
definition MAIN_SERVER_PUSH_TOPIC :: string where "MAIN_SERVER_PUSH_TOPIC = ''CCSMP/mainserver/pushmsg''"
definition MQTTMSG_MAXLEN :: nat where "MQTTMSG_MAXLEN = 4 * 1024 * 1024"

section \<open>Requests\<close>

text \<open>The head of a message, as in \<open>ParesJsonMsg\<close>, with the topic for the reply; a text that is not JSON leaves all members empty.\<close>

definition ParesMqttHead :: "cJSON option \<Rightarrow> fault + JsonMsg_T \<times> int" where
  "ParesMqttHead data = (case data of
       None \<Rightarrow> Inr (\<lparr>cmd = [], mothod = [], ssionID = [], msgID = [], deviceId = [], srctopic = [], desttopic = [], bodyData = None\<rparr>, KEY_FALSE)
     | Some _ \<Rightarrow>
       rbind (get_text data ''cmd'' 32) (\<lambda>c.
       rbind (get_text data ''method'' 32) (\<lambda>m.
       rbind (get_text data ''msgid'' 32) (\<lambda>i.
       rbind (get_text data ''sessionid'' 32) (\<lambda>s.
       rbind (get_text data ''clitopic'' 128) (\<lambda>t.
       Inr (\<lparr>cmd = c, mothod = m, ssionID = s, msgID = i, deviceId = [], srctopic = t, desttopic = [], bodyData = None\<rparr>, KEY_TRUE)))))))"

text \<open>The reply is parsed and printed again into its buffer.\<close>

definition GroupMqttTopic :: "(rat \<Rightarrow> string) \<Rightarrow> string \<Rightarrow> (string \<times> int) run" where
  "GroupMqttTopic fd msg = run_bind (cJSON_Parse msg) (\<lambda>root. case root of None \<Rightarrow> Some (Inr (msg, KEY_FALSE))
     | Some c \<Rightarrow> run_bind (Some (cJSON_PrintUnformatted fd c)) (\<lambda>out. case out of None \<Rightarrow> Some (Inl NullDeref)
       | Some t \<Rightarrow> run_bind (Some (put_all (replicate (length msg) NUL) 0 t)) (\<lambda>m. Some (Inr (m, KEY_TRUE)))))"

definition my_message_callback ::
    "'x other_handler \<Rightarrow> (rat \<Rightarrow> string) \<Rightarrow> bool \<Rightarrow> nat \<Rightarrow> nat \<Rightarrow> string \<Rightarrow> string \<Rightarrow> ('d, 'e, 'x) Gateway \<Rightarrow>
     (('d, 'e, 'x) Gateway \<times> (string \<times> string) option) run" where
  "my_message_callback others fd w hp np topic payload g =
     (if topic \<noteq> MAIN_SERVER_PULL_TOPIC then Some (Inr (g, None))
      else run_bind (cJSON_Parse payload) (\<lambda>headData.
        run_bind (Some (ParesMqttHead headData)) (\<lambda>(headMsg, _).
        run_bind (JsonSwitch others fd w hp np (Some payload) (Some (replicate MQTTMSG_MAXLEN NUL)) g) (\<lambda>(g, response, iret).
        if usr_strcasecmp (mothod headMsg) ''request'' \<noteq> 0 \<or> iret = KEY_CMDNOTFOUND then Some (Inr (g, None))
        else case response of None \<Rightarrow> Some (Inl NullDeref)
        | Some sendMsg \<Rightarrow> run_bind (Some (c_str sendMsg 0)) (\<lambda>t.
            if t = [] \<or> srctopic headMsg = [] then Some (Inr (g, None))
            else run_bind (GroupMqttTopic fd sendMsg) (\<lambda>(m, _).
              run_bind (Some (c_str m 0)) (\<lambda>t. Some (Inr (g, Some (srctopic headMsg, t))))))))))"

section \<open>Connection and messages to the front end\<close>

datatype mqtt_call = Subscribe string | Publish string string

definition my_connect_callback :: "mqtt_call list" where
  "my_connect_callback = [Subscribe MAIN_SERVER_PULL_TOPIC, Publish MAIN_SERVER_PUSH_TOPIC ''hello'']"

text \<open>The call waits, a second at a time, until the second client is connected: \<open>None\<close>, when that never happens.\<close>

definition pushMqttMsg :: "bool \<Rightarrow> string \<Rightarrow> string \<Rightarrow> (mqtt_call list \<times> int) run" where
  "pushMqttMsg online topic resMsg = (if \<not> online then None
     else run_bind (Some (c_str resMsg 0)) (\<lambda>t. Some (Inr ([Publish topic t], KEY_TRUE))))"

definition MqttHighTempFunc :: "(rat \<Rightarrow> string) \<Rightarrow> bool \<Rightarrow> DeviceAlarm_T option \<Rightarrow> (mqtt_call list \<times> int) run" where
  "MqttHighTempFunc fd online info = (case info of None \<Rightarrow> Some (Inr ([], KEY_FALSE))
     | Some a \<Rightarrow> run_bind (Some (JsonMapPushAlarmMake fd a (replicate 512 NUL))) (\<lambda>sendMsg.
         run_bind (pushMqttMsg online MAIN_SERVER_PUSH_TOPIC sendMsg) (\<lambda>(cs, _). Some (Inr (cs, KEY_TRUE)))))"

text \<open>\<open>hp\<close> is the address of \<^verbatim>\<open>innerAdpHandle\<close>; the threads that \<open>MqttStart\<close> creates run the client library.\<close>

definition MqttStart :: "nat \<Rightarrow> nat \<Rightarrow> ('d, 'e, 'x) Gateway \<Rightarrow> (('d, 'e, 'x) Gateway \<times> int) run" where
  "MqttStart hp np g =
     run_bind (AdpRegistHandle ((adp g)\<lparr>apis := (apis (adp g))(hp \<mapsto> zero_table\<lparr>highTempFun := True\<rparr>)\<rparr>) hp ''gzadmin@u'' ''gzadmin@p'' np) (\<lambda>(a, r).
     Some (Inr (g\<lparr>adp := a\<rparr>, if r = KEY_FALSE then KEY_UNAUTHORIZED else KEY_TRUE)))"

definition MqttStop :: "nat \<Rightarrow> ('d, 'e, 'x) Gateway \<Rightarrow> fault + ('d, 'e, 'x) Gateway \<times> int" where
  "MqttStop hp g = rbind (AdpUnRegistHandle (adp g) hp) (\<lambda>(a, _). Inr (g\<lparr>adp := a\<rparr>, KEY_TRUE))"

section \<open>Replies\<close>

lemma group_reply:
  assumes "json_ok j"
  shows "GroupMqttTopic fd (json_text j False 0 @ NUL # r) = Some (Inr (json_text j False 0 @ NUL # replicate (length r) NUL, KEY_TRUE))"
proof -
  let ?t = "json_text j False 0"
  have "length (?t @ NUL # r) = length ?t + Suc (length r)" by simp
  then have "put_all (replicate (length (?t @ NUL # r)) NUL) 0 ?t = Inr (?t @ drop (length ?t) (replicate (length ?t + Suc (length r)) NUL))"
    by (simp add: put_all_fits del: json_text.simps)
  also have "drop (length ?t) (replicate (length ?t + Suc (length r)) NUL) = replicate (Suc (length r)) NUL" by (simp only: drop_replicate) simp
  finally have "put_all (replicate (length (?t @ NUL # r)) NUL) 0 ?t = Inr (?t @ NUL # replicate (length r) NUL)" by simp
  then show ?thesis unfolding GroupMqttTopic_def parse_repr [OF assms, of r] run_bind_simps option.case print_repr [OF assms, of fd] by simp
qed

text \<open>A reply is published on the topic of the request with the text that was written.\<close>

lemma text_before_NUL: "NUL \<notin> set t \<Longrightarrow> c_str (t @ NUL # r) 0 = Inr t"
  by (simp add: c_str_text text_of_def)

lemma reply_published:
  assumes "cJSON_Parse payload = Some (Inr (Some d))" "ParesMqttHead (Some d) = Inr (h, r)" "usr_strcasecmp (mothod h) ''request'' = 0"
    and "srctopic h \<noteq> []" "json_ok j" "NUL \<notin> set (json_text j False 0)" "json_text j False 0 \<noteq> []" "iret \<noteq> KEY_CMDNOTFOUND"
    and "JsonSwitch others fd w hp np (Some payload) (Some (replicate MQTTMSG_MAXLEN NUL)) g = Some (Inr (g', Some (json_text j False 0 @ NUL # t), iret))"
  shows "my_message_callback others fd w hp np MAIN_SERVER_PULL_TOPIC payload g = Some (Inr (g', Some (srctopic h, json_text j False 0)))"
  using assms(3,4,7,8) group_reply [OF assms(5), of fd t] text_before_NUL [OF assms(6)]
  unfolding my_message_callback_def assms(1,2,9) by (simp add: assms(2,9) del: json_text.simps replicate.simps)

lemma mqtt_head:
  assumes "ParesJsonMsg (Some d) = Inr (Some msg)" "get_text (Some d) ''clitopic'' 128 = Inr t"
  shows "\<exists>h. ParesMqttHead (Some d) = Inr (h, KEY_TRUE) \<and> mothod h = mothod msg \<and> srctopic h = t"
  using assms by (auto simp: ParesJsonMsg_def ParesMqttHead_def outcome_iff Let_def)

text \<open>
  C39. A request over MQTT with a command other than the login, whose session identifier is not that of a live session, is answered on the
  topic that it names, with its command, its message identifier and code 401, and no module's state changes. A message of
  another topic is ignored.
\<close>

theorem mqtt_refuses:
  assumes "cJSON_Parse payload = Some (Inr (Some d))" "ParesJsonMsg (Some d) = Inr (Some msg)" "get_text (Some d) ''clitopic'' 128 = Inr t"
    and "t \<noteq> []" "usr_strcasecmp (mothod msg) ''request'' = 0" "known_cmd (cmd msg)" "\<not> login_cmd (cmd msg)"
    and "reg_ok (apis (adp g)) (listHead_J g)" "atoi (ssionID msg) \<notin> set (session_ids g)"
  shows "\<exists>reply. my_message_callback others fd w hp np topic payload g =
       Some (Inr (g, if topic = MAIN_SERVER_PULL_TOPIC then Some (t, reply) else None)) \<and>
     cJSON_Parse (reply @ [NUL]) = Some (Inr (Some (repr (JObj [(''cmd'', JStr (cmd msg)), (''method'', JStr ''response''),
       (''msgid'', JStr (msgID msg)), (''statuscode'', JNum KEY_UNAUTHORIZED)]))))"
proof -
  let ?j = "JObj (JsonApi.reply_head msg @ [] @ [(''statuscode'', JNum KEY_UNAUTHORIZED)])"
  have ok: "json_ok ?j" using message_bounds [OF assms(2)] by (simp add: JsonApi.reply_head_def)
  obtain h where h: "ParesMqttHead (Some d) = Inr (h, KEY_TRUE)" "mothod h = mothod msg" "srctopic h = t"
    using mqtt_head [OF assms(2,3)] by blast
  have "request payload msg" using assms(1,2) by (auto simp: request_def)
  moreover have "512 \<le> length (replicate MQTTMSG_MAXLEN NUL)" by (simp add: MQTTMSG_MAXLEN_def)
  ultimately have s: "\<exists>r. JsonSwitch others fd w hp np (Some payload) (Some (replicate MQTTMSG_MAXLEN NUL)) g =
      Some (Inr (g, Some (json_text ?j False 0 @ NUL # r), KEY_UNAUTHORIZED))"
    using refused_without_session [OF _ assms(6-9)] unfolding reply_text_def by blast
  have n: "NUL \<notin> set (json_text ?j False 0)" using reply_text_no_NUL [of msg KEY_UNAUTHORIZED] unfolding reply_text_def .
  have e: "json_text ?j False 0 \<noteq> []" by simp
  have "my_message_callback others fd w hp np MAIN_SERVER_PULL_TOPIC payload g = Some (Inr (g, Some (t, json_text ?j False 0)))"
    using s reply_published [OF assms(1) h(1) _ _ ok n e, of KEY_UNAUTHORIZED] h(2,3) assms(4,5) by auto
  moreover have "cJSON_Parse (json_text ?j False 0 @ [NUL]) = Some (Inr (Some (repr ?j)))" by (rule parse_repr [OF ok])
  moreover have "topic \<noteq> MAIN_SERVER_PULL_TOPIC \<Longrightarrow> my_message_callback others fd w hp np topic payload g = Some (Inr (g, None))"
    by (simp add: my_message_callback_def)
  ultimately show ?thesis
    by (intro exI [of _ "json_text ?j False 0"]) (auto simp: JsonApi.reply_head_def simp del: repr.simps json_text.simps)
qed

definition mqtt_adduser :: "(string \<times> json) list" where
  "mqtt_adduser = [(''cmd'', JStr ''AddUser''), (''method'', JStr ''request''), (''msgid'', JStr ''7''), (''sessionid'', JStr ''262145''),
     (''clitopic'', JStr ''web/7'')]"

theorem mqtt_refuses_witness:
  "\<exists>reply. my_message_callback no_others (\<lambda>_. []) True 8 16 MAIN_SERVER_PULL_TOPIC (json_text (JObj mqtt_adduser) False 0 @ [NUL]) demo_gateway =
     Some (Inr (demo_gateway, Some (''web/7'', reply)))"
proof -
  let ?msg = "demo_msg\<lparr>mothod := ''request''\<rparr>" let ?d = "repr (JObj mqtt_adduser)"
  have "json_ok (JObj mqtt_adduser)" by code_simp
  from parse_repr [OF this] have p: "cJSON_Parse (json_text (JObj mqtt_adduser) False 0 @ [NUL]) = Some (Inr (Some ?d))" .
  have m: "ParesJsonMsg (Some ?d) = Inr (Some ?msg)" by code_simp
  have t: "get_text (Some ?d) ''clitopic'' 128 = Inr ''web/7''" by code_simp
  have r: "usr_strcasecmp (mothod ?msg) ''request'' = 0" by code_simp
  have c: "known_cmd (cmd ?msg)" "\<not> login_cmd (cmd ?msg)" using demo_msg_cmd by simp_all
  have g: "reg_ok (apis (adp demo_gateway)) (listHead_J demo_gateway)" "atoi (ssionID ?msg) \<notin> set (session_ids demo_gateway)"
    by (simp_all add: demo_gateway_def session_ids_def)
  have "''web/7'' \<noteq> []" by simp
  from mqtt_refuses [OF p m t this r c g, of no_others "\<lambda>_. []" True 8 16 MAIN_SERVER_PULL_TOPIC] show ?thesis by auto
qed

end
