(* ===== verification/Meters.thy ===== *)
theory Meters
  imports MqttApi DvrConfig
begin

text \<open>
  The weather station and the electricity meters: \<^verbatim>\<open>src/App/HJ212API/hj212api.c\<close>, a server for the texts of the station, and
  \<^verbatim>\<open>src/App/CICTAPI/cictapi.c\<close>, which takes the readings of the meters from MQTT. Both keep the last values as texts and publish them.
  Arrays of characters that hold texts are these texts; other buffers are lists of characters.

  The lemmas show how a full report of the meters is read, and which texts stop the program.
\<close>

section \<open>The weather station\<close>

definition Object_Number :: nat where "Object_Number = 5"

definition object_Name :: "string list" where
  "object_Name = [''a01001-Rtd'', ''a01002-Rtd'', ''a01006-Rtd'', ''a01007-Rtd'', ''a01008-Rtd'']"

text \<open>UTF-8: north, east, south, west, wind and the degree sign of the source.\<close>

definition north :: string where "north = [CHR 0xE5, CHR 0x8C, CHR 0x97]"
definition east :: string where "east = [CHR 0xE4, CHR 0xB8, CHR 0x9C]"
definition south :: string where "south = [CHR 0xE5, CHR 0x8D, CHR 0x97]"
definition west :: string where "west = [CHR 0xE8, CHR 0xA5, CHR 0xBF]"
definition calm :: string where "calm = [CHR 0xE9, CHR 0x9D, CHR 0x99]"
definition wind :: string where "wind = [CHR 0xE9, CHR 0xA3, CHR 0x8E]"
definition degree :: string where "degree = [CHR 0xE2, CHR 0x84, CHR 0x83]"

definition object_Date0 :: "string list" where
  "object_Date0 = [''26.2'' @ degree, ''39.9%RH'', ''100.7KPa'', ''0.1m/s'', east @ south @ wind]"

definition JsonMapPushHJ212RealDataMake :: "(rat \<Rightarrow> string) \<Rightarrow> string list \<Rightarrow> string \<Rightarrow> fault + string" where
  "JsonMapPushHJ212RealDataMake fd ds msg =
     rbind (add_fields cJSON_CreateObject [(''cmd'', FStr ''pushhj212realdata'')]) (\<lambda>r.
     rbind (add_fields cJSON_CreateObject (zip [''temperature'', ''humidity'', ''Atmospheric'', ''rate'', ''direction''] (map FStr ds))) (\<lambda>d.
     rbind (cJSON_PrintUnformatted fd (cJSON_AddItemToObject r ''data'' (Some d))) (\<lambda>out. case out of
       None \<Rightarrow> Inl NullDeref | Some t \<Rightarrow> put_all msg 0 t)))"

text \<open>
  The directions, tested one after another; the first condition cannot hold. \<open>f_atof\<close> is \<^verbatim>\<open>atof\<close> stored as a float, and the
  constant 0.2 the nearest double.
\<close>

definition ConfirmWindDirection :: "(string \<Rightarrow> rat) \<Rightarrow> int \<Rightarrow> nat \<Rightarrow> string list \<Rightarrow> string list" where
  "ConfirmWindDirection f_atof v num ds =
     (let ds = (if v \<ge> 348 \<and> v < 360 \<and> v > 0 \<and> v < 11 then ds[num := north @ wind] else ds);
          ds = (if v \<ge> 11 \<and> v < 78 then ds[num := east @ north @ wind] else ds);
          ds = (if v \<ge> 78 \<and> v < 101 then ds[num := east @ wind] else ds);
          ds = (if v \<ge> 101 \<and> v < 169 then ds[num := east @ south @ wind] else ds);
          ds = (if v \<ge> 169 \<and> v < 191 then ds[num := south @ wind] else ds);
          ds = (if v \<ge> 191 \<and> v < 259 then ds[num := west @ south @ wind] else ds);
          ds = (if v \<ge> 259 \<and> v < 281 then ds[num := west @ wind] else ds);
          ds = (if v \<ge> 281 \<and> v < 348 then ds[num := west @ north @ wind] else ds) in
      if f_atof (ds ! 3) \<le> 3602879701896397 / 2 ^ 54 then ds[num := calm @ wind] else ds)"

definition DealDate :: "(string \<Rightarrow> rat) \<Rightarrow> string \<Rightarrow> nat \<Rightarrow> string list \<Rightarrow> fault + string list" where
  "DealDate f_atof s num ds =
     (let put = (\<lambda>t. rbind (fit_text 24 t) (\<lambda>t. Inr (ds[num := t]))) in
      if num = 0 then put (s @ degree)
      else if num = 1 then put (s @ ''%RH'')
      else if num = 2 then put (s @ ''KPa'')
      else if num = 3 then put (s @ ''m/s'')
      else if num = 4 then rbind (fit_text 24 s) (\<lambda>value. Inr (ConfirmWindDirection f_atof (atoi value) num ds))
      else Inr ds)"

text \<open>
  The value of an object stands between the character after its name and the next comma, which must be there; it is copied into 24
  characters.
\<close>

fun read_objects :: "(string \<Rightarrow> rat) \<Rightarrow> string \<Rightarrow> nat list \<Rightarrow> string list \<Rightarrow> fault + string list" where
  "read_objects f_atof Msg [] ds = Inr ds"
| "read_objects f_atof Msg (i # is) ds =
     rbind (c_str Msg 0) (\<lambda>m. case strstr m (object_Name ! i) of None \<Rightarrow> read_objects f_atof Msg is ds
     | Some k \<Rightarrow> rbind (c_str Msg (k + length (object_Name ! i) + 1)) (\<lambda>p. case strstr p '','' of None \<Rightarrow> Inl NullDeref
       | Some len \<Rightarrow> rbind (fit_text 24 (take len p)) (\<lambda>value.
           rbind (DealDate f_atof value i ds) (\<lambda>ds. read_objects f_atof Msg is ds))))"

definition HJ212RealDataPars :: "(rat \<Rightarrow> string) \<Rightarrow> (string \<Rightarrow> rat) \<Rightarrow> bool \<Rightarrow> string \<Rightarrow> string list \<Rightarrow> (string list \<times> mqtt_call list) run" where
  "HJ212RealDataPars fd f_atof online Msg ds = run_bind (Some (read_objects f_atof Msg [0..<Object_Number] ds)) (\<lambda>ds.
     run_bind (Some (JsonMapPushHJ212RealDataMake fd ds (replicate 256 NUL))) (\<lambda>sendMsg.
     run_bind (pushMqttMsg online MAIN_SERVER_PUSH_TOPIC sendMsg) (\<lambda>(cs, _). Some (Inr (ds, cs)))))"

definition HJ212Close :: "int \<Rightarrow> int list" where
  "HJ212Close sock = (if 0 < sock then [sock] else [])"

definition HJ212Checked :: "'u NetCliInfo_T \<Rightarrow> fault + 'u NetCliInfo_T \<times> int" where
  "HJ212Checked cli = Inr (cli, KEY_TRUE)"

definition HJ212Requst ::
    "(rat \<Rightarrow> string) \<Rightarrow> (string \<Rightarrow> rat) \<Rightarrow> bool \<Rightarrow> string list \<Rightarrow> 'u NetCliInfo_T \<Rightarrow> (string list \<times> mqtt_call list \<times> int) run" where
  "HJ212Requst fd f_atof online ds cli =
     (if length (fromIP cli) = 0 \<or> 0 \<ge> recvLen cli \<or> 0 \<ge> fromPort cli \<or> 0 \<ge> recvSocket cli then Some (Inr (ds, [], KEY_FALSE))
      else run_bind (HJ212RealDataPars fd f_atof online (recvmsg cli) ds) (\<lambda>(ds, cs). Some (Inr (ds, cs, KEY_TRUE))))"

section \<open>The meters\<close>

definition Volmeter_Number :: nat where "Volmeter_Number = 4"

record Volmeter_Parameter_T =
  meterID :: int
  dataU :: string
  dataI :: string
  dataP :: string

definition electpar0 :: "Volmeter_Parameter_T list" where
  "electpar0 = replicate Volmeter_Number \<lparr>meterID = 0, dataU = [], dataI = [], dataP = []\<rparr>"

definition meter_fields :: "Volmeter_Parameter_T \<Rightarrow> (string \<times> field) list" where
  "meter_fields m = [(''deviceID'', FNum (meterID m + 1)), (''U'', FStr (dataU m)), (''I'', FStr (dataI m)), (''P'', FStr (dataP m))]"

definition JsonMapPushCICRealDataMake :: "(rat \<Rightarrow> string) \<Rightarrow> Volmeter_Parameter_T list \<Rightarrow> string \<Rightarrow> fault + string" where
  "JsonMapPushCICRealDataMake fd ms msg =
     rbind (add_fields cJSON_CreateObject [(''cmd'', FStr ''pushcicrealdata'')]) (\<lambda>r.
     rbind (add_named cJSON_CreateArray ''Realdata'' (map meter_fields ms)) (\<lambda>a.
     rbind (cJSON_PrintUnformatted fd (cJSON_AddItemToObject r ''data'' (Some a))) (\<lambda>out. case out of
       None \<Rightarrow> Inl NullDeref | Some t \<Rightarrow> put_all msg 0 t)))"

text \<open>The text up to the next comma and what follows it.\<close>

definition next_field :: "string \<Rightarrow> (string \<times> string) option" where
  "next_field t = (case strstr t '','' of None \<Rightarrow> None | Some k \<Rightarrow> Some (take k t, drop (k + 1) t))"

text \<open>
  The tag of a reading decides on the meter and the quantity. A tag beyond ten leaves the meter as it was; a text of twelve
  characters or more leaves its array.
\<close>

definition meter_of :: "int \<Rightarrow> nat \<Rightarrow> Volmeter_Parameter_T list \<Rightarrow> nat \<times> Volmeter_Parameter_T list" where
  "meter_of Tag i ms =
     (let (i, ms) = (if Tag > 0 \<and> Tag < 4 then (0, ms[0 := (ms ! 0)\<lparr>meterID := 0\<rparr>]) else (i, ms));
          (i, ms) = (if Tag > 3 \<and> Tag < 7 then (1, ms[1 := (ms ! 1)\<lparr>meterID := 1\<rparr>]) else (i, ms));
          (i, ms) = (if Tag > 6 \<and> Tag < 10 then (2, ms[2 := (ms ! 2)\<lparr>meterID := 2\<rparr>]) else (i, ms)) in
      if Tag > 9 \<and> Tag < 11 then (3, ms[3 := (ms ! 3)\<lparr>meterID := 3\<rparr>]) else (i, ms))"

text \<open>\<open>c_rem\<close> is the remainder of C, with the sign of the dividend.\<close>

definition c_rem :: "int \<Rightarrow> int \<Rightarrow> int" where
  "c_rem x y = (if x < 0 then - (- x mod y) else x mod y)"

definition set_reading :: "int \<Rightarrow> nat \<Rightarrow> string \<Rightarrow> Volmeter_Parameter_T list \<Rightarrow> fault + Volmeter_Parameter_T list" where
  "set_reading a i v ms =
     (if a = 0 then rbind (fit_text 12 v) (\<lambda>v. Inr (ms[i := (ms ! i)\<lparr>dataP := v\<rparr>]))
      else if a = 1 then rbind (fit_text 12 v) (\<lambda>v. Inr (ms[i := (ms ! i)\<lparr>dataU := v\<rparr>]))
      else if a = 2 then rbind (fit_text 12 v) (\<lambda>v. Inr (ms[i := (ms ! i)\<lparr>dataI := v\<rparr>]))
      else Inr ms)"

lemma strstr_length: "strstr t '','' = Some k \<Longrightarrow> k < length t"
  by (induction t arbitrary: k) (auto split: if_splits)

text \<open>
  The loop over the readings, on the text after a comma: a tag, and its value. A tag without a value makes the program take the
  length of NULL.
\<close>

function read_meters :: "nat \<Rightarrow> string \<Rightarrow> Volmeter_Parameter_T list \<Rightarrow> fault + Volmeter_Parameter_T list" where
  "read_meters i t ms = (case next_field t of None \<Rightarrow> Inr ms
     | Some (tag, t1) \<Rightarrow> rbind (fit_text 24 tag) (\<lambda>tag. let (i, ms) = meter_of (atoi tag) i ms in
         case next_field t1 of None \<Rightarrow> Inl NullDeref
         | Some (v, t2) \<Rightarrow> rbind (set_reading (c_rem (atoi tag) 3) i v ms) (\<lambda>ms. read_meters i t2 ms)))"
  by pat_completeness auto

termination
  by (relation "measure (\<lambda>(i, t, ms). length t)") (auto simp: next_field_def split: option.splits dest!: strstr_length)

declare read_meters.simps [simp del]

definition ParesCICRealData :: "(rat \<Rightarrow> string) \<Rightarrow> string \<Rightarrow> Volmeter_Parameter_T list \<Rightarrow> fault + Volmeter_Parameter_T list \<times> mqtt_call list" where
  "ParesCICRealData fd msgBuf ms =
     rbind (c_str msgBuf 0) (\<lambda>m. case next_field (take 255 (m @ '','')) of None \<Rightarrow> Inl BadPointer
     | Some (_, p) \<Rightarrow> (case next_field p of None \<Rightarrow> Inl NullDeref
       | Some (time, t) \<Rightarrow> rbind (fit_text 24 time) (\<lambda>_. rbind (read_meters 0 t ms) (\<lambda>ms.
           rbind (JsonMapPushCICRealDataMake fd ms (replicate 256 NUL)) (\<lambda>sendMsg. rbind (c_str sendMsg 0) (\<lambda>s.
           Inr (ms, [Publish MAIN_SERVER_PUSH_TOPIC s])))))))"

definition CICTMQ_Connect_Cb :: "mqtt_call list" where
  "CICTMQ_Connect_Cb = [Subscribe ''GS12/Data'']"

definition CICTMQ_Message_Cb ::
    "(rat \<Rightarrow> string) \<Rightarrow> string \<Rightarrow> string \<Rightarrow> Volmeter_Parameter_T list \<Rightarrow> fault + Volmeter_Parameter_T list \<times> mqtt_call list" where
  "CICTMQ_Message_Cb fd topic payload ms = (if topic = ''GS12/Data'' then ParesCICRealData fd payload ms else Inr (ms, []))"

section \<open>The wind from the north\<close>

text \<open>The first condition is contradictory: with wind from the north the direction that was stored last stays.\<close>

lemma north_wind_unseen:
  assumes "0 \<le> v \<and> v < 11 \<or> 348 \<le> v \<and> v < 360"
  shows "ConfirmWindDirection f_atof v num ds = (if f_atof (ds ! 3) \<le> 3602879701896397 / 2 ^ 54 then ds[num := calm @ wind] else ds)"
proof -
  have "\<not> (v \<ge> 348 \<and> v < 360 \<and> v > 0 \<and> v < 11)" "\<not> (v \<ge> 11 \<and> v < 78)" "\<not> (v \<ge> 78 \<and> v < 101)" "\<not> (v \<ge> 101 \<and> v < 169)"
    "\<not> (v \<ge> 169 \<and> v < 191)" "\<not> (v \<ge> 191 \<and> v < 259)" "\<not> (v \<ge> 259 \<and> v < 281)" "\<not> (v \<ge> 281 \<and> v < 348)"
    using assms by linarith+
  then show ?thesis by (simp only: ConfirmWindDirection_def Let_def if_False)
qed

text \<open>A value without a comma behind it stops the program.\<close>

lemma object_without_comma:
  assumes "c_str Msg 0 = Inr m" "strstr m (object_Name ! i) = Some k" "c_str Msg (k + length (object_Name ! i) + 1) = Inr p" "CHR '','' \<notin> set p"
  shows "read_objects f_atof Msg (i # is) ds = Inl NullDeref"
proof -
  have "strstr p '','' = None" using assms(4) by (induction p) auto
  then show ?thesis using assms(1-3) by simp
qed

section \<open>Reports of the meters\<close>

lemma next_field_found: "CHR '','' \<notin> set v \<Longrightarrow> next_field (v @ CHR '','' # t) = Some (v, t)"
proof -
  assume "CHR '','' \<notin> set v"
  then have "strstr (v @ CHR '','' # t) '','' = Some (length v)" by (induction v) auto
  then show ?thesis by (simp add: next_field_def)
qed

lemma next_field_none: "CHR '','' \<notin> set v \<Longrightarrow> next_field v = None"
proof -
  assume "CHR '','' \<notin> set v"
  then have "strstr v '','' = None" by (induction v) auto
  then show ?thesis by (simp add: next_field_def)
qed

definition rows_text :: "(string \<times> string) list \<Rightarrow> string" where
  "rows_text rows = concat (map (\<lambda>(t, v). t @ '','' @ v @ '','') rows)"

definition row_ok :: "string \<times> string \<Rightarrow> bool" where
  "row_ok r \<longleftrightarrow> CHR '','' \<notin> set (fst r) \<and> length (fst r) < 24 \<and> CHR '','' \<notin> set (snd r) \<and> length (snd r) < 12"

fun store_rows :: "nat \<Rightarrow> (string \<times> string) list \<Rightarrow> Volmeter_Parameter_T list \<Rightarrow> fault + Volmeter_Parameter_T list" where
  "store_rows i [] ms = Inr ms"
| "store_rows i ((t, v) # rows) ms = (let (i, ms) = meter_of (atoi t) i ms in
     rbind (set_reading (c_rem (atoi t) 3) i v ms) (\<lambda>ms. store_rows i rows ms))"

lemma read_rows: "list_all row_ok rows \<Longrightarrow> read_meters i (rows_text rows) ms = store_rows i rows ms"
proof (induction rows arbitrary: i ms)
  case Nil
  then show ?case by (subst read_meters.simps) (simp add: rows_text_def next_field_none)
next
  case (Cons r rows)
  obtain t v where r: "r = (t, v)" by fastforce
  have t: "rows_text (r # rows) = t @ CHR '','' # v @ CHR '','' # rows_text rows" by (simp add: r rows_text_def)
  have "row_ok (t, v)" using Cons.prems r by simp
  then have o: "next_field (t @ CHR '','' # v @ CHR '','' # rows_text rows) = Some (t, v @ CHR '','' # rows_text rows)"
    "next_field (v @ CHR '','' # rows_text rows) = Some (v, rows_text rows)" "fit_text 24 t = Inr t"
    by (simp_all add: next_field_found row_ok_def fit_text_def)
  have ih: "read_meters j (rows_text rows) = store_rows j rows" for j using Cons by (simp add: fun_eq_iff)
  show ?case unfolding t unfolding r by (subst read_meters.simps) (simp add: o ih split: prod.splits)
qed

text \<open>The report of four meters: a number and a time, then the readings under the tags 1 to 12.\<close>

definition meter_rows :: "Volmeter_Parameter_T list \<Rightarrow> (string \<times> string) list" where
  "meter_rows ms = zip [''1'', ''2'', ''3'', ''4'', ''5'', ''6'', ''7'', ''8'', ''9'', ''10'', ''11'', ''12'']
     (concat (map (\<lambda>m. [dataU m, dataI m, dataP m]) ms))"

definition reading_ok :: "string \<Rightarrow> bool" where
  "reading_ok v \<longleftrightarrow> CHR '','' \<notin> set v \<and> NUL \<notin> set v \<and> length v < 12"

definition meters_ok :: "Volmeter_Parameter_T list \<Rightarrow> bool" where
  "meters_ok xs \<longleftrightarrow> map meterID xs = [0, 1, 2, 3] \<and> list_all (\<lambda>m. reading_ok (dataU m) \<and> reading_ok (dataI m) \<and> reading_ok (dataP m)) xs"

lemma store_report:
  assumes "length ms = 4" "meters_ok xs"
  shows "store_rows i (meter_rows xs) ms = Inr xs"
proof -
  obtain a b c d where w: "xs = [a, b, c, d]" using assms(2) by (auto simp: meters_ok_def map_eq_Cons_conv)
  obtain p q r s where m: "ms = [p, q, r, s]" using assms(1) by (auto simp: numeral_eq_Suc length_Suc_conv)
  have n: "atoi ''1'' = 1" "atoi ''2'' = 2" "atoi ''3'' = 3" "atoi ''4'' = 4" "atoi ''5'' = 5" "atoi ''6'' = 6" "atoi ''7'' = 7"
    "atoi ''8'' = 8" "atoi ''9'' = 9" "atoi ''10'' = 10" "atoi ''11'' = 11" "atoi ''12'' = 12" by code_simp+
  have f: "fit_text 12 v = Inr v" if "reading_ok v" for v using that by (simp add: fit_text_def reading_ok_def)
  show ?thesis using assms(2) unfolding w m
    by (simp add: meter_rows_def meters_ok_def n meter_of_def c_rem_def set_reading_def f)
qed

definition meters_json :: "Volmeter_Parameter_T list \<Rightarrow> json" where
  "meters_json xs = JObj [(''cmd'', JStr ''pushcicrealdata''), (''data'', JArr (map (\<lambda>m. JObj (members (meter_fields m))) xs))]"

lemma meter_fields_ok:
  assumes "meters_ok xs" "m \<in> set xs"
  shows "list_all (field_ok \<circ> snd) (meter_fields m)"
proof -
  have "meterID m \<in> set (map meterID xs)" using assms(2) by simp
  then have "0 \<le> meterID m" "meterID m \<le> 3" using assms(1) by (auto simp: meters_ok_def)
  then show ?thesis using assms by (auto simp: meters_ok_def list_all_iff reading_ok_def meter_fields_def)
qed

lemma meters_json_ok: "meters_ok xs \<Longrightarrow> json_ok (meters_json xs)"
proof -
  assume x: "meters_ok xs"
  have "json_ok (JObj (members (meter_fields m)))" if "m \<in> set xs" for m
    by (rule members_ok [OF meter_fields_ok [OF x that]]) (auto simp: meter_fields_def)
  then show ?thesis by (simp add: meters_json_def list_all_iff comp_def)
qed

lemma meters_message:
  assumes "meters_ok xs"
  shows "JsonMapPushCICRealDataMake fd xs msg = put_all msg 0 (json_text (meters_json xs) False 0)"
proof -
  have "\<forall>fs \<in> set (map meter_fields xs). list_all (field_ok \<circ> snd) fs" using meter_fields_ok [OF assms] by (auto simp del: o_apply)
  moreover have "strip cJSON_CreateArray = repr (JArr [])" "ctype cJSON_CreateArray = cJSON_Array" by (simp_all add: cJSON_CreateArray_def)
  ultimately obtain a where a: "add_named cJSON_CreateArray ''Realdata'' (map meter_fields xs) = Inr a"
    "strip a = repr (JArr (map (\<lambda>fs. JObj (members fs)) (map meter_fields xs)))"
    using strip_named [of cJSON_CreateArray "[]" "map meter_fields xs" "''Realdata''"] by (auto simp del: repr.simps list.map_comp map_map)
  have c: "add_fields cJSON_CreateObject [(''cmd'', FStr ''pushcicrealdata'')] = Inr (repr (JObj (members [(''cmd'', FStr ''pushcicrealdata'')])))"
    by (rule create_fields) simp
  let ?r = "repr (JObj (members [(''cmd'', FStr ''pushcicrealdata'')]))"
  have "ctype ?r = cJSON_Object" by simp
  from strip_add_object [OF this, of "''data''" a] have s: "strip (cJSON_AddItemToObject ?r ''data'' (Some a)) = repr (meters_json xs)"
    unfolding a(2) strip_repr repr_add by (simp add: meters_json_def comp_def del: repr.simps)
  have "cJSON_PrintUnformatted fd (cJSON_AddItemToObject ?r ''data'' (Some a)) = Inr (Some (json_text (meters_json xs) False 0))"
    using print_repr [OF meters_json_ok [OF assms], of fd] unfolding s [symmetric] strip_print_unformatted .
  then show ?thesis unfolding JsonMapPushCICRealDataMake_def c a(1) by simp
qed

lemma join_array_chars: "\<forall>t \<in> set ts. NUL \<notin> set t \<Longrightarrow> NUL \<notin> set (join_array fmt ts)"
  by (induction fmt ts rule: join_array.induct) auto

lemma join_object_chars: "\<forall>(k, t) \<in> set ts. NUL \<notin> set k \<and> NUL \<notin> set t \<Longrightarrow> NUL \<notin> set (join_object fmt d ts)"
  by (induction fmt d ts rule: join_object.induct) (auto simp: tabs_def)

lemma json_text_no_NUL: "NUL \<notin> set (json_text j fmt d)"
proof (induction j arbitrary: fmt d)
  case (JArr js)
  then have "NUL \<notin> set (join_array fmt (map (\<lambda>f. f fmt (Suc d)) (map json_text js)))" by (intro join_array_chars) auto
  then show ?case by simp
next
  case (JObj ms)
  have "NUL \<notin> set (join_object fmt (Suc d) (map (\<lambda>(s, f). (quoted s, f fmt (Suc d))) (map (map_prod id json_text) ms)))"
    using JObj quoted_no_NUL by (intro join_object_chars) fastforce
  then show ?case by (simp add: tabs_def)
qed (simp_all add: quoted_no_NUL print_int_no_NUL)

text \<open>The message has 256 characters; reports whose texts are longer together overrun it, though each fits into its array.\<close>

lemma meters_overrun:
  "meters_ok xs \<Longrightarrow> 256 < length (json_text (meters_json xs) False 0) \<Longrightarrow> JsonMapPushCICRealDataMake fd xs (replicate 256 NUL) = Inl OutOfBounds"
  by (simp add: meters_message put_all_overflow del: json_text.simps)

lemma full_readings_overrun:
  "256 < length (json_text (meters_json (map (\<lambda>k. \<lparr>meterID = k, dataU = ''230.123'', dataI = ''12.3456'', dataP = ''2829.12''\<rparr>) [0, 1, 2, 3])) False 0)"
  by code_simp

text \<open>
  C40. A report of the four meters, with the readings under the tags 1 to 12, replaces whatever the program holds by exactly these
  readings, and one message with all of them is published, as long as its text has less than 256 characters.
\<close>

theorem meters_report:
  assumes "meters_ok xs" "length ms = 4" "NUL \<notin> set msg" "length msg < 255"
    and "msg @ '','' = station @ '','' @ time @ '','' @ rows_text (meter_rows xs)"
    and "CHR '','' \<notin> set station" "CHR '','' \<notin> set time" "length time < 24" "length (json_text (meters_json xs) False 0) < 256"
  shows "\<exists>t. CICTMQ_Message_Cb fd ''GS12/Data'' (msg @ [NUL]) ms = Inr (xs, [Publish MAIN_SERVER_PUSH_TOPIC t]) \<and>
    cJSON_Parse (t @ [NUL]) = Some (Inr (Some (repr (meters_json xs))))"
proof -
  let ?t = "json_text (meters_json xs) False 0"
  have rows: "list_all row_ok (meter_rows xs)"
  proof -
    obtain a b c d where x: "xs = [a, b, c, d]" using assms(1) by (auto simp: meters_ok_def map_eq_Cons_conv)
    show ?thesis using assms(1) by (simp add: x meters_ok_def meter_rows_def row_ok_def reading_ok_def)
  qed
  have m: "c_str (msg @ [NUL]) 0 = Inr msg" by (rule text_before_NUL [OF assms(3)])
  have "take 255 (msg @ '','') = station @ CHR '','' # time @ CHR '','' # rows_text (meter_rows xs)"
  proof -
    have "length (msg @ '','') \<le> 255" using assms(4) by simp
    from take_all [OF this] show ?thesis unfolding assms(5) by simp
  qed
  then have f: "next_field (take 255 (msg @ '','')) = Some (station, time @ CHR '','' # rows_text (meter_rows xs))"
    "next_field (time @ CHR '','' # rows_text (meter_rows xs)) = Some (time, rows_text (meter_rows xs))"
    using next_field_found assms(6,7) by simp_all
  have r: "read_meters 0 (rows_text (meter_rows xs)) ms = Inr xs"
    using read_rows [OF rows] store_report [OF assms(2,1)] by simp
  have j: "json_ok (meters_json xs)" by (rule meters_json_ok [OF assms(1)])
  have n: "NUL \<notin> set ?t" by (rule json_text_no_NUL)
  have "?t @ replicate (256 - length ?t) NUL = ?t @ NUL # replicate (255 - length ?t) NUL"
    using assms(9) by (simp add: Suc_diff_Suc [symmetric] del: json_text.simps flip: replicate_Suc)
  then have s: "JsonMapPushCICRealDataMake fd xs (replicate 256 NUL) = Inr (?t @ NUL # replicate (255 - length ?t) NUL)"
    using assms(9) by (simp add: meters_message [OF assms(1)] put_all_fits del: json_text.simps)
  have "CICTMQ_Message_Cb fd ''GS12/Data'' (msg @ [NUL]) ms = Inr (xs, [Publish MAIN_SERVER_PUSH_TOPIC ?t])"
    unfolding CICTMQ_Message_Cb_def ParesCICRealData_def m rbind_simps f option.case prod.case
    using assms(8) by (simp add: r s text_before_NUL [OF n] fit_text_def del: json_text.simps)
  then show ?thesis using parse_repr [OF j, of "[]"] by blast
qed

definition gate_meters :: "Volmeter_Parameter_T list" where
  "gate_meters = map (\<lambda>k. \<lparr>meterID = k, dataU = ''230.1'', dataI = ''4.5'', dataP = ''1035''\<rparr>) [0, 1, 2, 3]"

definition gate_report :: string where
  "gate_report = ''GS12,20210701,1,230.1,2,4.5,3,1035,4,230.1,5,4.5,6,1035,7,230.1,8,4.5,9,1035,10,230.1,11,4.5,12,1035''"

theorem meters_report_witness:
  "\<exists>t. CICTMQ_Message_Cb (\<lambda>_. []) ''GS12/Data'' (gate_report @ [NUL]) electpar0 = Inr (gate_meters, [Publish MAIN_SERVER_PUSH_TOPIC t])"
proof -
  have 1: "meters_ok gate_meters" by code_simp
  have 2: "length electpar0 = 4" by (simp add: electpar0_def Volmeter_Number_def)
  have 3: "NUL \<notin> set gate_report" "length gate_report < 255" by (simp_all add: gate_report_def)
  have 4: "gate_report @ '','' = ''GS12'' @ '','' @ ''20210701'' @ '','' @ rows_text (meter_rows gate_meters)" by code_simp
  have 5: "CHR '','' \<notin> set ''GS12''" "CHR '','' \<notin> set ''20210701''" "length ''20210701'' < 24" by simp_all
  have 6: "length (json_text (meters_json gate_meters) False 0) < 256" by code_simp
  show ?thesis using meters_report [OF 1 2 3 4 5 6, of "\<lambda>_. []"] by blast
qed

end
