(* ===== verification/Spec2Isabelle.thy ===== *)
theory Spec2Isabelle
  imports MediaQueue AlarmManage WebSocket Base64 Author UsrMem Gateway ShopApi HkManage Meters
begin

text \<open>
  A model of the video management gateway, the program that \<^verbatim>\<open>src/Src/main.c\<close> starts: it takes requests over HTTP,
  WebSocket, MQTT and plain sockets, keeps accounts, devices and sessions, queues the frames and alarms of cameras, and stores
  and counts what they see.

  \<^bold>\<open>Parts and how they interact.\<close>
  \<^verbatim>\<open>AdpHandleInit\<close> starts the modules: configuration, clock, accounts, devices, alarms, the data base, the analyses.
  Then the front ends are started. A request over HTTP runs through \<open>TSocket\<close> (the thread that polls the sockets), the
  callbacks of \<open>HttpApi\<close> (is the request complete? parse it, answer it), and \<open>JsonApi\<close>, which finds the session and calls the
  handler of the command with the session's table of operations. \<open>AdpApi\<close> fills these tables when a user logs in: which entries
  point to working functions depends on the level of the account, which \<open>UsrManage\<close> keeps. The handlers work on \<open>UsrManage\<close>,
  \<open>DeviceManage\<close>, the configuration (\<open>Config\<close> through \<open>JsonMap\<close>, both on \<open>CJson\<close>), and the analyses. The modules keep their
  records behind the handle lists of \<open>HandleManage\<close>. Frames go from a camera to the front ends through \<open>MediaQueue\<close>, alarms through
  \<open>AlarmManage\<close>, captures of cars through \<open>VehicleData\<close> to the data base.

  \<^bold>\<open>Theories and sources.\<close>

  \<^item> \<open>Prelude\<close>: outcomes (\<open>fault + 'a\<close> for code that always ends, \<open>run\<close> where it may not), return codes, shared lemmas.
    \<open>CString\<close>: character buffers and the functions of \<^verbatim>\<open>string.h\<close> and \<^verbatim>\<open>stdio.h\<close> on them.
  \<^item> \<open>HandleManage\<close>: \<^verbatim>\<open>src/Modules/HandleManage\<close> with its nodes in a heap. Its operations refine those on a plain list
    (\<open>hl_step\<close>), one step and every sequence of steps. \<open>Registry\<close>: records behind such a list, as the modules above it use them.
  \<^item> \<open>RingBuffer\<close> and \<open>MediaQueue\<close>: \<^verbatim>\<open>src/Modules/MediaQueue\<close>. Positions in the buffer are refined to queues of frames;
    several readers have positions of their own.
  \<^item> \<open>UsrManage\<close>, \<open>DeviceManage\<close>, \<open>AlarmManage\<close>: the modules of the same names under \<^verbatim>\<open>src/Modules\<close>. Producers and the delivery
    thread of the alarms are a step relation; the mutex makes each step of it atomic.
  \<^item> \<open>AdpApi\<close>: \<^verbatim>\<open>src/Adp\<close>, sessions and tables of operations; a table is the list of entries that are not stubs.
  \<^item> \<open>TSocket\<close>, \<open>HttpApi\<close>, \<open>JsonApi\<close>, \<open>Gateway\<close>: \<^verbatim>\<open>src/ExtLibs/TSocket\<close>, \<^verbatim>\<open>src/App/HttpAPI\<close>, \<^verbatim>\<open>src/App/JsonAPI\<close>, and their
    composition. \<open>WebSocket\<close>: \<^verbatim>\<open>src/App/WebServer\<close>.
  \<^item> \<open>CJson\<close>, \<open>Config\<close>, \<open>JsonMap\<close>: \<^verbatim>\<open>src/ExtLibs/CJson\<close> and \<^verbatim>\<open>src/ExtLibs/Config\<close>, with the modules \<^verbatim>\<open>DeviceInfo\<close> and the
    alarm levels of \<^verbatim>\<open>HkSdkManage\<close>, which are stored there.
  \<^item> \<open>Base64\<close>, \<open>Author\<close>, \<open>UsrMem\<close>, \<open>UsrString\<close>: the libraries \<^verbatim>\<open>Base64\<close>, \<^verbatim>\<open>MyAuthor\<close>, \<^verbatim>\<open>List\<close> with \<^verbatim>\<open>UsrMem\<close>, and \<^verbatim>\<open>UsrString\<close> under
    \<^verbatim>\<open>src/ExtLibs\<close>.
  \<^item> \<open>Calendar\<close>, \<open>TimeZone\<close>, \<open>TimeManage\<close>: \<^verbatim>\<open>src/Modules/TimeManage\<close>; the calendar functions of the C library it calls are
    defined on the Gregorian calendar.
  \<^item> \<open>VehicleData\<close>, \<open>VehicleAnalysis\<close>: \<^verbatim>\<open>src/Modules/VehicleDataAnalysis\<close>, the thread that stores captures and the analyses. Publishing a
    capture waits as long as the broker is not reached (\<open>publish\<close>). The question for the latest visit of a car is the one that \<^verbatim>\<open>mysqlctrl.c\<close>
    sends, whose answer may be about another car with the same time; the same holds for visitors in \<open>Attendance\<close>.
  \<^item> \<open>DateText\<close>, \<open>StationJson\<close>, \<open>VehicleLists\<close>, \<open>StationApi\<close>: dates as texts, the second part of \<^verbatim>\<open>jsonmap.c\<close>, the queries that
    copy rows, and the traffic and alarm commands of \<^verbatim>\<open>jsonswitch.c\<close>, which instantiate the argument \<open>others\<close> of \<open>JsonSwitch\<close>.
  \<^item> \<open>Attendance\<close>, \<open>ShopApi\<close>: \<^verbatim>\<open>src/Modules/AttendanceManage\<close> (staff, visitors and customers), \<^verbatim>\<open>src/Modules/FuelQuantityAnalysis\<close>,
    and their commands, as above.
  \<^item> \<open>DvrConfig\<close>, \<open>HkManage\<close>: \<^verbatim>\<open>src/Modules/HkSdkManage\<close>, the recorders in the configuration (\<^verbatim>\<open>hklistconf.c\<close>) and the lists of those
    that are logged in (\<^verbatim>\<open>hkManage.c\<close> from line 1209 on), with their commands. The rows of these lists carry names that printing
    ignores, so the configuration is compared without them (\<open>strip\<close>).
  \<^item> \<open>MqttApi\<close>: \<^verbatim>\<open>src/App/MqttAPI\<close>, the callback that hands requests over MQTT to \<open>JsonSwitch\<close>. \<open>Meters\<close>: \<^verbatim>\<open>src/App/HJ212API\<close> and
    \<^verbatim>\<open>src/App/CICTAPI\<close>, the readings of the weather station and of the electricity meters.

  Records, enumerations and functions have the names of the source; loops are recursive functions named after the function
  they belong to.

  \<^bold>\<open>State and effects.\<close>
  Each module has a record of its state, which its operations return updated. Blocks from \<^verbatim>\<open>malloc\<close> are entries of finite maps
  from addresses: reading a freed or foreign address is the fault \<open>BadPointer\<close>, leaving an array \<open>OutOfBounds\<close>, following NULL
  \<open>NullDeref\<close>, a failed \<^verbatim>\<open>assert\<close> \<open>AssertFailed\<close>. The address \<^verbatim>\<open>malloc\<close> returns is an argument, 0 when it fails. What the kernel,
  the data base and other libraries answer are arguments as well (\<open>fd\<close> prints a number that is not an integer, \<open>alloc\<close> chooses
  addresses, records of functions stand for tables of callbacks, \<open>junk\<close> and \<open>u\<close> are what an array or a record of the stack
  holds before). Integers are words where they wrap, and \<open>int\<close> where the
  code cannot overflow or a property bounds them.

  \<^bold>\<open>Interfaces.\<close>
  \<open>handle_list\<close> is the contract of a handle list, interpreted on the heap of \<open>HandleManage\<close>. \<open>keyed_registry\<close> is the contract of a
  table with keys (look up after adding and deleting), interpreted on accounts, devices and WebSocket links. \<open>frame_queue\<close> is
  the contract of a ring of frames, interpreted on the media queue. \<open>text_format\<close> is printing and parsing, interpreted on
  both printers of \<open>CJson\<close>; \<open>config_store\<close> is a store with names, interpreted on the configuration. \<open>service\<close> is what the socket
  server needs of its callbacks, interpreted on the HTTP front end.

  \<^bold>\<open>What the lemmas show.\<close>
  Lists, tables and queues refine plain lists and maps and keep their invariants under every operation, faults excluded or
  characterised. Formats (JSON, configuration, records as JSON, WebSocket frames, Base64, keys, dates) are read back as written. Sessions
  and levels: no sequence of account operations raises a level above the caller's, no command without a session changes
  anything, a log-out ends the session. The servers end their loops and answer requests as specified. Where the code has a defect, a
  theorem states when it shows: alarms used after being freed, operations that still work after a log-out, long requests and
  new cars that overrun buffers, user names of 128 characters that overrun a session's table, lengths of WebSocket frames that nobody checks,
  recorders whose list entries point to variables that are gone. The servers' theorems name what the code takes for granted: descriptors that fit an
  \<^verbatim>\<open>fd_set\<close>, the 5 MB allocated on each visit, identifiers of sessions that do not repeat.

  \<^bold>\<open>Bounds and fuel.\<close>
  The JSON parser runs with fuel three times the length of the text plus one, and \<open>CJson\<close> shows this to be enough
  for every text. \<open>proc_run\<close>, \<open>server_exec\<close> and \<open>MemoryDataToDatabasePro\<close> take the number of turns of a thread that runs until the
  program ends; the theorems name a number after which the work is done. Loops that could run forever are
  \<^verbatim>\<open>partial_function (option)\<close>, and the theorems prove that they return.

  \<^bold>\<open>Not modelled.\<close>
  The statements that \<^verbatim>\<open>mysqlctrl.c\<close> sends to MySQL, but for the two questions about latest visits (\<open>MySqlCtrlGetLatestFrontageInfo\<close> and
  \<open>MySqlCtrlGetLatestVisitorsInfo\<close>), whose contracts \<open>street_db\<close> and \<open>visitor_db\<close> say what SQL makes of the rows stored; and the callbacks of Hikvision's HCNetSDK (\<^verbatim>\<open>hkManage.c\<close> up to line 1207,
  \<^verbatim>\<open>hkDataprase.c\<close>): their work is done by a server and a library outside \<^verbatim>\<open>src/\<close>, whose answers are arguments here. Kafka, SMTP and RTMP front ends and the
  threads of the MQTT clients, which are glue around client libraries. Vendored libraries (curl, mosquitto, polarssl, mxml, librtmp, libmp4, libavi and others) and the
  headers of third parties. Threads are interleaved between critical sections, not within them; time spent is not modelled,
  and reading memory that was never written is excluded by the callers' initialisation or treated as a fault.
\<close>

end
